(* ===== verification/Awf_Prelude.thy ===== *)
theory Awf_Prelude
  imports Complex_Main "HOL-Library.Sublist"
begin

text \<open>
  Shared vocabulary of the development. Go strings and byte slices are byte sequences, so both
  are \<^typ>\<open>string\<close> (a \<^typ>\<open>char\<close> is one byte). A Go function that returns \<open>(T, error)\<close> is a
  function into a sum type with \<open>Inl\<close> for the error. Here are the few functions of the packages
  \<^verbatim>\<open>strings\<close>, \<^verbatim>\<open>strconv\<close> and \<^verbatim>\<open>unicode\<close> that the modelled code calls, the
  sequencing operator for fallible code, and the lemma collections the components share.
\<close>

named_theorems go_string \<open>facts about the string functions of the Go library\<close>
named_theorems run_simps \<open>evaluation of the small functions of a component\<close>

subsection \<open>Fallible results\<close>

definition rbind :: "'e + 'a \<Rightarrow> ('a \<Rightarrow> 'e + 'b) \<Rightarrow> 'e + 'b" where
  "rbind r f = (case r of Inl e \<Rightarrow> Inl e | Inr x \<Rightarrow> f x)"

definition is_ok :: "'e + 'a \<Rightarrow> bool" where
  "is_ok r = (case r of Inl _ \<Rightarrow> False | Inr _ \<Rightarrow> True)"

subsection \<open>Package strings\<close>

definition hasPrefix :: "string \<Rightarrow> string \<Rightarrow> bool" where
  "hasPrefix s p = (take (length p) s = p)"

definition hasSuffix :: "string \<Rightarrow> string \<Rightarrow> bool" where
  "hasSuffix s p = (length p \<le> length s \<and> drop (length s - length p) s = p)"

definition trimPrefix :: "string \<Rightarrow> string \<Rightarrow> string" where
  "trimPrefix s p = (if hasPrefix s p then drop (length p) s else s)"

definition trimSuffix :: "string \<Rightarrow> string \<Rightarrow> string" where
  "trimSuffix s p = (if hasSuffix s p then take (length s - length p) s else s)"

text \<open>\<open>strings.Index\<close>: the offset of the first occurrence, \<open>None\<close> for Go's \<open>-1\<close>.\<close>

fun indexOf :: "string \<Rightarrow> string \<Rightarrow> nat option" where
  "indexOf s p = (if hasPrefix s p then Some 0
     else (case s of [] \<Rightarrow> None | _ # t \<Rightarrow> map_option Suc (indexOf t p)))"

declare indexOf.simps [simp del]

definition contains :: "string \<Rightarrow> string \<Rightarrow> bool" where
  "contains s p = (indexOf s p \<noteq> None)"

text \<open>\<open>strings.Split(s, ".")\<close> and \<open>strings.Join(parts, ".")\<close> for the one separator the code uses.\<close>

fun splitDot :: "string \<Rightarrow> string list" where
  "splitDot [] = [[]]"
| "splitDot (c # s) =
     (if c = CHR ''.'' then [] # splitDot s
      else (case splitDot s of [] \<Rightarrow> [[c]] | p # ps \<Rightarrow> (c # p) # ps))"

fun joinDot :: "string list \<Rightarrow> string" where
  "joinDot [] = []"
| "joinDot [p] = p"
| "joinDot (p # q # ps) = p @ ''.'' @ joinDot (q # ps)"

text \<open>
  \<open>strings.TrimSpace\<close> removes leading and trailing code points for which \<open>unicode.IsSpace\<close>
  holds; the byte sequences are their UTF-8 encodings.
\<close>

definition space_seqs :: "string list" where
  "space_seqs =
     map (map char_of)
      ([[9], [10], [11], [12], [13], [32], [194, 133], [194, 160], [225, 154, 128]]
       @ map (\<lambda>b. [226, 128, b]) [128, 129, 130, 131, 132, 133, 134, 135, 136, 137, 138]
       @ [[226, 128, 168], [226, 128, 169], [226, 128, 175], [226, 129, 159],
          [227, 128, 128 :: nat]])"

fun stripSeqs :: "string list \<Rightarrow> nat \<Rightarrow> string \<Rightarrow> string" where
  "stripSeqs seqs 0 s = s"
| "stripSeqs seqs (Suc n) s =
     (case find (\<lambda>p. hasPrefix s p) seqs of
        None \<Rightarrow> s
      | Some p \<Rightarrow> stripSeqs seqs n (drop (length p) s))"

definition trimSpace :: "string \<Rightarrow> string" where
  "trimSpace s =
     (let l = stripSeqs space_seqs (length s) s
      in rev (stripSeqs (map rev space_seqs) (length l) (rev l)))"

subsection \<open>Package strconv\<close>

definition isDigit :: "char \<Rightarrow> bool" where
  "isDigit c = (48 \<le> (of_char c :: nat) \<and> (of_char c :: nat) \<le> 57)"

definition digit_val :: "char \<Rightarrow> nat" where
  "digit_val c = of_char c - 48"

definition digit_char :: "nat \<Rightarrow> char" where
  "digit_char d = char_of (48 + d)"

fun nat_digits :: "nat \<Rightarrow> string" where
  "nat_digits n = (if n < 10 then [digit_char n] else nat_digits (n div 10) @ [digit_char (n mod 10)])"

declare nat_digits.simps [simp del]

text \<open>\<open>strconv.Itoa\<close>.\<close>

definition itoa :: "int \<Rightarrow> string" where
  "itoa i = (if i < 0 then ''-'' @ nat_digits (nat (- i)) else nat_digits (nat i))"

definition digits_val :: "string \<Rightarrow> nat" where
  "digits_val ds = foldl (\<lambda>n c. 10 * n + digit_val c) 0 ds"

text \<open>
  \<open>strconv.ParseInt(s, 10, 64)\<close> (and \<open>strconv.Atoi\<close> on a 64-bit platform): an optional sign,
  at least one digit, a value in the \<open>int64\<close> range; \<open>None\<close> is any error.
\<close>

definition parse_int64 :: "string \<Rightarrow> int option" where
  "parse_int64 s =
     (let neg = (s \<noteq> [] \<and> hd s = CHR ''-'');
          ds = (if s \<noteq> [] \<and> (hd s = CHR ''-'' \<or> hd s = CHR ''+'') then tl s else s)
      in if ds = [] \<or> \<not> list_all isDigit ds then None
         else let v = (if neg then - int (digits_val ds) else int (digits_val ds))
              in if - (2 ^ 63) \<le> v \<and> v < 2 ^ 63 then Some v else None)"

subsection \<open>Facts about results\<close>

lemma rbind_simps [simp]: "rbind (Inl e) f = Inl e" "rbind (Inr x) f = f x"
  by (simp_all add: rbind_def)

lemma rbind_eq_Inr [simp]: "rbind r f = Inr y \<longleftrightarrow> (\<exists>x. r = Inr x \<and> f x = Inr y)"
  by (cases r) (auto simp: rbind_def)

lemma is_ok_simps [simp]: "\<not> is_ok (Inl e)" "is_ok (Inr x)"
  by (simp_all add: is_ok_def)

subsection \<open>Facts about strings\<close>

lemma hasPrefix_append [simp, go_string]: "hasPrefix (p @ s) p"
  by (simp add: hasPrefix_def)

lemma hasPrefix_iff: "hasPrefix s p \<longleftrightarrow> (\<exists>t. s = p @ t)"
  by (metis append_eq_conv_conj hasPrefix_def)

lemma trimPrefix_append [simp, go_string]: "trimPrefix (p @ s) p = s"
  by (simp add: trimPrefix_def)

lemma hasSuffix_append [simp, go_string]: "hasSuffix (s @ p) p"
  by (simp add: hasSuffix_def)

lemma trimSuffix_append [simp, go_string]: "trimSuffix (s @ p) p = s"
  by (simp add: trimSuffix_def)

lemma splitDot_not_Nil [simp]: "splitDot s \<noteq> []"
  by (induction s) (auto split: list.splits)

lemma joinDot_Cons: "ps \<noteq> [] \<Longrightarrow> joinDot (p # ps) = p @ ''.'' @ joinDot ps"
  by (cases ps) auto

lemma joinDot_splitDot [simp, go_string]: "joinDot (splitDot s) = s"
proof (induction s)
  case (Cons c s)
  show ?case
  proof (cases "splitDot s")
    case Nil
    then show ?thesis by simp
  next
    case (Cons p ps)
    with \<open>joinDot (splitDot s) = s\<close> show ?thesis
      by (cases ps) (auto simp: joinDot_Cons)
  qed
qed simp

lemma splitDot_no_dot: "CHR ''.'' \<notin> set s \<Longrightarrow> splitDot s = [s]"
  by (induction s) auto

lemma splitDot_append_dot:
  "CHR ''.'' \<notin> set p \<Longrightarrow> splitDot (p @ CHR ''.'' # s) = p # splitDot s"
  by (induction p) auto

lemma splitDot_joinDot:
  "ps \<noteq> [] \<Longrightarrow> list_all (\<lambda>p. CHR ''.'' \<notin> set p) ps \<Longrightarrow> splitDot (joinDot ps) = ps"
proof (induction ps rule: joinDot.induct)
  case (3 p q ps)
  then show ?case by (simp add: splitDot_append_dot)
qed (simp_all add: splitDot_no_dot)

lemma joinDot_append:
  "ps \<noteq> [] \<Longrightarrow> qs \<noteq> [] \<Longrightarrow> joinDot (ps @ qs) = joinDot ps @ ''.'' @ joinDot qs"
proof (induction ps rule: joinDot.induct)
  case (2 p)
  then show ?case by (simp add: joinDot_Cons)
next
  case (3 p q ps)
  then show ?case by (simp add: joinDot_Cons)
qed simp

lemma splitDot_append:
  "splitDot (a @ CHR ''.'' # b) = splitDot a @ splitDot b"
  by (induction a) (auto split: list.splits)

subsection \<open>Facts about decimal numbers\<close>

lemma isDigit_digit_char [simp]: "d < 10 \<Longrightarrow> isDigit (digit_char d)"
  by (simp add: isDigit_def digit_char_def)

lemma digit_val_digit_char [simp]: "d < 10 \<Longrightarrow> digit_val (digit_char d) = d"
  by (simp add: digit_val_def digit_char_def)

lemma digits_val_append:
  "digits_val (xs @ [c]) = 10 * digits_val xs + digit_val c"
  by (simp add: digits_val_def)

lemma nat_digits_not_Nil [simp]: "nat_digits n \<noteq> []"
  by (subst nat_digits.simps) simp

lemma nat_digits_digits: "list_all isDigit (nat_digits n)"
  by (induction n rule: nat_digits.induct) (subst nat_digits.simps, simp)

lemma digits_val_nat_digits [simp]: "digits_val (nat_digits n) = n"
proof (induction n rule: nat_digits.induct)
  case (1 n)
  show ?case
  proof (cases "n < 10")
    case True
    then show ?thesis by (subst nat_digits.simps) (simp add: digits_val_def)
  next
    case False
    with 1 have "digits_val (nat_digits (n div 10)) = n div 10" by simp
    with False show ?thesis
      by (subst nat_digits.simps) (simp add: digits_val_append)
  qed
qed

lemma isDigit_not_sign: "isDigit c \<Longrightarrow> c \<noteq> CHR ''-'' \<and> c \<noteq> CHR ''+'' \<and> c \<noteq> CHR ''.''"
  by (auto simp: isDigit_def)

lemma hd_nat_digits: "isDigit (hd (nat_digits n))"
  using nat_digits_digits [of n] by (cases "nat_digits n") (auto simp: list_all_iff)

text \<open>Printing and parsing decimal numbers are inverse on the \<open>int64\<close> range.\<close>

lemma parse_int64_itoa [simp, go_string]:
  assumes "- (2 ^ 63) \<le> i" and "i < 2 ^ 63"
  shows "parse_int64 (itoa i) = Some i"
proof (cases "i < 0")
  case True
  then have "itoa i = CHR ''-'' # nat_digits (nat (- i))" by (simp add: itoa_def)
  with True assms show ?thesis
    by (simp add: parse_int64_def nat_digits_digits)
next
  case False
  then have "itoa i = nat_digits (nat i)" by (simp add: itoa_def)
  with False assms show ?thesis
    using isDigit_not_sign [OF hd_nat_digits, of "nat i"]
    by (simp add: parse_int64_def nat_digits_digits)
qed

lemma itoa_inj: "itoa i = itoa j \<Longrightarrow> i = j"
proof -
  assume eq: "itoa i = itoa j"
  have hd: "hd (nat_digits n) \<noteq> CHR ''-''" for n
    using isDigit_not_sign [OF hd_nat_digits, of n] by simp
  show "i = j"
  proof (cases "i < 0 \<longleftrightarrow> j < 0")
    case True
    with eq have "nat_digits (nat \<bar>i\<bar>) = nat_digits (nat \<bar>j\<bar>)"
      by (auto simp: itoa_def split: if_splits)
    then have "nat \<bar>i\<bar> = nat \<bar>j\<bar>" by (metis digits_val_nat_digits)
    with True show ?thesis by (auto simp: abs_if split: if_splits)
  next
    case False
    with eq have "hd (itoa i) = hd (itoa j)" by simp
    with False show ?thesis
      using hd [of "nat i"] hd [of "nat j"]
      by (auto simp: itoa_def split: if_splits)
  qed
qed

lemma itoa_no_dot: "CHR ''.'' \<notin> set (itoa i)"
proof -
  have "CHR ''.'' \<notin> set (nat_digits n)" for n
    using nat_digits_digits [of n] isDigit_not_sign by (fastforce simp: list_all_iff)
  then show ?thesis by (auto simp: itoa_def)
qed

end
