(* ===== verification/Go_Float.thy ===== *)
theory Go_Float
  imports Awf_Prelude "HOL-Library.Log_Nat"
begin

text \<open>
  The \<open>float64\<close> arithmetic of the modelled code. JSON carries only finite numbers, so a
  \<open>float64\<close> value is the rational number it denotes. \<open>round_f64\<close> is IEEE 754 binary64 rounding
  to nearest, ties to even, \<open>None\<close> on overflow; a product of two values is the rounded exact
  product. \<open>parse_f64\<close> is \<open>strconv.ParseFloat\<close> on decimal literals. The lemmas say that
  representable values are fixed points and that rounding never crosses a representable value.
\<close>

subsection \<open>Rounding\<close>

definition pow2 :: "int \<Rightarrow> rat" where
  "pow2 e = (if 0 \<le> e then 2 ^ nat e else 1 / 2 ^ nat (- e))"

text \<open>The exponent of the leading binary digit of a positive rational.\<close>

definition lead_exp :: "rat \<Rightarrow> int" where
  "lead_exp x =
     (case quotient_of x of (n, d) \<Rightarrow>
        let k = bitlen n - bitlen d in if pow2 k \<le> x then k else k - 1)"

text \<open>The unit in the last place of a positive \<open>float64\<close>, subnormals included.\<close>

definition ulp_exp :: "rat \<Rightarrow> int" where
  "ulp_exp x = max (lead_exp x - 52) (- 1074)"

definition round_half_even :: "rat \<Rightarrow> int" where
  "round_half_even x =
     (let f = \<lfloor>x\<rfloor>; r = x - of_int f
      in if r < 1 / 2 then f
         else if 1 / 2 < r then f + 1
         else if even f then f else f + 1)"

definition round_pos :: "rat \<Rightarrow> rat" where
  "round_pos x = of_int (round_half_even (x / pow2 (ulp_exp x))) * pow2 (ulp_exp x)"

definition round_f64 :: "rat \<Rightarrow> rat option" where
  "round_f64 x =
     (if x = 0 then Some 0
      else let v = round_pos \<bar>x\<bar>
           in if pow2 1024 \<le> v then None else Some (if x < 0 then - v else v))"

text \<open>A non-negative value is representable when it is a multiple of its own last place.\<close>

definition representable :: "rat \<Rightarrow> bool" where
  "representable x \<longleftrightarrow> x = 0 \<or> (0 < x \<and> x / pow2 (ulp_exp x) \<in> \<int>)"

subsection \<open>Operations\<close>

text \<open>\<open>a * b\<close> on \<open>float64\<close>; \<open>None\<close> stands for an infinite result.\<close>

definition fmul :: "rat \<Rightarrow> rat \<Rightarrow> rat option" where
  "fmul a b = round_f64 (a * b)"

text \<open>\<open>float64(i)\<close> for an integer: never overflows for 64-bit integers.\<close>

definition f64_of_int :: "int \<Rightarrow> rat" where
  "f64_of_int i = (case round_f64 (of_int i) of Some v \<Rightarrow> v | None \<Rightarrow> of_int i)"

text \<open>\<open>int64(f)\<close>: truncation towards zero.\<close>

definition trunc_int :: "rat \<Rightarrow> int" where
  "trunc_int x = (if x < 0 then - \<lfloor>- x\<rfloor> else \<lfloor>x\<rfloor>)"

subsection \<open>Decimal literals\<close>

definition pow10 :: "int \<Rightarrow> rat" where
  "pow10 e = (if 0 \<le> e then 10 ^ nat e else 1 / 10 ^ nat (- e))"

text \<open>
  The exact value of \<open>[sign] digits [. digits] [e [sign] digits]\<close> with at least one digit of
  mantissa: the decimal syntax \<open>strconv.ParseFloat\<close> accepts.
\<close>

definition decimal_value :: "string \<Rightarrow> rat option" where
  "decimal_value s =
     (let neg = (s \<noteq> [] \<and> hd s = CHR ''-'');
          s1 = (if s \<noteq> [] \<and> (hd s = CHR ''-'' \<or> hd s = CHR ''+'') then tl s else s);
          ip = takeWhile isDigit s1;
          s2 = dropWhile isDigit s1;
          fp = (if s2 \<noteq> [] \<and> hd s2 = CHR ''.'' then takeWhile isDigit (tl s2) else []);
          s3 = (if s2 \<noteq> [] \<and> hd s2 = CHR ''.'' then dropWhile isDigit (tl s2) else s2);
          m = rat_of_nat (digits_val (ip @ fp)) * pow10 (- int (length fp));
          sg = (if neg then - 1 else 1)
      in if ip @ fp = [] then None
         else if s3 = [] then Some (sg * m)
         else if hd s3 = CHR ''e'' \<or> hd s3 = CHR ''E'' then
           (let t = tl s3;
                eneg = (t \<noteq> [] \<and> hd t = CHR ''-'');
                ed = (if t \<noteq> [] \<and> (hd t = CHR ''-'' \<or> hd t = CHR ''+'') then tl t else t)
            in if ed = [] \<or> \<not> list_all isDigit ed then None
               else Some (sg * m * pow10 (if eneg then - int (digits_val ed) else int (digits_val ed))))
         else None)"

definition parse_f64 :: "string \<Rightarrow> rat option" where
  "parse_f64 s = Option.bind (decimal_value s) round_f64"

subsection \<open>Powers of two\<close>

lemma pow2_pos [simp]: "0 < pow2 e"
  by (simp add: pow2_def)

lemma pow2_not_neg [simp]: "pow2 e \<noteq> 0" "\<not> pow2 e < 0" "\<not> pow2 e \<le> 0"
  using pow2_pos [of e] by linarith+

lemma pow2_add: "pow2 (a + b) = pow2 a * pow2 b"
proof -
  have p: "pow2 e = (if 0 \<le> e then 2 ^ nat e else inverse (2 ^ nat (- e)))" for e
    by (simp add: pow2_def divide_inverse)
  have "pow2 e = 2 powi e" for e
    by (simp add: p power_int_def power_one_over inverse_eq_divide)
  then show ?thesis by (simp add: power_int_add)
qed

lemma pow2_0 [simp]: "pow2 0 = 1"
  by (simp add: pow2_def)

lemma pow2_of_nat: "pow2 (int n) = 2 ^ n"
  by (simp add: pow2_def)

lemma pow2_Ints: "0 \<le> e \<Longrightarrow> pow2 e \<in> \<int>"
  by (simp add: pow2_def)

lemma pow2_diff: "pow2 a / pow2 b = pow2 (a - b)"
proof -
  have "pow2 a = pow2 (a - b) * pow2 b" by (simp flip: pow2_add)
  then show ?thesis by simp
qed

lemma pow2_mono: "a \<le> b \<Longrightarrow> pow2 a \<le> pow2 b"
proof -
  assume "a \<le> b"
  then have "pow2 (b - a) \<ge> 1" by (simp add: pow2_def)
  moreover have "pow2 b = pow2 (b - a) * pow2 a" by (simp flip: pow2_add)
  ultimately show ?thesis by (simp add: mult_le_cancel_right1)
qed

lemma pow2_less_iff: "pow2 a < pow2 b \<longleftrightarrow> a < b"
proof
  assume "pow2 a < pow2 b"
  then show "a < b" using pow2_mono [of b a] by (meson not_less)
next
  assume "a < b"
  then have "pow2 (a + 1) \<le> pow2 b" by (intro pow2_mono) simp
  moreover have "pow2 (a + 1) = 2 * pow2 a" by (simp add: pow2_add pow2_def [of 1])
  ultimately show "pow2 a < pow2 b" using pow2_pos [of a] by linarith
qed

subsection \<open>The leading exponent\<close>

lemma bitlen_pow2_bounds:
  assumes "0 < (n :: int)"
  shows "pow2 (bitlen n - 1) \<le> of_int n" and "of_int n < pow2 (bitlen n)"
proof -
  have b: "2 ^ nat (bitlen n - 1) \<le> n" "n < 2 ^ nat (bitlen n)" "0 < bitlen n"
    using bitlen_bounds [OF assms] bitlen_ge_iff_power [of 1 n] assms by auto
  from b(1) have "(of_int (2 ^ nat (bitlen n - 1)) :: rat) \<le> of_int n"
    by (simp only: of_int_le_iff)
  then show "pow2 (bitlen n - 1) \<le> of_int n" using b(3) by (simp add: pow2_def)
  from b(2) have "(of_int n :: rat) < of_int (2 ^ nat (bitlen n))"
    by (simp only: of_int_less_iff)
  then show "of_int n < pow2 (bitlen n)" using b(3) by (simp add: pow2_def)
qed

lemma lead_exp_bounds:
  assumes "0 < x"
  shows "pow2 (lead_exp x) \<le> x" and "x < pow2 (lead_exp x + 1)"
proof -
  obtain n d where q: "quotient_of x = (n, d)" by (cases "quotient_of x")
  have d: "0 < d" using quotient_of_denom_pos [OF q] .
  have x: "x = of_int n / of_int d" using quotient_of_div [OF q] .
  have n: "0 < n" using assms d by (simp add: x zero_less_divide_iff)
  define k where "k = bitlen n - bitlen d"
  have bd: "pow2 (bitlen d - 1) \<le> of_int d" "(of_int d :: rat) < pow2 (bitlen d)"
    using bitlen_pow2_bounds [OF d] .
  have bn: "pow2 (bitlen n - 1) \<le> of_int n" "(of_int n :: rat) < pow2 (bitlen n)"
    using bitlen_pow2_bounds [OF n] .
  have dpos: "(0 :: rat) < of_int d" using d by simp
  have "pow2 (bitlen n - 1) \<le> of_int n" by (rule bn(1))
  have low: "pow2 (k - 1) \<le> x"
  proof -
    have "pow2 (k - 1) * of_int d \<le> pow2 (k - 1) * pow2 (bitlen d)"
      using bd(2) by (simp add: less_imp_le)
    also have "\<dots> = pow2 (bitlen n - 1)"
      by (simp add: k_def flip: pow2_add)
    also have "\<dots> \<le> of_int n" by (rule bn(1))
    finally show ?thesis using dpos by (simp add: x field_simps)
  qed
  have high: "x < pow2 (k + 1)"
  proof -
    have "(of_int n :: rat) < pow2 (bitlen n)" by (rule bn(2))
    also have "\<dots> = pow2 (k + 1) * pow2 (bitlen d - 1)"
      by (simp add: k_def flip: pow2_add)
    also have "\<dots> \<le> pow2 (k + 1) * of_int d"
      using bd(1) by simp
    finally show ?thesis using dpos by (simp add: x field_simps)
  qed
  have e: "lead_exp x = (if pow2 k \<le> x then k else k - 1)"
    by (simp add: lead_exp_def q k_def Let_def)
  show "pow2 (lead_exp x) \<le> x" using low by (simp add: e)
  show "x < pow2 (lead_exp x + 1)" using high by (simp add: e)
qed

lemma lead_exp_mono: "0 < x \<Longrightarrow> x \<le> y \<Longrightarrow> lead_exp x \<le> lead_exp y"
proof -
  assume "0 < x" "x \<le> y"
  then have "pow2 (lead_exp x) < pow2 (lead_exp y + 1)"
    using lead_exp_bounds(1) [of x] lead_exp_bounds(2) [of y] by simp
  then show ?thesis by (simp add: pow2_less_iff)
qed

lemma ulp_exp_mono: "0 < x \<Longrightarrow> x \<le> y \<Longrightarrow> ulp_exp x \<le> ulp_exp y"
  using lead_exp_mono [of x y] by (simp add: ulp_exp_def)

subsection \<open>Rounding to an integer\<close>

lemma round_half_even_le: "x \<le> of_int k \<Longrightarrow> round_half_even x \<le> k"
proof -
  assume x: "x \<le> of_int k"
  have f: "\<lfloor>x\<rfloor> \<le> k" using x by (metis floor_mono floor_of_int)
  show ?thesis
  proof (cases "\<lfloor>x\<rfloor> = k")
    case True
    with x have "x - of_int \<lfloor>x\<rfloor> \<le> 0" by simp
    with f show ?thesis by (simp add: round_half_even_def Let_def)
  next
    case False
    with f have "\<lfloor>x\<rfloor> + 1 \<le> k" by simp
    then show ?thesis by (simp add: round_half_even_def Let_def)
  qed
qed

lemma round_half_even_ge: "of_int k \<le> x \<Longrightarrow> k \<le> round_half_even x"
proof -
  assume "of_int k \<le> x"
  then have "k \<le> \<lfloor>x\<rfloor>" by (simp add: le_floor_iff)
  then show ?thesis by (simp add: round_half_even_def Let_def)
qed

lemma round_half_even_of_int [simp]: "round_half_even (of_int k) = k"
  by (simp add: round_half_even_def Let_def)

subsection \<open>Rounding to a float64\<close>

text \<open>Every representable bound survives rounding: the monotonicity that the callers need.\<close>

lemma representable_multiple:
  assumes "representable y" and "0 < y" and "e \<le> ulp_exp y"
  shows "\<exists>k. y = of_int k * pow2 e"
proof -
  from assms(1,2) obtain m where "y / pow2 (ulp_exp y) = of_int m"
    by (auto simp: representable_def elim: Ints_cases)
  then have y: "y = of_int m * pow2 (ulp_exp y)"
    using pow2_pos [of "ulp_exp y"] by (simp add: field_simps)
  have "pow2 (ulp_exp y) = pow2 (ulp_exp y - e) * pow2 e" by (simp flip: pow2_add)
  moreover obtain j where "pow2 (ulp_exp y - e) = of_int j"
    using pow2_Ints [of "ulp_exp y - e"] assms(3) by (auto elim: Ints_cases)
  ultimately have "y = of_int (m * j) * pow2 e" using y by simp
  then show ?thesis by blast
qed

lemma round_pos_le:
  assumes "0 < x" and "x \<le> y" and "representable y"
  shows "round_pos x \<le> y"
proof -
  let ?e = "ulp_exp x"
  have "?e \<le> ulp_exp y" using assms ulp_exp_mono by blast
  then obtain k where k: "y = of_int k * pow2 ?e"
    using representable_multiple [of y ?e] assms by auto
  then have "x / pow2 ?e \<le> of_int k" using assms(2) by (simp add: field_simps)
  then have "round_half_even (x / pow2 ?e) \<le> k" by (rule round_half_even_le)
  then show ?thesis by (simp add: round_pos_def k)
qed

lemma round_pos_representable: "0 < x \<Longrightarrow> representable x \<Longrightarrow> round_pos x = x"
proof -
  assume x: "0 < x" and r: "representable x"
  then obtain k where "x / pow2 (ulp_exp x) = of_int k"
    by (auto simp: representable_def elim: Ints_cases)
  then show ?thesis
    by (simp add: round_pos_def) (simp add: nonzero_divide_eq_eq)
qed

lemma round_pos_nonneg: "0 < x \<Longrightarrow> 0 \<le> round_pos x"
proof -
  assume "0 < x"
  then have "(of_int 0 :: rat) \<le> x / pow2 (ulp_exp x)" by (simp add: less_imp_le)
  from round_half_even_ge [OF this] show ?thesis
    by (simp add: round_pos_def mult_nonneg_nonneg less_imp_le)
qed

text \<open>Integers up to \<open>2^53\<close>, and such integers scaled by a power of two, are exact.\<close>

lemma representable_scaled:
  assumes "0 \<le> n" and "n \<le> 2 ^ 53" and "- 1074 \<le> e"
  shows "representable (of_int n * pow2 e)"
proof (cases "n = 0")
  case False
  let ?x = "of_int n * pow2 e"
  have pos: "0 < ?x" using False assms by simp
  have u: "?x / pow2 (ulp_exp ?x) \<in> \<int>"
  proof (cases "n = 2 ^ 53")
    case True
    then have x: "?x = pow2 (53 + e)" by (simp add: pow2_add pow2_def [of 53])
    have "pow2 (lead_exp ?x) < pow2 (54 + e)"
      using lead_exp_bounds(1) [OF pos] pow2_less_iff [of "53 + e" "54 + e"] x by simp
    then have "lead_exp ?x \<le> 53 + e" by (simp add: pow2_less_iff)
    then have "0 \<le> (53 + e) - ulp_exp ?x" using assms by (simp add: ulp_exp_def)
    then show ?thesis by (simp add: x pow2_diff pow2_Ints)
  next
    case False
    with assms have "(of_int n :: rat) < of_int (2 ^ 53)" by (simp only: of_int_less_iff)
    then have "(of_int n :: rat) < pow2 53" by (simp add: pow2_def)
    then have "?x < pow2 53 * pow2 e" by simp
    with lead_exp_bounds(1) [OF pos] have "pow2 (lead_exp ?x) < pow2 53 * pow2 e"
      by (rule le_less_trans)
    then have "pow2 (lead_exp ?x) < pow2 (53 + e)" by (simp add: pow2_add)
    then have "lead_exp ?x \<le> 52 + e" by (simp add: pow2_less_iff)
    then have "0 \<le> e - ulp_exp ?x" using assms by (simp add: ulp_exp_def)
    moreover have "?x / pow2 (ulp_exp ?x) = of_int n * pow2 (e - ulp_exp ?x)"
      by (simp flip: pow2_diff)
    ultimately show ?thesis by (simp add: pow2_Ints)
  qed
  with pos show ?thesis by (simp add: representable_def)
qed (simp add: representable_def)

lemma f64_of_int_exact:
  assumes "0 \<le> i" and "i \<le> 2 ^ 53"
  shows "f64_of_int i = of_int i"
proof (cases "i = 0")
  case False
  with assms have pos: "(0 :: rat) < of_int i" by simp
  have r: "representable (of_int i)" using representable_scaled [of i 0] assms by simp
  have "(of_int i :: rat) \<le> of_int (2 ^ 53)" using assms by (simp only: of_int_le_iff)
  then have "(of_int i :: rat) < pow2 1024"
    using pow2_less_iff [of 53 1024] by (simp add: pow2_def [of 53])
  with pos r show ?thesis
    by (simp add: f64_of_int_def round_f64_def Let_def round_pos_representable)
qed (simp add: f64_of_int_def round_f64_def)

text \<open>The rounded product of two non-negative values stays below a representable bound.\<close>

lemma fmul_le:
  assumes "0 \<le> a" "0 \<le> b" and "a * b \<le> y" and "representable y" and "y < pow2 1024"
  shows "\<exists>v. fmul a b = Some v \<and> 0 \<le> v \<and> v \<le> y"
proof (cases "a * b = 0")
  case True
  moreover have "0 \<le> y" using assms(4) by (auto simp: representable_def)
  ultimately show ?thesis by (simp add: fmul_def round_f64_def)
next
  case False
  with assms have pos: "0 < a * b" by (simp add: zero_less_mult_iff less_le)
  have "round_pos (a * b) \<le> y" using round_pos_le [OF pos assms(3,4)] .
  with pos assms(5) round_pos_nonneg [OF pos] show ?thesis
    by (simp add: fmul_def round_f64_def Let_def)
qed

lemma trunc_int_bounds: "0 \<le> x \<Longrightarrow> 0 \<le> trunc_int x \<and> of_int (trunc_int x) \<le> x"
  by (simp add: trunc_int_def)

end
