(* ===== verification/Go_Hash.thy ===== *)
theory Go_Hash
  imports Awf_Prelude "HOL-Library.Word"
begin

text \<open>
  The two checksums the durability code rests on: \<open>crypto/sha256\<close> (content addresses, retry
  jitter) and \<open>hash/crc32\<close> with the Castagnoli polynomial (log frames). Both are executable
  definitions over machine words; the proofs above them use only the lengths proved here.
\<close>

unbundle bit_operations_syntax

subsection \<open>Bytes and words\<close>

definition byte_of :: "nat \<Rightarrow> char" where
  "byte_of n = char_of (n mod 256)"

definition word32_of_bytes :: "string \<Rightarrow> 32 word" where
  "word32_of_bytes bs = word_of_nat (foldl (\<lambda>n c. 256 * n + of_char c) 0 bs)"

text \<open>Big-endian bytes of a number, \<open>k\<close> of them.\<close>

fun be_bytes :: "nat \<Rightarrow> nat \<Rightarrow> string" where
  "be_bytes 0 n = []"
| "be_bytes (Suc k) n = be_bytes k (n div 256) @ [byte_of n]"

text \<open>Little-endian bytes of a number (\<open>binary.LittleEndian.PutUint32\<close> for \<open>k = 4\<close>).\<close>

fun le_bytes :: "nat \<Rightarrow> nat \<Rightarrow> string" where
  "le_bytes 0 n = []"
| "le_bytes (Suc k) n = byte_of n # le_bytes k (n div 256)"

fun le_value :: "string \<Rightarrow> nat" where
  "le_value [] = 0"
| "le_value (c # bs) = of_char c + 256 * le_value bs"

fun be_value :: "string \<Rightarrow> nat \<Rightarrow> nat" where
  "be_value [] acc = acc"
| "be_value (c # bs) acc = be_value bs (256 * acc + of_char c)"

subsection \<open>SHA-256\<close>

definition rotr :: "nat \<Rightarrow> 32 word \<Rightarrow> 32 word" where
  "rotr n w = (drop_bit n w) OR (push_bit (32 - n) w)"

definition sha_k :: "nat list" where
  "sha_k =
    [1116352408, 1899447441, 3049323471, 3921009573, 961987163, 1508970993, 2453635748, 2870763221,
     3624381080, 310598401, 607225278, 1426881987, 1925078388, 2162078206, 2614888103, 3248222580,
     3835390401, 4022224774, 264347078, 604807628, 770255983, 1249150122, 1555081692, 1996064986,
     2554220882, 2821834349, 2952996808, 3210313671, 3336571891, 3584528711, 113926993, 338241895,
     666307205, 773529912, 1294757372, 1396182291, 1695183700, 1986661051, 2177026350, 2456956037,
     2730485921, 2820302411, 3259730800, 3345764771, 3516065817, 3600352804, 4094571909, 275423344,
     430227734, 506948616, 659060556, 883997877, 958139571, 1322822218, 1537002063, 1747873779,
     1955562222, 2024104815, 2227730452, 2361852424, 2428436474, 2756734187, 3204031479, 3329325298]"

definition sha_init :: "32 word list" where
  "sha_init = map word_of_nat
    [1779033703, 3144134277, 1013904242, 2773480762, 1359893119, 2600822924, 528734635, 1541459225]"

text \<open>Padding to a multiple of 64 bytes: a \<open>1\<close> bit, zeros, the length in bits as 64 bits.\<close>

definition sha_pad :: "string \<Rightarrow> string" where
  "sha_pad m =
     m @ [char_of (128 :: nat)]
       @ replicate ((119 - length m mod 64) mod 64) (char_of (0 :: nat))
       @ be_bytes 8 (8 * length m)"

text \<open>
  The message schedule, built newest word first: each step needs the words 2, 7, 15 and 16
  positions back.
\<close>

definition sched_next :: "32 word list \<Rightarrow> 32 word" where
  "sched_next ws =
     (let a = ws ! 14; b = ws ! 1;
          s0 = rotr 7 a XOR rotr 18 a XOR drop_bit 3 a;
          s1 = rotr 17 b XOR rotr 19 b XOR drop_bit 10 b
      in ws ! 15 + s0 + ws ! 6 + s1)"

fun sha_sched :: "nat \<Rightarrow> 32 word list \<Rightarrow> 32 word list" where
  "sha_sched 0 ws = ws"
| "sha_sched (Suc n) ws = sha_sched n (sched_next ws # ws)"

fun sha_round :: "32 word list \<Rightarrow> 32 word \<Rightarrow> 32 word list" where
  "sha_round [a, b, c, d, e, f, g, h] kw =
     (let s1 = rotr 6 e XOR rotr 11 e XOR rotr 25 e;
          ch = (e AND f) XOR ((NOT e) AND g);
          t1 = h + s1 + ch + kw;
          s0 = rotr 2 a XOR rotr 13 a XOR rotr 22 a;
          maj = (a AND b) XOR (a AND c) XOR (b AND c)
      in [t1 + (s0 + maj), a, b, c, d + t1, e, f, g])"
| "sha_round v kw = v"

fun chunks :: "nat \<Rightarrow> nat \<Rightarrow> string \<Rightarrow> string list" where
  "chunks 0 k bs = []"
| "chunks (Suc n) k bs = take k bs # chunks n k (drop k bs)"

definition sha_block :: "32 word list \<Rightarrow> string \<Rightarrow> 32 word list" where
  "sha_block hs block =
     (let ws = rev (sha_sched 48 (rev (map word32_of_bytes (chunks 16 4 block))));
          v = foldl sha_round hs (map2 (\<lambda>k w. word_of_nat k + w) sha_k ws)
      in map2 (+) hs v)"

text \<open>\<open>sha256.Sum256\<close>: 32 bytes.\<close>

definition sha256 :: "string \<Rightarrow> string" where
  "sha256 m =
     (let p = sha_pad m
      in concat (map (\<lambda>w. be_bytes 4 (unat w)) (foldl sha_block sha_init (chunks (length p div 64) 64 p))))"

subsection \<open>Hexadecimal\<close>

definition hex_digit :: "nat \<Rightarrow> char" where
  "hex_digit d = (if d < 10 then char_of (48 + d) else char_of (87 + d))"

definition hex_byte :: "char \<Rightarrow> string" where
  "hex_byte c = [hex_digit (of_char c div 16), hex_digit (of_char c mod 16)]"

text \<open>\<open>hex.EncodeToString\<close>.\<close>

definition hex_encode :: "string \<Rightarrow> string" where
  "hex_encode bs = concat (map hex_byte bs)"

definition is_lower_hex :: "char \<Rightarrow> bool" where
  "is_lower_hex c = (let n = (of_char c :: nat) in 48 \<le> n \<and> n \<le> 57 \<or> 97 \<le> n \<and> n \<le> 102)"

subsection \<open>CRC-32C\<close>

fun crc_bits :: "nat \<Rightarrow> 32 word \<Rightarrow> 32 word" where
  "crc_bits 0 r = r"
| "crc_bits (Suc n) r =
     crc_bits n (if bit r 0 then (drop_bit 1 r) XOR word_of_nat 0x82f63b78 else drop_bit 1 r)"

definition crc_byte :: "32 word \<Rightarrow> char \<Rightarrow> 32 word" where
  "crc_byte r c = crc_bits 8 (r XOR word_of_nat (of_char c))"

text \<open>\<open>crc32.Checksum(payload, crc32.MakeTable(crc32.Castagnoli))\<close>.\<close>

definition crc32c :: "string \<Rightarrow> nat" where
  "crc32c bs = unat (NOT (foldl crc_byte (NOT 0) bs))"

subsection \<open>Lengths and round trips\<close>

lemma of_char_nat_less: "(of_char c :: nat) < 256"
proof -
  have "(of_char c :: nat) mod 256 = of_char c" by simp
  then show ?thesis by (metis mod_less_divisor zero_less_numeral)
qed

lemma length_be_bytes [simp]: "length (be_bytes k n) = k"
  by (induction k n rule: be_bytes.induct) simp_all

lemma length_le_bytes [simp]: "length (le_bytes k n) = k"
  by (induction k n rule: le_bytes.induct) simp_all

lemma of_char_byte_of [simp]: "(of_char (byte_of n) :: nat) = n mod 256"
  by (simp add: byte_of_def)

lemma le_value_le_bytes: "le_value (le_bytes k n) = n mod 256 ^ k"
proof (induction k n rule: le_bytes.induct)
  case (2 k n)
  then have "le_value (le_bytes (Suc k) n) = n mod 256 + 256 * (n div 256 mod 256 ^ k)"
    by simp
  also have "\<dots> = n mod 256 ^ Suc k"
    by (simp add: mod_mult2_eq)
  finally show ?case .
qed simp

lemma be_value_less: "acc < 256 ^ k \<Longrightarrow> be_value bs acc < 256 ^ (k + length bs)"
proof (induction bs acc arbitrary: k rule: be_value.induct)
  case (2 c bs acc)
  have "(of_char c :: nat) < 256" by (rule of_char_nat_less)
  then have "256 * acc + of_char c < 256 * acc + 256" by simp
  also have "\<dots> = 256 * Suc acc" by simp
  also have "\<dots> \<le> 256 * 256 ^ k" using "2.prems" by (intro mult_le_mono2 Suc_leI)
  also have "\<dots> = 256 ^ Suc k" by simp
  finally have "256 * acc + of_char c < 256 ^ Suc k" .
  from "2.IH" [OF this] show ?case by simp
qed simp

lemma be_value_8_less: "length bs = 8 \<Longrightarrow> be_value bs 0 < 2 ^ 64"
  using be_value_less [of 0 0 bs] by simp

lemma length_sha_round [simp]: "length (sha_round v kw) = length v"
  by (induction v kw rule: sha_round.induct) (simp_all add: Let_def)

lemma length_foldl_sha_round [simp]: "length (foldl sha_round v kws) = length v"
  by (induction kws arbitrary: v) simp_all

lemma length_sha_block [simp]: "length (sha_block hs b) = length hs"
  by (simp add: sha_block_def Let_def)

lemma length_foldl_sha_block [simp]: "length (foldl sha_block hs bs) = length hs"
  by (induction bs arbitrary: hs) simp_all

lemma length_concat_be_bytes: "length (concat (map (\<lambda>w. be_bytes 4 (unat w)) ws)) = 4 * length ws"
  by (induction ws) simp_all

lemma length_sha256 [simp]: "length (sha256 m) = 32"
proof -
  have "length sha_init = 8" by (simp add: sha_init_def)
  then show ?thesis by (simp add: sha256_def Let_def length_concat_be_bytes)
qed

lemma length_hex_encode [simp]: "length (hex_encode bs) = 2 * length bs"
  by (induction bs) (simp_all add: hex_encode_def hex_byte_def)

lemma hex_digit_lower: "d < 16 \<Longrightarrow> is_lower_hex (hex_digit d)"
  by (auto simp: hex_digit_def is_lower_hex_def Let_def)

lemma hex_encode_lower: "list_all is_lower_hex (hex_encode bs)"
proof (induction bs)
  case (Cons c bs)
  have "(of_char c :: nat) < 16 * 16" using of_char_nat_less [of c] by simp
  then have "(of_char c :: nat) div 16 < 16" by (simp add: div_less_iff_less_mult)
  with Cons show ?case
    by (simp add: hex_encode_def hex_byte_def hex_digit_lower)
qed (simp add: hex_encode_def)

lemma crc32c_less: "crc32c bs < 2 ^ 32"
  unfolding crc32c_def by (rule order_less_le_trans [OF unsigned_less]) simp

end
