(* ===== verification/Retry_Policy.thy ===== *)
theory Retry_Policy
  imports Go_Float Go_Hash
begin

text \<open>
  Package \<^verbatim>\<open>retry\<close> (src/retry/policy.go) and the outcome classifier of
  src/engine/outcome.go. Durations and Go's \<open>int\<close> are 64-bit; they are integers here and
  \<open>wrap64\<close> is written at each operation that can overflow. The lemmas give the backoff curve
  in closed form where nothing overflows, its bounds, the bounds of the jittered delay, and the
  agreement of the two places that read the author's permanent exit codes.
\<close>

subsection \<open>64-bit integers\<close>

definition wrap64 :: "int \<Rightarrow> int" where
  "wrap64 i = (i + 2 ^ 63) mod 2 ^ 64 - 2 ^ 63"

type_synonym duration = int

definition second :: duration where "second = 1000000000"

definition minute :: duration where "minute = 60 * second"

subsection \<open>Policies\<close>

datatype backoff_kind = BackoffExp | BackoffLinear | BackoffNone

record policy =
  Attempts :: int
  Backoff :: backoff_kind
  Initial :: duration
  Max_d :: duration
  NonRetryableExitCodes :: "int list"
  Recovery :: string

text \<open>\<open>ir.RetryPolicy\<close>, the wire form: pointers and the nilable slice are options.\<close>

record ir_retry =
  ir_Attempts :: int
  ir_Backoff :: string
  ir_Initial :: "duration option"
  ir_Max :: "duration option"
  ir_NonRetryableExitCodes :: "int list option"
  ir_Recovery :: string

datatype retry_error = UnknownBackoff string

definition backoffKindFromString :: "string \<Rightarrow> retry_error + backoff_kind" where
  "backoffKindFromString s =
     (if s = ''exp'' \<or> s = '''' then Inr BackoffExp
      else if s = ''linear'' then Inr BackoffLinear
      else if s = ''none'' then Inr BackoffNone
      else Inl (UnknownBackoff s))"

definition AgentDefault :: policy where
  "AgentDefault = \<lparr>Attempts = 8, Backoff = BackoffExp, Initial = second, Max_d = 60 * second,
     NonRetryableExitCodes = [78], Recovery = ''''\<rparr>"

definition CodeDefault :: policy where
  "CodeDefault = \<lparr>Attempts = 1, Backoff = BackoffExp, Initial = second, Max_d = 60 * second,
     NonRetryableExitCodes = [78], Recovery = ''''\<rparr>"

definition MaxHonoredRetryAfter :: duration where
  "MaxHonoredRetryAfter = 5 * minute"

definition jitterFraction :: rat where
  "jitterFraction = 1 / 4"

definition Merge :: "policy \<Rightarrow> ir_retry option \<Rightarrow> retry_error + policy" where
  "Merge def override =
     (case override of
        None \<Rightarrow> Inr def
      | Some o' \<Rightarrow>
          let out = (if ir_Attempts o' \<noteq> 0 then def\<lparr>Attempts := ir_Attempts o'\<rparr> else def)
          in rbind (if ir_Backoff o' \<noteq> ''''
                    then rbind (backoffKindFromString (ir_Backoff o')) (\<lambda>k. Inr (out\<lparr>Backoff := k\<rparr>))
                    else Inr out)
             (\<lambda>out. let
                out = (case ir_Initial o' of None \<Rightarrow> out | Some d \<Rightarrow> out\<lparr>Initial := d\<rparr>);
                out = (case ir_Max o' of None \<Rightarrow> out | Some d \<Rightarrow> out\<lparr>Max_d := d\<rparr>);
                out = (case ir_NonRetryableExitCodes o' of None \<Rightarrow> out
                       | Some cs \<Rightarrow> out\<lparr>NonRetryableExitCodes := cs\<rparr>);
                out = (if ir_Recovery o' \<noteq> '''' then out\<lparr>Recovery := ir_Recovery o'\<rparr> else out)
              in Inr out))"

subsection \<open>Backoff\<close>

definition BackoffFor :: "policy \<Rightarrow> int \<Rightarrow> duration" where
  "BackoffFor p attempt =
     (if attempt \<le> 1 then 0
      else case Backoff p of
        BackoffNone \<Rightarrow> 0
      | BackoffLinear \<Rightarrow>
          let d = wrap64 (Initial p * (attempt - 1))
          in if 0 < Max_d p \<and> Max_d p < d then Max_d p else d
      | BackoffExp \<Rightarrow>
          let shift = nat (attempt - 2);
              d = (if 62 \<le> shift then Max_d p else wrap64 (Initial p * 2 ^ shift))
          in if 0 < Max_d p \<and> Max_d p < d then Max_d p else d)"

text \<open>
  The first eight digest bytes, read big-endian, converted to \<open>float64\<close> and divided by
  \<open>float64(math.MaxUint64)\<close>, which rounds to \<open>2^64\<close> (the quotient is exact); the two products
  are \<open>float64\<close> products and the result is truncated.
\<close>

definition jitterFor :: "duration \<Rightarrow> string \<Rightarrow> int \<Rightarrow> duration" where
  "jitterFor base seed attempt =
     (let h = sha256 (seed @ '':'' @ itoa attempt);
          frac = f64_of_int (int (be_value (take 8 h) 0)) / pow2 64
      in case Option.bind (fmul frac jitterFraction) (\<lambda>x. fmul x (f64_of_int base)) of
           Some v \<Rightarrow> wrap64 (trunc_int v)
         | None \<Rightarrow> 0)"

definition EffectiveBackoff :: "policy \<Rightarrow> int \<Rightarrow> duration \<Rightarrow> string \<Rightarrow> duration" where
  "EffectiveBackoff p attempt retryAfter seed =
     (let base = BackoffFor p attempt;
          base = (if 0 < retryAfter then
                    (let ra = (if MaxHonoredRetryAfter < retryAfter then MaxHonoredRetryAfter
                               else retryAfter)
                     in if base < ra then ra else base)
                  else base)
      in if base \<le> 0 then 0 else wrap64 (base + jitterFor base seed attempt))"

definition IsRetryableExit :: "policy \<Rightarrow> int \<Rightarrow> bool" where
  "IsRetryableExit p exitCode =
     (if exitCode = 0 then False
      else \<not> list_ex (\<lambda>c. c = exitCode) (NonRetryableExitCodes p))"

subsection \<open>Outcomes\<close>

text \<open>
  \<open>engine.Outcome\<close>: the string constants of src/engine/runstate.go; \<open>NoOutcome\<close> is the empty
  string that marks an internal error.
\<close>

datatype outcome = NoOutcome | OutcomeOK | OutcomeRetryableFailure | OutcomePermanentFailure
  | OutcomeRejected

definition isTypedFailureOutcome :: "outcome \<Rightarrow> bool" where
  "isTypedFailureOutcome oc =
     (case oc of OutcomeRetryableFailure \<Rightarrow> True | OutcomePermanentFailure \<Rightarrow> True
      | OutcomeRejected \<Rightarrow> True | _ \<Rightarrow> False)"

definition outcome_string :: "outcome \<Rightarrow> string" where
  "outcome_string oc =
     (case oc of NoOutcome \<Rightarrow> '''' | OutcomeOK \<Rightarrow> ''ok''
      | OutcomeRetryableFailure \<Rightarrow> ''retryable_failure''
      | OutcomePermanentFailure \<Rightarrow> ''permanent_failure'' | OutcomeRejected \<Rightarrow> ''rejected'')"

definition ParseOutcome :: "string \<Rightarrow> string + outcome" where
  "ParseOutcome s =
     (if s = ''ok'' then Inr OutcomeOK
      else if s = ''retryable_failure'' then Inr OutcomeRetryableFailure
      else if s = ''permanent_failure'' then Inr OutcomePermanentFailure
      else if s = ''rejected'' then Inr OutcomeRejected
      else Inl s)"

text \<open>The two error arguments matter only by being nil or not.\<close>

definition ClassifyOutcome :: "int \<Rightarrow> 'e option \<Rightarrow> 'f option \<Rightarrow> int list \<Rightarrow> outcome" where
  "ClassifyOutcome exitCode awfParseErr callErr nonRetryable =
     (if callErr \<noteq> None then OutcomeRetryableFailure
      else if list_ex (\<lambda>c. exitCode = c) nonRetryable then OutcomePermanentFailure
      else if exitCode \<noteq> 0 then OutcomeRetryableFailure
      else if awfParseErr \<noteq> None then OutcomeRetryableFailure
      else OutcomeOK)"

subsection \<open>Wrap-around\<close>

lemma wrap64_id: "- (2 ^ 63) \<le> i \<Longrightarrow> i < 2 ^ 63 \<Longrightarrow> wrap64 i = i"
  by (simp add: wrap64_def)

lemma wrap64_range: "- (2 ^ 63) \<le> wrap64 i \<and> wrap64 i < 2 ^ 63"
  using pos_mod_bound [of "2 ^ 64" "i + 2 ^ 63"] pos_mod_sign [of "2 ^ 64" "i + 2 ^ 63"]
  by (simp add: wrap64_def)

subsection \<open>The curve\<close>

text \<open>The documented curve, before the cap.\<close>

definition curve :: "policy \<Rightarrow> int \<Rightarrow> duration" where
  "curve p attempt =
     (case Backoff p of BackoffNone \<Rightarrow> 0
      | BackoffLinear \<Rightarrow> Initial p * (attempt - 1)
      | BackoffExp \<Rightarrow> Initial p * 2 ^ nat (attempt - 2))"

definition capped :: "policy \<Rightarrow> duration \<Rightarrow> duration" where
  "capped p d = (if 0 < Max_d p \<and> Max_d p < d then Max_d p else d)"

lemma BackoffFor_first: "attempt \<le> 1 \<Longrightarrow> BackoffFor p attempt = 0"
  by (simp add: BackoffFor_def)

lemma BackoffFor_curve:
  assumes "1 < attempt" and "0 \<le> Initial p" and "curve p attempt < 2 ^ 63"
    and "Backoff p = BackoffExp \<longrightarrow> attempt < 64"
  shows "BackoffFor p attempt = capped p (curve p attempt)"
proof (cases "Backoff p")
  case BackoffExp
  have "0 \<le> Initial p * 2 ^ nat (attempt - 2)" using assms(2) by simp
  then have "wrap64 (Initial p * 2 ^ nat (attempt - 2)) = Initial p * 2 ^ nat (attempt - 2)"
    using assms(3) BackoffExp by (intro wrap64_id) (simp_all add: curve_def)
  moreover have "nat (attempt - 2) < 62" using assms(1,4) BackoffExp by simp
  ultimately show ?thesis using assms BackoffExp
    by (simp add: BackoffFor_def curve_def capped_def Let_def)
next
  case BackoffLinear
  have "0 \<le> Initial p * (attempt - 1)" using assms(1,2) by simp
  then have "wrap64 (Initial p * (attempt - 1)) = Initial p * (attempt - 1)"
    using assms(3) BackoffLinear by (intro wrap64_id) (simp_all add: curve_def)
  then show ?thesis using assms BackoffLinear
    by (simp add: BackoffFor_def curve_def capped_def Let_def)
next
  case BackoffNone
  then show ?thesis using assms(1) by (simp add: BackoffFor_def curve_def capped_def)
qed

subsection \<open>The jitter\<close>

lemma f64_of_int_frac:
  assumes "0 \<le> i" and "i < 2 ^ 64"
  shows "0 \<le> f64_of_int i / pow2 64 \<and> f64_of_int i / pow2 64 \<le> 1"
proof (cases "i = 0")
  case False
  with assms have pos: "(0 :: rat) < of_int i" by simp
  have "(of_int i :: rat) \<le> of_int (2 ^ 64)" using assms by (simp only: of_int_le_iff)
  then have le: "(of_int i :: rat) \<le> pow2 64" by (simp add: pow2_def)
  have rep: "representable (pow2 64)"
    using representable_scaled [of 1 64] by simp
  have r: "0 \<le> round_pos (of_int i)" "round_pos (of_int i) \<le> pow2 64"
    using round_pos_nonneg [OF pos] round_pos_le [OF pos le rep] by auto
  have "f64_of_int i = round_pos (of_int i)"
    using r pos pow2_less_iff [of 64 1024]
    by (simp add: f64_of_int_def round_f64_def Let_def)
  with r show ?thesis by (simp add: divide_le_eq_1)
qed (simp add: f64_of_int_def round_f64_def)

lemma jitterFor_bounds:
  assumes "0 \<le> base" and "base \<le> 2 ^ 53"
  shows "0 \<le> jitterFor base seed attempt \<and> 4 * jitterFor base seed attempt \<le> base"
proof -
  define h where "h = sha256 (seed @ '':'' @ itoa attempt)"
  define frac where "frac = f64_of_int (int (be_value (take 8 h) 0)) / pow2 64"
  have "be_value (take 8 h) 0 < 2 ^ 64" by (rule be_value_8_less) (simp add: h_def)
  then have fr: "0 \<le> frac" "frac \<le> 1"
    using f64_of_int_frac [of "int (be_value (take 8 h) 0)"] by (auto simp: frac_def)
  have rep1: "representable (1 / 4 :: rat)"
    using representable_scaled [of 1 "-2"] by (simp add: pow2_def)
  have lt1024: "(1 / 4 :: rat) < pow2 1024"
    using pow2_less_iff [of "-2" 1024] by (simp add: pow2_def [of "-2"])
  obtain x where x: "fmul frac jitterFraction = Some x" "0 \<le> x" "x \<le> 1 / 4"
    using fmul_le [of frac jitterFraction "1 / 4"] fr rep1 lt1024
    by (auto simp: jitterFraction_def)
  have fb: "f64_of_int base = of_int base" using f64_of_int_exact assms by blast
  have rep2: "representable (of_int base * pow2 (- 2))"
    using representable_scaled [of base "-2"] assms by simp
  have "(of_int base :: rat) \<le> of_int (2 ^ 53)" using assms by (simp only: of_int_le_iff)
  then have "(of_int base :: rat) * pow2 (-2) \<le> pow2 53 * pow2 (-2)"
    by (simp add: pow2_def [of 53])
  also have "\<dots> < pow2 1024" by (simp add: pow2_less_iff flip: pow2_add)
  finally have lt2: "(of_int base :: rat) * pow2 (-2) < pow2 1024" .
  have "x * of_int base \<le> (1 / 4) * of_int base"
    using x(3) assms by (intro mult_right_mono) simp_all
  then have le2: "x * of_int base \<le> of_int base * pow2 (-2)" by (simp add: pow2_def)
  obtain v where v: "fmul x (of_int base) = Some v" "0 \<le> v" "v \<le> of_int base * pow2 (-2)"
    using fmul_le [OF x(2) _ le2 rep2 lt2] assms by auto
  have "jitterFor base seed attempt =
     (case Option.bind (fmul frac jitterFraction) (\<lambda>x. fmul x (f64_of_int base)) of
        Some v \<Rightarrow> wrap64 (trunc_int v) | None \<Rightarrow> 0)"
    unfolding jitterFor_def Let_def frac_def h_def by (rule refl)
  then have j: "jitterFor base seed attempt = wrap64 (trunc_int v)"
    using x(1) v(1) by (simp add: fb)
  have t: "0 \<le> trunc_int v" "(of_int (trunc_int v) :: rat) \<le> v"
    using trunc_int_bounds [OF v(2)] by auto
  have "(of_int (4 * trunc_int v) :: rat) \<le> of_int base"
    using t(2) v(3) by (simp add: pow2_def)
  then have b: "4 * trunc_int v \<le> base" by (simp only: of_int_le_iff)
  then have "wrap64 (trunc_int v) = trunc_int v" using t(1) assms by (intro wrap64_id) simp_all
  with b t(1) j show ?thesis by simp
qed

text \<open>The delay before the jitter is added.\<close>

definition honored :: "duration \<Rightarrow> duration" where
  "honored retryAfter = (if 0 < retryAfter then min retryAfter MaxHonoredRetryAfter else 0)"

lemma EffectiveBackoff_eq:
  assumes "base = max (BackoffFor p attempt) (honored retryAfter)" and "0 < base"
  shows "EffectiveBackoff p attempt retryAfter seed = wrap64 (base + jitterFor base seed attempt)"
  using assms
  by (auto simp: EffectiveBackoff_def honored_def Let_def max_def min_def MaxHonoredRetryAfter_def
      minute_def second_def split: if_splits)

subsection \<open>Merging\<close>

text \<open>The override wins field by field; only the backoff name can fail.\<close>

lemma Merge_Some:
  "Merge d (Some ov) =
     rbind (if ir_Backoff ov = '''' then Inr (Backoff d) else backoffKindFromString (ir_Backoff ov))
       (\<lambda>k. Inr (d\<lparr>
          Attempts := (if ir_Attempts ov = 0 then Attempts d else ir_Attempts ov),
          Backoff := k,
          Initial := (case ir_Initial ov of None \<Rightarrow> Initial d | Some i \<Rightarrow> i),
          Max_d := (case ir_Max ov of None \<Rightarrow> Max_d d | Some m \<Rightarrow> m),
          NonRetryableExitCodes :=
            (case ir_NonRetryableExitCodes ov of None \<Rightarrow> NonRetryableExitCodes d | Some cs \<Rightarrow> cs),
          Recovery := (if ir_Recovery ov = '''' then Recovery d else ir_Recovery ov)\<rparr>))"
  by (cases "ir_Initial ov"; cases "ir_Max ov"; cases "ir_NonRetryableExitCodes ov";
      cases "backoffKindFromString (ir_Backoff ov)"; simp add: Merge_def Let_def)

lemma outcome_string_inj: "outcome_string a = outcome_string b \<Longrightarrow> a = b"
  by (cases a; cases b) (simp_all add: outcome_string_def)

subsection \<open>Properties\<close>

text \<open>As long as the uncapped value fits 64 bits, the sleep before an attempt is the documented
  curve (initial times 2^(n-2), or initial times n-1, or nothing) capped at the policy's maximum.\<close>

lemma backoff_is_capped_curve:
  assumes "1 < attempt" and "0 \<le> Initial p" and "0 < Max_d p" and "curve p attempt < 2 ^ 63"
    and "attempt < 64"
  shows "BackoffFor p attempt = min (Max_d p) (curve p attempt)"
  using BackoffFor_curve [of attempt p] assms by (auto simp: capped_def)

lemma backoff_is_capped_curve_witness:
  "BackoffFor AgentDefault 5 = min (60 * second) (curve AgentDefault 5)"
  using backoff_is_capped_curve [of 5 AgentDefault]
  by (simp add: AgentDefault_def curve_def second_def)


text \<open>The delay the retry loop sleeps is never shorter than the curve nor than the server's
  Retry-After hint (honoured up to five minutes), and the jitter adds at most a quarter.\<close>

lemma effective_backoff_bounds:
  assumes "base = max (BackoffFor p attempt) (honored retryAfter)" and "0 < base" and "base \<le> 2 ^ 53"
  shows "base \<le> EffectiveBackoff p attempt retryAfter seed
    \<and> 4 * EffectiveBackoff p attempt retryAfter seed \<le> 5 * base"
proof -
  let ?j = "jitterFor base seed attempt"
  have j: "0 \<le> ?j" "4 * ?j \<le> base" using jitterFor_bounds [of base seed attempt] assms(2,3) by auto
  then have "wrap64 (base + ?j) = base + ?j" using assms(2,3) by (intro wrap64_id) simp_all
  then have "EffectiveBackoff p attempt retryAfter seed = base + ?j"
    using EffectiveBackoff_eq [OF assms(1,2)] by simp
  with j show ?thesis by simp
qed

lemma effective_backoff_bounds_witness:
  "30 * second \<le> EffectiveBackoff AgentDefault 2 (30 * second) ''build''"
  using effective_backoff_bounds [of "30 * second" AgentDefault 2 "30 * second" "''build''"]
  by (simp add: BackoffFor_def AgentDefault_def second_def honored_def MaxHonoredRetryAfter_def
      minute_def wrap64_def Let_def)

text \<open>Merging a step's retry block over a default succeeds exactly when the backoff name is one of
  the documented ones, and then every field is the step's where the step sets it and the
  default's elsewhere; the exit-code list replaces the default list as a whole.\<close>

lemma merge_overrides_field_by_field:
  "(case Merge d (Some ov) of
      Inl e \<Rightarrow> e = UnknownBackoff (ir_Backoff ov) \<and>
        ir_Backoff ov \<notin> {'''', ''exp'', ''linear'', ''none''}
    | Inr p \<Rightarrow>
        ir_Backoff ov \<in> {'''', ''exp'', ''linear'', ''none''} \<and>
        Attempts p = (if ir_Attempts ov = 0 then Attempts d else ir_Attempts ov) \<and>
        Initial p = (case ir_Initial ov of None \<Rightarrow> Initial d | Some i \<Rightarrow> i) \<and>
        Max_d p = (case ir_Max ov of None \<Rightarrow> Max_d d | Some m \<Rightarrow> m) \<and>
        NonRetryableExitCodes p =
          (case ir_NonRetryableExitCodes ov of None \<Rightarrow> NonRetryableExitCodes d | Some cs \<Rightarrow> cs) \<and>
        Recovery p = (if ir_Recovery ov = '''' then Recovery d else ir_Recovery ov))"
  by (simp add: Merge_Some backoffKindFromString_def)

text \<open>The outcome classifier and the retry policy agree: an attempt that neither failed in
  transport nor produced unparseable output is retryable exactly when the policy says its exit
  code is, provided success (exit code 0) is not itself listed as permanent.\<close>

lemma classify_agrees_with_policy:
  assumes "0 \<notin> set (NonRetryableExitCodes p)"
  shows "ClassifyOutcome ec None None (NonRetryableExitCodes p) =
     (if IsRetryableExit p ec then OutcomeRetryableFailure
      else if ec = 0 then OutcomeOK else OutcomePermanentFailure)"
  using assms by (auto simp: ClassifyOutcome_def IsRetryableExit_def list_ex_iff)

lemma classify_agrees_with_policy_witness:
  "ClassifyOutcome 78 (None :: unit option) (None :: unit option)
     (NonRetryableExitCodes CodeDefault) = OutcomePermanentFailure"
  using classify_agrees_with_policy [of CodeDefault 78, where ?'a = unit and ?'b = unit]
  by (simp add: CodeDefault_def IsRetryableExit_def)

end
