(* ===== verification/State_Log.thy ===== *)
theory State_Log
  imports Go_Hash
begin

text \<open>
  The append-only run log: the framing of src/state/event.go and the file log of
  src/state/log.go. A file is its byte string. A write either lands whole or stops after some
  bytes with an error, so \<open>Append\<close> takes the number of bytes the operating system wrote; a crash
  keeps the bytes that were synced and possibly more. The JSON codec of an event record
  (\<open>marshalEvent\<close>, \<open>unmarshalEvent\<close>: encoding/json on the struct) is a pair of parameters.

  The locale \<open>frame_codec\<close> is what the log relies on from the framing: a frame decodes to its
  payload whatever follows it, and no proper prefix of a frame decodes. It is interpreted on
  \<open>encodeFrame\<close> and \<open>decodeFrame\<close>, and the recovery theorems of the file log rest on that
  interpretation.
\<close>

subsection \<open>Events and frames\<close>

record event =
  Seq :: nat
  Epoch :: nat
  TS :: int
  Path :: string
  Type :: string
  PayloadRef :: string
  Data :: string

definition frameHeaderSize :: nat where "frameHeaderSize = 8"

definition frameAlignment :: nat where "frameAlignment = 8"

datatype frame_error = ErrShortFrame | ErrCRCMismatch

text \<open>The zero bytes that bring a length to the next multiple of the alignment.\<close>

definition pad_len :: "nat \<Rightarrow> nat" where
  "pad_len tot =
     (let rem = tot mod frameAlignment in if rem \<noteq> 0 then frameAlignment - rem else 0)"

definition encodeFrame :: "string \<Rightarrow> string" where
  "encodeFrame payload =
     (let payloadLen = length payload mod 2 ^ 32;
          crc = crc32c payload;
          tot = frameHeaderSize + length payload
      in le_bytes 4 payloadLen @ le_bytes 4 crc @ payload
         @ replicate (pad_len tot) (char_of (0 :: nat)))"

definition decodeFrame :: "string \<Rightarrow> frame_error + (string \<times> nat)" where
  "decodeFrame buf =
     (if length buf < frameHeaderSize then Inl ErrShortFrame
      else let payloadLen = le_value (take 4 buf);
               wantCRC = le_value (take 4 (drop 4 buf))
           in if length buf - frameHeaderSize < payloadLen then Inl ErrShortFrame
              else let end' = frameHeaderSize + payloadLen;
                       payload = take payloadLen (drop frameHeaderSize buf)
                   in if crc32c payload \<noteq> wantCRC then Inl ErrCRCMismatch
                      else let consumed = end' + pad_len end'
                           in if length buf < consumed then Inl ErrShortFrame
                              else Inr (payload, consumed))"

subsection \<open>The file log\<close>

text \<open>An open log: the file's bytes, how many of them are synced, and the two counters.\<close>

record file_log =
  lg_file :: string
  lg_synced :: nat
  lg_seq :: nat
  lg_epoch :: nat

text \<open>
  Termination of the scan: a decoded frame consumes at least its header.
\<close>

lemma decodeFrame_consumed:
  "decodeFrame buf = Inr (p, c) \<Longrightarrow> frameHeaderSize \<le> c \<and> c \<le> length buf"
  by (auto simp: decodeFrame_def Let_def split: if_splits)

function scanFile :: "(string \<Rightarrow> event option) \<Rightarrow> string \<Rightarrow> event list \<times> nat" where
  "scanFile unmarshal buf =
     (if buf = [] then ([], 0)
      else case decodeFrame buf of
        Inl _ \<Rightarrow> ([], 0)
      | Inr (payload, consumed) \<Rightarrow>
          (case unmarshal payload of
             None \<Rightarrow> ([], 0)
           | Some e \<Rightarrow>
               (case scanFile unmarshal (drop consumed buf) of (es, off) \<Rightarrow> (e # es, consumed + off))))"
  by pat_completeness auto
termination
proof (relation "measure (\<lambda>(u, buf). length buf)")
  fix unmarshal :: "string \<Rightarrow> event option" and buf x p payload consumed e
  assume "buf \<noteq> []" and "decodeFrame buf = Inr p" and "(payload, consumed) = p"
  then have "frameHeaderSize \<le> consumed" using decodeFrame_consumed by blast
  with \<open>buf \<noteq> []\<close> show "((unmarshal, drop consumed buf), unmarshal, buf) \<in> measure (\<lambda>(u, buf). length buf)"
    by (simp add: frameHeaderSize_def)
qed simp

declare scanFile.simps [simp del]

text \<open>
  \<open>openLog\<close> on an existing file: scan, cut the torn tail, continue the counters. Of the bytes
  found on disk, \<open>d\<close> are known to be durable.
\<close>

definition openLog :: "(string \<Rightarrow> event option) \<Rightarrow> nat \<Rightarrow> string \<Rightarrow> file_log" where
  "openLog unmarshal d buf =
     (case scanFile unmarshal buf of (events, validBytes) \<Rightarrow>
        let file = (if validBytes < length buf then take validBytes buf else buf);
            lg = \<lparr>lg_file = file, lg_synced = min d (length file), lg_seq = 0, lg_epoch = 0\<rparr>
        in if events \<noteq> []
           then lg\<lparr>lg_seq := Seq (last events), lg_epoch := (Epoch (last events) + 1) mod 2 ^ 32\<rparr>
           else lg)"

definition OpenLogExclusive :: file_log where
  "OpenLogExclusive = \<lparr>lg_file = [], lg_synced = 0, lg_seq = 0, lg_epoch = 0\<rparr>"

text \<open>
  \<open>Append\<close>. \<open>n\<close> is how many bytes of the frame the write call wrote; the call succeeds when that
  is the whole frame. The result is the error flag and the log.
\<close>

definition Append ::
  "(event \<Rightarrow> string option) \<Rightarrow> int \<Rightarrow> nat \<Rightarrow> event \<Rightarrow> file_log \<Rightarrow> bool \<times> file_log" where
  "Append marshal now n e lg =
     (let seq = (lg_seq lg + 1) mod 2 ^ 64;
          e = e\<lparr>Seq := seq, Epoch := lg_epoch lg, TS := now\<rparr>
      in case marshal e of
           None \<Rightarrow> (False, lg)
         | Some payload \<Rightarrow>
             let frame = encodeFrame payload
             in if length frame \<le> n
                then (True, lg\<lparr>lg_file := lg_file lg @ frame, lg_seq := seq\<rparr>)
                else (False, lg\<lparr>lg_file := lg_file lg @ take n frame\<rparr>))"

definition Sync :: "file_log \<Rightarrow> file_log" where
  "Sync lg = lg\<lparr>lg_synced := length (lg_file lg)\<rparr>"

definition Fold :: "(string \<Rightarrow> event option) \<Rightarrow> file_log \<Rightarrow> event list" where
  "Fold unmarshal lg = fst (scanFile unmarshal (lg_file lg))"

text \<open>What is on disk after a crash: every synced byte, and \<open>k\<close> bytes if that is more.\<close>

definition disk_after_crash :: "nat \<Rightarrow> file_log \<Rightarrow> string" where
  "disk_after_crash k lg = take (max k (lg_synced lg)) (lg_file lg)"

text \<open>The codec law of encoding/json on the event struct, and frames the length field can carry.\<close>

definition event_codec :: "(event \<Rightarrow> string option) \<Rightarrow> (string \<Rightarrow> event option) \<Rightarrow> bool" where
  "event_codec marshal unmarshal \<longleftrightarrow>
     (\<forall>e b. marshal e = Some b \<longrightarrow> unmarshal b = Some e \<and> length b < 2 ^ 32)"

subsection \<open>The framing as an interface\<close>

locale frame_codec =
  fixes enc :: "string \<Rightarrow> string"
    and dec :: "string \<Rightarrow> frame_error + (string \<times> nat)"
    and fits :: "string \<Rightarrow> bool"
  assumes enc_not_Nil: "enc p \<noteq> []"
    and dec_enc: "fits p \<Longrightarrow> dec (enc p @ rest) = Inr (p, length (enc p))"
    and dec_torn: "fits p \<Longrightarrow> k < length (enc p) \<Longrightarrow> \<not> is_ok (dec (take k (enc p)))"
begin

text \<open>A proper prefix of a non-empty sequence of frames is some whole frames and a torn one.\<close>

lemma take_frames:
  assumes "k \<le> length (concat (map enc ps))"
  shows "\<exists>m j. m \<le> length ps \<and> take k (concat (map enc ps)) = concat (map enc (take m ps)) @ take j (enc (ps ! m))
     \<and> (m = length ps \<longrightarrow> j = 0) \<and> (m < length ps \<longrightarrow> j < length (enc (ps ! m)))
     \<and> length (concat (map enc (take m ps))) \<le> k"
  using assms
proof (induction ps arbitrary: k)
  case Nil
  then show ?case by (intro exI [of _ 0]) simp
next
  case (Cons p ps)
  show ?case
  proof (cases "k < length (enc p)")
    case True
    then show ?thesis by (intro exI [of _ 0] exI [of _ k]) simp
  next
    case False
    with Cons.prems have "k - length (enc p) \<le> length (concat (map enc ps))" by simp
    from Cons.IH [OF this] obtain m j where
      "m \<le> length ps"
      "take (k - length (enc p)) (concat (map enc ps)) = concat (map enc (take m ps)) @ take j (enc (ps ! m))"
      "m = length ps \<longrightarrow> j = 0" "m < length ps \<longrightarrow> j < length (enc (ps ! m))"
      "length (concat (map enc (take m ps))) \<le> k - length (enc p)"
      by blast
    with False show ?thesis by (intro exI [of _ "Suc m"] exI [of _ j]) auto
  qed
qed

end

subsection \<open>The framing satisfies the interface\<close>

lemma pad_len_less: "pad_len n < 8"
  by (simp add: pad_len_def frameAlignment_def Let_def)

lemma pad_len_aligned: "(n + pad_len n) mod frameAlignment = 0"
proof (cases "n mod 8 = 0")
  case True
  then show ?thesis by (simp add: pad_len_def frameAlignment_def)
next
  case False
  then have "n + (8 - n mod 8) = 8 * (n div 8) + 8" by presburger
  then have "(n + (8 - n mod 8)) mod 8 = 0" by presburger
  with False show ?thesis by (simp add: pad_len_def frameAlignment_def Let_def)
qed

lemma length_encodeFrame:
  "length (encodeFrame p) = frameHeaderSize + length p + pad_len (frameHeaderSize + length p)"
  by (simp add: encodeFrame_def Let_def frameHeaderSize_def)

lemma le_value_4: "n < 2 ^ 32 \<Longrightarrow> le_value (le_bytes 4 n) = n"
  by (simp add: le_value_le_bytes)

lemma decodeFrame_encodeFrame:
  assumes "length p < 2 ^ 32"
  shows "decodeFrame (encodeFrame p @ rest) = Inr (p, length (encodeFrame p))"
proof -
  have e: "encodeFrame p = le_bytes 4 (length p) @ le_bytes 4 (crc32c p) @ p
      @ replicate (pad_len (8 + length p)) (char_of (0 :: nat))"
    using assms by (simp add: encodeFrame_def Let_def frameHeaderSize_def)
  have len: "le_value (take 4 (encodeFrame p @ rest)) = length p"
    using assms by (simp add: e le_value_4)
  have crc: "le_value (take 4 (drop 4 (encodeFrame p @ rest))) = crc32c p"
    using le_value_4 [OF crc32c_less [of p]] by (simp add: e)
  have pay: "take (length p) (drop 8 (encodeFrame p @ rest)) = p"
    by (simp add: e)
  have n: "length (encodeFrame p @ rest) = 8 + length p + pad_len (8 + length p) + length rest"
    by (simp add: length_encodeFrame frameHeaderSize_def)
  show ?thesis
    unfolding decodeFrame_def frameHeaderSize_def Let_def len crc pay n
    by (simp add: length_encodeFrame frameHeaderSize_def)
qed

lemma decodeFrame_torn:
  assumes "length p < 2 ^ 32" and "k < length (encodeFrame p)"
  shows "\<not> is_ok (decodeFrame (take k (encodeFrame p)))"
proof (cases "k < 8")
  case True
  then have "length (take k (encodeFrame p)) < frameHeaderSize" by (simp add: frameHeaderSize_def)
  then show ?thesis by (simp add: decodeFrame_def del: length_take)
next
  case False
  let ?b = "take k (encodeFrame p)"
  have "take 4 ?b = take 4 (encodeFrame p)" using False by (simp add: min_def)
  then have len: "le_value (take 4 ?b) = length p"
    using assms(1) by (simp add: encodeFrame_def Let_def le_value_4)
  have lb: "length ?b = k" using assms(2) by simp
  show ?thesis
  proof (cases "k - 8 < length p")
    case True
    then show ?thesis using False lb len by (simp add: decodeFrame_def frameHeaderSize_def)
  next
    case below: False
    have "k < 8 + length p + pad_len (8 + length p)"
      using assms(2) by (simp add: length_encodeFrame frameHeaderSize_def)
    then show ?thesis using False lb len below
      by (simp add: decodeFrame_def frameHeaderSize_def Let_def)
  qed
qed

interpretation frames: frame_codec encodeFrame decodeFrame "\<lambda>p. length p < 2 ^ 32"
proof unfold_locales
  show "encodeFrame p \<noteq> []" for p
    using length_encodeFrame [of p] by (auto simp: frameHeaderSize_def)
qed (rule decodeFrame_encodeFrame decodeFrame_torn, assumption+)+

subsection \<open>Scanning whole and torn frames\<close>

lemma scanFile_Nil [simp]: "scanFile u [] = ([], 0)"
  by (subst scanFile.simps) simp

lemma scanFile_frame:
  assumes "length p < 2 ^ 32" and "u p = Some e"
  shows "scanFile u (encodeFrame p @ rest)
    = (e # fst (scanFile u rest), length (encodeFrame p) + snd (scanFile u rest))"
  using frames.dec_enc [OF assms(1), of rest] frames.enc_not_Nil [of p] assms(2)
  by (subst scanFile.simps) (simp split: prod.split)

lemma scanFile_undecodable: "\<not> is_ok (decodeFrame b) \<Longrightarrow> scanFile u b = ([], 0)"
  by (subst scanFile.simps) (auto split: sum.split)

text \<open>The file image of a list of events, and what the codec must do with each of them.\<close>

definition log_image :: "(event \<Rightarrow> string option) \<Rightarrow> event list \<Rightarrow> string" where
  "log_image marshal es = concat (map (\<lambda>e. encodeFrame (the (marshal e))) es)"

definition encodable :: "(event \<Rightarrow> string option) \<Rightarrow> event list \<Rightarrow> bool" where
  "encodable marshal es \<longleftrightarrow> (\<forall>e \<in> set es. marshal e \<noteq> None)"

lemma log_image_simps [simp]:
  "log_image m [] = []" "log_image m (e # es) = encodeFrame (the (m e)) @ log_image m es"
  "log_image m (es @ fs) = log_image m es @ log_image m fs"
  by (simp_all add: log_image_def)

lemma encodable_simps [simp]:
  "encodable m []" "encodable m (e # es) \<longleftrightarrow> m e \<noteq> None \<and> encodable m es"
  "encodable m (es @ fs) \<longleftrightarrow> encodable m es \<and> encodable m fs"
  by (auto simp: encodable_def)

lemma encodable_take: "encodable m es \<Longrightarrow> encodable m (take n es)"
  by (auto simp: encodable_def dest: in_set_takeD)

lemma log_image_frames: "log_image m es = concat (map encodeFrame (map (\<lambda>e. the (m e)) es))"
  by (simp add: log_image_def comp_def)

lemma scanFile_image:
  assumes "event_codec m u" and "encodable m es"
  shows "scanFile u (log_image m es @ rest)
    = (es @ fst (scanFile u rest), length (log_image m es) + snd (scanFile u rest))"
  using assms(2)
proof (induction es)
  case (Cons e es)
  then obtain b where b: "m e = Some b" by auto
  with assms(1) have "length b < 2 ^ 32" "u b = Some e" by (auto simp: event_codec_def)
  with b Cons show ?case by (simp add: scanFile_frame)
qed simp

text \<open>
  Any prefix of a file image, cut anywhere, scans to a prefix of its events, and the valid
  length is the image of exactly those events.
\<close>

lemma scanFile_cut:
  assumes "event_codec m u" and "encodable m es"
  shows "\<exists>j \<le> length es. scanFile u (take k (log_image m es)) = (take j es, length (log_image m (take j es)))
     \<and> take (length (log_image m (take j es))) (take k (log_image m es)) = log_image m (take j es)
     \<and> (\<forall>i \<le> length es. length (log_image m (take i es)) \<le> k \<longrightarrow> i \<le> j)"
proof -
  let ?ps = "map (\<lambda>e. the (m e)) es"
  define k' where "k' = min k (length (log_image m es))"
  have tk: "take k (log_image m es) = take k' (log_image m es)" by (simp add: k'_def min_def)
  obtain n j where n: "n \<le> length es"
    and eq: "take k' (log_image m es) = log_image m (take n es) @ take j (encodeFrame (?ps ! n))"
    and last: "n = length es \<longrightarrow> j = 0"
    and torn: "n < length es \<longrightarrow> j < length (encodeFrame (?ps ! n))"
    using frames.take_frames [of k' ?ps] by (auto simp: k'_def log_image_frames take_map)
  have fin: "scanFile u (take j (encodeFrame (?ps ! n))) = ([], 0)"
  proof (cases "n < length es")
    case True
    with assms have "length (?ps ! n) < 2 ^ 32"
      unfolding event_codec_def encodable_def by (metis nth_map nth_mem option.exhaust_sel)
    with torn True show ?thesis using frames.dec_torn scanFile_undecodable by blast
  qed (use n last in simp)
  have most: "i \<le> n" if i: "i \<le> length es" "length (log_image m (take i es)) \<le> k" for i
  proof (rule ccontr)
    assume "\<not> i \<le> n"
    then have n_less: "n < i" and "Suc n \<le> length es" using i by auto
    have "take (Suc n) (take i es) = take (Suc n) es" using n_less by (simp add: min_def)
    then have "take i es = take (Suc n) es @ drop (Suc n) (take i es)" by (metis append_take_drop_id)
    then have "length (log_image m (take (Suc n) es)) \<le> length (log_image m (take i es))"
      by (metis log_image_simps(3) le_add1 length_append)
    with i have "length (log_image m (take (Suc n) es)) \<le> k" by simp
    moreover have "take (Suc n) es = take n es @ [es ! n]"
      using \<open>Suc n \<le> length es\<close> by (simp add: take_Suc_conv_app_nth)
    ultimately have big: "length (log_image m (take n es)) + length (encodeFrame (the (m (es ! n)))) \<le> k"
      by simp
    have "length (log_image m (take (Suc n) es)) \<le> length (log_image m es)"
      by (metis append_take_drop_id log_image_simps(3) le_add1 length_append)
    with big \<open>take (Suc n) es = take n es @ [es ! n]\<close>
    have "length (log_image m (take n es)) + length (encodeFrame (the (m (es ! n)))) \<le> k'"
      by (simp add: k'_def)
    moreover have "length (take k' (log_image m es)) = k'" by (simp add: k'_def)
    then have "k' = length (log_image m (take n es)) + j"
      using eq torn \<open>Suc n \<le> length es\<close> by simp
    ultimately show False using torn \<open>Suc n \<le> length es\<close> by simp
  qed
  have "scanFile u (take k (log_image m es)) = (take n es, length (log_image m (take n es)))"
    using scanFile_image [OF assms(1) encodable_take [OF assms(2)], of n "take j (encodeFrame (?ps ! n))"]
    by (simp add: tk eq fin)
  moreover have "take (length (log_image m (take n es))) (take k (log_image m es)) = log_image m (take n es)"
    unfolding tk eq by simp
  ultimately show ?thesis using n most by blast
qed

subsection \<open>Runs of the log\<close>

text \<open>
  A run of the log: open it fresh, append whole frames, sync, and at any moment crash (in the
  middle of an append if need be) and reopen. \<open>es\<close> are the events in it and the first \<open>s\<close> of
  them have been synced.
\<close>

definition stamp :: "int \<Rightarrow> file_log \<Rightarrow> event \<Rightarrow> event" where
  "stamp now lg e = e\<lparr>Seq := (lg_seq lg + 1) mod 2 ^ 64, Epoch := lg_epoch lg, TS := now\<rparr>"

inductive log_run ::
  "(event \<Rightarrow> string option) \<Rightarrow> (string \<Rightarrow> event option) \<Rightarrow> file_log \<Rightarrow> event list \<Rightarrow> nat \<Rightarrow> bool"
  for m u where
  fresh: "log_run m u OpenLogExclusive [] 0"
| append: "log_run m u lg es s \<Longrightarrow> Append m now n e lg = (True, lg')
    \<Longrightarrow> log_run m u lg' (es @ [stamp now lg e]) s"
| sync: "log_run m u lg es s \<Longrightarrow> log_run m u (Sync lg) es (length es)"
| reopen: "log_run m u lg es s \<Longrightarrow> Append m now n e lg = (ok, lg')
    \<Longrightarrow> log_run m u (openLog u (lg_synced lg') (disk_after_crash k lg'))
          (fst (scanFile u (disk_after_crash k lg'))) s"

lemma openLog_file: "lg_file (openLog u d buf) = take (snd (scanFile u buf)) buf"
  by (simp add: openLog_def Let_def split: prod.split)

lemma openLog_synced: "lg_synced (openLog u d buf) = min d (length (lg_file (openLog u d buf)))"
  by (simp add: openLog_def Let_def split: prod.split)

text \<open>The representation invariant of an open log.\<close>

definition log_inv :: "(event \<Rightarrow> string option) \<Rightarrow> file_log \<Rightarrow> event list \<Rightarrow> nat \<Rightarrow> bool" where
  "log_inv m lg es s \<longleftrightarrow> encodable m es \<and> lg_file lg = log_image m es \<and> s \<le> length es
     \<and> lg_synced lg = length (log_image m (take s es)) \<and> lg_seq lg = length es mod 2 ^ 64
     \<and> map Seq es = map (\<lambda>i. Suc i mod 2 ^ 64) [0..<length es]"

lemma Append_cases:
  assumes "Append m now n e lg = (ok, lg')"
  obtains (unmarshalable) "\<not> ok" "lg' = lg" "m (stamp now lg e) = None"
  | (whole) b where "ok" "m (stamp now lg e) = Some b"
      "lg' = lg\<lparr>lg_file := lg_file lg @ encodeFrame b, lg_seq := (lg_seq lg + 1) mod 2 ^ 64\<rparr>"
  | (torn) b where "\<not> ok" "m (stamp now lg e) = Some b" "n < length (encodeFrame b)"
      "lg' = lg\<lparr>lg_file := lg_file lg @ take n (encodeFrame b)\<rparr>"
  using assms unfolding Append_def stamp_def Let_def
  by (auto split: option.splits if_splits)

lemma log_inv_append:
  assumes "log_inv m lg es s" and "Append m now n e lg = (True, lg')"
  shows "log_inv m lg' (es @ [stamp now lg e]) s"
  using assms(2)
proof (cases rule: Append_cases)
  case (whole b)
  have "Seq (stamp now lg e) = Suc (length es) mod 2 ^ 64"
    using assms(1) by (simp add: stamp_def log_inv_def mod_Suc_eq)
  then show ?thesis using assms(1) whole by (simp add: log_inv_def mod_Suc_eq)
qed simp_all

lemma log_inv_sync: "log_inv m lg es s \<Longrightarrow> log_inv m (Sync lg) es (length es)"
  by (simp add: log_inv_def Sync_def)

text \<open>The bytes found after a crash are a prefix of the image of the old events and the new one.\<close>

lemma take_append_take: "take q (xs @ take n ys) = take (min q (length xs + n)) (xs @ ys)"
proof (cases "q \<le> length xs + n")
  case True
  then have "q - length xs \<le> n" by simp
  with True show ?thesis by (simp add: min_def)
qed simp

lemma crash_image:
  assumes inv: "log_inv m lg es s" and app: "Append m now n e lg = (ok, lg')"
  obtains es' where "encodable m es'" "take (length es) es' = es" "length es \<le> length es'"
    "es' = es \<or> es' = es @ [stamp now lg e]" "lg_synced lg' = lg_synced lg"
    "\<exists>k' \<ge> lg_synced lg. disk_after_crash k lg' = take k' (log_image m es')"
proof -
  have enc: "encodable m es" and fileq: "lg_file lg = log_image m es"
    and synced: "lg_synced lg = length (log_image m (take s es))"
    using inv by (simp_all add: log_inv_def)
  have le: "lg_synced lg \<le> length (log_image m es)"
    unfolding synced by (metis append_take_drop_id log_image_simps(3) le_add1 length_append)
  have same: "\<exists>k' \<ge> lg_synced lg. take (max k (lg_synced lg)) b = take k' b" for b :: string
    by (rule exI [of _ "max k (lg_synced lg)"]) simp
  from app show ?thesis
  proof (cases rule: Append_cases)
    case unmarshalable
    show ?thesis
      by (rule that [of es]) (simp_all add: unmarshalable enc fileq disk_after_crash_def same)
  next
    case (whole b)
    have "\<exists>k' \<ge> lg_synced lg. disk_after_crash k lg' = take k' (log_image m (es @ [stamp now lg e]))"
      by (simp add: whole fileq disk_after_crash_def same del: take_append)
    then show ?thesis
      by (intro that [of "es @ [stamp now lg e]"]) (simp_all add: whole enc)
  next
    case (torn b)
    let ?q = "min (max k (lg_synced lg)) (length (log_image m es) + n)"
    have "\<exists>k' \<ge> lg_synced lg. disk_after_crash k lg' = take k' (log_image m (es @ [stamp now lg e]))"
      using le by (intro exI [of _ ?q]) (simp add: torn fileq disk_after_crash_def take_append_take del: take_append)
    then show ?thesis
      by (intro that [of "es @ [stamp now lg e]"]) (simp_all add: torn enc)
  qed
qed

lemma log_inv_reopen:
  assumes codec: "event_codec m u" and inv: "log_inv m lg es s"
    and app: "Append m now n e lg = (ok, lg')"
  shows "\<exists>j. s \<le> j \<and> log_inv m (openLog u (lg_synced lg') (disk_after_crash k lg'))
           (fst (scanFile u (disk_after_crash k lg'))) s
     \<and> (fst (scanFile u (disk_after_crash k lg')) = take j es
        \<or> fst (scanFile u (disk_after_crash k lg')) = es @ [stamp now lg e])"
proof -
  obtain es' k' where es': "encodable m es'" "take (length es) es' = es" "length es \<le> length es'"
      "es' = es \<or> es' = es @ [stamp now lg e]" "lg_synced lg' = lg_synced lg" "k' \<ge> lg_synced lg"
      and disk: "disk_after_crash k lg' = take k' (log_image m es')"
    using crash_image [OF inv app] by metis
  from scanFile_cut [OF codec es'(1), of k'] obtain j where j: "j \<le> length es'"
    and scan: "scanFile u (take k' (log_image m es')) = (take j es', length (log_image m (take j es')))"
    and cut: "take (length (log_image m (take j es'))) (take k' (log_image m es')) = log_image m (take j es')"
    and most: "\<forall>i \<le> length es'. length (log_image m (take i es')) \<le> k' \<longrightarrow> i \<le> j"
    by blast
  have s: "s \<le> length es" and synced: "lg_synced lg = length (log_image m (take s es))"
    using inv by (simp_all add: log_inv_def)
  have pre: "take s es' = take s es" using s es'(2) take_take [of s "length es" es'] by (simp add: min_def)
  have sj: "s \<le> j" using most s es'(3,6) pre synced by simp
  have seqs: "map Seq es' = map (\<lambda>i. Suc i mod 2 ^ 64) [0..<length es']"
  proof (cases "es' = es")
    case False
    then have "es' = es @ [stamp now lg e]" using es'(4) by blast
    then show ?thesis using inv by (simp add: log_inv_def stamp_def mod_Suc_eq)
  qed (use inv in \<open>simp add: log_inv_def\<close>)
  have seqs_j: "map Seq (take j es') = map (\<lambda>i. Suc i mod 2 ^ 64) [0..<length (take j es')]"
    using arg_cong [OF seqs, of "take j"] j by (simp add: take_map)
  have lastj: "take j es' \<noteq> [] \<Longrightarrow> Seq (last (take j es')) = j mod 2 ^ 64"
  proof -
    assume ne: "take j es' \<noteq> []"
    then have "Seq (last (take j es')) = last (map Seq (take j es'))" by (simp add: last_map)
    also have "\<dots> = j mod 2 ^ 64" using seqs_j ne j by (cases j) simp_all
    finally show ?thesis .
  qed
  have fileq: "lg_file (openLog u (lg_synced lg') (take k' (log_image m es'))) = log_image m (take j es')"
    using cut by (simp add: openLog_file scan)
  have part: "take s (take j es') = take s es" using pre sj by (metis min.absorb1 take_take)
  then have "length (log_image m (take s es)) \<le> length (log_image m (take j es'))"
    by (metis append_take_drop_id log_image_simps(3) le_add1 length_append)
  then have "lg_synced (openLog u (lg_synced lg') (take k' (log_image m es'))) = length (log_image m (take s (take j es')))"
    unfolding openLog_synced fileq using synced es'(5) part by simp
  moreover have "lg_seq (openLog u (lg_synced lg') (take k' (log_image m es'))) = length (take j es') mod 2 ^ 64"
    using lastj j by (auto simp: openLog_def scan Let_def)
  ultimately have "log_inv m (openLog u (lg_synced lg') (take k' (log_image m es'))) (take j es') s"
    using fileq seqs_j sj j inv es' encodable_take [OF es'(1), of j] by (simp add: log_inv_def)
  moreover have "take j es' = take j es \<or> take j es' = es @ [stamp now lg e]"
    using es'(4) j by (auto simp: le_Suc_eq)
  ultimately show ?thesis using sj by (auto simp: disk scan)
qed

lemma log_run_inv: "log_run m u lg es s \<Longrightarrow> event_codec m u \<Longrightarrow> log_inv m lg es s"
proof (induction rule: log_run.induct)
  case fresh
  show ?case by (simp add: log_inv_def OpenLogExclusive_def)
next
  case append
  then show ?case by (blast intro: log_inv_append)
next
  case sync
  then show ?case by (blast intro: log_inv_sync)
next
  case reopen
  then show ?case using log_inv_reopen by blast
qed

subsection \<open>Properties\<close>

text \<open>
  C3: Crash recovery of the run log. From any log reached by appends, syncs, crashes and reopens,
  crash in the middle of one more append, at any byte, and reopen: the scan yields a prefix of
  the events that contains every synced one (and the last append only if it landed whole), the
  torn tail is cut so the file is exactly the frames of those events, and an event appended next
  is read back after them with the next sequence number.
\<close>

theorem log_crash_recovery:
  assumes "event_codec m u" and "log_run m u lg es s" and "Append m now n e lg = (ok, lg')"
    and "lg2 = openLog u (lg_synced lg') (disk_after_crash k lg')"
    and "m (stamp now2 lg2 e2) = Some b2" and "length (encodeFrame b2) \<le> n2"
  shows "\<exists>j \<ge> s. (Fold u lg2 = take j es \<or> Fold u lg2 = es @ [stamp now lg e])
     \<and> lg_file lg2 = log_image m (Fold u lg2)
     \<and> fst (Append m now2 n2 e2 lg2)
     \<and> Fold u (snd (Append m now2 n2 e2 lg2)) = Fold u lg2 @ [stamp now2 lg2 e2]
     \<and> Seq (stamp now2 lg2 e2) = Suc (length (Fold u lg2)) mod 2 ^ 64"
proof -
  let ?es = "fst (scanFile u (disk_after_crash k lg'))"
  from log_inv_reopen [OF assms(1) log_run_inv [OF assms(2,1)] assms(3), of k]
  obtain j where j: "s \<le> j" and inv: "log_inv m lg2 ?es s"
    and es: "?es = take j es \<or> ?es = es @ [stamp now lg e]"
    unfolding assms(4) by blast
  have fold: "Fold u lg2 = ?es"
    using scanFile_image [OF assms(1), of ?es "[]"] inv by (simp add: Fold_def log_inv_def)
  obtain lg3 where lg3: "Append m now2 n2 e2 lg2 = (True, lg3)"
    using assms(5,6) by (auto simp: Append_def stamp_def Let_def)
  from log_inv_append [OF inv lg3] have inv3: "log_inv m lg3 (?es @ [stamp now2 lg2 e2]) s" .
  then have "Fold u lg3 = ?es @ [stamp now2 lg2 e2]"
    using scanFile_image [OF assms(1), of "?es @ [stamp now2 lg2 e2]" "[]"]
    by (simp add: Fold_def log_inv_def)
  moreover have "Seq (stamp now2 lg2 e2) = Suc (length ?es) mod 2 ^ 64"
    using inv by (simp add: stamp_def log_inv_def mod_Suc_eq)
  ultimately show ?thesis using j es inv lg3 fold by (auto simp: log_inv_def)
qed

text \<open>
  Reading the log back returns exactly the events appended to it, in order, and their
  sequence numbers count up from 1 (modulo the 64-bit width), across crashes and reopens.
\<close>

lemma log_fold_roundtrip:
  assumes "event_codec m u" and "log_run m u lg es s"
  shows "Fold u lg = es \<and> map Seq es = map (\<lambda>i. Suc i mod 2 ^ 64) [0..<length es]"
proof -
  from log_run_inv [OF assms(2,1)] have "log_inv m lg es s" .
  then show ?thesis using scanFile_image [OF assms(1), of es "[]"] by (simp add: Fold_def log_inv_def)
qed

text \<open>
  C32: A failed write is not rolled back. If an append stops after at least four bytes of its frame
  and the run goes on, an event appended later, whole, successfully and synced, is not read
  back: the scan stops at the torn bytes whenever the torn frame announced more bytes than
  follow, and reopening the log after a crash deletes the synced event.
\<close>

theorem torn_write_hides_synced_event:
  assumes "event_codec m u" and "log_run m u lg es s"
    and "Append m now n e lg = (False, lg1)" and "m (stamp now lg e) = Some b1" and "4 \<le> n"
    and "Append m now2 n2 e2 lg1 = (True, lg2)" and "m (stamp now2 lg1 e2) = Some b2"
    and "n + length (encodeFrame b2) < frameHeaderSize + length b1"
  shows "Fold u (Sync lg2) = es
     \<and> lg_file (openLog u d (disk_after_crash k (Sync lg2))) = log_image m es"
proof -
  have inv: "log_inv m lg es s" using log_run_inv [OF assms(2,1)] .
  let ?t = "take n (encodeFrame b1) @ encodeFrame b2"
  have fileq: "lg_file lg2 = log_image m es @ ?t"
    using inv assms(3-7) by (auto simp: log_inv_def elim!: Append_cases)
  have "take 4 ?t = take 4 (encodeFrame b1)" using assms(3-5)
    by (auto simp: min_def elim!: Append_cases)
  moreover have "length b1 < 2 ^ 32" using assms(1,4) by (simp add: event_codec_def)
  ultimately have len: "le_value (take 4 ?t) = length b1"
    by (simp add: encodeFrame_def Let_def le_value_4)
  have "length ?t \<le> n + length (encodeFrame b2)" by simp
  then have "length ?t - 8 < length b1" using assms(5,8) length_encodeFrame [of b2]
    unfolding frameHeaderSize_def by linarith
  then have "\<not> is_ok (decodeFrame ?t)" using len
    by (simp add: decodeFrame_def frameHeaderSize_def Let_def del: take_append length_append)
  then have scan: "scanFile u (log_image m es @ ?t) = (es, length (log_image m es))"
    using scanFile_image [OF assms(1), of es ?t] inv scanFile_undecodable [of ?t u]
    by (simp add: log_inv_def)
  have "disk_after_crash k (Sync lg2) = log_image m es @ ?t"
    unfolding disk_after_crash_def Sync_def by (simp add: fileq del: take_append length_append)
  then have "lg_file (openLog u d (disk_after_crash k (Sync lg2))) = log_image m es"
    using scan by (simp add: openLog_file)
  moreover have "Fold u (Sync lg2) = es" using scan by (simp add: Fold_def Sync_def fileq)
  ultimately show ?thesis by simp
qed

subsection \<open>Witnesses\<close>

text \<open>
  A codec on the two events the witnesses append (the first to carry a long payload, the second a
  short one), as the JSON codec would treat them.
\<close>

definition ev :: "nat \<Rightarrow> string \<Rightarrow> event" where
  "ev sq ty = \<lparr>Seq = sq, Epoch = 0, TS = 7, Path = [], Type = ty, PayloadRef = [], Data = []\<rparr>"

definition two_events_marshal :: "event \<Rightarrow> string option" where
  "two_events_marshal e =
     (if e = ev 1 ''run.started'' then Some (replicate 40 (CHR ''a''))
      else if e = ev 1 ''run.finished'' then Some ''b'' else None)"

definition two_events_unmarshal :: "string \<Rightarrow> event option" where
  "two_events_unmarshal b =
     (if b = replicate 40 (CHR ''a'') then Some (ev 1 ''run.started'')
      else if b = ''b'' then Some (ev 1 ''run.finished'') else None)"

lemma two_events_codec: "event_codec two_events_marshal two_events_unmarshal"
proof -
  have "replicate 40 (CHR ''a'') \<noteq> ''b''" by (auto dest: arg_cong [of _ _ length])
  then show ?thesis
    by (simp add: event_codec_def two_events_marshal_def two_events_unmarshal_def)
qed

lemma two_events_stamp:
  "stamp 7 OpenLogExclusive (ev 0 ty) = ev 1 ty"
  by (simp add: stamp_def OpenLogExclusive_def ev_def)

theorem log_crash_recovery_witness:
  "let m = two_events_marshal; u = two_events_unmarshal;
       lg' = snd (Append m 7 20 (ev 0 ''run.started'') OpenLogExclusive);
       lg2 = openLog u (lg_synced lg') (disk_after_crash 9 lg')
   in Fold u lg2 = [] \<and> fst (Append m 7 100 (ev 0 ''run.finished'') lg2)
      \<and> Fold u (snd (Append m 7 100 (ev 0 ''run.finished'') lg2)) = [ev 1 ''run.finished'']"
proof -
  let ?m = two_events_marshal and ?u = two_events_unmarshal
  obtain ok lg' where app: "Append ?m 7 20 (ev 0 ''run.started'') OpenLogExclusive = (ok, lg')"
    by (cases "Append ?m 7 20 (ev 0 ''run.started'') OpenLogExclusive")
  have m1: "?m (ev 1 ''run.started'') = Some (replicate 40 (CHR ''a''))"
    by (simp add: two_events_marshal_def)
  define lg2 where "lg2 = openLog ?u (lg_synced lg') (disk_after_crash 9 lg')"
  have lg': "lg' = OpenLogExclusive\<lparr>lg_file := take 20 (encodeFrame (replicate 40 (CHR ''a'')))\<rparr>"
    using app m1 by (auto simp: Append_def Let_def OpenLogExclusive_def ev_def length_encodeFrame
        frameHeaderSize_def split: option.splits if_splits)
  have "\<not> is_ok (decodeFrame (take 9 (take 20 (encodeFrame (replicate 40 (CHR ''a''))))))"
    using frames.dec_torn [of "replicate 40 (CHR ''a'')" 9]
    by (simp add: length_encodeFrame frameHeaderSize_def)
  then have scan: "scanFile ?u (disk_after_crash 9 lg') = ([], 0)"
    using scanFile_undecodable by (simp add: lg' disk_after_crash_def OpenLogExclusive_def)
  then have lg2: "lg2 = OpenLogExclusive"
    by (simp add: lg2_def openLog_def lg' OpenLogExclusive_def Let_def)
  have m2: "?m (stamp 7 lg2 (ev 0 ''run.finished'')) = Some ''b''"
    unfolding lg2 two_events_stamp by (simp add: two_events_marshal_def ev_def)
  have len: "length (encodeFrame ''b'') \<le> 100"
    using pad_len_less [of 9] by (simp add: length_encodeFrame frameHeaderSize_def)
  have "Fold ?u OpenLogExclusive = []" by (simp add: Fold_def OpenLogExclusive_def)
  with log_crash_recovery [OF two_events_codec log_run.fresh app lg2_def m2 len] app
  show ?thesis by (auto simp: lg2_def [symmetric] Let_def lg2 two_events_stamp)
qed

lemma log_fold_roundtrip_witness:
  "Fold two_events_unmarshal
     (snd (Append two_events_marshal 7 100 (ev 0 ''run.finished'') OpenLogExclusive))
   = [ev 1 ''run.finished'']"
proof -
  let ?m = two_events_marshal and ?u = two_events_unmarshal
  have "?m (stamp 7 OpenLogExclusive (ev 0 ''run.finished'')) = Some ''b''"
    unfolding two_events_stamp by (simp add: two_events_marshal_def ev_def)
  moreover have "length (encodeFrame ''b'') \<le> 100"
    using pad_len_less [of 9] by (simp add: length_encodeFrame frameHeaderSize_def)
  ultimately obtain lg where lg: "Append ?m 7 100 (ev 0 ''run.finished'') OpenLogExclusive = (True, lg)"
    by (auto simp: Append_def stamp_def Let_def)
  from log_run.append [OF log_run.fresh lg]
  have "log_run ?m ?u lg [ev 1 ''run.finished''] 0" by (simp add: two_events_stamp)
  from log_fold_roundtrip [OF two_events_codec this] lg show ?thesis by simp
qed

theorem torn_write_hides_synced_event_witness:
  "let m = two_events_marshal; u = two_events_unmarshal;
       lg1 = snd (Append m 7 4 (ev 0 ''run.started'') OpenLogExclusive);
       (ok, lg2) = Append m 7 16 (ev 0 ''run.finished'') lg1
   in ok \<and> Fold u (Sync lg2) = []"
proof -
  let ?m = two_events_marshal and ?u = two_events_unmarshal
  have m1: "?m (stamp 7 OpenLogExclusive (ev 0 ''run.started'')) = Some (replicate 40 (CHR ''a''))"
    unfolding two_events_stamp by (simp add: two_events_marshal_def)
  have l1: "length (encodeFrame (replicate 40 (CHR ''a''))) = 48"
    by (simp add: length_encodeFrame frameHeaderSize_def pad_len_def frameAlignment_def)
  have l2: "length (encodeFrame ''b'') = 16"
    by (simp add: length_encodeFrame frameHeaderSize_def pad_len_def frameAlignment_def)
  obtain lg1 where a1: "Append ?m 7 4 (ev 0 ''run.started'') OpenLogExclusive = (False, lg1)"
    and c1: "lg_seq lg1 = 0" "lg_epoch lg1 = 0"
    using m1 l1 by (auto simp: Append_def stamp_def Let_def OpenLogExclusive_def)
  have m2: "?m (stamp 7 lg1 (ev 0 ''run.finished'')) = Some ''b''"
    using c1 by (simp add: stamp_def two_events_marshal_def ev_def)
  then obtain lg2 where a2: "Append ?m 7 16 (ev 0 ''run.finished'') lg1 = (True, lg2)"
    using l2 by (auto simp: Append_def stamp_def Let_def)
  from torn_write_hides_synced_event [OF two_events_codec log_run.fresh a1 m1 _ a2 m2] l2 a1 a2
  show ?thesis by (simp add: frameHeaderSize_def Let_def)
qed

end
