(* ===== verification/State_Fake.thy ===== *)
theory State_Fake
  imports State_Log
begin

text \<open>
  The in-memory log of src/state/fake.go, which the engine's conformance suite runs against, and
  the contract it shares with the file log. The locale \<open>event_log\<close> is the \<open>Log\<close> interface of
  src/state/log.go as its clients use it: what was appended is folded back in order, and opening
  the log again keeps the events and starts a new epoch. It is interpreted on both
  implementations, and the simulation between them is proved once from the contract.
\<close>

subsection \<open>The in-memory log\<close>

record mem_log =
  ml_events :: "event list"
  ml_seq :: nat
  ml_epoch :: nat
  ml_appendCalls :: nat
  ml_failAppendAt :: "nat option"

definition NewInMemoryLog :: mem_log where
  "NewInMemoryLog = \<lparr>ml_events = [], ml_seq = 0, ml_epoch = 0, ml_appendCalls = 0, ml_failAppendAt = None\<rparr>"

definition mem_Append :: "int \<Rightarrow> event \<Rightarrow> mem_log \<Rightarrow> bool \<times> mem_log" where
  "mem_Append now e l =
     (if ml_failAppendAt l = Some (ml_appendCalls l)
      then (False, l\<lparr>ml_appendCalls := ml_appendCalls l + 1\<rparr>)
      else let sq = (ml_seq l + 1) mod 2 ^ 64
           in (True, l\<lparr>ml_appendCalls := ml_appendCalls l + 1, ml_seq := sq,
                 ml_events := ml_events l @ [e\<lparr>Seq := sq, Epoch := ml_epoch l, TS := now\<rparr>]\<rparr>))"

definition FailAppendAfterN :: "nat \<Rightarrow> mem_log \<Rightarrow> mem_log" where
  "FailAppendAfterN n l = l\<lparr>ml_failAppendAt := Some n\<rparr>"

definition mem_Reopen :: "mem_log \<Rightarrow> mem_log" where
  "mem_Reopen l = (if ml_events l = [] then l
     else l\<lparr>ml_epoch := (Epoch (last (ml_events l)) + 1) mod 2 ^ 32\<rparr>)"

definition ClearFault :: "mem_log \<Rightarrow> mem_log" where
  "ClearFault l = l\<lparr>ml_failAppendAt := None\<rparr>"

definition mem_Sync :: "mem_log \<Rightarrow> mem_log" where
  "mem_Sync l = l"

definition mem_Fold :: "mem_log \<Rightarrow> event list" where
  "mem_Fold l = ml_events l"

subsection \<open>The contract of a log\<close>

text \<open>
  \<open>cnt l\<close> and \<open>epo l\<close> are the sequence number and the epoch the log will use next. The laws are
  those of the \<open>Log\<close> interface's comment: sequence numbers are monotonic across reopens, an open
  of an existing log increments the epoch, \<open>Fold\<close> returns the whole sequence.
\<close>

definition next_epoch :: "event list \<Rightarrow> nat \<Rightarrow> nat" where
  "next_epoch es e0 = (if es = [] then e0 else (Epoch (last es) + 1) mod 2 ^ 32)"

locale event_log =
  fixes inv :: "'l \<Rightarrow> bool"
    and append :: "int \<Rightarrow> event \<Rightarrow> 'l \<Rightarrow> bool \<times> 'l"
    and sync :: "'l \<Rightarrow> 'l"
    and reopen :: "'l \<Rightarrow> 'l"
    and fold :: "'l \<Rightarrow> event list"
    and cnt :: "'l \<Rightarrow> nat"
    and epo :: "'l \<Rightarrow> nat"
  assumes append_ok: "inv l \<Longrightarrow> append now e l = (True, l') \<Longrightarrow>
      inv l' \<and> fold l' = fold l @ [e\<lparr>Seq := (cnt l + 1) mod 2 ^ 64, Epoch := epo l, TS := now\<rparr>]
      \<and> cnt l' = (cnt l + 1) mod 2 ^ 64 \<and> epo l' = epo l"
    and sync_ok: "inv l \<Longrightarrow> inv (sync l) \<and> fold (sync l) = fold l \<and> cnt (sync l) = cnt l \<and> epo (sync l) = epo l"
    and reopen_ok: "inv l \<Longrightarrow> inv (reopen l) \<and> fold (reopen l) = fold l \<and> cnt (reopen l) = cnt l"
    and reopen_epoch: "inv l \<Longrightarrow> epo (reopen l) = next_epoch (fold l) (epo (reopen l))"
begin

text \<open>What a client can observe of a log.\<close>

definition obs :: "'l \<Rightarrow> event list \<times> nat \<times> nat" where
  "obs l = (fold l, cnt l, epo l)"

lemma obs_append:
  assumes "inv l" and "append now e l = (True, l')"
  shows "inv l' \<and> obs l' = (case obs l of (es, sq, ep) \<Rightarrow>
     (es @ [e\<lparr>Seq := (sq + 1) mod 2 ^ 64, Epoch := ep, TS := now\<rparr>], (sq + 1) mod 2 ^ 64, ep))"
  using append_ok [OF assms] by (simp add: obs_def)

lemma obs_sync: "inv l \<Longrightarrow> inv (sync l) \<and> obs (sync l) = obs l"
  using sync_ok by (simp add: obs_def)

lemma obs_reopen:
  assumes "inv l" and "fold l \<noteq> []"
  shows "inv (reopen l) \<and> obs (reopen l) = (case obs l of (es, sq, ep) \<Rightarrow> (es, sq, next_epoch es ep))"
  using reopen_ok [OF assms(1)] reopen_epoch [OF assms(1)] assms(2)
  by (simp add: obs_def next_epoch_def)

end

subsection \<open>Both logs meet the contract\<close>

text \<open>
  The file log: an append whose write lands whole, and a close and reopen without a crash. The
  invariant is that the file is the image of some events the codec handles.
\<close>

definition file_append ::
  "(event \<Rightarrow> string option) \<Rightarrow> int \<Rightarrow> event \<Rightarrow> file_log \<Rightarrow> bool \<times> file_log" where
  "file_append m now e lg =
     (case m (stamp now lg e) of
        None \<Rightarrow> Append m now 0 e lg
      | Some b \<Rightarrow> Append m now (length (encodeFrame b)) e lg)"

definition file_reopen :: "(string \<Rightarrow> event option) \<Rightarrow> file_log \<Rightarrow> file_log" where
  "file_reopen u lg = openLog u (length (lg_file lg)) (lg_file lg)"

definition file_ok ::
  "(event \<Rightarrow> string option) \<Rightarrow> (string \<Rightarrow> event option) \<Rightarrow> file_log \<Rightarrow> bool" where
  "file_ok m u lg \<longleftrightarrow> event_codec m u \<and> (\<exists>es s. log_inv m lg es s)"

lemma log_inv_Fold: "event_codec m u \<Longrightarrow> log_inv m lg es s \<Longrightarrow> Fold u lg = es"
  using scanFile_image [of m u es "[]"] by (simp add: Fold_def log_inv_def)

lemma last_Seq: "log_inv m lg es s \<Longrightarrow> es \<noteq> [] \<Longrightarrow> Seq (last es) = length es mod 2 ^ 64"
proof -
  assume inv: "log_inv m lg es s" and ne: "es \<noteq> []"
  then have "Seq (last es) = last (map Seq es)" by (simp add: last_map)
  also have "\<dots> = length es mod 2 ^ 64"
    using inv ne by (cases "length es") (simp_all add: log_inv_def)
  finally show ?thesis .
qed

lemma file_reopen_eq:
  assumes "event_codec m u" and "log_inv m lg es s"
  shows "file_reopen u lg = \<lparr>lg_file = lg_file lg, lg_synced = length (lg_file lg),
     lg_seq = lg_seq lg, lg_epoch = next_epoch es 0\<rparr>"
  using scanFile_image [OF assms(1), of es "[]"] assms(2) last_Seq [OF assms(2)]
  by (auto simp: file_reopen_def openLog_def Let_def log_inv_def next_epoch_def)

interpretation file_log: event_log "file_ok m u" "file_append m" Sync "file_reopen u" "Fold u" lg_seq lg_epoch
  for m u
proof unfold_locales
  fix l l' now e
  assume "file_ok m u l" and app: "file_append m now e l = (True, l')"
  then obtain es s where c: "event_codec m u" and inv: "log_inv m l es s" by (auto simp: file_ok_def)
  from app obtain n where app': "Append m now n e l = (True, l')"
    by (auto simp: file_append_def split: option.splits)
  have inv': "log_inv m l' (es @ [stamp now l e]) s" by (rule log_inv_append [OF inv app'])
  from app' have "lg_seq l' = (lg_seq l + 1) mod 2 ^ 64 \<and> lg_epoch l' = lg_epoch l"
    by (cases rule: Append_cases) simp_all
  with inv' c show "file_ok m u l' \<and>
      Fold u l' = Fold u l @ [e\<lparr>Seq := (lg_seq l + 1) mod 2 ^ 64, Epoch := lg_epoch l, TS := now\<rparr>] \<and>
      lg_seq l' = (lg_seq l + 1) mod 2 ^ 64 \<and> lg_epoch l' = lg_epoch l"
    using log_inv_Fold [OF c inv] log_inv_Fold [OF c inv'] by (auto simp: file_ok_def stamp_def)
next
  fix l
  assume "file_ok m u l"
  then obtain es s where c: "event_codec m u" and inv: "log_inv m l es s" by (auto simp: file_ok_def)
  show "file_ok m u (Sync l) \<and> Fold u (Sync l) = Fold u l \<and> lg_seq (Sync l) = lg_seq l \<and> lg_epoch (Sync l) = lg_epoch l"
    using log_inv_sync [OF inv] c by (auto simp: file_ok_def Fold_def Sync_def)
  have "log_inv m (file_reopen u l) es (length es)"
    using inv by (simp add: file_reopen_eq [OF c inv] log_inv_def)
  then show "file_ok m u (file_reopen u l) \<and> Fold u (file_reopen u l) = Fold u l \<and>
      lg_seq (file_reopen u l) = lg_seq l"
    using c log_inv_Fold [OF c inv] log_inv_Fold [OF c] by (auto simp: file_ok_def file_reopen_eq [OF c inv])
  show "lg_epoch (file_reopen u l) = next_epoch (Fold u l) (lg_epoch (file_reopen u l))"
    by (simp add: file_reopen_eq [OF c inv] log_inv_Fold [OF c inv] next_epoch_def)
qed

interpretation mem_log: event_log "\<lambda>_. True" mem_Append mem_Sync mem_Reopen mem_Fold ml_seq ml_epoch
  by unfold_locales
    (auto simp: mem_Append_def mem_Sync_def mem_Reopen_def mem_Fold_def next_epoch_def Let_def split: if_splits)

subsection \<open>The fake simulates the file log\<close>

datatype log_op = OpAppend int event | OpSync | OpReopen

fun file_op :: "(event \<Rightarrow> string option) \<Rightarrow> (string \<Rightarrow> event option) \<Rightarrow> log_op \<Rightarrow> file_log \<Rightarrow> file_log option" where
  "file_op m u (OpAppend now e) l = (case file_append m now e l of (ok, l') \<Rightarrow> if ok then Some l' else None)"
| "file_op m u OpSync l = Some (Sync l)"
| "file_op m u OpReopen l = Some (file_reopen u l)"

fun mem_op :: "log_op \<Rightarrow> mem_log \<Rightarrow> mem_log option" where
  "mem_op (OpAppend now e) l = (case mem_Append now e l of (ok, l') \<Rightarrow> if ok then Some l' else None)"
| "mem_op OpSync l = Some (mem_Sync l)"
| "mem_op OpReopen l = Some (mem_Reopen l)"

fun run_ops :: "('op \<Rightarrow> 'l \<Rightarrow> 'l option) \<Rightarrow> 'op list \<Rightarrow> 'l \<Rightarrow> 'l option" where
  "run_ops f [] l = Some l"
| "run_ops f (x # xs) l = (case f x l of None \<Rightarrow> None | Some l' \<Rightarrow> run_ops f xs l')"

definition log_sim :: "(event \<Rightarrow> string option) \<Rightarrow> (string \<Rightarrow> event option) \<Rightarrow> file_log \<Rightarrow> mem_log \<Rightarrow> bool" where
  "log_sim m u lg ml \<longleftrightarrow> file_ok m u lg \<and> file_log.obs u lg = mem_log.obs ml
     \<and> ml_failAppendAt ml = None \<and> (Fold u lg = [] \<longrightarrow> lg_epoch lg = 0)"

lemma mem_op_no_fault: "mem_op x ml = Some ml' \<Longrightarrow> ml_failAppendAt ml' = ml_failAppendAt ml"
  by (cases x) (auto simp: mem_Append_def mem_Sync_def mem_Reopen_def Let_def split: if_splits)

lemma log_sim_step:
  assumes sim: "log_sim m u lg ml" and "file_op m u x lg = Some lg'"
  shows "\<exists>ml'. mem_op x ml = Some ml' \<and> log_sim m u lg' ml'"
proof (cases x)
  case (OpAppend now e)
  have ok: "file_ok m u lg" and obs: "file_log.obs u lg = mem_log.obs ml" using sim by (simp_all add: log_sim_def)
  from assms(2) OpAppend have app: "file_append m now e lg = (True, lg')"
    by (auto split: prod.splits if_splits)
  obtain ml' where mapp: "mem_Append now e ml = (True, ml')"
    using sim by (auto simp: mem_Append_def log_sim_def Let_def)
  from file_log.obs_append [OF ok app] mem_log.obs_append [OF _ mapp] obs
  have "file_ok m u lg' \<and> file_log.obs u lg' = mem_log.obs ml' \<and> Fold u lg' \<noteq> []"
    by (auto simp: file_log.obs_def mem_log.obs_def)
  then show ?thesis using OpAppend mapp mem_op_no_fault [of x ml ml'] sim
    by (auto simp: log_sim_def)
next
  case OpSync
  with assms show ?thesis
    using file_log.obs_sync [of m u lg] mem_log.obs_sync [of ml] sim
    by (auto simp: log_sim_def mem_Sync_def file_log.obs_def mem_log.obs_def)
next
  case OpReopen
  have ok: "file_ok m u lg" and obs: "file_log.obs u lg = mem_log.obs ml" using sim by (simp_all add: log_sim_def)
  show ?thesis
  proof (cases "Fold u lg = []")
    case True
    then have "lg_epoch (file_reopen u lg) = 0 \<and> Fold u (file_reopen u lg) = [] \<and> lg_seq (file_reopen u lg) = lg_seq lg"
      using ok file_reopen_eq log_inv_Fold file_log.reopen_ok [OF ok]
      by (auto simp: file_ok_def next_epoch_def)
    moreover have "mem_Reopen ml = ml" using True obs
      by (auto simp: mem_Reopen_def file_log.obs_def mem_log.obs_def mem_Fold_def)
    ultimately show ?thesis using assms OpReopen True file_log.reopen_ok [OF ok]
      by (auto simp: log_sim_def file_log.obs_def mem_log.obs_def)
  next
    case False
    then have ne: "mem_Fold ml \<noteq> []" using obs by (auto simp: file_log.obs_def mem_log.obs_def)
    from file_log.obs_reopen [OF ok False] mem_log.obs_reopen [OF _ ne] obs False
    have "file_ok m u (file_reopen u lg) \<and> file_log.obs u (file_reopen u lg) = mem_log.obs (mem_Reopen ml)
        \<and> Fold u (file_reopen u lg) \<noteq> []"
      using file_log.reopen_ok [OF ok] by (auto simp: file_log.obs_def mem_log.obs_def)
    then show ?thesis using assms OpReopen mem_op_no_fault [of x ml "mem_Reopen ml"]
      by (auto simp: log_sim_def)
  qed
qed

lemma log_sim_run:
  "log_sim m u lg ml \<Longrightarrow> run_ops (file_op m u) ops lg = Some lg' \<Longrightarrow>
   \<exists>ml'. run_ops mem_op ops ml = Some ml' \<and> log_sim m u lg' ml'"
proof (induction ops arbitrary: lg ml)
  case (Cons x xs)
  then obtain lg1 where step: "file_op m u x lg = Some lg1" and "run_ops (file_op m u) xs lg1 = Some lg'"
    by (auto split: option.splits)
  with log_sim_step [OF Cons.prems(1) step] Cons.IH show ?case by fastforce
qed simp

text \<open>
  C33: The in-memory log is a faithful stand-in for the file log: any sequence of appends, syncs
  and reopens that succeeds on the file succeeds on the fake, and both then fold to the same
  events with the same sequence numbers and epochs.
\<close>

theorem in_memory_log_refines_file_log:
  assumes "event_codec m u" and "run_ops (file_op m u) ops OpenLogExclusive = Some lg"
  shows "\<exists>ml. run_ops mem_op ops NewInMemoryLog = Some ml \<and> mem_Fold ml = Fold u lg
     \<and> ml_seq ml = lg_seq lg \<and> ml_epoch ml = lg_epoch lg"
proof -
  have "file_ok m u OpenLogExclusive"
    using assms(1) by (auto simp: file_ok_def OpenLogExclusive_def log_inv_def intro!: exI [of _ "[]"])
  then have "log_sim m u OpenLogExclusive NewInMemoryLog"
    by (simp add: log_sim_def file_log.obs_def mem_log.obs_def Fold_def mem_Fold_def
        OpenLogExclusive_def NewInMemoryLog_def)
  from log_sim_run [OF this assms(2)] show ?thesis
    by (auto simp: log_sim_def file_log.obs_def mem_log.obs_def)
qed

theorem in_memory_log_refines_file_log_witness:
  "map (\<lambda>l. (mem_Fold l, ml_epoch l))
     (case run_ops mem_op [OpAppend 7 (ev 0 ''run.finished''), OpSync, OpReopen] NewInMemoryLog of
        Some l \<Rightarrow> [l] | None \<Rightarrow> [])
   = [([ev 1 ''run.finished''], 1)]"
proof -
  let ?m = two_events_marshal and ?u = two_events_unmarshal
  let ?ops = "[OpAppend 7 (ev 0 ''run.finished''), OpSync, OpReopen]"
  have m2: "?m (stamp 7 OpenLogExclusive (ev 0 ''run.finished'')) = Some ''b''"
    unfolding two_events_stamp by (simp add: two_events_marshal_def ev_def)
  then obtain lg where lg: "file_append ?m 7 (ev 0 ''run.finished'') OpenLogExclusive = (True, lg)"
    by (auto simp: file_append_def Append_def stamp_def Let_def)
  then have run: "run_ops (file_op ?m ?u) ?ops OpenLogExclusive = Some (file_reopen ?u (Sync lg))"
    by simp
  have "mem_Append 7 (ev 0 ''run.finished'') NewInMemoryLog
      = (True, \<lparr>ml_events = [ev 1 ''run.finished''], ml_seq = 1, ml_epoch = 0, ml_appendCalls = 1, ml_failAppendAt = None\<rparr>)"
    by (simp add: mem_Append_def NewInMemoryLog_def ev_def)
  with in_memory_log_refines_file_log [OF two_events_codec run] show ?thesis
    by (auto simp: mem_Sync_def mem_Reopen_def mem_Fold_def ev_def)
qed

end
