(* ===== verification/State_Blobs.thy ===== *)
theory State_Blobs
  imports Go_Hash Awf_Prelude
begin

text \<open>
  The content-addressed blob store: src/state/blobs.go (\<open>FSBlobs\<close>, a directory tree) and the
  in-memory store of src/state/fake.go. Each I/O call of \<open>Put\<close> may fail, so the file-system model
  takes the step at which it does. The locale \<open>blob_store\<close> is the \<open>Blobs\<close> interface: what its
  clients rely on when they write a payload and later read it by its reference.
\<close>

subsection \<open>References\<close>

definition blobRefPrefix :: string where "blobRefPrefix = ''awf-d1:sha256:''"

definition blobHashHexLen :: nat where "blobHashHexLen = 64"

definition blobShardLen :: nat where "blobShardLen = 2"

datatype blob_error = ErrBadRef | ErrCorruption | ErrNotExist | ErrIO

definition hashAndRef :: "string \<Rightarrow> string \<times> string" where
  "hashAndRef content = (let hashHex = hex_encode (sha256 content) in (hashHex, blobRefPrefix @ hashHex))"

definition RefFor :: "string \<Rightarrow> string" where
  "RefFor content = snd (hashAndRef content)"

text \<open>
  \<open>strings.ToLower\<close> on ASCII; a byte outside ASCII is left alone here and refused by the hex check,
  which answers with the same error.
\<close>

definition to_lower :: "char \<Rightarrow> char" where
  "to_lower c = (let n = of_char c :: nat in if 65 \<le> n \<and> n \<le> 90 then char_of (n + 32) else c)"

definition is_hex :: "char \<Rightarrow> bool" where
  "is_hex c = is_lower_hex (to_lower c)"

definition parseRef :: "string \<Rightarrow> blob_error + string" where
  "parseRef ref =
     (if \<not> hasPrefix ref blobRefPrefix then Inl ErrBadRef
      else let rest = drop (length blobRefPrefix) ref
           in if length rest \<noteq> blobHashHexLen then Inl ErrBadRef
              else if rest \<noteq> map to_lower rest then Inl ErrBadRef
              else if \<not> list_all is_hex rest then Inl ErrBadRef
              else Inr rest)"

subsection \<open>The file-system store\<close>

text \<open>A file is named by its shard directory and its name inside it.\<close>

type_synonym blob_path = "string \<times> string"

record fs_blobs =
  fb_files :: "blob_path \<Rightarrow> string option"

datatype put_fault = NoFault | MkdirFails | SyncRootFails | CreateFails | WriteFails | SyncFails
  | CloseFails | RenameFails | SyncShardFails

definition blob_path :: "string \<Rightarrow> blob_path" where
  "blob_path hashHex = (take blobShardLen hashHex, hashHex)"

definition fs_Put :: "put_fault \<Rightarrow> string \<Rightarrow> fs_blobs \<Rightarrow> (blob_error + string) \<times> fs_blobs" where
  "fs_Put fault content b =
     (let (hashHex, ref) = hashAndRef content; finalPath = blob_path hashHex
      in if fault = MkdirFails then (Inl ErrIO, b)
         else if fb_files b finalPath \<noteq> None then (Inr ref, b)
         else if fault \<in> {SyncRootFails, CreateFails, WriteFails, SyncFails, CloseFails, RenameFails}
              then (Inl ErrIO, b)
         else let b' = b\<lparr>fb_files := (fb_files b)(finalPath \<mapsto> content)\<rparr>
              in if fault = SyncShardFails then (Inl ErrIO, b') else (Inr ref, b'))"

definition fs_Get :: "string \<Rightarrow> fs_blobs \<Rightarrow> blob_error + string" where
  "fs_Get ref b =
     rbind (parseRef ref) (\<lambda>hashHex.
       case fb_files b (blob_path hashHex) of
         None \<Rightarrow> Inl ErrNotExist
       | Some content \<Rightarrow>
           if hex_encode (sha256 content) \<noteq> hashHex then Inl ErrCorruption else Inr content)"

subsection \<open>The in-memory store\<close>

record mem_blobs =
  mb_store :: "string \<Rightarrow> string option"
  mb_putCalls :: nat
  mb_failPutAt :: "nat option"

definition NewInMemoryBlobs :: mem_blobs where
  "NewInMemoryBlobs = \<lparr>mb_store = (\<lambda>_. None), mb_putCalls = 0, mb_failPutAt = None\<rparr>"

definition mem_Put :: "string \<Rightarrow> mem_blobs \<Rightarrow> (blob_error + string) \<times> mem_blobs" where
  "mem_Put content b =
     (if mb_failPutAt b = Some (mb_putCalls b) then (Inl ErrIO, b\<lparr>mb_putCalls := mb_putCalls b + 1\<rparr>)
      else let b = b\<lparr>mb_putCalls := mb_putCalls b + 1\<rparr>; (hashHex, ref) = hashAndRef content
           in if mb_store b hashHex = None
              then (Inr ref, b\<lparr>mb_store := (mb_store b)(hashHex \<mapsto> content)\<rparr>)
              else (Inr ref, b))"

definition mem_Get :: "string \<Rightarrow> mem_blobs \<Rightarrow> blob_error + string" where
  "mem_Get ref b =
     rbind (parseRef ref) (\<lambda>hashHex.
       case mb_store b hashHex of None \<Rightarrow> Inl ErrNotExist | Some content \<Rightarrow> Inr content)"

subsection \<open>The contract of a blob store\<close>

text \<open>
  \<open>inv\<close> holds of a store whose files were written by \<open>Put\<close> alone. A successful put makes the
  reference readable; what is read always has the digest the reference names, so it is the
  content itself unless SHA-256 collides; no put makes a readable reference unreadable or changes
  what it reads.
\<close>

locale blob_store =
  fixes inv :: "'b \<Rightarrow> bool"
    and put :: "'f \<Rightarrow> string \<Rightarrow> 'b \<Rightarrow> (blob_error + string) \<times> 'b"
    and get :: "string \<Rightarrow> 'b \<Rightarrow> blob_error + string"
  assumes put_inv: "inv b \<Longrightarrow> inv (snd (put f c b))"
    and put_ref: "put f c b = (Inr r, b') \<Longrightarrow> r = RefFor c"
    and put_get: "inv b \<Longrightarrow> put f c b = (Inr r, b') \<Longrightarrow> \<exists>c'. get r b' = Inr c'"
    and get_digest: "inv b \<Longrightarrow> get r b = Inr c \<Longrightarrow> RefFor c = r"
    and put_mono: "inv b \<Longrightarrow> get r b = Inr d \<Longrightarrow> get r (snd (put f c b)) = Inr d"
begin

definition has :: "'b \<Rightarrow> string \<Rightarrow> bool" where
  "has b r = is_ok (get r b)"

lemma has_put: "inv b \<Longrightarrow> put f c b = (Inr r, b') \<Longrightarrow> has b' r"
  using put_get by (fastforce simp: has_def)

lemma has_mono: "inv b \<Longrightarrow> has b r \<Longrightarrow> has (snd (put f c b)) r"
  using put_mono by (fastforce simp: has_def is_ok_def split: sum.splits)

text \<open>What a sequence of puts, failed ones included, leaves readable.\<close>

fun puts :: "('f \<times> string) list \<Rightarrow> 'b \<Rightarrow> 'b" where
  "puts [] b = b"
| "puts ((f, c) # xs) b = puts xs (snd (put f c b))"

lemma puts_mono: "inv b \<Longrightarrow> get r b = Inr d \<Longrightarrow> get r (puts xs b) = Inr d"
  by (induction xs arbitrary: b rule: list.induct) (auto simp: put_mono put_inv)

text \<open>Put then any other puts then get gives the content back, up to a collision of the digest.\<close>

lemma put_then_get:
  assumes "inv b" and "put f c b = (Inr r, b')"
  shows "\<exists>c'. get r (puts xs b') = Inr c' \<and> RefFor c' = RefFor c"
proof -
  have inv': "inv b'" using put_inv [OF assms(1), of f c] assms(2) by simp
  obtain c' where "get r b' = Inr c'" using put_get [OF assms] by blast
  then show ?thesis using puts_mono [OF inv'] get_digest [OF inv'] put_ref [OF assms(2)] by metis
qed

end

subsection \<open>Both stores meet the contract\<close>

lemma to_lower_hex: "is_lower_hex c \<Longrightarrow> to_lower c = c"
  by (auto simp: is_lower_hex_def to_lower_def Let_def)

lemma parseRef_RefFor: "parseRef (RefFor c) = Inr (hex_encode (sha256 c))"
proof -
  let ?h = "hex_encode (sha256 c)"
  have hex: "\<forall>x \<in> set ?h. is_lower_hex x" using hex_encode_lower [of "sha256 c"] by (simp add: list_all_iff)
  then have "map to_lower ?h = ?h" using to_lower_hex by (simp add: map_idI)
  moreover have "list_all is_hex ?h" using hex by (auto simp: list_all_iff is_hex_def to_lower_hex)
  ultimately show ?thesis
    by (simp add: parseRef_def RefFor_def hashAndRef_def Let_def blobHashHexLen_def)
qed

lemma parseRef_Inr:
  assumes "parseRef r = Inr h"
  shows "r = blobRefPrefix @ h \<and> length h = 64 \<and> list_all is_lower_hex h"
proof -
  have r: "hasPrefix r blobRefPrefix" "h = drop (length blobRefPrefix) r" "length h = 64"
    "h = map to_lower h" "list_all is_hex h"
    using assms by (auto simp: parseRef_def Let_def blobHashHexLen_def split: if_splits)
  have "list_all is_lower_hex (map to_lower h)" using r(5) by (simp add: list_all_iff is_hex_def)
  then show ?thesis using r by (auto simp: hasPrefix_iff)
qed

definition fs_inv :: "fs_blobs \<Rightarrow> bool" where
  "fs_inv b \<longleftrightarrow> (\<forall>h c. fb_files b (blob_path h) = Some c \<longrightarrow> hex_encode (sha256 c) = h)"

definition mem_inv :: "mem_blobs \<Rightarrow> bool" where
  "mem_inv b \<longleftrightarrow> (\<forall>h c. mb_store b h = Some c \<longrightarrow> hex_encode (sha256 c) = h)"

lemma blob_path_inj [simp]: "blob_path h = blob_path h' \<longleftrightarrow> h = h'"
  by (auto simp: blob_path_def)

lemma fs_Put_inv: "fs_inv b \<Longrightarrow> fs_inv (snd (fs_Put f c b))"
  by (auto simp: fs_inv_def fs_Put_def hashAndRef_def Let_def split: if_splits)

lemma fs_Put_ok:
  "fs_Put f c b = (Inr r, b') \<Longrightarrow> r = RefFor c \<and> fb_files b' (blob_path (hex_encode (sha256 c))) \<noteq> None"
  by (auto simp: fs_Put_def hashAndRef_def RefFor_def Let_def split: if_splits)

lemma fs_Put_mono:
  "fb_files b q = Some d \<Longrightarrow> fb_files (snd (fs_Put f c b)) q = Some d"
  by (auto simp: fs_Put_def hashAndRef_def Let_def)

interpretation fs: blob_store fs_inv fs_Put fs_Get
proof unfold_locales
  show "fs_inv (snd (fs_Put f c b))" if "fs_inv b" for f c b using that by (rule fs_Put_inv)
  show "r = RefFor c" if "fs_Put f c b = (Inr r, b')" for f c b r b' using fs_Put_ok [OF that] by simp
  show "\<exists>c'. fs_Get r b' = Inr c'" if inv: "fs_inv b" and put: "fs_Put f c b = (Inr r, b')" for f c b r b'
  proof -
    have "fs_inv b'" using fs_Put_inv [OF inv, of f c] put by simp
    moreover obtain d where "fb_files b' (blob_path (hex_encode (sha256 c))) = Some d" "r = RefFor c"
      using fs_Put_ok [OF put] by auto
    ultimately show ?thesis by (auto simp: fs_Get_def parseRef_RefFor fs_inv_def)
  qed
  show "RefFor c = r" if "fs_inv b" "fs_Get r b = Inr c" for r b c
    using that(2) by (auto simp: fs_Get_def rbind_eq_Inr RefFor_def hashAndRef_def Let_def
        dest!: parseRef_Inr split: option.splits if_splits)
  show "fs_Get r (snd (fs_Put f c b)) = Inr d" if "fs_inv b" "fs_Get r b = Inr d" for f c b r d
  proof -
    from that(2) obtain h where h: "parseRef r = Inr h" "fb_files b (blob_path h) = Some d" "hex_encode (sha256 d) = h"
      by (auto simp: fs_Get_def rbind_eq_Inr split: option.splits if_splits)
    then show ?thesis using fs_Put_mono [OF h(2), of f c] by (simp add: fs_Get_def rbind_def)
  qed
qed

lemma mem_Put_ok:
  "mem_Put c b = (Inr r, b') \<Longrightarrow> r = RefFor c \<and> mb_store b' (hex_encode (sha256 c)) \<noteq> None"
  by (auto simp: mem_Put_def hashAndRef_def RefFor_def Let_def split: if_splits)

lemma mem_Put_inv: "mem_inv b \<Longrightarrow> mem_inv (snd (mem_Put c b))"
  by (auto simp: mem_inv_def mem_Put_def hashAndRef_def Let_def)

lemma mem_Put_mono: "mb_store b q = Some d \<Longrightarrow> mb_store (snd (mem_Put c b)) q = Some d"
  by (auto simp: mem_Put_def hashAndRef_def Let_def)

interpretation mem: blob_store mem_inv "\<lambda>_ :: unit. mem_Put" mem_Get
proof unfold_locales
  show "mem_inv (snd (mem_Put c b))" if "mem_inv b" for c b using that by (rule mem_Put_inv)
  show "r = RefFor c" if "mem_Put c b = (Inr r, b')" for c b r b' using mem_Put_ok [OF that] by simp
  show "\<exists>c'. mem_Get r b' = Inr c'" if "mem_inv b" and put: "mem_Put c b = (Inr r, b')" for c b r b'
    using mem_Put_ok [OF put] by (auto simp: mem_Get_def parseRef_RefFor)
  show "RefFor c = r" if "mem_inv b" "mem_Get r b = Inr c" for r b c
    using that by (auto simp: mem_inv_def mem_Get_def rbind_eq_Inr RefFor_def hashAndRef_def Let_def
        dest!: parseRef_Inr split: option.splits)
  show "mem_Get r (snd (mem_Put c b)) = Inr d" if "mem_inv b" "mem_Get r b = Inr d" for c b r d
  proof -
    from that(2) obtain h where h: "parseRef r = Inr h" "mb_store b h = Some d"
      by (auto simp: mem_Get_def rbind_eq_Inr split: option.splits)
    then show ?thesis using mem_Put_mono [OF h(2), of c] by (simp add: mem_Get_def rbind_def)
  qed
qed

subsection \<open>Properties\<close>

text \<open>
  C34: A blob that was put is read back under its reference, whatever puts follow, failed ones
  included: the content returned has the digest that was stored, and it is the content itself
  unless two contents have the same SHA-256 digest.
\<close>

theorem blob_put_get:
  assumes "fs_inv b" and "fs_Put f c b = (Inr r, b')"
  shows "r = RefFor c \<and> (\<exists>c'. fs_Get r (fs.puts xs b') = Inr c' \<and> RefFor c' = RefFor c)"
  using fs.put_then_get [OF assms] fs_Put_ok [OF assms(2)] by blast

theorem blob_put_get_witness:
  "fs_Get (RefFor ''x'') (fs.puts [(WriteFails, ''y'')] (snd (fs_Put NoFault ''x'' \<lparr>fb_files = (\<lambda>_. None)\<rparr>)))
     \<noteq> Inl ErrNotExist"
proof -
  let ?b = "\<lparr>fb_files = (\<lambda>_. None)\<rparr> :: fs_blobs"
  have inv: "fs_inv ?b" by (simp add: fs_inv_def)
  obtain r b' where put: "fs_Put NoFault ''x'' ?b = (Inr r, b')"
    by (auto simp: fs_Put_def hashAndRef_def Let_def)
  from blob_put_get [OF inv put, of "[(WriteFails, ''y'')]"] put show ?thesis by auto
qed

text \<open>
  A reference that parses is the prefix and 64 lower-case hexadecimal digits and nothing else,
  so the path built from it cannot leave its shard directory; every reference \<open>RefFor\<close> issues
  parses to its digest.
\<close>

lemma parseRef_safe_and_complete:
  "parseRef (RefFor c) = Inr (hex_encode (sha256 c))
   \<and> (parseRef r = Inr h \<longleftrightarrow> r = blobRefPrefix @ h \<and> length h = 64 \<and> list_all is_lower_hex h)"
proof -
  have "parseRef (blobRefPrefix @ h) = Inr h" if "length h = 64" "list_all is_lower_hex h"
  proof -
    have "map to_lower h = h" using that(2) by (simp add: map_idI list_all_iff to_lower_hex)
    moreover have "list_all is_hex h" using that(2) by (auto simp: list_all_iff is_hex_def to_lower_hex)
    ultimately show ?thesis using that(1) by (simp add: parseRef_def Let_def blobHashHexLen_def)
  qed
  then show ?thesis using parseRef_RefFor parseRef_Inr by blast
qed

text \<open>
  The store never returns content that does not match its reference, even when the files
  were changed behind it: a read yields content with the digest the reference names, or an error.
\<close>

lemma blob_get_verifies_digest:
  "(case fs_Get r b of
      Inr c \<Rightarrow> r = RefFor c
    | Inl ErrCorruption \<Rightarrow> \<exists>h c. parseRef r = Inr h \<and> fb_files b (blob_path h) = Some c \<and> RefFor c \<noteq> r
    | Inl ErrNotExist \<Rightarrow> \<exists>h. parseRef r = Inr h \<and> fb_files b (blob_path h) = None
    | Inl ErrBadRef \<Rightarrow> parseRef r = Inl ErrBadRef
    | Inl ErrIO \<Rightarrow> False)"
proof (cases "parseRef r")
  case (Inl e)
  then have "e = ErrBadRef" by (auto simp: parseRef_def Let_def split: if_splits)
  with Inl show ?thesis by (simp add: fs_Get_def rbind_def)
next
  case (Inr h)
  then have "r = blobRefPrefix @ h" by (simp add: parseRef_Inr)
  with Inr show ?thesis
    by (auto simp: fs_Get_def rbind_def RefFor_def hashAndRef_def Let_def split: option.split)
qed

end
