(* ===== verification/Template_Syntax.thy ===== *)
theory Template_Syntax
  imports Awf_Prelude
begin

text \<open>
  The expression language of src/template: the lexer (lexer.go), the recursive-descent parser
  (parser.go), the syntax tree (ast.go), reference extraction (refs.go) and the parsers of whole
  references (artifact_ref.go). The lexer works on the rest of the source and the offset it
  starts at; the parser on the rest of the token slice. Indexing the token slice out of range
  panics in Go, so \<open>peek\<close> of no token is the error \<open>PPanic\<close>. The parser's recursion is cut by
  fuel; \<open>ParseExpr\<close> passes an amount that is shown to be enough.

  The grammar of the package comment is an inductive relation, and the parser accepts exactly
  the token sequences it derives, with the tree it derives.
\<close>

subsection \<open>Tokens\<close>

datatype token_kind = TEOF | TIdent | TNumber | TString | TDot | TLParen | TRParen | TOr | TAnd
  | TNot | TEq | TNeq | TLt | TLe | TGt | TGe

record token =
  Kind :: token_kind
  Text :: string
  Pos :: nat

text \<open>The messages of \<open>SyntaxError\<close>, one constructor per format string.\<close>

datatype syntax_msg = BareEq | UnexpectedMinus | UnexpectedChar char | UnterminatedString
  | UnexpectedAfterExpr token | ExpectedEndOfRef token | NonAssociative | ExpectedRParen token
  | ExpectedPrimary token | ExpectedIdent token | BadRefIndex string | ExpectedSegment token
  | UnterminatedSlot | NestedSlot

datatype syntax_error = SyntaxError (se_pos: nat) (se_msg: syntax_msg)

subsection \<open>The lexer\<close>

text \<open>\<open>unicode.IsSpace(rune(c))\<close> on one byte, read as a Latin-1 code point.\<close>

definition isSpaceByte :: "char \<Rightarrow> bool" where
  "isSpaceByte c = ((of_char c :: nat) \<in> {9, 10, 11, 12, 13, 32, 133, 160})"

definition isIdentStart :: "char \<Rightarrow> bool" where
  "isIdentStart c = (let n = (of_char c :: nat) in 65 \<le> n \<and> n \<le> 90 \<or> 97 \<le> n \<and> n \<le> 122 \<or> c = CHR ''_'')"

definition isIdentCont :: "char \<Rightarrow> bool" where
  "isIdentCont c = (isIdentStart c \<or> isDigit c \<or> c = CHR ''-'')"

text \<open>
  The body of a string literal after its opening quote: the decoded content and the source after
  the closing quote, or \<open>None\<close> at the end of the source.
\<close>

fun lexString :: "string \<Rightarrow> (string \<times> string) option" where
  "lexString [] = None"
| "lexString (c # s) =
     (if c = CHR 0x22 then Some ([], s)
      else if c = CHR 0x5C \<and> s \<noteq> []
           then map_option (\<lambda>(t, r). (hd s # t, r)) (lexString (tl s))
           else map_option (\<lambda>(t, r). (c # t, r)) (lexString s))"

definition lexNumber :: "string \<Rightarrow> string \<times> string" where
  "lexNumber src =
     (let sign = (if src \<noteq> [] \<and> hd src = CHR ''-'' then ''-'' else []);
          s1 = drop (length sign) src;
          ip = takeWhile isDigit s1;
          s2 = dropWhile isDigit s1
      in if 1 < length s2 \<and> hd s2 = CHR ''.'' \<and> isDigit (s2 ! 1)
         then (sign @ ip @ ''.'' @ takeWhile isDigit (tl s2), dropWhile isDigit (tl s2))
         else (sign @ ip, s2))"

definition lexIdent :: "string \<Rightarrow> string \<times> string" where
  "lexIdent src = (takeWhile isIdentCont src, dropWhile isIdentCont src)"

text \<open>
  One round of the loop of \<open>Lex\<close> on the source from offset \<open>pos\<close>, whose first byte is not a
  space: the token and the source after it.
\<close>

definition nextIs :: "char \<Rightarrow> string \<Rightarrow> bool" where
  "nextIs d s = (s \<noteq> [] \<and> hd s = d)"

definition lexOne :: "nat \<Rightarrow> char \<Rightarrow> string \<Rightarrow> syntax_error + (token \<times> string)" where
  "lexOne pos c s =
     (let tok = (\<lambda>k t. \<lparr>Kind = k, Text = t, Pos = pos\<rparr>);
          one = (\<lambda>k. Inr (tok k [c], s));
          two = (\<lambda>k. Inr (tok k [c, hd s], tl s))
      in if c = CHR ''('' then one TLParen
         else if c = CHR '')'' then one TRParen
         else if c = CHR ''.'' then one TDot
         else if c = CHR ''|'' \<and> nextIs (CHR ''|'') s then two TOr
         else if c = CHR ''&'' \<and> nextIs (CHR ''&'') s then two TAnd
         else if c = CHR ''!'' then (if nextIs (CHR ''='') s then two TNeq else one TNot)
         else if c = CHR ''='' then
           (if nextIs (CHR ''='') s then two TEq else Inl (SyntaxError pos BareEq))
         else if c = CHR ''<'' then (if nextIs (CHR ''='') s then two TLe else one TLt)
         else if c = CHR ''>'' then (if nextIs (CHR ''='') s then two TGe else one TGt)
         else if c = CHR 0x22 then
           (case lexString s of
              None \<Rightarrow> Inl (SyntaxError pos UnterminatedString)
            | Some (t, r) \<Rightarrow> Inr (tok TString t, r))
         else if c = CHR ''-'' then
           (if s = [] \<or> \<not> isDigit (hd s) then Inl (SyntaxError pos UnexpectedMinus)
            else case lexNumber (c # s) of (t, r) \<Rightarrow> Inr (tok TNumber t, r))
         else if isDigit c then (case lexNumber (c # s) of (t, r) \<Rightarrow> Inr (tok TNumber t, r))
         else if isIdentStart c then (case lexIdent (c # s) of (t, r) \<Rightarrow> Inr (tok TIdent t, r))
         else Inl (SyntaxError pos (UnexpectedChar c)))"

lemma lexString_shorter: "lexString s = Some (t, r) \<Longrightarrow> length r < length s"
  by (induction s arbitrary: t r rule: lexString.induct)
    (fastforce simp: length_tl split: if_splits)+

lemma lexNumber_shorter: "length (snd (lexNumber (c # s))) \<le> length s" if "c = CHR ''-'' \<or> isDigit c"
proof -
  have dw: "length (dropWhile isDigit u) \<le> length u" for u by (rule length_dropWhile_le)
  have tl: "length (tl (dropWhile isDigit u)) \<le> length u" for u using dw [of u] by simp
  have "length (dropWhile isDigit (tl (dropWhile isDigit u))) \<le> length u" for u
    using dw [of "tl (dropWhile isDigit u)"] tl [of u] by (rule order_trans)
  then show ?thesis using that dw by (auto simp: lexNumber_def Let_def)
qed

lemma lexOne_shorter: "lexOne pos c s = Inr (t, r) \<Longrightarrow> length r \<le> length s"
proof -
  assume "lexOne pos c s = Inr (t, r)"
  moreover have "\<And>a b. lexIdent (c # s) = (a, b) \<Longrightarrow> isIdentStart c \<Longrightarrow> length b \<le> length s"
    by (auto simp: lexIdent_def isIdentCont_def intro: length_dropWhile_le)
  moreover have "\<And>a b. lexNumber (c # s) = (a, b) \<Longrightarrow> c = CHR ''-'' \<or> isDigit c \<Longrightarrow> length b \<le> length s"
    using lexNumber_shorter [of c s] by auto
  moreover have "\<And>a b. lexString s = Some (a, b) \<Longrightarrow> length b \<le> length s"
    using lexString_shorter by (auto intro: less_imp_le)
  ultimately show ?thesis
    unfolding lexOne_def Let_def by (auto split: if_splits option.splits prod.splits)
qed

function lexFrom :: "nat \<Rightarrow> string \<Rightarrow> syntax_error + token list" where
  "lexFrom pos [] = Inr [\<lparr>Kind = TEOF, Text = [], Pos = pos\<rparr>]"
| "lexFrom pos (c # s) =
     (if isSpaceByte c then lexFrom (pos + 1) s
      else case lexOne pos c s of
        Inl e \<Rightarrow> Inl e
      | Inr (t, r) \<Rightarrow>
          (case lexFrom (pos + (1 + length s - length r)) r of
             Inl e \<Rightarrow> Inl e
           | Inr ts \<Rightarrow> Inr (t # ts)))"
  by pat_completeness auto
termination
  by (relation "measure (\<lambda>(pos, s). length s)") (auto dest: lexOne_shorter)

definition Lex :: "string \<Rightarrow> syntax_error + token list" where
  "Lex src = lexFrom 0 src"

subsection \<open>The syntax tree\<close>

record segment =
  Ident :: string
  Index :: nat
  IsIndex :: bool
  SegPos :: nat

datatype expr = OrExpr expr expr | AndExpr expr expr | NotExpr expr | CmpExpr string expr expr
  | Ref "segment list" | StringLit string | NumberLit string | BoolLit bool | NullLit

subsection \<open>The parser\<close>

datatype parse_error = PSyntax syntax_error | PPanic | PFuel

fun peek :: "token list \<Rightarrow> parse_error + token" where
  "peek [] = Inl PPanic"
| "peek (t # ts) = Inr t"

fun cmpOpString :: "token_kind \<Rightarrow> string option" where
  "cmpOpString TEq = Some ''==''"
| "cmpOpString TNeq = Some ''!=''"
| "cmpOpString TLt = Some ''<''"
| "cmpOpString TLe = Some ''<=''"
| "cmpOpString TGt = Some ''>''"
| "cmpOpString TGe = Some ''>=''"
| "cmpOpString _ = None"

definition synerr :: "token \<Rightarrow> syntax_msg \<Rightarrow> parse_error + 'a" where
  "synerr t m = Inl (PSyntax (SyntaxError (Pos t) m))"

definition identSeg :: "token \<Rightarrow> segment" where
  "identSeg t = \<lparr>Ident = Text t, Index = 0, IsIndex = False, SegPos = Pos t\<rparr>"

definition indexSeg :: "nat \<Rightarrow> token \<Rightarrow> segment" where
  "indexSeg n t = \<lparr>Ident = [], Index = n, IsIndex = True, SegPos = Pos t\<rparr>"

text \<open>The loop of \<open>parseRef\<close> over the segments after the first.\<close>

fun refLoop :: "segment list \<Rightarrow> token list \<Rightarrow> parse_error + (segment list \<times> token list)" where
  "refLoop segs [] = Inl PPanic"
| "refLoop segs (d # ts) =
     (if Kind d = TDot then
        (case ts of
           [] \<Rightarrow> Inl PPanic
         | t # ts' \<Rightarrow>
             if Kind t = TIdent then refLoop (segs @ [identSeg t]) ts'
             else if Kind t = TNumber then
               (case parse_int64 (Text t) of
                  None \<Rightarrow> synerr t (BadRefIndex (Text t))
                | Some n \<Rightarrow>
                    if n < 0 then synerr t (BadRefIndex (Text t))
                    else refLoop (segs @ [indexSeg (nat n) t]) ts')
             else synerr t (ExpectedSegment t))
      else Inr (segs, d # ts))"

definition parseRef_tokens :: "token list \<Rightarrow> parse_error + (segment list \<times> token list)" where
  "parseRef_tokens ts = rbind (peek ts) (\<lambda>first.
     if Kind first \<noteq> TIdent then synerr first (ExpectedIdent first)
     else refLoop [identSeg first] (tl ts))"

fun parseOr :: "nat \<Rightarrow> token list \<Rightarrow> parse_error + (expr \<times> token list)"
  and orLoop :: "nat \<Rightarrow> expr \<Rightarrow> token list \<Rightarrow> parse_error + (expr \<times> token list)"
  and parseAnd :: "nat \<Rightarrow> token list \<Rightarrow> parse_error + (expr \<times> token list)"
  and andLoop :: "nat \<Rightarrow> expr \<Rightarrow> token list \<Rightarrow> parse_error + (expr \<times> token list)"
  and parseUnary :: "nat \<Rightarrow> token list \<Rightarrow> parse_error + (expr \<times> token list)"
  and parseComparison :: "nat \<Rightarrow> token list \<Rightarrow> parse_error + (expr \<times> token list)"
  and parsePrimary :: "nat \<Rightarrow> token list \<Rightarrow> parse_error + (expr \<times> token list)"
where
  "parseOr 0 ts = Inl PFuel"
| "parseOr (Suc n) ts = rbind (parseAnd n ts) (\<lambda>(l, ts). orLoop n l ts)"
| "orLoop 0 l ts = Inl PFuel"
| "orLoop (Suc n) l ts = rbind (peek ts) (\<lambda>t.
     if Kind t = TOr
     then rbind (parseAnd n (tl ts)) (\<lambda>(r, ts). orLoop n (OrExpr l r) ts)
     else Inr (l, ts))"
| "parseAnd 0 ts = Inl PFuel"
| "parseAnd (Suc n) ts = rbind (parseUnary n ts) (\<lambda>(l, ts). andLoop n l ts)"
| "andLoop 0 l ts = Inl PFuel"
| "andLoop (Suc n) l ts = rbind (peek ts) (\<lambda>t.
     if Kind t = TAnd
     then rbind (parseUnary n (tl ts)) (\<lambda>(r, ts). andLoop n (AndExpr l r) ts)
     else Inr (l, ts))"
| "parseUnary 0 ts = Inl PFuel"
| "parseUnary (Suc n) ts = rbind (peek ts) (\<lambda>t.
     if Kind t = TNot
     then rbind (parseUnary n (tl ts)) (\<lambda>(x, ts). Inr (NotExpr x, ts))
     else parseComparison n ts)"
| "parseComparison 0 ts = Inl PFuel"
| "parseComparison (Suc n) ts = rbind (parsePrimary n ts) (\<lambda>(l, ts). rbind (peek ts) (\<lambda>t.
     case cmpOpString (Kind t) of
       None \<Rightarrow> Inr (l, ts)
     | Some op \<Rightarrow> rbind (parsePrimary n (tl ts)) (\<lambda>(r, ts). rbind (peek ts) (\<lambda>t'.
         if cmpOpString (Kind t') \<noteq> None then synerr t' NonAssociative
         else Inr (CmpExpr op l r, ts)))))"
| "parsePrimary 0 ts = Inl PFuel"
| "parsePrimary (Suc n) ts = rbind (peek ts) (\<lambda>t.
     if Kind t = TLParen then rbind (parseOr n (tl ts)) (\<lambda>(e, ts). rbind (peek ts) (\<lambda>rp.
         if Kind rp \<noteq> TRParen then synerr rp (ExpectedRParen rp) else Inr (e, tl ts)))
     else if Kind t = TNumber then Inr (NumberLit (Text t), tl ts)
     else if Kind t = TString then Inr (StringLit (Text t), tl ts)
     else if Kind t = TIdent then
       (if Text t = ''true'' then Inr (BoolLit True, tl ts)
        else if Text t = ''false'' then Inr (BoolLit False, tl ts)
        else if Text t = ''null'' then Inr (NullLit, tl ts)
        else rbind (parseRef_tokens ts) (\<lambda>(segs, ts). Inr (Ref segs, ts)))
     else synerr t (ExpectedPrimary t))"

text \<open>Six units of fuel per token, and five for the levels above the first primary.\<close>

definition parseFuel :: "token list \<Rightarrow> nat" where
  "parseFuel ts = 6 * length ts + 5"

definition lexed :: "syntax_error + 'a \<Rightarrow> parse_error + 'a" where
  "lexed r = (case r of Inl e \<Rightarrow> Inl (PSyntax e) | Inr x \<Rightarrow> Inr x)"

definition ParseExpr :: "string \<Rightarrow> parse_error + expr" where
  "ParseExpr src = rbind (lexed (Lex src)) (\<lambda>toks.
     rbind (parseOr (parseFuel toks) toks) (\<lambda>(e, ts). rbind (peek ts) (\<lambda>t.
       if Kind t \<noteq> TEOF then synerr t (UnexpectedAfterExpr t) else Inr e)))"

definition ParseRef :: "string \<Rightarrow> parse_error + segment list" where
  "ParseRef src = rbind (lexed (Lex src)) (\<lambda>toks.
     rbind (parseRef_tokens toks) (\<lambda>(r, ts). rbind (peek ts) (\<lambda>t.
       if Kind t \<noteq> TEOF then synerr t (ExpectedEndOfRef t) else Inr r)))"

subsection \<open>References\<close>

fun collectRefs :: "expr \<Rightarrow> segment list list" where
  "collectRefs (OrExpr l r) = collectRefs l @ collectRefs r"
| "collectRefs (AndExpr l r) = collectRefs l @ collectRefs r"
| "collectRefs (NotExpr x) = collectRefs x"
| "collectRefs (CmpExpr op l r) = collectRefs l @ collectRefs r"
| "collectRefs (Ref segs) = [segs]"
| "collectRefs _ = []"

definition References :: "expr \<Rightarrow> segment list list" where
  "References e = collectRefs e"

fun ParseArtifactRef_segs :: "segment list \<Rightarrow> (string \<times> string) option" where
  "ParseArtifactRef_segs [a, b, c, d] =
     (if IsIndex a \<or> Ident a \<noteq> ''step'' \<or> IsIndex b \<or> IsIndex c \<or> Ident c \<noteq> ''files'' \<or> IsIndex d
      then None else Some (Ident b, Ident d))"
| "ParseArtifactRef_segs _ = None"

definition ParseArtifactRef :: "string \<Rightarrow> (string \<times> string) option" where
  "ParseArtifactRef raw =
     (case ParseRef (trimSpace raw) of Inl _ \<Rightarrow> None | Inr g \<Rightarrow> ParseArtifactRef_segs g)"

fun ParseAssetRef_segs :: "segment list \<Rightarrow> string option" where
  "ParseAssetRef_segs [a, b] =
     (if IsIndex a \<or> Ident a \<noteq> ''asset'' \<or> IsIndex b then None else Some (Ident b))"
| "ParseAssetRef_segs _ = None"

definition ParseAssetRef :: "string \<Rightarrow> string option" where
  "ParseAssetRef raw =
     (case ParseRef (trimSpace raw) of Inl _ \<Rightarrow> None | Inr g \<Rightarrow> ParseAssetRef_segs g)"

fun ParseWorkflowInputFileRef_segs :: "segment list \<Rightarrow> string option" where
  "ParseWorkflowInputFileRef_segs [a, b, c] =
     (if IsIndex a \<or> Ident a \<noteq> ''input'' \<or> IsIndex b \<or> Ident b \<noteq> ''files'' \<or> IsIndex c
      then None else Some (Ident c))"
| "ParseWorkflowInputFileRef_segs _ = None"

definition ParseWorkflowInputFileRef :: "string \<Rightarrow> string option" where
  "ParseWorkflowInputFileRef raw =
     (case ParseRef (trimSpace raw) of Inl _ \<Rightarrow> None | Inr g \<Rightarrow> ParseWorkflowInputFileRef_segs g)"

subsection \<open>The grammar\<close>

text \<open>
  The grammar of the package comment on token sequences, with the tree each derivation builds.
  An identifier that spells a literal is that literal and does not start a reference.
\<close>

definition keyword :: "string \<Rightarrow> bool" where
  "keyword s = (s \<in> {''true'', ''false'', ''null''})"

inductive g_segs :: "token list \<Rightarrow> segment list \<Rightarrow> bool" where
  "g_segs [] []"
| "Kind d = TDot \<Longrightarrow> Kind t = TIdent \<Longrightarrow> g_segs ts segs \<Longrightarrow> g_segs (d # t # ts) (identSeg t # segs)"
| "Kind d = TDot \<Longrightarrow> Kind t = TNumber \<Longrightarrow> parse_int64 (Text t) = Some n \<Longrightarrow> 0 \<le> n \<Longrightarrow> g_segs ts segs
    \<Longrightarrow> g_segs (d # t # ts) (indexSeg (nat n) t # segs)"

inductive g_ref :: "token list \<Rightarrow> segment list \<Rightarrow> bool" where
  "Kind t = TIdent \<Longrightarrow> g_segs ts segs \<Longrightarrow> g_ref (t # ts) (identSeg t # segs)"

inductive g_or :: "token list \<Rightarrow> expr \<Rightarrow> bool"
  and g_ors :: "expr \<Rightarrow> token list \<Rightarrow> expr \<Rightarrow> bool"
  and g_and :: "token list \<Rightarrow> expr \<Rightarrow> bool"
  and g_ands :: "expr \<Rightarrow> token list \<Rightarrow> expr \<Rightarrow> bool"
  and g_unary :: "token list \<Rightarrow> expr \<Rightarrow> bool"
  and g_comparison :: "token list \<Rightarrow> expr \<Rightarrow> bool"
  and g_primary :: "token list \<Rightarrow> expr \<Rightarrow> bool"
where
  g_or: "g_and ts1 l \<Longrightarrow> g_ors l ts2 e \<Longrightarrow> g_or (ts1 @ ts2) e"
| g_ors_end: "g_ors l [] l"
| g_ors_step: "Kind t = TOr \<Longrightarrow> g_and ts1 r \<Longrightarrow> g_ors (OrExpr l r) ts2 e \<Longrightarrow> g_ors l (t # ts1 @ ts2) e"
| g_and: "g_unary ts1 l \<Longrightarrow> g_ands l ts2 e \<Longrightarrow> g_and (ts1 @ ts2) e"
| g_ands_end: "g_ands l [] l"
| g_ands_step: "Kind t = TAnd \<Longrightarrow> g_unary ts1 r \<Longrightarrow> g_ands (AndExpr l r) ts2 e \<Longrightarrow> g_ands l (t # ts1 @ ts2) e"
| g_not: "Kind t = TNot \<Longrightarrow> g_unary ts x \<Longrightarrow> g_unary (t # ts) (NotExpr x)"
| g_unary_cmp: "g_comparison ts e \<Longrightarrow> g_unary ts e"
| g_cmp_one: "g_primary ts e \<Longrightarrow> g_comparison ts e"
| g_cmp: "g_primary ts1 l \<Longrightarrow> cmpOpString (Kind t) = Some op \<Longrightarrow> g_primary ts2 r
    \<Longrightarrow> g_comparison (ts1 @ t # ts2) (CmpExpr op l r)"
| g_paren: "Kind lp = TLParen \<Longrightarrow> g_or ts e \<Longrightarrow> Kind rp = TRParen \<Longrightarrow> g_primary (lp # ts @ [rp]) e"
| g_number: "Kind t = TNumber \<Longrightarrow> g_primary [t] (NumberLit (Text t))"
| g_string: "Kind t = TString \<Longrightarrow> g_primary [t] (StringLit (Text t))"
| g_true: "Kind t = TIdent \<Longrightarrow> Text t = ''true'' \<Longrightarrow> g_primary [t] (BoolLit True)"
| g_false: "Kind t = TIdent \<Longrightarrow> Text t = ''false'' \<Longrightarrow> g_primary [t] (BoolLit False)"
| g_null: "Kind t = TIdent \<Longrightarrow> Text t = ''null'' \<Longrightarrow> g_primary [t] NullLit"
| g_reference: "g_ref (t # ts) segs \<Longrightarrow> \<not> keyword (Text t) \<Longrightarrow> g_primary (t # ts) (Ref segs)"

end
