(* ===== verification/Template_Grammar.thy ===== *)
theory Template_Grammar
  imports Template_Syntax
begin

text \<open>
  Correctness of the lexer and the parser of src/template: the lexer is total and its token
  sequence ends with one end marker; on such a sequence the parser neither panics nor runs out of
  fuel; and it accepts exactly the grammar, with the tree the grammar derives.
\<close>

subsection \<open>The token sequence\<close>

definition eof_ended :: "token list \<Rightarrow> bool" where
  "eof_ended ts \<longleftrightarrow> ts \<noteq> [] \<and> Kind (last ts) = TEOF \<and> (\<forall>t \<in> set (butlast ts). Kind t \<noteq> TEOF)"

lemma eof_ended_tl: "eof_ended (t # ts) \<Longrightarrow> Kind t \<noteq> TEOF \<Longrightarrow> eof_ended ts"
  by (cases ts) (auto simp: eof_ended_def)

lemma eof_ended_peek: "eof_ended ts \<Longrightarrow> \<exists>t us. ts = t # us"
  by (cases ts) (auto simp: eof_ended_def)

lemma lexOne_token: "lexOne pos c s = Inr (t, r) \<Longrightarrow> Pos t = pos \<and> Kind t \<noteq> TEOF"
  unfolding lexOne_def Let_def by (auto split: if_splits option.splits prod.splits)

lemma lexFrom_shape:
  "lexFrom pos s = Inr ts \<Longrightarrow>
     eof_ended ts \<and> Pos (last ts) = pos + length s \<and> pos \<le> Pos (hd ts) \<and> sorted_wrt (\<lambda>a b. Pos a < Pos b) ts"
proof (induction pos s arbitrary: ts rule: lexFrom.induct)
  case (1 pos)
  then show ?case by (auto simp: eof_ended_def)
next
  case (2 pos c s)
  show ?case
  proof (cases "isSpaceByte c")
    case True
    with "2.IH"(1) [OF True] "2.prems" show ?thesis by fastforce
  next
    case False
    with "2.prems" obtain t r us where one: "lexOne pos c s = Inr (t, r)"
      and rest: "lexFrom (pos + (1 + length s - length r)) r = Inr us" and ts: "ts = t # us"
      by (auto split: sum.splits)
    have r: "length r \<le> length s" using lexOne_shorter [OF one] .
    from "2.IH"(2) [OF False one refl rest]
    have us: "eof_ended us" "Pos (last us) = pos + (1 + length s - length r) + length r"
      "pos + (1 + length s - length r) \<le> Pos (hd us)" "sorted_wrt (\<lambda>a b. Pos a < Pos b) us" by auto
    then have ne: "us \<noteq> []" by (simp add: eof_ended_def)
    have "Pos t < Pos b" if "b \<in> set us" for b
    proof -
      have "Pos (hd us) \<le> Pos b" using us(4) that ne by (cases us) auto
      then show ?thesis using us(3) lexOne_token [OF one] r by simp
    qed
    then show ?thesis using us ne r lexOne_token [OF one] unfolding ts
      by (auto simp: eof_ended_def)
  qed
qed

subsection \<open>The parser terminates without panic\<close>

definition fine :: "nat \<Rightarrow> parse_error + ('a \<times> token list) \<Rightarrow> bool" where
  "fine k r = (case r of
     Inl (PSyntax _) \<Rightarrow> True | Inl _ \<Rightarrow> False | Inr (_, ts) \<Rightarrow> eof_ended ts \<and> length ts < k)"

lemma fine_simps [simp]:
  "fine k (synerr t m)" "fine k (Inl (PSyntax e))" "\<not> fine k (Inl PPanic)" "\<not> fine k (Inl PFuel)"
  "fine k (Inr (x, ts)) \<longleftrightarrow> eof_ended ts \<and> length ts < k"
  by (simp_all add: fine_def synerr_def)

lemma fine_rbind:
  assumes "fine k r" and "\<And>x ts. eof_ended ts \<Longrightarrow> length ts < k \<Longrightarrow> fine k' (f (x, ts))"
  shows "fine k' (rbind r f)"
proof (cases r)
  case (Inl e)
  then show ?thesis using assms(1) by (cases e) simp_all
next
  case (Inr p)
  then show ?thesis using assms by (cases p) simp
qed

lemma fine_peek:
  "eof_ended ts \<Longrightarrow> (\<And>t us. ts = t # us \<Longrightarrow> fine k (f t)) \<Longrightarrow> fine k (rbind (peek ts) f)"
  by (cases ts) (auto simp: eof_ended_def)

lemma fine_mono: "fine k r \<Longrightarrow> k \<le> k' \<Longrightarrow> fine k' r"
  by (auto simp: fine_def split: sum.splits parse_error.splits)

lemma refLoop_fine: "eof_ended ts \<Longrightarrow> fine (Suc (length ts)) (refLoop segs ts)"
proof (induction segs ts rule: refLoop.induct)
  case (2 segs d ts)
  show ?case
  proof (cases "Kind d = TDot")
    case True
    with "2.prems" have e: "eof_ended ts" by (auto intro: eof_ended_tl)
    then obtain t us where ts: "ts = t # us" using eof_ended_peek by blast
    have us: "eof_ended us" if "Kind t \<noteq> TEOF" using e ts that eof_ended_tl by blast
    show ?thesis
      using True ts us "2.IH"(1) [OF True ts] "2.IH"(2) [OF True ts]
      by (auto split: option.splits elim!: fine_mono)
  qed (use "2.prems" in simp)
qed (simp add: eof_ended_def)

lemma parseRef_tokens_fine: "eof_ended ts \<Longrightarrow> fine (length ts) (parseRef_tokens ts)"
proof -
  assume e: "eof_ended ts"
  then obtain t us where ts: "ts = t # us" using eof_ended_peek by blast
  show ?thesis
    using e ts refLoop_fine [of us "[identSeg t]"] eof_ended_tl [of t us]
    by (auto simp: parseRef_tokens_def)
qed

lemma parser_fine:
  fixes n :: nat
  shows "(\<forall>ts. eof_ended ts \<longrightarrow> 6 * length ts + 5 \<le> n \<longrightarrow> fine (length ts) (parseOr n ts))
   \<and> (\<forall>l ts. eof_ended ts \<longrightarrow> 6 * length ts + 1 \<le> n \<longrightarrow> fine (Suc (length ts)) (orLoop n l ts))
   \<and> (\<forall>ts. eof_ended ts \<longrightarrow> 6 * length ts + 4 \<le> n \<longrightarrow> fine (length ts) (parseAnd n ts))
   \<and> (\<forall>l ts. eof_ended ts \<longrightarrow> 6 * length ts + 1 \<le> n \<longrightarrow> fine (Suc (length ts)) (andLoop n l ts))
   \<and> (\<forall>ts. eof_ended ts \<longrightarrow> 6 * length ts + 3 \<le> n \<longrightarrow> fine (length ts) (parseUnary n ts))
   \<and> (\<forall>ts. eof_ended ts \<longrightarrow> 6 * length ts + 2 \<le> n \<longrightarrow> fine (length ts) (parseComparison n ts))
   \<and> (\<forall>ts. eof_ended ts \<longrightarrow> 6 * length ts + 1 \<le> n \<longrightarrow> fine (length ts) (parsePrimary n ts))"
proof (induction n)
  case (Suc n)
  have or: "fine (length ts) (parseOr n ts)" if "eof_ended ts" "6 * length ts + 5 \<le> n" for ts
    using Suc.IH that by blast
  have orl: "fine (Suc (length ts)) (orLoop n l ts)" if "eof_ended ts" "6 * length ts + 1 \<le> n" for l ts
    using Suc.IH that by blast
  have an: "fine (length ts) (parseAnd n ts)" if "eof_ended ts" "6 * length ts + 4 \<le> n" for ts
    using Suc.IH that by blast
  have anl: "fine (Suc (length ts)) (andLoop n l ts)" if "eof_ended ts" "6 * length ts + 1 \<le> n" for l ts
    using Suc.IH that by blast
  have un: "fine (length ts) (parseUnary n ts)" if "eof_ended ts" "6 * length ts + 3 \<le> n" for ts
    using Suc.IH that by blast
  have cm: "fine (length ts) (parseComparison n ts)" if "eof_ended ts" "6 * length ts + 2 \<le> n" for ts
    using Suc.IH that by blast
  have pr: "fine (length ts) (parsePrimary n ts)" if "eof_ended ts" "6 * length ts + 1 \<le> n" for ts
    using Suc.IH that by blast
  have 1: "fine (length ts) (parseOr (Suc n) ts)" if "eof_ended ts" "6 * length ts + 5 \<le> Suc n" for ts
    using that by (auto intro!: fine_rbind [OF an] fine_mono [OF orl])
  have 2: "fine (Suc (length ts)) (orLoop (Suc n) l ts)" if e: "eof_ended ts" "6 * length ts + 1 \<le> Suc n" for l ts
  proof -
    obtain t us where ts: "ts = t # us" using eof_ended_peek [OF e(1)] by blast
    then show ?thesis using e eof_ended_tl [of t us]
      by (auto intro!: fine_rbind [OF an] fine_mono [OF orl])
  qed
  have 3: "fine (length ts) (parseAnd (Suc n) ts)" if "eof_ended ts" "6 * length ts + 4 \<le> Suc n" for ts
    using that by (auto intro!: fine_rbind [OF un] fine_mono [OF anl])
  have 4: "fine (Suc (length ts)) (andLoop (Suc n) l ts)" if e: "eof_ended ts" "6 * length ts + 1 \<le> Suc n" for l ts
  proof -
    obtain t us where ts: "ts = t # us" using eof_ended_peek [OF e(1)] by blast
    then show ?thesis using e eof_ended_tl [of t us]
      by (auto intro!: fine_rbind [OF un] fine_mono [OF anl])
  qed
  have 5: "fine (length ts) (parseUnary (Suc n) ts)" if e: "eof_ended ts" "6 * length ts + 3 \<le> Suc n" for ts
  proof -
    obtain t us where ts: "ts = t # us" using eof_ended_peek [OF e(1)] by blast
    then show ?thesis using e eof_ended_tl [of t us] cm [of ts]
      by (auto intro!: fine_rbind [OF un])
  qed
  have 6: "fine (length ts) (parseComparison (Suc n) ts)" if e: "eof_ended ts" "6 * length ts + 2 \<le> Suc n" for ts
  proof -
    have second: "fine (length ts) (rbind (parsePrimary n (tl us)) (\<lambda>(r, ts). rbind (peek ts) (\<lambda>t'.
         if cmpOpString (Kind t') \<noteq> None then synerr t' NonAssociative else Inr (CmpExpr op l r, ts))))"
      if us: "eof_ended us" "length us < length ts" "cmpOpString (Kind (hd us)) = Some op" for us op l
    proof -
      obtain t vs where "us = t # vs" using eof_ended_peek [OF us(1)] by blast
      moreover have "Kind t \<noteq> TEOF" using us(3) calculation by auto
      ultimately have vs: "eof_ended (tl us)" "length (tl us) < length ts" "6 * length (tl us) + 1 \<le> n"
        using us e eof_ended_tl [of t vs] by auto
      show ?thesis
        by (rule fine_rbind [OF pr [OF vs(1,3)]]) (use vs(2) in \<open>auto intro!: fine_peek\<close>)
    qed
    show ?thesis unfolding parseComparison.simps
    proof (rule fine_rbind [OF pr])
      fix x us
      assume us: "eof_ended us" "length us < length ts"
      obtain t vs where usv: "us = t # vs" using eof_ended_peek [OF us(1)] by blast
      show "fine (length ts) (case (x, us) of (l, ts) \<Rightarrow> rbind (peek ts) (\<lambda>t.
         case cmpOpString (Kind t) of
           None \<Rightarrow> Inr (l, ts)
         | Some op \<Rightarrow> rbind (parsePrimary n (tl ts)) (\<lambda>(r, ts). rbind (peek ts) (\<lambda>t'.
             if cmpOpString (Kind t') \<noteq> None then synerr t' NonAssociative
             else Inr (CmpExpr op l r, ts)))))"
        using us usv second [of us] by (auto split: option.split)
    qed (use e in simp_all)
  qed
  have 7: "fine (length ts) (parsePrimary (Suc n) ts)" if e: "eof_ended ts" "6 * length ts + 1 \<le> Suc n" for ts
  proof -
    obtain t us where ts: "ts = t # us" using eof_ended_peek [OF e(1)] by blast
    have us: "eof_ended us" if "Kind t \<noteq> TEOF" using e ts that eof_ended_tl by blast
    have paren: "fine (length ts) (rbind (parseOr n us) (\<lambda>(e, ts). rbind (peek ts) (\<lambda>rp.
         if Kind rp \<noteq> TRParen then synerr rp (ExpectedRParen rp) else Inr (e, tl ts))))" if "eof_ended us"
    proof (rule fine_rbind [OF or [OF that]])
      fix x vs
      assume vs: "eof_ended vs" "length vs < length us"
      then obtain w ws where "vs = w # ws" using eof_ended_peek by blast
      with vs show "fine (length ts) (case (x, vs) of (e, ts) \<Rightarrow> rbind (peek ts) (\<lambda>rp.
         if Kind rp \<noteq> TRParen then synerr rp (ExpectedRParen rp) else Inr (e, tl ts)))"
        using ts eof_ended_tl [of w ws] by auto
    qed (use e ts in simp)
    have "fine (length ts) (rbind (parseRef_tokens ts) (\<lambda>(segs, ts). Inr (Ref segs, ts)))"
      by (rule fine_rbind [OF parseRef_tokens_fine [OF e(1)]]) simp
    with ts us paren show ?thesis by auto
  qed
  show ?case using 1 2 3 4 5 6 7 by blast
qed simp

lemma parseOr_total: "eof_ended ts \<Longrightarrow> fine (length ts) (parseOr (parseFuel ts) ts)"
  using parser_fine [of "parseFuel ts"] by (simp add: parseFuel_def)

subsection \<open>Soundness: what is parsed is derived by the grammar\<close>

lemma refLoop_sound:
  "refLoop segs ts = Inr (segs', rest) \<Longrightarrow> \<exists>pre more. ts = pre @ rest \<and> segs' = segs @ more \<and> g_segs pre more"
proof (induction segs ts rule: refLoop.induct)
  case (2 segs d ts)
  show ?case
  proof (cases "Kind d = TDot")
    case False
    with "2.prems" show ?thesis by (auto intro: g_segs.intros)
  next
    case True
    then obtain t us where ts: "ts = t # us" using "2.prems" by (cases ts) auto
    consider (ident) "Kind t = TIdent" "refLoop (segs @ [identSeg t]) us = Inr (segs', rest)"
      | (index) n where "Kind t = TNumber" "parse_int64 (Text t) = Some n" "\<not> n < 0"
          "refLoop (segs @ [indexSeg (nat n) t]) us = Inr (segs', rest)"
      using "2.prems" True ts by (auto simp: synerr_def split: if_splits option.splits)
    then show ?thesis
    proof cases
      case ident
      from "2.IH"(1) [OF True ts ident(1) ident(2)] obtain pre more
        where "us = pre @ rest" "segs' = (segs @ [identSeg t]) @ more" "g_segs pre more" by blast
      then show ?thesis using ts True ident(1)
        by (intro exI [of _ "d # t # pre"] exI [of _ "identSeg t # more"]) (simp add: g_segs.intros)
    next
      case index
      have "Kind t \<noteq> TIdent" using index(1) by simp
      from "2.IH"(2) [OF True ts this index] obtain pre more
        where "us = pre @ rest" "segs' = (segs @ [indexSeg (nat n) t]) @ more" "g_segs pre more" by blast
      then show ?thesis using ts True index
        by (intro exI [of _ "d # t # pre"] exI [of _ "indexSeg (nat n) t # more"])
          (simp add: g_segs.intros)
    qed
  qed
qed simp

lemma parseRef_tokens_sound:
  assumes "parseRef_tokens ts = Inr (segs, rest)"
  shows "\<exists>t pre. ts = t # pre @ rest \<and> g_ref (t # pre) segs"
proof -
  from assms obtain t us where ts: "ts = t # us" and k: "Kind t = TIdent"
    and loop: "refLoop [identSeg t] us = Inr (segs, rest)"
    by (cases ts) (auto simp: parseRef_tokens_def synerr_def split: if_splits)
  from refLoop_sound [OF loop] ts k show ?thesis by (auto intro: g_ref.intros)
qed

lemma parser_sound:
  fixes n :: nat
  shows "(\<forall>ts e rest. parseOr n ts = Inr (e, rest) \<longrightarrow> (\<exists>pre. ts = pre @ rest \<and> g_or pre e))
   \<and> (\<forall>l ts e rest. orLoop n l ts = Inr (e, rest) \<longrightarrow> (\<exists>pre. ts = pre @ rest \<and> g_ors l pre e))
   \<and> (\<forall>ts e rest. parseAnd n ts = Inr (e, rest) \<longrightarrow> (\<exists>pre. ts = pre @ rest \<and> g_and pre e))
   \<and> (\<forall>l ts e rest. andLoop n l ts = Inr (e, rest) \<longrightarrow> (\<exists>pre. ts = pre @ rest \<and> g_ands l pre e))
   \<and> (\<forall>ts e rest. parseUnary n ts = Inr (e, rest) \<longrightarrow> (\<exists>pre. ts = pre @ rest \<and> g_unary pre e))
   \<and> (\<forall>ts e rest. parseComparison n ts = Inr (e, rest) \<longrightarrow> (\<exists>pre. ts = pre @ rest \<and> g_comparison pre e))
   \<and> (\<forall>ts e rest. parsePrimary n ts = Inr (e, rest) \<longrightarrow> (\<exists>pre. ts = pre @ rest \<and> g_primary pre e))"
proof (induction n)
  case (Suc n)
  have or: "\<exists>pre. ts = pre @ rest \<and> g_or pre e" if "parseOr n ts = Inr (e, rest)" for ts e rest
    by (rule Suc.IH [THEN conjunct1, rule_format, OF that])
  have orl: "\<exists>pre. ts = pre @ rest \<and> g_ors l pre e" if "orLoop n l ts = Inr (e, rest)" for l ts e rest
    by (rule Suc.IH [THEN conjunct2, THEN conjunct1, rule_format, OF that])
  have an: "\<exists>pre. ts = pre @ rest \<and> g_and pre e" if "parseAnd n ts = Inr (e, rest)" for ts e rest
    by (rule Suc.IH [THEN conjunct2, THEN conjunct2, THEN conjunct1, rule_format, OF that])
  have anl: "\<exists>pre. ts = pre @ rest \<and> g_ands l pre e" if "andLoop n l ts = Inr (e, rest)" for l ts e rest
    by (rule Suc.IH [THEN conjunct2, THEN conjunct2, THEN conjunct2, THEN conjunct1, rule_format, OF that])
  have un: "\<exists>pre. ts = pre @ rest \<and> g_unary pre e" if "parseUnary n ts = Inr (e, rest)" for ts e rest
    by (rule Suc.IH [THEN conjunct2, THEN conjunct2, THEN conjunct2, THEN conjunct2, THEN conjunct1, rule_format, OF that])
  have cm: "\<exists>pre. ts = pre @ rest \<and> g_comparison pre e" if "parseComparison n ts = Inr (e, rest)" for ts e rest
    by (rule Suc.IH [THEN conjunct2, THEN conjunct2, THEN conjunct2, THEN conjunct2, THEN conjunct2, THEN conjunct1, rule_format, OF that])
  have pr: "\<exists>pre. ts = pre @ rest \<and> g_primary pre e" if "parsePrimary n ts = Inr (e, rest)" for ts e rest
    by (rule Suc.IH [THEN conjunct2, THEN conjunct2, THEN conjunct2, THEN conjunct2, THEN conjunct2, THEN conjunct2, rule_format, OF that])
  have peek: "peek ts = Inr t \<longleftrightarrow> (\<exists>us. ts = t # us)" for ts t by (cases ts) auto
  have 1: "\<exists>pre. ts = pre @ rest \<and> g_or pre e" if "parseOr (Suc n) ts = Inr (e, rest)" for ts e rest
    using that by (fastforce dest!: an orl intro: g_or)
  have 2: "\<exists>pre. ts = pre @ rest \<and> g_ors l pre e" if "orLoop (Suc n) l ts = Inr (e, rest)" for l ts e rest
    using that by (fastforce simp: peek dest!: an orl intro: g_ors_end g_ors_step split: if_splits)
  have 3: "\<exists>pre. ts = pre @ rest \<and> g_and pre e" if "parseAnd (Suc n) ts = Inr (e, rest)" for ts e rest
    using that by (fastforce dest!: un anl intro: g_and)
  have 4: "\<exists>pre. ts = pre @ rest \<and> g_ands l pre e" if "andLoop (Suc n) l ts = Inr (e, rest)" for l ts e rest
    using that by (fastforce simp: peek dest!: un anl intro: g_ands_end g_ands_step split: if_splits)
  have 5: "\<exists>pre. ts = pre @ rest \<and> g_unary pre e" if "parseUnary (Suc n) ts = Inr (e, rest)" for ts e rest
    using that by (fastforce simp: peek dest!: un cm intro: g_not g_unary_cmp split: if_splits)
  have 6: "\<exists>pre. ts = pre @ rest \<and> g_comparison pre e" if p: "parseComparison (Suc n) ts = Inr (e, rest)" for ts e rest
  proof -
    from p obtain l us t vs where l: "parsePrimary n ts = Inr (l, us)" and us: "us = t # vs"
      by (auto simp: peek)
    from pr [OF l] obtain pre1 where pre1: "ts = pre1 @ us" "g_primary pre1 l" by blast
    show ?thesis
    proof (cases "cmpOpString (Kind t)")
      case None
      then show ?thesis using p l us pre1 by (auto intro: g_cmp_one)
    next
      case (Some op)
      then obtain r where r: "parsePrimary n vs = Inr (r, rest)" and e: "e = CmpExpr op l r"
        using p l us by (auto simp: peek synerr_def split: if_splits)
      from pr [OF r] obtain pre2 where "vs = pre2 @ rest" "g_primary pre2 r" by blast
      then show ?thesis using pre1 us e Some g_cmp [OF pre1(2) Some]
        by (intro exI [of _ "pre1 @ t # pre2"]) simp
    qed
  qed
  have 7: "\<exists>pre. ts = pre @ rest \<and> g_primary pre e" if p: "parsePrimary (Suc n) ts = Inr (e, rest)" for ts e rest
  proof -
    from p obtain t us where ts: "ts = t # us" by (auto simp: peek)
    consider (paren) rp where "Kind t = TLParen" "parseOr n us = Inr (e, rp # rest)" "Kind rp = TRParen"
      | (atom) "g_primary [t] e" "rest = us"
      | (ref) segs where "\<not> keyword (Text t)" "e = Ref segs" "parseRef_tokens ts = Inr (segs, rest)"
      using p ts
      by (auto simp: peek synerr_def keyword_def split: if_splits
          intro: g_number g_string g_true g_false g_null)
    then show ?thesis
    proof cases
      case paren
      from or [OF paren(2)] obtain pre where "us = pre @ rp # rest" "g_or pre e" by blast
      then show ?thesis using ts paren g_paren by (intro exI [of _ "t # pre @ [rp]"]) simp
    next
      case atom
      then show ?thesis using ts by auto
    next
      case ref
      from parseRef_tokens_sound [OF ref(3)] ts obtain pre where "us = pre @ rest" "g_ref (t # pre) segs"
        by auto
      then show ?thesis using ts ref g_reference by (intro exI [of _ "t # pre"]) simp
    qed
  qed
  show ?case using 1 2 3 4 5 6 7 by blast
qed simp

subsection \<open>Completeness: what the grammar derives is parsed\<close>

lemma refLoop_complete:
  "g_segs pre ss \<Longrightarrow> Kind t \<noteq> TDot \<Longrightarrow> refLoop segs (pre @ t # us) = Inr (segs @ ss, t # us)"
  by (induction arbitrary: segs rule: g_segs.induct) simp_all

lemma parseRef_tokens_complete:
  "g_ref pre segs \<Longrightarrow> Kind t \<noteq> TDot \<Longrightarrow> parseRef_tokens (pre @ t # us) = Inr (segs, t # us)"
  by (auto simp: parseRef_tokens_def refLoop_complete elim!: g_ref.cases)

lemma g_ref_head: "g_ref (t # ts) segs \<Longrightarrow> Kind t = TIdent"
  by (auto elim: g_ref.cases)

inductive_cases g_primaryE: "g_primary ts e"
inductive_cases g_comparisonE: "g_comparison ts e"
inductive_cases g_orsE: "g_ors l ts e"
inductive_cases g_andsE: "g_ands l ts e"

lemma g_primary_head: "g_primary ts e \<Longrightarrow> \<exists>t us. ts = t # us \<and> Kind t \<noteq> TNot"
  by (erule g_primaryE) (auto dest: g_ref_head)

lemma g_comparison_head: "g_comparison ts e \<Longrightarrow> \<exists>t us. ts = t # us \<and> Kind t \<noteq> TNot"
  by (erule g_comparisonE) (auto dest!: g_primary_head)

lemma g_ors_head: "g_ors l ts e \<Longrightarrow> ts = [] \<or> (\<exists>t us. ts = t # us \<and> Kind t = TOr)"
  by (erule g_orsE) auto

lemma g_ands_head: "g_ands l ts e \<Longrightarrow> ts = [] \<or> (\<exists>t us. ts = t # us \<and> Kind t = TAnd)"
  by (erule g_andsE) auto

text \<open>What may follow a phrase, per level, so that the parser stops where the phrase ends.\<close>

definition stops :: "token_kind set \<Rightarrow> token \<Rightarrow> bool" where
  "stops K t \<longleftrightarrow> Kind t \<noteq> TDot \<and> cmpOpString (Kind t) = None \<and> Kind t \<notin> K"

definition exactly :: "parse_error + ('a \<times> token list) \<Rightarrow> 'a \<Rightarrow> token list \<Rightarrow> bool" where
  "exactly r e ts \<longleftrightarrow> r = Inl PFuel \<or> r = Inr (e, ts)"

lemma exactly_rbind:
  "exactly r x ts \<Longrightarrow> exactly (f (x, ts)) e us \<Longrightarrow> exactly (rbind r f) e us"
  by (auto simp: exactly_def)

lemma exactly_simps [simp]: "exactly (Inl PFuel) e ts" "exactly (Inr (e, ts)) e ts"
  by (simp_all add: exactly_def)

lemma parser_complete:
  shows "g_or pre e \<Longrightarrow> \<forall>n t us. stops {TAnd, TOr} t \<longrightarrow> exactly (parseOr n (pre @ t # us)) e (t # us)"
   and "g_ors l pre e \<Longrightarrow> \<forall>n t us. stops {TAnd, TOr} t \<longrightarrow> exactly (orLoop n l (pre @ t # us)) e (t # us)"
   and "g_and pre e \<Longrightarrow> \<forall>n t us. stops {TAnd} t \<longrightarrow> exactly (parseAnd n (pre @ t # us)) e (t # us)"
   and "g_ands l pre e \<Longrightarrow> \<forall>n t us. stops {TAnd} t \<longrightarrow> exactly (andLoop n l (pre @ t # us)) e (t # us)"
   and "g_unary pre e \<Longrightarrow> \<forall>n t us. stops {} t \<longrightarrow> exactly (parseUnary n (pre @ t # us)) e (t # us)"
   and "g_comparison pre e \<Longrightarrow> \<forall>n t us. stops {} t \<longrightarrow> exactly (parseComparison n (pre @ t # us)) e (t # us)"
   and "g_primary pre e \<Longrightarrow> \<forall>n t us. Kind t \<noteq> TDot \<longrightarrow> exactly (parsePrimary n (pre @ t # us)) e (t # us)"
proof (induction rule: g_or_g_ors_g_and_g_ands_g_unary_g_comparison_g_primary.inducts)
  case (g_or ts1 l ts2 e)
  show ?case
  proof (intro allI impI)
    fix n us and t :: token
    assume t: "stops {TAnd, TOr} t"
    obtain t' us' where tu: "ts2 @ t # us = t' # us'" and "stops {TAnd} t'"
      using g_ors_head [OF g_or.hyps(2)] t by (auto simp: stops_def)
    then have first: "exactly (parseAnd m (ts1 @ ts2 @ t # us)) l (ts2 @ t # us)" for m
      unfolding tu using g_or.IH(1) by blast
    show "exactly (parseOr n ((ts1 @ ts2) @ t # us)) e (t # us)"
      using g_or.IH(2) t by (cases n) (auto intro!: exactly_rbind [OF first])
  qed
next
  case (g_ors_end l)
  show ?case
  proof (intro allI impI)
    fix n us and t :: token
    assume "stops {TAnd, TOr} t"
    then show "exactly (orLoop n l ([] @ t # us)) l (t # us)" by (cases n) (auto simp: stops_def)
  qed
next
  case (g_ors_step t0 ts1 r l ts2 e)
  show ?case
  proof (intro allI impI)
    fix n us and t :: token
    assume t: "stops {TAnd, TOr} t"
    obtain t' us' where tu: "ts2 @ t # us = t' # us'" and "stops {TAnd} t'"
      using g_ors_head [OF g_ors_step.hyps(3)] t by (auto simp: stops_def)
    then have first: "exactly (parseAnd m (ts1 @ ts2 @ t # us)) r (ts2 @ t # us)" for m
      unfolding tu using g_ors_step.IH(1) by blast
    show "exactly (orLoop n l ((t0 # ts1 @ ts2) @ t # us)) e (t # us)"
      using g_ors_step.IH(2) g_ors_step.hyps(1) t by (cases n) (auto intro!: exactly_rbind [OF first])
  qed
next
  case (g_and ts1 l ts2 e)
  show ?case
  proof (intro allI impI)
    fix n us and t :: token
    assume t: "stops {TAnd} t"
    obtain t' us' where tu: "ts2 @ t # us = t' # us'" and "stops {} t'"
      using g_ands_head [OF g_and.hyps(2)] t by (auto simp: stops_def)
    then have first: "exactly (parseUnary m (ts1 @ ts2 @ t # us)) l (ts2 @ t # us)" for m
      unfolding tu using g_and.IH(1) by blast
    show "exactly (parseAnd n ((ts1 @ ts2) @ t # us)) e (t # us)"
      using g_and.IH(2) t by (cases n) (auto intro!: exactly_rbind [OF first])
  qed
next
  case (g_ands_end l)
  show ?case
  proof (intro allI impI)
    fix n us and t :: token
    assume "stops {TAnd} t"
    then show "exactly (andLoop n l ([] @ t # us)) l (t # us)" by (cases n) (auto simp: stops_def)
  qed
next
  case (g_ands_step t0 ts1 r l ts2 e)
  show ?case
  proof (intro allI impI)
    fix n us and t :: token
    assume t: "stops {TAnd} t"
    obtain t' us' where tu: "ts2 @ t # us = t' # us'" and "stops {} t'"
      using g_ands_head [OF g_ands_step.hyps(3)] t by (auto simp: stops_def)
    then have first: "exactly (parseUnary m (ts1 @ ts2 @ t # us)) r (ts2 @ t # us)" for m
      unfolding tu using g_ands_step.IH(1) by blast
    show "exactly (andLoop n l ((t0 # ts1 @ ts2) @ t # us)) e (t # us)"
      using g_ands_step.IH(2) g_ands_step.hyps(1) t by (cases n) (auto intro!: exactly_rbind [OF first])
  qed
next
  case (g_not t0 ts x)
  show ?case
  proof (intro allI impI)
    fix n us and t :: token
    assume "stops {} t"
    then have first: "exactly (parseUnary m (ts @ t # us)) x (t # us)" for m using g_not.IH by blast
    show "exactly (parseUnary n ((t0 # ts) @ t # us)) (NotExpr x) (t # us)"
      using g_not.hyps(1) by (cases n) (auto intro!: exactly_rbind [OF first])
  qed
next
  case (g_unary_cmp ts e)
  show ?case
  proof (intro allI impI)
    fix n us and t :: token
    assume "stops {} t"
    then show "exactly (parseUnary n (ts @ t # us)) e (t # us)"
      using g_unary_cmp.IH g_comparison_head [OF g_unary_cmp.hyps] by (cases n) auto
  qed
next
  case (g_cmp_one ts e)
  show ?case
  proof (intro allI impI)
    fix n us and t :: token
    assume t: "stops {} t"
    then have first: "exactly (parsePrimary m (ts @ t # us)) e (t # us)" for m
      using g_cmp_one.IH by (simp add: stops_def)
    show "exactly (parseComparison n (ts @ t # us)) e (t # us)"
      using t by (cases n) (auto simp: stops_def intro!: exactly_rbind [OF first])
  qed
next
  case (g_cmp ts1 l t0 op ts2 r)
  show ?case
  proof (intro allI impI)
    fix n us and t :: token
    assume t: "stops {} t"
    have "Kind t0 \<noteq> TDot" using g_cmp.hyps by auto
    then have first: "exactly (parsePrimary m (ts1 @ t0 # ts2 @ t # us)) l (t0 # ts2 @ t # us)" for m
      using g_cmp.IH(1) by blast
    have second: "exactly (parsePrimary m (ts2 @ t # us)) r (t # us)" for m
      using g_cmp.IH(2) t by (simp add: stops_def)
    show "exactly (parseComparison n ((ts1 @ t0 # ts2) @ t # us)) (CmpExpr op l r) (t # us)"
      using t g_cmp.hyps
      by (cases n) (auto simp: stops_def intro!: exactly_rbind [OF first] exactly_rbind [OF second])
  qed
next
  case (g_paren lp ts e rp)
  show ?case
  proof (intro allI impI)
    fix n us and t :: token
    have "stops {TAnd, TOr} rp" using g_paren.hyps by (simp add: stops_def)
    then have first: "exactly (parseOr m (ts @ rp # t # us)) e (rp # t # us)" for m using g_paren.IH by blast
    show "exactly (parsePrimary n ((lp # ts @ [rp]) @ t # us)) e (t # us)"
      using g_paren.hyps by (cases n) (auto intro!: exactly_rbind [OF first])
  qed
next
  case (g_reference t0 ts segs)
  show ?case
  proof (intro allI impI)
    fix n us and t :: token
    assume "Kind t \<noteq> TDot"
    from parseRef_tokens_complete [OF g_reference.hyps(1) this]
    show "exactly (parsePrimary n ((t0 # ts) @ t # us)) (Ref segs) (t # us)"
      using g_ref_head [OF g_reference.hyps(1)] g_reference.hyps(2)
      by (cases n) (auto simp: keyword_def)
  qed
next
  case (g_number t0)
  show ?case
  proof (intro allI impI)
    fix n us and t :: token
    show "exactly (parsePrimary n ([t0] @ t # us)) (NumberLit (Text t0)) (t # us)"
      using g_number by (cases n) simp_all
  qed
next
  case (g_string t0)
  show ?case
  proof (intro allI impI)
    fix n us and t :: token
    show "exactly (parsePrimary n ([t0] @ t # us)) (StringLit (Text t0)) (t # us)"
      using g_string by (cases n) simp_all
  qed
next
  case (g_true t0)
  show ?case
  proof (intro allI impI)
    fix n us and t :: token
    show "exactly (parsePrimary n ([t0] @ t # us)) (BoolLit True) (t # us)"
      using g_true by (cases n) simp_all
  qed
next
  case (g_false t0)
  show ?case
  proof (intro allI impI)
    fix n us and t :: token
    show "exactly (parsePrimary n ([t0] @ t # us)) (BoolLit False) (t # us)"
      using g_false by (cases n) simp_all
  qed
next
  case (g_null t0)
  show ?case
  proof (intro allI impI)
    fix n us and t :: token
    show "exactly (parsePrimary n ([t0] @ t # us)) (NullLit) (t # us)"
      using g_null by (cases n) simp_all
  qed
qed

subsection \<open>Properties\<close>

lemma Lex_shape: "Lex src = Inr ts \<Longrightarrow> eof_ended ts"
  using lexFrom_shape unfolding Lex_def by blast

lemma eof_ended_split: "eof_ended ts \<Longrightarrow> \<exists>t. ts = butlast ts @ [t] \<and> Kind t = TEOF"
  by (rule exI [of _ "last ts"]) (simp add: eof_ended_def)

lemma eof_ended_last: "eof_ended (pre @ t # us) \<Longrightarrow> Kind t = TEOF \<Longrightarrow> us = []"
  by (auto simp: eof_ended_def butlast_append split: if_splits)

text \<open>
  C30: The parser of expressions is exactly the documented grammar. A source parses to a tree iff
  it lexes and the grammar derives that tree from the tokens before the end marker (so precedence,
  left associativity and the non-associative comparison are the grammar's).
\<close>

theorem ParseExpr_iff_grammar:
  "ParseExpr src = Inr e \<longleftrightarrow> (\<exists>toks. Lex src = Inr toks \<and> g_or (butlast toks) e)"
proof
  assume "ParseExpr src = Inr e"
  then obtain toks t us where toks: "Lex src = Inr toks"
    and p: "parseOr (parseFuel toks) toks = Inr (e, t # us)" and t: "Kind t = TEOF"
    by (auto simp: ParseExpr_def lexed_def synerr_def split: sum.splits if_splits elim!: peek.elims)
  from parser_sound [of "parseFuel toks", THEN conjunct1, rule_format, OF p] obtain pre
    where pre: "toks = pre @ t # us" "g_or pre e" by blast
  moreover have "us = []" using eof_ended_last Lex_shape [OF toks] pre(1) t by blast
  ultimately show "\<exists>toks. Lex src = Inr toks \<and> g_or (butlast toks) e" using toks by auto
next
  assume "\<exists>toks. Lex src = Inr toks \<and> g_or (butlast toks) e"
  then obtain toks where toks: "Lex src = Inr toks" and g: "g_or (butlast toks) e" by blast
  from eof_ended_split [OF Lex_shape [OF toks]] obtain t where t: "toks = butlast toks @ [t]" "Kind t = TEOF"
    by blast
  have "stops {TAnd, TOr} t" using t(2) by (simp add: stops_def)
  with parser_complete(1) [OF g] t(1)
  have "exactly (parseOr (parseFuel toks) toks) e [t]" by metis
  moreover have "parseOr (parseFuel toks) toks \<noteq> Inl PFuel"
    using parseOr_total [OF Lex_shape [OF toks]] by auto
  ultimately have "parseOr (parseFuel toks) toks = Inr (e, [t])" by (simp add: exactly_def)
  then show "ParseExpr src = Inr e" using toks t(2) by (simp add: ParseExpr_def lexed_def)
qed

text \<open>
  C38: The lexer and the parser are total: on every source \<open>ParseExpr\<close> and \<open>ParseRef\<close> return a tree
  or a syntax error; no token is read past the end (no panic) and the recursion ends.
\<close>

theorem parsers_never_panic:
  "ParseExpr src \<noteq> Inl PPanic \<and> ParseExpr src \<noteq> Inl PFuel
   \<and> ParseRef src \<noteq> Inl PPanic \<and> ParseRef src \<noteq> Inl PFuel"
proof (cases "Lex src")
  case (Inl e)
  then show ?thesis by (simp add: ParseExpr_def ParseRef_def lexed_def)
next
  case (Inr toks)
  have e: "eof_ended toks" using Lex_shape [OF Inr] .
  have "fine (Suc (length toks)) (rbind (parseOr (parseFuel toks) toks) (\<lambda>(e, ts). rbind (peek ts) (\<lambda>t.
       if Kind t \<noteq> TEOF then synerr t (UnexpectedAfterExpr t) else Inr (e, ts))))"
    by (rule fine_rbind [OF parseOr_total [OF e]]) (auto intro!: fine_peek)
  moreover have "fine (Suc (length toks)) (rbind (parseRef_tokens toks) (\<lambda>(r, ts). rbind (peek ts) (\<lambda>t.
       if Kind t \<noteq> TEOF then synerr t (ExpectedEndOfRef t) else Inr (r, ts))))"
    by (rule fine_rbind [OF parseRef_tokens_fine [OF e]]) (auto intro!: fine_peek)
  ultimately show ?thesis using Inr
    by (auto simp: ParseExpr_def ParseRef_def lexed_def rbind_def fine_def synerr_def
        split: sum.splits if_splits parse_error.splits)
qed

text \<open>
  The lexer ends every token sequence with exactly one end marker at the length of the source,
  and the tokens stand at strictly increasing offsets.
\<close>

lemma Lex_shape_positions:
  assumes "Lex src = Inr ts"
  shows "Kind (last ts) = TEOF \<and> Pos (last ts) = length src
     \<and> (\<forall>t \<in> set (butlast ts). Kind t \<noteq> TEOF) \<and> sorted_wrt (\<lambda>a b. Pos a < Pos b) ts"
  using lexFrom_shape [of 0 src ts] assms by (simp add: Lex_def eof_ended_def)

lemma Lex_shape_positions_witness:
  "map_sum (\<lambda>_. ()) (\<lambda>ts. Kind (last ts) = TEOF \<and> Pos (last ts) = 8) (Lex ''a.0 == b'') = Inr True"
proof -
  have "is_ok (Lex ''a.0 == b'')" by code_simp
  then obtain ts where ts: "Lex ''a.0 == b'' = Inr ts" by (cases "Lex ''a.0 == b''") auto
  show ?thesis using Lex_shape_positions [OF ts] ts by simp
qed

text \<open>
  Two array indices in a row cannot be written: the lexer reads the digits around the second
  dot as one decimal number, so a reference the grammar of the package comment derives,
  an identifier followed by two indices, is refused, while a space before the second dot makes it
  parse.
\<close>

lemma consecutive_indices_rejected:
  "ParseRef ''a.0.1'' = Inl (PSyntax (SyntaxError 2 (BadRefIndex ''0.1'')))
   \<and> map_sum id (map (\<lambda>s. (Ident s, Index s, IsIndex s))) (ParseRef ''a.0 .1'')
     = Inr [(''a'', 0, False), ([], 0, True), ([], 1, True)]"
  by code_simp

end
