(* ===== verification/Go_Json.thy ===== *)
theory Go_Json
  imports Go_Float Go_Hash
begin

text \<open>
  The dynamic values of the engine (Go's \<open>any\<close> as decoded from JSON) and the encoders of the Go
  library the code applies to them: \<open>strconv.FormatFloat\<close> with the shortest digits that parse
  back, and \<open>json.Marshal\<close>. An object is an association list; \<open>json.Marshal\<close> sorts its keys.
  A \<open>float64\<close> is the rational it denotes, so the infinities, the NaNs and negative zero are not
  represented: none of them can come out of JSON except \<open>-0\<close>, which compares equal to \<open>0\<close>.
\<close>

subsection \<open>Values\<close>

datatype goval = VNil | VBool bool | VString string | VInt int | VInt64 int | VFloat rat
  | VNumber string | VArray "goval list" | VObject "(string \<times> goval) list"

subsection \<open>Formatting floats\<close>

text \<open>The decimal exponent of the leading digit of a positive rational.\<close>

fun frac_exp10 :: "nat \<Rightarrow> rat \<Rightarrow> int" where
  "frac_exp10 0 x = 0"
| "frac_exp10 (Suc n) x = (if 1 \<le> x then 0 else frac_exp10 n (10 * x) - 1)"

definition exp10 :: "rat \<Rightarrow> int" where
  "exp10 x = (if 1 \<le> x then int (length (nat_digits (nat \<lfloor>x\<rfloor>))) - 1 else frac_exp10 400 x)"

text \<open>
  The shortest decimal \<open>d * 10 ^ e\<close> that rounds to \<open>x\<close>, the nearest one of that length: 17 digits
  always suffice for a binary64 value.
\<close>

definition best_digits :: "rat \<Rightarrow> int \<Rightarrow> nat option" where
  "best_digits x e =
     (let lo = nat \<lfloor>x / pow10 e\<rfloor>; ok = (\<lambda>d. round_f64 (rat_of_nat d * pow10 e) = Some x)
      in if ok lo \<and> (\<not> ok (lo + 1) \<or> x - rat_of_nat lo * pow10 e \<le> rat_of_nat (lo + 1) * pow10 e - x) then Some lo
         else if ok (lo + 1) then Some (lo + 1) else None)"

fun shortest_from :: "rat \<Rightarrow> int \<Rightarrow> nat \<Rightarrow> nat \<times> int" where
  "shortest_from x e 0 = (nat \<lfloor>x / pow10 e\<rfloor>, e)"
| "shortest_from x e (Suc n) =
     (case best_digits x e of Some d \<Rightarrow> (d, e) | None \<Rightarrow> shortest_from x (e - 1) n)"

fun strip_zeros :: "nat \<Rightarrow> int \<Rightarrow> nat \<times> int" where
  "strip_zeros d e = (if d \<noteq> 0 \<and> d mod 10 = 0 then strip_zeros (d div 10) (e + 1) else (d, e))"

declare strip_zeros.simps [simp del]

definition shortest :: "rat \<Rightarrow> nat \<times> int" where
  "shortest x = (case shortest_from x (exp10 x) 17 of (d, e) \<Rightarrow> strip_zeros d e)"

text \<open>The formats \<open>'f'\<close> and \<open>'e'\<close> of the digits \<open>d\<close> with the point \<open>e\<close> places after the last one.\<close>

definition fmt_f :: "nat \<Rightarrow> int \<Rightarrow> string" where
  "fmt_f d e =
     (let ds = nat_digits d
      in if 0 \<le> e then (if d = 0 then ''0'' else ds @ replicate (nat e) (CHR ''0''))
         else let k = nat (- e)
              in if length ds \<le> k then ''0.'' @ replicate (k - length ds) (CHR ''0'') @ ds
                 else take (length ds - k) ds @ ''.'' @ drop (length ds - k) ds)"

definition fmt_e :: "nat \<Rightarrow> nat \<Rightarrow> int \<Rightarrow> string" where
  "fmt_e minexp d e =
     (let ds = nat_digits d; x = e + int (length ds) - 1; xs = nat_digits (nat \<bar>x\<bar>)
      in take 1 ds @ (if length ds = 1 then [] else ''.'' @ drop 1 ds)
         @ ''e'' @ (if x < 0 then ''-'' else ''+'') @ replicate (minexp - length xs) (CHR ''0'') @ xs)"

definition signed :: "rat \<Rightarrow> (nat \<Rightarrow> int \<Rightarrow> string) \<Rightarrow> string" where
  "signed x f = (if x = 0 then f 0 0
     else if x < 0 then ''-'' @ (case shortest (- x) of (d, e) \<Rightarrow> f d e)
     else (case shortest x of (d, e) \<Rightarrow> f d e))"

text \<open>\<open>strconv.FormatFloat(x, 'f', -1, 64)\<close> and \<open>strconv.FormatFloat(x, 'g', -1, 64)\<close>.\<close>

definition FormatFloat_f :: "rat \<Rightarrow> string" where
  "FormatFloat_f x = signed x fmt_f"

definition FormatFloat_g :: "rat \<Rightarrow> string" where
  "FormatFloat_g x = signed x (\<lambda>d e.
     let p = e + int (length (nat_digits d)) - 1
     in if p < - 4 \<or> 6 \<le> p then fmt_e 2 d e else fmt_f d e)"

subsection \<open>json.Marshal\<close>

text \<open>The length of the UTF-8 sequence at the head of a string, 0 when it is invalid.\<close>

definition byte_in :: "nat \<Rightarrow> nat \<Rightarrow> string \<Rightarrow> nat \<Rightarrow> bool" where
  "byte_in lo hi s i = (i < length s \<and> lo \<le> of_char (s ! i) \<and> of_char (s ! i) \<le> hi)"

definition utf8_len :: "string \<Rightarrow> nat" where
  "utf8_len s =
     (let cont = byte_in 128 191 s; bat = (\<lambda>lo hi. byte_in lo hi s)
      in if bat 0 127 0 then 1
         else if bat 194 223 0 \<and> cont 1 then 2
         else if bat 224 224 0 \<and> bat 160 191 1 \<and> cont 2 then 3
         else if (bat 225 236 0 \<or> bat 238 239 0) \<and> cont 1 \<and> cont 2 then 3
         else if bat 237 237 0 \<and> bat 128 159 1 \<and> cont 2 then 3
         else if bat 240 240 0 \<and> bat 144 191 1 \<and> cont 2 \<and> cont 3 then 4
         else if bat 241 243 0 \<and> cont 1 \<and> cont 2 \<and> cont 3 then 4
         else if bat 244 244 0 \<and> bat 128 143 1 \<and> cont 2 \<and> cont 3 then 4
         else 0)"

definition json_byte :: "char \<Rightarrow> string" where
  "json_byte c =
     (let n = (of_char c :: nat); bs = CHR 0x5C
      in if c = CHR 0x22 \<or> c = bs then [bs, c]
         else if n = 8 then [bs, CHR ''b'']
         else if n = 12 then [bs, CHR ''f'']
         else if n = 10 then [bs, CHR ''n'']
         else if n = 13 then [bs, CHR ''r'']
         else if n = 9 then [bs, CHR ''t'']
         else if n < 32 \<or> c = CHR ''<'' \<or> c = CHR ''>'' \<or> c = CHR ''&'' then [bs] @ ''u00'' @ hex_byte c
         else [c])"

function json_chars :: "string \<Rightarrow> string" where
  "json_chars s =
     (if s = [] then []
      else case utf8_len s of
        0 \<Rightarrow> [CHR 0x5C] @ ''ufffd'' @ json_chars (tl s)
      | Suc 0 \<Rightarrow> json_byte (hd s) @ json_chars (tl s)
      | n \<Rightarrow> (if take 3 s = map char_of [226 :: nat, 128, 168] then [CHR 0x5C] @ ''u2028''
             else if take 3 s = map char_of [226 :: nat, 128, 169] then [CHR 0x5C] @ ''u2029''
             else take n s) @ json_chars (drop n s))"
  by pat_completeness auto
termination by (relation "measure length") auto

declare json_chars.simps [simp del]

definition json_string :: "string \<Rightarrow> string" where
  "json_string s = [CHR 0x22] @ json_chars s @ [CHR 0x22]"

text \<open>The number format of \<open>encoding/json\<close>: exponents outside \<open>-6 .. 20\<close> use \<open>'e'\<close> without padding.\<close>

definition json_float :: "rat \<Rightarrow> string" where
  "json_float x = signed x (\<lambda>d e.
     let p = e + int (length (nat_digits d)) - 1
     in if d \<noteq> 0 \<and> (p < - 6 \<or> 21 \<le> p) then fmt_e (if p < 0 then 1 else 2) d e else fmt_f d e)"

fun join_comma :: "string list \<Rightarrow> string" where
  "join_comma [] = []"
| "join_comma [x] = x"
| "join_comma (x # y # xs) = x @ '','' @ join_comma (y # xs)"

fun str_le :: "string \<Rightarrow> string \<Rightarrow> bool" where
  "str_le [] t = True"
| "str_le (c # s) [] = False"
| "str_le (c # s) (d # t) = ((of_char c :: nat) < of_char d \<or> c = d \<and> str_le s t)"

fun key_insert :: "string \<times> string \<Rightarrow> (string \<times> string) list \<Rightarrow> (string \<times> string) list" where
  "key_insert kv [] = [kv]"
| "key_insert kv (x # xs) = (if str_le (fst kv) (fst x) then kv # x # xs else x # key_insert kv xs)"

text \<open>\<open>json.Marshal\<close>; a \<open>json.Number\<close> is its text (an empty one is \<open>0\<close>).\<close>

fun json_encode :: "goval \<Rightarrow> string" where
  "json_encode VNil = ''null''"
| "json_encode (VBool b) = (if b then ''true'' else ''false'')"
| "json_encode (VString s) = json_string s"
| "json_encode (VInt i) = itoa i"
| "json_encode (VInt64 i) = itoa i"
| "json_encode (VFloat x) = json_float x"
| "json_encode (VNumber s) = (if s = [] then ''0'' else s)"
| "json_encode (VArray vs) = ''['' @ join_comma (map json_encode vs) @ '']''"
| "json_encode (VObject kvs) =
     ''{'' @ join_comma (map (\<lambda>(k, v). json_string k @ '':'' @ v)
        (foldr key_insert (map (\<lambda>(k, v). (k, json_encode v)) kvs) [])) @ ''}''"

end
