(* ===== verification/Template_Eval.thy ===== *)
theory Template_Eval
  imports Template_Grammar Go_Json
begin

text \<open>
  Evaluation and substitution of src/template: the slot scanner (slots.go), \<open>Substitute\<close>,
  \<open>EvalBool\<close> and the comparison rules (eval.go), typed template values (value.go) and the envelope
  (envelope.go). A scope is a function from a reference to a value or an error. Errors carry their
  code; the text of the message is left out. \<open>Substitute\<close> is the loop of the source over the
  offsets the scanner found; the reference rendering cuts the host into literal text, escaped
  openers and slots, and the two are proved equal.
\<close>

subsection \<open>Slots\<close>

definition slotOpen :: string where "slotOpen = ''{{''"
definition slotClose :: string where "slotClose = ''}}''"

record slot =
  Start :: nat
  End :: nat
  Inner :: string

lemma indexOf_bound: "indexOf s p = Some j \<Longrightarrow> j + length p \<le> length s"
  by (induction s p arbitrary: j rule: indexOf.induct)
    (subst (asm) indexOf.simps, fastforce simp: hasPrefix_iff split: if_splits list.splits)

text \<open>The loop of \<open>scan\<close> from offset \<open>i\<close>: the slots and the offsets of the escaping backslashes.\<close>

function scanFrom :: "string \<Rightarrow> nat \<Rightarrow> syntax_error + (slot list \<times> nat list)" where
  "scanFrom src i =
     (if \<not> i < length src then Inr ([], [])
      else case indexOf (drop i src) slotOpen of
        None \<Rightarrow> Inr ([], [])
      | Some j \<Rightarrow>
          let start = i + j
          in if 0 < start \<and> src ! (start - 1) = CHR 0x5C
             then rbind (scanFrom src (start + length slotOpen)) (\<lambda>(slots, escs).
               Inr (slots, (start - 1) # escs))
             else let innerStart = start + length slotOpen
                  in case indexOf (drop innerStart src) slotClose of
                       None \<Rightarrow> Inl (SyntaxError start UnterminatedSlot)
                     | Some k \<Rightarrow>
                         let inner = take k (drop innerStart src);
                             e = innerStart + k + length slotClose
                         in if contains inner slotOpen then Inl (SyntaxError start NestedSlot)
                            else rbind (scanFrom src e) (\<lambda>(slots, escs).
                              Inr (\<lparr>Start = start, End = e, Inner = inner\<rparr> # slots, escs)))"
  by pat_completeness auto
termination
  by (relation "measure (\<lambda>(src, i). length src - i)") (auto simp: slotOpen_def slotClose_def)

declare scanFrom.simps [simp del]

definition scan :: "string \<Rightarrow> syntax_error + (slot list \<times> nat list)" where
  "scan src = scanFrom src 0"

definition Slots :: "string \<Rightarrow> syntax_error + slot list" where
  "Slots src = rbind (scan src) (\<lambda>(slots, _). Inr slots)"

subsection \<open>Errors and scopes\<close>

datatype eval_code = EvalCodeOversize | EvalCodeRefUnresolved | EvalCodeTypeMismatch
  | EvalCodeInvalidScalar | EvalCodeSyntax | EvalCodeRefAbsent | EvalCodeDeferred

datatype eval_error = EvalError eval_code | ParseFailure parse_error | OtherError string

type_synonym scope = "segment list \<Rightarrow> eval_error + goval"

definition MaxInlineBytes :: nat where "MaxInlineBytes = 64 * 1024"

definition evalErr :: "eval_code \<Rightarrow> eval_error + 'a" where
  "evalErr c = Inl (EvalError c)"

definition checkInlineSize :: "goval \<Rightarrow> eval_error + unit" where
  "checkInlineSize v =
     (let size = (case v of
            VString s \<Rightarrow> Some (length s)
          | VObject kvs \<Rightarrow> Some (length (json_encode v))
          | VArray vs \<Rightarrow> Some (length (json_encode v))
          | _ \<Rightarrow> None)
      in case size of
           None \<Rightarrow> Inr ()
         | Some n \<Rightarrow> if MaxInlineBytes < n then evalErr EvalCodeOversize else Inr ())"

definition resolveRefValue :: "scope \<Rightarrow> segment list \<Rightarrow> eval_error + goval" where
  "resolveRefValue sc ref =
     rbind (sc ref) (\<lambda>v. rbind (checkInlineSize v) (\<lambda>_. Inr v))"

subsection \<open>Rendering scalars and comparing\<close>

definition renderScalar :: "goval \<Rightarrow> eval_error + string" where
  "renderScalar v =
     (case v of
        VString x \<Rightarrow> Inr x
      | VBool b \<Rightarrow> Inr (if b then ''true'' else ''false'')
      | VInt i \<Rightarrow> Inr (itoa i)
      | VInt64 i \<Rightarrow> Inr (itoa i)
      | VFloat x \<Rightarrow> Inr (if x = of_int \<lfloor>x\<rfloor> then FormatFloat_f x else FormatFloat_g x)
      | VNumber s \<Rightarrow> Inr s
      | _ \<Rightarrow> evalErr EvalCodeInvalidScalar)"

definition toFloat :: "goval \<Rightarrow> rat option" where
  "toFloat v =
     (case v of
        VFloat x \<Rightarrow> Some x
      | VInt i \<Rightarrow> Some (f64_of_int i)
      | VInt64 i \<Rightarrow> Some (f64_of_int i)
      | VNumber s \<Rightarrow> parse_f64 s
      | _ \<Rightarrow> None)"

definition sameKind :: "goval \<Rightarrow> goval \<Rightarrow> bool" where
  "sameKind l r =
     (case l of
        VBool _ \<Rightarrow> (case r of VBool _ \<Rightarrow> True | _ \<Rightarrow> False)
      | VString _ \<Rightarrow> (case r of VString _ \<Rightarrow> True | _ \<Rightarrow> False)
      | _ \<Rightarrow> False)"

definition equalValue :: "goval \<Rightarrow> goval \<Rightarrow> bool" where
  "equalValue l r =
     (case l of
        VBool x \<Rightarrow> r = VBool x
      | VString x \<Rightarrow> r = VString x
      | _ \<Rightarrow> False)"

definition compareFloats :: "string \<Rightarrow> rat \<Rightarrow> rat \<Rightarrow> bool option" where
  "compareFloats op lf rf =
     (if op = ''=='' then Some (lf = rf)
      else if op = ''!='' then Some (lf \<noteq> rf)
      else if op = ''<'' then Some (lf < rf)
      else if op = ''<='' then Some (lf \<le> rf)
      else if op = ''>'' then Some (lf > rf)
      else if op = ''>='' then Some (lf \<ge> rf)
      else None)"

definition compare :: "string \<Rightarrow> goval \<Rightarrow> goval \<Rightarrow> eval_error + bool" where
  "compare op l r =
     (if l = VNil \<or> r = VNil then
        (if op = ''=='' then Inr (l = VNil \<and> r = VNil)
         else if op = ''!='' then Inr (l \<noteq> VNil \<or> r \<noteq> VNil)
         else evalErr EvalCodeTypeMismatch)
      else let eq = (if op \<noteq> ''=='' \<and> op \<noteq> ''!='' then evalErr EvalCodeTypeMismatch
                     else if \<not> sameKind l r then evalErr EvalCodeTypeMismatch
                     else if op = ''=='' then Inr (equalValue l r) else Inr (\<not> equalValue l r))
           in case (toFloat l, toFloat r) of
                (Some lf, Some rf) \<Rightarrow>
                  (case compareFloats op lf rf of Some b \<Rightarrow> Inr b | None \<Rightarrow> eq)
              | _ \<Rightarrow> eq)"

subsection \<open>Evaluating expressions\<close>

definition requireBool :: "goval \<Rightarrow> eval_error + bool" where
  "requireBool v = (case v of VBool b \<Rightarrow> Inr b | _ \<Rightarrow> evalErr EvalCodeTypeMismatch)"

text \<open>\<open>evalLogical\<close>, given how to evaluate each operand: the right one only when it is needed.\<close>

definition evalLogical :: "eval_error + goval \<Rightarrow> eval_error + goval \<Rightarrow> bool \<Rightarrow> eval_error + goval" where
  "evalLogical el er shortCircuitOn =
     rbind el (\<lambda>lv. rbind (requireBool lv) (\<lambda>lb.
       if lb = shortCircuitOn then Inr (VBool shortCircuitOn)
       else rbind er (\<lambda>rv. rbind (requireBool rv) (\<lambda>rb. Inr (VBool rb)))))"

fun evalExpr :: "expr \<Rightarrow> scope \<Rightarrow> eval_error + goval" where
  "evalExpr (BoolLit b) sc = Inr (VBool b)"
| "evalExpr (StringLit s) sc = Inr (VString s)"
| "evalExpr (NumberLit t) sc =
     (case parse_f64 t of None \<Rightarrow> evalErr EvalCodeInvalidScalar | Some f \<Rightarrow> Inr (VFloat f))"
| "evalExpr NullLit sc = Inr VNil"
| "evalExpr (Ref segs) sc = resolveRefValue sc segs"
| "evalExpr (NotExpr x) sc =
     rbind (evalExpr x sc) (\<lambda>v. rbind (requireBool v) (\<lambda>b. Inr (VBool (\<not> b))))"
| "evalExpr (AndExpr l r) sc = evalLogical (evalExpr l sc) (evalExpr r sc) False"
| "evalExpr (OrExpr l r) sc = evalLogical (evalExpr l sc) (evalExpr r sc) True"
| "evalExpr (CmpExpr op l r) sc =
     rbind (evalExpr l sc) (\<lambda>lv. rbind (evalExpr r sc) (\<lambda>rv.
       rbind (compare op lv rv) (\<lambda>b. Inr (VBool b))))"

definition EvalBool :: "expr \<Rightarrow> scope \<Rightarrow> eval_error + bool" where
  "EvalBool e sc = rbind (evalExpr e sc) requireBool"

definition UnwrapEnvelope :: "string \<Rightarrow> string" where
  "UnwrapEnvelope src =
     (let s = trimSpace src
      in if hasPrefix s ''{{'' \<and> hasSuffix s ''}}''
         then trimSpace (take (length s - 4) (drop 2 s)) else src)"

definition EvalBoolString :: "string \<Rightarrow> scope \<Rightarrow> eval_error + bool" where
  "EvalBoolString src sc =
     (case ParseExpr (UnwrapEnvelope src) of
        Inl e \<Rightarrow> Inl (ParseFailure e)
      | Inr e \<Rightarrow> EvalBool e sc)"

subsection \<open>Substitution\<close>

definition slice :: "string \<Rightarrow> nat \<Rightarrow> nat \<Rightarrow> string" where
  "slice s a b = take (b - a) (drop a s)"

text \<open>The closure \<open>writeUpTo\<close> on the builder, the cursor and the escapes not yet written.\<close>

fun writeUpTo :: "string \<Rightarrow> nat \<Rightarrow> string \<times> nat \<times> nat list \<Rightarrow> string \<times> nat \<times> nat list" where
  "writeUpTo host e (b, cursor, []) = (b @ slice host cursor e, e, [])"
| "writeUpTo host e (b, cursor, x # escs) =
     (if x < e
      then writeUpTo host e (b @ slice host cursor x @ slotOpen, x + 1 + length slotOpen, escs)
      else (b @ slice host cursor e, e, x # escs))"

text \<open>The value of one slot, every failure turned into the code \<open>Substitute\<close> reports.\<close>

definition slotValue :: "scope \<Rightarrow> string \<Rightarrow> eval_error + string" where
  "slotValue sc inner =
     (case ParseRef inner of
        Inl _ \<Rightarrow> evalErr EvalCodeSyntax
      | Inr ref \<Rightarrow>
          (case resolveRefValue sc ref of
             Inl (EvalError c) \<Rightarrow> evalErr c
           | Inl _ \<Rightarrow> evalErr EvalCodeRefUnresolved
           | Inr v \<Rightarrow>
               (case renderScalar v of Inl _ \<Rightarrow> evalErr EvalCodeInvalidScalar | Inr s \<Rightarrow> Inr s)))"

fun substituteSlots ::
  "string \<Rightarrow> scope \<Rightarrow> slot list \<Rightarrow> string \<times> nat \<times> nat list \<Rightarrow> eval_error + string" where
  "substituteSlots host sc [] st = (case writeUpTo host (length host) st of (b, _, _) \<Rightarrow> Inr b)"
| "substituteSlots host sc (sl # sls) st =
     (case writeUpTo host (Start sl) st of (b, cursor, escs) \<Rightarrow>
        rbind (slotValue sc (Inner sl)) (\<lambda>s. substituteSlots host sc sls (b @ s, End sl, escs)))"

definition Substitute :: "string \<Rightarrow> scope \<Rightarrow> eval_error + string" where
  "Substitute host sc =
     (case scan host of
        Inl _ \<Rightarrow> evalErr EvalCodeSyntax
      | Inr (slots, escapes) \<Rightarrow>
          if slots = [] \<and> escapes = [] then Inr host
          else substituteSlots host sc slots ([], 0, escapes))"

subsection \<open>Typed template values\<close>

definition evalTemplateStringValue :: "string \<Rightarrow> scope \<Rightarrow> eval_error + goval" where
  "evalTemplateStringValue s sc =
     (case Slots s of
        Inl _ \<Rightarrow> evalErr EvalCodeSyntax
      | Inr slots \<Rightarrow>
          if length slots = 1 \<and> Start (slots ! 0) = 0 \<and> End (slots ! 0) = length s
          then (case ParseRef (Inner (slots ! 0)) of
                  Inl _ \<Rightarrow> evalErr EvalCodeSyntax
                | Inr ref \<Rightarrow> resolveRefValue sc ref)
          else rbind (Substitute s sc) (\<lambda>t. Inr (VString t)))"

text \<open>
  \<open>evalTemplateDecodedValue\<close> on arrays and objects, element by element up to the first error (Go
  visits an object in an unspecified order; here it is the order of the list).
\<close>

fun evalTemplateDecodedValue :: "goval \<Rightarrow> scope \<Rightarrow> eval_error + goval"
  and evalTemplateArray :: "goval list \<Rightarrow> scope \<Rightarrow> eval_error + goval list"
  and evalTemplateObject :: "(string \<times> goval) list \<Rightarrow> scope \<Rightarrow> eval_error + (string \<times> goval) list"
where
  "evalTemplateDecodedValue (VString s) sc = evalTemplateStringValue s sc"
| "evalTemplateDecodedValue (VArray vs) sc = rbind (evalTemplateArray vs sc) (\<lambda>xs. Inr (VArray xs))"
| "evalTemplateDecodedValue (VObject kvs) sc = rbind (evalTemplateObject kvs sc) (\<lambda>xs. Inr (VObject xs))"
| "evalTemplateDecodedValue v sc = Inr v"
| "evalTemplateArray [] sc = Inr []"
| "evalTemplateArray (v # vs) sc =
     rbind (evalTemplateDecodedValue v sc) (\<lambda>x. rbind (evalTemplateArray vs sc) (\<lambda>xs. Inr (x # xs)))"
| "evalTemplateObject [] sc = Inr []"
| "evalTemplateObject ((k, v) # kvs) sc =
     rbind (evalTemplateDecodedValue v sc) (\<lambda>x. rbind (evalTemplateObject kvs sc) (\<lambda>xs. Inr ((k, x) # xs)))"

subsection \<open>The reference rendering\<close>

text \<open>
  A host string cut into literal text, escaped openers and slots, from left to right. The text of
  a piece is what stands in the host for it.
\<close>

datatype piece = PText string | PEscape | PSlot string

fun piece_text :: "piece \<Rightarrow> string" where
  "piece_text (PText t) = t"
| "piece_text PEscape = CHR 0x5C # slotOpen"
| "piece_text (PSlot i) = slotOpen @ i @ slotClose"

function pieces :: "string \<Rightarrow> piece list option" where
  "pieces s =
     (case indexOf s slotOpen of
        None \<Rightarrow> Some [PText s]
      | Some j \<Rightarrow>
          let before = take j s; after = drop (j + 2) s
          in if before \<noteq> [] \<and> last before = CHR 0x5C
             then map_option (\<lambda>ps. PText (butlast before) # PEscape # ps) (pieces after)
             else case indexOf after slotClose of
                    None \<Rightarrow> None
                  | Some k \<Rightarrow>
                      if contains (take k after) slotOpen then None
                      else map_option (\<lambda>ps. PText before # PSlot (take k after) # ps)
                             (pieces (drop (k + 2) after)))"
  by pat_completeness auto
termination
  by (relation "measure length") (auto dest!: indexOf_bound simp: slotOpen_def)

declare pieces.simps [simp del]

fun render :: "scope \<Rightarrow> piece list \<Rightarrow> eval_error + string" where
  "render sc [] = Inr []"
| "render sc (PText t # ps) = rbind (render sc ps) (\<lambda>r. Inr (t @ r))"
| "render sc (PEscape # ps) = rbind (render sc ps) (\<lambda>r. Inr (slotOpen @ r))"
| "render sc (PSlot i # ps) = rbind (slotValue sc i) (\<lambda>v. rbind (render sc ps) (\<lambda>r. Inr (v @ r)))"

text \<open>The slots and escape offsets of pieces that start at offset \<open>i\<close> of the host.\<close>

fun slots_at :: "nat \<Rightarrow> piece list \<Rightarrow> slot list" where
  "slots_at i [] = []"
| "slots_at i (PText t # ps) = slots_at (i + length t) ps"
| "slots_at i (PEscape # ps) = slots_at (i + 3) ps"
| "slots_at i (PSlot s # ps) = \<lparr>Start = i, End = i + 4 + length s, Inner = s\<rparr> # slots_at (i + 4 + length s) ps"

fun escs_at :: "nat \<Rightarrow> piece list \<Rightarrow> nat list" where
  "escs_at i [] = []"
| "escs_at i (PText t # ps) = escs_at (i + length t) ps"
| "escs_at i (PEscape # ps) = i # escs_at (i + 3) ps"
| "escs_at i (PSlot s # ps) = escs_at (i + 4 + length s) ps"

lemma indexOf_hasPrefix: "indexOf s p = Some j \<Longrightarrow> hasPrefix (drop j s) p"
proof (induction s p arbitrary: j rule: indexOf.induct)
  case (1 s p)
  show ?case
  proof (cases "hasPrefix s p")
    case True
    with "1.prems" show ?thesis by (subst (asm) indexOf.simps) auto
  next
    case False
    with "1.prems" obtain c t i where "s = c # t" "indexOf t p = Some i" "j = Suc i"
      by (subst (asm) indexOf.simps) (auto split: list.splits)
    with "1.IH" [OF False] show ?thesis by simp
  qed
qed

lemma indexOf_split:
  assumes "indexOf s p = Some j"
  shows "s = take j s @ p @ drop (j + length p) s" and "j + length p \<le> length s"
proof -
  show "j + length p \<le> length s" using indexOf_bound [OF assms] .
  from indexOf_hasPrefix [OF assms] have "drop j s = p @ drop (length p) (drop j s)"
    by (metis append_take_drop_id hasPrefix_def)
  then show "s = take j s @ p @ drop (j + length p) s"
    by (metis append_take_drop_id drop_drop add.commute)
qed

lemma indexOf_Nil [simp]: "p \<noteq> [] \<Longrightarrow> indexOf [] p = None"
  by (subst indexOf.simps) (simp add: hasPrefix_def)

subsection \<open>Substitute is the reference rendering\<close>

lemma pieces_text: "pieces s = Some ps \<Longrightarrow> concat (map piece_text ps) = s"
proof (induction s arbitrary: ps rule: pieces.induct)
  case (1 s)
  show ?case
  proof (cases "indexOf s slotOpen")
    case None
    with "1.prems" show ?thesis by (subst (asm) pieces.simps) auto
  next
    case (Some j)
    let ?before = "take j s" and ?after = "drop (j + 2) s"
    have s: "s = ?before @ slotOpen @ ?after" using indexOf_split(1) [OF Some] by (simp add: slotOpen_def)
    show ?thesis
    proof (cases "?before \<noteq> [] \<and> last ?before = CHR 0x5C")
      case True
      with "1.prems" Some obtain qs where qs: "pieces ?after = Some qs"
        and ps: "ps = PText (butlast ?before) # PEscape # qs"
        by (subst (asm) pieces.simps) (auto simp: Let_def)
      have "butlast ?before @ [CHR 0x5C] = ?before" using True by (metis append_butlast_last_id)
      then have "concat (map piece_text ps) = ?before @ slotOpen @ ?after"
        using "1.IH"(1) [OF Some refl refl True qs] by (simp add: ps)
      then show ?thesis using s by simp
    next
      case False
      with "1.prems" Some obtain k qs where k: "indexOf ?after slotClose = Some k"
        and nc: "\<not> contains (take k ?after) slotOpen" and qs: "pieces (drop (k + 2) ?after) = Some qs"
        and ps: "ps = PText ?before # PSlot (take k ?after) # qs"
        by (subst (asm) pieces.simps) (auto simp: Let_def split: option.splits if_splits)
      have "?after = take k ?after @ slotClose @ drop (k + 2) ?after"
        using indexOf_split(1) [OF k] by (simp add: slotClose_def)
      then have "concat (map piece_text ps) = ?before @ slotOpen @ ?after"
        using "1.IH"(2) [OF Some refl refl False k nc qs] by (simp add: ps)
      then show ?thesis using s by simp
    qed
  qed
qed

definition scan_ok :: "syntax_error + (slot list \<times> nat list) \<Rightarrow> nat \<Rightarrow> piece list option \<Rightarrow> bool" where
  "scan_ok r i ps \<longleftrightarrow>
     (case ps of None \<Rightarrow> \<not> is_ok r | Some ps \<Rightarrow> r = Inr (slots_at i ps, escs_at i ps))"

lemma take2_nth: "take 2 (drop a s) = [x, y] \<Longrightarrow> a + 2 \<le> length s \<Longrightarrow> s ! (a + 1) = y"
proof -
  assume t: "take 2 (drop a s) = [x, y]" and "a + 2 \<le> length s"
  then have "take 2 (drop a s) ! 1 = s ! (a + 1)" by (subst nth_take) simp_all
  with t show ?thesis by simp
qed

lemma indexOf_take2: "indexOf s [x, y] = Some j \<Longrightarrow> take 2 (drop j s) = [x, y]"
  using indexOf_hasPrefix [of s "[x, y]" j] by (simp add: hasPrefix_def numeral_2_eq_2)

lemma scanFrom_pieces:
  "i \<le> length src \<Longrightarrow> i = 0 \<or> src ! (i - 1) \<noteq> CHR 0x5C \<Longrightarrow> scan_ok (scanFrom src i) i (pieces (drop i src))"
proof (induction src i rule: scanFrom.induct)
  case (1 src i)
  show ?case
  proof (cases "indexOf (drop i src) slotOpen")
    case None
    then show ?thesis by (subst scanFrom.simps, subst pieces.simps) (simp add: scan_ok_def)
  next
    case (Some j)
    let ?start = "i + j" and ?before = "take j (drop i src)" and ?after = "drop (i + j + 2) src"
    have b: "j + 2 \<le> length (drop i src)" using indexOf_split(2) [OF Some] by (simp add: slotOpen_def)
    then have i: "i < length src" and start: "?start + 2 \<le> length src" by simp_all
    have opn: "take 2 (drop ?start src) = slotOpen"
      using indexOf_take2 [OF Some [unfolded slotOpen_def]] by (simp add: slotOpen_def add.commute)
    have esc: "?before \<noteq> [] \<and> last ?before = CHR 0x5C \<longleftrightarrow> 0 < ?start \<and> src ! (?start - 1) = CHR 0x5C"
    proof (cases "j = 0")
      case True
      then show ?thesis using "1.prems"(2) by auto
    next
      case False
      then have "last ?before = src ! (?start - 1)" using b by (subst last_conv_nth) auto
      then show ?thesis using False b by auto
    qed
    have after: "drop (j + 2) (drop i src) = ?after" by (simp add: add.commute add.left_commute)
    show ?thesis
    proof (cases "0 < ?start \<and> src ! (?start - 1) = CHR 0x5C")
      case True
      have "src ! (?start + 1) = CHR ''{''"
        using take2_nth opn start by (simp add: slotOpen_def)
      then have ih: "scan_ok (scanFrom src (?start + 2)) (?start + 2) (pieces ?after)"
        using "1.IH"(1) [OF _ Some refl True] i start by (simp add: slotOpen_def)
      have len: "i + length (butlast ?before) = ?start - 1" using b True esc by simp
      have le: "1 \<le> ?start" using True by auto
      have sf: "scanFrom src i = rbind (scanFrom src (?start + 2)) (\<lambda>(slots, escs).
               Inr (slots, (?start - 1) # escs))"
        using i Some True by (subst scanFrom.simps) (auto simp: Let_def slotOpen_def)
      have pc: "pieces (drop i src) = map_option (\<lambda>ps. PText (butlast ?before) # PEscape # ps) (pieces ?after)"
        using Some True [folded esc] by (subst pieces.simps) (auto simp: Let_def after add.commute [of j i])
      have le3: "?start - 1 + 3 = ?start + 2" using le by simp
      have "slots_at i (PText (butlast ?before) # PEscape # ps) = slots_at (?start + 2) ps" for ps
        unfolding slots_at.simps len le3 by (rule refl)
      moreover have "escs_at i (PText (butlast ?before) # PEscape # ps) = (?start - 1) # escs_at (?start + 2) ps" for ps
        unfolding escs_at.simps len le3 by (rule refl)
      ultimately show ?thesis
        using ih unfolding sf pc scan_ok_def
        by (cases "pieces ?after") (auto simp: is_ok_def rbind_def simp del: slots_at.simps escs_at.simps split: sum.splits)
    next
      case False
      then have nb: "\<not> (?before \<noteq> [] \<and> last ?before = CHR 0x5C)" using esc by simp
      show ?thesis
      proof (cases "indexOf ?after slotClose")
        case None
        have "scanFrom src i = Inl (SyntaxError ?start UnterminatedSlot)"
          using i Some None False by (subst scanFrom.simps) (auto simp: Let_def slotOpen_def)
        moreover have "pieces (drop i src) = None"
          using Some None nb by (subst pieces.simps) (auto simp: Let_def after add.commute [of j i])
        ultimately show ?thesis by (simp add: scan_ok_def)
      next
        case k: (Some k)
        let ?e = "?start + 2 + k + 2"
        have kb: "k + 2 \<le> length ?after" using indexOf_split(2) [OF k] by (simp add: slotClose_def)
        then have e: "?e \<le> length src" by simp
        have cls: "take 2 (drop (?start + 2 + k) src) = slotClose"
          using indexOf_take2 [OF k [unfolded slotClose_def]]
          by (simp add: slotClose_def add.commute add.left_commute)
        have "src ! (?e - 1) = CHR ''}''"
          using take2_nth [of "?start + 2 + k" src] cls e by (simp add: slotClose_def)
        then have ih: "scan_ok (scanFrom src ?e) ?e (pieces (drop ?e src))" if "\<not> contains (take k ?after) slotOpen"
          using "1.IH"(2) [OF _ Some refl False refl _ refl refl] k that i e
          by (simp add: slotOpen_def slotClose_def)
        have dr: "drop (k + 2) ?after = drop ?e src" by (simp add: add.commute add.left_commute)
        let ?in = "take k ?after"
        have sf: "scanFrom src i = (if contains ?in slotOpen then Inl (SyntaxError ?start NestedSlot)
            else rbind (scanFrom src ?e) (\<lambda>(slots, escs).
              Inr (\<lparr>Start = ?start, End = ?e, Inner = ?in\<rparr> # slots, escs)))"
          using i Some k False
          by (subst scanFrom.simps) (auto simp: Let_def slotOpen_def slotClose_def)
        have pc: "pieces (drop i src) = (if contains ?in slotOpen then None
            else map_option (\<lambda>ps. PText ?before # PSlot ?in # ps) (pieces (drop ?e src)))"
          using Some k nb dr by (subst pieces.simps) (auto simp: Let_def after add.commute [of j i])
        have pos: "i + length ?before = ?start" "?start + 4 + length ?in = ?e" using b kb by simp_all
        have sl: "slots_at i (PText ?before # PSlot ?in # ps)
            = \<lparr>Start = ?start, End = ?e, Inner = ?in\<rparr> # slots_at ?e ps" for ps
          unfolding slots_at.simps pos by (rule refl)
        have es: "escs_at i (PText ?before # PSlot ?in # ps) = escs_at ?e ps" for ps
          unfolding escs_at.simps pos by (rule refl)
        show ?thesis
        proof (cases "contains ?in slotOpen")
          case True
          then show ?thesis unfolding sf pc by (simp add: scan_ok_def)
        next
          case nc: False
          show ?thesis using ih [OF nc] nc sl es unfolding sf pc scan_ok_def
            by (cases "pieces (drop ?e src)")
              (auto simp: is_ok_def rbind_def simp del: slots_at.simps escs_at.simps split: sum.splits)
        qed
      qed
    qed
  qed
qed

lemma slice_self [simp]: "slice s a a = []"
  by (simp add: slice_def)

lemma slice_extend:
  assumes "c \<le> i" and "drop i s = t @ r"
  shows "slice s c (i + length t) = slice s c i @ t"
proof -
  have "i + length t - c = (i - c) + length t" using assms(1) by simp
  moreover have "drop (i - c) (drop c s) = t @ r" using assms by simp
  ultimately show ?thesis by (simp add: slice_def take_add)
qed

lemma escs_at_bound: "x \<in> set (escs_at i ps) \<Longrightarrow> i \<le> x"
  by (induction i ps rule: escs_at.induct) auto

lemma writeUpTo_none: "\<forall>x \<in> set escs. e \<le> x \<Longrightarrow> writeUpTo host e (b, c, escs) = (b @ slice host c e, e, escs)"
  by (cases escs) auto

lemma substituteSlots_escape:
  assumes "\<forall>sl \<in> set sls. x < Start sl" and "x < length host"
  shows "substituteSlots host sc sls (b, c, x # escs)
    = substituteSlots host sc sls (b @ slice host c x @ slotOpen, x + 1 + length slotOpen, escs)"
  using assms by (cases sls) simp_all

lemma slots_at_bound: "sl \<in> set (slots_at i ps) \<Longrightarrow> i \<le> Start sl"
  by (induction i ps rule: slots_at.induct) auto

lemma substituteSlots_render:
  "c \<le> i \<Longrightarrow> i \<le> length host \<Longrightarrow> drop i host = concat (map piece_text ps) \<Longrightarrow>
   substituteSlots host sc (slots_at i ps) (b, c, escs_at i ps)
     = rbind (render sc ps) (\<lambda>r. Inr (b @ slice host c i @ r))"
proof (induction ps arbitrary: i c b)
  case Nil
  then show ?case by simp
next
  case (Cons p ps)
  have d: "drop i host = piece_text p @ concat (map piece_text ps)" using Cons.prems(3) by simp
  have len: "i + length (piece_text p) \<le> length host"
    using arg_cong [OF d, of length] Cons.prems(2) by simp
  have "drop (length (piece_text p)) (drop i host) = concat (map piece_text ps)" by (simp add: d)
  then have rest: "drop (i + length (piece_text p)) host = concat (map piece_text ps)"
    by (simp add: add.commute)
  show ?case
  proof (cases p)
    case (PText t)
    have "slice host c (i + length t) = slice host c i @ t"
      using slice_extend [OF Cons.prems(1), of host t] Cons.prems(3) PText by simp
    then show ?thesis
      using Cons.IH [of c "i + length t" b] Cons.prems(1) len rest PText
      by (auto simp: rbind_def split: sum.split)
  next
    case PEscape
    have "substituteSlots host sc (slots_at (i + 3) ps) (b, c, i # escs_at (i + 3) ps)
        = substituteSlots host sc (slots_at (i + 3) ps) (b @ slice host c i @ slotOpen, i + 1 + length slotOpen, escs_at (i + 3) ps)"
      by (rule substituteSlots_escape) (use slots_at_bound len PEscape in \<open>force simp: slotOpen_def\<close>)+
    then show ?thesis
      using Cons.IH [of "i + 3" "i + 3" "b @ slice host c i @ slotOpen"] len rest PEscape
      by (auto simp: rbind_def slotOpen_def eval_nat_numeral split: sum.split)
  next
    case (PSlot s)
    have w: "writeUpTo host i (b, c, escs_at (i + 4 + length s) ps) = (b @ slice host c i, i, escs_at (i + 4 + length s) ps)"
      by (rule writeUpTo_none) (auto dest!: escs_at_bound)
    have l: "length (piece_text p) = 4 + length s" using PSlot by (simp add: slotOpen_def slotClose_def)
    have "substituteSlots host sc (slots_at (i + 4 + length s) ps) (b', i + 4 + length s, escs_at (i + 4 + length s) ps)
        = rbind (render sc ps) (\<lambda>r. Inr (b' @ r))" for b'
      using Cons.IH [of "i + 4 + length s" "i + 4 + length s" b'] len rest l by (simp add: add.assoc)
    then show ?thesis using PSlot w
      by (cases "slotValue sc s") (auto simp: rbind_def split: sum.split)
  qed
qed

subsection \<open>Properties\<close>

lemma scan_pieces: "scan_ok (scan host) 0 (pieces host)"
  using scanFrom_pieces [of 0 host] by (simp add: scan_def)


lemma evalExpr_cong:
  "\<forall>r \<in> set (collectRefs e). sc r = sc' r \<Longrightarrow> evalExpr e sc = evalExpr e sc'"
  by (induction e) (auto simp: resolveRefValue_def)

text \<open>
  A condition depends on the scope only through the references \<open>References\<close> extracts from it:
  two scopes that agree on those give the same truth value or the same error.
\<close>

lemma EvalBool_depends_on_References:
  assumes "\<forall>r \<in> set (References e). sc r = sc' r"
  shows "EvalBool e sc = EvalBool e sc'"
  using evalExpr_cong [of e sc sc'] assms by (simp add: EvalBool_def References_def)

lemma EvalBool_depends_on_References_witness:
  "EvalBool (AndExpr (BoolLit False) (Ref [])) (\<lambda>_. Inr VNil)
   = EvalBool (AndExpr (BoolLit False) (Ref [])) (\<lambda>r. if r = [] then Inr VNil else Inl (OtherError ''x''))
   \<and> EvalBool (AndExpr (BoolLit False) (Ref [])) (\<lambda>_. Inr VNil) = Inr False"
  using EvalBool_depends_on_References [of "AndExpr (BoolLit False) (Ref [])" "\<lambda>_. Inr VNil"
      "\<lambda>r. if r = [] then Inr VNil else Inl (OtherError ''x'')"]
  by (simp add: References_def EvalBool_def evalLogical_def requireBool_def)

definition cmp_ops :: "string set" where
  "cmp_ops = {''=='', ''!='', ''<'', ''<='', ''>'', ''>=''}"

definition comparable :: "string \<Rightarrow> goval \<Rightarrow> goval \<Rightarrow> bool" where
  "comparable op l r \<longleftrightarrow> toFloat l \<noteq> None \<and> toFloat r \<noteq> None
     \<or> op \<in> {''=='', ''!=''} \<and> (l = VNil \<or> r = VNil \<or> sameKind l r)"

lemma toFloat_VNil [simp]: "toFloat VNil = None"
  by (simp add: toFloat_def)

lemma sameKind_not_numeric: "sameKind l r \<Longrightarrow> toFloat l = None \<and> toFloat r = None"
  by (cases l; cases r) (simp_all add: sameKind_def toFloat_def)

lemma sameKind_sym: "sameKind l r = sameKind r l"
  by (cases l; cases r) (simp_all add: sameKind_def)

lemma equalValue_sym: "sameKind l r \<Longrightarrow> equalValue l r = equalValue r l"
  by (cases l; cases r) (auto simp: sameKind_def equalValue_def)

text \<open>
  Comparison never coerces. Of the six operators, the ordered ones accept exactly two numbers,
  the equalities also accept two booleans, two strings, or null on either side; everything else
  is a type mismatch. \<open>!=\<close> is the negation of \<open>==\<close>, equality is symmetric, and the ordered
  operators mirror when the operands are swapped.
\<close>

lemma compare_no_coercion:
  assumes "op \<in> cmp_ops"
  shows "(compare op l r = evalErr EvalCodeTypeMismatch \<longleftrightarrow> \<not> comparable op l r)
     \<and> is_ok (compare op l r) = comparable op l r
     \<and> compare ''!='' l r = map_sum id Not (compare ''=='' l r)
     \<and> compare ''=='' l r = compare ''=='' r l
     \<and> compare ''<'' l r = compare ''>'' r l \<and> compare ''<='' l r = compare ''>='' r l"
proof -
  have "(compare op l r = evalErr EvalCodeTypeMismatch \<longleftrightarrow> \<not> comparable op l r)
     \<and> is_ok (compare op l r) = comparable op l r"
    using assms sameKind_not_numeric [of l r]
    by (auto simp: compare_def comparable_def compareFloats_def cmp_ops_def evalErr_def Let_def
        split: option.splits)
  moreover have "compare ''!='' l r = map_sum id Not (compare ''=='' l r)"
    by (auto simp: compare_def compareFloats_def evalErr_def Let_def split: option.splits)
  moreover have "compare ''=='' l r = compare ''=='' r l"
    using equalValue_sym [of l r] sameKind_sym [of l r]
    by (auto simp: compare_def compareFloats_def evalErr_def Let_def split: option.splits)
  moreover have "compare ''<'' l r = compare ''>'' r l" "compare ''<='' l r = compare ''>='' r l"
    by (auto simp: compare_def compareFloats_def evalErr_def Let_def split: option.splits)
  ultimately show ?thesis by blast
qed

lemma compare_no_coercion_witness:
  "''=='' \<in> cmp_ops \<and> compare ''=='' (VString ''1'') (VInt 1) = evalErr EvalCodeTypeMismatch"
  using compare_no_coercion [of "''==''" "VString ''1''" "VInt 1"]
  by (simp add: cmp_ops_def comparable_def toFloat_def sameKind_def)

text \<open>
  A template value that is exactly one slot keeps the type of what it refers to: the value is
  returned as it is, unrendered; a string with no slot and no escape is returned unchanged.
\<close>

lemma whole_slot_keeps_type:
  assumes "\<not> contains inner slotOpen" and "indexOf (inner @ slotClose) slotClose = Some (length inner)"
    and "ParseRef inner = Inr ref" and "\<not> contains s slotOpen"
  shows "evalTemplateStringValue (slotOpen @ inner @ slotClose) sc = resolveRefValue sc ref
     \<and> evalTemplateStringValue s sc = Inr (VString s)"
proof
  let ?h = "slotOpen @ inner @ slotClose"
  have "indexOf ?h slotOpen = Some 0" by (subst indexOf.simps) (simp add: hasPrefix_def)
  then have "pieces ?h = Some [PText [], PSlot inner, PText []]"
    using assms(1,2) by (subst pieces.simps, subst (2) pieces.simps) (simp add: slotOpen_def slotClose_def)
  then have "Slots ?h = Inr [\<lparr>Start = 0, End = length ?h, Inner = inner\<rparr>]"
    using scan_pieces [of ?h] by (simp add: scan_ok_def Slots_def slotOpen_def slotClose_def)
  then show "evalTemplateStringValue ?h sc = resolveRefValue sc ref"
    by (simp add: evalTemplateStringValue_def assms(3))
  have "indexOf s slotOpen = None" using assms(4) by (simp add: contains_def)
  then have p: "pieces s = Some [PText s]" by (subst pieces.simps) simp
  then have "scan s = Inr ([], [])" using scan_pieces [of s] by (simp add: scan_ok_def)
  then show "evalTemplateStringValue s sc = Inr (VString s)"
    by (simp add: evalTemplateStringValue_def Slots_def Substitute_def)
qed

lemma whole_slot_keeps_type_witness:
  "evalTemplateStringValue ''{{a}}'' (\<lambda>_. Inr (VInt 3)) = Inr (VInt 3)
   \<and> evalTemplateStringValue ''a}}'' (\<lambda>_. Inr (VInt 3)) = Inr (VString ''a}}'')"
proof -
  have p: "\<not> contains ''a'' slotOpen" "indexOf (''a'' @ slotClose) slotClose = Some (length ''a'')"
    "is_ok (ParseRef ''a'')" "\<not> contains ''a}}'' slotOpen" by code_simp+
  then obtain r where "ParseRef ''a'' = Inr r" by (cases "ParseRef ''a''") auto
  from whole_slot_keeps_type [OF p(1,2) this p(4), of "\<lambda>_. Inr (VInt 3)"] show ?thesis
    by (simp add: slotOpen_def slotClose_def resolveRefValue_def checkInlineSize_def)
qed

end
