(* ===== verification/IR_Nodes.thy ===== *)
theory IR_Nodes
  imports Retry_Policy Go_Json "HOL-Library.Multiset"
begin

text \<open>
  The workflow graph (src/ir/node.go, src/ir/types.go), the static paths of its nodes
  (src/ir/path.go), the traversal every pass uses (src/ir/walk.go), the runtime paths the engine
  derives from them (src/engine/path.go, src/engine/gate_path.go), the identifier rule of the
  validator (src/ir/validate_structural.go) and the key a deterministic step commits under
  (src/engine/nodekey.go).
\<close>

subsection \<open>Nodes\<close>

record output_file =
  of_Name :: string
  of_Path :: string
  of_Format :: string
  of_Schema :: "goval option"
  of_SchemaRef :: string

record timeout =
  Wall :: "int option"
  Idle :: "int option"

record code_step =
  cs_ID :: string
  cs_Container :: string
  cs_Run :: string
  cs_Timeout :: "timeout option"
  cs_OutputSchema :: "goval option"
  cs_OutputFiles :: "output_file list"
  cs_InputFiles :: "(string \<times> string) list"
  cs_IdempotencyKey :: "string option"
  cs_Retry :: "ir_retry option"

record jury =
  ju_Over :: "goval list"
  ju_Quorum :: "string option"
  ju_Field :: string

record skill_routing =
  sr_From :: string
  sr_Query :: string
  sr_Limit :: int
  sr_Into :: string

record agent_step =
  as_ID :: string
  as_Container :: string
  as_Uses :: string
  as_With :: "(string \<times> goval) list"
  as_Continues :: string
  as_OutputSchema :: "goval option"
  as_OutputFiles :: "output_file list"
  as_OutputArtifact :: string
  as_Skills :: "skill_routing option"
  as_InputFiles :: "(string \<times> string) list"
  as_Timeout :: "timeout option"
  as_IdempotencyKey :: "string option"
  as_Retry :: "ir_retry option"
  as_Jury :: "jury option"

record signal_step =
  ss_ID :: string
  ss_Await :: string
  ss_Where :: string
  ss_Timeout :: "int option"
  ss_OutputSchema :: "goval option"

record call_step =
  cl_ID :: string
  cl_Call :: string
  cl_Input :: "(string \<times> string) list"
  cl_InputFiles :: "(string \<times> string) list"

record reduce_spec =
  rd_Quorum :: "string option"
  rd_Field :: string
  rd_Run :: string
  rd_Container :: string
  rd_OutputSchema :: "goval option"
  rd_OutputFiles :: "output_file list"

record prune_spec =
  pr_Score :: string
  pr_Keep :: "int option"
  pr_StopWhen :: string

record map_spec =
  mp_ID :: string
  mp_Over :: string
  mp_OverItems :: "goval list option"
  mp_As :: string
  mp_Container :: string
  mp_Image :: string
  mp_Concurrency :: "int option"
  mp_MinSuccess :: "string option"
  mp_Reduce :: "reduce_spec option"
  mp_Prune :: "prune_spec option"

record compose_spec =
  cp_As :: string
  cp_From :: string
  cp_Service :: string

record react_spec =
  rc_ID :: string
  rc_With :: "(string \<times> goval) list"
  rc_Prompt :: string
  rc_Tools :: "string list"
  rc_MaxTurns :: int
  rc_OutputSchema :: "goval option"

datatype node =
    CodeStep code_step
  | AgentStep agent_step
  | SignalStep signal_step
  | CallStep call_step
  | If (if_Cond: string) (if_Then: "node list") (if_Else: "node list")
  | Loop (lp_Until: "string option") (lp_MaxIters: "int option") (lp_Body: "node list")
  | Try (try_Do: "node list") (try_Catch: "node list") (try_Finally: "node list")
  | Parallel (par_Children: "node list")
  | Gate (gt_Generate: "node list") (gt_Evaluate: "node list") (gt_Until: string) (gt_MaxAttempts: int)
  | Skip (sk_Reason: string)
  | Map (map_of_node: map_spec) (mp_Body: "node list")
  | Compose compose_spec (cp_Body: "node list")
  | React react_spec

subsection \<open>Static paths\<close>

definition bracketed :: "string \<Rightarrow> nat \<Rightarrow> string" where
  "bracketed keyword index = keyword @ ''['' @ itoa (int index) @ '']''"

definition PathFor :: "string \<Rightarrow> string \<Rightarrow> string \<Rightarrow> nat \<Rightarrow> string" where
  "PathFor parent keyword stepID index =
     (let self = (if stepID \<noteq> [] then stepID
                  else if keyword \<noteq> [] then bracketed keyword index
                  else bracketed ''?'' index)
      in if parent = [] then self else parent @ ''.'' @ self)"

definition ContainerPath :: "string \<Rightarrow> string \<Rightarrow> string" where
  "ContainerPath name field =
     (if field = [] then ''containers.'' @ name else ''containers.'' @ name @ ''.'' @ field)"

definition ChildPath :: "string \<Rightarrow> string \<Rightarrow> nat \<Rightarrow> string \<Rightarrow> string" where
  "ChildPath parent keyword idx branch = PathFor parent keyword [] idx @ ''.'' @ branch"

definition CallWorkflowParentPath :: "string \<Rightarrow> string" where
  "CallWorkflowParentPath callPath = (if callPath = [] then ''workflow'' else callPath @ ''.workflow'')"

text \<open>The keyword and the id a node contributes to its path.\<close>

fun node_keyword :: "node \<Rightarrow> string" where
  "node_keyword (If _ _ _) = ''if''"
| "node_keyword (Loop _ _ _) = ''loop''"
| "node_keyword (Try _ _ _) = ''try''"
| "node_keyword (Parallel _) = ''parallel''"
| "node_keyword (Gate _ _ _ _) = ''gate''"
| "node_keyword (Map _ _) = ''map''"
| "node_keyword (Compose _ _) = ''compose''"
| "node_keyword (React _) = ''react''"
| "node_keyword _ = []"

fun node_id :: "node \<Rightarrow> string" where
  "node_id (CodeStep s) = cs_ID s"
| "node_id (AgentStep s) = as_ID s"
| "node_id (SignalStep s) = ss_ID s"
| "node_id (CallStep s) = cl_ID s"
| "node_id _ = []"

text \<open>
  \<open>WalkNodes\<close> as the list of visits, in order. The index of a node in its list is the counter \<open>i\<close>.
\<close>

fun WalkNodes :: "nat \<Rightarrow> node list \<Rightarrow> string \<Rightarrow> (node \<times> string) list"
  and walkNode :: "nat \<Rightarrow> node \<Rightarrow> string \<Rightarrow> (node \<times> string) list"
where
  "WalkNodes i [] parent = []"
| "WalkNodes i (n # ns) parent = walkNode i n parent @ WalkNodes (Suc i) ns parent"
| "walkNode i (CodeStep v) parent = [(CodeStep v, PathFor parent [] (cs_ID v) i)]"
| "walkNode i (AgentStep v) parent = [(AgentStep v, PathFor parent [] (as_ID v) i)]"
| "walkNode i (SignalStep v) parent = [(SignalStep v, PathFor parent [] (ss_ID v) i)]"
| "walkNode i (CallStep v) parent = [(CallStep v, PathFor parent [] (cl_ID v) i)]"
| "walkNode i (Skip r) parent = []"
| "walkNode i (If c th el) parent =
     (If c th el, PathFor parent ''if'' [] i)
       # WalkNodes 0 th (ChildPath parent ''if'' i ''then'')
       @ WalkNodes 0 el (ChildPath parent ''if'' i ''else'')"
| "walkNode i (Loop u m body) parent =
     (Loop u m body, PathFor parent ''loop'' [] i)
       # WalkNodes 0 body (ChildPath parent ''loop'' i ''body'')"
| "walkNode i (Try d c f) parent =
     (Try d c f, PathFor parent ''try'' [] i)
       # WalkNodes 0 d (ChildPath parent ''try'' i ''do'')
       @ WalkNodes 0 c (ChildPath parent ''try'' i ''catch'')
       @ WalkNodes 0 f (ChildPath parent ''try'' i ''finally'')"
| "walkNode i (Parallel cs) parent =
     (Parallel cs, PathFor parent ''parallel'' [] i)
       # WalkNodes 0 cs (PathFor parent ''parallel'' [] i)"
| "walkNode i (Gate g e u m) parent =
     (Gate g e u m, PathFor parent ''gate'' [] i)
       # WalkNodes 0 g (ChildPath parent ''gate'' i ''generate'')
       @ WalkNodes 0 e (ChildPath parent ''gate'' i ''evaluate'')"
| "walkNode i (Map v body) parent =
     (Map v body, PathFor parent ''map'' [] i)
       # WalkNodes 0 body (ChildPath parent ''map'' i ''body'')"
| "walkNode i (Compose v body) parent =
     (Compose v body, PathFor parent ''compose'' [] i)
       # WalkNodes 0 body (ChildPath parent ''compose'' i ''body'')"
| "walkNode i (React v) parent = [(React v, PathFor parent ''react'' [] i)]"

definition LastStepID :: "node list \<Rightarrow> string option" where
  "LastStepID body =
     (if body = [] then None
      else case last body of
        CodeStep s \<Rightarrow> Some (cs_ID s)
      | AgentStep s \<Rightarrow> Some (as_ID s)
      | _ \<Rightarrow> None)"

definition MapCompactProducer :: "node list \<Rightarrow> (string \<times> goval option) option" where
  "MapCompactProducer body =
     (let some = (\<lambda>sid schema. if schema = None then None else Some (sid, schema))
      in if body = [] then None
         else case last body of
           CodeStep s \<Rightarrow> some (cs_ID s) (cs_OutputSchema s)
         | AgentStep s \<Rightarrow> some (as_ID s) (as_OutputSchema s)
         | SignalStep s \<Rightarrow> some (ss_ID s) (ss_OutputSchema s)
         | _ \<Rightarrow> None)"

subsection \<open>The identifier rule\<close>

text \<open>\<open>stepIDPattern\<close>: \<^verbatim>\<open>^[A-Za-z_][A-Za-z0-9_-]*$\<close>.\<close>

definition isLetterUnd :: "char \<Rightarrow> bool" where
  "isLetterUnd c = (let n = (of_char c :: nat) in 65 \<le> n \<and> n \<le> 90 \<or> 97 \<le> n \<and> n \<le> 122 \<or> c = CHR ''_'')"

fun stepIDPattern :: "string \<Rightarrow> bool" where
  "stepIDPattern [] = False"
| "stepIDPattern (c # s) = (isLetterUnd c \<and> list_all (\<lambda>d. isLetterUnd d \<or> isDigit d \<or> d = CHR ''-'') s)"

definition reservedStepIDTokens :: "string list" where
  "reservedStepIDTokens = [''generate'', ''evaluate'', ''until'', ''then'', ''else'', ''body'',
     ''do'', ''catch'', ''finally'']"

definition valid_step_id :: "string \<Rightarrow> bool" where
  "valid_step_id s = (stepIDPattern s \<and> s \<notin> set reservedStepIDTokens)"

subsection \<open>Runtime paths\<close>

definition IterPath :: "string \<Rightarrow> int \<Rightarrow> string" where
  "IterPath bodyPath iter = bodyPath @ ''.iter-'' @ itoa iter"

definition AttemptPath :: "string \<Rightarrow> int \<Rightarrow> string" where
  "AttemptPath gatePath attempt = gatePath @ ''.attempt-'' @ itoa attempt"

definition ItemPath :: "string \<Rightarrow> int \<Rightarrow> string" where
  "ItemPath mapPath item = mapPath @ ''.item-'' @ itoa item"

definition ItemStepPath :: "string \<Rightarrow> int \<Rightarrow> string \<Rightarrow> string" where
  "ItemStepPath mapPath item suf =
     (let p = ItemPath mapPath item in if suf = [] then p else p @ ''.'' @ suf)"

definition RoundPath :: "string \<Rightarrow> int \<Rightarrow> string" where
  "RoundPath reactPath rnd = reactPath @ ''.round-'' @ itoa rnd"

definition ModelPath :: "string \<Rightarrow> string" where
  "ModelPath roundPath = roundPath @ ''.model''"

definition ToolPath :: "string \<Rightarrow> int \<Rightarrow> string" where
  "ToolPath roundPath j = roundPath @ ''.tool-'' @ itoa j"

definition CallWorkflowRuntimePath :: "string \<Rightarrow> string" where
  "CallWorkflowRuntimePath callPath = (if callPath = [] then ''workflow'' else callPath @ ''.workflow'')"

definition QualifiedContainerKey :: "string \<Rightarrow> string \<Rightarrow> string" where
  "QualifiedContainerKey runtimeParent container =
     (if runtimeParent = [] then container else runtimeParent @ ''::'' @ container)"

definition BareRunHandleKey :: "string \<Rightarrow> string" where
  "BareRunHandleKey nodePath = ''_run:'' @ nodePath"

text \<open>\<open>ParentPath\<close>: the path before its last dot, found by scanning from the right.\<close>

fun parentFrom :: "string \<Rightarrow> nat \<Rightarrow> string option" where
  "parentFrom path 0 = None"
| "parentFrom path (Suc i) = (if path ! i = CHR ''.'' then Some (take i path) else parentFrom path i)"

definition ParentPath :: "string \<Rightarrow> string option" where
  "ParentPath path = parentFrom path (length path)"

text \<open>The backward scans of gate_path.go; \<open>i\<close> is one more than the index of the segment looked at.\<close>

fun gateScan :: "string list \<Rightarrow> string list \<Rightarrow> nat \<Rightarrow> nat option" where
  "gateScan kinds segments 0 = None"
| "gateScan kinds segments (Suc i) =
     (if i < 2 then None
      else if segments ! i \<in> set kinds \<and> hasPrefix (segments ! (i - 1)) ''attempt-''
              \<and> hasPrefix (segments ! (i - 2)) ''gate[''
           then Some i else gateScan kinds segments i)"

definition enclosingGateForEvaluate :: "string \<Rightarrow> string option" where
  "enclosingGateForEvaluate ctxPath =
     (if ctxPath = [] then None
      else let segments = splitDot ctxPath
           in map_option (\<lambda>i. joinDot (take (i - 1) segments))
                (gateScan [''generate'', ''until''] segments (length segments)))"

definition isGateEvaluateContext :: "string \<Rightarrow> bool" where
  "isGateEvaluateContext ctxPath =
     (ctxPath \<noteq> [] \<and>
      (let segments = splitDot ctxPath in gateScan [''evaluate''] segments (length segments) \<noteq> None))"

subsection \<open>Node keys\<close>

definition frameString :: "string \<Rightarrow> string" where
  "frameString s = le_bytes 8 (length s) @ s"

definition frameList :: "string list \<Rightarrow> string" where
  "frameList ss = le_bytes 8 (length ss) @ concat (map frameString ss)"

fun str_insert :: "string \<Rightarrow> string list \<Rightarrow> string list" where
  "str_insert s [] = [s]"
| "str_insert s (x # xs) = (if str_le s x then s # x # xs else x # str_insert s xs)"

definition slices_Sort :: "string list \<Rightarrow> string list" where
  "slices_Sort ss = foldr str_insert ss []"

definition nodeKeyPreimage :: "string \<Rightarrow> string list \<Rightarrow> string list \<Rightarrow> string" where
  "nodeKeyPreimage subtreeDigest inputRefs runtimePins =
     frameString subtreeDigest @ frameList (slices_Sort inputRefs) @ frameList (slices_Sort runtimePins)"

definition computeNodeKey :: "string \<Rightarrow> string list \<Rightarrow> string list \<Rightarrow> string" where
  "computeNodeKey subtreeDigest inputRefs runtimePins =
     ''awf-d1:sha256:'' @ hex_encode (sha256 (nodeKeyPreimage subtreeDigest inputRefs runtimePins))"

definition isDeterministicNode :: "node \<Rightarrow> bool" where
  "isDeterministicNode n = (case n of CodeStep _ \<Rightarrow> True | _ \<Rightarrow> False)"

subsection \<open>Paths as segments\<close>

definition base :: "string \<Rightarrow> string list" where
  "base parent = (if parent = [] then [] else splitDot parent)"

definition self_of :: "nat \<Rightarrow> node \<Rightarrow> string" where
  "self_of i n = (if node_id n \<noteq> [] then node_id n else bracketed (node_keyword n) i)"

text \<open>The step identifiers of a list of nodes, in the order of the traversal.\<close>

fun step_ids :: "node list \<Rightarrow> string list" and ids_of :: "node \<Rightarrow> string list" where
  "step_ids [] = []"
| "step_ids (n # ns) = ids_of n @ step_ids ns"
| "ids_of (CodeStep v) = [cs_ID v]"
| "ids_of (AgentStep v) = [as_ID v]"
| "ids_of (SignalStep v) = [ss_ID v]"
| "ids_of (CallStep v) = [cl_ID v]"
| "ids_of (If c th el) = step_ids th @ step_ids el"
| "ids_of (Loop u m body) = step_ids body"
| "ids_of (Try d c f) = step_ids d @ step_ids c @ step_ids f"
| "ids_of (Parallel cs) = step_ids cs"
| "ids_of (Gate g e u m) = step_ids g @ step_ids e"
| "ids_of (Map v body) = step_ids body"
| "ids_of (Compose v body) = step_ids body"
| "ids_of _ = []"

lemma valid_id_chars:
  assumes "valid_step_id s"
  shows "s \<noteq> []" and "CHR ''.'' \<notin> set s" and "CHR ''['' \<notin> set s"
proof -
  from assms have p: "stepIDPattern s" by (simp add: valid_step_id_def)
  then show "s \<noteq> []" by auto
  have c: "isLetterUnd c \<or> isDigit c \<or> c = CHR ''-''" if "c \<in> set s" for c
    using p that by (cases s) (auto simp: list_all_iff)
  show "CHR ''.'' \<notin> set s" using c [of "CHR ''.''"] by (auto simp: isLetterUnd_def isDigit_def Let_def)
  show "CHR ''['' \<notin> set s" using c [of "CHR ''[''"] by (auto simp: isLetterUnd_def isDigit_def Let_def)
qed

lemma keyword_chars: "CHR ''.'' \<notin> set (node_keyword n)" "CHR ''['' \<notin> set (node_keyword n)"
  by (cases n; simp)+

lemma bracketed_no_dot: "CHR ''.'' \<notin> set k \<Longrightarrow> CHR ''.'' \<notin> set (bracketed k i)"
  using itoa_no_dot [of "int i"] by (simp add: bracketed_def)

lemma bracketed_inj:
  assumes "CHR ''['' \<notin> set k" "CHR ''['' \<notin> set k'" "bracketed k i = bracketed k' j"
  shows "i = j"
proof -
  have tw: "takeWhile (\<lambda>c. c \<noteq> CHR ''['') (bracketed q n) = q" if "CHR ''['' \<notin> set q" for q n
    using that by (auto simp: bracketed_def takeWhile_append intro!: takeWhile_eq_all_conv [THEN iffD2])
  have "k = k'" using tw [OF assms(1), of i] tw [OF assms(2), of j] assms(3) by simp
  with assms(3) have "itoa (int i) = itoa (int j)" by (simp add: bracketed_def)
  then show ?thesis using itoa_inj by fastforce
qed

lemma PathFor_not_Nil: "sid \<noteq> [] \<or> k \<noteq> [] \<Longrightarrow> PathFor parent k sid i \<noteq> []"
  by (simp add: PathFor_def Let_def bracketed_def)

lemma PathFor_segs:
  "CHR ''.'' \<notin> set self \<Longrightarrow> self = (if sid \<noteq> [] then sid else bracketed k i) \<Longrightarrow> sid \<noteq> [] \<or> k \<noteq> [] \<Longrightarrow>
   splitDot (PathFor parent k sid i) = base parent @ [self]"
  by (auto simp: PathFor_def base_def Let_def splitDot_append splitDot_no_dot)

lemma PathFor_kw:
  "CHR ''.'' \<notin> set k \<Longrightarrow> k \<noteq> [] \<Longrightarrow> splitDot (PathFor parent k [] i) = base parent @ [bracketed k i]"
  by (rule PathFor_segs) (simp_all add: bracketed_no_dot)

lemma PathFor_id: "valid_step_id sid \<Longrightarrow> splitDot (PathFor parent k sid i) = base parent @ [sid]"
  by (rule PathFor_segs) (simp_all add: valid_id_chars)

lemma ChildPath_base:
  assumes "CHR ''.'' \<notin> set k" "k \<noteq> []" "CHR ''.'' \<notin> set br"
  shows "base (ChildPath parent k i br) = base parent @ [bracketed k i, br]"
proof -
  have "splitDot (PathFor parent k [] i) = base parent @ [bracketed k i]"
    by (rule PathFor_segs) (use assms bracketed_no_dot in simp_all)
  then show ?thesis using assms(3)
    by (simp add: ChildPath_def base_def splitDot_append splitDot_no_dot)
qed

lemma PathFor_base:
  assumes "CHR ''.'' \<notin> set k" "k \<noteq> []"
  shows "base (PathFor parent k [] i) = base parent @ [bracketed k i]"
  using PathFor_segs [of "bracketed k i" "[]" k i parent] PathFor_not_Nil [of "[]" k parent i]
    bracketed_no_dot [OF assms(1)] assms(2)
  by (simp add: base_def)

text \<open>Every path the traversal reports starts with the parent's segments and then the node's own.\<close>

definition under :: "string \<Rightarrow> string list \<Rightarrow> string \<Rightarrow> bool" where
  "under parent ss p \<longleftrightarrow> (\<exists>rest. splitDot p = base parent @ ss @ rest)"

definition ids_ok :: "string list \<Rightarrow> bool" where
  "ids_ok ids \<longleftrightarrow> distinct ids \<and> list_all valid_step_id ids"

lemma ids_ok_append [simp]:
  "ids_ok (a @ b) \<longleftrightarrow> ids_ok a \<and> ids_ok b \<and> set a \<inter> set b = {}"
  by (auto simp: ids_ok_def)

lemma underI: "base q = base parent @ ss \<Longrightarrow> under q ts p \<Longrightarrow> under parent ss p"
  by (auto simp: under_def)

lemma walk_under:
  "ids_ok (step_ids ns) \<Longrightarrow> (m, p) \<in> set (WalkNodes i ns parent) \<Longrightarrow>
     \<exists>j < length ns. under parent [self_of (i + j) (ns ! j)] p"
  "ids_ok (ids_of n) \<Longrightarrow> (m, p) \<in> set (walkNode i n parent) \<Longrightarrow> under parent [self_of i n] p"
proof (induction i ns parent and i n parent rule: WalkNodes_walkNode.induct)
  case (2 i n ns parent)
  from "2.prems" have ids: "ids_ok (ids_of n)" "ids_ok (step_ids ns)" by simp_all
  from "2.prems"(2) consider "(m, p) \<in> set (walkNode i n parent)" | "(m, p) \<in> set (WalkNodes (Suc i) ns parent)"
    by auto
  then show ?case
  proof cases
    case 1
    with "2.IH"(1) ids show ?thesis by (intro exI [of _ 0]) simp
  next
    case 2
    with "2.IH"(2) ids obtain j where "j < length ns" "under parent [self_of (Suc i + j) (ns ! j)] p" by blast
    then show ?thesis by (intro exI [of _ "Suc j"]) simp
  qed
qed (auto simp: self_of_def ids_ok_def under_def PathFor_kw PathFor_id valid_id_chars(1)
      ChildPath_base PathFor_base)

lemma child_segs:
  "p \<in> snd ` set (WalkNodes i ns q) \<Longrightarrow> ids_ok (step_ids ns) \<Longrightarrow> \<exists>s rest. splitDot p = base q @ s # rest"
  using walk_under(1) by (fastforce simp: under_def)

lemma node_id_in_ids: "node_id n \<noteq> [] \<Longrightarrow> node_id n \<in> set (ids_of n)"
  by (cases n) simp_all

lemma ids_of_nth: "j < length ns \<Longrightarrow> set (ids_of (ns ! j)) \<subseteq> set (step_ids ns)"
  by (induction ns arbitrary: j) (auto simp: nth_Cons split: nat.splits)

lemma self_of_distinct:
  assumes "ids_ok (ids_of n)" "ids_ok (ids_of m)" "set (ids_of n) \<inter> set (ids_of m) = {}" "i \<noteq> j"
  shows "self_of i n \<noteq> self_of j m"
proof
  assume eq: "self_of i n = self_of j m"
  have valid: "valid_step_id (node_id k)" if "ids_ok (ids_of k)" "node_id k \<noteq> []" for k
    using that node_id_in_ids by (auto simp: ids_ok_def list_all_iff)
  have br: "CHR ''['' \<in> set (bracketed k l)" for k l by (simp add: bracketed_def)
  consider (ids) "node_id n \<noteq> []" "node_id m \<noteq> []" | (left) "node_id n \<noteq> []" "node_id m = []"
    | (right) "node_id n = []" "node_id m \<noteq> []" | (both) "node_id n = []" "node_id m = []" by blast
  then show False
  proof cases
    case ids
    with eq have "node_id n = node_id m" by (simp add: self_of_def)
    with ids assms(3) node_id_in_ids show False by fastforce
  next
    case left
    with eq have "node_id n = bracketed (node_keyword m) j" by (simp add: self_of_def)
    with valid_id_chars(3) [OF valid [OF assms(1) left(1)]] br show False by metis
  next
    case right
    with eq have "node_id m = bracketed (node_keyword n) i" by (simp add: self_of_def)
    with valid_id_chars(3) [OF valid [OF assms(2) right(2)]] br show False by metis
  next
    case both
    with eq have "bracketed (node_keyword n) i = bracketed (node_keyword m) j" by (simp add: self_of_def)
    with bracketed_inj keyword_chars(2) assms(4) show False by blast
  qed
qed

lemma own_not_in_child:
  "ids_ok (step_ids ns) \<Longrightarrow> prefix (splitDot p) (base q) \<Longrightarrow> p \<notin> snd ` set (WalkNodes i ns q)"
  using child_segs [of p i ns q] by (fastforce simp: prefix_def)

lemma children_disjoint:
  "ids_ok (step_ids ns) \<Longrightarrow> ids_ok (step_ids ns') \<Longrightarrow> length (base q) = length (base q') \<Longrightarrow> base q \<noteq> base q' \<Longrightarrow>
   snd ` set (WalkNodes i ns q) \<inter> snd ` set (WalkNodes i' ns' q') = {}"
proof (rule ccontr)
  assume ids: "ids_ok (step_ids ns)" "ids_ok (step_ids ns')"
    and ne: "length (base q) = length (base q')" "base q \<noteq> base q'"
    and "snd ` set (WalkNodes i ns q) \<inter> snd ` set (WalkNodes i' ns' q') \<noteq> {}"
  then obtain p where "p \<in> snd ` set (WalkNodes i ns q)" "p \<in> snd ` set (WalkNodes i' ns' q')" by blast
  with child_segs ids obtain s r s' r' where "splitDot p = base q @ s # r" "splitDot p = base q' @ s' # r'"
    by meson
  with ne show False by simp
qed

lemma walk_distinct:
  "ids_ok (step_ids ns) \<Longrightarrow> distinct (map snd (WalkNodes i ns parent))"
  "ids_ok (ids_of n) \<Longrightarrow> distinct (map snd (walkNode i n parent))"
proof (induction i ns parent and i n parent rule: WalkNodes_walkNode.induct)
  case (2 i n ns parent)
  have "snd ` set (walkNode i n parent) \<inter> snd ` set (WalkNodes (Suc i) ns parent) = {}"
  proof (rule ccontr)
    assume "\<not> ?thesis"
    then obtain m m' p where "(m, p) \<in> set (walkNode i n parent)" "(m', p) \<in> set (WalkNodes (Suc i) ns parent)"
      by fastforce
    with walk_under "2.prems" obtain j where j: "j < length ns"
      and "under parent [self_of i n] p" "under parent [self_of (Suc i + j) (ns ! j)] p"
      by (metis ids_ok_append step_ids.simps(2))
    then have "self_of i n = self_of (Suc i + j) (ns ! j)" by (auto simp: under_def)
    moreover have "set (ids_of n) \<inter> set (ids_of (ns ! j)) = {}"
      using "2.prems" ids_of_nth [OF j] by auto
    moreover have "ids_ok (ids_of (ns ! j))"
    proof -
      have "step_ids ns = step_ids (take j ns) @ ids_of (ns ! j) @ step_ids (drop (Suc j) ns)"
      proof -
        have app: "step_ids (xs @ ys) = step_ids xs @ step_ids ys" for xs ys by (induction xs) simp_all
        show ?thesis by (subst id_take_nth_drop [OF j]) (simp add: app)
      qed
      with "2.prems" show ?thesis by simp
    qed
    ultimately show False using self_of_distinct [of n "ns ! j" i "Suc i + j"] "2.prems" by simp
  qed
  with 2 show ?case by simp
qed (simp_all add: own_not_in_child children_disjoint ChildPath_base PathFor_base PathFor_kw Int_Un_distrib)

subsection \<open>Runtime paths and keys\<close>

lemma splitDot_tag: "CHR ''.'' \<notin> set t \<Longrightarrow> splitDot (b @ ''.'' @ t @ itoa k) = splitDot b @ [t @ itoa k]"
  using itoa_no_dot [of k] by (simp add: splitDot_append splitDot_no_dot)

lemma runtime_segs:
  "splitDot (IterPath b k) = splitDot b @ [''iter-'' @ itoa k]"
  "splitDot (AttemptPath b k) = splitDot b @ [''attempt-'' @ itoa k]"
  "splitDot (ItemPath b k) = splitDot b @ [''item-'' @ itoa k]"
  "splitDot (RoundPath b k) = splitDot b @ [''round-'' @ itoa k]"
  using splitDot_tag [of "''iter-''" b k] splitDot_tag [of "''attempt-''" b k]
    splitDot_tag [of "''item-''" b k] splitDot_tag [of "''round-''" b k]
  by (simp_all add: IterPath_def AttemptPath_def ItemPath_def RoundPath_def)

lemma splitDot_inj: "splitDot a = splitDot b \<Longrightarrow> a = b"
  by (metis joinDot_splitDot)

lemma str_le_refl: "str_le s s"
  by (induction s) simp_all

lemma str_le_total: "str_le s t \<or> str_le t s"
  by (induction s t rule: str_le.induct) (auto simp: of_char_eq_iff neq_iff)

lemma str_le_antisym: "str_le s t \<Longrightarrow> str_le t s \<Longrightarrow> s = t"
  by (induction s t rule: str_le.induct) (auto elim: str_le.elims)

lemma str_le_trans: "str_le s t \<Longrightarrow> str_le t u \<Longrightarrow> str_le s u"
proof (induction s t arbitrary: u rule: str_le.induct)
  case (3 c s d t)
  then show ?case by (cases u) auto
qed simp_all

lemma str_le_neq: "\<not> str_le s t \<Longrightarrow> str_le t s \<and> s \<noteq> t"
  using str_le_total str_le_refl by blast

lemma str_insert_commute: "str_insert a (str_insert b xs) = str_insert b (str_insert a xs)"
proof (induction xs)
  case Nil
  show ?case
    by (cases "str_le a b"; cases "str_le b a") (auto dest: str_le_antisym str_le_neq)
next
  case (Cons x xs)
  show ?case
  proof (cases "str_le a x"; cases "str_le b x")
    assume "str_le a x" "str_le b x"
    then show ?thesis
      by (cases "str_le a b"; cases "str_le b a") (auto dest: str_le_antisym str_le_neq)
  next
    assume ax: "str_le a x" and bx: "\<not> str_le b x"
    then have "str_le a b" "\<not> str_le b a"
      using str_le_neq [OF bx] str_le_trans [of a x b] str_le_trans [of b a x] by blast+
    with ax bx show ?thesis by simp
  next
    assume ax: "\<not> str_le a x" and bx: "str_le b x"
    then have "str_le b a" "\<not> str_le a b"
      using str_le_neq [OF ax] str_le_trans [of b x a] str_le_trans [of a b x] by blast+
    with ax bx show ?thesis by simp
  next
    assume "\<not> str_le a x" "\<not> str_le b x"
    with Cons.IH show ?thesis by simp
  qed
qed

lemma slices_Sort_cong: "mset xs = mset ys \<Longrightarrow> slices_Sort xs = slices_Sort ys"
  unfolding slices_Sort_def foldr_conv_fold
  by (intro fold_multiset_equiv [THEN fun_cong]) (auto simp: fun_eq_iff str_insert_commute)

lemma mset_slices_Sort [simp]: "mset (slices_Sort xs) = mset xs"
proof -
  have ins: "mset (str_insert x ys) = add_mset x (mset ys)" for x ys by (induction ys) auto
  show ?thesis by (induction xs) (simp_all add: slices_Sort_def ins)
qed

text \<open>What the length frames can carry: Go slices and strings are shorter than \<open>2 ^ 63\<close>.\<close>

definition frameable :: "string list \<Rightarrow> bool" where
  "frameable ss \<longleftrightarrow> length ss < 2 ^ 64 \<and> list_all (\<lambda>s. length s < 2 ^ 64) ss"

lemma set_slices_Sort [simp]: "set (slices_Sort xs) = set xs"
  by (metis mset_slices_Sort set_mset_mset)

lemma le_bytes_8_inj: "le_bytes 8 m = le_bytes 8 n \<Longrightarrow> m < 2 ^ 64 \<Longrightarrow> n < 2 ^ 64 \<Longrightarrow> m = n"
proof -
  assume eq: "le_bytes 8 m = le_bytes 8 n" and m: "m < 2 ^ 64" and n: "n < 2 ^ 64"
  have p: "(256 :: nat) ^ 8 = 2 ^ 64" by simp
  have "m mod 256 ^ 8 = n mod 256 ^ 8" using le_value_le_bytes eq by metis
  then show "m = n" unfolding p using m n by (simp only: mod_less)
qed

lemma frameString_inj:
  assumes "frameString s @ a = frameString t @ b" "length s < 2 ^ 64" "length t < 2 ^ 64"
  shows "s = t \<and> a = b"
proof -
  have "le_bytes 8 (length s) = le_bytes 8 (length t)" and rest: "s @ a = t @ b"
    using assms(1) by (simp_all add: frameString_def)
  then have "length s = length t" using le_bytes_8_inj assms by blast
  with rest show ?thesis by simp
qed

lemma concat_frames_inj:
  "length xs = length ys \<Longrightarrow> concat (map frameString xs) @ a = concat (map frameString ys) @ b \<Longrightarrow>
   list_all (\<lambda>s. length s < 2 ^ 64) xs \<Longrightarrow> list_all (\<lambda>s. length s < 2 ^ 64) ys \<Longrightarrow> xs = ys \<and> a = b"
proof (induction xs ys rule: list_induct2)
  case (Cons x xs y ys)
  then have "x = y \<and> concat (map frameString xs) @ a = concat (map frameString ys) @ b"
    using frameString_inj [of x "concat (map frameString xs) @ a" y] by simp
  with Cons show ?case by simp
qed simp

lemma frameList_inj:
  assumes "frameList xs @ a = frameList ys @ b" "frameable xs" "frameable ys"
  shows "xs = ys \<and> a = b"
proof -
  have "le_bytes 8 (length xs) = le_bytes 8 (length ys)"
    and rest: "concat (map frameString xs) @ a = concat (map frameString ys) @ b"
    using assms(1) by (simp_all add: frameList_def)
  then have "length xs = length ys" using le_bytes_8_inj assms by (simp add: frameable_def)
  from concat_frames_inj [OF this rest] assms show ?thesis by (simp add: frameable_def)
qed

lemma frameable_Sort: "frameable xs \<Longrightarrow> frameable (slices_Sort xs)"
proof -
  assume "frameable xs"
  moreover have "set (slices_Sort xs) = set xs" using mset_slices_Sort [of xs] by (metis set_mset_mset)
  moreover have "length (slices_Sort xs) = length xs" using mset_slices_Sort [of xs] by (metis size_mset)
  ultimately show ?thesis by (simp add: frameable_def list_all_iff)
qed

subsection \<open>Properties\<close>

text \<open>
  Every node of a workflow has its own path. When the step identifiers pass the validator's rule
  (pattern, reserved words, uniqueness), the paths \<open>WalkNodes\<close> reports are pairwise distinct, so a
  path names one node in diagnostics, in the journal and in the committed state.
\<close>

lemma walk_paths_unique:
  assumes "list_all valid_step_id (step_ids graph)" and "distinct (step_ids graph)"
  shows "distinct (map snd (WalkNodes 0 graph []))"
  using walk_distinct(1) [of graph 0 "[]"] assms by (simp add: ids_ok_def)

definition demo_step :: "string \<Rightarrow> node" where
  "demo_step s = CodeStep \<lparr>cs_ID = s, cs_Container = [], cs_Run = [], cs_Timeout = None, cs_OutputSchema = None,
     cs_OutputFiles = [], cs_InputFiles = [], cs_IdempotencyKey = None, cs_Retry = None\<rparr>"

lemma walk_paths_unique_witness:
  "distinct (map snd (WalkNodes 0 [demo_step ''a'', If ''c'' [demo_step ''b''] [Parallel [demo_step ''d'']]] []))"
proof (rule walk_paths_unique)
  show "list_all valid_step_id (step_ids [demo_step ''a'', If ''c'' [demo_step ''b''] [Parallel [demo_step ''d'']]])"
    by (simp add: demo_step_def valid_step_id_def reservedStepIDTokens_def isLetterUnd_def)
  show "distinct (step_ids [demo_step ''a'', If ''c'' [demo_step ''b''] [Parallel [demo_step ''d'']]])"
    by (simp add: demo_step_def)
qed

text \<open>
  Runtime instances have their own paths: an iteration, attempt, item or round path determines
  the path it extends and its number, and the four kinds never coincide.
\<close>

lemma runtime_paths_injective:
  "(IterPath b i = IterPath c j \<longleftrightarrow> b = c \<and> i = j) \<and> (AttemptPath b i = AttemptPath c j \<longleftrightarrow> b = c \<and> i = j)
   \<and> (ItemPath b i = ItemPath c j \<longleftrightarrow> b = c \<and> i = j) \<and> (RoundPath b i = RoundPath c j \<longleftrightarrow> b = c \<and> i = j)
   \<and> distinct [IterPath b i, AttemptPath b' i', ItemPath b'' i'', RoundPath b''' i''']"
proof -
  have inj: "splitDot p = splitDot q \<longleftrightarrow> p = q" for p q using splitDot_inj by auto
  have "IterPath b i = IterPath c j \<longleftrightarrow> b = c \<and> i = j"
    using inj [of "IterPath b i" "IterPath c j"] inj [of b c] itoa_inj by (auto simp: runtime_segs)
  moreover have "AttemptPath b i = AttemptPath c j \<longleftrightarrow> b = c \<and> i = j"
    using inj [of "AttemptPath b i" "AttemptPath c j"] inj [of b c] itoa_inj by (auto simp: runtime_segs)
  moreover have "ItemPath b i = ItemPath c j \<longleftrightarrow> b = c \<and> i = j"
    using inj [of "ItemPath b i" "ItemPath c j"] inj [of b c] itoa_inj by (auto simp: runtime_segs)
  moreover have "RoundPath b i = RoundPath c j \<longleftrightarrow> b = c \<and> i = j"
    using inj [of "RoundPath b i" "RoundPath c j"] inj [of b c] itoa_inj by (auto simp: runtime_segs)
  moreover have "distinct [IterPath b i, AttemptPath b' i', ItemPath b'' i'', RoundPath b''' i''']"
    using runtime_segs by (auto dest!: arg_cong [of _ _ splitDot])
  ultimately show ?thesis by blast
qed

text \<open>
  C37: The preimage of a node key is unambiguous: two committed steps hash the same bytes iff they
  have the same subtree digest and the same input references and pins up to order, so equal keys
  mean equal inputs unless SHA-256 collides.
\<close>

theorem node_key_preimage_injective:
  assumes "length d < 2 ^ 64" "length d' < 2 ^ 64" "frameable refs" "frameable refs'"
    "frameable pins" "frameable pins'"
  shows "nodeKeyPreimage d refs pins = nodeKeyPreimage d' refs' pins'
    \<longleftrightarrow> d = d' \<and> mset refs = mset refs' \<and> mset pins = mset pins'"
proof
  assume eq: "nodeKeyPreimage d refs pins = nodeKeyPreimage d' refs' pins'"
  from frameString_inj [OF eq [unfolded nodeKeyPreimage_def] assms(1,2)]
  have d: "d = d'" and rest: "frameList (slices_Sort refs) @ frameList (slices_Sort pins)
      = frameList (slices_Sort refs') @ frameList (slices_Sort pins')" by simp_all
  from frameList_inj [OF rest] assms have "slices_Sort refs = slices_Sort refs'"
    and "frameList (slices_Sort pins) @ [] = frameList (slices_Sort pins') @ []"
    by (simp_all add: frameable_Sort)
  moreover from this frameList_inj [of "slices_Sort pins" "[]" "slices_Sort pins'" "[]"] assms
  have "slices_Sort pins = slices_Sort pins'" by (simp add: frameable_Sort)
  ultimately show "d = d' \<and> mset refs = mset refs' \<and> mset pins = mset pins'"
    using d by (metis mset_slices_Sort)
next
  assume "d = d' \<and> mset refs = mset refs' \<and> mset pins = mset pins'"
  then show "nodeKeyPreimage d refs pins = nodeKeyPreimage d' refs' pins'"
    using slices_Sort_cong by (metis nodeKeyPreimage_def)
qed

theorem node_key_preimage_injective_witness:
  "nodeKeyPreimage ''d'' [''a'', ''b''] [] = nodeKeyPreimage ''d'' [''b'', ''a''] []
   \<and> nodeKeyPreimage ''d'' [''a'', ''b''] [] \<noteq> nodeKeyPreimage ''d'' [''ab''] []"
  using node_key_preimage_injective [of "''d''" "''d''" "[''a'', ''b'']" "[''b'', ''a'']" "[]" "[]"]
    node_key_preimage_injective [of "''d''" "''d''" "[''a'', ''b'']" "[''ab'']" "[]" "[]"]
  by (simp add: frameable_def)

text \<open>
  The identifier pattern does not exclude the runtime segments \<^verbatim>\<open>attempt-N\<close>, \<^verbatim>\<open>iter-N\<close>
  and \<^verbatim>\<open>item-N\<close>: step identifiers of that form pass the validator's rule.
\<close>

lemma step_id_rule_admits_runtime_segments:
  "valid_step_id ''attempt-1'' \<and> valid_step_id ''iter-1'' \<and> valid_step_id ''item-1''"
  by (simp add: valid_step_id_def reservedStepIDTokens_def isLetterUnd_def isDigit_def)

end
