(* ===== verification/Run_State.thy ===== *)
theory Run_State
  imports IR_Nodes State_Blobs
begin

text \<open>
  The run's state and its reconstruction from the journal: src/engine/runstate.go,
  src/engine/events.go, src/engine/fold.go and the validation of skill selections in
  src/engine/skills.go. A journal event is its path and its payload, already decoded: one
  constructor per event type with the fields of its data struct, \<open>Malformed\<close> for a payload that
  does not unmarshal into it, \<open>OtherEvent\<close> for the types \<open>Fold\<close> skips. A Go map is an association
  list with distinct keys, so its keys can be enumerated. The decoders of blob contents
  (\<open>json.Unmarshal\<close> into a map and into a transcript turn) are parameters.
\<close>

subsection \<open>Maps keyed by path\<close>

type_synonym 'a pmap = "(string \<times> 'a) list"

definition pm_put :: "string \<Rightarrow> 'a \<Rightarrow> 'a pmap \<Rightarrow> 'a pmap" where
  "pm_put k v m = (k, v) # filter (\<lambda>(k', _). k' \<noteq> k) m"

definition pm_del :: "string \<Rightarrow> 'a pmap \<Rightarrow> 'a pmap" where
  "pm_del k m = filter (\<lambda>(k', _). k' \<noteq> k) m"

definition pm_append :: "string \<Rightarrow> 'a \<Rightarrow> 'a list pmap \<Rightarrow> 'a list pmap" where
  "pm_append k v m = pm_put k ((case map_of m k of None \<Rightarrow> [] | Some vs \<Rightarrow> vs) @ [v]) m"

definition pm_list :: "'a list pmap \<Rightarrow> string \<Rightarrow> 'a list" where
  "pm_list m k = (case map_of m k of None \<Rightarrow> [] | Some vs \<Rightarrow> vs)"

subsection \<open>The state\<close>

record attempt_result =
  at_N :: int
  at_Outcome :: string
  at_Verdict :: "goval option"

record map_item_record =
  mi_N :: int
  mi_ItemValue :: "goval option"
  mi_Status :: string
  mi_Outcome :: string
  mi_ImageDigest :: string
  mi_Reason :: string
  mi_Cause :: string

record signal_entry =
  se_Seq :: int
  se_PayloadRef :: string

record pause_marker =
  pa_NodePath :: string
  pa_Reason :: string

record resolved_runtime =
  rt_Ref :: string
  rt_Version :: string
  rt_Container :: string

record call_started =
  ca_Input :: "(string \<times> goval) list"
  ca_InputRef :: string
  ca_InputFiles :: "string pmap"
  ca_Runtimes :: "resolved_runtime list"

record selected_skill =
  sk_ID :: string
  sk_Score :: rat

record skills_selected =
  sl_Library :: string
  sl_LibraryDigest :: string
  sl_Router :: string
  sl_RouterVersion :: string
  sl_RouterParams :: "(string \<times> rat) list"
  sl_Selected :: "selected_skill list"

record node_result =
  nr_Outcome :: outcome
  nr_ExitCode :: "int option"
  nr_Outputs :: "goval option"
  nr_OutputsRef :: string
  nr_Stdout :: "string option"
  nr_StdoutRef :: string
  nr_Files :: "string pmap"
  nr_Transcript :: "goval option"
  nr_NodeKey :: string
  nr_SubtreeDigest :: string

record asset_file =
  af_Path :: string
  af_Ref :: string
  af_Size :: int
  af_SHA256 :: string

record run_asset =
  ra_DeclaredPath :: string
  ra_IsDir :: bool
  ra_Files :: "asset_file list"

record run_state =
  RunID :: string
  WorkflowDigest :: string
  StructuralDigest :: string
  Input :: "goval option"
  Assets :: "run_asset pmap"
  InputFiles :: "string pmap"
  rs_Epoch :: nat
  Completed :: "node_result pmap"
  Branches :: "string pmap"
  LoopIters :: "int pmap"
  GateAttempts :: "attempt_result list pmap"
  ReactRounds :: "int list pmap"
  MapItems :: "map_item_record list pmap"
  Signals :: "signal_entry list pmap"
  CallStarted :: "call_started pmap"
  Paused :: "pause_marker option"
  Cancelled :: bool
  CancelReason :: string
  SignalReceivedAt :: "signal_entry pmap"
  SnapshotRefs :: "string pmap"
  SessionRefs :: "string pmap"
  SelectedSkills :: "skills_selected pmap"

definition zero_state :: run_state where
  "zero_state = \<lparr>RunID = [], WorkflowDigest = [], StructuralDigest = [], Input = None, Assets = [],
     InputFiles = [], rs_Epoch = 0, Completed = [], Branches = [], LoopIters = [], GateAttempts = [],
     ReactRounds = [], MapItems = [], Signals = [], CallStarted = [], Paused = None, Cancelled = False,
     CancelReason = [], SignalReceivedAt = [], SnapshotRefs = [], SessionRefs = [], SelectedSkills = []\<rparr>"

definition NewRunState :: "string \<Rightarrow> string \<Rightarrow> goval option \<Rightarrow> run_state" where
  "NewRunState runID digest inp =
     zero_state\<lparr>RunID := runID, WorkflowDigest := digest, Input := inp, rs_Epoch := 1\<rparr>"

text \<open>The accessors; each holds the state's mutex, so it is one atomic step.\<close>

definition LookupCompleted :: "run_state \<Rightarrow> string \<Rightarrow> node_result option" where
  "LookupCompleted rs path = map_of (Completed rs) path"

definition RecordCompleted :: "string \<Rightarrow> node_result \<Rightarrow> run_state \<Rightarrow> run_state" where
  "RecordCompleted path nr rs = rs\<lparr>Completed := pm_put path nr (Completed rs)\<rparr>"

definition LookupBranch :: "run_state \<Rightarrow> string \<Rightarrow> string option" where
  "LookupBranch rs path = map_of (Branches rs) path"

definition RecordBranch :: "string \<Rightarrow> string \<Rightarrow> run_state \<Rightarrow> run_state" where
  "RecordBranch path which rs = rs\<lparr>Branches := pm_put path which (Branches rs)\<rparr>"

definition LookupLoopIters :: "run_state \<Rightarrow> string \<Rightarrow> int" where
  "LookupLoopIters rs path = (case map_of (LoopIters rs) path of None \<Rightarrow> 0 | Some k \<Rightarrow> k)"

definition RecordLoopIter :: "string \<Rightarrow> int \<Rightarrow> run_state \<Rightarrow> run_state" where
  "RecordLoopIter path k rs = rs\<lparr>LoopIters := pm_put path k (LoopIters rs)\<rparr>"

definition LookupGateAttempts :: "run_state \<Rightarrow> string \<Rightarrow> attempt_result list" where
  "LookupGateAttempts rs path = pm_list (GateAttempts rs) path"

definition RecordGateAttempt :: "string \<Rightarrow> attempt_result \<Rightarrow> run_state \<Rightarrow> run_state" where
  "RecordGateAttempt path ar rs = rs\<lparr>GateAttempts := pm_append path ar (GateAttempts rs)\<rparr>"

definition LookupReactRounds :: "run_state \<Rightarrow> string \<Rightarrow> int list" where
  "LookupReactRounds rs path = pm_list (ReactRounds rs) path"

definition RecordReactRound :: "string \<Rightarrow> int \<Rightarrow> run_state \<Rightarrow> run_state" where
  "RecordReactRound path n rs = rs\<lparr>ReactRounds := pm_append path n (ReactRounds rs)\<rparr>"

definition LookupMapItems :: "run_state \<Rightarrow> string \<Rightarrow> map_item_record list" where
  "LookupMapItems rs path = pm_list (MapItems rs) path"

text \<open>The upsert loop of \<open>RecordMapItem\<close> over the records of one map.\<close>

fun upsert_item :: "map_item_record \<Rightarrow> map_item_record list \<Rightarrow> map_item_record list" where
  "upsert_item mr [] = [mr]"
| "upsert_item mr (x # xs) = (if mi_N x = mi_N mr then mr # xs else x # upsert_item mr xs)"

definition RecordMapItem :: "string \<Rightarrow> map_item_record \<Rightarrow> run_state \<Rightarrow> run_state" where
  "RecordMapItem path mr rs =
     rs\<lparr>MapItems := pm_put path (upsert_item mr (pm_list (MapItems rs) path)) (MapItems rs)\<rparr>"

fun update_item_value :: "int \<Rightarrow> goval option \<Rightarrow> map_item_record list \<Rightarrow> map_item_record list" where
  "update_item_value n v [] = []"
| "update_item_value n v (x # xs) =
     (if mi_N x = n then x\<lparr>mi_ItemValue := v\<rparr> # xs else x # update_item_value n v xs)"

definition UpdateMapItemValue :: "string \<Rightarrow> int \<Rightarrow> goval option \<Rightarrow> run_state \<Rightarrow> run_state" where
  "UpdateMapItemValue path n v rs =
     (if map_of (MapItems rs) path = None then rs
      else rs\<lparr>MapItems := pm_put path (update_item_value n v (pm_list (MapItems rs) path)) (MapItems rs)\<rparr>)"

definition AppendSignal :: "string \<Rightarrow> signal_entry \<Rightarrow> run_state \<Rightarrow> run_state" where
  "AppendSignal name e rs = rs\<lparr>Signals := pm_append name e (Signals rs)\<rparr>"

definition LookupSignals :: "run_state \<Rightarrow> string \<Rightarrow> signal_entry list" where
  "LookupSignals rs name = pm_list (Signals rs) name"

definition RecordCallStarted :: "string \<Rightarrow> call_started \<Rightarrow> run_state \<Rightarrow> run_state" where
  "RecordCallStarted path rec rs = rs\<lparr>CallStarted := pm_put path rec (CallStarted rs)\<rparr>"

definition LookupCallStarted :: "run_state \<Rightarrow> string \<Rightarrow> call_started option" where
  "LookupCallStarted rs path = map_of (CallStarted rs) path"

definition LookupSignalReceivedAt :: "run_state \<Rightarrow> string \<Rightarrow> signal_entry option" where
  "LookupSignalReceivedAt rs path = map_of (SignalReceivedAt rs) path"

definition RecordSignalReceivedAt :: "string \<Rightarrow> signal_entry \<Rightarrow> run_state \<Rightarrow> run_state" where
  "RecordSignalReceivedAt path e rs = rs\<lparr>SignalReceivedAt := pm_put path e (SignalReceivedAt rs)\<rparr>"

definition LookupSelectedSkills :: "run_state \<Rightarrow> string \<Rightarrow> skills_selected option" where
  "LookupSelectedSkills rs path = map_of (SelectedSkills rs) path"

definition RecordSelectedSkills :: "string \<Rightarrow> skills_selected \<Rightarrow> run_state \<Rightarrow> run_state" where
  "RecordSelectedSkills path d rs = rs\<lparr>SelectedSkills := pm_put path d (SelectedSkills rs)\<rparr>"

definition SetPaused :: "pause_marker option \<Rightarrow> run_state \<Rightarrow> run_state" where
  "SetPaused pm rs = rs\<lparr>Paused := pm\<rparr>"

definition SetCancelled :: "bool \<Rightarrow> run_state \<Rightarrow> run_state" where
  "SetCancelled v rs = rs\<lparr>Cancelled := v\<rparr>"

definition SetCancelReason :: "string \<Rightarrow> run_state \<Rightarrow> run_state" where
  "SetCancelReason r rs = rs\<lparr>CancelReason := r\<rparr>"

subsection \<open>Journal events\<close>

record run_started_data =
  sd_RunID :: string
  sd_WorkflowDigest :: string
  sd_StructuralDigest :: string
  sd_InputRef :: string
  sd_Assets :: "run_asset pmap"
  sd_InputFiles :: "string pmap"

record call_started_data =
  cd_InputRef :: string
  cd_InputFiles :: "string pmap"
  cd_Runtimes :: "resolved_runtime list"

record node_completed_data =
  nc_Outcome :: string
  nc_ExitCode :: "int option"
  nc_OutputsRef :: string
  nc_StdoutRef :: string
  nc_Files :: "string pmap"
  nc_SnapshotRef :: string
  nc_Container :: string
  nc_TranscriptRef :: string
  nc_NodeKey :: string
  nc_SubtreeDigest :: string
  nc_SessionRef :: string

record gate_attempt_data =
  ga_N :: int
  ga_Outcome :: string
  ga_VerdictRef :: string

record map_item_data =
  md_N :: int
  md_Status :: string
  md_ImageDigest :: string
  md_Reason :: string
  md_Outcome :: string
  md_Cause :: string

record signal_received_data =
  sg_Name :: string
  sg_Seq :: int
  sg_PayloadRef :: string

record attempt_data =
  rd_N :: int
  rd_Outcome :: string
  rd_Error :: string

record agent_event_data =
  ae_Kind :: string
  ae_Stream :: string
  ae_Size :: int
  ae_Live :: bool
  ae_DisplayClass :: string
  ae_DisplayTool :: string
  ae_DisplaySummary :: string
  ae_DisplayLines :: int
  ae_DisplayBytes :: int
  ae_DisplayIsError :: bool
  ae_PayloadInline :: string
  ae_PayloadRef :: string

datatype event_data =
    RunStarted run_started_data
  | RunResumed nat
  | CallStartedEv call_started_data
  | NodeStarted string
  | NodeCompleted node_completed_data
  | BranchTaken string
  | LoopIter int
  | RetryAttempt attempt_data
  | NodeFailed string string
  | RunFinished string
  | NodeSkipped string string
  | SkillsSelected skills_selected
  | GateAttempt gate_attempt_data
  | ReactRound int
  | MapItem map_item_data
  | MapFrontier "map_item_data list"
  | SignalReceived signal_received_data
  | RunPaused string string
  | RunCancelled string
  | NodeInvalidated "string list"
  | AgentEventEntry agent_event_data
  | Malformed string
  | OtherEvent string

record jevent =
  jPath :: string
  jData :: event_data

text \<open>The type string of an event.\<close>

fun event_type :: "event_data \<Rightarrow> string" where
  "event_type (RunStarted _) = ''run.started''"
| "event_type (RunResumed _) = ''run.resumed''"
| "event_type (CallStartedEv _) = ''call.started''"
| "event_type (NodeStarted _) = ''node.started''"
| "event_type (NodeCompleted _) = ''node.completed''"
| "event_type (BranchTaken _) = ''branch.taken''"
| "event_type (LoopIter _) = ''loop.iter''"
| "event_type (RetryAttempt _) = ''retry.attempt''"
| "event_type (NodeFailed _ _) = ''node.failed''"
| "event_type (RunFinished _) = ''run.finished''"
| "event_type (NodeSkipped _ _) = ''node.skipped''"
| "event_type (SkillsSelected _) = ''skills.selected''"
| "event_type (GateAttempt _) = ''gate.attempt''"
| "event_type (ReactRound _) = ''react.round''"
| "event_type (MapItem _) = ''map.item''"
| "event_type (MapFrontier _) = ''map.frontier''"
| "event_type (SignalReceived _) = ''signal.received''"
| "event_type (RunPaused _ _) = ''run.paused''"
| "event_type (RunCancelled _) = ''run.cancelled''"
| "event_type (NodeInvalidated _) = ''node.invalidated''"
| "event_type (AgentEventEntry _) = ''agent.event''"
| "event_type (Malformed t) = t"
| "event_type (OtherEvent t) = t"

subsection \<open>Folding the journal\<close>

datatype fold_error = FirstNotRunStarted | DuplicateRunStarted | ParseEvent string | BlobRead blob_error
  | BlobParse string | DuplicateCall string | UnknownOutcome string | NotOkCommit outcome
  | SkillsEmptyPath | SkillsRecorded string | SkillsInvalid

text \<open>\<open>validateSkillsSelectedEventLocal\<close>; a score is finite because it is a rational.\<close>

fun selected_ok :: "string list \<Rightarrow> selected_skill list \<Rightarrow> bool" where
  "selected_ok seen [] = True"
| "selected_ok seen (s # ss) =
     (sk_ID s \<noteq> [] \<and> sk_ID s \<notin> set seen \<and> 0 < sk_Score s \<and> selected_ok (sk_ID s # seen) ss)"

definition validateSkillsSelectedEventLocal :: "skills_selected \<Rightarrow> bool" where
  "validateSkillsSelectedEventLocal d =
     (sl_Library d \<noteq> [] \<and> sl_LibraryDigest d \<noteq> [] \<and> sl_Router d \<noteq> [] \<and> sl_RouterVersion d \<noteq> []
      \<and> sl_Selected d \<noteq> [] \<and> selected_ok [] (sl_Selected d))"

text \<open>\<open>clearInvalidatedPaths\<close> of src/engine/rerun.go.\<close>

definition clear_path :: "string \<Rightarrow> run_state \<Rightarrow> run_state" where
  "clear_path p rs =
     rs\<lparr>Completed := pm_del p (Completed rs), Branches := pm_del p (Branches rs),
        LoopIters := pm_del p (LoopIters rs), GateAttempts := pm_del p (GateAttempts rs),
        ReactRounds := pm_del p (ReactRounds rs), MapItems := pm_del p (MapItems rs),
        CallStarted := pm_del p (CallStarted rs), SignalReceivedAt := pm_del p (SignalReceivedAt rs),
        SelectedSkills := pm_del p (SelectedSkills rs), SessionRefs := pm_del p (SessionRefs rs)\<rparr>"

definition clearInvalidatedPaths :: "string list \<Rightarrow> run_state \<Rightarrow> run_state" where
  "clearInvalidatedPaths paths rs = fold clear_path paths rs"

text \<open>
  The readers \<open>Fold\<close> is given: \<open>rd_get\<close> is \<open>Blobs.Get\<close>; \<open>rd_map\<close> is \<open>json.Unmarshal\<close> into a
  \<open>map[string]any\<close> (a JSON \<open>null\<close> gives the nil map \<open>VNil\<close>); \<open>rd_turn\<close> is \<open>json.Unmarshal\<close> into
  a transcript turn.
\<close>

record readers =
  rd_get :: "string \<Rightarrow> blob_error + string"
  rd_map :: "string \<Rightarrow> goval option"
  rd_turn :: "string \<Rightarrow> goval option"

definition read_blob :: "readers \<Rightarrow> string \<Rightarrow> fold_error + string" where
  "read_blob r ref = (case rd_get r ref of Inl e \<Rightarrow> Inl (BlobRead e) | Inr c \<Rightarrow> Inr c)"

definition parse_blob :: "(string \<Rightarrow> goval option) \<Rightarrow> string \<Rightarrow> string \<Rightarrow> fold_error + goval" where
  "parse_blob p ref raw = (case p raw of None \<Rightarrow> Inl (BlobParse ref) | Some v \<Rightarrow> Inr v)"

text \<open>A reference that may be empty: read and parse when it is not.\<close>

definition read_map :: "readers \<Rightarrow> string \<Rightarrow> fold_error + goval option" where
  "read_map r ref =
     (if ref = [] then Inr None
      else rbind (read_blob r ref) (\<lambda>raw. rbind (parse_blob (rd_map r) ref raw) (\<lambda>v. Inr (Some v))))"

definition read_turn :: "readers \<Rightarrow> string \<Rightarrow> fold_error + goval option" where
  "read_turn r ref =
     (if ref = [] then Inr None
      else rbind (read_blob r ref) (\<lambda>raw. rbind (parse_blob (rd_turn r) ref raw) (\<lambda>v. Inr (Some v))))"

definition read_bytes :: "readers \<Rightarrow> string \<Rightarrow> fold_error + string option" where
  "read_bytes r ref = (if ref = [] then Inr None else rbind (read_blob r ref) (\<lambda>raw. Inr (Some raw)))"

definition foldRunStarted :: "readers \<Rightarrow> run_started_data \<Rightarrow> run_state \<Rightarrow> fold_error + run_state" where
  "foldRunStarted r d rs =
     (let rs = rs\<lparr>RunID := sd_RunID d, WorkflowDigest := sd_WorkflowDigest d,
                 StructuralDigest := sd_StructuralDigest d, Assets := sd_Assets d,
                 InputFiles := sd_InputFiles d, rs_Epoch := 1\<rparr>
      in rbind (read_map r (sd_InputRef d)) (\<lambda>i.
           Inr (if i = None then rs else rs\<lparr>Input := i\<rparr>)))"

definition foldCallStarted :: "readers \<Rightarrow> string \<Rightarrow> call_started_data \<Rightarrow> run_state \<Rightarrow> fold_error + run_state" where
  "foldCallStarted r path d rs =
     rbind (read_blob r (cd_InputRef d)) (\<lambda>raw.
     rbind (parse_blob (rd_map r) (cd_InputRef d) raw) (\<lambda>v.
       case v of
         VObject kvs \<Rightarrow>
           Inr (rs\<lparr>CallStarted := pm_put path \<lparr>ca_Input = kvs, ca_InputRef = cd_InputRef d,
                     ca_InputFiles = cd_InputFiles d, ca_Runtimes = cd_Runtimes d\<rparr> (CallStarted rs)\<rparr>)
       | _ \<Rightarrow> Inl (BlobParse (cd_InputRef d))))"

definition result_of ::
  "node_completed_data \<Rightarrow> goval option \<Rightarrow> string option \<Rightarrow> goval option \<Rightarrow> node_result" where
  "result_of d outs out turn =
     \<lparr>nr_Outcome = OutcomeOK, nr_ExitCode = nc_ExitCode d, nr_Outputs = outs,
      nr_OutputsRef = nc_OutputsRef d, nr_Stdout = out, nr_StdoutRef = nc_StdoutRef d,
      nr_Files = nc_Files d, nr_Transcript = turn, nr_NodeKey = nc_NodeKey d,
      nr_SubtreeDigest = nc_SubtreeDigest d\<rparr>"

definition store_commit :: "string \<Rightarrow> node_completed_data \<Rightarrow> node_result \<Rightarrow> run_state \<Rightarrow> run_state" where
  "store_commit path d nr rs =
     rs\<lparr>Completed := pm_put path nr (Completed rs),
        SnapshotRefs := (if nc_SnapshotRef d \<noteq> [] \<and> nc_Container d \<noteq> []
                         then pm_put (nc_Container d) (nc_SnapshotRef d) (SnapshotRefs rs)
                         else SnapshotRefs rs),
        SessionRefs := (if nc_SessionRef d \<noteq> [] then pm_put path (nc_SessionRef d) (SessionRefs rs)
                        else SessionRefs rs)\<rparr>"

definition foldNodeCompleted :: "readers \<Rightarrow> string \<Rightarrow> node_completed_data \<Rightarrow> run_state \<Rightarrow> fold_error + run_state" where
  "foldNodeCompleted r path d rs =
     (case ParseOutcome (nc_Outcome d) of
        Inl s \<Rightarrow> Inl (UnknownOutcome s)
      | Inr oc \<Rightarrow>
          if oc \<noteq> OutcomeOK then Inl (NotOkCommit oc)
          else
            rbind (read_map r (nc_OutputsRef d)) (\<lambda>outs.
            rbind (read_bytes r (nc_StdoutRef d)) (\<lambda>out.
            rbind (read_turn r (nc_TranscriptRef d)) (\<lambda>turn.
              Inr (store_commit path d (result_of d outs out turn) rs)))))"

definition foldGateAttempt :: "readers \<Rightarrow> string \<Rightarrow> gate_attempt_data \<Rightarrow> run_state \<Rightarrow> fold_error + run_state" where
  "foldGateAttempt r path d rs =
     rbind (read_map r (ga_VerdictRef d)) (\<lambda>v.
       Inr (rs\<lparr>GateAttempts := pm_append path
                 \<lparr>at_N = ga_N d, at_Outcome = ga_Outcome d, at_Verdict = v\<rparr> (GateAttempts rs)\<rparr>))"

definition item_record :: "map_item_data \<Rightarrow> map_item_record" where
  "item_record d = \<lparr>mi_N = md_N d, mi_ItemValue = None, mi_Status = md_Status d, mi_Outcome = md_Outcome d,
     mi_ImageDigest = md_ImageDigest d, mi_Reason = md_Reason d, mi_Cause = md_Cause d\<rparr>"

definition frontier_record :: "map_item_data \<Rightarrow> map_item_record" where
  "frontier_record d = (item_record d)\<lparr>mi_Outcome := []\<rparr>"

definition foldSignal :: "string \<Rightarrow> signal_received_data \<Rightarrow> run_state \<Rightarrow> run_state" where
  "foldSignal path d rs =
     (let e = \<lparr>se_Seq = sg_Seq d, se_PayloadRef = sg_PayloadRef d\<rparr>;
          rs = rs\<lparr>Signals := pm_append (sg_Name d) e (Signals rs)\<rparr>
      in if path \<noteq> [] then rs\<lparr>SignalReceivedAt := pm_put path e (SignalReceivedAt rs)\<rparr> else rs)"

definition foldSkills :: "string \<Rightarrow> skills_selected \<Rightarrow> run_state \<Rightarrow> fold_error + run_state" where
  "foldSkills path d rs =
     (if path = [] then Inl SkillsEmptyPath
      else if map_of (SelectedSkills rs) path \<noteq> None then Inl (SkillsRecorded path)
      else if \<not> validateSkillsSelectedEventLocal d then Inl SkillsInvalid
      else Inr (rs\<lparr>SelectedSkills := pm_put path d (SelectedSkills rs)\<rparr>))"

text \<open>The types whose payload \<open>Fold\<close> unmarshals.\<close>

definition parsed_types :: "string list" where
  "parsed_types = [''run.started'', ''run.resumed'', ''call.started'', ''node.completed'', ''branch.taken'',
     ''loop.iter'', ''gate.attempt'', ''react.round'', ''map.item'', ''map.frontier'', ''signal.received'',
     ''skills.selected'', ''node.invalidated'']"

text \<open>One round of the loop of \<open>Fold\<close>; the flag is \<open>seenRunStarted\<close>.\<close>

definition foldEvent :: "readers \<Rightarrow> jevent \<Rightarrow> bool \<times> run_state \<Rightarrow> fold_error + (bool \<times> run_state)" where
  "foldEvent r e st =
     (case st of (seen, rs) \<Rightarrow>
        let upd = (\<lambda>res. rbind res (\<lambda>rs'. Inr (seen, rs')));
            path = jPath e
        in case jData e of
             RunStarted d \<Rightarrow>
               if seen then Inl DuplicateRunStarted
               else rbind (foldRunStarted r d rs) (\<lambda>rs'. Inr (True, rs'))
           | RunResumed n \<Rightarrow> Inr (seen, rs\<lparr>rs_Epoch := n\<rparr>)
           | CallStartedEv d \<Rightarrow>
               if map_of (CallStarted rs) path \<noteq> None then Inl (DuplicateCall path)
               else upd (foldCallStarted r path d rs)
           | NodeCompleted d \<Rightarrow> upd (foldNodeCompleted r path d rs)
           | BranchTaken w \<Rightarrow> Inr (seen, RecordBranch path w rs)
           | LoopIter n \<Rightarrow> Inr (seen, RecordLoopIter path n rs)
           | GateAttempt d \<Rightarrow> upd (foldGateAttempt r path d rs)
           | ReactRound n \<Rightarrow> Inr (seen, RecordReactRound path n rs)
           | MapItem d \<Rightarrow> Inr (seen, RecordMapItem path (item_record d) rs)
           | MapFrontier ds \<Rightarrow>
               Inr (seen, fold (\<lambda>d rs. rs\<lparr>MapItems := pm_append path (frontier_record d) (MapItems rs)\<rparr>) ds rs)
           | SignalReceived d \<Rightarrow> Inr (seen, foldSignal path d rs)
           | SkillsSelected d \<Rightarrow> upd (foldSkills path d rs)
           | RunCancelled _ \<Rightarrow> Inr (seen, SetCancelled True rs)
           | NodeInvalidated ps \<Rightarrow> Inr (seen, clearInvalidatedPaths ps rs)
           | Malformed t \<Rightarrow>
               if t = ''run.started'' \<and> seen then Inl DuplicateRunStarted
               else if t = ''call.started'' \<and> map_of (CallStarted rs) path \<noteq> None then Inl (DuplicateCall path)
               else if t \<in> set parsed_types then Inl (ParseEvent t)
               else if t = ''run.cancelled'' then Inr (seen, SetCancelled True rs)
               else Inr (seen, rs)
           | _ \<Rightarrow> Inr (seen, rs))"

fun foldEvents :: "readers \<Rightarrow> jevent list \<Rightarrow> bool \<times> run_state \<Rightarrow> fold_error + (bool \<times> run_state)" where
  "foldEvents r [] st = Inr st"
| "foldEvents r (e # es) st = rbind (foldEvent r e st) (foldEvents r es)"

definition Fold_log :: "readers \<Rightarrow> jevent list \<Rightarrow> fold_error + run_state" where
  "Fold_log r events =
     (if events = [] then Inr zero_state
      else if event_type (jData (hd events)) \<noteq> ''run.started'' then Inl FirstNotRunStarted
      else rbind (foldEvents r events (False, zero_state)) (\<lambda>(_, rs). Inr rs))"

subsection \<open>Facts about maps\<close>

lemma map_of_filter_neq: "map_of (filter (\<lambda>(k', _). k' \<noteq> k) m) k' = (if k' = k then None else map_of m k')"
  by (induction m) auto

lemma map_of_pm_put [simp]: "map_of (pm_put k v m) = (map_of m)(k \<mapsto> v)"
  by (rule ext) (simp add: pm_put_def map_of_filter_neq)

lemma map_of_pm_del [simp]: "map_of (pm_del k m) = (map_of m)(k := None)"
  by (rule ext) (simp add: pm_del_def map_of_filter_neq)

lemma pm_list_pm_append [simp]:
  "pm_list (pm_append k v m) k' = (if k' = k then pm_list m k @ [v] else pm_list m k')"
  by (simp add: pm_append_def pm_list_def)

lemma pm_list_pm_put [simp]: "pm_list (pm_put k v m) k' = (if k' = k then v else pm_list m k')"
  by (simp add: pm_list_def)

lemma pm_list_pm_del [simp]: "pm_list (pm_del k m) k' = (if k' = k then [] else pm_list m k')"
  by (simp add: pm_list_def)

lemma rs_lookup_record [simp]:
  "LookupCompleted (RecordCompleted p nr rs) q = (if q = p then Some nr else LookupCompleted rs q)"
  "LookupBranch (RecordBranch p w rs) q = (if q = p then Some w else LookupBranch rs q)"
  "LookupLoopIters (RecordLoopIter p k rs) q = (if q = p then k else LookupLoopIters rs q)"
  "LookupGateAttempts (RecordGateAttempt p ar rs) q
     = (if q = p then LookupGateAttempts rs p @ [ar] else LookupGateAttempts rs q)"
  by (simp_all add: LookupCompleted_def RecordCompleted_def LookupBranch_def RecordBranch_def
      LookupLoopIters_def RecordLoopIter_def LookupGateAttempts_def RecordGateAttempt_def)

subsection \<open>Facts about folding\<close>

lemma foldEvents_append:
  "foldEvents r (es @ fs) st = rbind (foldEvents r es st) (foldEvents r fs)"
proof (induction es arbitrary: st)
  case (Cons e es)
  then show ?case by (cases "foldEvent r e st") simp_all
qed simp

lemma Fold_log_Inr:
  "Fold_log r es = Inr rs \<Longrightarrow> es \<noteq> [] \<Longrightarrow>
     event_type (jData (hd es)) = ''run.started'' \<and> (\<exists>b. foldEvents r es (False, zero_state) = Inr (b, rs))"
  by (auto simp: Fold_log_def split: if_splits)

lemma foldEvent_seen:
  "foldEvent r e (b, rs) = Inr (b', rs') \<Longrightarrow>
     (b' \<longleftrightarrow> b \<or> event_type (jData e) = ''run.started'' \<and> (\<exists>d. jData e = RunStarted d))
     \<and> (event_type (jData e) = ''run.started'' \<longrightarrow> \<not> b \<and> (\<exists>d. jData e = RunStarted d) \<or> (\<exists>t. jData e = OtherEvent t))"
  by (cases "jData e") (auto simp: foldEvent_def Let_def parsed_types_def split: if_splits)

text \<open>How one event changes what is committed at a path.\<close>

definition commit_effect :: "string \<Rightarrow> jevent \<Rightarrow> node_completed_data option option" where
  "commit_effect p e =
     (case jData e of
        NodeCompleted d \<Rightarrow> if jPath e = p then Some (Some d) else None
      | NodeInvalidated ps \<Rightarrow> if p \<in> set ps then Some None else None
      | _ \<Rightarrow> None)"

text \<open>The specification: the last event that concerns the path decides.\<close>

fun last_commit :: "string \<Rightarrow> jevent list \<Rightarrow> node_completed_data option" where
  "last_commit p [] = None"
| "last_commit p (e # es) =
     (if \<exists>f \<in> set es. commit_effect p f \<noteq> None then last_commit p es
      else case commit_effect p e of Some c \<Rightarrow> c | None \<Rightarrow> None)"

definition matches :: "node_result \<Rightarrow> node_completed_data \<Rightarrow> bool" where
  "matches nr d \<longleftrightarrow> nr_Outcome nr = OutcomeOK \<and> nr_ExitCode nr = nc_ExitCode d
     \<and> nr_OutputsRef nr = nc_OutputsRef d \<and> nr_StdoutRef nr = nc_StdoutRef d \<and> nr_Files nr = nc_Files d
     \<and> nr_NodeKey nr = nc_NodeKey d \<and> nr_SubtreeDigest nr = nc_SubtreeDigest d"

definition committed_as :: "run_state \<Rightarrow> string \<Rightarrow> node_completed_data option \<Rightarrow> bool" where
  "committed_as rs p c \<longleftrightarrow>
     (case c of
        None \<Rightarrow> map_of (Completed rs) p = None
      | Some d \<Rightarrow> \<exists>nr. map_of (Completed rs) p = Some nr \<and> matches nr d)"

lemma clear_path_Completed: "Completed (clear_path q rs) = pm_del q (Completed rs)"
  by (simp add: clear_path_def)

lemma clearInvalidatedPaths_Completed:
  "map_of (Completed (clearInvalidatedPaths ps rs)) p = (if p \<in> set ps then None else map_of (Completed rs) p)"
  by (induction ps arbitrary: rs) (auto simp: clearInvalidatedPaths_def clear_path_Completed)

lemma foldNodeCompleted_Inr:
  "foldNodeCompleted r path d rs = Inr rs' \<longleftrightarrow>
     ParseOutcome (nc_Outcome d) = Inr OutcomeOK \<and>
     (\<exists>outs out turn. read_map r (nc_OutputsRef d) = Inr outs \<and> read_bytes r (nc_StdoutRef d) = Inr out
        \<and> read_turn r (nc_TranscriptRef d) = Inr turn \<and> rs' = store_commit path d (result_of d outs out turn) rs)"
  by (auto simp: foldNodeCompleted_def split: sum.splits if_splits)

lemma foldNodeCompleted_Completed:
  assumes "foldNodeCompleted r path d rs = Inr rs'"
  shows "\<exists>nr. map_of (Completed rs') = (map_of (Completed rs))(path \<mapsto> nr) \<and> matches nr d"
proof -
  from assms obtain outs out turn where "rs' = store_commit path d (result_of d outs out turn) rs"
    by (auto simp: foldNodeCompleted_Inr)
  then show ?thesis
    by (intro exI [of _ "result_of d outs out turn"]) (simp add: store_commit_def result_of_def matches_def)
qed

lemma foldCallStarted_Inr:
  assumes "foldCallStarted r path d rs = Inr rs'"
  obtains c where "rs' = RecordCallStarted path c rs"
proof -
  from assms obtain raw v where "(case v of VObject kvs \<Rightarrow>
       Inr (rs\<lparr>CallStarted := pm_put path \<lparr>ca_Input = kvs, ca_InputRef = cd_InputRef d,
                     ca_InputFiles = cd_InputFiles d, ca_Runtimes = cd_Runtimes d\<rparr> (CallStarted rs)\<rparr>)
       | _ \<Rightarrow> Inl (BlobParse (cd_InputRef d))) = Inr rs'"
    by (auto simp: foldCallStarted_def)
  then show ?thesis by (cases v) (auto simp: RecordCallStarted_def intro: that)
qed

lemma fold_frontier_Completed:
  "Completed (fold (\<lambda>d rs. rs\<lparr>MapItems := pm_append path (frontier_record d) (MapItems rs)\<rparr>) ds rs) = Completed rs"
  by (induction ds arbitrary: rs) simp_all

lemma foldEvent_commit:
  assumes "foldEvent r e (b, rs) = Inr (b', rs')"
  shows "case commit_effect p e of
     None \<Rightarrow> map_of (Completed rs') p = map_of (Completed rs) p
   | Some c \<Rightarrow> committed_as rs' p c"
proof (cases "jData e")
  case (NodeCompleted d)
  with assms have "foldNodeCompleted r (jPath e) d rs = Inr rs'" by (auto simp: foldEvent_def)
  from foldNodeCompleted_Completed [OF this] NodeCompleted show ?thesis
    by (auto simp: commit_effect_def committed_as_def)
next
  case (NodeInvalidated ps)
  with assms have "rs' = clearInvalidatedPaths ps rs" by (auto simp: foldEvent_def)
  with NodeInvalidated show ?thesis
    by (simp add: commit_effect_def committed_as_def clearInvalidatedPaths_Completed)
next
  case (CallStartedEv d)
  with assms obtain c where "rs' = RecordCallStarted (jPath e) c rs"
    by (auto simp: foldEvent_def Let_def split: if_splits elim!: foldCallStarted_Inr)
  with CallStartedEv show ?thesis by (simp add: commit_effect_def RecordCallStarted_def)
qed (use assms in \<open>auto simp: foldEvent_def commit_effect_def foldRunStarted_def
      foldGateAttempt_def foldSkills_def foldSignal_def RecordBranch_def RecordLoopIter_def
      RecordReactRound_def RecordMapItem_def SetCancelled_def fold_frontier_Completed Let_def
      split: if_splits\<close>)

lemma foldEvents_commit:
  "foldEvents r es (b, rs) = Inr (b', rs') \<Longrightarrow>
   (if \<exists>f \<in> set es. commit_effect p f \<noteq> None then committed_as rs' p (last_commit p es)
    else map_of (Completed rs') p = map_of (Completed rs) p)"
proof (induction es arbitrary: b rs)
  case (Cons e es)
  then obtain b1 rs1 where one: "foldEvent r e (b, rs) = Inr (b1, rs1)"
    and rest: "foldEvents r es (b1, rs1) = Inr (b', rs')" by auto
  from Cons.IH [OF rest] foldEvent_commit [OF one, of p] show ?case
    by (auto simp: committed_as_def split: if_splits option.splits)
qed simp

lemma fold_last_commit:
  assumes "Fold_log r es = Inr rs" and "es \<noteq> []"
  shows "committed_as rs p (last_commit p es)"
proof -
  from Fold_log_Inr [OF assms] obtain b where f: "foldEvents r es (False, zero_state) = Inr (b, rs)" by blast
  have "last_commit p es = None" if "\<not> (\<exists>f \<in> set es. commit_effect p f \<noteq> None)"
    using that by (cases es) auto
  with foldEvents_commit [OF f, of p] show ?thesis
    by (auto simp: committed_as_def zero_state_def split: if_splits)
qed

lemma fold_prefix:
  assumes "Fold_log r (es @ fs) = Inr rs"
  shows "\<exists>rs'. Fold_log r es = Inr rs'"
proof (cases "es = []")
  case True
  then show ?thesis by (simp add: Fold_log_def)
next
  case False
  with assms have "event_type (jData (hd es)) = ''run.started''"
    and "\<exists>st. foldEvents r es (False, zero_state) = Inr st"
    using Fold_log_Inr [OF assms] by (auto simp: foldEvents_append)
  with False show ?thesis by (auto simp: Fold_log_def)
qed

subsection \<open>Properties\<close>

text \<open>
  C5: What a run has committed is decided by its journal alone: after a fold, a path is completed
  iff the last event that concerns it is a \<open>node.completed\<close> there and not a later
  \<open>node.invalidated\<close> naming it, and the result carries exactly the exit code, references, files
  and keys of that event, with outcome ok.
\<close>

theorem fold_last_commit_wins:
  assumes "Fold_log r es = Inr rs" and "es \<noteq> []"
  shows "committed_as rs p (last_commit p es)"
  using assms by (rule fold_last_commit)

text \<open>
  A journal that folds still folds when its tail is lost: every prefix of a foldable journal is
  foldable, so a crash that keeps only a prefix leaves a resumable run.
\<close>

lemma fold_prefix_closed:
  assumes "Fold_log r (es @ fs) = Inr rs"
  shows "\<exists>rs'. Fold_log r es = Inr rs'"
  using assms by (rule fold_prefix)

text \<open>\<open>OtherEvent\<close> stands for the types \<open>Fold\<close> has no case for.\<close>

definition typed :: "jevent \<Rightarrow> bool" where
  "typed e = (case jData e of OtherEvent t \<Rightarrow> t \<notin> set parsed_types | _ \<Rightarrow> True)"

lemma foldEvent_checks:
  assumes "foldEvent r e (b, rs) = Inr (b', rs')" and "typed e"
  shows "(event_type (jData e) = ''run.started'' \<longrightarrow> \<not> b \<and> b') \<and> (b \<longrightarrow> b')
     \<and> (\<forall>d. jData e = NodeCompleted d \<longrightarrow> nc_Outcome d = ''ok'')
     \<and> (\<forall>t \<in> set parsed_types. jData e \<noteq> Malformed t)"
  using assms
  by (cases "jData e")
    (auto simp: foldEvent_def typed_def foldNodeCompleted_Inr parsed_types_def ParseOutcome_def Let_def
      split: if_splits)

lemma foldEvents_checks:
  "foldEvents r es (b, rs) = Inr (b', rs') \<Longrightarrow> list_all typed es \<Longrightarrow>
   length (filter (\<lambda>e. event_type (jData e) = ''run.started'') es) \<le> (if b then 0 else 1)
   \<and> (\<forall>e \<in> set es. (\<forall>d. jData e = NodeCompleted d \<longrightarrow> nc_Outcome d = ''ok'')
        \<and> (\<forall>t \<in> set parsed_types. jData e \<noteq> Malformed t))"
proof (induction es arbitrary: b rs)
  case (Cons e es)
  then obtain b1 rs1 where one: "foldEvent r e (b, rs) = Inr (b1, rs1)"
    and rest: "foldEvents r es (b1, rs1) = Inr (b', rs')" by auto
  from Cons.prems(2) have t: "typed e" "list_all typed es" by simp_all
  from Cons.IH [OF rest t(2)] foldEvent_checks [OF one t(1)] show ?case
    by (auto split: if_splits)
qed simp

text \<open>
  C29: \<open>Fold\<close> accepts only well-formed journals: the first event is the only \<open>run.started\<close>, every
  \<open>node.completed\<close> has outcome ok, and no payload it reads is malformed.
\<close>

theorem fold_accepts_only_wellformed:
  assumes "Fold_log r es = Inr rs" and "es \<noteq> []" and "list_all typed es"
  shows "filter (\<lambda>e. event_type (jData e) = ''run.started'') es = [hd es]
     \<and> (\<forall>e \<in> set es. (\<forall>d. jData e = NodeCompleted d \<longrightarrow> nc_Outcome d = ''ok'')
          \<and> (\<forall>t \<in> set parsed_types. jData e \<noteq> Malformed t))"
proof -
  from Fold_log_Inr [OF assms(1,2)] obtain b where hd: "event_type (jData (hd es)) = ''run.started''"
    and f: "foldEvents r es (False, zero_state) = Inr (b, rs)" by blast
  from foldEvents_checks [OF f assms(3)]
  have le: "length (filter (\<lambda>e. event_type (jData e) = ''run.started'') es) \<le> 1"
    and rest: "\<forall>e \<in> set es. (\<forall>d. jData e = NodeCompleted d \<longrightarrow> nc_Outcome d = ''ok'')
          \<and> (\<forall>t \<in> set parsed_types. jData e \<noteq> Malformed t)" by simp_all
  from assms(2) hd le have "filter (\<lambda>e. event_type (jData e) = ''run.started'') es = [hd es]"
    by (cases es) auto
  with rest show ?thesis by blast
qed

text \<open>
  A map's records stay one per item: recording an item replaces the record with its number and
  leaves the others in place and in order.
\<close>

lemma record_map_item_upserts:
  assumes "distinct (map mi_N (LookupMapItems rs p))"
  shows "distinct (map mi_N (LookupMapItems (RecordMapItem p mr rs) p))
     \<and> find (\<lambda>x. mi_N x = mi_N mr) (LookupMapItems (RecordMapItem p mr rs) p) = Some mr
     \<and> filter (\<lambda>x. mi_N x \<noteq> mi_N mr) (LookupMapItems (RecordMapItem p mr rs) p)
         = filter (\<lambda>x. mi_N x \<noteq> mi_N mr) (LookupMapItems rs p)
     \<and> (\<forall>q. q \<noteq> p \<longrightarrow> LookupMapItems (RecordMapItem p mr rs) q = LookupMapItems rs q)"
proof -
  have "mi_N ` set (upsert_item mr xs) = insert (mi_N mr) (mi_N ` set xs)" for xs
    by (induction xs) auto
  then have "distinct (map mi_N xs) \<Longrightarrow> distinct (map mi_N (upsert_item mr xs))" for xs
    by (induction xs) auto
  moreover have "find (\<lambda>x. mi_N x = mi_N mr) (upsert_item mr xs) = Some mr" for xs
    by (induction xs) auto
  moreover have "filter (\<lambda>x. mi_N x \<noteq> mi_N mr) (upsert_item mr xs) = filter (\<lambda>x. mi_N x \<noteq> mi_N mr) xs" for xs
    by (induction xs) auto
  ultimately show ?thesis using assms by (simp add: LookupMapItems_def RecordMapItem_def)
qed

subsection \<open>Witnesses\<close>

definition demo_readers :: readers where
  "demo_readers = \<lparr>rd_get = (\<lambda>_. Inl ErrNotExist), rd_map = (\<lambda>_. None), rd_turn = (\<lambda>_. None)\<rparr>"

definition demo_started :: jevent where
  "demo_started = \<lparr>jPath = [], jData = RunStarted \<lparr>sd_RunID = ''r'', sd_WorkflowDigest = ''w'',
     sd_StructuralDigest = [], sd_InputRef = [], sd_Assets = [], sd_InputFiles = []\<rparr>\<rparr>"

definition demo_commit :: "string \<Rightarrow> jevent" where
  "demo_commit p = \<lparr>jPath = p, jData = NodeCompleted \<lparr>nc_Outcome = ''ok'', nc_ExitCode = Some 0, nc_OutputsRef = [],
     nc_StdoutRef = [], nc_Files = [], nc_SnapshotRef = [], nc_Container = [], nc_TranscriptRef = [],
     nc_NodeKey = [], nc_SubtreeDigest = [], nc_SessionRef = []\<rparr>\<rparr>"

definition demo_log :: "jevent list" where
  "demo_log = [demo_started, demo_commit ''a'', demo_commit ''b'', \<lparr>jPath = [], jData = NodeInvalidated [''b'']\<rparr>]"

lemma demo_log_folds: "\<exists>rs. Fold_log demo_readers demo_log = Inr rs"
  by (simp add: demo_log_def demo_started_def demo_commit_def Fold_log_def foldEvent_def foldRunStarted_def
      foldNodeCompleted_def ParseOutcome_def read_map_def read_bytes_def read_turn_def Let_def)

theorem fold_last_commit_wins_witness:
  "\<exists>rs. Fold_log demo_readers demo_log = Inr rs \<and> map_of (Completed rs) ''a'' \<noteq> None
     \<and> map_of (Completed rs) ''b'' = None"
proof -
  obtain rs where rs: "Fold_log demo_readers demo_log = Inr rs" using demo_log_folds by blast
  have "demo_log \<noteq> []" by (simp add: demo_log_def)
  from fold_last_commit_wins [OF rs this, of "''a''"] fold_last_commit_wins [OF rs this, of "''b''"] rs
  show ?thesis
    by (auto simp: demo_log_def demo_started_def demo_commit_def commit_effect_def committed_as_def)
qed

lemma fold_prefix_closed_witness:
  "\<exists>rs. Fold_log demo_readers [demo_started, demo_commit ''a''] = Inr rs"
  using demo_log_folds fold_prefix_closed [of demo_readers "[demo_started, demo_commit ''a'']" "drop 2 demo_log"]
  by (auto simp: demo_log_def)

theorem fold_accepts_only_wellformed_witness:
  "length (filter (\<lambda>e. event_type (jData e) = ''run.started'') demo_log) = 1"
proof -
  obtain rs where rs: "Fold_log demo_readers demo_log = Inr rs" using demo_log_folds by blast
  have "demo_log \<noteq> []" "list_all typed demo_log"
    by (simp_all add: demo_log_def typed_def demo_started_def demo_commit_def)
  from fold_accepts_only_wellformed [OF rs this] show ?thesis by simp
qed

lemma record_map_item_upserts_witness:
  "let mr = item_record \<lparr>md_N = 0, md_Status = ''item_passed'', md_ImageDigest = [], md_Reason = [],
         md_Outcome = ''ok'', md_Cause = []\<rparr>
   in distinct (map mi_N (LookupMapItems (RecordMapItem ''m'' mr (RecordMapItem ''m'' mr zero_state)) ''m''))"
  using record_map_item_upserts [of "RecordMapItem ''m'' mr zero_state" "''m''" mr for mr]
  by (simp add: Let_def LookupMapItems_def RecordMapItem_def zero_state_def pm_list_def)

end
