(* ===== verification/Rerun.thy ===== *)
theory Rerun
  imports Run_State
begin

text \<open>
  Choosing what to run again: src/engine/rerun.go (\<^verbatim>\<open>--from\<close>) and src/engine/verifytrace.go (resume
  after the workflow changed). Top-level nodes have slots in the order of the graph; invalidating
  from a target clears its subtree and everything committed under a later slot. The digest of a
  node's subtree (src/ir/digest.go) is a parameter.
\<close>

subsection \<open>Targets and slots\<close>

definition rerunFirstSegment :: "string \<Rightarrow> string" where
  "rerunFirstSegment path = (case indexOf path ''.'' of Some i \<Rightarrow> take i path | None \<Rightarrow> path)"

text \<open>The top-level paths in the order \<open>WalkNodes\<close> visits them, numbered from 0.\<close>

definition top_paths :: "node list \<Rightarrow> string list" where
  "top_paths graph = filter (\<lambda>p. \<not> contains p ''.'') (map snd (WalkNodes 0 graph []))"

definition rerunRootSlots :: "node list \<Rightarrow> (string \<times> nat) list" where
  "rerunRootSlots graph = (let ps = top_paths graph in rev (zip ps [0..<length ps]))"

datatype rerun_error = NestedTarget string | UnknownTopLevel string | StructureChanged string
  | NoMatch | Ambiguous "string list"

fun nested_in :: "string list \<Rightarrow> string option" where
  "nested_in [] = None"
| "nested_in [s] = None"
| "nested_in (s # t # ss) = (if hasPrefix s ''parallel['' then nested_in (t # ss) else Some s)"

definition rerunSupported :: "string \<Rightarrow> rerun_error + unit" where
  "rerunSupported target =
     (case nested_in (splitDot target) of None \<Rightarrow> Inr () | Some s \<Rightarrow> Inl (NestedTarget s))"

definition allCommittedPaths :: "run_state \<Rightarrow> string list" where
  "allCommittedPaths rs =
     remdups (map fst (Completed rs) @ map fst (Branches rs) @ map fst (LoopIters rs)
       @ map fst (GateAttempts rs) @ map fst (ReactRounds rs) @ map fst (MapItems rs)
       @ map fst (CallStarted rs) @ map fst (SignalReceivedAt rs) @ map fst (SelectedSkills rs))"

fun lastFailedPath :: "jevent list \<Rightarrow> string" where
  "lastFailedPath [] = []"
| "lastFailedPath (e # es) =
     (let l = lastFailedPath es
      in if l \<noteq> [] then l else if event_type (jData e) = ''node.failed'' then jPath e else [])"

definition last_segment :: "string \<Rightarrow> string" where
  "last_segment p = last (splitDot p)"

definition ResolveRerunTarget ::
  "node list \<Rightarrow> run_state \<Rightarrow> jevent list \<Rightarrow> string \<Rightarrow> rerun_error + string" where
  "ResolveRerunTarget graph rs events arg =
     (let paths = allCommittedPaths rs; fp = lastFailedPath events
      in if arg \<in> set paths then Inr arg
         else if map_of (rerunRootSlots graph) arg \<noteq> None then Inr arg
         else if fp \<noteq> [] \<and> (arg = fp \<or> arg = last_segment fp) then Inr fp
         else let matches = slices_Sort (filter (\<lambda>p. last_segment p = arg) paths)
              in if length matches = 1 then Inr (hd matches)
                 else if matches = [] then Inl NoMatch
                 else Inl (Ambiguous matches))"

definition slot_of :: "node list \<Rightarrow> string \<Rightarrow> nat option" where
  "slot_of graph p = map_of (rerunRootSlots graph) (rerunFirstSegment p)"

definition in_subtree :: "string \<Rightarrow> string \<Rightarrow> bool" where
  "in_subtree target p = (p = target \<or> hasPrefix p (target @ ''.''))"

definition ComputeRerunInvalidation ::
  "node list \<Rightarrow> run_state \<Rightarrow> string \<Rightarrow> rerun_error + string list" where
  "ComputeRerunInvalidation graph rs target =
     rbind (rerunSupported target) (\<lambda>_.
       case slot_of graph target of
         None \<Rightarrow> Inl (UnknownTopLevel (rerunFirstSegment target))
       | Some tSlot \<Rightarrow>
           let committed = allCommittedPaths rs
           in case find (\<lambda>p. slot_of graph p = None) committed of
                Some p \<Rightarrow> Inl (StructureChanged p)
              | None \<Rightarrow>
                  Inr (slices_Sort (filter (\<lambda>p. in_subtree target p \<or> tSlot < the (slot_of graph p)) committed)))"

subsection \<open>The verifying trace\<close>

definition reusable :: "(node \<Rightarrow> string option) \<Rightarrow> node list \<Rightarrow> run_state \<Rightarrow> string \<Rightarrow> bool" where
  "reusable subtreeDigest graph rs p =
     (is_ok (rerunSupported p) \<and>
      (case map_of (rev (map (\<lambda>(n, q). (q, n)) (WalkNodes 0 graph []))) p of
         None \<Rightarrow> False
       | Some n \<Rightarrow>
           isDeterministicNode n \<and>
           (case map_of (Completed rs) p of
              None \<Rightarrow> False
            | Some nr \<Rightarrow> nr_SubtreeDigest nr \<noteq> [] \<and> subtreeDigest n = Some (nr_SubtreeDigest nr))))"

text \<open>The loop over the committed paths: the least slot of a path that cannot be reused.\<close>

definition better :: "nat \<Rightarrow> string \<Rightarrow> (nat \<times> string) option \<Rightarrow> nat \<times> string" where
  "better slot seg best =
     (case best of None \<Rightarrow> (slot, seg) | Some (b, s) \<Rightarrow> if slot < b then (slot, seg) else (b, s))"

fun bestSlot :: "node list \<Rightarrow> string list \<Rightarrow> (nat \<times> string) option \<Rightarrow> (nat \<times> string) option" where
  "bestSlot graph [] best = best"
| "bestSlot graph (p # ps) best =
     bestSlot graph ps (Some (better (the (slot_of graph p)) (rerunFirstSegment p) best))"

definition ComputeVerifyingTraceTarget ::
  "(node \<Rightarrow> string option) \<Rightarrow> node list \<Rightarrow> run_state \<Rightarrow> rerun_error + string" where
  "ComputeVerifyingTraceTarget subtreeDigest graph rs =
     (let committed = allCommittedPaths rs
      in case find (\<lambda>p. slot_of graph p = None) committed of
           Some p \<Rightarrow> Inl (StructureChanged p)
         | None \<Rightarrow>
             (case bestSlot graph (filter (\<lambda>p. \<not> reusable subtreeDigest graph rs p) committed) None of
                None \<Rightarrow> Inr []
              | Some (_, seg) \<Rightarrow> Inr seg))"

subsection \<open>Facts\<close>

lemma indexOf_dot: "indexOf p ''.'' = (if CHR ''.'' \<in> set p then Some (length (takeWhile (\<lambda>c. c \<noteq> CHR ''.'') p)) else None)"
proof (induction p)
  case (Cons c p)
  then show ?case by (subst indexOf.simps) (auto simp: hasPrefix_def)
next
  case Nil
  show ?case by (subst indexOf.simps) (simp add: hasPrefix_def)
qed

lemma rerunFirstSegment_takeWhile: "rerunFirstSegment p = takeWhile (\<lambda>c. c \<noteq> CHR ''.'') p"
proof (cases "CHR ''.'' \<in> set p")
  case True
  then show ?thesis
    by (simp add: rerunFirstSegment_def indexOf_dot) (metis takeWhile_eq_take)
next
  case False
  then have "takeWhile (\<lambda>c. c \<noteq> CHR ''.'') p = p" by (auto simp: takeWhile_eq_all_conv)
  moreover have "rerunFirstSegment p = p" using False by (simp add: rerunFirstSegment_def indexOf_dot)
  ultimately show ?thesis by (metis)
qed

lemma first_segment_no_dot: "CHR ''.'' \<notin> set (rerunFirstSegment p)"
  by (auto simp: rerunFirstSegment_takeWhile dest: set_takeWhileD)

lemma first_segment_idem [simp]: "rerunFirstSegment (rerunFirstSegment p) = rerunFirstSegment p"
  by (simp add: rerunFirstSegment_takeWhile)

lemma in_subtree_first: "in_subtree target p \<Longrightarrow> rerunFirstSegment p = rerunFirstSegment target"
  by (auto simp: in_subtree_def hasPrefix_iff rerunFirstSegment_takeWhile takeWhile_append
      takeWhile_eq_all_conv [THEN iffD2])

lemma rerunSupported_segment: "CHR ''.'' \<notin> set s \<Longrightarrow> rerunSupported s = Inr ()"
  by (simp add: rerunSupported_def splitDot_no_dot)

lemma find_None_all: "find P xs = None \<longleftrightarrow> (\<forall>x \<in> set xs. \<not> P x)"
  by (induction xs) auto

lemma set_fst_pm_del: "fst ` set (pm_del k m) = fst ` set m - {k}"
  by (force simp: pm_del_def)

lemma clear_committed:
  "set (allCommittedPaths (clearInvalidatedPaths ps rs)) = set (allCommittedPaths rs) - set ps"
proof (induction ps arbitrary: rs)
  case (Cons p ps)
  have "set (allCommittedPaths (clear_path p rs)) = set (allCommittedPaths rs) - {p}"
    by (auto simp: allCommittedPaths_def clear_path_def set_fst_pm_del)
  with Cons show ?case by (auto simp: clearInvalidatedPaths_def)
qed (simp add: clearInvalidatedPaths_def)

lemma bestSlot_spec:
  assumes "\<forall>p \<in> set ps. slot_of graph p \<noteq> None"
  shows "case bestSlot graph ps best of
     None \<Rightarrow> ps = [] \<and> best = None
   | Some (b, s) \<Rightarrow> (\<forall>p \<in> set ps. b \<le> the (slot_of graph p)) \<and> (\<forall>b' s'. best = Some (b', s') \<longrightarrow> b \<le> b')
       \<and> (best = Some (b, s) \<or> (\<exists>p \<in> set ps. s = rerunFirstSegment p \<and> slot_of graph p = Some b))"
  using assms
proof (induction ps arbitrary: best)
  case Nil
  then show ?case by (auto split: option.splits)
next
  case (Cons p ps)
  define best' where "best' = better (the (slot_of graph p)) (rerunFirstSegment p) best"
  obtain slot where p: "slot_of graph p = Some slot" using Cons.prems by auto
  from Cons.IH [of "Some best'"] Cons.prems obtain b s where r: "bestSlot graph ps (Some best') = Some (b, s)"
    and ih: "\<forall>q \<in> set ps. b \<le> the (slot_of graph q)" "b \<le> fst best'"
      "best' = (b, s) \<or> (\<exists>q \<in> set ps. s = rerunFirstSegment q \<and> slot_of graph q = Some b)"
    by (cases best') (auto split: option.splits)
  have "fst best' \<le> slot" "\<forall>b' s'. best = Some (b', s') \<longrightarrow> fst best' \<le> b'"
    "best = Some best' \<or> best' = (slot, rerunFirstSegment p)"
    by (auto simp: best'_def p better_def split: option.splits)
  moreover have step: "bestSlot graph (p # ps) best = Some (b, s)" using r by (simp add: best'_def)
  ultimately show ?case using ih p unfolding step by fastforce
qed

subsection \<open>Properties\<close>

lemma rerun_exact:
  assumes "ComputeRerunInvalidation graph rs target = Inr paths"
  shows "set paths \<subseteq> set (allCommittedPaths rs)
     \<and> set (allCommittedPaths (clearInvalidatedPaths paths rs))
       = {p \<in> set (allCommittedPaths rs).
            \<not> in_subtree target p \<and> the (slot_of graph p) \<le> the (slot_of graph target)}
     \<and> (\<forall>p \<in> set (allCommittedPaths rs). slot_of graph p \<noteq> None)"
  using assms
  by (auto simp: ComputeRerunInvalidation_def clear_committed find_None_all Let_def not_less
      split: option.splits)

text \<open>
  C35: Rerunning from a target clears exactly what depends on it by position. When
  \<open>ComputeRerunInvalidation\<close> accepts a target, the committed paths left after clearing are those
  outside the target's subtree whose top-level node is not after the target's; nothing earlier is
  lost and nothing later survives.
\<close>

theorem rerun_invalidation_exact:
  assumes "ComputeRerunInvalidation graph rs target = Inr paths"
  shows "set paths \<subseteq> set (allCommittedPaths rs)
     \<and> set (allCommittedPaths (clearInvalidatedPaths paths rs))
       = {p \<in> set (allCommittedPaths rs).
            \<not> in_subtree target p \<and> the (slot_of graph p) \<le> the (slot_of graph target)}
     \<and> (\<forall>p \<in> set (allCommittedPaths rs). slot_of graph p \<noteq> None)"
  by (rule rerun_exact [OF assms])

lemma trace_slots:
  "ComputeVerifyingTraceTarget dig graph rs = Inr seg \<Longrightarrow> \<forall>p \<in> set (allCommittedPaths rs). slot_of graph p \<noteq> None"
  by (auto simp: ComputeVerifyingTraceTarget_def find_None_all Let_def split: option.splits)

lemma slot_of_segment: "slot_of graph (rerunFirstSegment p) = slot_of graph p"
  by (simp add: slot_of_def)

lemma slot_top_path:
  "map_of (rerunRootSlots graph) x = Some k \<Longrightarrow> k < length (top_paths graph) \<and> top_paths graph ! k = x"
  by (auto simp: rerunRootSlots_def Let_def in_set_zip dest!: map_of_SomeD)

lemma same_slot_segment:
  "slot_of graph p = Some k \<Longrightarrow> slot_of graph q = Some k \<Longrightarrow> rerunFirstSegment p = rerunFirstSegment q"
  unfolding slot_of_def using slot_top_path by metis

lemma PathFor_never_Nil: "PathFor parent k sid i \<noteq> []"
  by (simp add: PathFor_def bracketed_def Let_def)

lemma walk_not_Nil:
  "(m, p) \<in> set (WalkNodes i ns parent) \<Longrightarrow> p \<noteq> []"
  "(m, p) \<in> set (walkNode i n parent) \<Longrightarrow> p \<noteq> []"
  by (induction i ns parent and i n parent rule: WalkNodes_walkNode.induct)
    (auto simp: PathFor_never_Nil PathFor_never_Nil [THEN not_sym])

lemma slot_segment_not_Nil: "slot_of graph p = Some k \<Longrightarrow> rerunFirstSegment p \<noteq> []"
proof -
  assume "slot_of graph p = Some k"
  with slot_top_path have "rerunFirstSegment p \<in> set (top_paths graph)"
    unfolding slot_of_def by (metis nth_mem)
  then show ?thesis using walk_not_Nil(1) by (fastforce simp: top_paths_def)
qed

lemma in_subtree_segment: "in_subtree (rerunFirstSegment p) p"
proof (cases "CHR ''.'' \<in> set p")
  case True
  let ?t = "takeWhile (\<lambda>c. c \<noteq> CHR ''.'') p" and ?d = "dropWhile (\<lambda>c. c \<noteq> CHR ''.'') p"
  have "?d \<noteq> []" "hd ?d = CHR ''.''" using True hd_dropWhile [of "\<lambda>c. c \<noteq> CHR ''.''" p]
    by (auto simp: dropWhile_eq_Nil_conv)
  then have "p = ?t @ ''.'' @ tl ?d" by (metis append_Cons append_Nil list.collapse takeWhile_dropWhile_id)
  then show ?thesis unfolding in_subtree_def rerunFirstSegment_takeWhile hasPrefix_iff by (metis append.assoc)
next
  case False
  then show ?thesis by (simp add: in_subtree_def rerunFirstSegment_def indexOf_dot)
qed

text \<open>
  C36: The verifying trace keeps only unchanged work. If it answers with no target, every committed
  path is a code step whose subtree digest is unchanged; if it answers with a top-level node, the
  rerun it asks for is accepted, and everything still committed after clearing from it is an
  unchanged code step.
\<close>

theorem verifying_trace_sound:
  assumes "ComputeVerifyingTraceTarget dig graph rs = Inr seg"
  shows "if seg = [] then (\<forall>p \<in> set (allCommittedPaths rs). reusable dig graph rs p)
     else (case ComputeRerunInvalidation graph rs seg of
             Inl _ \<Rightarrow> False
           | Inr paths \<Rightarrow> (\<forall>p \<in> set (allCommittedPaths (clearInvalidatedPaths paths rs)). reusable dig graph rs p))"
proof -
  let ?bad = "filter (\<lambda>p. \<not> reusable dig graph rs p) (allCommittedPaths rs)"
  note slots = trace_slots [OF assms]
  have bad_slots: "\<forall>p \<in> set ?bad. slot_of graph p \<noteq> None" using slots by simp
  have seg: "(case bestSlot graph ?bad None of None \<Rightarrow> [] | Some (_, s) \<Rightarrow> s) = seg"
    using assms by (auto simp: ComputeVerifyingTraceTarget_def Let_def split: option.splits)
  show ?thesis
  proof (cases "bestSlot graph ?bad None")
    case None
    with bestSlot_spec [OF bad_slots, of None] have "?bad = []" by simp
    with None seg show ?thesis by (auto simp: filter_empty_conv)
  next
    case (Some bs)
    obtain b s where bs: "bs = (b, s)" by (cases bs)
    with bestSlot_spec [OF bad_slots, of None] Some obtain p where p: "p \<in> set ?bad"
      and s: "s = rerunFirstSegment p" "slot_of graph p = Some b" and least: "\<forall>q \<in> set ?bad. b \<le> the (slot_of graph q)"
      by auto
    have sseg: "seg = rerunFirstSegment p" using seg Some bs s by simp
    have sl: "slot_of graph seg = Some b" using s sseg by (simp add: slot_of_segment)
    have sup: "rerunSupported seg = Inr ()" using sseg rerunSupported_segment first_segment_no_dot by simp
    have nf: "find (\<lambda>p. slot_of graph p = None) (allCommittedPaths rs) = None"
      using slots by (simp add: find_None_all)
    then obtain paths where inval: "ComputeRerunInvalidation graph rs seg = Inr paths"
      using sl sup by (auto simp: ComputeRerunInvalidation_def Let_def)
    have "reusable dig graph rs q" if q: "q \<in> set (allCommittedPaths (clearInvalidatedPaths paths rs))" for q
    proof (rule ccontr)
      assume nr: "\<not> reusable dig graph rs q"
      have qc: "q \<in> set (allCommittedPaths rs)" "\<not> in_subtree seg q" "the (slot_of graph q) \<le> b"
        using rerun_exact [OF inval] q sl by auto
      have "b \<le> the (slot_of graph q)" using least nr qc(1) by simp
      with qc(3) have "the (slot_of graph q) = b" by simp
      then have "slot_of graph q = Some b" using slots qc(1) by (metis option.collapse)
      with s have "rerunFirstSegment q = seg" using same_slot_segment sseg by blast
      with in_subtree_segment [of q] qc(2) show False by simp
    qed
    moreover have "seg \<noteq> []" using slot_segment_not_Nil [OF s(2)] sseg by simp
    ultimately show ?thesis using inval by simp
  qed
qed

lemma lastFailedPath_in: "lastFailedPath es \<noteq> [] \<Longrightarrow>
   \<exists>e \<in> set es. event_type (jData e) = ''node.failed'' \<and> jPath e = lastFailedPath es"
  by (induction es) (auto simp: Let_def split: if_splits)

text \<open>
  A target name resolves to something that exists: \<open>ResolveRerunTarget\<close> answers with a committed
  path, a top-level node or the last failed path, whose full path or last segment is the argument;
  an argument that is the last segment of two committed paths, and nothing more specific, is
  refused as ambiguous with both names.
\<close>

lemma resolve_target_exists:
  "case ResolveRerunTarget graph rs events arg of
     Inr p \<Rightarrow> (p = arg \<or> last_segment p = arg)
        \<and> (p \<in> set (allCommittedPaths rs) \<or> map_of (rerunRootSlots graph) p \<noteq> None
           \<or> (\<exists>e \<in> set events. event_type (jData e) = ''node.failed'' \<and> jPath e = p))
   | Inl err \<Rightarrow> arg \<notin> set (allCommittedPaths rs)
        \<and> (case err of
             NoMatch \<Rightarrow> (\<forall>p \<in> set (allCommittedPaths rs). last_segment p \<noteq> arg)
           | Ambiguous ps \<Rightarrow> 2 \<le> length ps \<and> set ps = {p \<in> set (allCommittedPaths rs). last_segment p = arg}
           | _ \<Rightarrow> False)"
proof -
  let ?m = "slices_Sort (filter (\<lambda>p. last_segment p = arg) (allCommittedPaths rs))"
  have one: "\<exists>p. ?m = [p] \<and> p \<in> set (allCommittedPaths rs) \<and> last_segment p = arg" if "length ?m = 1"
  proof -
    from that obtain p where "?m = [p]" by (auto simp: length_Suc_conv)
    moreover from this have "{p} = {x \<in> set (allCommittedPaths rs). last_segment x = arg}"
      using set_slices_Sort [of "filter (\<lambda>p. last_segment p = arg) (allCommittedPaths rs)"] by simp
    ultimately show ?thesis by blast
  qed
  have many: "2 \<le> length ?m" if "length ?m \<noteq> 1" "?m \<noteq> []"
    using that by (cases ?m) (auto simp: Suc_le_eq)
  have nil: "?m = [] \<Longrightarrow> \<forall>p \<in> set (allCommittedPaths rs). last_segment p \<noteq> arg"
    using set_slices_Sort [of "filter (\<lambda>p. last_segment p = arg) (allCommittedPaths rs)"] by auto
  have set: "set ?m = {p \<in> set (allCommittedPaths rs). last_segment p = arg}" by auto
  let ?fp = "lastFailedPath events"
  consider (committed) "arg \<in> set (allCommittedPaths rs)"
    | (root) "arg \<notin> set (allCommittedPaths rs)" "map_of (rerunRootSlots graph) arg \<noteq> None"
    | (failed) "arg \<notin> set (allCommittedPaths rs)" "map_of (rerunRootSlots graph) arg = None"
        "?fp \<noteq> [] \<and> (arg = ?fp \<or> arg = last_segment ?fp)"
    | (other) "arg \<notin> set (allCommittedPaths rs)" "map_of (rerunRootSlots graph) arg = None"
        "\<not> (?fp \<noteq> [] \<and> (arg = ?fp \<or> arg = last_segment ?fp))" by blast
  then show ?thesis
  proof cases
    case committed
    then show ?thesis by (simp add: ResolveRerunTarget_def Let_def)
  next
    case root
    then show ?thesis by (simp add: ResolveRerunTarget_def Let_def)
  next
    case failed
    then have "ResolveRerunTarget graph rs events arg = Inr ?fp" by (simp add: ResolveRerunTarget_def Let_def)
    then show ?thesis using failed(3) lastFailedPath_in [of events] by auto
  next
    case other
    have n2: "\<not> map_of (rerunRootSlots graph) arg \<noteq> None" using other(2) by simp
    have r: "ResolveRerunTarget graph rs events arg =
        (if length ?m = 1 then Inr (hd ?m) else if ?m = [] then Inl NoMatch else Inl (Ambiguous ?m))"
      unfolding ResolveRerunTarget_def Let_def if_not_P [OF other(1)] if_not_P [OF n2] if_not_P [OF other(3)]
      by (rule refl)
    show ?thesis
    proof (cases "length ?m = 1")
      case True
      from one [OF True] obtain p where m: "?m = [p]" and p: "p \<in> set (allCommittedPaths rs)" "last_segment p = arg"
        by blast
      have "ResolveRerunTarget graph rs events arg = Inr p" unfolding r m by simp
      then show ?thesis using p by simp
    next
      case False
      then have r': "ResolveRerunTarget graph rs events arg = Inl (if ?m = [] then NoMatch else Ambiguous ?m)"
        unfolding r by simp
      show ?thesis unfolding r' using nil many [OF False] set other(1) by (cases "?m = []") simp_all
    qed
  qed
qed

theorem rerun_invalidation_exact_witness:
  "let rs = RecordBranch ''b'' ''then'' (RecordBranch ''a'' ''then'' zero_state);
       g = [demo_step ''a'', demo_step ''b'']
   in set (allCommittedPaths (clearInvalidatedPaths [''b''] rs)) = {''a''}"
proof -
  let ?rs = "RecordBranch ''b'' ''then'' (RecordBranch ''a'' ''then'' zero_state)"
  let ?g = "[demo_step ''a'', demo_step ''b'']"
  have r: "ComputeRerunInvalidation ?g ?rs ''b'' = Inr [''b'']" by code_simp
  have s: "the (slot_of ?g ''a'') = 0" "the (slot_of ?g ''b'') = 1"
    "allCommittedPaths ?rs = [''b'', ''a'']" "in_subtree ''b'' ''b''" "\<not> in_subtree ''b'' ''a''" by code_simp+
  have "{p \<in> set (allCommittedPaths ?rs). \<not> in_subtree ''b'' p \<and> the (slot_of ?g p) \<le> the (slot_of ?g ''b'')} = {''a''}"
    unfolding s(3) using s(1,2,4,5) by (auto simp del: One_nat_def)
  with rerun_invalidation_exact [OF r, THEN conjunct2, THEN conjunct1] show ?thesis
    unfolding Let_def by (rule trans)
qed

theorem verifying_trace_sound_witness:
  "let rs = RecordBranch ''a'' ''then'' zero_state; g = [demo_step ''a'', demo_step ''b'']
   in ComputeVerifyingTraceTarget (\<lambda>_. None) g rs = Inr ''a''
      \<and> (case ComputeRerunInvalidation g rs ''a'' of Inl _ \<Rightarrow> False
         | Inr paths \<Rightarrow> (\<forall>p \<in> set (allCommittedPaths (clearInvalidatedPaths paths rs)). reusable (\<lambda>_. None) g rs p))"
proof -
  have r: "ComputeVerifyingTraceTarget (\<lambda>_. None) [demo_step ''a'', demo_step ''b''] (RecordBranch ''a'' ''then'' zero_state) = Inr ''a''"
    by code_simp
  from verifying_trace_sound [OF r] r show ?thesis by (simp add: Let_def)
qed

lemma resolve_target_exists_witness:
  "let rs = RecordBranch ''x.b'' ''then'' (RecordBranch ''y.b'' ''then'' zero_state)
   in \<exists>ps. ResolveRerunTarget [] rs [] ''b'' = Inl (Ambiguous ps) \<and> 2 \<le> length ps
        \<and> set ps = {p \<in> set (allCommittedPaths rs). last_segment p = ''b''}"
proof -
  let ?rs = "RecordBranch ''x.b'' ''then'' (RecordBranch ''y.b'' ''then'' zero_state)"
  have r: "ResolveRerunTarget [] ?rs [] ''b'' = Inl (Ambiguous [''x.b'', ''y.b''])" by code_simp
  from resolve_target_exists [where graph = "[]" and rs = ?rs and events = "[]" and arg = "''b''"] r show ?thesis by (simp add: Let_def)
qed

end
