(* ===== verification/Scope.thy ===== *)
theory Scope
  imports Run_State Template_Eval
begin

text \<open>
  What a reference means at a point of a run: src/engine/scope.go, src/engine/map_product_scope.go,
  src/engine/step_path_index.go, src/engine/artifact_scope.go, src/engine/artifact_refs.go,
  src/engine/reduce_scope.go, src/engine/signal_payload_scope.go and the shape test of
  src/ir/validate_refs.go. A scope is the run state, the runtime path of the reader and the
  workflow graph; it turns the static path of a step into the path its instance committed under
  and descends into the committed outputs. Error messages are not modelled, error codes are:
  \<open>EvalError\<close> is a coded error, \<open>OtherError\<close> one made by \<open>fmt.Errorf\<close>.
\<close>

subsection \<open>Indexes of the graph\<close>

definition StepPathIndex :: "node list \<Rightarrow> string pmap" where
  "StepPathIndex graph = fold (\<lambda>(n, path) out.
     case n of
       CodeStep v \<Rightarrow> pm_put (cs_ID v) path out
     | AgentStep v \<Rightarrow> pm_put (as_ID v) path out
     | SignalStep v \<Rightarrow> pm_put (ss_ID v) path out
     | CallStep v \<Rightarrow> pm_put (cl_ID v) path out
     | _ \<Rightarrow> out) (WalkNodes 0 graph []) []"

definition mapPathIndex :: "node list \<Rightarrow> (map_spec \<times> node list) pmap" where
  "mapPathIndex graph = fold (\<lambda>(n, path) out.
     case n of Map v body \<Rightarrow> pm_put path (v, body) out | _ \<Rightarrow> out) (WalkNodes 0 graph []) []"

definition callStepPathIndex :: "node list \<Rightarrow> string pmap" where
  "callStepPathIndex graph = fold (\<lambda>(n, path) out.
     case n of CallStep v \<Rightarrow> pm_put (cl_ID v) path out | _ \<Rightarrow> out) (WalkNodes 0 graph []) []"

definition PathForName :: "output_file list \<Rightarrow> string \<Rightarrow> string option" where
  "PathForName ofs name = map_option of_Path (find (\<lambda>e. of_Name e = name) ofs)"

definition OutputFilesByStepID :: "node list \<Rightarrow> output_file list pmap" where
  "OutputFilesByStepID graph = fold (\<lambda>(n, _) out.
     case n of
       CodeStep s \<Rightarrow> pm_put (cs_ID s) (cs_OutputFiles s) out
     | AgentStep s \<Rightarrow>
         pm_put (as_ID s)
           (if as_OutputArtifact s \<noteq> []
            then [\<lparr>of_Name = as_OutputArtifact s, of_Path = as_OutputArtifact s, of_Format = [],
                   of_Schema = None, of_SchemaRef = []\<rparr>]
            else as_OutputFiles s) out
     | Map m _ \<Rightarrow> (case mp_Reduce m of
                    Some r \<Rightarrow> if mp_ID m \<noteq> [] then pm_put (mp_ID m) (rd_OutputFiles r) out else out
                  | None \<Rightarrow> out)
     | _ \<Rightarrow> out) (WalkNodes 0 graph []) []"

text \<open>\<open>SingleMapBodyShape\<close>: the position of the last \<open>map[\<close> segment when it is the only one.\<close>

fun shape_scan :: "string list \<Rightarrow> nat \<Rightarrow> nat option \<Rightarrow> nat \<Rightarrow> (nat option \<times> nat) option" where
  "shape_scan [] i mapIdx mapCount = Some (mapIdx, mapCount)"
| "shape_scan (seg # segs) i mapIdx mapCount =
     (if hasPrefix seg ''map['' then shape_scan segs (Suc i) (Some i) (Suc mapCount)
      else if hasPrefix seg ''gate['' \<or> hasPrefix seg ''loop['' then None
      else shape_scan segs (Suc i) mapIdx mapCount)"

definition SingleMapBodyShape :: "string \<Rightarrow> (string \<times> string) option" where
  "SingleMapBodyShape staticPath =
     (let segs = splitDot staticPath
      in case shape_scan segs 0 None 0 of
           Some (Some mapIdx, mapCount) \<Rightarrow>
             if mapCount \<noteq> 1 \<or> mapIdx + 1 \<ge> length segs \<or> segs ! (mapIdx + 1) \<noteq> ''body'' then None
             else Some (joinDot (take (mapIdx + 1) segs), joinDot (drop (mapIdx + 2) segs))
         | _ \<Rightarrow> None)"

definition MapProductShape :: "string \<Rightarrow> bool" where
  "MapProductShape mapPath = (SingleMapBodyShape (mapPath @ ''.body.__product__'') \<noteq> None)"

definition appendSeg :: "string \<Rightarrow> string \<Rightarrow> string" where
  "appendSeg cur seg = (if cur = [] then seg else cur @ ''.'' @ seg)"

record map_product =
  mpr_mapPath :: string
  mpr_reduce :: bool
  mpr_finalBodyStaticPath :: string

definition mapProductIndex :: "node list \<Rightarrow> map_product pmap" where
  "mapProductIndex graph = fold (\<lambda>(n, path) out.
     case n of
       Map m body \<Rightarrow>
         if mp_ID m = [] \<or> \<not> MapProductShape path then out
         else if mp_Reduce m \<noteq> None
              then pm_put (mp_ID m) \<lparr>mpr_mapPath = path, mpr_reduce = True, mpr_finalBodyStaticPath = []\<rparr> out
         else (case MapCompactProducer body of
                 None \<Rightarrow> out
               | Some (suf, _) \<Rightarrow>
                   pm_put (mp_ID m) \<lparr>mpr_mapPath = path, mpr_reduce = False,
                     mpr_finalBodyStaticPath = appendSeg (appendSeg path ''body'') suf\<rparr> out)
     | _ \<Rightarrow> out) (WalkNodes 0 graph []) []"

subsection \<open>Descending into values\<close>

definition unresolved :: "eval_error + 'a" where
  "unresolved = evalErr EvalCodeRefUnresolved"

definition mustIdent :: "segment \<Rightarrow> eval_error + unit" where
  "mustIdent seg = (if IsIndex seg then unresolved else Inr ())"

definition descend :: "goval \<Rightarrow> segment \<Rightarrow> goval option" where
  "descend cur seg =
     (if IsIndex seg
      then (case cur of VArray arr \<Rightarrow> if Index seg \<ge> length arr then None else Some (arr ! Index seg) | _ \<Rightarrow> None)
      else (case cur of VObject kvs \<Rightarrow> map_of kvs (Ident seg) | _ \<Rightarrow> None))"

fun descendPath :: "goval \<Rightarrow> segment list \<Rightarrow> eval_error + goval" where
  "descendPath cur [] = Inr cur"
| "descendPath cur (seg # segs) =
     (case descend cur seg of None \<Rightarrow> unresolved | Some v \<Rightarrow> descendPath v segs)"

text \<open>A \<open>map[string]any\<close> that may be nil: read as a value it is an object, empty when nil.\<close>

definition map_nil :: "goval option \<Rightarrow> bool" where
  "map_nil m = (m = None \<or> m = Some VNil)"

definition map_value :: "goval option \<Rightarrow> goval" where
  "map_value m = (if map_nil m then VObject [] else the m)"

subsection \<open>Scopes\<close>

record scope_state =
  sc_rs :: run_state
  sc_ctxPath :: string
  sc_graph :: "node list"
  sc_verdict :: "goval option"
  sc_input :: "goval option"
  sc_inputFiles :: "string pmap option"
  sc_callSchemas :: "goval option pmap"

definition NewScope :: "run_state \<Rightarrow> node list \<Rightarrow> string \<Rightarrow> scope_state" where
  "NewScope rs graph ctxPath = \<lparr>sc_rs = rs, sc_ctxPath = ctxPath, sc_graph = graph, sc_verdict = None,
     sc_input = None, sc_inputFiles = None, sc_callSchemas = []\<rparr>"

definition NewScopeWithVerdict :: "run_state \<Rightarrow> node list \<Rightarrow> string \<Rightarrow> goval option \<Rightarrow> scope_state" where
  "NewScopeWithVerdict rs graph ctxPath v = (NewScope rs graph ctxPath)\<lparr>sc_verdict := v\<rparr>"

definition NewScopeWithInputAndFiles ::
  "run_state \<Rightarrow> node list \<Rightarrow> string \<Rightarrow> goval option \<Rightarrow> string pmap option \<Rightarrow> scope_state" where
  "NewScopeWithInputAndFiles rs graph ctxPath inp files =
     (NewScope rs graph ctxPath)\<lparr>sc_input := inp, sc_inputFiles := files\<rparr>"

definition ResolveWorkflowInputFile :: "scope_state \<Rightarrow> string \<Rightarrow> eval_error + string" where
  "ResolveWorkflowInputFile s name =
     (case sc_inputFiles s of
        None \<Rightarrow> unresolved
      | Some files \<Rightarrow> (case map_of files name of
                        None \<Rightarrow> unresolved
                      | Some ref \<Rightarrow> if ref = [] then unresolved else Inr ref))"

text \<open>\<open>instanceFromCtx\<close>: the number after the prefix in the reader's path, and whether it is there.\<close>

definition instanceFromCtx :: "scope_state \<Rightarrow> string \<Rightarrow> string \<Rightarrow> eval_error + int option" where
  "instanceFromCtx s prefx sep =
     (let full = prefx @ sep
      in if \<not> hasPrefix (sc_ctxPath s) full then Inr None
         else let rest = drop (length full) (sc_ctxPath s)
              in case parse_int64 (takeWhile (\<lambda>c. c \<noteq> CHR ''.'') rest) of
                   None \<Rightarrow> Inl (OtherError ''malformed instance segment'')
                 | Some n \<Rightarrow> Inr (Some n))"

definition iterForLoop :: "scope_state \<Rightarrow> string \<Rightarrow> eval_error + int" where
  "iterForLoop s loopBodyPath =
     (if \<not> hasSuffix loopBodyPath ''.body'' then Inl (OtherError ''non-body path'')
      else rbind (instanceFromCtx s loopBodyPath ''.iter-'') (\<lambda>m.
        case m of
          Some n \<Rightarrow> Inr n
        | None \<Rightarrow> let iter = LookupLoopIters (sc_rs s) (trimSuffix loopBodyPath ''.body'')
                  in if iter = 0 then Inl (OtherError ''no completed iterations'') else Inr iter))"

text \<open>\<open>strings.Replace(s, old, new, 1)\<close>.\<close>

definition replaceFirst :: "string \<Rightarrow> string \<Rightarrow> string \<Rightarrow> string" where
  "replaceFirst s old new =
     (case indexOf s old of None \<Rightarrow> s | Some i \<Rightarrow> take i s @ new @ drop (i + length old) s)"

definition AttemptPassed :: string where "AttemptPassed = ''attempt_passed''"

definition AttemptRejected :: string where "AttemptRejected = ''attempt_rejected''"

definition attemptPath :: "string \<Rightarrow> string \<Rightarrow> attempt_result list \<Rightarrow> string" where
  "attemptPath fullPath gatePrefix attempts =
     (case find (\<lambda>a. at_Outcome a = AttemptPassed) (rev attempts) of
        None \<Rightarrow> []
      | Some a \<Rightarrow> replaceFirst fullPath gatePrefix (AttemptPath gatePrefix (at_N a)))"

text \<open>The loop of \<open>stepRuntimePath\<close>; the first argument is the segment before, if any.\<close>

fun runtimeSegs :: "scope_state \<Rightarrow> string option \<Rightarrow> string list \<Rightarrow> string \<Rightarrow> eval_error + string" where
  "runtimeSegs s prev [] cur = Inr cur"
| "runtimeSegs s prev (seg # rest) cur =
     (if seg = ''body'' \<and> (case prev of None \<Rightarrow> False | Some p \<Rightarrow> hasPrefix p ''loop['')
      then let cur = appendSeg cur seg
           in rbind (iterForLoop s cur) (\<lambda>k. runtimeSegs s (Some seg) rest (IterPath cur k))
      else if seg = ''body'' \<and> (case prev of None \<Rightarrow> False | Some p \<Rightarrow> hasPrefix p ''map['')
      then rbind (instanceFromCtx s cur ''.item-'') (\<lambda>m.
             case m of
               None \<Rightarrow> Inl (OtherError ''step inside map'')
             | Some k \<Rightarrow> runtimeSegs s (Some seg) rest (ItemPath cur k))
      else let cur = appendSeg cur seg
           in if hasPrefix seg ''gate['' then
                rbind (instanceFromCtx s cur ''.attempt-'') (\<lambda>m.
                  case m of
                    Some k \<Rightarrow> runtimeSegs s (Some seg) rest (AttemptPath cur k)
                  | None \<Rightarrow>
                      if rest = [] \<or> hd rest \<noteq> ''generate'' then Inl (OtherError ''step inside gate'')
                      else let accepted = attemptPath cur cur (LookupGateAttempts (sc_rs s) cur)
                           in if accepted = [] then Inl (OtherError ''no accepted attempt'')
                              else runtimeSegs s (Some seg) rest accepted)
              else runtimeSegs s (Some seg) rest cur)"

definition stepRuntimePath :: "scope_state \<Rightarrow> string \<Rightarrow> eval_error + string" where
  "stepRuntimePath s staticPath =
     (let segments = splitDot staticPath
      in if 1 < length (filter (\<lambda>seg. hasPrefix seg ''loop['') segments) then Inl (OtherError ''nested loops'')
         else runtimeSegs s None segments [])"

text \<open>\<open>absentDueToUntakenIf\<close>: the loop over the segments after the first, outermost first.\<close>

fun untakenFrom :: "run_state \<Rightarrow> string list \<Rightarrow> string \<Rightarrow> string list \<Rightarrow> bool" where
  "untakenFrom rs before prev [] = False"
| "untakenFrom rs before prev (seg # segs) =
     (if (seg = ''then'' \<or> seg = ''else'') \<and> hasPrefix prev ''if['' then
        (case LookupBranch rs (joinDot (before @ [prev])) of
           None \<Rightarrow> False
         | Some taken \<Rightarrow> if taken \<noteq> seg then True else untakenFrom rs (before @ [prev]) seg segs)
      else untakenFrom rs (before @ [prev]) seg segs)"

definition absentDueToUntakenIf :: "scope_state \<Rightarrow> string \<Rightarrow> bool" where
  "absentDueToUntakenIf s runtimePath =
     (case splitDot runtimePath of [] \<Rightarrow> False | p # segs \<Rightarrow> untakenFrom (sc_rs s) [] p segs)"

definition callFieldDeclaredButAbsent :: "scope_state \<Rightarrow> string \<Rightarrow> string \<Rightarrow> goval \<Rightarrow> bool" where
  "callFieldDeclaredButAbsent s callID field outputs =
     (case map_of (sc_callSchemas s) callID of
        None \<Rightarrow> False
      | Some schema \<Rightarrow>
          if descend outputs \<lparr>Ident = field, Index = 0, IsIndex = False, SegPos = 0\<rparr> \<noteq> None then False
          else (case schema of
                  Some (VObject kvs) \<Rightarrow>
                    (case map_of kvs ''properties'' of Some (VObject ps) \<Rightarrow> map_of ps field \<noteq> None | _ \<Rightarrow> False)
                | _ \<Rightarrow> False))"

subsection \<open>Map products and aggregates\<close>

definition ItemPassed :: string where "ItemPassed = ''item_passed''"

definition ItemFailed :: string where "ItemFailed = ''item_failed''"

definition ItemPruned :: string where "ItemPruned = ''item_pruned''"

text \<open>The loops over a map's items: the outputs of the producer, or a field of them, in item order.\<close>

fun aggregate :: "run_state \<Rightarrow> (map_item_record \<Rightarrow> bool) \<Rightarrow> string \<Rightarrow> string \<Rightarrow> segment list \<Rightarrow>
    map_item_record list \<Rightarrow> eval_error + goval list" where
  "aggregate rs keep mapStatic suf flds [] = Inr []"
| "aggregate rs keep mapStatic suf flds (mr # items) =
     (if \<not> keep mr then aggregate rs keep mapStatic suf flds items
      else case LookupCompleted rs (ItemStepPath mapStatic (mi_N mr) suf) of
             None \<Rightarrow> aggregate rs keep mapStatic suf flds items
           | Some nr \<Rightarrow>
               if map_nil (nr_Outputs nr) then aggregate rs keep mapStatic suf flds items
               else rbind (descendPath (map_value (nr_Outputs nr)) flds) (\<lambda>v.
                    rbind (aggregate rs keep mapStatic suf flds items) (\<lambda>vs. Inr (v # vs))))"

definition aggregateMapOutputs :: "scope_state \<Rightarrow> string \<Rightarrow> segment list \<Rightarrow> eval_error + goval option" where
  "aggregateMapOutputs s staticPath ref =
     (case SingleMapBodyShape staticPath of
        None \<Rightarrow> Inr None
      | Some (mapStatic, suf) \<Rightarrow>
          rbind (instanceFromCtx s mapStatic ''.item-'') (\<lambda>inside.
            if inside \<noteq> None then Inr None
            else case LookupCompleted (sc_rs s) mapStatic of
                   Some nr \<Rightarrow> rbind (descendPath (map_value (nr_Outputs nr)) (drop 2 ref)) (\<lambda>v. Inr (Some v))
                 | None \<Rightarrow>
                     rbind (aggregate (sc_rs s) (\<lambda>mr. mi_Status mr \<noteq> ItemPruned) mapStatic suf (drop 2 ref)
                              (sort_key mi_N (LookupMapItems (sc_rs s) mapStatic)))
                       (\<lambda>vs. Inr (Some (VArray vs)))))"

definition resolveMapProduct :: "scope_state \<Rightarrow> map_product \<Rightarrow> segment list \<Rightarrow> eval_error + goval" where
  "resolveMapProduct s mp ref =
     (if mpr_reduce mp then
        (case LookupCompleted (sc_rs s) (mpr_mapPath mp) of
           None \<Rightarrow> unresolved
         | Some nr \<Rightarrow>
             if length ref = 2 then Inr (map_value (nr_Outputs nr))
             else rbind (mustIdent (ref ! 2)) (\<lambda>_.
                    if map_nil (nr_Outputs nr) then unresolved
                    else descendPath (map_value (nr_Outputs nr)) (drop 2 ref)))
      else rbind (aggregateMapOutputs s (mpr_finalBodyStaticPath mp) ref) (\<lambda>agg.
             case agg of None \<Rightarrow> unresolved | Some v \<Rightarrow> Inr v))"

subsection \<open>Resolving a reference\<close>

definition resolveRun :: "scope_state \<Rightarrow> segment list \<Rightarrow> eval_error + goval" where
  "resolveRun s ref =
     (if length ref \<noteq> 2 then unresolved
      else rbind (mustIdent (ref ! 1)) (\<lambda>_.
             if Ident (ref ! 1) \<noteq> ''id'' then unresolved else Inr (VString (RunID (sc_rs s)))))"

definition resolveInput :: "scope_state \<Rightarrow> segment list \<Rightarrow> eval_error + goval" where
  "resolveInput s ref =
     (if length ref < 2 then unresolved
      else let inp = (if sc_input s \<noteq> None then sc_input s else Input (sc_rs s))
           in descendPath (map_value inp) (drop 1 ref))"

definition resolveStepField :: "scope_state \<Rightarrow> node_result \<Rightarrow> segment list \<Rightarrow> eval_error + goval" where
  "resolveStepField s nr ref =
     (let field = Ident (ref ! 2)
      in if field = ''exit_code'' then
           (case nr_ExitCode nr of None \<Rightarrow> unresolved | Some c \<Rightarrow> Inr (VInt c))
         else if field = ''stdout'' then
           (if length ref \<noteq> 3 then unresolved
            else Inr (VString (case nr_Stdout nr of None \<Rightarrow> [] | Some b \<Rightarrow> b)))
         else if map_nil (nr_Outputs nr) then unresolved
         else (case descendPath (map_value (nr_Outputs nr)) (drop 2 ref) of
                 Inl e \<Rightarrow> if callFieldDeclaredButAbsent s (Ident (ref ! 1)) field (map_value (nr_Outputs nr))
                          then evalErr EvalCodeRefAbsent else Inl e
               | Inr v \<Rightarrow> Inr v))"

definition resolveStepAt :: "scope_state \<Rightarrow> string \<Rightarrow> segment list \<Rightarrow> eval_error + goval" where
  "resolveStepAt s staticPath ref =
     (case aggregateMapOutputs s staticPath ref of
        Inl e \<Rightarrow> Inl e
      | Inr (Some agg) \<Rightarrow> Inr agg
      | Inr None \<Rightarrow>
          if length ref < 3 then unresolved
          else rbind (mustIdent (ref ! 2)) (\<lambda>_.
                 case stepRuntimePath s staticPath of
                   Inl _ \<Rightarrow> unresolved
                 | Inr runtimePath \<Rightarrow>
                     (case LookupCompleted (sc_rs s) runtimePath of
                        None \<Rightarrow> if absentDueToUntakenIf s runtimePath then evalErr EvalCodeRefAbsent
                                else unresolved
                      | Some nr \<Rightarrow> resolveStepField s nr ref)))"

definition resolveStep :: "scope_state \<Rightarrow> segment list \<Rightarrow> eval_error + goval" where
  "resolveStep s ref =
     (if length ref < 2 then unresolved
      else rbind (mustIdent (ref ! 1)) (\<lambda>_.
             case map_of (StepPathIndex (sc_graph s)) (Ident (ref ! 1)) of
               None \<Rightarrow> (case map_of (mapProductIndex (sc_graph s)) (Ident (ref ! 1)) of
                          None \<Rightarrow> unresolved
                        | Some mp \<Rightarrow> resolveMapProduct s mp ref)
             | Some staticPath \<Rightarrow> resolveStepAt s staticPath ref))"

definition resolveEvaluate :: "scope_state \<Rightarrow> segment list \<Rightarrow> eval_error + goval" where
  "resolveEvaluate s ref =
     (if length ref < 2 then unresolved
      else if \<not> map_nil (sc_verdict s) then descendPath (map_value (sc_verdict s)) (drop 1 ref)
      else case enclosingGateForEvaluate (sc_ctxPath s) of
             None \<Rightarrow> unresolved
           | Some gatePath \<Rightarrow>
               let attempts = LookupGateAttempts (sc_rs s) gatePath
               in if attempts = [] then Inr (VString [])
                  else if map_nil (at_Verdict (last attempts)) then Inr (VString [])
                  else descendPath (map_value (at_Verdict (last attempts))) (drop 1 ref))"

text \<open>\<open>runtimeMapPathToStatic\<close>; the first argument is the segments before, the nearest first.\<close>

fun staticSegs :: "string list \<Rightarrow> string list \<Rightarrow> string list" where
  "staticSegs before [] = []"
| "staticSegs before (seg # segs) =
     (if hasPrefix seg ''item-'' \<and> before \<noteq> [] \<and> hasPrefix (before ! 0) ''map[''
      then ''body'' # staticSegs (seg # before) segs
      else if hasPrefix seg ''attempt-'' \<and> before \<noteq> [] \<and> hasPrefix (before ! 0) ''gate[''
      then staticSegs (seg # before) segs
      else if hasPrefix seg ''iter-'' \<and> 1 < length before \<and> before ! 0 = ''body'' \<and> hasPrefix (before ! 1) ''loop[''
      then staticSegs (seg # before) segs
      else seg # staticSegs (seg # before) segs)"

definition runtimeMapPathToStatic :: "string \<Rightarrow> string" where
  "runtimeMapPathToStatic runtimePath =
     (if runtimePath = [] then [] else joinDot (staticSegs [] (splitDot runtimePath)))"

text \<open>\<open>enclosingMapForBinding\<close>: innermost first; \<open>i\<close> is the index of the segment looked at.\<close>

fun bindingScan :: "string list \<Rightarrow> (map_spec \<times> node list) pmap \<Rightarrow> string \<Rightarrow> nat \<Rightarrow> (string \<times> int) option" where
  "bindingScan segments idx asName 0 = None"
| "bindingScan segments idx asName (Suc i) =
     (let seg = segments ! Suc i; mapPath = joinDot (take (Suc i) segments)
      in if \<not> hasPrefix seg ''item-'' \<or> \<not> hasPrefix (segments ! i) ''map['' then bindingScan segments idx asName i
         else case map_of idx (runtimeMapPathToStatic mapPath) of
                None \<Rightarrow> bindingScan segments idx asName i
              | Some (m, _) \<Rightarrow>
                  if mp_As m \<noteq> asName then bindingScan segments idx asName i
                  else case parse_int64 (trimPrefix seg ''item-'') of
                         None \<Rightarrow> bindingScan segments idx asName i
                       | Some n \<Rightarrow> Some (mapPath, n))"

definition enclosingMapForBinding ::
  "string \<Rightarrow> (map_spec \<times> node list) pmap \<Rightarrow> string \<Rightarrow> (string \<times> int) option" where
  "enclosingMapForBinding ctxPath idx asName =
     (if ctxPath = [] then None
      else let segments = splitDot ctxPath in bindingScan segments idx asName (length segments - 1))"

definition resolveAsBinding :: "scope_state \<Rightarrow> segment list \<Rightarrow> eval_error + goval" where
  "resolveAsBinding s ref =
     (case enclosingMapForBinding (sc_ctxPath s) (mapPathIndex (sc_graph s)) (Ident (ref ! 0)) of
        None \<Rightarrow> unresolved
      | Some (mapPath, n) \<Rightarrow>
          (case find (\<lambda>mr. mi_N mr = n) (LookupMapItems (sc_rs s) mapPath) of
             None \<Rightarrow> unresolved
           | Some mr \<Rightarrow>
               (case mi_ItemValue mr of
                  None \<Rightarrow> unresolved
                | Some VNil \<Rightarrow> unresolved
                | Some v \<Rightarrow>
                    if length ref = 1 then
                      (case v of VObject _ \<Rightarrow> unresolved | VArray _ \<Rightarrow> unresolved | _ \<Rightarrow> Inr v)
                    else if length ref = 2 \<and> \<not> IsIndex (ref ! 1) \<and> Ident (ref ! 1) = ''index'' then Inr (VInt n)
                    else descendPath v (drop 1 ref))))"

definition Resolve :: "scope_state \<Rightarrow> scope" where
  "Resolve s ref =
     (if ref = [] then unresolved
      else rbind (mustIdent (ref ! 0)) (\<lambda>_.
        let h = Ident (ref ! 0)
        in if h = ''run'' then resolveRun s ref
           else if h = ''input'' then resolveInput s ref
           else if h = ''step'' then resolveStep s ref
           else if h = ''evaluate'' then resolveEvaluate s ref
           else resolveAsBinding s ref))"

subsection \<open>Instances\<close>

text \<open>
  The runtime path of a static path when the container reached at the runtime path \<open>p\<close> is in its
  iteration, item or attempt \<open>num p\<close>: the paths the executors of loops, maps and gates build.
\<close>

definition after :: "string \<Rightarrow> string option \<Rightarrow> bool" where
  "after k prev = (case prev of None \<Rightarrow> False | Some p \<Rightarrow> hasPrefix p k)"

fun instSegs :: "(string \<Rightarrow> int) \<Rightarrow> string option \<Rightarrow> string list \<Rightarrow> string \<Rightarrow> string" where
  "instSegs num prev [] cur = cur"
| "instSegs num prev (seg # rest) cur =
     (if seg = ''body'' \<and> after ''loop['' prev
      then let cur = appendSeg cur seg in instSegs num (Some seg) rest (IterPath cur (num cur))
      else if seg = ''body'' \<and> after ''map['' prev
      then instSegs num (Some seg) rest (ItemPath cur (num cur))
      else let cur = appendSeg cur seg
           in instSegs num (Some seg) rest (if hasPrefix seg ''gate['' then AttemptPath cur (num cur) else cur))"

text \<open>Segments after which no further container is entered.\<close>

fun plain :: "string option \<Rightarrow> string list \<Rightarrow> bool" where
  "plain prev [] = True"
| "plain prev (seg # rest) =
     (\<not> (seg = ''body'' \<and> (after ''loop['' prev \<or> after ''map['' prev)) \<and> \<not> hasPrefix seg ''gate[''
      \<and> plain (Some seg) rest)"

definition in_range :: "(string \<Rightarrow> int) \<Rightarrow> bool" where
  "in_range num = (\<forall>p. - (2 ^ 63) \<le> num p \<and> num p < 2 ^ 63)"

lemma segment_cases [case_names loop map gate other]:
  assumes "seg = ''body'' \<Longrightarrow> after ''loop['' prev \<Longrightarrow> P"
    and "seg = ''body'' \<Longrightarrow> \<not> after ''loop['' prev \<Longrightarrow> after ''map['' prev \<Longrightarrow> P"
    and "\<not> (seg = ''body'' \<and> after ''loop['' prev) \<Longrightarrow> \<not> (seg = ''body'' \<and> after ''map['' prev) \<Longrightarrow>
      hasPrefix seg ''gate['' \<Longrightarrow> P"
    and "\<not> (seg = ''body'' \<and> after ''loop['' prev) \<Longrightarrow> \<not> (seg = ''body'' \<and> after ''map['' prev) \<Longrightarrow>
      \<not> hasPrefix seg ''gate['' \<Longrightarrow> P"
  shows P
  using assms by blast

lemma appendSeg_neq [simp]: "seg \<noteq> [] \<Longrightarrow> appendSeg cur seg \<noteq> []"
  by (simp add: appendSeg_def)

lemma runtime_path_neq [simp]: "IterPath p k \<noteq> []" "ItemPath p k \<noteq> []" "AttemptPath p k \<noteq> []"
  by (simp_all add: IterPath_def ItemPath_def AttemptPath_def)

definition ends_at_dot :: "string \<Rightarrow> string \<Rightarrow> bool" where
  "ends_at_dot p q = (\<exists>t. q = p @ t \<and> (t = [] \<or> hd t = CHR ''.''))"

lemma ends_at_dot_trans: "ends_at_dot p q \<Longrightarrow> ends_at_dot q r \<Longrightarrow> ends_at_dot p r"
  unfolding ends_at_dot_def by (metis append.assoc append_is_Nil_conv hd_append2 append_Nil)

lemma ends_at_dot_neq: "ends_at_dot p q \<Longrightarrow> p \<noteq> [] \<Longrightarrow> q \<noteq> []"
  by (auto simp: ends_at_dot_def)

lemma ends_at_dot_ext [simp]:
  "cur \<noteq> [] \<Longrightarrow> ends_at_dot cur (appendSeg cur seg)" "ends_at_dot p (IterPath p k)"
  "ends_at_dot p (ItemPath p k)" "ends_at_dot p (AttemptPath p k)" "ends_at_dot p p"
  by (auto simp: ends_at_dot_def appendSeg_def IterPath_def ItemPath_def AttemptPath_def)

lemma instSegs_extends:
  "cur \<noteq> [] \<Longrightarrow> list_all (\<lambda>x. x \<noteq> []) segs \<Longrightarrow> ends_at_dot cur (instSegs num prev segs cur)"
proof (induction segs arbitrary: prev cur)
  case (Cons seg segs)
  have seg: "seg \<noteq> []" using Cons.prems(2) by simp
  have ext: "ends_at_dot cur (instSegs num pv segs c)" if "c \<noteq> []" "ends_at_dot cur c" for c pv
    using ends_at_dot_trans [OF that(2)] Cons.IH [OF that(1)] Cons.prems(2) by simp
  note more = ends_at_dot_trans [OF ends_at_dot_ext(1) [OF Cons.prems(1)]]
  show ?case using Cons.prems(1) seg
    by (simp add: Let_def ext more [OF ends_at_dot_ext(2)] more [OF ends_at_dot_ext(4)])
qed simp

lemma instance_found:
  assumes "ends_at_dot (p @ sep @ itoa k) (sc_ctxPath s)" and "- (2 ^ 63) \<le> k" and "k < 2 ^ 63"
  shows "instanceFromCtx s p sep = Inr (Some k)"
proof -
  obtain t where t: "sc_ctxPath s = (p @ sep) @ itoa k @ t" "t = [] \<or> hd t = CHR ''.''"
    using assms(1) by (auto simp: ends_at_dot_def)
  have "takeWhile (\<lambda>c. c \<noteq> CHR ''.'') (itoa k @ t) = itoa k"
    using t(2) itoa_no_dot [of k] by (cases t) (auto simp: takeWhile_append)
  then show ?thesis
    unfolding instanceFromCtx_def Let_def t(1) using assms(2,3) hasPrefix_append [of "p @ sep" "itoa k @ t"]
    by (simp del: append_assoc hasPrefix_append)
qed

lemma runtimeSegs_plain: "plain prev segs \<Longrightarrow> runtimeSegs s prev segs cur = Inr (instSegs num prev segs cur)"
  by (induction segs arbitrary: prev cur) (auto simp: Let_def after_def split: option.splits)

text \<open>The segments a step shares with its reader resolve to the instances the reader runs in.\<close>

lemma runtimeSegs_shared:
  assumes "in_range num" and "list_all (\<lambda>x. x \<noteq> []) (pre @ rest')" and "prev \<noteq> None \<longrightarrow> cur \<noteq> []"
    and "sc_ctxPath s = instSegs num prev (pre @ rest') cur"
  shows "runtimeSegs s prev (pre @ rest) cur
    = runtimeSegs s (if pre = [] then prev else Some (last pre)) rest (instSegs num prev pre cur)"
  using assms(2-4)
proof (induction pre arbitrary: prev cur)
  case Nil
  then show ?case by simp
next
  case (Cons seg pre)
  have neq: "seg \<noteq> []" "list_all (\<lambda>x. x \<noteq> []) (pre @ rest')" using Cons.prems(1) by auto
  have num: "- (2 ^ 63) \<le> num p" "num p < 2 ^ 63" for p using assms(1) by (auto simp: in_range_def)
  have IH: "runtimeSegs s (Some seg) (pre @ rest) c
      = runtimeSegs s (if pre = [] then Some seg else Some (last pre)) rest (instSegs num (Some seg) pre c)"
    if "c \<noteq> []" "sc_ctxPath s = instSegs num (Some seg) (pre @ rest') c" for c
    using Cons.IH [of "Some seg" c] neq(2) that by simp
  have found: "instanceFromCtx s p sep = Inr (Some (num p))"
    if "sc_ctxPath s = instSegs num (Some seg) (pre @ rest') (p @ sep @ itoa (num p))" "sep \<noteq> []" for p sep
    using instance_found [OF _ num, of p sep p s] that neq(2)
      instSegs_extends [of "p @ sep @ itoa (num p)" "pre @ rest'" num "Some seg"] by simp
  show ?case
  proof (cases seg prev rule: segment_cases)
    case loop
    let ?c = "appendSeg cur seg"
    have ctx: "sc_ctxPath s = instSegs num (Some seg) (pre @ rest') (IterPath ?c (num ?c))"
      using Cons.prems(3) loop by (simp add: Let_def)
    have "cur \<noteq> []" using loop(2) Cons.prems(2) by (auto simp: after_def split: option.splits)
    then have "hasSuffix ?c ''.body''" using loop(1) hasSuffix_append [of cur "''.body''"] by (simp add: appendSeg_def)
    moreover have "instanceFromCtx s ?c ''.iter-'' = Inr (Some (num ?c))"
      using ctx by (intro found) (simp_all add: IterPath_def)
    ultimately have "iterForLoop s ?c = Inr (num ?c)" by (simp add: iterForLoop_def)
    then show ?thesis using IH [OF runtime_path_neq(1) ctx] loop by (simp add: Let_def after_def split: option.splits)
  next
    case map
    have ctx: "sc_ctxPath s = instSegs num (Some seg) (pre @ rest') (ItemPath cur (num cur))"
      using Cons.prems(3) map by simp
    have "instanceFromCtx s cur ''.item-'' = Inr (Some (num cur))"
      using ctx by (intro found) (simp_all add: ItemPath_def)
    then show ?thesis using IH [OF runtime_path_neq(2) ctx] map by (simp add: after_def split: option.splits)
  next
    case gate
    let ?c = "appendSeg cur seg"
    have ctx: "sc_ctxPath s = instSegs num (Some seg) (pre @ rest') (AttemptPath ?c (num ?c))"
      using Cons.prems(3) gate by (auto simp: Let_def)
    have "instanceFromCtx s ?c ''.attempt-'' = Inr (Some (num ?c))"
      using ctx by (intro found) (simp_all add: AttemptPath_def)
    then show ?thesis using IH [OF runtime_path_neq(3) ctx] gate
      by (auto simp: Let_def after_def split: option.splits)
  next
    case other
    have ctx: "sc_ctxPath s = instSegs num (Some seg) (pre @ rest') (appendSeg cur seg)"
      using Cons.prems(3) other by (auto simp: Let_def)
    show ?thesis using IH [OF appendSeg_neq [OF neq(1)] ctx] other
      by (auto simp: Let_def after_def split: option.splits)
  qed
qed

lemma instSegs_append:
  "instSegs num prev (pre @ rest) cur
    = instSegs num (if pre = [] then prev else Some (last pre)) rest (instSegs num prev pre cur)"
  by (induction pre arbitrary: prev cur) (simp_all add: Let_def)

lemma runtimeSegs_inst:
  assumes "in_range num" and "plain (if pre = [] then prev else Some (last pre)) rest"
    and "list_all (\<lambda>x. x \<noteq> []) (pre @ rest')" and "prev \<noteq> None \<longrightarrow> cur \<noteq> []"
    and "sc_ctxPath s = instSegs num prev (pre @ rest') cur"
  shows "runtimeSegs s prev (pre @ rest) cur = Inr (instSegs num prev (pre @ rest) cur)"
  unfolding runtimeSegs_shared [OF assms(1,3-5)] instSegs_append by (rule runtimeSegs_plain [OF assms(2)])

text \<open>The same instantiation on segments, and its inverse.\<close>

fun instList :: "(string \<Rightarrow> int) \<Rightarrow> string option \<Rightarrow> string list \<Rightarrow> string \<Rightarrow> string list" where
  "instList num prev [] cur = []"
| "instList num prev (seg # rest) cur =
     (if seg = ''body'' \<and> after ''loop['' prev
      then let cur = appendSeg cur seg
           in seg # (''iter-'' @ itoa (num cur)) # instList num (Some seg) rest (IterPath cur (num cur))
      else if seg = ''body'' \<and> after ''map['' prev
      then (''item-'' @ itoa (num cur)) # instList num (Some seg) rest (ItemPath cur (num cur))
      else let cur = appendSeg cur seg
           in if hasPrefix seg ''gate[''
              then seg # (''attempt-'' @ itoa (num cur)) # instList num (Some seg) rest (AttemptPath cur (num cur))
              else seg # instList num (Some seg) rest cur)"

definition no_dot :: "string \<Rightarrow> bool" where
  "no_dot x = (x \<noteq> [] \<and> CHR ''.'' \<notin> set x)"

lemma splitDot_instSegs:
  "cur \<noteq> [] \<Longrightarrow> list_all no_dot segs \<Longrightarrow>
     splitDot (instSegs num prev segs cur) = splitDot cur @ instList num prev segs cur"
proof (induction segs arbitrary: prev cur)
  case (Cons seg segs)
  have seg: "seg \<noteq> []" "CHR ''.'' \<notin> set seg" using Cons.prems(2) by (auto simp: no_dot_def)
  have app: "splitDot (appendSeg cur seg) = splitDot cur @ [seg]"
    using Cons.prems(1) seg by (simp add: appendSeg_def splitDot_append splitDot_no_dot)
  have tags: "splitDot (IterPath p k) = splitDot p @ [''iter-'' @ itoa k]"
    "splitDot (ItemPath p k) = splitDot p @ [''item-'' @ itoa k]"
    "splitDot (AttemptPath p k) = splitDot p @ [''attempt-'' @ itoa k]" for p k
    using splitDot_tag [of "''iter-''" p k] splitDot_tag [of "''item-''" p k] splitDot_tag [of "''attempt-''" p k]
    by (simp_all add: IterPath_def ItemPath_def AttemptPath_def)
  have IH: "splitDot (instSegs num pv segs c) = splitDot c @ instList num pv segs c" if "c \<noteq> []" for pv c
    using Cons.IH [OF that] Cons.prems(2) by simp
  show ?case
  proof (cases seg prev rule: segment_cases)
    case loop
    then show ?thesis using app by (simp add: Let_def IH tags)
  next
    case map
    then show ?thesis by (simp add: IH tags)
  next
    case gate
    then show ?thesis
      by (simp only: instSegs.simps instList.simps Let_def if_False if_True) (simp add: IH tags app)
  next
    case other
    then show ?thesis
      by (simp only: instSegs.simps instList.simps Let_def if_False) (simp add: IH app seg)
  qed
qed simp

text \<open>A \<open>map[\<close> segment is followed by its \<open>body\<close>, as in every static path of a step.\<close>

fun map_bodies :: "string option \<Rightarrow> string list \<Rightarrow> bool" where
  "map_bodies prev [] = True"
| "map_bodies prev (seg # rest) = ((after ''map['' prev \<longrightarrow> seg = ''body'') \<and> map_bodies (Some seg) rest)"

definition seen :: "string option \<Rightarrow> string list \<Rightarrow> bool" where
  "seen prev before =
     (case before of
        [] \<Rightarrow> prev = None
      | b # bs \<Rightarrow> hasPrefix b ''iter-'' \<or> hasPrefix b ''item-'' \<or> hasPrefix b ''attempt-''
          \<or> (prev = Some b \<and> \<not> hasPrefix b ''gate[''
             \<and> (b = ''body'' \<longrightarrow> \<not> (bs \<noteq> [] \<and> hasPrefix (hd bs) ''loop[''))))"

lemma prefix_clash:
  "hasPrefix x ''iter-'' \<Longrightarrow> \<not> hasPrefix x ''map['' \<and> \<not> hasPrefix x ''gate['' \<and> x \<noteq> ''body'' \<and> \<not> hasPrefix x ''loop[''"
  "hasPrefix x ''item-'' \<Longrightarrow> \<not> hasPrefix x ''map['' \<and> \<not> hasPrefix x ''gate['' \<and> x \<noteq> ''body'' \<and> \<not> hasPrefix x ''loop[''"
  "hasPrefix x ''attempt-'' \<Longrightarrow> \<not> hasPrefix x ''map['' \<and> \<not> hasPrefix x ''gate['' \<and> x \<noteq> ''body'' \<and> \<not> hasPrefix x ''loop[''"
  by (auto simp: hasPrefix_iff)

lemma prefix_tags [simp]:
  "hasPrefix (''iter-'' @ t) ''iter-''" "hasPrefix (''item-'' @ t) ''item-''" "hasPrefix (''attempt-'' @ t) ''attempt-''"
  "\<not> hasPrefix (''iter-'' @ t) ''item-''" "\<not> hasPrefix (''iter-'' @ t) ''attempt-''"
  "\<not> hasPrefix (''attempt-'' @ t) ''item-''" "\<not> hasPrefix ''body'' ''item-''"
  "\<not> hasPrefix ''body'' ''attempt-''" "\<not> hasPrefix ''body'' ''iter-''"
  by (auto simp: hasPrefix_def)

lemma staticSegs_keep:
  assumes "\<not> (hasPrefix seg ''item-'' \<and> before \<noteq> [] \<and> hasPrefix (before ! 0) ''map['')"
    and "\<not> (hasPrefix seg ''attempt-'' \<and> before \<noteq> [] \<and> hasPrefix (before ! 0) ''gate['')"
    and "\<not> (hasPrefix seg ''iter-'' \<and> 1 < length before \<and> before ! 0 = ''body'' \<and> hasPrefix (before ! 1) ''loop['')"
  shows "staticSegs before (seg # segs) = seg # staticSegs (seg # before) segs"
  using assms by (simp only: staticSegs.simps if_False)

lemma seen_keep:
  assumes "seen prev before" and "after ''map['' prev \<longrightarrow> seg = ''body''"
  shows "staticSegs before (seg # segs) = seg # staticSegs (seg # before) segs"
proof (rule staticSegs_keep)
  show "\<not> (hasPrefix seg ''item-'' \<and> before \<noteq> [] \<and> hasPrefix (before ! 0) ''map['')"
    using assms prefix_clash by (auto simp: seen_def after_def neq_Nil_conv split: list.splits)
  show "\<not> (hasPrefix seg ''attempt-'' \<and> before \<noteq> [] \<and> hasPrefix (before ! 0) ''gate['')"
    using assms(1) prefix_clash by (auto simp: seen_def neq_Nil_conv split: list.splits)
  show "\<not> (hasPrefix seg ''iter-'' \<and> 1 < length before \<and> before ! 0 = ''body'' \<and> hasPrefix (before ! 1) ''loop['')"
  proof (cases before)
    case (Cons b bs)
    then show ?thesis using assms(1) prefix_clash [of b] by (cases bs) (auto simp: seen_def)
  qed simp
qed

text \<open>\<open>joined\<close>: nothing was inserted after the last static segment, so it is the nearest one before.\<close>

definition joined :: "string option \<Rightarrow> string list \<Rightarrow> bool" where
  "joined prev before = (\<forall>p. prev = Some p \<longrightarrow> hasPrefix p ''loop['' \<or> hasPrefix p ''map['' \<longrightarrow> before \<noteq> [] \<and> hd before = p)"

lemma staticSegs_instList:
  "list_all no_dot segs \<Longrightarrow> map_bodies prev segs \<Longrightarrow> seen prev before \<Longrightarrow> joined prev before \<Longrightarrow>
     staticSegs before (instList num prev segs cur) = segs"
proof (induction segs arbitrary: prev before cur)
  case (Cons seg segs)
  have mb: "after ''map['' prev \<longrightarrow> seg = ''body''" "map_bodies (Some seg) segs" using Cons.prems(2) by simp_all
  have IH: "staticSegs b (instList num (Some seg) segs c) = segs" if "seen (Some seg) b" "joined (Some seg) b" for b c
    using Cons.IH [OF _ mb(2) that] Cons.prems(1) by simp
  have body: "joined (Some ''body'') b" for b by (auto simp: joined_def hasPrefix_def)
  show ?case
  proof (cases seg prev rule: segment_cases)
    case loop
    then obtain p where p: "prev = Some p" "hasPrefix p ''loop[''" by (auto simp: after_def split: option.splits)
    then have hd: "before \<noteq> []" "hd before = p" using Cons.prems(4) by (auto simp: joined_def)
    let ?c = "appendSeg cur seg" and ?t = "''iter-'' @ itoa (num (appendSeg cur seg))"
    have "staticSegs before (instList num prev (seg # segs) cur)
        = seg # staticSegs (seg # before) (?t # instList num (Some seg) segs (IterPath ?c (num ?c)))"
      using seen_keep [OF Cons.prems(3) mb(1)] loop by (simp add: Let_def)
    also have "\<dots> = seg # staticSegs (?t # seg # before) (instList num (Some seg) segs (IterPath ?c (num ?c)))"
      using loop(1) hd p(2) by (cases before) (auto simp: hasPrefix_def)
    also have "\<dots> = seg # segs"
    proof -
      have "seen (Some seg) (?t # seg # before)" by (simp add: seen_def hasPrefix_def)
      moreover have "joined (Some seg) (?t # seg # before)" using loop(1) body by simp
      ultimately show ?thesis by (simp only: IH)
    qed
    finally show ?thesis .
  next
    case map
    then obtain p where p: "prev = Some p" "hasPrefix p ''map[''" by (auto simp: after_def split: option.splits)
    then have hd: "before \<noteq> []" "hd before = p" using Cons.prems(4) by (auto simp: joined_def)
    let ?t = "''item-'' @ itoa (num cur)"
    have "staticSegs before (instList num prev (seg # segs) cur)
        = ''body'' # staticSegs (?t # before) (instList num (Some seg) segs (ItemPath cur (num cur)))"
      using map hd p(2) by (cases before) (simp_all add: hasPrefix_def)
    also have "\<dots> = seg # segs"
    proof -
      have "seen (Some seg) (?t # before)" by (simp add: seen_def hasPrefix_def)
      moreover have "joined (Some seg) (?t # before)" using map(1) body by simp
      ultimately have "staticSegs (?t # before) (instList num (Some seg) segs (ItemPath cur (num cur))) = segs"
        by (rule IH)
      then show ?thesis using map(1) by simp
    qed
    finally show ?thesis .
  next
    case gate
    let ?c = "appendSeg cur seg" and ?t = "''attempt-'' @ itoa (num (appendSeg cur seg))"
    have "staticSegs before (instList num prev (seg # segs) cur)
        = seg # staticSegs (seg # before) (?t # instList num (Some seg) segs (AttemptPath ?c (num ?c)))"
      using gate seen_keep [OF Cons.prems(3) mb(1)]
      by (simp only: instList.simps Let_def if_False if_True)
    also have "\<dots> = seg # staticSegs (?t # seg # before) (instList num (Some seg) segs (AttemptPath ?c (num ?c)))"
      using gate(3) by (auto simp: hasPrefix_def)
    also have "\<dots> = seg # segs"
    proof -
      have "seen (Some seg) (?t # seg # before)" by (simp add: seen_def hasPrefix_def)
      moreover have "joined (Some seg) (?t # seg # before)" using gate(3) by (auto simp: joined_def hasPrefix_iff)
      ultimately show ?thesis by (simp only: IH)
    qed
    finally show ?thesis .
  next
    case other
    have "seen (Some seg) (seg # before)"
      using other Cons.prems(3) prefix_clash(1-3) [of "hd before"]
      by (auto simp: seen_def after_def neq_Nil_conv split: list.splits option.splits)
    then show ?thesis
      using other seen_keep [OF Cons.prems(3) mb(1)]
      by (simp only: instList.simps Let_def if_False) (simp add: IH joined_def)
  qed
qed simp



end
