(* ===== verification/Artifacts.thy ===== *)
theory Artifacts
  imports Scope
begin

text \<open>
  Files that flow between steps: artifact references (src/engine/artifact_scope.go,
  src/engine/artifact_refs.go, src/engine/reduce_scope.go), the staging of input files
  (src/engine/input_files.go, src/engine/assets.go) and the resolution of declared outputs
  (src/engine/output_files.go). \<open>path.Clean\<close>, \<open>path.Join\<close> and \<open>path.IsAbs\<close> of the standard library
  are modelled on the segments between slashes. Third-party code is a parameter: \<open>jcs.Transform\<close>,
  the JSON-schema compiler, and the JSON decoder.
\<close>

subsection \<open>Package path\<close>

fun splitSlash :: "string \<Rightarrow> string list" where
  "splitSlash [] = [[]]"
| "splitSlash (c # s) =
     (if c = CHR ''/'' then [] # splitSlash s
      else (case splitSlash s of [] \<Rightarrow> [[c]] | p # ps \<Rightarrow> (c # p) # ps))"

fun joinSlash :: "string list \<Rightarrow> string" where
  "joinSlash [] = []"
| "joinSlash [p] = p"
| "joinSlash (p # q # ps) = p @ ''/'' @ joinSlash (q # ps)"

definition path_IsAbs :: "string \<Rightarrow> bool" where
  "path_IsAbs p = hasPrefix p ''/''"

text \<open>The elements kept so far are in reverse order.\<close>

fun cleanSegs :: "bool \<Rightarrow> string list \<Rightarrow> string list \<Rightarrow> string list" where
  "cleanSegs rooted out [] = rev out"
| "cleanSegs rooted out (seg # segs) =
     (if seg = [] \<or> seg = ''.'' then cleanSegs rooted out segs
      else if seg = ''..'' then
        (case out of
           [] \<Rightarrow> if rooted then cleanSegs rooted [] segs else cleanSegs rooted [''..''] segs
         | p # ps \<Rightarrow> if p = ''..'' then cleanSegs rooted (''..'' # out) segs else cleanSegs rooted ps segs)
      else cleanSegs rooted (seg # out) segs)"

definition path_Clean :: "string \<Rightarrow> string" where
  "path_Clean p =
     (if p = [] then ''.''
      else let out = cleanSegs (path_IsAbs p) [] (splitSlash p)
           in if path_IsAbs p then ''/'' @ joinSlash out
              else if out = [] then ''.'' else joinSlash out)"

definition path_Join :: "string \<Rightarrow> string \<Rightarrow> string" where
  "path_Join a b =
     (if a = [] \<and> b = [] then []
      else path_Clean (if a = [] then b else if b = [] then a else a @ ''/'' @ b))"

subsection \<open>Artifact references\<close>

definition runtimePathWithinGate :: "string \<Rightarrow> string \<Rightarrow> bool" where
  "runtimePathWithinGate ctxPath gateStatic = (ctxPath = gateStatic \<or> hasPrefix ctxPath (gateStatic @ ''.attempt-''))"

text \<open>\<open>gateScopePrefix\<close>: up to and with the innermost gate segment.\<close>

definition gateScopePrefix :: "string \<Rightarrow> string option" where
  "gateScopePrefix staticPath =
     (let segs = splitDot staticPath;
          rest = dropWhile (\<lambda>seg. \<not> hasPrefix seg ''gate['') (rev segs)
      in if rest = [] then None else Some (joinDot (rev rest)))"

definition passedGateArtifactRuntimePath :: "scope_state \<Rightarrow> string \<Rightarrow> (eval_error + string) option" where
  "passedGateArtifactRuntimePath s staticPath =
     (case gateScopePrefix staticPath of
        None \<Rightarrow> None
      | Some gateStatic \<Rightarrow>
          if runtimePathWithinGate (sc_ctxPath s) gateStatic then None
          else if \<not> hasPrefix (trimPrefix staticPath (gateStatic @ ''.'')) ''generate.'' then Some unresolved
          else let p = attemptPath staticPath gateStatic (LookupGateAttempts (sc_rs s) gateStatic)
               in if p \<noteq> [] then Some (Inr p) else Some unresolved)"

definition itemBodyStepPath :: "run_state \<Rightarrow> string \<Rightarrow> int \<Rightarrow> string \<Rightarrow> string option" where
  "itemBodyStepPath rs mapPath n suf =
     (case gateScopePrefix suf of
        None \<Rightarrow> Some (ItemStepPath mapPath n suf)
      | Some gateRel \<Rightarrow>
          let itemGatePath = ItemStepPath mapPath n gateRel;
              p = attemptPath (ItemStepPath mapPath n suf) itemGatePath (LookupGateAttempts rs itemGatePath)
          in if p \<noteq> [] then Some p else None)"

definition committed_file :: "run_state \<Rightarrow> string \<Rightarrow> string \<Rightarrow> eval_error + string" where
  "committed_file rs path containerPath =
     (case LookupCompleted rs path of
        None \<Rightarrow> unresolved
      | Some nr \<Rightarrow> (case map_of (nr_Files nr) containerPath of None \<Rightarrow> unresolved | Some cas \<Rightarrow> Inr cas))"

definition resolveMapProductArtifactPath :: "scope_state \<Rightarrow> map_product \<Rightarrow> string \<Rightarrow> eval_error + string" where
  "resolveMapProductArtifactPath s mp containerPath = committed_file (sc_rs s) (mpr_mapPath mp) containerPath"

definition ResolveArtifactPath :: "scope_state \<Rightarrow> string \<Rightarrow> string \<Rightarrow> eval_error + string" where
  "ResolveArtifactPath s sid containerPath =
     (case map_of (StepPathIndex (sc_graph s)) sid of
        None \<Rightarrow> (case map_of (mapProductIndex (sc_graph s)) sid of
                   Some mp \<Rightarrow> if mpr_reduce mp then resolveMapProductArtifactPath s mp containerPath else unresolved
                 | None \<Rightarrow> unresolved)
      | Some staticPath \<Rightarrow>
          let reduced = (case SingleMapBodyShape staticPath of
                 None \<Rightarrow> None
               | Some (mapStatic, _) \<Rightarrow>
                   if instanceFromCtx s mapStatic ''.item-'' = Inr None \<and> LookupCompleted (sc_rs s) mapStatic \<noteq> None
                   then Some (committed_file (sc_rs s) mapStatic containerPath) else None)
          in case reduced of
               Some r \<Rightarrow> r
             | None \<Rightarrow>
                 (case passedGateArtifactRuntimePath s staticPath of
                    Some r \<Rightarrow> rbind r (\<lambda>rp. committed_file (sc_rs s) rp containerPath)
                  | None \<Rightarrow>
                      (case stepRuntimePath s staticPath of
                         Inl _ \<Rightarrow> unresolved
                       | Inr rp \<Rightarrow>
                           if LookupCompleted (sc_rs s) rp = None \<and> absentDueToUntakenIf s rp
                           then evalErr EvalCodeRefAbsent
                           else committed_file (sc_rs s) rp containerPath)))"

text \<open>\<open>reduceTemplateScope\<close>: a body step of the reduced map stands for the JSON of its passed items' values.\<close>

record reduce_scope =
  rts_base :: scope_state
  rts_mapPath :: string

definition newReduceTemplateScope :: "run_state \<Rightarrow> node list \<Rightarrow> string \<Rightarrow> reduce_scope" where
  "newReduceTemplateScope rs graph mapPath = \<lparr>rts_base = NewScope rs graph mapPath, rts_mapPath = mapPath\<rparr>"

definition bodyStepPath :: "reduce_scope \<Rightarrow> segment list \<Rightarrow> string option" where
  "bodyStepPath s ref =
     (if length ref < 2 \<or> Ident (ref ! 0) \<noteq> ''step'' \<or> IsIndex (ref ! 1) then None
      else case map_of (StepPathIndex (sc_graph (rts_base s))) (Ident (ref ! 1)) of
             None \<Rightarrow> None
           | Some staticPath \<Rightarrow>
               (case SingleMapBodyShape staticPath of
                  None \<Rightarrow> None
                | Some (mapPath, _) \<Rightarrow> if mapPath = rts_mapPath s then Some staticPath else None))"

definition resolveBodyStepAggregate :: "reduce_scope \<Rightarrow> string \<Rightarrow> segment list \<Rightarrow> eval_error + goval list" where
  "resolveBodyStepAggregate s staticPath ref =
     (case SingleMapBodyShape staticPath of
        None \<Rightarrow> unresolved
      | Some (mapStatic, suf) \<Rightarrow>
          if mapStatic \<noteq> rts_mapPath s then unresolved
          else aggregate (sc_rs (rts_base s)) (\<lambda>mr. mi_Status mr = ItemPassed) mapStatic suf (drop 2 ref)
                 (sort_key mi_N (LookupMapItems (sc_rs (rts_base s)) mapStatic)))"

definition reduce_Resolve :: "(string \<Rightarrow> string option) \<Rightarrow> reduce_scope \<Rightarrow> scope" where
  "reduce_Resolve jcs s ref =
     (case bodyStepPath s ref of
        None \<Rightarrow> Resolve (rts_base s) ref
      | Some staticPath \<Rightarrow>
          rbind (resolveBodyStepAggregate s staticPath ref) (\<lambda>vs.
            case jcs (json_encode (VArray vs)) of
              None \<Rightarrow> Inl (OtherError ''canonicalize'')
            | Some canon \<Rightarrow> Inr (VString canon)))"

definition ResolveDeclaredArtifactPath ::
  "(string \<Rightarrow> string option) \<Rightarrow> scope_state \<Rightarrow> string \<Rightarrow> string \<Rightarrow> eval_error + string" where
  "ResolveDeclaredArtifactPath jcs s sid declaredPath =
     (case map_of (mapProductIndex (sc_graph s)) sid of
        Some mp \<Rightarrow>
          if mpr_reduce mp
          then rbind (Substitute declaredPath
                   (reduce_Resolve jcs (newReduceTemplateScope (sc_rs s) (sc_graph s) (mpr_mapPath mp))))
                 (resolveMapProductArtifactPath s mp)
          else rbind (Substitute declaredPath (Resolve s)) (ResolveArtifactPath s sid)
      | None \<Rightarrow> rbind (Substitute declaredPath (Resolve s)) (ResolveArtifactPath s sid))"

definition resolveCallArtifactRef :: "scope_state \<Rightarrow> string \<Rightarrow> string \<Rightarrow> (eval_error + string) option" where
  "resolveCallArtifactRef s sid name =
     (case map_of (callStepPathIndex (sc_graph s)) sid of
        None \<Rightarrow> None
      | Some staticPath \<Rightarrow>
          Some (case stepRuntimePath s staticPath of
                  Inl _ \<Rightarrow> unresolved
                | Inr runtimePath \<Rightarrow> committed_file (sc_rs s) runtimePath name))"

definition resolveReducedBodyArtifactRef ::
  "(string \<Rightarrow> string option) \<Rightarrow> scope_state \<Rightarrow> string \<Rightarrow> string \<Rightarrow> (eval_error + string) option" where
  "resolveReducedBodyArtifactRef jcs s sid name =
     (case map_of (StepPathIndex (sc_graph s)) sid of
        None \<Rightarrow> None
      | Some staticPath \<Rightarrow>
          (case SingleMapBodyShape staticPath of
             None \<Rightarrow> None
           | Some (mapPath, _) \<Rightarrow>
               (case instanceFromCtx s mapPath ''.item-'' of
                  Inl e \<Rightarrow> Some (Inl e)
                | Inr (Some _) \<Rightarrow> None
                | Inr None \<Rightarrow>
                    (case map_of (mapPathIndex (sc_graph s)) mapPath of
                       None \<Rightarrow> None
                     | Some (m, _) \<Rightarrow>
                         (case mp_Reduce m of
                            None \<Rightarrow> None
                          | Some r \<Rightarrow>
                              Some (case PathForName (rd_OutputFiles r) name of
                                      None \<Rightarrow> Inl (OtherError ''no named artifact'')
                                    | Some declaredPath \<Rightarrow>
                                        rbind (Substitute declaredPath
                                            (reduce_Resolve jcs (newReduceTemplateScope (sc_rs s) (sc_graph s) mapPath)))
                                          (ResolveArtifactPath s sid)))))))"

definition resolveNamedArtifactRef ::
  "(string \<Rightarrow> string option) \<Rightarrow> scope_state \<Rightarrow> string \<Rightarrow> string \<Rightarrow> eval_error + string" where
  "resolveNamedArtifactRef jcs s sid name =
     (case resolveReducedBodyArtifactRef jcs s sid name of
        Some r \<Rightarrow> r
      | None \<Rightarrow>
          (case resolveCallArtifactRef s sid name of
             Some r \<Rightarrow> r
           | None \<Rightarrow>
               let ofs = (case map_of (OutputFilesByStepID (sc_graph s)) sid of None \<Rightarrow> [] | Some o' \<Rightarrow> o')
               in case PathForName ofs name of
                    None \<Rightarrow> Inl (OtherError ''no named artifact'')
                  | Some declaredPath \<Rightarrow> ResolveDeclaredArtifactPath jcs s sid declaredPath))"

subsection \<open>Input files\<close>

text \<open>\<open>FetchError\<close> is an error that wraps \<open>errArtifactFetch\<close>; the step then aborts the run instead of failing.\<close>

datatype stage_error = FetchError | StageError

record resolved_input =
  ri_Path :: string
  ri_Content :: string
  ri_source :: string
  ri_ref :: string

definition RootModuleID :: string where "RootModuleID = []"

definition QualifiedAssetKey :: "string \<Rightarrow> string \<Rightarrow> string" where
  "QualifiedAssetKey moduleID assetID = (if moduleID = RootModuleID then assetID else moduleID @ ''/'' @ assetID)"

type_synonym getter = "string \<Rightarrow> blob_error + string"

definition fetch :: "getter \<Rightarrow> string \<Rightarrow> stage_error + string" where
  "fetch get ref = (case get ref of Inl _ \<Rightarrow> Inl FetchError | Inr b \<Rightarrow> Inr b)"

definition readRunStartedAssetFile :: "getter \<Rightarrow> asset_file \<Rightarrow> stage_error + string" where
  "readRunStartedAssetFile get f =
     rbind (fetch get (af_Ref f)) (\<lambda>b.
       if int (length b) \<noteq> af_Size f then Inl FetchError
       else if hex_encode (sha256 b) \<noteq> af_SHA256 f then Inl FetchError
       else Inr b)"

definition validAssetManifestPath :: "string \<Rightarrow> bool" where
  "validAssetManifestPath p =
     (p \<noteq> [] \<and> p \<noteq> ''.'' \<and> \<not> path_IsAbs p \<and> p = path_Clean p \<and> p \<noteq> ''..'' \<and> \<not> hasPrefix p ''../'')"

definition perm :: "eval_error + 'a \<Rightarrow> stage_error + 'a" where
  "perm r = (case r of Inl _ \<Rightarrow> Inl StageError | Inr x \<Rightarrow> Inr x)"

definition resolveSingleInputFileRef ::
  "(string \<Rightarrow> string option) \<Rightarrow> string \<Rightarrow> scope_state \<Rightarrow> string \<Rightarrow> getter \<Rightarrow> run_asset pmap \<Rightarrow>
     stage_error + (string \<times> string)" where
  "resolveSingleInputFileRef jcs rawRef s moduleID get assets =
     (case ParseArtifactRef rawRef of
        Some (sid, name) \<Rightarrow>
          rbind (perm (resolveNamedArtifactRef jcs s sid name)) (\<lambda>cas.
          rbind (fetch get cas) (\<lambda>b. Inr (cas, b)))
      | None \<Rightarrow>
          (case ParseAssetRef rawRef of
             None \<Rightarrow> Inl StageError
           | Some aid \<Rightarrow>
               (case map_of assets (QualifiedAssetKey moduleID aid) of
                  None \<Rightarrow> Inl FetchError
                | Some asset \<Rightarrow>
                    if ra_IsDir asset then Inl StageError
                    else (case ra_Files asset of
                            [f] \<Rightarrow> if af_Path f \<noteq> ''.'' then Inl FetchError
                                   else rbind (readRunStartedAssetFile get f) (\<lambda>b. Inr (af_Ref f, b))
                          | _ \<Rightarrow> Inl FetchError))))"

definition resolveSingleRefBytes ::
  "(string \<Rightarrow> string option) \<Rightarrow> string \<Rightarrow> scope_state \<Rightarrow> string \<Rightarrow> getter \<Rightarrow> run_asset pmap \<Rightarrow>
     stage_error + (string \<times> string)" where
  "resolveSingleRefBytes jcs rawRef s moduleID get assets =
     (case ParseWorkflowInputFileRef rawRef of
        Some name \<Rightarrow>
          rbind (perm (ResolveWorkflowInputFile s name)) (\<lambda>cas.
          rbind (fetch get cas) (\<lambda>b. Inr (cas, b)))
      | None \<Rightarrow>
          (case ParseAssetRef rawRef of
             Some aid \<Rightarrow>
               (case map_of assets (QualifiedAssetKey moduleID aid) of
                  Some a \<Rightarrow> if ra_IsDir a then Inl StageError
                             else resolveSingleInputFileRef jcs rawRef s moduleID get assets
                | None \<Rightarrow> resolveSingleInputFileRef jcs rawRef s moduleID get assets)
           | None \<Rightarrow> resolveSingleInputFileRef jcs rawRef s moduleID get assets))"

text \<open>A stable sort by a string key, for \<open>sort.Slice\<close>.\<close>

fun insert_by :: "('a \<Rightarrow> 'a \<Rightarrow> bool) \<Rightarrow> 'a \<Rightarrow> 'a list \<Rightarrow> 'a list" where
  "insert_by le x [] = [x]"
| "insert_by le x (y # ys) = (if le x y then x # y # ys else y # insert_by le x ys)"

definition sort_by :: "('a \<Rightarrow> 'a \<Rightarrow> bool) \<Rightarrow> 'a list \<Rightarrow> 'a list" where
  "sort_by le xs = foldr (insert_by le) xs []"

fun assetDirFiles :: "string \<Rightarrow> string \<Rightarrow> getter \<Rightarrow> asset_file list \<Rightarrow> stage_error + resolved_input list" where
  "assetDirFiles dst rawRef get [] = Inr []"
| "assetDirFiles dst rawRef get (f # fs) =
     (if \<not> validAssetManifestPath (af_Path f) then Inl FetchError
      else rbind (readRunStartedAssetFile get f) (\<lambda>b.
           rbind (assetDirFiles dst rawRef get fs) (\<lambda>rest.
             Inr (\<lparr>ri_Path = path_Join dst (af_Path f), ri_Content = b, ri_source = rawRef, ri_ref = af_Ref f\<rparr> # rest))))"

definition resolveAssetInputFiles ::
  "string \<Rightarrow> string \<Rightarrow> string \<Rightarrow> string \<Rightarrow> run_asset pmap \<Rightarrow> getter \<Rightarrow> stage_error + resolved_input list" where
  "resolveAssetInputFiles dst rawRef moduleID aid assets get =
     (case map_of assets (QualifiedAssetKey moduleID aid) of
        None \<Rightarrow> Inl FetchError
      | Some asset \<Rightarrow>
          if \<not> ra_IsDir asset then
            (case ra_Files asset of
               [f] \<Rightarrow> if af_Path f \<noteq> ''.'' then Inl FetchError
                      else rbind (readRunStartedAssetFile get f) (\<lambda>b.
                             Inr [\<lparr>ri_Path = dst, ri_Content = b, ri_source = rawRef, ri_ref = af_Ref f\<rparr>])
             | _ \<Rightarrow> Inl FetchError)
          else if ra_Files asset = [] then Inl FetchError
          else assetDirFiles dst rawRef get (sort_by (\<lambda>a b. str_le (af_Path a) (af_Path b)) (ra_Files asset)))"

definition resolveInputEntry ::
  "(string \<Rightarrow> string option) \<Rightarrow> scope_state \<Rightarrow> string \<Rightarrow> getter \<Rightarrow> run_asset pmap \<Rightarrow> string \<Rightarrow> string \<Rightarrow>
     stage_error + resolved_input list" where
  "resolveInputEntry jcs s moduleID get assets dst rawRef =
     rbind (perm (Substitute dst (Resolve s))) (\<lambda>resolvedDst.
       if \<not> path_IsAbs resolvedDst \<or> resolvedDst \<noteq> path_Clean resolvedDst then Inl StageError
       else let one = (\<lambda>(cas, b). Inr [\<lparr>ri_Path = resolvedDst, ri_Content = b, ri_source = rawRef, ri_ref = cas\<rparr>])
       in if ParseWorkflowInputFileRef rawRef \<noteq> None
          then rbind (resolveSingleRefBytes jcs rawRef s moduleID get assets) one
          else case ParseAssetRef rawRef of
                 Some aid \<Rightarrow> resolveAssetInputFiles resolvedDst rawRef moduleID aid assets get
               | None \<Rightarrow>
                   (case resolveSingleInputFileRef jcs rawRef s moduleID get assets of
                      Inl e \<Rightarrow> if ParseArtifactRef rawRef = None then Inl StageError else Inl e
                    | Inr r \<Rightarrow> one r))"

fun resolveInputEntries ::
  "(string \<Rightarrow> string option) \<Rightarrow> scope_state \<Rightarrow> string \<Rightarrow> getter \<Rightarrow> run_asset pmap \<Rightarrow> string pmap \<Rightarrow> string list \<Rightarrow>
     stage_error + resolved_input list" where
  "resolveInputEntries jcs s moduleID get assets inp [] = Inr []"
| "resolveInputEntries jcs s moduleID get assets inp (dst # dsts) =
     rbind (resolveInputEntry jcs s moduleID get assets dst (the (map_of inp dst))) (\<lambda>fs.
     rbind (resolveInputEntries jcs s moduleID get assets inp dsts) (\<lambda>rest. Inr (fs @ rest)))"

definition resolveInputFileEntries ::
  "(string \<Rightarrow> string option) \<Rightarrow> string pmap \<Rightarrow> scope_state \<Rightarrow> string \<Rightarrow> getter \<Rightarrow> run_asset pmap \<Rightarrow>
     stage_error + resolved_input list" where
  "resolveInputFileEntries jcs inp s moduleID get assets =
     resolveInputEntries jcs s moduleID get assets inp (slices_Sort (map fst inp))"

definition isInputFileAncestor :: "string \<Rightarrow> string \<Rightarrow> bool" where
  "isInputFileAncestor parent child =
     (if parent = ''/'' then child \<noteq> ''/'' else hasPrefix child (parent @ ''/''))"

definition input_le :: "resolved_input \<Rightarrow> resolved_input \<Rightarrow> bool" where
  "input_le a b = (if ri_Path a = ri_Path b then str_le (ri_source a) (ri_source b) else str_le (ri_Path a) (ri_Path b))"

fun adjacent_collision :: "resolved_input list \<Rightarrow> bool" where
  "adjacent_collision (prev # cur # rest) =
     (ri_Path prev = ri_Path cur \<or> isInputFileAncestor (ri_Path prev) (ri_Path cur) \<or> adjacent_collision (cur # rest))"
| "adjacent_collision _ = False"

text \<open>\<open>rejectInputFilePathCollisions\<close> sorts its argument in place; the sorted list is what is staged.\<close>

definition rejectInputFilePathCollisions :: "resolved_input list \<Rightarrow> stage_error + resolved_input list" where
  "rejectInputFilePathCollisions files =
     (let files = sort_by input_le files
      in if adjacent_collision files then Inl StageError else Inr files)"

definition inputFilesFromResolvedEntries :: "resolved_input list \<Rightarrow> stage_error + (string \<times> string) list" where
  "inputFilesFromResolvedEntries expanded =
     rbind (rejectInputFilePathCollisions expanded) (\<lambda>files. Inr (map (\<lambda>e. (ri_Path e, ri_Content e)) files))"

definition inputFileRefsFromResolvedEntries :: "resolved_input list \<Rightarrow> string list" where
  "inputFileRefsFromResolvedEntries expanded = filter (\<lambda>r. r \<noteq> []) (map ri_ref expanded)"

subsection \<open>Output files\<close>

record output_contract =
  oc_Format :: string
  oc_Schema :: "goval option"

definition resolveArtifactContract ::
  "(goval \<Rightarrow> bool) \<Rightarrow> (string \<Rightarrow> goval option) \<Rightarrow> output_file \<Rightarrow> string \<Rightarrow> run_asset pmap \<Rightarrow> getter \<Rightarrow>
     stage_error + output_contract option" where
  "resolveArtifactContract compiles unmarshal c moduleID assets get =
     (if of_Format c = [] \<and> of_Schema c = None \<and> of_SchemaRef c = [] then Inr None
      else if of_Format c \<noteq> [] \<and> of_Format c \<noteq> ''json'' \<and> of_Format c \<noteq> ''jsonl'' then Inl StageError
      else if (of_Schema c \<noteq> None \<or> of_SchemaRef c \<noteq> []) \<and> of_Format c = [] then Inl StageError
      else if of_Schema c \<noteq> None \<and> of_SchemaRef c \<noteq> [] then Inl StageError
      else if (case of_Schema c of None \<Rightarrow> False | Some sch \<Rightarrow> \<not> compiles sch) then Inl StageError
      else if of_SchemaRef c = [] then Inr (Some \<lparr>oc_Format = of_Format c, oc_Schema = of_Schema c\<rparr>)
      else case ParseAssetRef (of_SchemaRef c) of
             None \<Rightarrow> Inl StageError
           | Some aid \<Rightarrow>
               (case map_of assets (QualifiedAssetKey moduleID aid) of
                  None \<Rightarrow> Inl FetchError
                | Some asset \<Rightarrow>
                    if ra_IsDir asset then Inl FetchError
                    else (case ra_Files asset of
                            [f] \<Rightarrow>
                              if af_Path f \<noteq> ''.'' then Inl FetchError
                              else rbind (readRunStartedAssetFile get f) (\<lambda>raw.
                                case unmarshal raw of
                                  None \<Rightarrow> Inl StageError
                                | Some sch \<Rightarrow> if \<not> compiles sch then Inl StageError
                                    else Inr (Some \<lparr>oc_Format = of_Format c, oc_Schema = Some sch\<rparr>))
                          | _ \<Rightarrow> Inl FetchError)))"

definition resolveOutputFileContract ::
  "(goval \<Rightarrow> bool) \<Rightarrow> (string \<Rightarrow> goval option) \<Rightarrow> output_file \<Rightarrow> string \<Rightarrow> run_asset pmap \<Rightarrow> getter \<Rightarrow>
     stage_error + output_contract option" where
  "resolveOutputFileContract compiles unmarshal f moduleID assets get =
     (if of_Format f = [] \<and> of_Schema f = None \<and> of_SchemaRef f = [] then Inr None
      else if of_Path f = [] then Inl StageError
      else resolveArtifactContract compiles unmarshal f moduleID assets get)"

fun resolveOutputFilesFrom ::
  "(goval \<Rightarrow> bool) \<Rightarrow> (string \<Rightarrow> goval option) \<Rightarrow> output_file list \<Rightarrow> scope \<Rightarrow> string \<Rightarrow> run_asset pmap \<Rightarrow> getter \<Rightarrow>
     string list \<Rightarrow> stage_error + (string \<times> output_contract option) list" where
  "resolveOutputFilesFrom compiles unmarshal [] sc moduleID assets get seenPaths = Inr []"
| "resolveOutputFilesFrom compiles unmarshal (f # fs) sc moduleID assets get seenPaths =
     rbind (perm (Substitute (of_Path f) sc)) (\<lambda>p.
       if p \<in> set seenPaths then Inl StageError
       else rbind (resolveOutputFileContract compiles unmarshal f moduleID assets get) (\<lambda>c.
            rbind (resolveOutputFilesFrom compiles unmarshal fs sc moduleID assets get (p # seenPaths)) (\<lambda>rest.
              Inr ((p, c) # rest))))"

text \<open>\<open>resolveOutputFiles\<close>: the paths in order, each with its contract if it has one.\<close>

definition resolveOutputFiles ::
  "(goval \<Rightarrow> bool) \<Rightarrow> (string \<Rightarrow> goval option) \<Rightarrow> output_file list \<Rightarrow> scope \<Rightarrow> string \<Rightarrow> run_asset pmap \<Rightarrow> getter \<Rightarrow>
     stage_error + (string \<times> output_contract option) list" where
  "resolveOutputFiles compiles unmarshal ofs sc moduleID assets get =
     resolveOutputFilesFrom compiles unmarshal ofs sc moduleID assets get []"


subsection \<open>Facts about slash paths\<close>

lemma splitSlash_not_Nil [simp]: "splitSlash s \<noteq> []"
  by (induction s) (auto split: list.splits)

lemma joinSlash_splitSlash [simp]: "joinSlash (splitSlash s) = s"
proof (induction s)
  case (Cons c s)
  then show ?case
    by (cases "splitSlash s" rule: joinSlash.cases) auto
qed simp

lemma splitSlash_plain: "CHR ''/'' \<notin> set s \<Longrightarrow> splitSlash s = [s]"
  by (induction s) auto

lemma splitSlash_append: "splitSlash (a @ CHR ''/'' # b) = splitSlash a @ splitSlash b"
  by (induction a) (auto split: list.splits)

definition normal_seg :: "string \<Rightarrow> bool" where
  "normal_seg s = (s \<noteq> [] \<and> s \<noteq> ''.'' \<and> s \<noteq> ''..'' \<and> CHR ''/'' \<notin> set s)"

lemma splitSlash_no_slash: "x \<in> set (splitSlash s) \<Longrightarrow> CHR ''/'' \<notin> set x"
proof (induction s arbitrary: x)
  case (Cons c s)
  then show ?case by (cases "splitSlash s") (auto split: if_splits)
qed simp

lemma splitSlash_joinSlash:
  "ps \<noteq> [] \<Longrightarrow> \<forall>p \<in> set ps. CHR ''/'' \<notin> set p \<Longrightarrow> splitSlash (joinSlash ps) = ps"
  by (induction ps rule: joinSlash.induct) (simp_all add: splitSlash_plain splitSlash_append)

lemma joinSlash_append: "ps \<noteq> [] \<Longrightarrow> qs \<noteq> [] \<Longrightarrow> joinSlash (ps @ qs) = joinSlash ps @ ''/'' @ joinSlash qs"
proof (induction ps rule: joinSlash.induct)
  case (2 p)
  then show ?case by (cases qs) auto
qed simp_all

lemma cleanSegs_normal: "\<forall>s \<in> set segs. normal_seg s \<Longrightarrow> cleanSegs rooted out segs = rev out @ segs"
  by (induction segs arbitrary: out) (auto simp: normal_seg_def)

text \<open>The result of cleaning: parent steps first, none when rooted, then normal segments.\<close>

definition clean_shape :: "bool \<Rightarrow> string list \<Rightarrow> bool" where
  "clean_shape rooted out =
     (\<exists>k ns. out = replicate k ''..'' @ ns \<and> (\<forall>s \<in> set ns. normal_seg s) \<and> (rooted \<longrightarrow> k = 0))"

lemma clean_shape_pop:
  assumes "clean_shape rooted (rev (p # ps))"
  shows "if p = ''..'' then clean_shape rooted (rev (''..'' # p # ps)) else clean_shape rooted (rev ps)"
proof -
  obtain k ns where e: "rev ps @ [p] = replicate k ''..'' @ ns" and ns: "\<forall>s \<in> set ns. normal_seg s" and r: "rooted \<longrightarrow> k = 0"
    using assms by (auto simp: clean_shape_def)
  show ?thesis
  proof (cases ns rule: rev_cases)
    case Nil
    with e obtain j where j: "k = Suc j" "p = ''..''" "rev ps = replicate j ''..''"
      by (cases k) (auto simp: replicate_append_same [symmetric])
    have "rev (''..'' # p # ps) = replicate (Suc (Suc j)) ''..''"
      using j by (simp add: replicate_append_same)
    then show ?thesis using j r by (auto simp: clean_shape_def intro!: exI [of _ "Suc (Suc j)"] exI [of _ "[]"])
  next
    case (snoc ms m)
    with e ns have "p = m" "normal_seg m" "rev ps = replicate k ''..'' @ ms" by auto
    with r ns snoc show ?thesis by (auto simp: clean_shape_def normal_seg_def)
  qed
qed

lemma clean_shape_add: "clean_shape rooted (rev out) \<Longrightarrow> normal_seg seg \<Longrightarrow> clean_shape rooted (rev (seg # out))"
  unfolding clean_shape_def
  by (elim exE conjE, rule_tac x = k in exI, rule_tac x = "ns @ [seg]" in exI) auto

lemma cleanSegs_shape:
  "clean_shape rooted (rev out) \<Longrightarrow> \<forall>s \<in> set segs. CHR ''/'' \<notin> set s \<Longrightarrow> clean_shape rooted (cleanSegs rooted out segs)"
proof (induction rooted out segs rule: cleanSegs.induct)
  case (2 rooted out seg segs)
  consider (skip) "seg = [] \<or> seg = ''.''" | (up_root) "seg = ''..''" "out = []" | (up) p ps where "seg = ''..''" "out = p # ps"
    | (add) "normal_seg seg" using "2.prems"(2) by (cases out) (auto simp: normal_seg_def)
  then show ?case
  proof cases
    case skip
    then show ?thesis using "2.IH"(1) "2.prems" by auto
  next
    case up_root
    have one: "clean_shape False [''..'']" "clean_shape True []"
      by (auto simp: clean_shape_def intro!: exI [of _ 1] exI [of _ "[]"])
    then show ?thesis using up_root "2.IH"(2,3) "2.prems" by (cases rooted) simp_all
  next
    case up
    then show ?thesis using "2.IH"(4,5) "2.prems" clean_shape_pop [of rooted p ps] by (cases "p = ''..''") simp_all
  next
    case add
    then have "\<not> (seg = [] \<or> seg = ''.'')" "seg \<noteq> ''..''" by (auto simp: normal_seg_def)
    then show ?thesis using "2.IH"(6) "2.prems" clean_shape_add [OF "2.prems"(1) add] by simp
  qed
qed simp

lemma joinSlash_Cons: "ps \<noteq> [] \<Longrightarrow> joinSlash (p # ps) = p @ ''/'' @ joinSlash ps"
  by (cases ps) auto

lemma valid_manifest_segs:
  assumes "validAssetManifestPath p"
  shows "\<exists>ns. ns \<noteq> [] \<and> p = joinSlash ns \<and> (\<forall>s \<in> set ns. normal_seg s)"
proof -
  define out where "out = cleanSegs False [] (splitSlash p)"
  have v: "p \<noteq> []" "\<not> path_IsAbs p" "p = path_Clean p" "p \<noteq> ''.''" "p \<noteq> ''..''" "\<not> hasPrefix p ''../''"
    using assms by (auto simp: validAssetManifestPath_def)
  have p: "p = joinSlash out" "out \<noteq> []"
    using v(1-4) by (auto simp: path_Clean_def out_def [symmetric] Let_def split: if_splits)
  have "clean_shape False out"
    unfolding out_def using splitSlash_no_slash by (intro cleanSegs_shape) (auto simp: clean_shape_def)
  then obtain k ns where o: "out = replicate k ''..'' @ ns" and ns: "\<forall>s \<in> set ns. normal_seg s"
    by (auto simp: clean_shape_def)
  have "k = 0"
  proof (rule ccontr)
    assume "k \<noteq> 0"
    then obtain rest where rest: "out = ''..'' # rest" using o by (cases k) auto
    show False
    proof (cases rest)
      case Nil
      then show ?thesis using p(1) rest v(5) by simp
    next
      case (Cons q qs)
      then have "p = ''../'' @ joinSlash rest" using p(1) rest by (simp add: joinSlash_Cons)
      then show ?thesis using v(6) hasPrefix_append by metis
    qed
  qed
  then show ?thesis using o ns p by auto
qed

lemma clean_abs_segs:
  assumes "path_IsAbs d" and "d = path_Clean d"
  shows "\<exists>ns. d = ''/'' @ joinSlash ns \<and> (\<forall>s \<in> set ns. normal_seg s)"
proof -
  define out where "out = cleanSegs True [] (splitSlash d)"
  have "d \<noteq> []" using assms(1) by (auto simp: path_IsAbs_def hasPrefix_def)
  then have "d = ''/'' @ joinSlash out" using assms by (simp add: path_Clean_def out_def Let_def)
  moreover have "clean_shape True out"
    unfolding out_def using splitSlash_no_slash by (intro cleanSegs_shape) (auto simp: clean_shape_def)
  ultimately show ?thesis by (auto simp: clean_shape_def)
qed

lemma join_below:
  assumes "path_IsAbs dst" and "dst = path_Clean dst" and "validAssetManifestPath p"
  shows "path_Join dst p = (if dst = ''/'' then ''/'' @ p else dst @ ''/'' @ p)"
proof -
  obtain ds where d: "dst = ''/'' @ joinSlash ds" "\<forall>s \<in> set ds. normal_seg s" using clean_abs_segs [OF assms(1,2)] by blast
  obtain ns where n: "ns \<noteq> []" "p = joinSlash ns" "\<forall>s \<in> set ns. normal_seg s" using valid_manifest_segs [OF assms(3)] by blast
  have ns: "splitSlash p = ns" unfolding n(2) using n(1,3) by (intro splitSlash_joinSlash) (auto simp: normal_seg_def)
  have pn: "p \<noteq> []" using assms(3) by (simp add: validAssetManifestPath_def)
  let ?q = "dst @ ''/'' @ p"
  have abs: "path_IsAbs ?q" using d by (simp add: path_IsAbs_def hasPrefix_def)
  have root: "dst = ''/'' \<longleftrightarrow> ds = []"
    using d by (cases ds rule: joinSlash.cases) (auto simp: normal_seg_def)
  have "cleanSegs True [] (splitSlash ?q) = ds @ ns"
  proof (cases "ds = []")
    case True
    then have "splitSlash ?q = [[], []] @ ns" using d ns by (simp add: splitSlash_append [of "''/''" p, simplified])
    then show ?thesis using True n(3) by (simp add: cleanSegs_normal)
  next
    case False
    have "splitSlash dst = [] # ds" using d False splitSlash_joinSlash [of ds] by (auto simp: normal_seg_def)
    then have "splitSlash ?q = [] # ds @ ns" using ns by (simp add: splitSlash_append)
    then show ?thesis using d(2) n(3) cleanSegs_normal [of "ds @ ns" True "[]"] by auto
  qed
  then have "path_Join dst p = ''/'' @ joinSlash (ds @ ns)"
    using d(1) pn abs by (simp add: path_Join_def path_Clean_def Let_def)
  then show ?thesis using root d(1) n(1,2) joinSlash_append [of ds ns] by (cases "ds = []") simp_all
qed

lemma assetDirFiles_below:
  assumes "path_IsAbs dst" and "dst = path_Clean dst"
  shows "assetDirFiles dst rawRef get fs = Inr out \<Longrightarrow>
     list_all2 (\<lambda>f e. ri_Path e = (if dst = ''/'' then ''/'' @ af_Path f else dst @ ''/'' @ af_Path f)
        \<and> isInputFileAncestor dst (ri_Path e) \<and> get (af_Ref f) = Inr (ri_Content e)
        \<and> hex_encode (sha256 (ri_Content e)) = af_SHA256 f) fs out"
proof (induction fs arbitrary: out)
  case (Cons f fs)
  then obtain b rest where v: "validAssetManifestPath (af_Path f)" and b: "readRunStartedAssetFile get f = Inr b"
    and rest: "assetDirFiles dst rawRef get fs = Inr rest"
    and out: "out = \<lparr>ri_Path = path_Join dst (af_Path f), ri_Content = b, ri_source = rawRef, ri_ref = af_Ref f\<rparr> # rest"
    by (auto split: if_splits)
  have "path_Join dst (af_Path f) = (if dst = ''/'' then ''/'' @ af_Path f else dst @ ''/'' @ af_Path f)"
    by (rule join_below [OF assms v])
  moreover have "isInputFileAncestor dst (if dst = ''/'' then ''/'' @ af_Path f else dst @ ''/'' @ af_Path f)"
    using v hasPrefix_append [of "dst @ ''/''" "af_Path f"]
    by (auto simp: isInputFileAncestor_def validAssetManifestPath_def)
  moreover have "get (af_Ref f) = Inr b \<and> hex_encode (sha256 b) = af_SHA256 f"
    using b by (auto simp: readRunStartedAssetFile_def fetch_def split: sum.splits if_splits)
  ultimately show ?case using Cons.IH [OF rest] out by simp
qed simp

text \<open>
  C14: Staged assets stay where they were asked for. When the files of a directory asset are resolved
  below a clean absolute destination, every one of them lands strictly below that destination, at
  the destination followed by its manifest path, and with the recorded content: no manifest path
  (absolute, with parent steps, unclean) escapes, because such a manifest is refused.
\<close>

theorem asset_files_stay_below_destination:
  assumes "path_IsAbs dst" and "dst = path_Clean dst"
    and "map_of assets (QualifiedAssetKey moduleID aid) = Some asset" and "ra_IsDir asset"
    and "resolveAssetInputFiles dst rawRef moduleID aid assets get = Inr out"
  shows "list_all2 (\<lambda>f e. ri_Path e = (if dst = ''/'' then ''/'' @ af_Path f else dst @ ''/'' @ af_Path f)
        \<and> isInputFileAncestor dst (ri_Path e) \<and> get (af_Ref f) = Inr (ri_Content e)
        \<and> hex_encode (sha256 (ri_Content e)) = af_SHA256 f)
      (sort_by (\<lambda>a b. str_le (af_Path a) (af_Path b)) (ra_Files asset)) out"
  using assms(3-5) by (intro assetDirFiles_below [OF assms(1,2)]) (simp add: resolveAssetInputFiles_def split: if_splits)

theorem asset_files_stay_below_destination_witness:
  "let f = \<lparr>af_Path = ''a/b'', af_Ref = ''r'', af_Size = 0, af_SHA256 = hex_encode (sha256 [])\<rparr>;
       asset = \<lparr>ra_DeclaredPath = [], ra_IsDir = True, ra_Files = [f]\<rparr>
   in \<exists>e. resolveAssetInputFiles ''/w'' [] [] ''x'' [(''x'', asset)] (\<lambda>_. Inr []) = Inr [e] \<and> ri_Path e = ''/w/a/b''"
proof -
  let ?f = "\<lparr>af_Path = ''a/b'', af_Ref = ''r'', af_Size = 0, af_SHA256 = hex_encode (sha256 [])\<rparr>"
  let ?asset = "\<lparr>ra_DeclaredPath = [], ra_IsDir = True, ra_Files = [?f]\<rparr>"
  have dst: "path_IsAbs ''/w''" "''/w'' = path_Clean ''/w''" by code_simp+
  have valid: "validAssetManifestPath ''a/b''" by code_simp
  have srt: "sort_by (\<lambda>a b. str_le (af_Path a) (af_Path b)) [?f] = [?f]" by (simp add: sort_by_def)
  have m: "map_of [(''x'', ?asset)] (QualifiedAssetKey [] ''x'') = Some ?asset"
    by (simp add: QualifiedAssetKey_def RootModuleID_def)
  obtain e where r: "resolveAssetInputFiles ''/w'' [] [] ''x'' [(''x'', ?asset)] (\<lambda>_. Inr []) = Inr [e]"
    unfolding resolveAssetInputFiles_def m using srt valid by (simp add: readRunStartedAssetFile_def fetch_def)
  from asset_files_stay_below_destination [OF dst m _ r] have "ri_Path e = ''/w/a/b''" by (simp add: srt)
  with r show ?thesis by (simp add: Let_def)
qed

lemma mset_insert_by [simp]: "mset (insert_by le x xs) = add_mset x (mset xs)"
  by (induction xs) auto

lemma mset_sort_by [simp]: "mset (sort_by le xs) = mset xs"
proof -
  have "mset (foldr (insert_by le) xs ys) = mset xs + mset ys" for ys by (induction xs) auto
  then show ?thesis by (simp add: sort_by_def)
qed

lemma set_sort_by [simp]: "set (sort_by le xs) = set xs"
  by (metis mset_sort_by mset_eq_setD)

lemma input_le_total: "input_le a b \<or> input_le b a"
  using str_le_total by (auto simp: input_le_def)

lemma input_le_path: "input_le a b \<Longrightarrow> str_le (ri_Path a) (ri_Path b)"
  using str_le_refl by (auto simp: input_le_def split: if_splits)

fun chain :: "resolved_input list \<Rightarrow> bool" where
  "chain (a # b # rest) = (str_le (ri_Path a) (ri_Path b) \<and> chain (b # rest))"
| "chain _ = True"

lemma chain_insert: "chain xs \<Longrightarrow> chain (insert_by input_le x xs)"
  by (induction xs rule: chain.induct) (use input_le_path input_le_total in \<open>auto split: if_splits\<close>)

lemma chain_sort: "chain (sort_by input_le xs)"
  unfolding sort_by_def by (induction xs) (simp_all add: chain_insert)

lemma chain_le: "chain (a # xs) \<Longrightarrow> x \<in> set xs \<Longrightarrow> str_le (ri_Path a) (ri_Path x)"
proof (induction xs arbitrary: a)
  case (Cons b xs)
  then show ?case using str_le_trans by auto
qed simp

lemma chain_distinct: "chain xs \<Longrightarrow> \<not> adjacent_collision xs \<Longrightarrow> distinct (map ri_Path xs)"
proof (induction xs rule: adjacent_collision.induct)
  case (1 a b rest)
  have "ri_Path a \<noteq> ri_Path x" if "x \<in> set rest" for x
  proof
    assume "ri_Path a = ri_Path x"
    then have "str_le (ri_Path b) (ri_Path a)" using chain_le [of b rest x] 1(2) that by simp
    then show False using str_le_antisym 1(2,3) by auto
  qed
  then show ?case using 1 by auto
qed simp_all

text \<open>
  The collision check on staged files is exact for equal paths and incomplete for nested ones.
  What it accepts has pairwise distinct paths and the same files; but it compares only neighbours
  in the sorted order, and \<^verbatim>\<open>-\<close> sorts before \<^verbatim>\<open>/\<close>, so a file \<^verbatim>\<open>/a\<close> that is also the directory of
  \<^verbatim>\<open>/a/c\<close> is accepted as soon as a path such as \<^verbatim>\<open>/a-b\<close> lies between them.
\<close>

lemma input_collision_check_misses_ancestor:
  "(case rejectInputFilePathCollisions files of
      Inl _ \<Rightarrow> True
    | Inr out \<Rightarrow> mset out = mset files \<and> distinct (map ri_Path out))
   \<and> (let f = (\<lambda>p. \<lparr>ri_Path = p, ri_Content = [], ri_source = p, ri_ref = []\<rparr>)
      in isInputFileAncestor ''/a'' ''/a/c''
         \<and> rejectInputFilePathCollisions [f ''/a'', f ''/a/c''] = Inl StageError
         \<and> rejectInputFilePathCollisions [f ''/a'', f ''/a/c'', f ''/a-b'']
             = Inr [f ''/a'', f ''/a-b'', f ''/a/c''])"
proof
  show "case rejectInputFilePathCollisions files of
      Inl _ \<Rightarrow> True | Inr out \<Rightarrow> mset out = mset files \<and> distinct (map ri_Path out)"
    using chain_distinct [OF chain_sort, of files] by (auto simp: rejectInputFilePathCollisions_def Let_def)
next
  show "let f = (\<lambda>p. \<lparr>ri_Path = p, ri_Content = [], ri_source = p, ri_ref = []\<rparr>)
      in isInputFileAncestor ''/a'' ''/a/c''
         \<and> rejectInputFilePathCollisions [f ''/a'', f ''/a/c''] = Inl StageError
         \<and> rejectInputFilePathCollisions [f ''/a'', f ''/a/c'', f ''/a-b'']
             = Inr [f ''/a'', f ''/a-b'', f ''/a/c'']"
    by code_simp
qed

end
