(* ===== verification/Diagnostics.thy ===== *)
theory Diagnostics
  imports Run_State
begin

text \<open>
  The diagnostics of the workflow validator (src/ir/diagnostic.go, the collector of
  src/ir/validate.go) and the order they are reported in.

  A check is modelled by the list of diagnostics it appends to the collector. The source file of a
  module is filled in by \<open>Validate\<close>, so a check leaves it empty. The English text of a message is
  not modelled: \<open>d_Msg\<close> holds the parts of it that vary, and the text they are formatted to is the
  parameter \<open>fmt\<close> of the comparison.
\<close>

subsection \<open>Diagnostics\<close>

datatype severity = Error | Warning

record diagnostic =
  d_Severity :: severity
  d_Source :: string
  d_Path :: string
  d_Code :: string
  d_Msg :: "string list"

definition errf :: "string \<Rightarrow> string \<Rightarrow> string list \<Rightarrow> diagnostic list" where
  "errf path code msg = [\<lparr>d_Severity = Error, d_Source = [], d_Path = path, d_Code = code, d_Msg = msg\<rparr>]"

definition warnf :: "string \<Rightarrow> string \<Rightarrow> string list \<Rightarrow> diagnostic list" where
  "warnf path code msg = [\<lparr>d_Severity = Warning, d_Source = [], d_Path = path, d_Code = code, d_Msg = msg\<rparr>]"

definition HasErrors :: "diagnostic list \<Rightarrow> bool" where
  "HasErrors ds = list_ex (\<lambda>d. d_Severity d = Error) ds"

text \<open>The diagnostics of a conditional report.\<close>

definition diag_if :: "bool \<Rightarrow> diagnostic list \<Rightarrow> diagnostic list" where
  "diag_if b ds = (if b then ds else [])"

lemma HasErrors_simps [simp]:
  "\<not> HasErrors []"
  "HasErrors (errf path code msg)"
  "\<not> HasErrors (warnf path code msg)"
  "HasErrors (ds @ es) \<longleftrightarrow> HasErrors ds \<or> HasErrors es"
  "HasErrors (diag_if b ds) \<longleftrightarrow> b \<and> HasErrors ds"
  by (simp_all add: HasErrors_def errf_def warnf_def diag_if_def)

lemma HasErrors_concat [simp]: "HasErrors (concat dss) \<longleftrightarrow> (\<exists>ds \<in> set dss. HasErrors ds)"
  by (induction dss) auto

subsection \<open>The order of a report\<close>

definition diag_less :: "(diagnostic \<Rightarrow> string) \<Rightarrow> diagnostic \<Rightarrow> diagnostic \<Rightarrow> bool" where
  "diag_less fmt a b =
     (if d_Code a \<noteq> d_Code b then str_le (d_Code a) (d_Code b)
      else if d_Source a \<noteq> d_Source b then str_le (d_Source a) (d_Source b)
      else if d_Path a \<noteq> d_Path b then str_le (d_Path a) (d_Path b)
      else fmt a \<noteq> fmt b \<and> str_le (fmt a) (fmt b))"

text \<open>The inner loop of \<open>sortDiagnostics\<close>: the entry at \<open>j\<close> moves left past larger ones.\<close>

fun sift :: "(diagnostic \<Rightarrow> string) \<Rightarrow> diagnostic list \<Rightarrow> nat \<Rightarrow> diagnostic list" where
  "sift fmt ds 0 = ds"
| "sift fmt ds (Suc j) =
     (if diag_less fmt (ds ! Suc j) (ds ! j) then sift fmt (ds[Suc j := ds ! j, j := ds ! Suc j]) j else ds)"

definition sortDiagnostics :: "(diagnostic \<Rightarrow> string) \<Rightarrow> diagnostic list \<Rightarrow> diagnostic list" where
  "sortDiagnostics fmt ds = fold (\<lambda>i ds. sift fmt ds i) [1..<length ds] ds"

text \<open>What the comparison reads of a diagnostic: everything but its severity.\<close>

definition diag_key :: "(diagnostic \<Rightarrow> string) \<Rightarrow> diagnostic \<Rightarrow> string list" where
  "diag_key fmt d = [d_Code d, d_Source d, d_Path d, fmt d]"

fun key_le :: "string list \<Rightarrow> string list \<Rightarrow> bool" where
  "key_le [] t = True"
| "key_le (c # s) [] = False"
| "key_le (c # s) (d # t) = (if c = d then key_le s t else str_le c d)"

lemma key_le_total: "key_le s t \<or> key_le t s"
  by (induction s t rule: key_le.induct) (auto simp: str_le_total)

lemma key_le_antisym: "key_le s t \<Longrightarrow> key_le t s \<Longrightarrow> s = t"
  by (induction s t rule: key_le.induct) (auto split: if_splits dest: str_le_antisym elim: key_le.elims)

lemma key_le_trans: "key_le s t \<Longrightarrow> key_le t u \<Longrightarrow> key_le s u"
proof (induction s t arbitrary: u rule: key_le.induct)
  case (3 c s d t)
  then show ?case by (cases u) (auto split: if_splits dest: str_le_antisym intro: str_le_trans)
qed simp_all

lemma diag_less_key: "diag_less fmt a b \<longleftrightarrow> \<not> key_le (diag_key fmt b) (diag_key fmt a)"
  using str_le_total str_le_antisym str_le_refl by (auto simp: diag_less_def diag_key_def)

subsection \<open>Sortedness and determinism\<close>

definition diag_le :: "(diagnostic \<Rightarrow> string) \<Rightarrow> diagnostic \<Rightarrow> diagnostic \<Rightarrow> bool" where
  "diag_le fmt a b = key_le (diag_key fmt a) (diag_key fmt b)"

lemma length_sift [simp]: "length (sift fmt ds j) = length ds"
  by (induction fmt ds j rule: sift.induct) auto

lemma mset_sift: "j < length ds \<Longrightarrow> mset (sift fmt ds j) = mset ds"
proof (induction fmt ds j rule: sift.induct)
  case (2 fmt ds j)
  then show ?case using mset_swap [of j ds "Suc j"] by simp
qed simp

lemma sift_nth_above: "j < i \<Longrightarrow> sift fmt ds j ! i = ds ! i"
  by (induction fmt ds j rule: sift.induct) auto

lemma take_sift_set: "j < length ds \<Longrightarrow> set (take (Suc j) (sift fmt ds j)) = set (take (Suc j) ds)"
proof -
  assume j: "j < length ds"
  have "drop (Suc j) (sift fmt ds j) = drop (Suc j) ds"
    by (rule nth_equalityI) (simp_all add: sift_nth_above)
  moreover have "mset (take (Suc j) (sift fmt ds j)) + mset (drop (Suc j) (sift fmt ds j))
      = mset (take (Suc j) ds) + mset (drop (Suc j) ds)"
    using mset_sift [OF j] by (metis append_take_drop_id mset_append)
  ultimately show ?thesis by (metis add_right_cancel set_mset_mset)
qed

text \<open>The prefix before the moved entry is sorted, and the entry belongs after none of it that it passed.\<close>

lemma sift_sorted:
  assumes "j < length ds" "sorted_wrt (diag_le fmt) (take j ds)"
  shows "sorted_wrt (diag_le fmt) (take (Suc j) (sift fmt ds j))"
  using assms
proof (induction fmt ds j rule: sift.induct)
  case (1 fmt ds)
  then show ?case by (cases ds) auto
next
  case (2 fmt ds j)
  let ?x = "ds ! Suc j" and ?y = "ds ! j"
  from "2.prems"(1) have take: "take (Suc (Suc j)) ds = take (Suc j) ds @ [?x]" "take (Suc j) ds = take j ds @ [?y]"
    by (simp_all add: take_Suc_conv_app_nth)
  show ?case
  proof (cases "diag_less fmt ?x ?y")
    case True
    let ?ds = "ds[Suc j := ?y, j := ?x]"
    from "2.prems" have len: "j < length ?ds" by simp
    have pre: "take j ?ds = take j ds" by simp
    have srt: "sorted_wrt (diag_le fmt) (take (Suc j) (sift fmt ?ds j))"
      using "2.IH" [OF True len] "2.prems"(2) unfolding pre by (simp add: take sorted_wrt_append)
    have at: "sift fmt ?ds j ! Suc j = ?y" using "2.prems"(1) by (simp add: sift_nth_above)
    have "set (take (Suc j) (sift fmt ?ds j)) = insert ?x (set (take j ds))"
      unfolding take_sift_set [OF len] using "2.prems"(1) by (simp add: take_Suc_conv_app_nth)
    moreover have "diag_le fmt z ?y" if "z \<in> insert ?x (set (take j ds))" for z
      using that True "2.prems"(2) key_le_total by (auto simp: take sorted_wrt_append diag_less_key diag_le_def)
    ultimately show ?thesis using True srt at "2.prems"(1)
      by (simp add: take_Suc_conv_app_nth [of "Suc j"] sorted_wrt_append)
  next
    case False
    then have xy: "diag_le fmt ?y ?x" by (simp add: diag_less_key diag_le_def)
    moreover have "diag_le fmt z ?x" if "z \<in> set (take j ds)" for z
      using that xy "2.prems"(2) key_le_trans by (auto simp: take sorted_wrt_append diag_le_def)
    ultimately show ?thesis using False "2.prems"(2) by (auto simp: take sorted_wrt_append)
  qed
qed

lemma sort_prefix:
  assumes "n \<le> length ds"
  shows "mset (fold (\<lambda>i ds. sift fmt ds i) [1..<n] ds) = mset ds \<and>
    sorted_wrt (diag_le fmt) (take n (fold (\<lambda>i ds. sift fmt ds i) [1..<n] ds))"
  using assms
proof (induction n)
  case (Suc n)
  let ?f = "fold (\<lambda>i ds. sift fmt ds i) [1..<n] ds"
  from Suc have ih: "mset ?f = mset ds" "sorted_wrt (diag_le fmt) (take n ?f)" by simp_all
  from ih(1) have "length ?f = length ds" by (metis size_mset)
  with Suc.prems have n: "n < length ?f" by simp
  show ?case
  proof (cases "n = 0")
    case True
    with n show ?thesis by (cases ds) auto
  next
    case False
    with ih n mset_sift [OF n] sift_sorted [OF n ih(2)] show ?thesis by simp
  qed
qed simp

lemma sortDiagnostics_sorted:
  "mset (sortDiagnostics fmt ds) = mset ds" "sorted_wrt (diag_le fmt) (sortDiagnostics fmt ds)"
  using sort_prefix [of "length ds" ds fmt] unfolding sortDiagnostics_def by (metis order_refl mset_eq_length take_all)+

lemma HasErrors_sort: "HasErrors (sortDiagnostics fmt ds) \<longleftrightarrow> HasErrors ds"
  using mset_eq_setD [OF sortDiagnostics_sorted(1)] by (simp add: HasErrors_def list_ex_iff)

lemma sorted_unique:
  assumes "mset xs = mset ys" "sorted_wrt (diag_le fmt) xs" "sorted_wrt (diag_le fmt) ys"
    "inj_on (diag_key fmt) (set xs)"
  shows "xs = ys"
  using assms
proof (induction xs arbitrary: ys)
  case (Cons x xs)
  then obtain y zs where ys: "ys = y # zs" by (cases ys) auto
  from Cons.prems(1) have sets: "set (x # xs) = set ys" by (metis mset_eq_setD)
  have refl: "diag_le fmt z z" for z using key_le_total by (auto simp: diag_le_def)
  from sets ys have "y \<in> set (x # xs)" "x \<in> set (y # zs)" by auto
  then have "diag_le fmt x y" "diag_le fmt y x" using Cons.prems(2,3) ys refl by auto
  then have "diag_key fmt x = diag_key fmt y" using key_le_antisym by (simp add: diag_le_def)
  with Cons.prems(4) sets ys have "x = y" by (metis inj_onD list.set_intros(1))
  with Cons ys show ?case by simp
qed simp

text \<open>
  C12: The report of the validator does not depend on the order in which Go iterates over its maps.
  Two runs that collect the same diagnostics in different orders report the same list, in increasing
  order of code, source, path and text, as long as no two diagnostics differ in their severity alone.
\<close>

theorem report_is_deterministic:
  assumes "mset ds = mset es" and "inj_on (\<lambda>d. (d_Code d, d_Source d, d_Path d, fmt d)) (set ds)"
  shows "sortDiagnostics fmt ds = sortDiagnostics fmt es
    \<and> sorted_wrt (\<lambda>a b. \<not> diag_less fmt b a) (sortDiagnostics fmt ds)"
proof
  have "inj_on (diag_key fmt) (set ds)"
    using assms(2) by (auto simp: inj_on_def diag_key_def)
  then show "sortDiagnostics fmt ds = sortDiagnostics fmt es"
    using assms(1) sortDiagnostics_sorted [of fmt ds] sortDiagnostics_sorted [of fmt es]
    by (metis mset_eq_setD sorted_unique)
  show "sorted_wrt (\<lambda>a b. \<not> diag_less fmt b a) (sortDiagnostics fmt ds)"
    using sortDiagnostics_sorted(2) by (simp add: diag_less_key diag_le_def [abs_def])
qed

theorem report_is_deterministic_witness:
  "let a = \<lparr>d_Severity = Error, d_Source = [], d_Path = ''b'', d_Code = ''AWF1004'', d_Msg = []\<rparr>;
       b = \<lparr>d_Severity = Warning, d_Source = [], d_Path = ''a'', d_Code = ''AWF1004'', d_Msg = []\<rparr>
   in sortDiagnostics (\<lambda>_. []) [a, b] = sortDiagnostics (\<lambda>_. []) [b, a]
      \<and> sortDiagnostics (\<lambda>_. []) [a, b] = [b, a]"
proof -
  let ?a = "\<lparr>d_Severity = Error, d_Source = [], d_Path = ''b'', d_Code = ''AWF1004'', d_Msg = []\<rparr>"
  let ?b = "\<lparr>d_Severity = Warning, d_Source = [], d_Path = ''a'', d_Code = ''AWF1004'', d_Msg = []\<rparr>"
  have "mset [?a, ?b] = mset [?b, ?a]" by simp
  moreover have "inj_on (\<lambda>d. (d_Code d, d_Source d, d_Path d, (\<lambda>_. []) d)) (set [?a, ?b])" by (simp add: inj_on_def)
  ultimately have "sortDiagnostics (\<lambda>_. []) [?a, ?b] = sortDiagnostics (\<lambda>_. []) [?b, ?a]"
    using report_is_deterministic [of "[?a, ?b]" "[?b, ?a]" "\<lambda>_. []"] by simp
  moreover have "sortDiagnostics (\<lambda>_. []) [?a, ?b] = [?b, ?a]"
    by (simp add: sortDiagnostics_def upt_rec diag_less_def numeral_2_eq_2)
  ultimately show ?thesis by (simp add: Let_def)
qed

end
