(* ===== verification/Interleave.thy ===== *)
theory Interleave
  imports Awf_Prelude
begin

text \<open>
  Goroutines over a shared world. A program is a tree: a result, an atomic action on the world, or
  a fork whose branches run interleaved and are joined by a continuation (\<open>errgroup.Go\<close> and
  \<open>Wait\<close>). \<open>step\<close> is the interleaving semantics, with an environment that may move between any two
  actions; \<open>wp\<close> is a precondition in the style of rely-guarantee, where one relation is at once what
  every action guarantees and what every thread relies on; \<open>exec\<close> is one deterministic schedule, for
  evaluation.
\<close>

subsection \<open>Programs\<close>

datatype (dead 'w, dead 'v) prog =
    Ret 'v
  | Act "'w \<Rightarrow> ('w, 'v) prog \<times> 'w"
  | Par "('w, 'v) prog list" "'v list \<Rightarrow> ('w, 'v) prog"

text \<open>Sequencing: run the first program, then the second on its result.\<close>

primrec seq :: "('w, 'v) prog \<Rightarrow> ('v \<Rightarrow> ('w, 'v) prog) \<Rightarrow> ('w, 'v) prog" where
  "seq (Ret v) f = f v"
| "seq (Act g) f = Act (map_prod (\<lambda>p. seq p f) id \<circ> g)"
| "seq (Par ps k) f = Par ps (\<lambda>vs. seq (k vs) f)"

text \<open>Reading the world, and updating it, as one atomic action.\<close>

definition read :: "('w \<Rightarrow> ('w, 'v) prog) \<Rightarrow> ('w, 'v) prog" where
  "read k = Act (\<lambda>w. (k w, w))"

definition upd :: "('w \<Rightarrow> 'w) \<Rightarrow> ('w, 'v) prog \<Rightarrow> ('w, 'v) prog" where
  "upd f p = Act (\<lambda>w. (p, f w))"

subsection \<open>Interleaving\<close>

inductive step :: "('w \<Rightarrow> 'w \<Rightarrow> bool) \<Rightarrow> ('w, 'v) prog \<times> 'w \<Rightarrow> ('w, 'v) prog \<times> 'w \<Rightarrow> bool"
  for env :: "'w \<Rightarrow> 'w \<Rightarrow> bool" where
  act: "f w = (p, w') \<Longrightarrow> step env (Act f, w) (p, w')"
| fork: "i < length ps \<Longrightarrow> step env (ps ! i, w) (p, w') \<Longrightarrow> step env (Par ps k, w) (Par (ps[i := p]) k, w')"
| join: "step env (Par (map Ret vs) k, w) (k vs, w)"
| outside: "env w w' \<Longrightarrow> step env (p, w) (p, w')"

lemmas step_induct = step.induct [split_format (complete)]

abbreviation steps :: "('w \<Rightarrow> 'w \<Rightarrow> bool) \<Rightarrow> ('w, 'v) prog \<times> 'w \<Rightarrow> ('w, 'v) prog \<times> 'w \<Rightarrow> bool" where
  "steps env \<equiv> (step env)\<^sup>*\<^sup>*"

text \<open>One schedule: the branches of a fork one after the other, each to its end.\<close>

fun thread :: "('w \<Rightarrow> 'v \<times> 'w) list \<Rightarrow> 'w \<Rightarrow> 'v list \<times> 'w" where
  "thread [] w = ([], w)"
| "thread (r # rs) w = (case r w of (v, w1) \<Rightarrow> case thread rs w1 of (vs, w2) \<Rightarrow> (v # vs, w2))"

primrec exec :: "('w, 'v) prog \<Rightarrow> 'w \<Rightarrow> 'v \<times> 'w" where
  "exec (Ret v) = (\<lambda>w. (v, w))"
| "exec (Act f) = (\<lambda>w. case map_prod exec id (f w) of (r, w') \<Rightarrow> r w')"
| "exec (Par ps k) = (\<lambda>w. case thread (map exec ps) w of (vs, w') \<Rightarrow> (exec \<circ> k) vs w')"

lemma exec_simps [simp]:
  "exec (Ret v) w = (v, w)"
  "exec (read k) w = exec (k w) w"
  "exec (upd f p) w = exec p (f w)"
  by (simp_all add: read_def upd_def)

lemma exec_seq: "exec (seq p f) w = (case exec p w of (v, w') \<Rightarrow> exec (f v) w')"
proof (induction p arbitrary: w)
  case (Act g)
  show ?case
  proof (cases "g w")
    case (Pair p w')
    then have "p \<in> Basic_BNFs.fsts (g w)" by simp
    moreover have "g w \<in> range g" by simp
    ultimately show ?thesis using Act [of "g w" p w'] Pair by simp
  qed
next
  case (Par ps k)
  then show ?case by (auto split: prod.split)
qed simp

subsection \<open>Preconditions\<close>

primrec wp :: "('w \<Rightarrow> 'w \<Rightarrow> bool) \<Rightarrow> ('w, 'v) prog \<Rightarrow> ('v \<Rightarrow> 'w \<Rightarrow> bool) \<Rightarrow> 'w \<Rightarrow> bool" where
  "wp R (Ret v) = (\<lambda>Q w. \<forall>w'. R w w' \<longrightarrow> Q v w')"
| "wp R (Act f) = (\<lambda>Q w. \<forall>w'. R w w' \<longrightarrow>
     (case map_prod (wp R) id (f w') of (t, w'') \<Rightarrow> R w' w'' \<and> t Q w''))"
| "wp R (Par ps k) = (\<lambda>Q w. \<exists>Qs. length Qs = length ps
     \<and> list_all2 (\<lambda>t Qi. t Qi w) (map (wp R) ps) Qs
     \<and> (\<forall>w' vs. R w w' \<longrightarrow> list_all2 (\<lambda>Qi v. Qi v w') Qs vs \<longrightarrow> (wp R \<circ> k) vs Q w'))"

locale guarantee =
  fixes R :: "'w \<Rightarrow> 'w \<Rightarrow> bool"
  assumes R_refl: "R w w" and R_trans: "R u v \<Longrightarrow> R v w \<Longrightarrow> R u w"
begin

lemma wp_stable: "wp R p Q w \<Longrightarrow> R w w' \<Longrightarrow> wp R p Q w'"
proof (induction p arbitrary: Q w w')
  case (Ret v)
  then show ?case using R_trans by auto
next
  case (Act f)
  then show ?case using R_trans by auto
next
  case (Par ps k)
  from Par.prems obtain Qs where Qs: "length Qs = length ps"
      "list_all2 (\<lambda>t Qi. t Qi w) (map (wp R) ps) Qs"
      "\<forall>w' vs. R w w' \<longrightarrow> list_all2 (\<lambda>Qi v. Qi v w') Qs vs \<longrightarrow> (wp R \<circ> k) vs Q w'" by auto
  have "list_all2 (\<lambda>t Qi. t Qi w') (map (wp R) ps) Qs"
    using Qs(2) Par.IH(1) Par.prems(2) by (auto simp: list_all2_conv_all_nth)
  moreover have "\<forall>w'' vs. R w' w'' \<longrightarrow> list_all2 (\<lambda>Qi v. Qi v w'') Qs vs \<longrightarrow> (wp R \<circ> k) vs Q w''"
    using Qs(3) R_trans [OF Par.prems(2)] by blast
  ultimately show ?case using Qs(1) by auto
qed

lemma wp_mono: "wp R p Q w \<Longrightarrow> (\<And>v w'. R w w' \<Longrightarrow> Q v w' \<Longrightarrow> Q' v w') \<Longrightarrow> wp R p Q' w"
proof (induction p arbitrary: Q Q' w)
  case (Ret v)
  then show ?case by simp
next
  case (Act f)
  show ?case
  proof (simp, intro allI impI)
    fix w1 assume w1: "R w w1"
    obtain p w2 where f: "f w1 = (p, w2)" by fastforce
    with Act.prems(1) w1 have r: "R w1 w2" and p: "wp R p Q w2" by auto
    have "p \<in> Basic_BNFs.fsts (f w1)" using f by simp
    moreover have "f w1 \<in> range f" by simp
    ultimately have "wp R p Q' w2"
      using Act.IH p Act.prems(2) R_trans [OF R_trans [OF w1 r]] by blast
    with r f show "case map_prod (wp R) id (f w1) of (t, w'') \<Rightarrow> R w1 w'' \<and> t Q' w''" by simp
  qed
next
  case (Par ps k)
  from Par.prems(1) obtain Qs where Qs: "length Qs = length ps"
      "list_all2 (\<lambda>t Qi. t Qi w) (map (wp R) ps) Qs"
      "\<forall>w' vs. R w w' \<longrightarrow> list_all2 (\<lambda>Qi v. Qi v w') Qs vs \<longrightarrow> (wp R \<circ> k) vs Q w'" by auto
  have "\<forall>w' vs. R w w' \<longrightarrow> list_all2 (\<lambda>Qi v. Qi v w') Qs vs \<longrightarrow> (wp R \<circ> k) vs Q' w'"
  proof (intro allI impI)
    fix w' vs assume a: "R w w'" "list_all2 (\<lambda>Qi v. Qi v w') Qs vs"
    then have "wp R (k vs) Q w'" using Qs(3) by simp
    then have "wp R (k vs) Q' w'"
      by (rule Par.IH(2) [OF rangeI]) (use Par.prems(2) R_trans [OF a(1)] in blast)
    then show "(wp R \<circ> k) vs Q' w'" by simp
  qed
  with Qs show ?case by auto
qed

lemma wp_seq: "wp R p (\<lambda>v w. wp R (f v) Q w) w \<Longrightarrow> wp R (seq p f) Q w"
proof (induction p arbitrary: w)
  case (Ret v)
  then show ?case using R_refl by simp
next
  case (Act g)
  show ?case
  proof (simp, intro allI impI)
    fix w1 assume w1: "R w w1"
    obtain p w2 where g: "g w1 = (p, w2)" by fastforce
    with Act.prems w1 have "R w1 w2" "wp R p (\<lambda>v w. wp R (f v) Q w) w2" by auto
    moreover have "p \<in> Basic_BNFs.fsts (g w1)" using g by simp
    moreover have "g w1 \<in> range g" by simp
    ultimately show "case map_prod (wp R) id (map_prod (\<lambda>p. seq p f) id (g w1)) of (t, w'') \<Rightarrow> R w1 w'' \<and> t Q w''"
      using Act.IH g by auto
  qed
next
  case (Par ps k)
  from Par.prems obtain Qs where Qs: "length Qs = length ps"
      "list_all2 (\<lambda>t Qi. t Qi w) (map (wp R) ps) Qs"
      "\<forall>w' vs. R w w' \<longrightarrow> list_all2 (\<lambda>Qi v. Qi v w') Qs vs \<longrightarrow> (wp R \<circ> k) vs (\<lambda>v w. wp R (f v) Q w) w'" by auto
  have "\<forall>w' vs. R w w' \<longrightarrow> list_all2 (\<lambda>Qi v. Qi v w') Qs vs \<longrightarrow> (wp R \<circ> (\<lambda>vs. seq (k vs) f)) vs Q w'"
    using Qs(3) Par.IH(2) [OF rangeI] by (simp add: comp_def)
  with Qs(1,2) show ?case by auto
qed

lemma wp_Ret: "(\<And>w'. R w w' \<Longrightarrow> Q v w') \<Longrightarrow> wp R (Ret v) Q w"
  by simp

lemma wp_read: "(\<And>w'. R w w' \<Longrightarrow> wp R (k w') Q w') \<Longrightarrow> wp R (read k) Q w"
  by (simp add: read_def R_refl)

lemma wp_upd: "(\<And>w'. R w w' \<Longrightarrow> R w' (f w')) \<Longrightarrow> (\<And>w'. R w w' \<Longrightarrow> wp R p Q (f w')) \<Longrightarrow> wp R (upd f p) Q w"
  by (simp add: upd_def)

lemma wp_Act:
  "(\<And>w' p w''. R w w' \<Longrightarrow> f w' = (p, w'') \<Longrightarrow> R w' w'' \<and> wp R p Q w'') \<Longrightarrow> wp R (Act f) Q w"
  by (auto simp: map_prod_def split: prod.split)

lemma wp_Par:
  assumes "\<And>i. i < length ps \<Longrightarrow> wp R (ps ! i) (P i) w"
    and "\<And>w' vs. R w w' \<Longrightarrow> length vs = length ps \<Longrightarrow> (\<And>i. i < length ps \<Longrightarrow> P i (vs ! i) w') \<Longrightarrow> wp R (k vs) Q w'"
  shows "wp R (Par ps k) Q w"
  unfolding wp.simps
  by (rule exI [where x = "map P [0..<length ps]"]) (use assms in \<open>auto simp: list_all2_conv_all_nth\<close>)

text \<open>Soundness: every step of every schedule keeps the relation and the precondition.\<close>

lemma wp_step:
  "step env (p, w) (p', w') \<Longrightarrow> (\<And>u v. env u v \<Longrightarrow> R u v) \<Longrightarrow> wp R p Q w \<Longrightarrow> R w w' \<and> wp R p' Q w'"
proof (induction p w p' w' arbitrary: Q rule: step_induct)
  case (act f w p w')
  from act.prems(2) R_refl have "case map_prod (wp R) id (f w) of (t, w'') \<Rightarrow> R w w'' \<and> t Q w''" by simp
  with act.hyps show ?case by simp
next
  case (fork i ps w p w' k)
  from fork.prems(2) obtain Qs where Qs: "length Qs = length ps"
      "list_all2 (\<lambda>t Qi. t Qi w) (map (wp R) ps) Qs"
      "\<forall>w' vs. R w w' \<longrightarrow> list_all2 (\<lambda>Qi v. Qi v w') Qs vs \<longrightarrow> (wp R \<circ> k) vs Q w'" by auto
  have "wp R (ps ! i) (Qs ! i) w" using Qs(2) fork.hyps(1) by (simp add: list_all2_conv_all_nth)
  with fork.IH fork.prems(1) have r: "R w w'" and p: "wp R p (Qs ! i) w'" by blast+
  have "list_all2 (\<lambda>t Qi. t Qi w') (map (wp R) (ps[i := p])) Qs"
    using Qs(1,2) p wp_stable [OF _ r] fork.hyps(1)
    by (auto simp: list_all2_conv_all_nth nth_list_update)
  moreover have "\<forall>w'' vs. R w' w'' \<longrightarrow> list_all2 (\<lambda>Qi v. Qi v w'') Qs vs \<longrightarrow> (wp R \<circ> k) vs Q w''"
    using Qs(3) R_trans [OF r] by blast
  ultimately show ?case using Qs(1) r by auto
next
  case (join vs k w)
  then show ?case using R_refl by (auto simp: list_all2_conv_all_nth)
next
  case (outside w w' p)
  then show ?case using wp_stable by blast
qed

lemma wp_steps:
  assumes "steps env (p, w) (p', w')" and "\<And>u v. env u v \<Longrightarrow> R u v" and "wp R p Q w"
  shows "R w w' \<and> wp R p' Q w'"
  using assms(1)
proof (induction rule: rtranclp_induct2)
  case refl
  then show ?case using assms(3) R_refl by blast
next
  case (step p1 w1 p2 w2)
  then show ?case using wp_step [OF step.hyps(2) assms(2)] R_trans by blast
qed

lemma wp_result:
  assumes "steps env (p, w) (Ret v, w')" and "\<And>u v. env u v \<Longrightarrow> R u v" and "wp R p Q w"
  shows "R w w' \<and> Q v w'"
  using wp_steps [OF assms] R_refl by auto

end

subsection \<open>Schedules end\<close>

text \<open>Progress: a program that is not a result can move.\<close>

lemma progress: "(\<exists>v. p = Ret v) \<or> (\<exists>p' w'. step env (p, w) (p', w'))"
proof (induction p)
  case (Act f)
  have "step env (Act f, w) (fst (f w), snd (f w))" by (rule step.act) simp
  then show ?case by blast
next
  case (Par ps k)
  show ?case
  proof (cases "\<forall>p \<in> set ps. \<exists>v. p = Ret v")
    case True
    then have "ps \<in> range (map Ret)" by (simp add: ex_map_conv image_iff)
    then obtain vs where "ps = map Ret vs" by blast
    then show ?thesis using step.join [of env vs k w] by blast
  next
    case False
    then obtain i where i: "i < length ps" "\<not> (\<exists>v. ps ! i = Ret v)" by (auto simp: in_set_conv_nth)
    then obtain p' w' where "step env (ps ! i, w) (p', w')" using Par(1) nth_mem by blast
    then show ?thesis using step.fork [OF i(1)] by blast
  qed
qed simp

text \<open>Termination: the program's own moves are well-founded, whatever the schedule.\<close>

definition moves :: "(('w, 'v) prog \<times> ('w, 'v) prog) set" where
  "moves = {(p', p). \<exists>w w'. step (\<lambda>_ _. False) (p, w) (p', w')}"

inductive_cases step_RetE: "step env (Ret v, w) c"
inductive_cases step_ActE: "step env (Act f, w) c"
inductive_cases step_ParE: "step env (Par ps k, w) c"

lemma step_Par_cases:
  assumes "step env (Par ps k, w) (y, w')"
  shows "(\<exists>i p. i < length ps \<and> step env (ps ! i, w) (p, w') \<and> y = Par (ps[i := p]) k)
    \<or> (\<exists>vs. ps = map Ret vs \<and> y = k vs \<and> w' = w) \<or> (env w w' \<and> y = Par ps k)"
  using assms by (rule step_ParE) (simp; blast)+

lemma moves_acc_Par:
  assumes "ps \<in> Wellfounded.acc (listrel1 moves)" and "\<And>vs. k vs \<in> Wellfounded.acc moves"
  shows "Par ps k \<in> Wellfounded.acc moves"
  using assms(1)
proof (induction rule: acc.induct)
  case (accI ps)
  show ?case
  proof (rule acc.accI)
    fix y assume "(y, Par ps k) \<in> moves"
    then obtain w w' where "step (\<lambda>_ _. False) (Par ps k, w) (y, w')" by (auto simp: moves_def)
    from step_Par_cases [OF this] consider
        (fork) i p where "i < length ps" "step (\<lambda>_ _. False) (ps ! i, w) (p, w')" "y = Par (ps[i := p]) k"
      | (join) vs where "y = k vs" by blast
    then show "y \<in> Wellfounded.acc moves"
    proof cases
      case fork
      then have "(p, ps ! i) \<in> moves" by (auto simp: moves_def)
      then have "(ps[i := p], ps) \<in> listrel1 moves"
        using fork(1) by (intro listrel1I [OF _ upd_conv_take_nth_drop id_take_nth_drop]) simp_all
      then show ?thesis using accI fork(3) by blast
    next
      case join
      then show ?thesis using assms(2) by simp
    qed
  qed
qed

lemma moves_acc: "p \<in> Wellfounded.acc moves"
proof (induction p)
  case (Ret v)
  show ?case by (rule acc.accI) (auto simp: moves_def elim: step_RetE)
next
  case (Act f)
  show ?case
  proof (rule acc.accI)
    fix y assume "(y, Act f) \<in> moves"
    then obtain w where "y = fst (f w)" by (auto simp: moves_def elim!: step_ActE) (metis fst_conv)
    moreover have "fst (f w) \<in> Basic_BNFs.fsts (f w)" by (cases "f w") simp
    moreover have "f w \<in> range f" by simp
    ultimately show "y \<in> Wellfounded.acc moves" using Act [of "f w" y] by simp
  qed
next
  case (Par ps k)
  have "ps \<in> lists (Wellfounded.acc moves)" using Par(1) by auto
  then have "ps \<in> Wellfounded.acc (listrel1 moves)" by (rule lists_accD)
  then show ?case by (rule moves_acc_Par) (rule Par(2) [OF rangeI])
qed

lemma moves_wf: "wf moves"
  using moves_acc by (rule acc_wfI [rule_format])

lemma steps_mono: "step (\<lambda>_ _. False) c c' \<Longrightarrow> step env c c'"
proof (induction rule: step.induct)
  case (fork i ps w p w' k)
  then show ?case by (blast intro: step.fork)
qed (auto intro: step.intros)

lemma run_ends: "\<exists>v w'. steps env (p, w) (Ret v, w')"
proof (induction p arbitrary: w rule: wf_induct_rule [OF moves_wf])
  case (1 p)
  show ?case
  proof (cases "\<exists>v. p = Ret v")
    case True
    then show ?thesis by auto
  next
    case False
    then obtain p' w' where s: "step (\<lambda>_ _. False) (p, w) (p', w')" using progress [of p "\<lambda>_ _. False" w] by blast
    then have "(p', p) \<in> moves" by (auto simp: moves_def)
    with 1 obtain v w'' where "steps env (p', w') (Ret v, w'')" by blast
    with steps_mono [OF s] show ?thesis by (blast intro: converse_rtranclp_into_rtranclp)
  qed
qed

text \<open>\<open>exec\<close> is one of the schedules.\<close>

lemma fork_steps:
  assumes "steps env (p, w) (p', w')"
  shows "steps env (Par (us @ p # ps) k, w) (Par (us @ p' # ps) k, w')"
  using assms
proof (induction rule: rtranclp_induct2)
  case (step p1 w1 p2 w2)
  have "step env (Par (us @ p1 # ps) k, w1) (Par ((us @ p1 # ps)[length us := p2]) k, w2)"
    by (rule step.fork) (use step.hyps(2) in simp_all)
  with step.IH show ?case by (simp add: rtranclp.rtrancl_into_rtrancl)
qed simp

lemma thread_steps:
  assumes "\<And>p w. p \<in> set ps \<Longrightarrow> steps env (p, w) (Ret (fst (exec p w)), snd (exec p w))"
  shows "steps env (Par (map Ret us @ ps) k, w)
    (Par (map Ret (us @ fst (thread (map exec ps) w))) k, snd (thread (map exec ps) w))"
  using assms
proof (induction ps arbitrary: us w)
  case (Cons p ps)
  obtain v w1 where e: "exec p w = (v, w1)" by fastforce
  obtain vs w2 where t: "thread (map exec ps) w1 = (vs, w2)" by fastforce
  have "steps env (Par (map Ret us @ p # ps) k, w) (Par (map Ret us @ Ret v # ps) k, w1)"
    using Cons.prems [of p w] e by (intro fork_steps) simp
  moreover have "steps env (Par (map Ret (us @ [v]) @ ps) k, w1) (Par (map Ret ((us @ [v]) @ vs)) k, w2)"
    using Cons.IH [of "us @ [v]" w1] Cons.prems t by simp
  ultimately show ?case using e t by simp
qed simp

lemma exec_steps: "steps env (p, w) (Ret (fst (exec p w)), snd (exec p w))"
proof (induction p arbitrary: w)
  case (Act f)
  obtain p w1 where f: "f w = (p, w1)" by fastforce
  then have "p \<in> Basic_BNFs.fsts (f w)" by simp
  moreover have "f w \<in> range f" by simp
  ultimately have "steps env (p, w1) (Ret (fst (exec p w1)), snd (exec p w1))" using Act by blast
  with step.act [of f w p w1 env] f show ?case by (simp add: converse_rtranclp_into_rtranclp)
next
  case (Par ps k)
  obtain vs w1 where t: "thread (map exec ps) w = (vs, w1)" by fastforce
  have "steps env (Par ps k, w) (Par (map Ret vs) k, w1)"
    using thread_steps [of ps env "[]" k w] Par.IH(1) t by simp
  also have "step env (Par (map Ret vs) k, w1) (k vs, w1)" by (rule step.join)
  also have "steps env (k vs, w1) (Ret (fst (exec (k vs) w1)), snd (exec (k vs) w1))"
    using Par.IH(2) by blast
  finally show ?case using t by simp
qed simp

text \<open>Running the first \<open>n\<close> actions of a thread, for building a particular schedule.\<close>

fun advance :: "nat \<Rightarrow> ('w, 'v) prog \<Rightarrow> 'w \<Rightarrow> ('w, 'v) prog \<times> 'w" where
  "advance (Suc n) (Act f) w = (case f w of (p, w') \<Rightarrow> advance n p w')"
| "advance _ p w = (p, w)"

lemma advance_steps: "steps env (p, w) (advance n p w)"
proof (induction n p w rule: advance.induct)
  case (1 n f w)
  obtain p w' where f: "f w = (p, w')" by fastforce
  with 1 step.act [of f w p w' env] show ?case by (simp add: converse_rtranclp_into_rtranclp)
qed simp_all

text \<open>A schedule of a sequence is a schedule of its first part, or of it followed by one of the rest.\<close>

lemma step_seq:
  assumes "step env (seq p f, w) (q, w')"
  shows "(\<exists>p'. q = seq p' f \<and> step env (p, w) (p', w')) \<or> (\<exists>v. p = Ret v \<and> step env (f v, w) (q, w'))"
proof (cases p)
  case (Act g)
  with assms have "step env (Act (map_prod (\<lambda>p. seq p f) id \<circ> g), w) (q, w')" by simp
  then have "(\<exists>p2. g w = (p2, w') \<and> q = seq p2 f) \<or> (q = seq p f \<and> env w w')"
    using Act by (auto elim!: step_ActE simp: map_prod_def split: prod.splits)
  then show ?thesis using Act step.act [of g w] step.outside [of env w w' p] by blast
next
  case (Par ps k)
  with assms have "step env (Par ps (\<lambda>vs. seq (k vs) f), w) (q, w')" by simp
  from step_Par_cases [OF this]
  consider i p1 where "i < length ps" "step env (ps ! i, w) (p1, w')" "q = seq (Par (ps[i := p1]) k) f"
    | vs where "ps = map Ret vs" "q = seq (k vs) f" "w' = w"
    | "env w w'" "q = seq p f"
    using Par by auto
  then show ?thesis
  proof cases
    case 1
    then show ?thesis using Par step.fork [of i ps env w p1 w' k] by blast
  next
    case 2
    then show ?thesis using Par step.join [of env vs k w] by blast
  next
    case 3
    then show ?thesis using step.outside [of env w w' p] by blast
  qed
qed (use assms in auto)

lemma steps_seq:
  assumes "steps env (seq p f, w) (q, w')"
  shows "(\<exists>p'. q = seq p' f \<and> steps env (p, w) (p', w'))
    \<or> (\<exists>v w1. steps env (p, w) (Ret v, w1) \<and> steps env (f v, w1) (q, w'))"
  using assms
proof (induction rule: rtranclp_induct2)
  case (step q1 w1 q2 w2)
  from step.IH show ?case
  proof
    assume "\<exists>p'. q1 = seq p' f \<and> steps env (p, w) (p', w1)"
    then obtain p' where p': "q1 = seq p' f" "steps env (p, w) (p', w1)" by blast
    from step_seq [of env p' f w1 q2 w2] step.hyps(2) p'(1)
    consider p2 where "q2 = seq p2 f" "step env (p', w1) (p2, w2)" | v where "p' = Ret v" "step env (f v, w1) (q2, w2)"
      by blast
    then show ?thesis using p'(2) by cases (blast intro: rtranclp.rtrancl_into_rtrancl)+
  next
    assume "\<exists>v w1a. steps env (p, w) (Ret v, w1a) \<and> steps env (f v, w1a) (q1, w1)"
    with step.hyps(2) show ?thesis by (blast intro: rtranclp.rtrancl_into_rtrancl)
  qed
qed auto

text \<open>
  A single thread among others: \<open>always R I p\<close> says that \<open>I\<close> holds now and after every action of \<open>p\<close>,
  where between two actions the other threads move by \<open>R\<close>. Unlike \<open>wp\<close>, the thread's own actions need
  not keep \<open>R\<close>, so it may own part of the world.
\<close>

primrec always :: "('w \<Rightarrow> 'w \<Rightarrow> bool) \<Rightarrow> ('w \<Rightarrow> bool) \<Rightarrow> ('w, 'v) prog \<Rightarrow> 'w \<Rightarrow> bool" where
  "always R I (Ret v) = I"
| "always R I (Act f) = (\<lambda>w. I w \<and> (\<forall>w'. R w w' \<longrightarrow> (case map_prod (always R I) id (f w') of (t, w'') \<Rightarrow> t w'')))"
| "always R I (Par ps k) = (\<lambda>w. False)"

locale owned = guarantee R for R :: "'w \<Rightarrow> 'w \<Rightarrow> bool" +
  fixes I :: "'w \<Rightarrow> bool"
  assumes I_kept: "I w \<Longrightarrow> R w w' \<Longrightarrow> I w'"
begin

lemma always_now: "always R I p w \<Longrightarrow> I w"
  by (cases p) auto

lemma always_stable: "always R I p w \<Longrightarrow> R w w' \<Longrightarrow> always R I p w'"
  using I_kept R_trans by (cases p) auto

lemma always_step: "step R (p, w) (p', w') \<Longrightarrow> always R I p w \<Longrightarrow> always R I p' w'"
proof (cases p)
  case (Act f)
  assume "step R (p, w) (p', w')" and a: "always R I p w"
  then consider "f w = (p', w')" | "p' = p" "R w w'" using Act by (auto elim: step_ActE)
  then show ?thesis
  proof cases
    case 1
    from a Act R_refl have "case map_prod (always R I) id (f w) of (t, w'') \<Rightarrow> t w''" by simp
    with 1 show ?thesis by simp
  qed (use a always_stable in simp)
qed (auto elim!: step_RetE intro: I_kept)

lemma always_steps: "steps R (p, w) (p', w') \<Longrightarrow> always R I p w \<Longrightarrow> I w'"
proof -
  assume "steps R (p, w) (p', w')" and "always R I p w"
  then have "always R I p' w'"
  proof (induction rule: rtranclp_induct2)
    case (step p1 w1 p2 w2)
    then show ?case using always_step by blast
  qed
  then show ?thesis by (rule always_now)
qed

text \<open>Assertions the other threads keep, and the thread's program from worlds that satisfy one.\<close>

definition assertion :: "('w \<Rightarrow> bool) \<Rightarrow> bool" where
  "assertion A \<longleftrightarrow> (\<forall>w. A w \<longrightarrow> I w) \<and> (\<forall>w w'. A w \<longrightarrow> R w w' \<longrightarrow> A w')"

definition safe :: "('w \<Rightarrow> bool) \<Rightarrow> ('w, 'v) prog \<Rightarrow> bool" where
  "safe A p \<longleftrightarrow> (\<forall>w. A w \<longrightarrow> always R I p w)"

lemma safe_Ret: "assertion A \<Longrightarrow> safe A (Ret v)"
  by (simp add: safe_def assertion_def)

lemma safe_Act:
  assumes "assertion A" and "\<And>w p w'. A w \<Longrightarrow> f w = (p, w') \<Longrightarrow> always R I p w'"
  shows "safe A (Act f)"
  using assms unfolding safe_def assertion_def by (fastforce simp: map_prod_def split: prod.split)

lemma safe_quiet:
  assumes "assertion A" and "\<And>w p w'. f w = (p, w') \<Longrightarrow> R w w' \<and> safe A p"
  shows "safe A (Act f)"
  using assms by (intro safe_Act) (auto simp: safe_def assertion_def)

lemma safe_read: "assertion A \<Longrightarrow> (\<And>w. A w \<Longrightarrow> always R I (k w) w) \<Longrightarrow> safe A (read k)"
  unfolding read_def by (rule safe_Act) auto

lemma safe_reads: "assertion A \<Longrightarrow> (\<And>w. safe A (k w)) \<Longrightarrow> safe A (read k)"
  by (rule safe_read) (auto simp: safe_def)

lemma safe_upd: "assertion A \<Longrightarrow> (\<And>w. A w \<Longrightarrow> B (f w)) \<Longrightarrow> safe B p \<Longrightarrow> safe A (upd f p)"
  unfolding upd_def by (rule safe_Act) (auto simp: safe_def)

lemma safe_weaken: "safe B p \<Longrightarrow> (\<And>w. A w \<Longrightarrow> B w) \<Longrightarrow> safe A p"
  by (simp add: safe_def)

lemma safe_sum: "(\<And>a. x = Inl a \<Longrightarrow> safe A (f a)) \<Longrightarrow> (\<And>b. x = Inr b \<Longrightarrow> safe A (g b)) \<Longrightarrow>
   safe A (case x of Inl a \<Rightarrow> f a | Inr b \<Rightarrow> g b)"
  by (cases x) auto

lemma safe_opt: "(x = None \<Longrightarrow> safe A f) \<Longrightarrow> (\<And>b. x = Some b \<Longrightarrow> safe A (g b)) \<Longrightarrow>
   safe A (case x of None \<Rightarrow> f | Some b \<Rightarrow> g b)"
  by (cases x) auto

lemma safe_if: "(b \<Longrightarrow> safe A p) \<Longrightarrow> (\<not> b \<Longrightarrow> safe A q) \<Longrightarrow> safe A (if b then p else q)"
  by simp

end

text \<open>Evaluation of a program by rewriting.\<close>

lemma exec_Act: "exec (Act f) w = (case f w of (p, w') \<Rightarrow> exec p w')"
  by (simp add: map_prod_def split: prod.split)

lemma exec_Par: "exec (Par ps k) w = (case thread (map exec ps) w of (vs, w') \<Rightarrow> exec (k vs) w')"
  by simp

lemmas exec_eval = exec_Act exec_Par exec_seq

declare exec.simps [simp del]

end
