(* ===== verification/Skill_Route.thy ===== *)
theory Skill_Route
  imports Artifacts
begin

text \<open>
  The skill libraries of agent steps (src/skillroute/corpus.go, src/skillroute/bm25.go): the check
  of a directory of skills, its digest, the ranking of its skills for a query, and the files a
  selected skill stages. What the Unicode tables say of a character and the natural logarithm of a
  double are parameters: \<open>lower\<close> gives the lower-case form of a letter or digit and nothing for any
  other character, \<open>visible\<close> tells the printable characters and spaces, \<open>ln64\<close> is \<open>math.Log\<close>.
\<close>

subsection \<open>Files and identifiers\<close>

record skill_file =
  sf_Path :: string
  sf_Content :: string

record rune_class =
  rc_lower :: "string \<Rightarrow> string option"
  rc_visible :: "string \<Rightarrow> bool"

text \<open>\<open>strings.Cut\<close> at the first slash.\<close>

definition cut_slash :: "string \<Rightarrow> (string \<times> string) option" where
  "cut_slash s = map_option (\<lambda>i. (take i s, drop (i + 1) s)) (indexOf s ''/'')"

definition skill_dir :: "string \<Rightarrow> string" where
  "skill_dir p = (case cut_slash p of None \<Rightarrow> p | Some (d, _) \<Rightarrow> d)"

definition reservedSkillIDs :: "string list" where
  "reservedSkillIDs = [''generate'', ''evaluate'', ''until'', ''then'', ''else'', ''body'', ''do'', ''catch'', ''finally'']"

definition isASCIILetter :: "char \<Rightarrow> bool" where
  "isASCIILetter c = (let n = (of_char c :: nat) in (97 \<le> n \<and> n \<le> 122) \<or> (65 \<le> n \<and> n \<le> 90))"

definition ValidID :: "string \<Rightarrow> bool" where
  "ValidID s = (s \<noteq> [] \<and> s \<notin> set reservedSkillIDs \<and> (isASCIILetter (hd s) \<or> hd s = CHR ''_'')
     \<and> list_all (\<lambda>c. isASCIILetter c \<or> isDigit c \<or> c = CHR ''_'' \<or> c = CHR ''-'') (tl s))"

definition validManifestPath :: "string \<Rightarrow> bool" where
  "validManifestPath p = (p \<noteq> [] \<and> p \<noteq> ''.'' \<and> CHR 0x5C \<notin> set p \<and> CHR 0x00 \<notin> set p \<and> \<not> path_IsAbs p
     \<and> path_Clean p = p \<and> list_all (\<lambda>part. part \<noteq> [] \<and> part \<noteq> ''.'' \<and> part \<noteq> ''..'') (splitSlash p))"

definition file_le :: "skill_file \<Rightarrow> skill_file \<Rightarrow> bool" where
  "file_le a b = (if sf_Path a = sf_Path b then str_le (sf_Content a) (sf_Content b) else str_le (sf_Path a) (sf_Path b))"

definition sortedFiles :: "skill_file list \<Rightarrow> skill_file list" where
  "sortedFiles files = sort_by file_le files"

subsection \<open>The check of a library\<close>

datatype issue = InvalidPath string | RootFile string | InvalidSkillID string string | MissingSkillMD string

text \<open>One file: its issue, or its skill and whether it is the \<open>SKILL.md\<close> of it.\<close>

definition check_file :: "skill_file \<Rightarrow> issue + (string \<times> bool)" where
  "check_file f =
     (if \<not> validManifestPath (sf_Path f) then Inl (InvalidPath (sf_Path f))
      else case cut_slash (sf_Path f) of
             None \<Rightarrow> Inl (RootFile (sf_Path f))
           | Some (skillID, rest) \<Rightarrow>
               if \<not> ValidID skillID then Inl (InvalidSkillID (sf_Path f) skillID)
               else Inr (skillID, rest = ''SKILL.md''))"

definition ValidateFiles :: "skill_file list \<Rightarrow> issue list" where
  "ValidateFiles files =
     (let checks = map check_file (sortedFiles files);
          oks = concat (map (\<lambda>c. case c of Inl _ \<Rightarrow> [] | Inr r \<Rightarrow> [r]) checks)
      in concat (map (\<lambda>c. case c of Inl i \<Rightarrow> [i] | Inr _ \<Rightarrow> []) checks)
         @ map MissingSkillMD (filter (\<lambda>i. (i, True) \<notin> set oks) (slices_Sort (remdups (map fst oks)))))"

subsection \<open>Terms\<close>

text \<open>\<open>tokenize\<close>: the maximal runs of letters and digits, in lower case; an invalid byte separates.\<close>

function tokens_from :: "rune_class \<Rightarrow> string \<Rightarrow> string \<Rightarrow> string list" where
  "tokens_from rc b s =
     (if s = [] then (if b = [] then [] else [b])
      else let n = utf8_len s; width = (if n = 0 then 1 else n)
           in case (if n = 0 then None else rc_lower rc (take n s)) of
                Some r \<Rightarrow> tokens_from rc (b @ r) (drop width s)
              | None \<Rightarrow> (if b = [] then [] else [b]) @ tokens_from rc [] (drop width s))"
  by pat_completeness auto
termination by (relation "measure (\<lambda>(_, _, s). length s)") (auto simp: Let_def)

declare tokens_from.simps [simp del]

definition tokenize :: "rune_class \<Rightarrow> string \<Rightarrow> string list" where
  "tokenize rc s = tokens_from rc [] s"

fun uniqueTokens :: "string list \<Rightarrow> string list \<Rightarrow> string list" where
  "uniqueTokens known [] = []"
| "uniqueTokens known (t # ts) = (if t \<in> set known then uniqueTokens known ts else t # uniqueTokens (t # known) ts)"

function rune_counts :: "rune_class \<Rightarrow> nat \<Rightarrow> nat \<Rightarrow> string \<Rightarrow> (nat \<times> nat) option" where
  "rune_counts rc good n s =
     (if s = [] then Some (good, n)
      else if utf8_len s = 0 then None
      else rune_counts rc (if rc_visible rc (take (utf8_len s) s) then Suc good else good) (Suc n) (drop (utf8_len s) s))"
  by pat_completeness auto
termination by (relation "measure (\<lambda>(_, _, _, s). length s)") auto

declare rune_counts.simps [simp del]

definition TextLikePercent :: nat where "TextLikePercent = 85"

definition textLike :: "rune_class \<Rightarrow> string \<Rightarrow> bool" where
  "textLike rc content =
     (if CHR 0x00 \<in> set content then False
      else case rune_counts rc 0 0 content of
             None \<Rightarrow> False
           | Some (good, n) \<Rightarrow> content = [] \<or> n * TextLikePercent \<le> good * 100)"

definition SkillMDWeight :: int where "SkillMDWeight = 4"

definition PathWeight :: int where "PathWeight = 2"

definition TextFileWeight :: int where "TextFileWeight = 1"

definition isSkillMD :: "string \<Rightarrow> bool" where
  "isSkillMD p = (case cut_slash p of None \<Rightarrow> False | Some (_, rest) \<Rightarrow> rest = ''SKILL.md'')"

type_synonym terms = "int pmap \<times> int"

definition term_freq :: "int pmap \<Rightarrow> string \<Rightarrow> int" where
  "term_freq tf tok = (case map_of tf tok of None \<Rightarrow> 0 | Some n \<Rightarrow> n)"

definition addWeightedTokens :: "string list \<Rightarrow> int \<Rightarrow> terms \<Rightarrow> terms" where
  "addWeightedTokens toks weight ts =
     (if weight \<le> 0 then ts
      else fold (\<lambda>tok (tf, len). (pm_put tok (term_freq tf tok + weight) tf, len + weight)) toks ts)"

definition file_terms :: "rune_class \<Rightarrow> skill_file \<Rightarrow> terms \<Rightarrow> terms" where
  "file_terms rc f ts =
     (let ts = addWeightedTokens (tokenize rc (sf_Path f)) PathWeight ts
      in if isSkillMD (sf_Path f) then addWeightedTokens (tokenize rc (sf_Content f)) SkillMDWeight ts
         else if textLike rc (sf_Content f) then addWeightedTokens (tokenize rc (sf_Content f)) TextFileWeight ts
         else ts)"

definition weightedTerms :: "rune_class \<Rightarrow> skill_file list \<Rightarrow> terms" where
  "weightedTerms rc files = fold (file_terms rc) files ([], 0)"

subsection \<open>A library\<close>

record corpus =
  co_skills :: "skill_file list pmap"
  co_skillIDs :: "string list"
  co_digest :: string
  co_docs :: "terms pmap"

definition frame_text :: "string \<Rightarrow> string" where
  "frame_text s = itoa (int (length s)) @ [CHR 0x0A] @ s @ [CHR 0x0A]"

definition digest_file :: "skill_file \<Rightarrow> string" where
  "digest_file f = ''file'' @ [CHR 0x0A] @ frame_text (sf_Path f) @ frame_text (sf_Content f)"

text \<open>The bytes written to the hash of \<open>digestSkills\<close>.\<close>

definition digest_preimage :: "(string \<times> skill_file list) list \<Rightarrow> string" where
  "digest_preimage skills = ''skillroute-corpus-v1'' @ [CHR 0x0A]
     @ concat (map (\<lambda>(i, fs). ''skill'' @ [CHR 0x0A] @ frame_text i @ concat (map digest_file fs)) skills)"

definition digestSkills :: "(string \<times> skill_file list) list \<Rightarrow> string" where
  "digestSkills skills = ''sha256:'' @ hex_encode (sha256 (digest_preimage skills))"

definition path_le :: "skill_file \<Rightarrow> skill_file \<Rightarrow> bool" where
  "path_le a b = str_le (sf_Path a) (sf_Path b)"

definition skills_of :: "skill_file list \<Rightarrow> (string \<times> skill_file list) list" where
  "skills_of files =
     (let fs = sortedFiles files
      in map (\<lambda>i. (i, sort_by path_le (filter (\<lambda>f. skill_dir (sf_Path f) = i) fs)))
           (slices_Sort (remdups (map (\<lambda>f. skill_dir (sf_Path f)) fs))))"

definition NewCorpus :: "rune_class \<Rightarrow> skill_file list \<Rightarrow> issue list + corpus" where
  "NewCorpus rc files =
     (if ValidateFiles files \<noteq> [] then Inl (ValidateFiles files)
      else let skills = skills_of files
           in Inr \<lparr>co_skills = skills, co_skillIDs = map fst skills, co_digest = digestSkills skills,
                   co_docs = map (\<lambda>(i, fs). (i, weightedTerms rc fs)) skills\<rparr>)"

text \<open>\<open>path.Join\<close> of three elements, the second not empty.\<close>

definition path_Join3 :: "string \<Rightarrow> string \<Rightarrow> string \<Rightarrow> string" where
  "path_Join3 a b c = path_Join a (if c = [] then b else b @ ''/'' @ c)"

definition StageFiles :: "corpus \<Rightarrow> string \<Rightarrow> string \<Rightarrow> skill_file list option" where
  "StageFiles c skillID into = map_option (\<lambda>fs.
     sort_by path_le (map (\<lambda>f. f\<lparr>sf_Path := path_Join3 into skillID (trimPrefix (sf_Path f) (skillID @ ''/''))\<rparr>) fs))
     (map_of (co_skills c) skillID)"

subsection \<open>Ranking\<close>

text \<open>Arithmetic on doubles; \<open>None\<close> is a result out of range, or a division by zero.\<close>

definition fop :: "(rat \<Rightarrow> rat \<Rightarrow> rat) \<Rightarrow> rat option \<Rightarrow> rat option \<Rightarrow> rat option" where
  "fop f x y = Option.bind x (\<lambda>x. Option.bind y (\<lambda>y. round_f64 (f x y)))"

definition fdiv :: "rat option \<Rightarrow> rat option \<Rightarrow> rat option" where
  "fdiv x y = (if y = Some 0 then None else fop (/) x y)"

definition fint :: "int \<Rightarrow> rat option" where "fint n = Some (f64_of_int n)"

definition bm25K1 :: "rat option" where "bm25K1 = round_f64 (6 / 5)"

definition bm25B :: "rat option" where "bm25B = Some (3 / 4)"

text \<open>The constants \<open>bm25K1 + 1\<close> and \<open>1 - bm25B\<close> are exact in Go and rounded when they are used.\<close>

definition bm25K1_plus_1 :: "rat option" where "bm25K1_plus_1 = round_f64 (11 / 5)"

definition documentFreq :: "corpus \<Rightarrow> string \<Rightarrow> int" where
  "documentFreq c tok = int (length (filter (\<lambda>(_, tf, _). map_of tf tok \<noteq> None) (co_docs c)))"

definition avgDocLen :: "corpus \<Rightarrow> rat option" where
  "avgDocLen c =
     (if co_docs c = [] then Some 0
      else fdiv (fint (sum_list (map (\<lambda>(_, _, len). len) (co_docs c)))) (fint (int (length (co_docs c)))))"

definition idf :: "(rat \<Rightarrow> rat) \<Rightarrow> int \<Rightarrow> int \<Rightarrow> rat option" where
  "idf ln64 docCount df = map_option ln64
     (fop (+) (Some 1) (fdiv (fop (+) (fop (-) (fint docCount) (fint df)) (Some (1 / 2))) (fop (+) (fint df) (Some (1 / 2)))))"

definition term_score :: "(rat \<Rightarrow> rat) \<Rightarrow> corpus \<Rightarrow> terms \<Rightarrow> string \<Rightarrow> rat option \<Rightarrow> rat option" where
  "term_score ln64 c doc tok score =
     (let tf = term_freq (fst doc) tok;
          freq = fint tf;
          denom = fop (+) freq (fop (*) bm25K1
            (fop (+) (Some (1 / 4)) (fdiv (fop (*) bm25B (fint (snd doc))) (avgDocLen c))))
      in if tf = 0 \<or> denom = Some 0 then score
         else fop (+) score (fop (*) (idf ln64 (int (length (co_skillIDs c))) (documentFreq c tok))
                               (fdiv (fop (*) freq bm25K1_plus_1) denom)))"

definition score :: "(rat \<Rightarrow> rat) \<Rightarrow> corpus \<Rightarrow> terms \<Rightarrow> string list \<Rightarrow> rat option" where
  "score ln64 c doc queryTokens =
     (if snd doc = 0 \<or> co_skillIDs c = [] \<or> avgDocLen c = Some 0 then Some 0
      else fold (term_score ln64 c doc) queryTokens (Some 0))"

definition skill_before :: "selected_skill \<Rightarrow> selected_skill \<Rightarrow> bool" where
  "skill_before a b = (if sk_Score a = sk_Score b then str_le (sk_ID a) (sk_ID b) else sk_Score b < sk_Score a)"

definition scored_skill :: "(rat \<Rightarrow> rat) \<Rightarrow> corpus \<Rightarrow> string list \<Rightarrow> string \<Rightarrow> selected_skill option" where
  "scored_skill ln64 c queryTokens i =
     (case map_of (co_docs c) i of
        None \<Rightarrow> None
      | Some doc \<Rightarrow>
          (case score ln64 c doc queryTokens of
             None \<Rightarrow> None
           | Some x \<Rightarrow> if 0 < x then Some \<lparr>sk_ID = i, sk_Score = x\<rparr> else None))"

definition scored :: "(rat \<Rightarrow> rat) \<Rightarrow> corpus \<Rightarrow> string list \<Rightarrow> selected_skill list" where
  "scored ln64 c queryTokens = List.map_filter (scored_skill ln64 c queryTokens) (co_skillIDs c)"

definition Route :: "rune_class \<Rightarrow> (rat \<Rightarrow> rat) \<Rightarrow> corpus \<Rightarrow> string \<Rightarrow> int \<Rightarrow> selected_skill list" where
  "Route rc ln64 c query limit =
     (if limit \<le> 0 then []
      else let queryTokens = uniqueTokens [] (tokenize rc query)
           in if queryTokens = [] then [] else take (nat limit) (sort_by skill_before (scored ln64 c queryTokens)))"

subsection \<open>A checked library\<close>

lemma check_fileD:
  assumes "check_file f = Inr (i, b)"
  shows "validManifestPath (sf_Path f)" "ValidID i" "skill_dir (sf_Path f) = i"
    "sf_Path f = i @ ''/'' @ drop (length i + 1) (sf_Path f)"
proof -
  from assms obtain rest where c: "cut_slash (sf_Path f) = Some (i, rest)" "ValidID i" "validManifestPath (sf_Path f)"
    by (auto simp: check_file_def split: if_splits option.splits)
  then show "validManifestPath (sf_Path f)" "ValidID i" "skill_dir (sf_Path f) = i" by (auto simp: skill_dir_def)
  from c(1) obtain k where k: "indexOf (sf_Path f) ''/'' = Some k" "i = take k (sf_Path f)" by (auto simp: cut_slash_def)
  from indexOf_split [OF k(1)] have "sf_Path f = i @ ''/'' @ drop (k + 1) (sf_Path f)" "length i = k" using k(2) by auto
  then show "sf_Path f = i @ ''/'' @ drop (length i + 1) (sf_Path f)" by simp
qed

lemma ValidateFiles_Nil:
  assumes "ValidateFiles files = []" and "f \<in> set files"
  shows "\<exists>b. check_file f = Inr (skill_dir (sf_Path f), b)"
proof -
  have "f \<in> set (sortedFiles files)" using assms(2) by (simp add: sortedFiles_def)
  moreover have "concat (map (\<lambda>f. case check_file f of Inl i \<Rightarrow> [i] | Inr _ \<Rightarrow> []) (sortedFiles files)) = []"
    using assms(1) by (simp add: ValidateFiles_def Let_def comp_def)
  ultimately have "(case check_file f of Inl i \<Rightarrow> [i] | Inr _ \<Rightarrow> []) = []" by simp
  then obtain r where "check_file f = Inr r" by (auto split: sum.splits)
  then show ?thesis using check_fileD(3) by (cases r) auto
qed

lemma distinct_slices_Sort [simp]: "distinct (slices_Sort xs) = distinct xs"
  by (metis mset_slices_Sort mset_eq_imp_distinct_iff)

lemma NewCorpus_Inr:
  assumes "NewCorpus rc files = Inr c"
  shows "ValidateFiles files = []" "co_skills c = skills_of files" "co_skillIDs c = map fst (skills_of files)"
    "distinct (co_skillIDs c)" "\<And>i. i \<in> set (co_skillIDs c) \<Longrightarrow> ValidID i"
proof -
  show v: "ValidateFiles files = []" and s: "co_skills c = skills_of files" and ids: "co_skillIDs c = map fst (skills_of files)"
    using assms by (auto simp: NewCorpus_def Let_def split: if_splits)
  have m: "map fst (skills_of files) = slices_Sort (remdups (map (\<lambda>f. skill_dir (sf_Path f)) (sortedFiles files)))"
    by (simp add: skills_of_def Let_def comp_def)
  then show "distinct (co_skillIDs c)" using ids by simp
  fix i assume "i \<in> set (co_skillIDs c)"
  then obtain f where "f \<in> set files" "skill_dir (sf_Path f) = i"
    by (auto simp: ids m sortedFiles_def)
  then show "ValidID i" using ValidateFiles_Nil [OF v] check_fileD(2) by blast
qed

subsection \<open>The selection\<close>

lemma skill_before_order:
  "skill_before a a" "skill_before a b \<or> skill_before b a" "skill_before a b \<Longrightarrow> skill_before b c \<Longrightarrow> skill_before a c"
  using str_le_refl str_le_total str_le_trans by (auto simp: skill_before_def split: if_splits)

lemma sorted_wrt_sort_by:
  assumes total: "\<And>a b. le a b \<or> le b a" and trans: "\<And>a b c. le a b \<Longrightarrow> le b c \<Longrightarrow> le a c"
  shows "sorted_wrt le (sort_by le xs)"
proof -
  have ins: "sorted_wrt le ys \<Longrightarrow> sorted_wrt le (insert_by le x ys)" for x ys
  proof (induction ys)
    case (Cons y ys)
    have "set (insert_by le x ys) = insert x (set ys)"
      by (metis mset_insert_by set_mset_add_mset_insert set_mset_mset)
    then show ?case using Cons total [of x y] trans by auto
  qed simp
  show ?thesis unfolding sort_by_def by (induction xs) (simp_all add: ins)
qed

lemma scored_skill_Some: "scored_skill ln64 c q i = Some s \<Longrightarrow> sk_ID s = i \<and> 0 < sk_Score s"
  by (auto simp: scored_skill_def split: option.splits if_splits)

lemma scored_ids: "map sk_ID (scored ln64 c q) = filter (\<lambda>i. scored_skill ln64 c q i \<noteq> None) (co_skillIDs c)"
proof -
  have "map sk_ID (List.map_filter (scored_skill ln64 c q) ids) = filter (\<lambda>i. scored_skill ln64 c q i \<noteq> None) ids" for ids
    using scored_skill_Some by (induction ids) (simp_all add: map_filter_simps split: option.splits)
  then show ?thesis by (simp add: scored_def)
qed

lemma scored_props: "s \<in> set (scored ln64 c q) \<Longrightarrow> sk_ID s \<in> set (co_skillIDs c) \<and> 0 < sk_Score s"
  using scored_skill_Some by (fastforce simp: scored_def map_filter_def)

lemma scored_nothing: "scored ln64 c [] = []"
  by (auto simp: scored_def scored_skill_def map_filter_def score_def filter_empty_conv split: option.splits)

lemma selected_ok_iff:
  "selected_ok known ss \<longleftrightarrow> (\<forall>s \<in> set ss. sk_ID s \<noteq> [] \<and> sk_ID s \<notin> set known \<and> 0 < sk_Score s) \<and> distinct (map sk_ID ss)"
  by (induction ss arbitrary: known) (auto simp: image_iff)


subsection \<open>Staged files\<close>

lemma manifest_path_valid: "validManifestPath p \<Longrightarrow> validAssetManifestPath p"
proof -
  assume v: "validManifestPath p"
  have "\<not> hasPrefix p ''../''" "p \<noteq> ''..''"
  proof -
    have parts: "list_all (\<lambda>part. part \<noteq> ''..'') (splitSlash p)"
      using v by (auto simp: validManifestPath_def list_all_iff)
    show "p \<noteq> ''..''" using parts by auto
    show "\<not> hasPrefix p ''../''"
    proof
      assume "hasPrefix p ''../''"
      then obtain q where "p = ''..'' @ ''/'' @ q" by (auto simp: hasPrefix_iff)
      then show False using parts splitSlash_append [of "''..''" q] by auto
    qed
  qed
  then show "validAssetManifestPath p" using v by (auto simp: validManifestPath_def validAssetManifestPath_def)
qed

text \<open>
  A staged skill stays in its directory. Every file of a selected skill lands strictly below the
  directory of the skill under the destination, at the path it has in the library and with its
  content, whatever the names of the files of the library are.
\<close>

lemma staged_skill_stays_below:
  assumes "NewCorpus rc files = Inr c" and "StageFiles c skillID into = Some staged"
    and "path_IsAbs into" and "into = path_Clean into" and "into \<noteq> ''/''"
  shows "\<forall>g \<in> set staged. isInputFileAncestor (into @ ''/'' @ skillID) (sf_Path g)
    \<and> (\<exists>f \<in> set files. sf_Path g = into @ ''/'' @ sf_Path f \<and> sf_Content g = sf_Content f \<and> skill_dir (sf_Path f) = skillID)"
proof
  fix g assume "g \<in> set staged"
  with assms(2) NewCorpus_Inr(2) [OF assms(1)] obtain fs f where fs: "map_of (skills_of files) skillID = Some fs" "f \<in> set fs"
    and g: "g = f\<lparr>sf_Path := path_Join3 into skillID (trimPrefix (sf_Path f) (skillID @ ''/''))\<rparr>"
    by (auto simp: StageFiles_def)
  from map_of_SomeD [OF fs(1)] fs(2) have f: "f \<in> set files" "skill_dir (sf_Path f) = skillID"
    by (auto simp: skills_of_def Let_def sortedFiles_def)
  obtain b where chk: "check_file f = Inr (skillID, b)" using ValidateFiles_Nil [OF NewCorpus_Inr(1) [OF assms(1)] f(1)] f(2) by auto
  note ck = check_fileD [OF chk]
  let ?rel = "drop (length skillID + 1) (sf_Path f)"
  have "?rel \<noteq> []"
  proof
    assume "?rel = []"
    then have "splitSlash (sf_Path f) = splitSlash skillID @ [[]]"
      using ck(4) splitSlash_append [of skillID "[]"] by simp
    then show False using ck(1) by (auto simp: validManifestPath_def)
  qed
  moreover have "trimPrefix (sf_Path f) (skillID @ ''/'') = ?rel"
    using ck(4) trimPrefix_append [of "skillID @ ''/''" ?rel] by simp
  ultimately have "sf_Path g = path_Join into (sf_Path f)" using g ck(4) by (simp add: path_Join3_def)
  also have "\<dots> = into @ ''/'' @ sf_Path f"
    using join_below [OF assms(3,4) manifest_path_valid [OF ck(1)]] assms(5) by simp
  finally have p: "sf_Path g = into @ ''/'' @ sf_Path f" .
  have "isInputFileAncestor (into @ ''/'' @ skillID) (sf_Path g)"
  proof -
    have "sf_Path g = (into @ ''/'' @ skillID @ ''/'') @ ?rel" using p ck(4) by simp
    moreover have "into \<noteq> []" using assms(3) by (auto simp: path_IsAbs_def hasPrefix_def)
    ultimately show ?thesis
      using hasPrefix_append [of "into @ ''/'' @ skillID @ ''/''" ?rel] by (auto simp: isInputFileAncestor_def append_eq_Cons_conv)
  qed
  then show "isInputFileAncestor (into @ ''/'' @ skillID) (sf_Path g)
      \<and> (\<exists>f \<in> set files. sf_Path g = into @ ''/'' @ sf_Path f \<and> sf_Content g = sf_Content f \<and> skill_dir (sf_Path f) = skillID)"
    using p g f by auto
qed

subsection \<open>The digest\<close>

lemma itoa_no_newline: "CHR 0x0A \<notin> set (itoa (int n))"
  using nat_digits_digits [of n] by (auto simp: itoa_def list_all_iff isDigit_def)

lemma frame_text_inj:
  assumes "frame_text s @ a = frame_text t @ b"
  shows "s = t \<and> a = b"
proof -
  let ?line = "takeWhile (\<lambda>c. c \<noteq> CHR 0x0A)"
  have head: "?line (frame_text u @ r) = itoa (int (length u))" for u r
    using itoa_no_newline [of "length u"] by (simp add: frame_text_def takeWhile_tail) (metis takeWhile_eq_all_conv)
  then have "itoa (int (length s)) = itoa (int (length t))" using assms by metis
  then have "length s = length t" using itoa_inj by fastforce
  with assms show ?thesis by (auto simp: frame_text_def)
qed

text \<open>What follows the files of a skill in the preimage.\<close>

definition next_skill :: "string \<Rightarrow> bool" where
  "next_skill r \<longleftrightarrow> r = [] \<or> hd r = CHR ''s''"

lemma digest_files_inj:
  "concat (map digest_file fs) @ a = concat (map digest_file gs) @ b \<Longrightarrow> next_skill a \<Longrightarrow> next_skill b \<Longrightarrow> fs = gs \<and> a = b"
proof (induction fs arbitrary: gs)
  case Nil
  then show ?case by (cases gs) (auto simp: digest_file_def next_skill_def)
next
  case (Cons f fs)
  then obtain g gs' where gs: "gs = g # gs'" by (cases gs) (auto simp: digest_file_def next_skill_def)
  have "frame_text (sf_Path f) @ frame_text (sf_Content f) @ concat (map digest_file fs) @ a
      = frame_text (sf_Path g) @ frame_text (sf_Content g) @ concat (map digest_file gs') @ b"
    using Cons.prems(1) by (simp add: gs digest_file_def [of f] digest_file_def [of g])
  then have "sf_Path f = sf_Path g \<and> sf_Content f = sf_Content g
      \<and> concat (map digest_file fs) @ a = concat (map digest_file gs') @ b"
    by (blast dest: frame_text_inj)
  then show ?case using Cons gs by (auto intro: skill_file.equality)
qed

lemma digest_skills_inj:
  "concat (map (\<lambda>(i, fs). ''skill'' @ [CHR 0x0A] @ frame_text i @ concat (map digest_file fs)) xs)
     = concat (map (\<lambda>(i, fs). ''skill'' @ [CHR 0x0A] @ frame_text i @ concat (map digest_file fs)) ys) \<Longrightarrow> xs = ys"
proof (induction xs arbitrary: ys)
  case Nil
  then show ?case by (cases ys) auto
next
  case (Cons x xs)
  let ?one = "\<lambda>(i, fs). ''skill'' @ [CHR 0x0A] @ frame_text i @ concat (map digest_file fs)"
  obtain y ys' where ys: "ys = y # ys'" using Cons.prems by (cases ys; cases x) auto
  obtain i fs j gs where x: "x = (i, fs)" and y: "y = (j, gs)" by (cases x; cases y)
  have rest: "next_skill (concat (map ?one zs))" for zs by (cases zs) (auto simp: next_skill_def)
  have "frame_text i @ concat (map digest_file fs) @ concat (map ?one xs)
      = frame_text j @ concat (map digest_file gs) @ concat (map ?one ys')"
    using Cons.prems by (simp add: ys x y)
  from frame_text_inj [OF this] digest_files_inj [OF _ rest rest]
  have "i = j \<and> fs = gs \<and> concat (map ?one xs) = concat (map ?one ys')" by blast
  then show ?case using Cons.IH ys x y by auto
qed

text \<open>
  The digest of a skill library pins its content. The bytes that are hashed determine every
  skill, every path and every content, so two libraries with the same digest stage the same files for
  every skill, unless SHA-256 maps two different preimages to one value.
\<close>

lemma library_digest_pins_files:
  assumes "NewCorpus rc files = Inr c" and "NewCorpus rc files' = Inr c'" and "co_digest c = co_digest c'"
    and "inj_on (\<lambda>x. hex_encode (sha256 x)) {digest_preimage (skills_of files), digest_preimage (skills_of files')}"
  shows "co_skillIDs c = co_skillIDs c' \<and> StageFiles c skillID into = StageFiles c' skillID into"
proof -
  have "co_digest c = digestSkills (skills_of files)" "co_digest c' = digestSkills (skills_of files')"
    using assms(1,2) by (auto simp: NewCorpus_def Let_def split: if_splits)
  then have "hex_encode (sha256 (digest_preimage (skills_of files))) = hex_encode (sha256 (digest_preimage (skills_of files')))"
    using assms(3) by (simp add: digestSkills_def)
  from inj_onD [OF assms(4) this] have "digest_preimage (skills_of files) = digest_preimage (skills_of files')" by simp
  then have "skills_of files = skills_of files'"
    by (intro digest_skills_inj) (simp add: digest_preimage_def)
  then show ?thesis using NewCorpus_Inr(2,3) [OF assms(1)] NewCorpus_Inr(2,3) [OF assms(2)] by (simp add: StageFiles_def)
qed

subsection \<open>Witnesses\<close>

definition demo_runes :: rune_class where
  "demo_runes = \<lparr>rc_lower = (\<lambda>r. if r = ''/'' \<or> r = ''.'' then None else Some r), rc_visible = (\<lambda>_. True)\<rparr>"

definition demo_skills :: "skill_file list" where
  "demo_skills = [\<lparr>sf_Path = ''b/x'', sf_Content = ''y''\<rparr>, \<lparr>sf_Path = ''b/SKILL.md'', sf_Content = ''y''\<rparr>]"

lemma demo_skills_valid: "ValidateFiles demo_skills = []" "skill_dir ''b/x'' = ''b''"
  by code_simp+

lemma demo_corpus: "\<exists>c. NewCorpus demo_runes demo_skills = Inr c"
  by (simp add: NewCorpus_def demo_skills_valid Let_def)


lemma staged_skill_stays_below_witness:
  "\<exists>c staged. NewCorpus demo_runes demo_skills = Inr c \<and> StageFiles c ''b'' ''/w'' = Some staged
     \<and> (\<forall>g \<in> set staged. isInputFileAncestor ''/w/b'' (sf_Path g))"
proof -
  obtain c where c: "NewCorpus demo_runes demo_skills = Inr c" using demo_corpus by blast
  have "''b'' \<in> fst ` set (skills_of demo_skills)"
    using demo_skills_valid(2)
    by (force simp: skills_of_def sortedFiles_def Let_def image_image demo_skills_def)
  then obtain staged where staged: "StageFiles c ''b'' ''/w'' = Some staged"
    using NewCorpus_Inr(2) [OF c] by (cases "map_of (skills_of demo_skills) ''b''") (auto simp: StageFiles_def map_of_eq_None_iff)
  have "path_IsAbs ''/w''" "''/w'' = path_Clean ''/w''" by code_simp+
  from staged_skill_stays_below [OF c staged this] c staged show ?thesis by auto
qed

lemma library_digest_pins_files_witness:
  "\<exists>c c'. NewCorpus demo_runes demo_skills = Inr c \<and> NewCorpus demo_runes (rev demo_skills) = Inr c'
     \<and> StageFiles c ''b'' ''/w'' = StageFiles c' ''b'' ''/w''"
proof -
  obtain c where c: "NewCorpus demo_runes demo_skills = Inr c" using demo_corpus by blast
  have same: "sortedFiles (rev demo_skills) = sortedFiles demo_skills" by code_simp
  then have skills: "skills_of (rev demo_skills) = skills_of demo_skills" and "ValidateFiles (rev demo_skills) = ValidateFiles demo_skills"
    by (simp_all add: skills_of_def ValidateFiles_def)
  then have "NewCorpus demo_runes (rev demo_skills) = Inr c" using c by (simp add: NewCorpus_def demo_skills_valid)
  moreover note skills
  ultimately show ?thesis using library_digest_pins_files [OF c, of "rev demo_skills" c "''b''" "''/w''"] c by auto
qed

end
