(* ===== verification/Display_Text.thy ===== *)
theory Display_Text
  imports Go_Json
begin

text \<open>
  The text of agent events as it is shown on a terminal (src/agent/display_sanitize.go): escape
  sequences, control characters and invalid bytes are dropped, in one piece or chunk by chunk with
  the state of an unfinished sequence carried over. The functions work on what is left of the input,
  where the program keeps an index. The removal of secrets that follows is a list of regular
  expressions and is a parameter where it is used.
\<close>

subsection \<open>Sequences that are skipped\<close>

definition byte :: "char \<Rightarrow> nat" where "byte c = of_char c"

definition final_byte :: "char \<Rightarrow> bool" where "final_byte c = (64 \<le> byte c \<and> byte c \<le> 126)"

definition isC1StringControlByte :: "char \<Rightarrow> bool" where
  "isC1StringControlByte c = (byte c \<in> {0x90, 0x98, 0x9d, 0x9e, 0x9f})"

fun skipControlSequence :: "string \<Rightarrow> string" where
  "skipControlSequence [] = []"
| "skipControlSequence (c # s) = (if final_byte c then s else skipControlSequence s)"

text \<open>The end of a string sequence at the first byte: what is left after it.\<close>

definition string_end :: "char \<Rightarrow> string \<Rightarrow> string option" where
  "string_end c s =
     (if byte c = 0x07 \<or> byte c = 0x9c then Some s
      else if byte c = 0x1b \<and> s \<noteq> [] \<and> hd s = CHR 0x5C then Some (tl s)
      else if byte c = 0xc2 \<and> s \<noteq> [] \<and> byte (hd s) = 0x9c then Some (tl s)
      else None)"

fun skipStringControl :: "string \<Rightarrow> string" where
  "skipStringControl [] = []"
| "skipStringControl (c # s) = (case string_end c s of Some r \<Rightarrow> r | None \<Rightarrow> skipStringControl s)"

definition string_opener :: "char \<Rightarrow> bool" where
  "string_opener c = (c \<in> {CHR '']'', CHR ''P'', CHR ''^'', CHR ''_'', CHR ''X''})"

definition skipEscapeSequence :: "string \<Rightarrow> string" where
  "skipEscapeSequence s =
     (case s of
        [] \<Rightarrow> []
      | c # r \<Rightarrow> if c = CHR ''['' then skipControlSequence r
                 else if string_opener c then skipStringControl r else r)"

subsection \<open>Characters\<close>

text \<open>A character of two bytes from the C1 block: the second byte is its code.\<close>

definition c1_rune :: "string \<Rightarrow> bool" where
  "c1_rune r = (length r = 2 \<and> byte (r ! 0) = 0xc2 \<and> 0x80 \<le> byte (r ! 1) \<and> byte (r ! 1) \<le> 0x9f)"

definition isDisplayControl :: "string \<Rightarrow> bool" where
  "isDisplayControl r =
     (length r = 1 \<and> (byte (r ! 0) < 0x20 \<or> byte (r ! 0) = 0x7f) \<and> byte (r ! 0) \<noteq> 0x0a \<and> byte (r ! 0) \<noteq> 0x09 \<or> c1_rune r)"

text \<open>
  What stands at the head of the input outside a sequence: text that is kept, with what is left
  after it, or the opening of a sequence. Both loops of the program begin with this switch.
\<close>

datatype display_item = Kept string string | EscOpened string | CSIOpened string | StringOpened string

definition head_item :: "char \<Rightarrow> string \<Rightarrow> display_item" where
  "head_item c s =
     (if byte c = 0x1b then EscOpened s
      else if byte c = 0x9b then CSIOpened s
      else if isC1StringControlByte c then StringOpened s
      else if byte c < 0x20 \<or> byte c = 0x7f then Kept (if byte c = 0x0a \<or> byte c = 0x09 then [c] else []) s
      else if byte c < 0x80 then Kept [c] s
      else let n = utf8_len (c # s); r = take n (c # s); rest = drop n (c # s)
           in if n = 0 then Kept [] s
              else if c1_rune r \<and> byte (r ! 1) = 0x9b then CSIOpened rest
              else if c1_rune r \<and> isC1StringControlByte (r ! 1) then StringOpened rest
              else Kept (if isDisplayControl r then [] else r) rest)"

lemma head_item_shorter:
  "head_item c s = Kept t r \<Longrightarrow> length r \<le> length s" "head_item c s = EscOpened r \<Longrightarrow> length r \<le> length s"
  "head_item c s = CSIOpened r \<Longrightarrow> length r \<le> length s" "head_item c s = StringOpened r \<Longrightarrow> length r \<le> length s"
  by (auto simp: head_item_def Let_def split: if_splits)

subsection \<open>One piece\<close>

lemma skip_shorter: "length (skipControlSequence s) \<le> length s" "length (skipStringControl s) \<le> length s"
  "length (skipEscapeSequence s) \<le> length s"
proof -
  show csi: "length (skipControlSequence s) \<le> length s" for s by (induction s) auto
  have "string_end c s = Some r \<Longrightarrow> length r \<le> length s" for c s r
    by (auto simp: string_end_def split: if_splits)
  then show str: "length (skipStringControl s) \<le> length s" for s
    by (induction s) (auto split: option.splits intro: le_SucI)
  show "length (skipEscapeSequence s) \<le> length s"
    using csi str by (auto simp: skipEscapeSequence_def split: list.splits intro: le_SucI)
qed

function SanitizeDisplayBytes :: "string \<Rightarrow> string" where
  "SanitizeDisplayBytes [] = []"
| "SanitizeDisplayBytes (c # s) =
     (case head_item c s of
        Kept t r \<Rightarrow> t @ SanitizeDisplayBytes r
      | EscOpened r \<Rightarrow> SanitizeDisplayBytes (skipEscapeSequence r)
      | CSIOpened r \<Rightarrow> SanitizeDisplayBytes (skipControlSequence r)
      | StringOpened r \<Rightarrow> SanitizeDisplayBytes (skipStringControl r))"
  by pat_completeness auto
termination
  by (relation "measure length")
    (auto simp: less_Suc_eq_le dest: head_item_shorter intro: order_trans [OF skip_shorter(1)]
      order_trans [OF skip_shorter(2)] order_trans [OF skip_shorter(3)])

subsection \<open>Bounded text\<close>

text \<open>
  \<open>boundDisplayField\<close>: the longest prefix of whole runes within the limit. An invalid byte is one
  byte wide but counts as the three bytes of the replacement character.
\<close>

function rune_cut :: "nat \<Rightarrow> nat \<Rightarrow> nat \<Rightarrow> string \<Rightarrow> nat" where
  "rune_cut limit i last_cut s =
     (if s = [] then last_cut
      else let n = utf8_len s; next = i + (if n = 0 then 3 else n); width = (if n = 0 then 1 else n)
           in if limit < next then last_cut else rune_cut limit (i + width) next (drop width s))"
  by pat_completeness auto
termination by (relation "measure (\<lambda>(_, _, _, s). length s)") (auto simp: Let_def)

declare rune_cut.simps [simp del]

definition truncated :: "nat \<Rightarrow> string" where
  "truncated n = ''...[truncated '' @ itoa (int n) @ '' bytes]''"

definition boundDisplayField :: "string \<Rightarrow> nat \<Rightarrow> string" where
  "boundDisplayField s limit =
     (if length s \<le> limit then s
      else let last_cut = rune_cut limit 0 0 s
           in if last_cut = 0 then truncated (length s) else take last_cut s @ truncated (length s - last_cut))"

function utf8_Valid :: "string \<Rightarrow> bool" where
  "utf8_Valid s = (if s = [] then True else if utf8_len s = 0 then False else utf8_Valid (drop (utf8_len s) s))"
  by pat_completeness auto
termination by (relation "measure length") auto

declare utf8_Valid.simps [simp del]

subsection \<open>A stream of chunks\<close>

datatype stream_mode = StreamNormal | StreamEsc | StreamCSI | StreamString | StreamStringEsc

text \<open>A scan in one chunk: what is left, or the mode in which the chunk ended.\<close>

fun scanControlSequence :: "string \<Rightarrow> stream_mode + string" where
  "scanControlSequence [] = Inl StreamCSI"
| "scanControlSequence (c # s) = (if final_byte c then Inr s else scanControlSequence s)"

fun scanStringControl :: "string \<Rightarrow> stream_mode + string" where
  "scanStringControl [] = Inl StreamString"
| "scanStringControl (c # s) =
     (case string_end c s of
        Some r \<Rightarrow> Inr r
      | None \<Rightarrow> if byte c = 0x1b \<and> s = [] then Inl StreamStringEsc else scanStringControl s)"

definition scanEscContinuation :: "string \<Rightarrow> stream_mode + string" where
  "scanEscContinuation s =
     (case s of
        [] \<Rightarrow> Inl StreamEsc
      | c # r \<Rightarrow> if c = CHR ''['' then scanControlSequence r
                 else if string_opener c then scanStringControl r else Inr r)"

text \<open>\<open>utf8.FullRune\<close>: false only for a beginning that more bytes can complete to a character.\<close>

definition rune_size :: "char \<Rightarrow> nat" where
  "rune_size c = (if 0xc2 \<le> byte c \<and> byte c \<le> 0xdf then 2 else if 0xe0 \<le> byte c \<and> byte c \<le> 0xef then 3
     else if 0xf0 \<le> byte c \<and> byte c \<le> 0xf4 then 4 else 1)"

definition accept_second :: "char \<Rightarrow> nat \<times> nat" where
  "accept_second c = (if byte c = 0xe0 then (0xa0, 0xbf) else if byte c = 0xed then (0x80, 0x9f)
     else if byte c = 0xf0 then (0x90, 0xbf) else if byte c = 0xf4 then (0x80, 0x8f) else (0x80, 0xbf))"

definition FullRune :: "string \<Rightarrow> bool" where
  "FullRune s =
     (case s of
        [] \<Rightarrow> False
      | c # _ \<Rightarrow> rune_size c \<le> length s
          \<or> 1 < length s \<and> \<not> (fst (accept_second c) \<le> byte (s ! 1) \<and> byte (s ! 1) \<le> snd (accept_second c))
          \<or> 2 < length s \<and> \<not> (0x80 \<le> byte (s ! 2) \<and> byte (s ! 2) \<le> 0xbf))"

lemma scan_shorter:
  "scanControlSequence s = Inr r \<Longrightarrow> length r < length s" "scanStringControl s = Inr r \<Longrightarrow> length r < length s"
  "scanEscContinuation s = Inr r \<Longrightarrow> length r < length s"
proof -
  show csi: "scanControlSequence s = Inr r \<Longrightarrow> length r < length s" for s r
    by (induction s) (auto split: if_splits)
  have "string_end c s = Some r \<Longrightarrow> length r \<le> length s" for c s r
    by (auto simp: string_end_def split: if_splits)
  then show str: "scanStringControl s = Inr r \<Longrightarrow> length r < length s" for s r
    by (induction s) (auto split: option.splits if_splits simp: le_imp_less_Suc less_SucI)
  show "scanEscContinuation s = Inr r \<Longrightarrow> length r < length s"
    using csi str by (auto simp: scanEscContinuation_def less_SucI split: list.splits if_splits)
qed

text \<open>The scan a mode continues with; the result of the loop is the text and the mode after the chunk.\<close>

fun resume_scan :: "stream_mode \<Rightarrow> string \<Rightarrow> stream_mode + string" where
  "resume_scan StreamEsc s = scanEscContinuation s"
| "resume_scan StreamCSI s = scanControlSequence s"
| "resume_scan StreamString s = scanStringControl s"
| "resume_scan StreamStringEsc s = (if s \<noteq> [] \<and> hd s = CHR 0x5C then Inr (tl s) else scanStringControl s)"
| "resume_scan StreamNormal s = Inr s"

definition open_scan :: "display_item \<Rightarrow> stream_mode + string" where
  "open_scan h = (case h of Kept _ r \<Rightarrow> Inr r | EscOpened r \<Rightarrow> scanEscContinuation r | CSIOpened r \<Rightarrow> scanControlSequence r
     | StringOpened r \<Rightarrow> scanStringControl r)"

definition kept :: "display_item \<Rightarrow> string" where
  "kept h = (case h of Kept t _ \<Rightarrow> t | _ \<Rightarrow> [])"

function stream_normal :: "string \<Rightarrow> string \<times> stream_mode" where
  "stream_normal [] = ([], StreamNormal)"
| "stream_normal (c # s) =
     (if 0x80 \<le> byte c \<and> byte c \<noteq> 0x9b \<and> \<not> isC1StringControlByte c \<and> \<not> FullRune (c # s) then ([], StreamNormal)
      else case open_scan (head_item c s) of
             Inl m \<Rightarrow> (kept (head_item c s), m)
           | Inr r \<Rightarrow> (let (text, m) = stream_normal r in (kept (head_item c s) @ text, m)))"
  by pat_completeness auto
termination
proof (relation "measure length")
  fix c s r assume "open_scan (head_item c s) = Inr r"
  then show "(r, c # s) \<in> measure length"
    using head_item_shorter [of c s] scan_shorter by (fastforce simp: open_scan_def less_Suc_eq_le split: display_item.splits)
qed simp

definition stream_bytes :: "stream_mode \<Rightarrow> string \<Rightarrow> string \<times> stream_mode" where
  "stream_bytes m s =
     (if s = [] then ([], m) else case resume_scan m s of Inl m' \<Rightarrow> ([], m') | Inr r \<Rightarrow> stream_normal r)"

subsection \<open>What is left is displayable\<close>

definition displayable :: "string \<Rightarrow> bool" where
  "displayable r \<longleftrightarrow> r \<noteq> [] \<and> utf8_len r = length r \<and> \<not> isDisplayControl r"

text \<open>The first character does not depend on what follows it.\<close>

lemma byte_in_append: "i < length a \<Longrightarrow> byte_in lo hi (a @ b) i = byte_in lo hi a i"
  by (simp add: byte_in_def nth_append)

lemma utf8_len_cases:
  "utf8_len s = 0 \<or> utf8_len s = 1 \<and> byte_in 0 127 s 0 \<or> utf8_len s = 2 \<and> 2 \<le> length s
    \<or> utf8_len s = 3 \<and> 3 \<le> length s \<or> utf8_len s = 4 \<and> 4 \<le> length s"
  by (simp add: utf8_len_def byte_in_def Let_def)

lemma utf8_len_append:
  assumes "utf8_len a = length a" and "a \<noteq> []"
  shows "utf8_len (a @ b) = length a"
proof -
  have "length a \<in> {1, 2, 3, 4}" using assms utf8_len_cases [of a] by auto
  then consider "length a = 1" | "length a = 2" | "length a = 3" | "length a = 4" by blast
  then show ?thesis
  proof cases
    case 1
    then have "byte_in 0 127 a 0" using assms utf8_len_cases [of a] by simp
    then show ?thesis using 1 by (simp add: utf8_len_def Let_def byte_in_append)
  next
    case 2
    then obtain x y where "a = [x, y]" by (auto simp: length_Suc_conv numeral_2_eq_2)
    then show ?thesis using assms by (auto simp: utf8_len_def byte_in_def Let_def split: if_splits)
  next
    case 3
    then obtain x y z where "a = [x, y, z]" by (auto simp: length_Suc_conv numeral_3_eq_3)
    then show ?thesis using assms by (auto simp: utf8_len_def byte_in_def Let_def split: if_splits)
  next
    case 4
    then obtain x y z u where "a = [x, y, z, u]" by (auto simp: length_Suc_conv numeral_eq_Suc)
    then show ?thesis using assms by (auto simp: utf8_len_def byte_in_def Let_def split: if_splits)
  qed
qed

lemma utf8_len_prefix:
  assumes "utf8_len (a @ b) = length a"
  shows "utf8_len a = length a"
proof -
  have "length a \<in> {0, 1, 2, 3, 4}" using assms utf8_len_cases [of "a @ b"] by auto
  then consider "a = []" | "length a = 1" | "length a = 2" | "length a = 3" | "length a = 4" by auto
  then show ?thesis
  proof cases
    case 1
    then show ?thesis by (simp add: utf8_len_def byte_in_def)
  next
    case 2
    then have "byte_in 0 127 (a @ b) 0" using assms utf8_len_cases [of "a @ b"] by auto
    then show ?thesis using 2 by (simp add: utf8_len_def Let_def byte_in_append)
  next
    case 3
    then obtain x y where "a = [x, y]" by (auto simp: length_Suc_conv numeral_2_eq_2)
    then show ?thesis using assms by (auto simp: utf8_len_def byte_in_def Let_def split: if_splits)
  next
    case 4
    then obtain x y z where "a = [x, y, z]" by (auto simp: length_Suc_conv numeral_3_eq_3)
    then show ?thesis using assms by (auto simp: utf8_len_def byte_in_def Let_def split: if_splits)
  next
    case 5
    then obtain x y z u where "a = [x, y, z, u]" by (auto simp: length_Suc_conv numeral_eq_Suc)
    then show ?thesis using assms by (auto simp: utf8_len_def byte_in_def Let_def split: if_splits)
  qed
qed

lemma utf8_len_take: "utf8_len (take (utf8_len s) s) = utf8_len s"
proof -
  have "utf8_len s \<le> length s"
    using utf8_len_cases [of s] by (cases s) (auto simp: byte_in_def)
  then have "length (take (utf8_len s) s) = utf8_len s" by simp
  then show ?thesis using utf8_len_prefix [of "take (utf8_len s) s" "drop (utf8_len s) s"] by simp
qed

lemma kept_displayable: "kept (head_item c s) = [] \<or> displayable (kept (head_item c s))"
proof -
  let ?n = "utf8_len (c # s)"
  have one: "utf8_len [c] = 1" if "byte c < 128" using that by (simp add: utf8_len_def byte_in_def byte_def Let_def)
  have "displayable (take ?n (c # s))" if "?n \<noteq> 0" "\<not> isDisplayControl (take ?n (c # s))"
  proof -
    have "?n \<le> length (c # s)" using utf8_len_cases [of "c # s"] by (auto simp: byte_in_def)
    then show ?thesis using that utf8_len_take [of "c # s"] by (auto simp: displayable_def min_def)
  qed
  then show ?thesis
    using one by (auto simp: kept_def head_item_def Let_def displayable_def isDisplayControl_def c1_rune_def split: if_splits)
qed

text \<open>The texts made of displayable characters.\<close>

definition plain_text :: "string \<Rightarrow> bool" where
  "plain_text s \<longleftrightarrow> (\<exists>rs. s = concat rs \<and> list_all displayable rs)"

lemma plain_text_Nil [simp]: "plain_text []"
  unfolding plain_text_def by (rule exI [of _ "[]"]) simp

lemma plain_text_append [intro]: "plain_text a \<Longrightarrow> plain_text b \<Longrightarrow> plain_text (a @ b)"
  unfolding plain_text_def by (metis concat_append list_all_append)

lemma plain_text_kept [simp]: "plain_text (kept (head_item c s))"
proof (cases "kept (head_item c s) = []")
  case False
  then show ?thesis
    using kept_displayable [of c s] unfolding plain_text_def by (intro exI [of _ "[kept (head_item c s)]"]) simp
qed simp

lemma displayable_bytes:
  assumes "displayable r" and "b \<in> set r"
  shows "byte b \<ge> 32 \<and> byte b \<noteq> 127 \<or> byte b = 10 \<or> byte b = 9"
proof (cases "length r = 1")
  case True
  then obtain d where "r = [d]" by (auto simp: length_Suc_conv)
  then show ?thesis using assms by (auto simp: displayable_def isDisplayControl_def)
next
  case False
  have high: "128 \<le> byte (r ! i)" if "i < length r" for i
  proof -
    have "length r \<in> {2, 3, 4}" using False assms utf8_len_cases [of r] by (auto simp: displayable_def)
    then have "i < utf8_len r" "1 < utf8_len r" "utf8_len r \<le> 4" using that assms by (auto simp: displayable_def)
    then show ?thesis by (auto simp: utf8_len_def Let_def byte_in_def byte_def less_Suc_eq numeral_eq_Suc split: if_splits)
  qed
  from assms(2) obtain i where "i < length r" "b = r ! i" by (auto simp: in_set_conv_nth)
  then show ?thesis using high [of i] by simp
qed

lemma plain_text_bytes: "plain_text s \<Longrightarrow> b \<in> set s \<Longrightarrow> byte b \<ge> 32 \<and> byte b \<noteq> 127 \<or> byte b = 10 \<or> byte b = 9"
  unfolding plain_text_def list_all_iff using displayable_bytes by (metis UN_iff set_concat)

subsection \<open>Results\<close>

lemma plain_Sanitize: "plain_text (SanitizeDisplayBytes s)"
proof (induction s rule: SanitizeDisplayBytes.induct)
  case (2 c s)
  then show ?case
    using plain_text_kept [of c s] by (auto simp: kept_def split: display_item.splits)
qed simp

lemma plain_stream: "plain_text (fst (stream_normal s))"
proof (induction s rule: stream_normal.induct)
  case (2 c s)
  then show ?case by (auto split: sum.splits prod.splits)
qed simp

lemma head_item_displayable:
  assumes "displayable (c # r)"
  shows "head_item c (r @ s) = Kept (c # r) s"
proof -
  have n: "utf8_len (c # r @ s) = length (c # r)"
    using assms utf8_len_append [of "c # r" s] by (simp add: displayable_def)
  show ?thesis
  proof (cases "r = []")
    case True
    then have "byte c < 128" using n by (auto simp: utf8_len_def byte_in_def byte_def Let_def split: if_splits)
    then show ?thesis using assms True
      by (auto simp: head_item_def displayable_def isDisplayControl_def isC1StringControlByte_def)
  next
    case False
    then have "192 \<le> byte c" using n
      by (cases r) (auto simp: utf8_len_def byte_in_def byte_def Let_def split: if_splits)
    moreover have "\<not> c1_rune (c # r)" "\<not> isDisplayControl (c # r)" using assms by (auto simp: displayable_def isDisplayControl_def)
    ultimately show ?thesis using n by (auto simp: head_item_def isC1StringControlByte_def Let_def)
  qed
qed

lemma Sanitize_plain: "list_all displayable rs \<Longrightarrow> SanitizeDisplayBytes (concat rs) = concat rs"
proof (induction rs)
  case (Cons x rs)
  then obtain c r where x: "x = c # r" by (cases x) (auto simp: displayable_def)
  with Cons show ?case using head_item_displayable [of c r "concat rs"] by simp
qed simp

fun stream_chunks :: "stream_mode \<Rightarrow> string list \<Rightarrow> string" where
  "stream_chunks m [] = []"
| "stream_chunks m (piece # pieces) = (let (text, m') = stream_bytes m piece in text @ stream_chunks m' pieces)"


text \<open>
  A character split between two chunks can swallow text. The two bytes of a character whose second
  byte is 0x9b arrive in different chunks: the first is dropped as incomplete, the second is then read
  as the opening of a control sequence and the letter after it is lost. In one piece all is shown.
\<close>

lemma split_character_swallows_text:
  "SanitizeDisplayBytes [CHR 0xC4, CHR 0x9B, CHR ''h'', CHR ''i''] = [CHR 0xC4, CHR 0x9B, CHR ''h'', CHR ''i'']
   \<and> stream_chunks StreamNormal [[CHR 0xC4], [CHR 0x9B, CHR ''h'', CHR ''i'']] = ''i''"
  by code_simp

end
