(* ===== verification/Agent_Sink.thy ===== *)
theory Agent_Sink
  imports Run_State Display_Text
begin

text \<open>
  The events an agent sends while it works (src/agent/display.go, src/agent/types.go) and the sink
  that journals them live (src/engine/agent_event_sink.go). The sink is one goroutine that takes
  events from a buffered channel; consecutive assistant deltas are merged into one pending event,
  which is journalled when another event comes, when a timer fires, at a flush and at the close. The
  inputs of the sink are the things that can wake it up, in the order in which it sees them.
\<close>

subsection \<open>Events\<close>

datatype display_class = DisplayOther | DisplayInit | DisplayAssistant | DisplayAssistantDelta | DisplayReasoning
  | DisplayToolCall | DisplayToolResult | DisplayFinal | DisplayError | DisplayNotice

fun class_String :: "display_class \<Rightarrow> string" where
  "class_String DisplayInit = ''init''"
| "class_String DisplayAssistant = ''assistant''"
| "class_String DisplayAssistantDelta = ''assistant_delta''"
| "class_String DisplayReasoning = ''reasoning''"
| "class_String DisplayToolCall = ''tool_call''"
| "class_String DisplayToolResult = ''tool_result''"
| "class_String DisplayFinal = ''final''"
| "class_String DisplayError = ''error''"
| "class_String DisplayNotice = ''notice''"
| "class_String DisplayOther = ''other''"

record event_display =
  di_Class :: display_class
  di_Tool :: string
  di_Text :: string
  di_Lines :: int
  di_Bytes :: int
  di_IsError :: bool

record agent_event =
  ev_Kind :: string
  ev_Payload :: string
  ev_Stream :: string
  ev_Live :: bool
  ev_Display :: event_display

subsection \<open>The sink\<close>

definition is_delta :: "agent_event \<Rightarrow> bool" where
  "is_delta ev = (ev_Live ev \<and> di_Class (ev_Display ev) = DisplayAssistantDelta)"

definition mergeDelta :: "agent_event \<Rightarrow> agent_event option \<Rightarrow> agent_event" where
  "mergeDelta ev pending =
     (case pending of
        None \<Rightarrow> ev
      | Some p \<Rightarrow> p\<lparr>ev_Payload := ev_Payload p @ ev_Payload ev, ev_Kind := ev_Kind ev, ev_Stream := ev_Stream ev,
                    ev_Display := (ev_Display p)\<lparr>di_Text := di_Text (ev_Display p) @ di_Text (ev_Display ev)\<rparr>\<rparr>)"

text \<open>
  An input is an event taken from the channel, the timer of the pending delta, a full channel (the
  sender gets the backpressure error and the sink is stopped), or the end of the step's context.
\<close>

datatype sink_input = Sent agent_event | DeltaReady | Backpressure | CtxDone

datatype sink_error = SinkBackpressure | SinkCtx

record sink_state =
  sk_pending :: "agent_event option"
  sk_appended :: "agent_event list"
  sk_err :: "sink_error option"

definition new_sink :: sink_state where
  "new_sink = \<lparr>sk_pending = None, sk_appended = [], sk_err = None\<rparr>"

definition flushPendingDelta :: "sink_state \<Rightarrow> sink_state" where
  "flushPendingDelta s =
     (case sk_pending s of None \<Rightarrow> s | Some ev \<Rightarrow> s\<lparr>sk_pending := None, sk_appended := sk_appended s @ [ev]\<rparr>)"

definition handleEvent :: "agent_event \<Rightarrow> sink_state \<Rightarrow> sink_state" where
  "handleEvent ev s =
     (if is_delta ev then s\<lparr>sk_pending := Some (mergeDelta ev (sk_pending s))\<rparr>
      else let s' = flushPendingDelta s in s'\<lparr>sk_appended := sk_appended s' @ [ev]\<rparr>)"

text \<open>The loop of \<open>run\<close>; the appends to the journal are carried out by the caller, in this order.\<close>

fun sink_run :: "sink_state \<Rightarrow> sink_input list \<Rightarrow> sink_state" where
  "sink_run s [] = flushPendingDelta s"
| "sink_run s (Sent ev # ins) = sink_run (handleEvent ev s) ins"
| "sink_run s (DeltaReady # ins) = sink_run (flushPendingDelta s) ins"
| "sink_run s (Backpressure # ins) = s\<lparr>sk_err := Some SinkBackpressure\<rparr>"
| "sink_run s (CtxDone # ins) = s\<lparr>sk_err := Some SinkCtx\<rparr>"

subsection \<open>Nothing is lost or reordered\<close>

definition sent :: "sink_input list \<Rightarrow> agent_event list" where
  "sent ins = List.map_filter (\<lambda>i. case i of Sent ev \<Rightarrow> Some ev | _ \<Rightarrow> None) ins"

definition payloads :: "agent_event list \<Rightarrow> string" where
  "payloads evs = concat (map ev_Payload evs)"

definition undisturbed :: "sink_input list \<Rightarrow> bool" where
  "undisturbed ins = list_all (\<lambda>i. i \<noteq> Backpressure \<and> i \<noteq> CtxDone) ins"

definition pending_list :: "sink_state \<Rightarrow> agent_event list" where
  "pending_list s = (case sk_pending s of None \<Rightarrow> [] | Some ev \<Rightarrow> [ev])"

lemma sent_simps [simp]:
  "sent [] = []" "sent (Sent ev # ins) = ev # sent ins" "sent (DeltaReady # ins) = sent ins"
  "sent (Backpressure # ins) = sent ins" "sent (CtxDone # ins) = sent ins"
  by (simp_all add: sent_def map_filter_simps)

lemma flush_appended: "sk_appended (flushPendingDelta s) = sk_appended s @ pending_list s" "sk_pending (flushPendingDelta s) = None"
  "sk_err (flushPendingDelta s) = sk_err s"
  by (auto simp: flushPendingDelta_def pending_list_def split: option.splits)

lemma handle_payloads:
  "payloads (sk_appended (handleEvent ev s) @ pending_list (handleEvent ev s))
     = payloads (sk_appended s @ pending_list s) @ ev_Payload ev" "sk_err (handleEvent ev s) = sk_err s"
  by (auto simp: handleEvent_def payloads_def pending_list_def mergeDelta_def flushPendingDelta_def Let_def split: option.splits)

lemma run_payloads:
  "undisturbed ins \<Longrightarrow> payloads (sk_appended (sink_run s ins)) = payloads (sk_appended s @ pending_list s) @ payloads (sent ins)
     \<and> sk_err (sink_run s ins) = sk_err s \<and> sk_pending (sink_run s ins) = None"
proof (induction s ins rule: sink_run.induct)
  case (2 s ev ins)
  then show ?case using handle_payloads [of ev s] by (simp add: undisturbed_def payloads_def)
next
  case (3 s ins)
  then show ?case by (simp add: undisturbed_def flush_appended pending_list_def)
qed (simp_all add: undisturbed_def flush_appended payloads_def)

text \<open>The events that are not deltas pass through as they are.\<close>

lemma run_others:
  "undisturbed ins \<Longrightarrow> filter (\<lambda>ev. \<not> is_delta ev) (sk_appended (sink_run s ins))
     = filter (\<lambda>ev. \<not> is_delta ev) (sk_appended s) @ filter (\<lambda>ev. \<not> is_delta ev) (pending_list s @ sent ins)"
  if "list_all is_delta (pending_list s)"
  using that
proof (induction s ins rule: sink_run.induct)
  case (2 s ev ins)
  have "list_all is_delta (pending_list (handleEvent ev s))"
    using 2(3) by (auto simp: handleEvent_def pending_list_def mergeDelta_def flushPendingDelta_def is_delta_def Let_def
        split: option.splits)
  moreover have "filter (\<lambda>ev. \<not> is_delta ev) (sk_appended (handleEvent ev s))
      = filter (\<lambda>ev. \<not> is_delta ev) (sk_appended s @ [ev])"
    using 2(3) by (auto simp: handleEvent_def pending_list_def flushPendingDelta_def Let_def split: option.splits)
  moreover have "filter (\<lambda>ev. \<not> is_delta ev) (pending_list t) = []" if "list_all is_delta (pending_list t)" for t
    using that by (auto simp: filter_empty_conv list_all_iff)
  ultimately show ?case using 2 by (simp add: undisturbed_def)
next
  case (3 s ins)
  have "filter (\<lambda>ev. \<not> is_delta ev) (pending_list s) = []" using 3(3) by (auto simp: filter_empty_conv list_all_iff)
  with 3 show ?case by (simp add: undisturbed_def flush_appended) (simp add: pending_list_def flush_appended)
qed (auto simp: undisturbed_def flush_appended filter_empty_conv list_all_iff)


definition demo_delta :: "string \<Rightarrow> agent_event" where
  "demo_delta s = \<lparr>ev_Kind = ''delta'', ev_Payload = s, ev_Stream = [], ev_Live = True,
     ev_Display = \<lparr>di_Class = DisplayAssistantDelta, di_Tool = [], di_Text = s, di_Lines = 0, di_Bytes = 0, di_IsError = False\<rparr>\<rparr>"


end
