(* ===== verification/Engine_Step.thy ===== *)
theory Engine_Step
  imports Rerun Interleave Skill_Route Agent_Sink
begin

text \<open>
  One step of a run: the retry loop (src/engine/retry_loop.go), the commit of a result
  (src/engine/commit.go), code steps (src/engine/interpreter.go) and signal steps
  (src/engine/signal_step.go), over a shared world. The world is the journal with the length of
  its synced part, the blob store, the run state in memory, the cancelled contexts, and the trace
  of calls that leave the engine. What the engine calls and does not contain is in the record
  \<open>engine_env\<close>: the dispatcher, the JSON-schema validator, JSON decoding, the digest of a node, the
  signal broker, and the faults of the log, of the store and of timers; each is a function of the
  number of such calls made before, so that a fixed function stands for any behaviour over time.
  Steps are in continuation-passing style over the programs of \<open>Interleave\<close>: every call that
  touches shared state is one atomic action.
\<close>

subsection \<open>Errors and results\<close>

datatype gerr = ErrSkip string | ErrCtx | ErrDeadline | ErrCause string | ErrReplayRequired | ErrEval eval_error
  | ErrInfra string | ErrCancelled | ErrPaused | ErrRejected string int | ErrStage | ErrFuel
  | ErrRenderImage int | ErrCreateConfig int | ErrSink

type_synonym result = "outcome \<times> gerr option"

text \<open>The text of an error in the journal; only its kind is modelled.\<close>

fun err_text :: "gerr \<Rightarrow> string" where
  "err_text (ErrSkip r) = ''engine: skip unwind (reason: '' @ r @ '')''"
| "err_text ErrCtx = ''context canceled''"
| "err_text ErrDeadline = ''context deadline exceeded''"
| "err_text (ErrCause s) = s"
| "err_text (ErrInfra s) = s"
| "err_text (ErrRejected p n) = ''gate '' @ p @ '' rejected after '' @ itoa n @ '' attempts''"
| "err_text _ = ''error''"

text \<open>What a live adapter reports about its session.\<close>

record live_record =
  li_AdapterRef :: string
  li_SessionKey :: string
  li_SessionKeyHash :: string
  li_LeaseID :: string
  li_ActiveTurnID :: string
  li_ProviderTurnID :: string
  li_RunID :: string
  li_NodePath :: string
  li_Epoch :: nat
  li_CommittedUnix :: int

record dispatch_result =
  dr_Outcome :: outcome
  dr_ExitCode :: "int option"
  dr_Outputs :: "goval option"
  dr_Stdout :: string
  dr_Files :: "(string \<times> string) list"
  dr_Err :: "gerr option"
  dr_RetryAfter :: duration
  dr_AgentEvents :: "agent_event list"
  dr_Transcript :: "goval option"
  dr_Live :: "live_record option"
  dr_SnapshotRef :: string
  dr_Container :: string
  dr_SessionTranscript :: string
  dr_SessionRef :: string
  dr_Node :: "node option"
  dr_InputRefs :: "string list"

definition zero_dispatch :: dispatch_result where
  "zero_dispatch = \<lparr>dr_Outcome = NoOutcome, dr_ExitCode = None, dr_Outputs = None, dr_Stdout = [], dr_Files = [],
     dr_Err = None, dr_RetryAfter = 0, dr_AgentEvents = [], dr_Transcript = None, dr_Live = None, dr_SnapshotRef = [], dr_Container = [],
     dr_SessionTranscript = [], dr_SessionRef = [], dr_Node = None, dr_InputRefs = []\<rparr>"

text \<open>The inputs only an agent step resolves; all of them are empty for other steps.\<close>

record agent_inputs =
  ai_Uses :: string
  ai_With :: "(string \<times> goval) list"
  ai_RoleWith :: "(string \<times> goval) list"
  ai_WorkflowDir :: string
  ai_OutputArtifact :: string
  ai_Feedback :: "(string \<times> goval) list"
  ai_Thread :: "(string \<times> string) list"
  ai_ContextEvidence :: "(string \<times> string) list"
  ai_ContainerlessFiles :: "(string \<times> string \<times> string) list"
  ai_SessionConfigDirRel :: string
  ai_SessionDir :: string
  ai_IsGateEvaluate :: bool
  ai_RunID :: string
  ai_CurrentEpoch :: nat
  ai_NextEpoch :: nat

definition no_agent :: agent_inputs where
  "no_agent = \<lparr>ai_Uses = [], ai_With = [], ai_RoleWith = [], ai_WorkflowDir = [], ai_OutputArtifact = [], ai_Feedback = [],
     ai_Thread = [], ai_ContextEvidence = [], ai_ContainerlessFiles = [], ai_SessionConfigDirRel = [], ai_SessionDir = [],
     ai_IsGateEvaluate = False, ai_RunID = [], ai_CurrentEpoch = 0, ai_NextEpoch = 0\<rparr>"

record node_intent =
  ni_Path :: string
  ni_Node :: node
  ni_Command :: string
  ni_Env :: "string pmap"
  ni_OutputFiles :: "(string \<times> output_contract option) list"
  ni_OutputSchema :: "goval option"
  ni_NonRetryableExitCodes :: "int list"
  ni_Snapshot :: string
  ni_InputFiles :: "(string \<times> string) list"
  ni_Timeout :: duration
  ni_IdleTimeout :: duration
  ni_IdempotencyKey :: string
  ni_RecoveryContinue :: bool
  ni_Attempt :: int
  ni_Agent :: agent_inputs
  ni_Sink :: bool

text \<open>
  The conversation of a tool loop (src/agent/toolloop.go), the tools of a workflow (src/ir/tool.go),
  and what the engine asks of an adapter's capabilities.
\<close>

record tool_call =
  tc_Index :: int
  tc_ID :: string
  tc_Name :: string
  tc_Arguments :: string

record react_turn =
  rt_Role :: string
  rt_Content :: string
  rt_ToolCalls :: "tool_call list"
  rt_ToolCallID :: string

record tool_def =
  td_Name :: string
  td_Description :: string
  td_InputSchema :: "goval option"

record tool_invocation =
  ti_NodePath :: string
  ti_Uses :: string
  ti_With :: "(string \<times> goval) list"
  ti_Messages :: "react_turn list"
  ti_Tools :: "tool_def list"
  ti_OutputSchema :: "goval option"

record model_result =
  mo_Text :: string
  mo_Output :: "goval option"
  mo_ToolCalls :: "tool_call list"
  mo_FinishReason :: string

datatype model_error = Unparseable | ModelFailed

record ir_tool =
  tl_Description :: string
  tl_InputSchema :: "goval option"
  tl_Run :: string
  tl_Container :: string
  tl_Timeout :: "int option"
  tl_OutputFiles :: "output_file list"
  tl_InputFiles :: "(string \<times> string) list"
  tl_Retry :: "ir_retry option"

datatype liveness = LivenessNone | LivenessCoarse | LivenessFine

record adapter_caps =
  ac_Containerless :: bool
  ac_Threaded :: bool
  ac_ToolLoop :: bool
  ac_SurfacesLiveness :: liveness
  ac_PersistentSession :: bool
  ac_IsolatedConfigDir :: bool

datatype external = Dispatched node_intent | Slept duration | ModelCalled tool_invocation
  | ContainerCreated string string | ContainerDestroyed string

subsection \<open>World and environment\<close>

type_synonym ctx = "nat list"

text \<open>
  The variables one execution of a map shares with its item goroutines (src/engine/map.go,
  src/engine/prune.go): the status and the cause of each item, the first internal error, and the
  frontier of a map with \<open>prune\<close>.
\<close>

record map_run =
  mr_statuses :: "string list"
  mr_causes :: "string list"
  mr_err :: "gerr option"
  mr_cancels :: "(int \<times> nat) list"
  mr_pruned :: "int list"
  mr_completed :: "int list"
  mr_stopAll :: bool
  mr_scores :: "(int \<times> rat) list"

datatype poll_state = PollOff | Polling | PollDecided

record world =
  w_log :: "jevent list"
  w_synced :: nat
  w_blobs :: fs_blobs
  w_rs :: run_state
  w_tick :: nat
  w_ctxs :: nat
  w_cancelled :: "nat list"
  w_runctx :: nat
  w_poll :: poll_state
  w_trace :: "external list"
  w_maps :: "map_run list"

type_synonym P = "(world, result) prog"

datatype created = Created string | CreateCtx gerr | ImageUnavailable | CreateRejected

datatype received = Delivered int string | ReceiveFailed gerr

record engine_env =
  e_graph :: "node list"
  e_inputFiles :: "string pmap option"
  e_runEnv :: "string pmap"
  e_snapshot :: "string \<Rightarrow> string"
  e_jcs :: "string \<Rightarrow> string option"
  e_compiles :: "goval \<Rightarrow> bool"
  e_unmarshal :: "string \<Rightarrow> goval option"
  e_unmarshalTurn :: "string \<Rightarrow> goval option"
  e_validate :: "goval \<Rightarrow> string \<Rightarrow> goval option"
  e_digest :: "node \<Rightarrow> string option"
  e_local :: bool
  e_create :: "nat \<Rightarrow> bool"
  e_dispatch :: "nat \<Rightarrow> node_intent \<Rightarrow> dispatch_result \<times> gerr option"
  e_append :: "nat \<Rightarrow> bool"
  e_sync :: "nat \<Rightarrow> bool"
  e_put :: "nat \<Rightarrow> put_fault"
  e_sleep :: "nat \<Rightarrow> bool"
  e_broker :: bool
  e_receive :: "nat \<Rightarrow> string \<Rightarrow> (string \<Rightarrow> bool) option \<Rightarrow> received"
  e_preflight :: "gerr option"
  e_fuel :: nat
  e_resolver :: bool
  e_adapter :: "string \<Rightarrow> adapter_caps option"
  e_runToolLoop :: "nat \<Rightarrow> tool_invocation \<Rightarrow> model_error + model_result"
  e_tools :: "ir_tool pmap"
  e_stagingRoot :: string
  e_validateJSON :: "goval \<Rightarrow> string \<Rightarrow> bool"
  e_resume :: bool
  e_acquire :: "nat \<Rightarrow> bool"
  e_createItem :: "nat \<Rightarrow> string \<Rightarrow> int \<Rightarrow> string \<Rightarrow> created"
  e_hasHandle :: "string \<Rightarrow> bool"
  e_skills :: "string pmap"
  e_runes :: rune_class
  e_ln64 :: "rat \<Rightarrow> rat"
  e_roleWith :: "string \<Rightarrow> (string \<times> goval) list"
  e_workflowDir :: string
  e_contentType :: "string \<Rightarrow> string"
  e_live :: "nat \<Rightarrow> sink_input list"
  e_redact :: "string \<Rightarrow> string"
  e_liveFinalizer :: "(nat \<Rightarrow> live_record \<Rightarrow> string option) option"
  e_other :: "node \<Rightarrow> string \<Rightarrow> ctx \<Rightarrow> P"

definition ctx_err :: "ctx \<Rightarrow> world \<Rightarrow> bool" where
  "ctx_err c w = list_ex (\<lambda>i. i \<in> set (w_cancelled w)) c"

definition scope_of :: "engine_env \<Rightarrow> world \<Rightarrow> string \<Rightarrow> scope_state" where
  "scope_of env w path =
     (if e_inputFiles env \<noteq> None
      then NewScopeWithInputAndFiles (w_rs w) (e_graph env) path None (e_inputFiles env)
      else NewScope (w_rs w) (e_graph env) path)"

definition scopeWithVerdict :: "engine_env \<Rightarrow> world \<Rightarrow> string \<Rightarrow> goval option \<Rightarrow> scope_state" where
  "scopeWithVerdict env w path v = (scope_of env w path)\<lparr>sc_verdict := v\<rparr>"

subsection \<open>Atomic calls\<close>

definition ticked :: "world \<Rightarrow> world" where
  "ticked w = w\<lparr>w_tick := Suc (w_tick w)\<rparr>"

definition log_append :: "engine_env \<Rightarrow> string \<Rightarrow> event_data \<Rightarrow> (bool \<Rightarrow> P) \<Rightarrow> P" where
  "log_append env path d k = Act (\<lambda>w.
     if e_append env (w_tick w)
     then (k True, (ticked w)\<lparr>w_log := w_log w @ [\<lparr>jPath = path, jData = d\<rparr>]\<rparr>)
     else (k False, ticked w))"

definition log_sync :: "engine_env \<Rightarrow> (bool \<Rightarrow> P) \<Rightarrow> P" where
  "log_sync env k = Act (\<lambda>w.
     if e_sync env (w_tick w) then (k True, (ticked w)\<lparr>w_synced := length (w_log w)\<rparr>)
     else (k False, ticked w))"

definition blob_put :: "engine_env \<Rightarrow> string \<Rightarrow> (string option \<Rightarrow> P) \<Rightarrow> P" where
  "blob_put env content k = Act (\<lambda>w.
     case fs_Put (e_put env (w_tick w)) content (w_blobs w) of
       (Inr ref, b) \<Rightarrow> (k (Some ref), (ticked w)\<lparr>w_blobs := b\<rparr>)
     | (Inl _, b) \<Rightarrow> (k None, (ticked w)\<lparr>w_blobs := b\<rparr>))"

definition dispatch :: "engine_env \<Rightarrow> node_intent \<Rightarrow> (dispatch_result \<times> gerr option \<Rightarrow> P) \<Rightarrow> P" where
  "dispatch env intent k = Act (\<lambda>w.
     (k (e_dispatch env (w_tick w) intent), (ticked w)\<lparr>w_trace := w_trace w @ [Dispatched intent]\<rparr>))"

text \<open>\<open>clock.System.Sleep\<close>: the timer may lose against the context's cancellation.\<close>

definition clk_sleep :: "engine_env \<Rightarrow> ctx \<Rightarrow> duration \<Rightarrow> (gerr option \<Rightarrow> P) \<Rightarrow> P" where
  "clk_sleep env c d k = Act (\<lambda>w.
     if ctx_err c w then (k (Some ErrCtx), w)
     else if d \<le> 0 then (k None, w)
     else if e_sleep env (w_tick w) then (k None, (ticked w)\<lparr>w_trace := w_trace w @ [Slept d]\<rparr>)
     else (k (Some ErrCtx), ticked w))"

definition upd_rs :: "(run_state \<Rightarrow> run_state) \<Rightarrow> P \<Rightarrow> P" where
  "upd_rs f p = upd (\<lambda>w. w\<lparr>w_rs := f (w_rs w)\<rparr>) p"

definition infra :: "string \<Rightarrow> P" where
  "infra s = Ret (NoOutcome, Some (ErrInfra s))"

definition failStep :: "engine_env \<Rightarrow> string \<Rightarrow> outcome \<Rightarrow> gerr option \<Rightarrow> P" where
  "failStep env path oc cause =
     log_append env path (NodeFailed (outcome_string oc) (case cause of None \<Rightarrow> [] | Some e \<Rightarrow> err_text e)) (\<lambda>ok.
       if \<not> ok then infra ''append node.failed''
       else log_sync env (\<lambda>ok. if \<not> ok then infra ''sync node.failed'' else Ret (oc, cause)))"

definition appendNodeStarted :: "engine_env \<Rightarrow> string \<Rightarrow> string \<Rightarrow> P \<Rightarrow> P" where
  "appendNodeStarted env path kind p = log_append env path (NodeStarted kind) (\<lambda>_. p)"

definition appendNodeSkipped :: "engine_env \<Rightarrow> string \<Rightarrow> string \<Rightarrow> (bool \<Rightarrow> P) \<Rightarrow> P" where
  "appendNodeSkipped env path reason k = log_append env path (NodeSkipped path reason) k"

definition appendSyncedEvent :: "engine_env \<Rightarrow> event_data \<Rightarrow> (bool \<Rightarrow> P) \<Rightarrow> P" where
  "appendSyncedEvent env d k = log_append env [] d (\<lambda>ok. if \<not> ok then k False else log_sync env k)"

subsection \<open>Commit\<close>

definition appendNodeCompleted :: "engine_env \<Rightarrow> string \<Rightarrow> node_completed_data \<Rightarrow> (bool \<Rightarrow> P) \<Rightarrow> P" where
  "appendNodeCompleted env path d k =
     log_append env path (NodeCompleted d) (\<lambda>ok. if \<not> ok then k False else log_sync env k)"

text \<open>An optional put: no reference when there is nothing to store.\<close>

definition put_if :: "engine_env \<Rightarrow> bool \<Rightarrow> string \<Rightarrow> P \<Rightarrow> (string \<Rightarrow> P) \<Rightarrow> P" where
  "put_if env b content failed k =
     (if b then blob_put env content (\<lambda>r. case r of None \<Rightarrow> failed | Some ref \<Rightarrow> k ref) else k [])"

fun put_files :: "engine_env \<Rightarrow> (string \<times> string) list \<Rightarrow> string pmap \<Rightarrow> P \<Rightarrow> (string pmap \<Rightarrow> P) \<Rightarrow> P" where
  "put_files env [] acc failed k = k acc"
| "put_files env ((path, content) # fs) acc failed k =
     blob_put env content (\<lambda>r. case r of None \<Rightarrow> failed | Some ref \<Rightarrow> put_files env fs (pm_put path ref acc) failed k)"

text \<open>The node key and subtree digest of a deterministic node, empty for others; \<open>None\<close> is a digest error.\<close>

definition node_keys :: "engine_env \<Rightarrow> dispatch_result \<Rightarrow> (string \<times> string) option" where
  "node_keys env dr =
     (case dr_Node dr of
        None \<Rightarrow> Some ([], [])
      | Some n \<Rightarrow>
          if isDeterministicNode n
          then map_option (\<lambda>sd. (computeNodeKey sd (dr_InputRefs dr) [], sd)) (e_digest env n)
          else Some ([], []))"

text \<open>The last part of \<open>Commit\<close>: the keys, the result, and its \<open>node.completed\<close>.\<close>

definition commit_result :: "engine_env \<Rightarrow> string \<Rightarrow> dispatch_result \<Rightarrow> bool \<Rightarrow> string \<Rightarrow> string \<Rightarrow> string pmap \<Rightarrow>
    string \<Rightarrow> string \<Rightarrow> (node_result option \<Rightarrow> P) \<Rightarrow> P" where
  "commit_result env path dr participates outputsRef stdoutRef files transcriptRef sessionRef k =
     (case node_keys env dr of
        None \<Rightarrow> k None
      | Some (nodeKey, subtree) \<Rightarrow>
          let nr = \<lparr>nr_Outcome = OutcomeOK, nr_ExitCode = dr_ExitCode dr,
                    nr_Outputs = dr_Outputs dr, nr_OutputsRef = outputsRef,
                    nr_Stdout = (if dr_Stdout dr = [] then None else Some (dr_Stdout dr)), nr_StdoutRef = stdoutRef,
                    nr_Files = files, nr_Transcript = (if participates then dr_Transcript dr else None),
                    nr_NodeKey = nodeKey, nr_SubtreeDigest = subtree\<rparr>;
              d = \<lparr>nc_Outcome = outcome_string (dr_Outcome dr), nc_ExitCode = dr_ExitCode dr,
                   nc_OutputsRef = outputsRef, nc_StdoutRef = stdoutRef, nc_Files = files,
                   nc_SnapshotRef = dr_SnapshotRef dr, nc_Container = dr_Container dr,
                   nc_TranscriptRef = transcriptRef, nc_NodeKey = nodeKey, nc_SubtreeDigest = subtree,
                   nc_SessionRef = sessionRef\<rparr>
          in appendNodeCompleted env path d (\<lambda>ok. if ok then k (Some nr) else k None))"

definition Commit :: "engine_env \<Rightarrow> string \<Rightarrow> dispatch_result \<Rightarrow> bool \<Rightarrow> (node_result option \<Rightarrow> P) \<Rightarrow> P" where
  "Commit env path dr participates k =
     (if dr_Outcome dr \<noteq> OutcomeOK then k None
      else
        put_if env (\<not> map_nil (dr_Outputs dr)) (json_encode (map_value (dr_Outputs dr))) (k None) (\<lambda>outputsRef.
        put_if env (dr_Stdout dr \<noteq> []) (dr_Stdout dr) (k None) (\<lambda>stdoutRef.
        put_files env (dr_Files dr) [] (k None) (\<lambda>files.
        put_if env participates (json_encode (map_value (dr_Transcript dr))) (k None) (\<lambda>transcriptRef.
        put_if env (dr_SessionRef dr = [] \<and> dr_SessionTranscript dr \<noteq> []) (dr_SessionTranscript dr) (k None) (\<lambda>sref.
        commit_result env path dr participates outputsRef stdoutRef files transcriptRef
          (if dr_SessionRef dr \<noteq> [] then dr_SessionRef dr else sref) k))))))"

subsection \<open>Agent events\<close>

definition AgentEventInlineThreshold :: nat where "AgentEventInlineThreshold = 4096"

definition agentEventDisplayFieldLimit :: nat where "agentEventDisplayFieldLimit = 1024"

definition liveDisplayField :: "engine_env \<Rightarrow> string \<Rightarrow> string" where
  "liveDisplayField env s = boundDisplayField (e_redact env (SanitizeDisplayBytes s)) agentEventDisplayFieldLimit"

definition event_payload :: "engine_env \<Rightarrow> agent_event \<Rightarrow> string" where
  "event_payload env ev = (if ev_Live ev then e_redact env (SanitizeDisplayBytes (ev_Payload ev)) else ev_Payload ev)"

definition event_entry :: "engine_env \<Rightarrow> agent_event \<Rightarrow> string \<Rightarrow> string \<Rightarrow> agent_event_data" where
  "event_entry env ev payload ref =
     \<lparr>ae_Kind = ev_Kind ev, ae_Stream = ev_Stream ev, ae_Size = int (length payload), ae_Live = ev_Live ev,
      ae_DisplayClass = class_String (di_Class (ev_Display ev)), ae_DisplayTool = liveDisplayField env (di_Tool (ev_Display ev)),
      ae_DisplaySummary = liveDisplayField env (di_Text (ev_Display ev)), ae_DisplayLines = di_Lines (ev_Display ev),
      ae_DisplayBytes = di_Bytes (ev_Display ev), ae_DisplayIsError = di_IsError (ev_Display ev),
      ae_PayloadInline = (if AgentEventInlineThreshold \<le> length payload then [] else payload), ae_PayloadRef = ref\<rparr>"

fun appendAgentEvents :: "engine_env \<Rightarrow> string \<Rightarrow> agent_event list \<Rightarrow> (bool \<Rightarrow> P) \<Rightarrow> P" where
  "appendAgentEvents env path [] k = k True"
| "appendAgentEvents env path (ev # evs) k =
     (let payload = event_payload env ev
      in put_if env (AgentEventInlineThreshold \<le> length payload) payload (k False) (\<lambda>ref.
         log_append env path (AgentEventEntry (event_entry env ev payload ref)) (\<lambda>ok.
           if \<not> ok then k False else appendAgentEvents env path evs k)))"

text \<open>
  The live events since the last flush, written by the sink in the order of its output. In the program
  the sink writes them while the dispatch runs; here they are written when the dispatch is over, at the
  flush before a retry or at the close. The step's context ends the sink only if it is cancelled.
\<close>

definition journal_live :: "engine_env \<Rightarrow> ctx \<Rightarrow> string \<Rightarrow> (bool \<Rightarrow> P) \<Rightarrow> P" where
  "journal_live env c path k = Act (\<lambda>w.
     let s = sink_run new_sink (filter (\<lambda>i. i = CtxDone \<longrightarrow> ctx_err c w) (e_live env (w_tick w)))
     in (appendAgentEvents env path (sk_appended s) (\<lambda>ok. k (ok \<and> sk_err s = None)), ticked w))"

definition flush_sink :: "engine_env \<Rightarrow> ctx \<Rightarrow> node_intent \<Rightarrow> (bool \<Rightarrow> P) \<Rightarrow> P" where
  "flush_sink env c intent k = (if ni_Sink intent then journal_live env c (ni_Path intent) k else k True)"

subsection \<open>Retrying\<close>

definition validateDispatchResult :: "dispatch_result \<Rightarrow> gerr option \<Rightarrow> bool" where
  "validateDispatchResult dr dispatchErr =
     (if dispatchErr \<noteq> None then dr\<lparr>dr_AgentEvents := []\<rparr> = zero_dispatch
      else (dr_Outcome dr = OutcomeOK \<and> dr_Err dr = None)
        \<or> ((dr_Outcome dr = OutcomeRetryableFailure \<or> dr_Outcome dr = OutcomePermanentFailure) \<and> dr_Err dr \<noteq> None))"

text \<open>
  What follows one dispatch: stop with a result, or journal \<open>retry.attempt\<close>, sleep and go \<open>again\<close>.
\<close>

definition after_attempt ::
  "engine_env \<Rightarrow> ctx \<Rightarrow> node_intent \<Rightarrow> policy \<Rightarrow> int \<Rightarrow> P \<Rightarrow> (dispatch_result \<times> gerr option \<Rightarrow> P) \<Rightarrow>
   dispatch_result \<times> gerr option \<Rightarrow> P" where
  "after_attempt env c intent pol attempt again k = (\<lambda>(dr, lastErr).
     if \<not> validateDispatchResult dr lastErr then k (zero_dispatch, Some (ErrInfra ''inconsistent dispatch result''))
     else
       let replay = (lastErr = Some ErrReplayRequired \<and> ni_RecoveryContinue intent);
           dr = (if replay then dr\<lparr>dr_Outcome := OutcomeRetryableFailure, dr_Err := lastErr\<rparr> else dr);
           lastErr = (if replay then None else lastErr)
       in if lastErr \<noteq> None then k (dr, lastErr)
          else (case dr_Outcome dr of
                  OutcomeOK \<Rightarrow> k (dr, None)
                | OutcomePermanentFailure \<Rightarrow> k (dr, dr_Err dr)
                | OutcomeRetryableFailure \<Rightarrow>
                    if attempt = Attempts pol then k (dr, dr_Err dr)
                    else flush_sink env c intent (\<lambda>ok.
                         if \<not> ok then k (zero_dispatch, Some ErrSink)
                         else log_append env (ni_Path intent)
                           (RetryAttempt \<lparr>rd_N = attempt, rd_Outcome = outcome_string (dr_Outcome dr),
                              rd_Error = (case dr_Err dr of None \<Rightarrow> [] | Some e \<Rightarrow> err_text e)\<rparr>) (\<lambda>ok.
                           if \<not> ok then k (dr, Some (ErrInfra ''append retry.attempt''))
                           else clk_sleep env c
                                  (EffectiveBackoff pol (attempt + 1) (dr_RetryAfter dr) (ni_Path intent)) (\<lambda>e.
                                  if e \<noteq> None then k (dr, e) else again)))
                | _ \<Rightarrow> k (dr, Some (ErrInfra ''unknown outcome''))))"

text \<open>The first argument counts the attempts left; the attempt number follows.\<close>

fun retry_attempts :: "nat \<Rightarrow> int \<Rightarrow> engine_env \<Rightarrow> ctx \<Rightarrow> node_intent \<Rightarrow> policy \<Rightarrow> (dispatch_result \<times> gerr option \<Rightarrow> P) \<Rightarrow> P" where
  "retry_attempts 0 attempt env c intent pol k = k (zero_dispatch, None)"
| "retry_attempts (Suc n) attempt env c intent pol k =
     dispatch env (intent\<lparr>ni_Attempt := attempt\<rparr>)
       (after_attempt env c intent pol attempt (retry_attempts n (attempt + 1) env c intent pol k) k)"

definition RunWithRetry :: "engine_env \<Rightarrow> ctx \<Rightarrow> node_intent \<Rightarrow> policy \<Rightarrow> (dispatch_result \<times> gerr option \<Rightarrow> P) \<Rightarrow> P" where
  "RunWithRetry env c intent pol k =
     (if Attempts pol < 1 then k (zero_dispatch, Some (ErrInfra ''policy.Attempts''))
      else retry_attempts (nat (Attempts pol)) 1 env c
             (intent\<lparr>ni_RecoveryContinue := (Recovery pol = ''continue'')\<rparr>) pol k)"

subsection \<open>Code steps\<close>

definition SplitContainerRef :: "string \<Rightarrow> string \<times> string" where
  "SplitContainerRef ref = (case indexOf ref '':'' of None \<Rightarrow> (ref, []) | Some i \<Rightarrow> (take i ref, drop (i + 1) ref))"

definition getter_of :: "world \<Rightarrow> getter" where
  "getter_of w = (\<lambda>ref. fs_Get ref (w_blobs w))"

text \<open>A stage error: the run aborts when a blob could not be fetched, the step fails otherwise.\<close>

definition stage_failed :: "engine_env \<Rightarrow> string \<Rightarrow> string \<Rightarrow> stage_error \<Rightarrow> P" where
  "stage_failed env path msg e =
     (case e of FetchError \<Rightarrow> infra msg | StageError \<Rightarrow> failStep env path OutcomePermanentFailure (Some ErrStage))"

definition code_intent :: "engine_env \<Rightarrow> code_step \<Rightarrow> string \<Rightarrow> policy \<Rightarrow> string \<Rightarrow> string \<Rightarrow>
    (string \<times> string) list \<Rightarrow> (string \<times> output_contract option) list \<Rightarrow> node_intent" where
  "code_intent env cs path pol command idemKey inputFiles outputFiles =
     \<lparr>ni_Path = path, ni_Node = CodeStep cs, ni_Command = command, ni_Env = e_runEnv env,
      ni_OutputFiles = outputFiles, ni_OutputSchema = cs_OutputSchema cs,
      ni_NonRetryableExitCodes = NonRetryableExitCodes pol,
      ni_Snapshot = e_snapshot env (fst (SplitContainerRef (cs_Container cs))),
      ni_InputFiles = inputFiles,
      ni_Timeout = (case cs_Timeout cs of None \<Rightarrow> 0 | Some t \<Rightarrow> (case Wall t of None \<Rightarrow> 0 | Some d \<Rightarrow> d)),
      ni_IdleTimeout = (case cs_Timeout cs of None \<Rightarrow> 0 | Some t \<Rightarrow> (case Idle t of None \<Rightarrow> 0 | Some d \<Rightarrow> d)),
      ni_IdempotencyKey = idemKey, ni_RecoveryContinue = False, ni_Attempt = 0, ni_Agent = no_agent, ni_Sink = False\<rparr>"

text \<open>From the dispatch to the recorded result.\<close>

definition run_code :: "engine_env \<Rightarrow> ctx \<Rightarrow> code_step \<Rightarrow> string \<Rightarrow> policy \<Rightarrow> node_intent \<Rightarrow> string list \<Rightarrow> P" where
  "run_code env c cs path pol intent refs =
     appendNodeStarted env path ''code'' (
     RunWithRetry env c intent pol (\<lambda>(dr, runErr).
       case runErr of
         Some e \<Rightarrow>
           if dr_Outcome dr = NoOutcome then infra ''dispatch''
           else failStep env path (dr_Outcome dr) (Some e)
       | None \<Rightarrow>
           if dr_Outcome dr \<noteq> OutcomeOK
           then failStep env path (dr_Outcome dr) (Some (ErrCause ''step did not commit (no underlying error reported)''))
           else Commit env path (dr\<lparr>dr_Node := Some (CodeStep cs), dr_InputRefs := refs\<rparr>) False (\<lambda>r.
                  case r of
                    None \<Rightarrow> infra ''commit''
                  | Some nr \<Rightarrow> upd_rs (RecordCompleted path nr) (Ret (OutcomeOK, None)))))"

definition runCodeStep :: "engine_env \<Rightarrow> ctx \<Rightarrow> code_step \<Rightarrow> string \<Rightarrow> P" where
  "runCodeStep env c cs path =
     read (\<lambda>w. if LookupCompleted (w_rs w) path \<noteq> None then Ret (OutcomeOK, None) else
     read (\<lambda>w. case Substitute (cs_Run cs) (Resolve (scope_of env w path)) of
       Inl e \<Rightarrow> failStep env path OutcomePermanentFailure (Some (ErrEval e))
     | Inr command \<Rightarrow>
     read (\<lambda>w. case (case cs_IdempotencyKey cs of
                       None \<Rightarrow> Inr []
                     | Some t \<Rightarrow> Substitute t (Resolve (scope_of env w path))) of
       Inl e \<Rightarrow> failStep env path OutcomePermanentFailure (Some (ErrEval e))
     | Inr idemKey \<Rightarrow>
     (case Merge CodeDefault (cs_Retry cs) of
       Inl _ \<Rightarrow> infra ''build retry policy''
     | Inr pol \<Rightarrow>
     read (\<lambda>w. case resolveInputFileEntries (e_jcs env) (cs_InputFiles cs) (scope_of env w path) RootModuleID
                       (getter_of w) (Assets (w_rs w)) of
       Inl e \<Rightarrow> stage_failed env path ''stage input_files'' e
     | Inr entries \<Rightarrow>
     (case inputFilesFromResolvedEntries entries of
       Inl _ \<Rightarrow> failStep env path OutcomePermanentFailure (Some ErrStage)
     | Inr inputFiles \<Rightarrow>
     read (\<lambda>w. case resolveOutputFiles (e_compiles env) (e_unmarshal env) (cs_OutputFiles cs)
                       (Resolve (scope_of env w path)) RootModuleID (Assets (w_rs w)) (getter_of w) of
       Inl e \<Rightarrow> stage_failed env path ''resolve output_files contracts'' e
     | Inr outputFiles \<Rightarrow>
     read (\<lambda>w. if cs_Container cs = [] \<and> e_local env \<and> \<not> e_create env (w_tick w)
       then infra ''create per-step host workspace''
       else run_code env c cs path pol
              (code_intent env cs path pol command idemKey inputFiles outputFiles)
              (inputFileRefsFromResolvedEntries (sort_by input_le entries))))))))))"

subsection \<open>Signal steps\<close>

text \<open>\<open>signalScope\<close>: references rooted at \<open>signal\<close> read the payload, the others the engine's scope.\<close>

definition isSignalRootRef :: "segment list \<Rightarrow> bool" where
  "isSignalRootRef ref = (ref \<noteq> [] \<and> \<not> IsIndex (ref ! 0) \<and> Ident (ref ! 0) = ''signal'')"

definition payload_Resolve :: "goval \<Rightarrow> scope" where
  "payload_Resolve payload ref =
     (if ref = [] then unresolved
      else rbind (mustIdent (ref ! 0)) (\<lambda>_. descendPath payload ref))"

definition signal_Resolve :: "goval \<Rightarrow> scope \<Rightarrow> scope" where
  "signal_Resolve payload outer ref =
     (if isSignalRootRef ref then payload_Resolve payload (tl ref) else outer ref)"

text \<open>\<open>buildWherePredicateWithScope\<close>: a payload that is not an object, or does not evaluate, does not match.\<close>

definition buildWherePredicate :: "engine_env \<Rightarrow> string \<Rightarrow> scope \<Rightarrow> gerr + (string \<Rightarrow> bool)" where
  "buildWherePredicate env cond outer =
     (case ParseExpr (UnwrapEnvelope cond) of
        Inl e \<Rightarrow> Inl (ErrEval (ParseFailure e))
      | Inr ex \<Rightarrow>
          (case find (\<lambda>ref. \<not> isSignalRootRef ref \<and> \<not> is_ok (outer ref)) (References ex) of
             Some ref \<Rightarrow> Inl (ErrCause ''resolve outer ref'')
           | None \<Rightarrow>
               Inr (\<lambda>payload. case e_unmarshal env payload of
                      Some (VObject kvs) \<Rightarrow> EvalBool ex (signal_Resolve (VObject kvs) outer) = Inr True
                    | _ \<Rightarrow> False)))"

definition receive :: "engine_env \<Rightarrow> string \<Rightarrow> (string \<Rightarrow> bool) option \<Rightarrow> (received \<Rightarrow> P) \<Rightarrow> P" where
  "receive env name match k = Act (\<lambda>w. (k (e_receive env (w_tick w) name match), ticked w))"

text \<open>The commit of a signal: \<open>node.completed\<close> with the payload as outputs, then the record.\<close>

definition commit_signal :: "engine_env \<Rightarrow> string \<Rightarrow> string \<Rightarrow> goval option \<Rightarrow> P" where
  "commit_signal env path payloadRef typedOutputs =
     appendNodeCompleted env path
       \<lparr>nc_Outcome = ''ok'', nc_ExitCode = None, nc_OutputsRef = payloadRef, nc_StdoutRef = [], nc_Files = [],
        nc_SnapshotRef = [], nc_Container = [], nc_TranscriptRef = [], nc_NodeKey = [], nc_SubtreeDigest = [],
        nc_SessionRef = []\<rparr> (\<lambda>ok.
       if \<not> ok then infra ''node.completed''
       else upd_rs (RecordCompleted path
              \<lparr>nr_Outcome = OutcomeOK, nr_ExitCode = None, nr_Outputs = typedOutputs, nr_OutputsRef = payloadRef,
               nr_Stdout = None, nr_StdoutRef = [], nr_Files = [], nr_Transcript = None, nr_NodeKey = [],
               nr_SubtreeDigest = []\<rparr>)
            (Ret (OutcomeOK, None)))"

text \<open>A delivery: validate, store the payload, journal \<open>signal.received\<close>, record, commit.\<close>

definition record_delivery :: "engine_env \<Rightarrow> signal_step \<Rightarrow> string \<Rightarrow> int \<Rightarrow> string \<Rightarrow> goval option \<Rightarrow> P" where
  "record_delivery env ss path seqno payloadRef outs =
     log_append env path (SignalReceived \<lparr>sg_Name = ss_Await ss, sg_Seq = seqno, sg_PayloadRef = payloadRef\<rparr>) (\<lambda>ok.
       if \<not> ok then infra ''append signal.received''
       else log_sync env (\<lambda>ok.
         if \<not> ok then infra ''sync signal.received''
         else upd_rs (AppendSignal (ss_Await ss) \<lparr>se_Seq = seqno, se_PayloadRef = payloadRef\<rparr>)
             (upd_rs (RecordSignalReceivedAt path \<lparr>se_Seq = seqno, se_PayloadRef = payloadRef\<rparr>)
                (commit_signal env path payloadRef outs))))"

definition take_delivery :: "engine_env \<Rightarrow> signal_step \<Rightarrow> string \<Rightarrow> int \<Rightarrow> string \<Rightarrow> P" where
  "take_delivery env ss path seqno payload =
     (case (case ss_OutputSchema ss of
              None \<Rightarrow> Some None
            | Some schema \<Rightarrow> map_option Some (e_validate env schema payload)) of
        None \<Rightarrow> failStep env path OutcomeRetryableFailure (Some (ErrCause ''output_schema validation''))
      | Some outs \<Rightarrow>
          put_if env (\<not> map_nil outs \<or> payload \<noteq> [])
            (if map_nil outs then payload else json_encode (map_value outs)) (infra ''put payload'') (\<lambda>payloadRef.
          record_delivery env ss path seqno payloadRef outs))"

definition receive_failed :: "engine_env \<Rightarrow> signal_step \<Rightarrow> string \<Rightarrow> gerr \<Rightarrow> P" where
  "receive_failed env ss path e =
     (if e = ErrDeadline then failStep env path OutcomeRetryableFailure (Some (ErrCause ''await timeout''))
      else read (\<lambda>w.
        if Cancelled (w_rs w) \<or> Paused (w_rs w) \<noteq> None then Ret (NoOutcome, Some e)
        else if e = ErrCtx then failStep env path OutcomeRetryableFailure (Some e)
        else infra ''broker''))"

definition await_signal :: "engine_env \<Rightarrow> signal_step \<Rightarrow> string \<Rightarrow> (string \<Rightarrow> bool) option \<Rightarrow> P" where
  "await_signal env ss path match =
     receive env (ss_Await ss) match (\<lambda>r.
       case r of
         ReceiveFailed e \<Rightarrow> receive_failed env ss path e
       | Delivered seqno payload \<Rightarrow> take_delivery env ss path seqno payload)"

text \<open>A signal received before a crash but not committed: commit it without waiting again.\<close>

definition half_commit :: "engine_env \<Rightarrow> signal_step \<Rightarrow> string \<Rightarrow> signal_entry \<Rightarrow> P" where
  "half_commit env ss path entry =
     (case ss_OutputSchema ss of
        None \<Rightarrow> commit_signal env path (se_PayloadRef entry) None
      | Some schema \<Rightarrow>
          if se_PayloadRef entry = [] then commit_signal env path [] None
          else read (\<lambda>w. case fs_Get (se_PayloadRef entry) (w_blobs w) of
                 Inl _ \<Rightarrow> infra ''read half-commit payload''
               | Inr raw \<Rightarrow>
                   (case e_validate env schema raw of
                      None \<Rightarrow> infra ''half-commit payload re-validation''
                    | Some v \<Rightarrow> commit_signal env path (se_PayloadRef entry) (Some v))))"

definition runSignalStep :: "engine_env \<Rightarrow> signal_step \<Rightarrow> string \<Rightarrow> P" where
  "runSignalStep env ss path =
     read (\<lambda>w. if LookupCompleted (w_rs w) path \<noteq> None then Ret (OutcomeOK, None)
     else if \<not> e_broker env then infra ''nil broker''
     else read (\<lambda>w. case LookupSignalReceivedAt (w_rs w) path of
       Some entry \<Rightarrow> half_commit env ss path entry
     | None \<Rightarrow>
         appendNodeStarted env path ''signal'' (
           if ss_Where ss \<noteq> [] then
             read (\<lambda>w. case buildWherePredicate env (ss_Where ss) (Resolve (scope_of env w path)) of
               Inl e \<Rightarrow> failStep env path OutcomePermanentFailure (Some e)
             | Inr match \<Rightarrow> await_signal env ss path (Some match))
           else await_signal env ss path None)))"

subsection \<open>Evaluation\<close>

lemma exec_calls:
  "exec (log_append env path d k) w =
     (if e_append env (w_tick w) then exec (k True) ((ticked w)\<lparr>w_log := w_log w @ [\<lparr>jPath = path, jData = d\<rparr>]\<rparr>)
      else exec (k False) (ticked w))"
  "exec (log_sync env k) w =
     (if e_sync env (w_tick w) then exec (k True) ((ticked w)\<lparr>w_synced := length (w_log w)\<rparr>)
      else exec (k False) (ticked w))"
  "exec (dispatch env intent kd) w =
     exec (kd (e_dispatch env (w_tick w) intent)) ((ticked w)\<lparr>w_trace := w_trace w @ [Dispatched intent]\<rparr>)"
  "exec (clk_sleep env c dur ks) w =
     (if ctx_err c w then exec (ks (Some ErrCtx)) w
      else if dur \<le> 0 then exec (ks None) w
      else if e_sleep env (w_tick w) then exec (ks None) ((ticked w)\<lparr>w_trace := w_trace w @ [Slept dur]\<rparr>)
      else exec (ks (Some ErrCtx)) (ticked w))"
  "exec (upd_rs f p) w = exec p (w\<lparr>w_rs := f (w_rs w)\<rparr>)"
  "exec (receive env name match kr) w = exec (kr (e_receive env (w_tick w) name match)) (ticked w)"
  by (simp_all add: log_append_def log_sync_def dispatch_def clk_sleep_def upd_rs_def receive_def exec_Act)

lemma exec_infra: "exec (infra s) w = ((NoOutcome, Some (ErrInfra s)), w)"
  by (simp add: infra_def)

lemma exec_failStep:
  "exec (failStep env path oc cause) w =
     (let w1 = (ticked w)\<lparr>w_log := w_log w @ [\<lparr>jPath = path,
            jData = NodeFailed (outcome_string oc) (case cause of None \<Rightarrow> [] | Some e \<Rightarrow> err_text e)\<rparr>]\<rparr>
      in if \<not> e_append env (w_tick w) then ((NoOutcome, Some (ErrInfra ''append node.failed'')), ticked w)
         else if \<not> e_sync env (Suc (w_tick w)) then ((NoOutcome, Some (ErrInfra ''sync node.failed'')), ticked w1)
         else ((oc, cause), (ticked w1)\<lparr>w_synced := length (w_log w1)\<rparr>))"
  by (simp add: failStep_def exec_calls exec_infra Let_def) (simp add: ticked_def)

end
