(* ===== verification/Engine_React.thy ===== *)
theory Engine_React
  imports Engine_Step
begin

text \<open>
  The react step (src/engine/react.go, src/engine/react_scope.go): a bounded loop of rounds, each a
  model call and the tools it asks for, where every model answer and every tool result is committed
  as a leaf of its own, so that a resumed step rebuilds the conversation from the journal. The
  model is the parameter \<open>e_runToolLoop\<close>; tools run through the dispatcher like code steps.
\<close>

subsection \<open>Committed model answers\<close>

definition defaultMaxTurns :: int where "defaultMaxTurns = 8"

definition toolResultCap :: nat where "toolResultCap = 16384"

definition asString :: "goval option \<Rightarrow> string" where
  "asString v = (case v of Some (VString s) \<Rightarrow> s | _ \<Rightarrow> [])"

text \<open>\<open>json.Number.Int64\<close> with its error dropped: a number out of range is the nearest bound.\<close>

definition number_Int64 :: "string \<Rightarrow> int" where
  "number_Int64 s =
     (case parse_int64 s of
        Some i \<Rightarrow> i
      | None \<Rightarrow>
          let ds = (if s \<noteq> [] \<and> (hd s = CHR ''-'' \<or> hd s = CHR ''+'') then tl s else s)
          in if ds = [] \<or> \<not> list_all isDigit ds then 0
             else if hd s = CHR ''-'' then - (2 ^ 63) else 2 ^ 63 - 1)"

definition jsonInt :: "goval option \<Rightarrow> int" where
  "jsonInt v = (case v of
     Some (VInt n) \<Rightarrow> n
   | Some (VInt64 n) \<Rightarrow> n
   | Some (VFloat x) \<Rightarrow> trunc_int x
   | Some (VNumber s) \<Rightarrow> number_Int64 s
   | _ \<Rightarrow> 0)"

text \<open>A field of a map of outputs.\<close>

definition out_field :: "goval option \<Rightarrow> string \<Rightarrow> goval option" where
  "out_field m k = (case map_value m of VObject kvs \<Rightarrow> map_of kvs k | _ \<Rightarrow> None)"

definition call_value :: "tool_call \<Rightarrow> goval" where
  "call_value tc = VObject [(''index'', VInt (tc_Index tc)), (''id'', VString (tc_ID tc)),
     (''name'', VString (tc_Name tc)), (''arguments'', VString (tc_Arguments tc))]"

definition modelLeafOutputs :: "model_result \<Rightarrow> goval" where
  "modelLeafOutputs mr = VObject ([(''text'', VString (mo_Text mr)), (''finish_reason'', VString (mo_FinishReason mr)),
     (''tool_calls'', VArray (map call_value (mo_ToolCalls mr)))]
     @ (if map_nil (mo_Output mr) then [] else [(''output'', map_value (mo_Output mr))]))"

definition call_of_value :: "goval \<Rightarrow> tool_call option" where
  "call_of_value v = (case v of
     VObject kvs \<Rightarrow> Some \<lparr>tc_Index = jsonInt (map_of kvs ''index''), tc_ID = asString (map_of kvs ''id''),
       tc_Name = asString (map_of kvs ''name''), tc_Arguments = asString (map_of kvs ''arguments'')\<rparr>
   | _ \<Rightarrow> None)"

fun calls_of_values :: "goval list \<Rightarrow> tool_call list option" where
  "calls_of_values [] = Some []"
| "calls_of_values (v # vs) =
     (case call_of_value v of
        None \<Rightarrow> None
      | Some tc \<Rightarrow> map_option ((#) tc) (calls_of_values vs))"

definition roundResultFromLeaf :: "node_result \<Rightarrow> model_result option" where
  "roundResultFromLeaf nr =
     (let outs = nr_Outputs nr;
          mr = \<lparr>mo_Text = asString (out_field outs ''text''),
                mo_Output = (case out_field outs ''output'' of Some (VObject kvs) \<Rightarrow> Some (VObject kvs) | _ \<Rightarrow> None),
                mo_ToolCalls = [], mo_FinishReason = asString (out_field outs ''finish_reason'')\<rparr>
      in case out_field outs ''tool_calls'' of
           Some (VArray vs) \<Rightarrow> map_option (\<lambda>tcs. mr\<lparr>mo_ToolCalls := tcs\<rparr>) (calls_of_values vs)
         | _ \<Rightarrow> Some mr)"

subsection \<open>The conversation\<close>

definition turn :: "string \<Rightarrow> string \<Rightarrow> react_turn" where
  "turn role content = \<lparr>rt_Role = role, rt_Content = content, rt_ToolCalls = [], rt_ToolCallID = []\<rparr>"

definition buildAssistantTurn :: "model_result \<Rightarrow> react_turn" where
  "buildAssistantTurn mr = (turn ''assistant'' (mo_Text mr))\<lparr>rt_ToolCalls := mo_ToolCalls mr\<rparr>"

definition tool_turn :: "string \<Rightarrow> string \<Rightarrow> react_turn" where
  "tool_turn toolCallID content = (turn ''tool'' content)\<lparr>rt_ToolCallID := toolCallID\<rparr>"

definition toolMessageFromLeaf :: "string \<Rightarrow> node_result \<Rightarrow> react_turn" where
  "toolMessageFromLeaf toolCallID nr = tool_turn toolCallID (asString (out_field (nr_Outputs nr) ''content''))"

fun replay_tools :: "run_state \<Rightarrow> string \<Rightarrow> tool_call list \<Rightarrow> react_turn list option" where
  "replay_tools rs roundPath [] = Some []"
| "replay_tools rs roundPath (tc # tcs) =
     (case LookupCompleted rs (ToolPath roundPath (tc_Index tc)) of
        None \<Rightarrow> None
      | Some nr \<Rightarrow> map_option ((#) (toolMessageFromLeaf (tc_ID tc) nr)) (replay_tools rs roundPath tcs))"

text \<open>The rounds \<open>k, k + 1, \<dots>\<close>, \<open>n\<close> of them, from their leaves.\<close>

fun replay_rounds :: "nat \<Rightarrow> run_state \<Rightarrow> string \<Rightarrow> int \<Rightarrow> react_turn list option" where
  "replay_rounds 0 rs reactPath k = Some []"
| "replay_rounds (Suc n) rs reactPath k =
     (let roundPath = RoundPath reactPath k
      in case LookupCompleted rs (ModelPath roundPath) of
           None \<Rightarrow> None
         | Some nr \<Rightarrow>
             (case roundResultFromLeaf nr of
                None \<Rightarrow> None
              | Some mr \<Rightarrow>
                  (case replay_tools rs roundPath (mo_ToolCalls mr) of
                     None \<Rightarrow> None
                   | Some ts \<Rightarrow> map_option (\<lambda>rest. (buildAssistantTurn mr # ts) @ rest)
                                 (replay_rounds n rs reactPath (k + 1)))))"

definition replayMessages :: "string \<Rightarrow> string \<Rightarrow> run_state \<Rightarrow> int \<Rightarrow> react_turn list option" where
  "replayMessages prompt reactPath rs startK =
     map_option ((#) (turn ''user'' prompt)) (replay_rounds (nat (startK - 1)) rs reactPath 1)"

definition with_string :: "(string \<times> goval) list \<Rightarrow> string \<Rightarrow> string" where
  "with_string m k = asString (map_of m k)"

definition toolLoopRunnerFor :: "engine_env \<Rightarrow> react_spec \<Rightarrow> bool" where
  "toolLoopRunnerFor env r \<longleftrightarrow> e_local env \<and> e_resolver env
     \<and> (case e_adapter env (with_string (rc_With r) ''uses'') of
          None \<Rightarrow> False
        | Some caps \<Rightarrow> ac_Containerless caps \<and> ac_Threaded caps \<and> ac_ToolLoop caps)"

definition offered_tools :: "engine_env \<Rightarrow> string list \<Rightarrow> tool_def list" where
  "offered_tools env names = List.map_filter (\<lambda>name. map_option (\<lambda>t.
     \<lparr>td_Name = name, td_Description = tl_Description t, td_InputSchema = tl_InputSchema t\<rparr>) (map_of (e_tools env) name)) names"

definition buildToolLoopInvocation :: "engine_env \<Rightarrow> react_spec \<Rightarrow> string \<Rightarrow> react_turn list \<Rightarrow> tool_invocation" where
  "buildToolLoopInvocation env r modelPath msgs =
     \<lparr>ti_NodePath = modelPath, ti_Uses = with_string (rc_With r) ''uses'', ti_With = rc_With r, ti_Messages = msgs,
      ti_Tools = offered_tools env (rc_Tools r), ti_OutputSchema = rc_OutputSchema r\<rparr>"

subsection \<open>Tools\<close>

definition toolByName :: "engine_env \<Rightarrow> react_spec \<Rightarrow> string \<Rightarrow> ir_tool option" where
  "toolByName env r name = (if name \<in> set (rc_Tools r) then map_of (e_tools env) name else None)"

definition isScalar :: "goval \<Rightarrow> bool" where
  "isScalar v = (case v of VString _ \<Rightarrow> True | VBool _ \<Rightarrow> True | VFloat _ \<Rightarrow> True | VInt _ \<Rightarrow> True | VInt64 _ \<Rightarrow> True
     | VNumber _ \<Rightarrow> True | _ \<Rightarrow> False)"

definition toolImpl_Resolve :: "scope \<Rightarrow> string \<Rightarrow> goval option \<Rightarrow> scope" where
  "toolImpl_Resolve outer argsFile args g =
     (if length g = 1 \<and> \<not> IsIndex (g ! 0) \<and> Ident (g ! 0) = ''args_file'' then Inr (VString argsFile)
      else if length g = 2 \<and> \<not> IsIndex (g ! 0) \<and> Ident (g ! 0) = ''args'' \<and> \<not> IsIndex (g ! 1)
      then (case out_field args (Ident (g ! 1)) of
              Some v \<Rightarrow> if isScalar v then Inr v else unresolved
            | None \<Rightarrow> unresolved)
      else outer g)"

definition parseArgsBestEffort :: "engine_env \<Rightarrow> string \<Rightarrow> goval option" where
  "parseArgsBestEffort env raw = (if raw = [] then None else e_unmarshal env raw)"

definition sanitizePathSegment :: "string \<Rightarrow> string" where
  "sanitizePathSegment p = map (\<lambda>c. if c \<in> set ''.[]/ '' then CHR ''_'' else c) p"

definition dispatcherStagingRoot :: "engine_env \<Rightarrow> string" where
  "dispatcherStagingRoot env = (if e_local env \<and> e_stagingRoot env \<noteq> [] then e_stagingRoot env else ''/work/.awf'')"

definition argsFilePath :: "string \<Rightarrow> string \<Rightarrow> string" where
  "argsFilePath toolPath dir = dir @ ''/'' @ sanitizePathSegment toolPath @ ''.args.json''"

fun toolOutputFilePaths :: "output_file list \<Rightarrow> scope \<Rightarrow> eval_error + string list" where
  "toolOutputFilePaths [] sc = Inr []"
| "toolOutputFilePaths (f # fs) sc =
     rbind (Substitute (of_Path f) sc) (\<lambda>p. rbind (toolOutputFilePaths fs sc) (\<lambda>ps. Inr (p # ps)))"

definition boundToolResult :: "int \<Rightarrow> string \<Rightarrow> string" where
  "boundToolResult exitCode body =
     (if \<not> utf8_Valid body
      then ''[non-text tool output: '' @ itoa (int (length body)) @ '' bytes, exit '' @ itoa exitCode @ '']''
      else let s = boundDisplayField body toolResultCap
           in if exitCode \<noteq> 0 then ''[exit '' @ itoa exitCode @ '']'' @ [CHR 0x0A] @ s else s)"

definition tool_intent :: "engine_env \<Rightarrow> ir_tool \<Rightarrow> string \<Rightarrow> string \<Rightarrow> (string \<times> string) list \<Rightarrow> string list \<Rightarrow> node_intent" where
  "tool_intent env t toolPath cmd inputFiles outputFiles =
     \<lparr>ni_Path = toolPath,
      ni_Node = CodeStep \<lparr>cs_ID = [], cs_Container = tl_Container t, cs_Run = cmd, cs_Timeout = None, cs_OutputSchema = None,
                          cs_OutputFiles = [], cs_InputFiles = [], cs_IdempotencyKey = None, cs_Retry = None\<rparr>,
      ni_Command = cmd, ni_Env = e_runEnv env, ni_OutputFiles = map (\<lambda>p. (p, None)) outputFiles, ni_OutputSchema = None,
      ni_NonRetryableExitCodes = [], ni_Snapshot = [], ni_InputFiles = inputFiles,
      ni_Timeout = (case tl_Timeout t of None \<Rightarrow> 0 | Some d \<Rightarrow> d), ni_IdleTimeout = 0, ni_IdempotencyKey = [],
      ni_RecoveryContinue = False, ni_Attempt = 0, ni_Agent = no_agent, ni_Sink = False\<rparr>"

text \<open>The leaf of a tool result.\<close>

definition tool_leaf :: "dispatch_result \<Rightarrow> int \<Rightarrow> string \<Rightarrow> dispatch_result" where
  "tool_leaf dr exitCode content = zero_dispatch\<lparr>dr_Outcome := OutcomeOK, dr_ExitCode := Some exitCode,
     dr_Outputs := Some (VObject [(''exit_code'', VInt exitCode), (''stdout'', VString (dr_Stdout dr)),
       (''content'', VString content)]),
     dr_Stdout := dr_Stdout dr, dr_Files := dr_Files dr\<rparr>"

text \<open>\<open>dispatchOneTool\<close>: the continuation takes the message for the model.\<close>

definition run_tool :: "engine_env \<Rightarrow> ctx \<Rightarrow> string \<Rightarrow> policy \<Rightarrow> node_intent \<Rightarrow> (string \<Rightarrow> P) \<Rightarrow> P" where
  "run_tool env c toolPath pol intent k =
     RunWithRetry env c intent pol (\<lambda>(dr, runErr).
       case dr_ExitCode dr of
         None \<Rightarrow> infra ''dispatch tool impl''
       | Some exitCode \<Rightarrow>
           let content = boundToolResult exitCode (dr_Stdout dr)
           in Commit env toolPath (tool_leaf dr exitCode content) False (\<lambda>r.
                case r of
                  None \<Rightarrow> infra ''commit tool leaf''
                | Some nr \<Rightarrow> upd_rs (RecordCompleted toolPath nr) (k content)))"

definition dispatchOneTool :: "engine_env \<Rightarrow> ctx \<Rightarrow> ir_tool \<Rightarrow> string \<Rightarrow> tool_call \<Rightarrow> (string \<Rightarrow> P) \<Rightarrow> P" where
  "dispatchOneTool env c t toolPath tc k =
     (let argsPath = argsFilePath toolPath (dispatcherStagingRoot env);
          sc = (\<lambda>w. toolImpl_Resolve (Resolve (NewScope (w_rs w) (e_graph env) toolPath)) argsPath
                      (parseArgsBestEffort env (tc_Arguments tc)))
      in
     read (\<lambda>w. case Substitute (tl_Run t) (sc w) of
       Inl _ \<Rightarrow> infra ''template tool impl''
     | Inr cmd \<Rightarrow>
     (case Merge CodeDefault (tl_Retry t) of
       Inl _ \<Rightarrow> infra ''build tool retry policy''
     | Inr pol \<Rightarrow>
     read (\<lambda>w. case toolOutputFilePaths (tl_OutputFiles t) (sc w) of
       Inl _ \<Rightarrow> infra ''template tool output_files''
     | Inr outputFiles \<Rightarrow>
     read (\<lambda>w. case resolveInputFileEntries (e_jcs env) (tl_InputFiles t) (scope_of env w toolPath) RootModuleID
                       (getter_of w) (Assets (w_rs w)) of
       Inl _ \<Rightarrow> infra ''stage tool input_files''
     | Inr staged \<Rightarrow>
     (case inputFilesFromResolvedEntries (staged @ [\<lparr>ri_Path = argsPath, ri_Content = tc_Arguments tc,
                                                     ri_source = ''args_file'', ri_ref = []\<rparr>]) of
       Inl _ \<Rightarrow> infra ''merge tool input_files''
     | Inr inputFiles \<Rightarrow> run_tool env c toolPath pol (tool_intent env t toolPath cmd inputFiles outputFiles) k))))))"

text \<open>The verb \<^verbatim>\<open>%q\<close> of \<open>fmt\<close>; bytes outside ASCII are copied.\<close>

definition quote_byte :: "char \<Rightarrow> string" where
  "quote_byte c =
     (let n = (of_char c :: nat); bs = CHR 0x5C
      in if c = CHR 0x22 \<or> c = bs then [bs, c]
         else if 7 \<le> n \<and> n \<le> 13 then [bs, ''abtnvfr'' ! (n - 7)]
         else if n < 32 \<or> n = 127 then [bs, CHR ''x''] @ hex_byte c
         else [c])"

definition go_quote :: "string \<Rightarrow> string" where
  "go_quote s = [CHR 0x22] @ concat (map quote_byte s) @ [CHR 0x22]"

text \<open>The tools of a round, in order; an unknown tool is answered with an error message and no leaf.\<close>

fun dispatchRoundTools :: "engine_env \<Rightarrow> ctx \<Rightarrow> react_spec \<Rightarrow> string \<Rightarrow> tool_call list \<Rightarrow> react_turn list \<Rightarrow>
    (react_turn list \<Rightarrow> P) \<Rightarrow> P" where
  "dispatchRoundTools env c r roundPath [] msgs k = k msgs"
| "dispatchRoundTools env c r roundPath (tc # tcs) msgs k =
     (let toolPath = ToolPath roundPath (tc_Index tc)
      in read (\<lambda>w. case LookupCompleted (w_rs w) toolPath of
           Some nr \<Rightarrow> dispatchRoundTools env c r roundPath tcs (msgs @ [toolMessageFromLeaf (tc_ID tc) nr]) k
         | None \<Rightarrow>
             (case toolByName env r (tc_Name tc) of
                None \<Rightarrow> dispatchRoundTools env c r roundPath tcs
                  (msgs @ [tool_turn (tc_ID tc) (''error: unknown tool '' @ go_quote (tc_Name tc))]) k
              | Some t \<Rightarrow> dispatchOneTool env c t toolPath tc (\<lambda>content.
                  dispatchRoundTools env c r roundPath tcs (msgs @ [tool_turn (tc_ID tc) content]) k))))"

subsection \<open>Rounds\<close>

definition run_model :: "engine_env \<Rightarrow> tool_invocation \<Rightarrow> (model_error + model_result \<Rightarrow> P) \<Rightarrow> P" where
  "run_model env iv k = Act (\<lambda>w.
     (k (e_runToolLoop env (w_tick w) iv), (ticked w)\<lparr>w_trace := w_trace w @ [ModelCalled iv]\<rparr>))"

definition commitModelLeaf :: "engine_env \<Rightarrow> string \<Rightarrow> model_result \<Rightarrow> P \<Rightarrow> P" where
  "commitModelLeaf env modelPath mr p =
     Commit env modelPath (zero_dispatch\<lparr>dr_Outcome := OutcomeOK, dr_Outputs := Some (modelLeafOutputs mr)\<rparr>) False (\<lambda>r.
       case r of
         None \<Rightarrow> infra ''commit model leaf''
       | Some nr \<Rightarrow> upd_rs (RecordCompleted modelPath nr) p)"

definition closeRound :: "engine_env \<Rightarrow> string \<Rightarrow> int \<Rightarrow> P \<Rightarrow> P" where
  "closeRound env reactPath k p =
     log_append env reactPath (ReactRound k) (\<lambda>ok.
       if \<not> ok then infra ''append react.round''
       else log_sync env (\<lambda>ok.
         if \<not> ok then infra ''sync react.round''
         else upd_rs (RecordReactRound reactPath k) p))"

text \<open>The terminal output; \<open>None\<close> when the model's output does not fit the schema.\<close>

definition set_field :: "string \<Rightarrow> goval \<Rightarrow> (string \<times> goval) list \<Rightarrow> (string \<times> goval) list" where
  "set_field k v kvs = filter (\<lambda>(k', _). k' \<noteq> k) kvs @ [(k, v)]"

definition terminal_output :: "engine_env \<Rightarrow> react_spec \<Rightarrow> model_result \<Rightarrow> string \<Rightarrow> goval option" where
  "terminal_output env r mr stopReason =
     map_option (\<lambda>kvs. VObject (set_field ''stop_reason'' (VString stopReason) kvs))
       (if stopReason = ''max_turns'' then Some [(''text'', VString (mo_Text mr))]
        else case rc_OutputSchema r of
               None \<Rightarrow> Some [(''text'', VString (mo_Text mr))]
             | Some schema \<Rightarrow>
                 if e_validateJSON env schema (json_encode (if map_nil (mo_Output mr) then VNil else map_value (mo_Output mr)))
                 then Some (case map_value (mo_Output mr) of VObject kvs \<Rightarrow> kvs | _ \<Rightarrow> [])
                 else None)"

definition commitTerminal :: "engine_env \<Rightarrow> react_spec \<Rightarrow> string \<Rightarrow> model_result \<Rightarrow> string \<Rightarrow> P" where
  "commitTerminal env r reactPath mr stopReason =
     (case terminal_output env r mr stopReason of
        None \<Rightarrow> failStep env reactPath OutcomeRetryableFailure (Some (ErrCause ''output_schema validation''))
      | Some out \<Rightarrow>
          Commit env reactPath (zero_dispatch\<lparr>dr_Outcome := OutcomeOK, dr_Outputs := Some out\<rparr>) False (\<lambda>r.
            case r of
              None \<Rightarrow> infra ''commit terminal''
            | Some nr \<Rightarrow> upd_rs (RecordCompleted reactPath nr) (Ret (OutcomeOK, None))))"

text \<open>A round after its model answer.\<close>

definition react_answer :: "engine_env \<Rightarrow> ctx \<Rightarrow> react_spec \<Rightarrow> string \<Rightarrow> int \<Rightarrow> int \<Rightarrow> react_turn list \<Rightarrow> model_result \<Rightarrow>
    (react_turn list \<Rightarrow> P) \<Rightarrow> P" where
  "react_answer env c r reactPath maxTurns k msgs mr next =
     (if mo_FinishReason mr \<noteq> ''tool_calls'' then commitTerminal env r reactPath mr ''stop''
      else if k = maxTurns then commitTerminal env r reactPath mr ''max_turns''
      else dispatchRoundTools env c r (RoundPath reactPath k) (mo_ToolCalls mr) (msgs @ [buildAssistantTurn mr]) (\<lambda>msgs.
             closeRound env reactPath k (next msgs)))"

fun react_from :: "nat \<Rightarrow> engine_env \<Rightarrow> ctx \<Rightarrow> react_spec \<Rightarrow> string \<Rightarrow> int \<Rightarrow> int \<Rightarrow> react_turn list \<Rightarrow> P" where
  "react_from 0 env c r reactPath maxTurns k msgs = infra ''fell through the round loop''"
| "react_from (Suc n) env c r reactPath maxTurns k msgs =
     (let modelPath = ModelPath (RoundPath reactPath k);
          answer = (\<lambda>mr. react_answer env c r reactPath maxTurns k msgs mr
                           (react_from n env c r reactPath maxTurns (k + 1)))
      in read (\<lambda>w. case LookupCompleted (w_rs w) modelPath of
           Some nr \<Rightarrow> (case roundResultFromLeaf nr of None \<Rightarrow> infra ''read model leaf'' | Some mr \<Rightarrow> answer mr)
         | None \<Rightarrow>
             run_model env (buildToolLoopInvocation env r modelPath msgs) (\<lambda>res.
               case res of
                 Inl Unparseable \<Rightarrow> failStep env reactPath OutcomeRetryableFailure (Some (ErrCause ''unparseable output''))
               | Inl ModelFailed \<Rightarrow> infra ''model call''
               | Inr mr \<Rightarrow> commitModelLeaf env modelPath mr (answer mr))))"

definition runReact :: "engine_env \<Rightarrow> ctx \<Rightarrow> react_spec \<Rightarrow> string \<Rightarrow> P" where
  "runReact env c r reactPath =
     read (\<lambda>w. if LookupCompleted (w_rs w) reactPath \<noteq> None then Ret (OutcomeOK, None)
     else if \<not> toolLoopRunnerFor env r then infra ''no tool loop runner''
     else appendNodeStarted env reactPath ''react'' (
       let maxTurns = (if rc_MaxTurns r = 0 then defaultMaxTurns else rc_MaxTurns r)
       in read (\<lambda>w. let startK = int (length (LookupReactRounds (w_rs w) reactPath)) + 1
          in read (\<lambda>w. case Substitute (rc_Prompt r) (Resolve (scope_of env w reactPath)) of
               Inl e \<Rightarrow> failStep env reactPath OutcomePermanentFailure (Some (ErrEval e))
             | Inr prompt \<Rightarrow>
                 read (\<lambda>w. case replayMessages prompt reactPath (w_rs w) startK of
                   None \<Rightarrow> infra ''replay''
                 | Some msgs \<Rightarrow> react_from (nat (maxTurns + 1 - startK)) env c r reactPath maxTurns startK msgs)))))"

end
