(* ===== verification/Engine_Map.thy ===== *)
theory Engine_Map
  imports Engine_React
begin

text \<open>
  The map executor (src/engine/map.go), its prune frontier (src/engine/prune.go) and the fan-in of a
  map with \<open>reduce\<close> (src/engine/reduce.go). Each item is a branch of a \<open>Par\<close>; the local variables of
  \<open>runMap\<close> that its goroutines share are an entry of \<open>w_maps\<close>. The semaphore only delays a goroutine:
  an item may start at any time, which includes every order the semaphore allows. The body of the map
  is a parameter, a program for a context and a path, until the interpreter closes the recursion.
\<close>

subsection \<open>Thresholds\<close>

text \<open>\<open>ratioThreshold\<close>: an integer, or a fraction of the total rounded up in floating point.\<close>

definition ratioThreshold :: "string option \<Rightarrow> int \<Rightarrow> int" where
  "ratioThreshold r tot =
     (case r of
        None \<Rightarrow> tot
      | Some s \<Rightarrow>
          (case parse_int64 s of
             Some i \<Rightarrow> if i < 0 \<or> tot < i then tot else i
           | None \<Rightarrow>
               (case parse_f64 s of
                  None \<Rightarrow> tot
                | Some f \<Rightarrow>
                    if f \<le> 0 \<or> 1 < f then tot
                    else (case fmul f (f64_of_int tot) of
                            None \<Rightarrow> tot
                          | Some x \<Rightarrow>
                              let needed = trunc_int x;
                                  needed = (if f64_of_int needed < x then needed + 1 else needed)
                              in if needed < 1 then 1 else needed))))"

definition tallyResults :: "string list \<Rightarrow> int \<times> int" where
  "tallyResults statuses = (int (length (filter ((=) ItemPassed) statuses)), int (length (filter ((=) ItemFailed) statuses)))"

definition countPruned :: "string list \<Rightarrow> int" where
  "countPruned statuses = int (length (filter ((=) ItemPruned) statuses))"

definition defaultMinSuccess :: "map_spec \<Rightarrow> int \<Rightarrow> int" where
  "defaultMinSuccess v tot = ratioThreshold (mp_MinSuccess v) tot"

definition quorumThreshold :: "string option \<Rightarrow> int \<Rightarrow> int" where
  "quorumThreshold q cohort = ratioThreshold q cohort"

subsection \<open>The items\<close>

definition evalOver :: "string \<Rightarrow> scope \<Rightarrow> gerr + goval" where
  "evalOver src sc =
     (if src = [] then Inl (ErrCause ''over is empty'')
      else case ParseExpr (UnwrapEnvelope src) of
             Inl e \<Rightarrow> Inl (ErrEval (ParseFailure e))
           | Inr (Ref g) \<Rightarrow> (case sc g of Inl e \<Rightarrow> Inl (ErrEval e) | Inr x \<Rightarrow> Inr x)
           | Inr _ \<Rightarrow> Inl (ErrCause ''over must be a single reference''))"

definition resolveOverItems :: "map_spec \<Rightarrow> scope \<Rightarrow> gerr + goval" where
  "resolveOverItems v sc = (case mp_OverItems v of Some xs \<Rightarrow> Inr (VArray xs) | None \<Rightarrow> evalOver (mp_Over v) sc)"

definition ReasonImageUnavailable :: string where "ReasonImageUnavailable = ''image_unavailable''"

definition shouldRerunItem :: "map_spec \<Rightarrow> bool \<Rightarrow> map_item_record \<Rightarrow> bool" where
  "shouldRerunItem v resume mr =
     (if \<not> resume \<or> mp_Prune v \<noteq> None then False
      else if mi_Status mr \<noteq> ItemFailed \<or> mi_Reason mr = ReasonImageUnavailable then False
      else mi_Outcome mr = outcome_string OutcomeRetryableFailure)"

text \<open>The record of an item among those read from the state: the last one with its number.\<close>

definition committed_item :: "map_item_record list \<Rightarrow> int \<Rightarrow> map_item_record option" where
  "committed_item items i = find (\<lambda>mr. mi_N mr = i) (rev items)"

definition max_committed :: "map_item_record list \<Rightarrow> int" where
  "max_committed items = fold (\<lambda>mr m. if m < mi_N mr then mi_N mr else m) items (- 1)"

fun update_item_status :: "int \<Rightarrow> string \<Rightarrow> map_item_record list \<Rightarrow> map_item_record list" where
  "update_item_status n st [] = []"
| "update_item_status n st (x # xs) =
     (if mi_N x = n then x\<lparr>mi_Status := st\<rparr> # xs else x # update_item_status n st xs)"

definition updateMapItemStatus :: "string \<Rightarrow> int \<Rightarrow> string \<Rightarrow> run_state \<Rightarrow> run_state" where
  "updateMapItemStatus path n st rs =
     (if map_of (MapItems rs) path = None then rs
      else rs\<lparr>MapItems := pm_put path (update_item_status n st (pm_list (MapItems rs) path)) (MapItems rs)\<rparr>)"

definition maxMapItemCauseBytes :: nat where "maxMapItemCauseBytes = 1024"

definition RuneStart :: "char \<Rightarrow> bool" where
  "RuneStart c = (\<not> (128 \<le> (of_char c :: nat) \<and> (of_char c :: nat) < 192))"

fun rune_end :: "string \<Rightarrow> nat \<Rightarrow> nat" where
  "rune_end s 0 = 0"
| "rune_end s (Suc n) = (if RuneStart (s ! Suc n) then Suc n else rune_end s n)"

definition boundCause :: "string \<Rightarrow> string" where
  "boundCause s =
     (if length s \<le> maxMapItemCauseBytes then s
      else take (rune_end s maxMapItemCauseBytes) s @ [CHR 0xE2, CHR 0x80, CHR 0xA6])"

subsection \<open>The shared variables of one execution\<close>

definition new_map_run :: "nat \<Rightarrow> map_run" where
  "new_map_run n = \<lparr>mr_statuses = replicate n [], mr_causes = replicate n [], mr_err = None, mr_cancels = [], mr_pruned = [],
     mr_completed = [], mr_stopAll = False, mr_scores = []\<rparr>"

definition get_map :: "nat \<Rightarrow> world \<Rightarrow> map_run" where
  "get_map m w = w_maps w ! m"

definition set_map :: "nat \<Rightarrow> (map_run \<Rightarrow> map_run) \<Rightarrow> world \<Rightarrow> world" where
  "set_map m f w = w\<lparr>w_maps := (w_maps w)[m := f (w_maps w ! m)]\<rparr>"

definition upd_map :: "nat \<Rightarrow> (map_run \<Rightarrow> map_run) \<Rightarrow> P \<Rightarrow> P" where
  "upd_map m f p = upd (set_map m f) p"

definition set_status :: "nat \<Rightarrow> int \<Rightarrow> string \<Rightarrow> string \<Rightarrow> P \<Rightarrow> P" where
  "set_status m i st cause p = upd_map m (\<lambda>mr. mr\<lparr>mr_statuses := (mr_statuses mr)[nat i := st],
     mr_causes := (mr_causes mr)[nat i := cause]\<rparr>) p"

text \<open>Under \<open>statusErrMu\<close>: the first internal error wins.\<close>

definition set_err :: "nat \<Rightarrow> gerr \<Rightarrow> P \<Rightarrow> P" where
  "set_err m e p = upd_map m (\<lambda>mr. if mr_err mr = None then mr\<lparr>mr_err := Some e\<rparr> else mr) p"

definition item_done :: P where "item_done = Ret (OutcomeOK, None)"

subsection \<open>Prune\<close>

definition asFloat :: "goval \<Rightarrow> rat option" where
  "asFloat raw = (case raw of VFloat x \<Rightarrow> Some x | VInt n \<Rightarrow> Some (f64_of_int n) | VNumber s \<Rightarrow> parse_f64 s | _ \<Rightarrow> None)"

definition set_score :: "int \<Rightarrow> rat \<Rightarrow> (int \<times> rat) list \<Rightarrow> (int \<times> rat) list" where
  "set_score i x scores = (i, x) # filter (\<lambda>(j, _). j \<noteq> i) scores"

text \<open>The order of the frontier: higher scores first, the lower index first among equals.\<close>

definition score_le :: "int \<times> rat \<Rightarrow> int \<times> rat \<Rightarrow> bool" where
  "score_le a b = (if snd a \<noteq> snd b then snd b < snd a else fst a \<le> fst b)"

definition lowestBeyondK :: "(int \<times> rat) list \<Rightarrow> int \<Rightarrow> int list" where
  "lowestBeyondK scores k = sort (map fst (drop (nat k) (sort_by score_le scores)))"

definition best_Resolve :: "rat \<Rightarrow> scope" where
  "best_Resolve best g =
     (if length g = 2 \<and> \<not> IsIndex (g ! 0) \<and> Ident (g ! 0) = ''best'' \<and> \<not> IsIndex (g ! 1) \<and> Ident (g ! 1) = ''score''
      then Inr (VFloat best) else unresolved)"

definition evalStopWhen :: "string \<Rightarrow> rat \<Rightarrow> (int \<times> rat) list \<Rightarrow> eval_error + bool" where
  "evalStopWhen stopWhen latest scores =
     EvalBoolString stopWhen (best_Resolve (fold (\<lambda>(_, x) best. if best < x then x else best) scores latest))"

record prune_decision =
  pd_PruneLosers :: "int list"
  pd_StopAll :: bool

text \<open>\<open>pruneController.Report\<close>, under the controller's mutex: the decision and the scores after it.\<close>

definition Report :: "prune_spec \<Rightarrow> int \<Rightarrow> goval \<Rightarrow> (int \<times> rat) list \<Rightarrow> (gerr + prune_decision) \<times> (int \<times> rat) list" where
  "Report policy item raw scores =
     (case asFloat raw of
        None \<Rightarrow> (Inl (ErrCause ''prune.score''), scores)
      | Some x \<Rightarrow>
          let scores = set_score item x scores
          in if pr_StopWhen policy \<noteq> []
             then (case evalStopWhen (pr_StopWhen policy) x scores of
                     Inl e \<Rightarrow> (Inl (ErrEval e), scores)
                   | Inr b \<Rightarrow> (Inr \<lparr>pd_PruneLosers = [], pd_StopAll = b\<rparr>, scores))
             else (case pr_Keep policy of
                     None \<Rightarrow> (Inl (ErrInfra ''nil keep''), scores)
                   | Some k \<Rightarrow>
                       (Inr \<lparr>pd_PruneLosers = (if int (length scores) \<le> k then [] else lowestBeyondK scores k),
                             pd_StopAll = False\<rparr>, scores)))"

definition isPruned :: "int \<Rightarrow> map_run \<Rightarrow> bool" where
  "isPruned item mr = (item \<in> set (mr_pruned mr) \<or> (mr_stopAll mr \<and> item \<notin> set (mr_completed mr)))"

text \<open>
  The last part of \<open>pruneRun.report\<close>, under its mutex: the losers of the decision are marked, and the
  contexts of those that registered are cancelled.
\<close>

definition losers_of :: "prune_decision \<Rightarrow> map_run \<Rightarrow> int list" where
  "losers_of d mr =
     (if pd_StopAll d then filter (\<lambda>i. i \<notin> set (mr_completed mr)) (map fst (mr_cancels mr))
      else filter (\<lambda>i. i \<notin> set (mr_pruned mr)) (pd_PruneLosers d))"

definition apply_decision :: "nat \<Rightarrow> prune_decision \<Rightarrow> world \<Rightarrow> world" where
  "apply_decision m d w =
     (let mr = get_map m w; losers = losers_of d mr
      in (set_map m (\<lambda>mr. mr\<lparr>mr_stopAll := (mr_stopAll mr \<or> pd_StopAll d), mr_pruned := losers @ mr_pruned mr\<rparr>) w)
           \<lparr>w_cancelled := List.map_filter (map_of (mr_cancels mr)) losers @ w_cancelled w\<rparr>)"

definition report :: "prune_spec \<Rightarrow> string \<Rightarrow> string \<Rightarrow> nat \<Rightarrow> int \<Rightarrow> (gerr option \<Rightarrow> P) \<Rightarrow> P" where
  "report policy mapPath stepID m item k =
     read (\<lambda>w. case LookupCompleted (w_rs w) (ItemStepPath mapPath item stepID) of
       None \<Rightarrow> k (Some (ErrCause ''prune.score: no typed output''))
     | Some nr \<Rightarrow>
         let raw = (case out_field (nr_Outputs nr) (pr_Score policy) of None \<Rightarrow> VNil | Some x \<Rightarrow> x)
         in upd_map m (\<lambda>mr. mr\<lparr>mr_completed := item # mr_completed mr\<rparr>) (
            Act (\<lambda>w. case Report policy item raw (mr_scores (get_map m w)) of
              (r, scores) \<Rightarrow>
                (case r of Inl e \<Rightarrow> k (Some e) | Inr d \<Rightarrow> upd (apply_decision m d) (k None),
                 set_map m (\<lambda>mr. mr\<lparr>mr_scores := scores\<rparr>) w))))"

subsection \<open>Commits\<close>

definition commitMapItem :: "engine_env \<Rightarrow> string \<Rightarrow> map_item_data \<Rightarrow> (bool \<Rightarrow> P) \<Rightarrow> P" where
  "commitMapItem env mapPath d k =
     log_append env mapPath (MapItem d) (\<lambda>ok.
       if \<not> ok then k False
       else log_sync env (\<lambda>ok.
         if \<not> ok then k False
         else upd_rs (updateMapItemStatus mapPath (md_N d) (md_Status d)) (k True)))"

fun update_statuses :: "string \<Rightarrow> map_item_data list \<Rightarrow> P \<Rightarrow> P" where
  "update_statuses mapPath [] p = p"
| "update_statuses mapPath (d # ds) p =
     upd_rs (updateMapItemStatus mapPath (md_N d) (md_Status d)) (update_statuses mapPath ds p)"

definition commitMapFrontier :: "engine_env \<Rightarrow> string \<Rightarrow> map_item_data list \<Rightarrow> (bool \<Rightarrow> P) \<Rightarrow> P" where
  "commitMapFrontier env mapPath ds k =
     log_append env mapPath (MapFrontier ds) (\<lambda>ok.
       if \<not> ok then k False
       else log_sync env (\<lambda>ok. if \<not> ok then k False else update_statuses mapPath ds (k True)))"

subsection \<open>One item\<close>

definition item_data :: "int \<Rightarrow> string \<Rightarrow> map_item_data" where
  "item_data i st = \<lparr>md_N = i, md_Status = st, md_ImageDigest = [], md_Reason = [], md_Outcome = [], md_Cause = []\<rparr>"

definition item_name :: "string \<Rightarrow> int \<Rightarrow> string" where
  "item_name container i = container @ ''-item-'' @ itoa i"

definition create_item :: "engine_env \<Rightarrow> map_spec \<Rightarrow> int \<Rightarrow> string \<Rightarrow> (created \<Rightarrow> P) \<Rightarrow> P" where
  "create_item env v i img k = Act (\<lambda>w.
     case e_createItem env (w_tick w) (mp_Container v) i img of
       Created digest \<Rightarrow> (k (Created digest), (ticked w)\<lparr>w_trace := w_trace w @ [ContainerCreated (item_name (mp_Container v) i) img]\<rparr>)
     | e \<Rightarrow> (k e, ticked w))"

definition destroy :: "string \<Rightarrow> P \<Rightarrow> P" where
  "destroy name p = upd (\<lambda>w. w\<lparr>w_trace := w_trace w @ [ContainerDestroyed name]\<rparr>) p"

type_synonym item_result = "string \<times> string \<times> gerr option"

text \<open>The end of an item: the commit of a plain map; a map with \<open>prune\<close> commits after the join.\<close>

definition end_item :: "engine_env \<Rightarrow> map_spec \<Rightarrow> string \<Rightarrow> map_item_data \<Rightarrow> (item_result \<Rightarrow> P) \<Rightarrow> P" where
  "end_item env v mapPath d k =
     (if mp_Prune v \<noteq> None then k (md_Status d, md_Cause d, None)
      else commitMapItem env mapPath d (\<lambda>ok.
             if ok then k (md_Status d, md_Cause d, None) else k ([], md_Cause d, Some (ErrInfra ''commit map.item''))))"

text \<open>After the body.\<close>

definition item_verdict :: "engine_env \<Rightarrow> map_spec \<Rightarrow> string \<Rightarrow> int \<Rightarrow> string \<Rightarrow> (item_result \<Rightarrow> P) \<Rightarrow> result \<Rightarrow> P" where
  "item_verdict env v mapPath i digest k = (\<lambda>(oc, err).
     let passed = end_item env v mapPath ((item_data i ItemPassed)\<lparr>md_ImageDigest := digest\<rparr>) k
     in case err of
          Some (ErrSkip reason) \<Rightarrow> appendNodeSkipped env (ItemPath mapPath i) reason (\<lambda>ok.
            if \<not> ok then k ([], [], Some (ErrInfra ''append node.skipped'')) else passed)
        | Some e \<Rightarrow>
            if \<not> isTypedFailureOutcome oc then k ([], [], Some e)
            else end_item env v mapPath ((item_data i ItemFailed)\<lparr>md_ImageDigest := digest,
                   md_Outcome := outcome_string oc, md_Cause := boundCause (err_text e)\<rparr>) k
        | None \<Rightarrow> if oc \<noteq> OutcomeOK then k ([], [], Some (ErrInfra ''outcome without an error'')) else passed)"

definition image_of :: "engine_env \<Rightarrow> map_spec \<Rightarrow> string \<Rightarrow> int \<Rightarrow> world \<Rightarrow> string option" where
  "image_of env v mapPath i w =
     (if mp_Image v = [] then Some []
      else case Substitute (mp_Image v) (Resolve (scope_of env w (ItemPath mapPath i))) of
             Inl _ \<Rightarrow> None
           | Inr r \<Rightarrow> if trimSpace r = [] then None else Some r)"

definition dispatchItem :: "engine_env \<Rightarrow> ctx \<Rightarrow> map_spec \<Rightarrow> string \<Rightarrow> int \<Rightarrow> (ctx \<Rightarrow> string \<Rightarrow> P) \<Rightarrow> (item_result \<Rightarrow> P) \<Rightarrow> P" where
  "dispatchItem env c v mapPath i body k =
     read (\<lambda>w. case image_of env v mapPath i w of
       None \<Rightarrow> k ([], [], Some (ErrRenderImage i))
     | Some img \<Rightarrow>
         create_item env v i img (\<lambda>r.
           case r of
             Created digest \<Rightarrow>
               seq (body c (ItemPath mapPath i))
                   (item_verdict env v mapPath i digest (\<lambda>res. destroy (item_name (mp_Container v) i) (k res)))
           | CreateCtx e \<Rightarrow> k ([], [], Some e)
           | ImageUnavailable \<Rightarrow>
               if mp_Image v = [] then k ([], [], Some (ErrInfra ''create item container''))
               else end_item env v mapPath ((item_data i ItemFailed)\<lparr>md_Reason := ReasonImageUnavailable\<rparr>) k
           | CreateRejected \<Rightarrow>
               k ([], [], Some (if mp_Image v = [] then ErrInfra ''create item container'' else ErrCreateConfig i))))"

text \<open>\<open>sem.Acquire\<close>: it fails only when the context is done, and may succeed even then.\<close>

definition sem_acquire :: "engine_env \<Rightarrow> ctx \<Rightarrow> (bool \<Rightarrow> P) \<Rightarrow> P" where
  "sem_acquire env c k = Act (\<lambda>w. (k (\<not> ctx_err c w \<or> e_acquire env (w_tick w)), ticked w))"

definition if_pruned :: "map_spec \<Rightarrow> nat \<Rightarrow> int \<Rightarrow> P \<Rightarrow> P" where
  "if_pruned v m i p =
     (if mp_Prune v = None then p else read (\<lambda>w. if isPruned i (get_map m w) then item_done else p))"

definition item_result :: "map_spec \<Rightarrow> string \<Rightarrow> string \<Rightarrow> nat \<Rightarrow> int \<Rightarrow> item_result \<Rightarrow> P" where
  "item_result v mapPath stepID m i = (\<lambda>(st, cause, err).
     set_status m i st cause (
       case err of
         Some e \<Rightarrow> if_pruned v m i (set_err m e item_done)
       | None \<Rightarrow>
           (case mp_Prune v of
              None \<Rightarrow> item_done
            | Some policy \<Rightarrow>
                if st = ItemPassed
                then report policy mapPath stepID m i (\<lambda>r. case r of None \<Rightarrow> item_done | Some e \<Rightarrow> set_err m e item_done)
                else item_done)))"

definition run_item :: "engine_env \<Rightarrow> ctx \<Rightarrow> map_spec \<Rightarrow> string \<Rightarrow> string \<Rightarrow> nat \<Rightarrow> int \<Rightarrow> (ctx \<Rightarrow> string \<Rightarrow> P) \<Rightarrow> P" where
  "run_item env c v mapPath stepID m i body =
     sem_acquire env c (\<lambda>ok.
       if \<not> ok then if_pruned v m i (set_err m ErrCtx item_done)
       else if_pruned v m i (dispatchItem env c v mapPath i body (item_result v mapPath stepID m i)))"

text \<open>The goroutine of an item; with \<open>prune\<close> it has a context of its own, registered for cancellation.\<close>

definition map_item :: "engine_env \<Rightarrow> ctx \<Rightarrow> map_spec \<Rightarrow> string \<Rightarrow> string \<Rightarrow> nat \<Rightarrow> int \<Rightarrow> (ctx \<Rightarrow> string \<Rightarrow> P) \<Rightarrow> P" where
  "map_item env c v mapPath stepID m i body =
     (if mp_Prune v = None then run_item env c v mapPath stepID m i body
      else Act (\<lambda>w. let cid = w_ctxs w
                    in (upd_map m (\<lambda>mr. mr\<lparr>mr_cancels := (i, cid) # mr_cancels mr\<rparr>)
                          (seq (if_pruned v m i (run_item env (cid # c) v mapPath stepID m i body))
                               (\<lambda>r. upd (\<lambda>w. w\<lparr>w_cancelled := cid # w_cancelled w\<rparr>) (Ret r))),
                        w\<lparr>w_ctxs := Suc cid\<rparr>)))"

subsection \<open>The map\<close>

text \<open>The loop that starts the goroutines, and the wait for them.\<close>

fun spawn_items :: "engine_env \<Rightarrow> ctx \<Rightarrow> map_spec \<Rightarrow> string \<Rightarrow> string \<Rightarrow> nat \<Rightarrow> map_item_record list \<Rightarrow> (ctx \<Rightarrow> string \<Rightarrow> P) \<Rightarrow>
    (int \<times> goval) list \<Rightarrow> P" where
  "spawn_items env c v mapPath stepID m items body [] = item_done"
| "spawn_items env c v mapPath stepID m items body ((i, x) # xs) =
     (let start = upd_rs (RecordMapItem mapPath \<lparr>mi_N = i, mi_ItemValue = Some x, mi_Status = [], mi_Outcome = [],
                            mi_ImageDigest = [], mi_Reason = [], mi_Cause = []\<rparr>)
                    (Par [map_item env c v mapPath stepID m i body,
                          spawn_items env c v mapPath stepID m items body xs] (\<lambda>_. item_done))
      in case committed_item items i of
           None \<Rightarrow> start
         | Some mr \<Rightarrow>
             if shouldRerunItem v (e_resume env) mr then start
             else upd_map m (\<lambda>r. r\<lparr>mr_statuses := (mr_statuses r)[nat i := mi_Status mr]\<rparr>)
                    (spawn_items env c v mapPath stepID m items body xs))"

text \<open>The values of replayed items, filled in one by one.\<close>

fun fill_values :: "string \<Rightarrow> goval list \<Rightarrow> map_item_record list \<Rightarrow> P \<Rightarrow> P" where
  "fill_values mapPath xs [] p = p"
| "fill_values mapPath xs (mr # mrs) p =
     (if mi_ItemValue mr = None \<and> mi_N mr < int (length xs)
      then upd_rs (UpdateMapItemValue mapPath (mi_N mr) (Some (xs ! nat (mi_N mr)))) (fill_values mapPath xs mrs p)
      else fill_values mapPath xs mrs p)"

text \<open>The disposition of the frontier for the items that were not committed before.\<close>

definition frontier :: "map_item_record list \<Rightarrow> int \<Rightarrow> map_run \<Rightarrow> map_item_data list" where
  "frontier items n mr =
     map (\<lambda>i. let final = (if isPruned i mr then ItemPruned else mr_statuses mr ! nat i)
              in (item_data i final)\<lparr>md_Cause := (if final = ItemFailed then mr_causes mr ! nat i else [])\<rparr>)
       (filter (\<lambda>i. committed_item items i = None) [0..n - 1])"

definition settle :: "map_item_data list \<Rightarrow> map_run \<Rightarrow> map_run" where
  "settle ds mr = mr\<lparr>mr_statuses := fold (\<lambda>d st. st[nat (md_N d) := md_Status d]) ds (mr_statuses mr)\<rparr>"

text \<open>After the join: the frontier, the internal error, the tally.\<close>

definition map_verdict :: "engine_env \<Rightarrow> map_spec \<Rightarrow> string \<Rightarrow> int \<Rightarrow> (int \<Rightarrow> P) \<Rightarrow> map_run \<Rightarrow> P" where
  "map_verdict env v mapPath n reduce mr =
     (case mr_err mr of
        Some e \<Rightarrow>
          (case e of
             ErrRenderImage _ \<Rightarrow> failStep env mapPath OutcomePermanentFailure (Some e)
           | ErrCreateConfig _ \<Rightarrow> failStep env mapPath OutcomePermanentFailure (Some e)
           | _ \<Rightarrow> Ret (NoOutcome, Some e))
      | None \<Rightarrow>
          let pass = fst (tallyResults (mr_statuses mr));
              effectiveTotal = n - countPruned (mr_statuses mr)
          in if mp_Reduce v \<noteq> None then reduce effectiveTotal
             else if defaultMinSuccess v effectiveTotal \<le> pass then Ret (OutcomeOK, None)
             else Ret (OutcomeRetryableFailure, Some (ErrCause ''min_success'')))"

definition join_items :: "engine_env \<Rightarrow> map_spec \<Rightarrow> string \<Rightarrow> nat \<Rightarrow> map_item_record list \<Rightarrow> int \<Rightarrow> (int \<Rightarrow> P) \<Rightarrow> P" where
  "join_items env v mapPath m items n reduce =
     read (\<lambda>w. let mr = get_map m w
       in if mp_Prune v = None \<or> mr_err mr \<noteq> None then map_verdict env v mapPath n reduce mr
          else let fresh = frontier items n mr
               in upd_map m (settle fresh) (
                    if fresh = [] then map_verdict env v mapPath n reduce mr
                    else commitMapFrontier env mapPath fresh (\<lambda>ok.
                           if \<not> ok then infra ''commit map.frontier''
                           else map_verdict env v mapPath n reduce (settle fresh mr))))"

definition run_items :: "engine_env \<Rightarrow> ctx \<Rightarrow> map_spec \<Rightarrow> string \<Rightarrow> string \<Rightarrow> goval list \<Rightarrow> map_item_record list \<Rightarrow>
    (ctx \<Rightarrow> string \<Rightarrow> P) \<Rightarrow> (int \<Rightarrow> P) \<Rightarrow> P" where
  "run_items env c v mapPath stepID xs items body reduce =
     Act (\<lambda>w. let m = length (w_maps w)
              in (seq (spawn_items env c v mapPath stepID m items body (zip [0..int (length xs) - 1] xs))
                      (\<lambda>_. join_items env v mapPath m items (int (length xs)) reduce),
                  w\<lparr>w_maps := w_maps w @ [new_map_run (length xs)]\<rparr>))"

subsection \<open>Reduce\<close>

record reduce_branch =
  rb_N :: int
  rb_Outputs :: "(string \<times> goval) list"
  rb_Files :: "string pmap"

record reduce_producer =
  rp_suffix :: string
  rp_outputFiles :: "output_file list"

definition body_producers :: "node list \<Rightarrow> reduce_producer list" where
  "body_producers body = List.map_filter (\<lambda>(n, path).
     case n of
       CodeStep s \<Rightarrow> Some \<lparr>rp_suffix = trimPrefix path ''body.'', rp_outputFiles = cs_OutputFiles s\<rparr>
     | AgentStep s \<Rightarrow> Some \<lparr>rp_suffix = trimPrefix path ''body.'', rp_outputFiles = as_OutputFiles s\<rparr>
     | _ \<Rightarrow> None) (WalkNodes 0 body ''body'')"

text \<open>The named files of one producer for one item.\<close>

fun branch_files :: "scope \<Rightarrow> node_result \<Rightarrow> output_file list \<Rightarrow> string pmap \<Rightarrow> stage_error + string pmap" where
  "branch_files sc nr [] acc = Inr acc"
| "branch_files sc nr (f # fs) acc =
     (if of_Name f = [] then branch_files sc nr fs acc
      else case Substitute (of_Path f) sc of
             Inl _ \<Rightarrow> Inl StageError
           | Inr containerPath \<Rightarrow>
               (case map_of (nr_Files nr) containerPath of
                  None \<Rightarrow> Inl FetchError
                | Some ref \<Rightarrow> branch_files sc nr fs (pm_put (of_Name f) ref acc)))"

text \<open>The producers of one item; the flag tells whether any of them has committed.\<close>

fun branch_outputs :: "run_state \<Rightarrow> node list \<Rightarrow> string \<Rightarrow> int \<Rightarrow> reduce_producer list \<Rightarrow> reduce_branch \<Rightarrow> bool \<Rightarrow>
    stage_error + reduce_branch \<times> bool" where
  "branch_outputs rs graph mapPath n [] b done = Inr (b, done)"
| "branch_outputs rs graph mapPath n (p # ps) b done =
     (case itemBodyStepPath rs mapPath n (rp_suffix p) of
        None \<Rightarrow> branch_outputs rs graph mapPath n ps b done
      | Some path \<Rightarrow>
          (case LookupCompleted rs path of
             None \<Rightarrow> branch_outputs rs graph mapPath n ps b done
           | Some nr \<Rightarrow>
               (case branch_files (Resolve (NewScope rs graph path)) nr (rp_outputFiles p) (rb_Files b) of
                  Inl e \<Rightarrow> Inl e
                | Inr files \<Rightarrow>
                    branch_outputs rs graph mapPath n ps
                      (b\<lparr>rb_Outputs := fold (\<lambda>(k, x). set_field k x) (case map_value (nr_Outputs nr) of VObject kvs \<Rightarrow> kvs | _ \<Rightarrow> [])
                                       (rb_Outputs b), rb_Files := files\<rparr>) True)))"

fun collect_items :: "run_state \<Rightarrow> node list \<Rightarrow> string \<Rightarrow> reduce_producer list \<Rightarrow> map_item_record list \<Rightarrow> stage_error + reduce_branch list" where
  "collect_items rs graph mapPath ps [] = Inr []"
| "collect_items rs graph mapPath ps (mr # mrs) =
     (if mi_Status mr \<noteq> ItemPassed then collect_items rs graph mapPath ps mrs
      else case branch_outputs rs graph mapPath (mi_N mr) ps \<lparr>rb_N = mi_N mr, rb_Outputs = [], rb_Files = []\<rparr> False of
             Inl e \<Rightarrow> Inl e
           | Inr (b, done) \<Rightarrow>
               (case collect_items rs graph mapPath ps mrs of
                  Inl e \<Rightarrow> Inl e
                | Inr bs \<Rightarrow> Inr (if done then b # bs else bs)))"

definition collectReduceBranches :: "run_state \<Rightarrow> node list \<Rightarrow> node list \<Rightarrow> string \<Rightarrow> stage_error + reduce_branch list" where
  "collectReduceBranches rs graph body mapPath =
     collect_items rs graph mapPath (body_producers body) (sort_key mi_N (LookupMapItems rs mapPath))"

text \<open>
  The verdict of a quorum. In the program the value of \<open>votes_detail\<close> is a slice of maps; it becomes
  the array it is here when the state is read back from the journal.
\<close>

definition quorum_output :: "reduce_spec \<Rightarrow> reduce_branch list \<Rightarrow> int \<Rightarrow> (string \<times> goval) list" where
  "quorum_output r branches cohort =
     (let agree = int (length (filter (\<lambda>b. map_of (rb_Outputs b) (rd_Field r) = Some (VBool True)) branches));
          passed = (quorumThreshold (rd_Quorum r) cohort \<le> agree)
      in fold (\<lambda>(k, x). set_field k x)
           [(rd_Field r, VBool passed), (''votes'', VInt cohort), (''agree'', VInt agree),
            (''votes_detail'', VArray (map (\<lambda>b. VObject [(''index'', VInt (rb_N b)), (''output'', VObject (rb_Outputs b))]) branches))] [])"

text \<open>The commit of a reduce, for both forms.\<close>

definition commit_reduce :: "engine_env \<Rightarrow> string \<Rightarrow> dispatch_result \<Rightarrow> P" where
  "commit_reduce env nodePath dr =
     Commit env nodePath dr False (\<lambda>r.
       case r of
         None \<Rightarrow> infra ''commit reduce''
       | Some nr \<Rightarrow> upd_rs (RecordCompleted nodePath nr) (Ret (OutcomeOK, None)))"

definition runQuorumReduce :: "engine_env \<Rightarrow> reduce_spec \<Rightarrow> string \<Rightarrow> reduce_branch list \<Rightarrow> int \<Rightarrow> P" where
  "runQuorumReduce env r nodePath branches cohort =
     commit_reduce env nodePath (zero_dispatch\<lparr>dr_Outcome := OutcomeOK, dr_Outputs := Some (VObject (quorum_output r branches cohort))\<rparr>)"

text \<open>The files of the branches under the staging root, read from the store in order.\<close>

fun stage_files :: "getter \<Rightarrow> string \<Rightarrow> int \<Rightarrow> string list \<Rightarrow> string pmap \<Rightarrow> string pmap \<Rightarrow> string pmap option" where
  "stage_files get dir n [] files acc = Some acc"
| "stage_files get dir n (name # names) files acc =
     (case get (case map_of files name of None \<Rightarrow> [] | Some ref \<Rightarrow> ref) of
        Inl _ \<Rightarrow> None
      | Inr content \<Rightarrow>
          stage_files get dir n names files (pm_put (dir @ ''/branch-'' @ itoa n @ ''/'' @ name) content acc))"

fun stage_branches :: "getter \<Rightarrow> string \<Rightarrow> reduce_branch list \<Rightarrow> string pmap \<Rightarrow> string pmap option" where
  "stage_branches get dir [] acc = Some acc"
| "stage_branches get dir (b # bs) acc =
     (case stage_files get dir (rb_N b) (slices_Sort (map fst (rb_Files b))) (rb_Files b) acc of
        None \<Rightarrow> None
      | Some acc' \<Rightarrow> stage_branches get dir bs acc')"

definition reduce_inputs :: "string \<Rightarrow> string \<Rightarrow> string pmap \<Rightarrow> (string \<times> string) list" where
  "reduce_inputs dir canon dsts =
     (dir @ ''/aggregate.json'', canon) # map (\<lambda>d. (d, the (map_of dsts d))) (slices_Sort (map fst dsts))"

definition reduce_intent :: "engine_env \<Rightarrow> reduce_spec \<Rightarrow> string \<Rightarrow> string \<Rightarrow> (string \<times> string) list \<Rightarrow>
    (string \<times> output_contract option) list \<Rightarrow> node_intent" where
  "reduce_intent env r nodePath cmd inputs outputFiles =
     \<lparr>ni_Path = nodePath,
      ni_Node = CodeStep \<lparr>cs_ID = [], cs_Container = rd_Container r, cs_Run = cmd, cs_Timeout = None,
                          cs_OutputSchema = rd_OutputSchema r, cs_OutputFiles = rd_OutputFiles r, cs_InputFiles = [],
                          cs_IdempotencyKey = None, cs_Retry = None\<rparr>,
      ni_Command = cmd, ni_Env = pm_put ''AWF_STAGING_ROOT'' (dispatcherStagingRoot env) (e_runEnv env),
      ni_OutputFiles = outputFiles, ni_OutputSchema = rd_OutputSchema r, ni_NonRetryableExitCodes = [], ni_Snapshot = [],
      ni_InputFiles = inputs, ni_Timeout = 0, ni_IdleTimeout = 0, ni_IdempotencyKey = [], ni_RecoveryContinue = False,
      ni_Attempt = 0, ni_Agent = no_agent, ni_Sink = False\<rparr>"

definition dispatch_reduce :: "engine_env \<Rightarrow> ctx \<Rightarrow> string \<Rightarrow> node_intent \<Rightarrow> P" where
  "dispatch_reduce env c nodePath intent =
     appendNodeStarted env nodePath ''reduce'' (
     RunWithRetry env c intent CodeDefault (\<lambda>(dr, runErr).
       case runErr of
         Some e \<Rightarrow> if dr_Outcome dr = NoOutcome then infra ''dispatch reduce'' else failStep env nodePath (dr_Outcome dr) (Some e)
       | None \<Rightarrow> commit_reduce env nodePath dr))"

text \<open>\<open>newReduceTemplateScopeForExec\<close>, in the frame of the top-level workflow.\<close>

definition reduce_scope_of :: "engine_env \<Rightarrow> world \<Rightarrow> string \<Rightarrow> scope" where
  "reduce_scope_of env w mapPath = reduce_Resolve (e_jcs env) \<lparr>rts_base = scope_of env w mapPath, rts_mapPath = mapPath\<rparr>"

definition runCommandReduce :: "engine_env \<Rightarrow> ctx \<Rightarrow> reduce_spec \<Rightarrow> string \<Rightarrow> reduce_branch list \<Rightarrow> P" where
  "runCommandReduce env c r nodePath branches =
     (let dir = dispatcherStagingRoot env
      in case e_jcs env (json_encode (VArray (map (\<lambda>b. VObject (rb_Outputs b)) branches))) of
           None \<Rightarrow> failStep env nodePath OutcomePermanentFailure (Some (ErrCause ''canonicalize reduce manifest''))
         | Some canon \<Rightarrow>
             read (\<lambda>w. case stage_branches (getter_of w) dir branches [] of
               None \<Rightarrow> infra ''fetch branch file''
             | Some dsts \<Rightarrow>
             read (\<lambda>w. case Substitute (rd_Run r) (reduce_scope_of env w nodePath) of
               Inl e \<Rightarrow> failStep env nodePath OutcomePermanentFailure (Some (ErrEval e))
             | Inr cmd \<Rightarrow>
             read (\<lambda>w. case resolveOutputFiles (e_compiles env) (e_unmarshal env) (rd_OutputFiles r) (reduce_scope_of env w nodePath)
                               RootModuleID (Assets (w_rs w)) (getter_of w) of
               Inl e \<Rightarrow> stage_failed env nodePath ''resolve output_files contracts'' e
             | Inr outputFiles \<Rightarrow>
                 dispatch_reduce env c nodePath (reduce_intent env r nodePath cmd (reduce_inputs dir canon dsts) outputFiles)))))"

definition IsQuorum :: "reduce_spec \<Rightarrow> bool" where "IsQuorum r = (rd_Quorum r \<noteq> None)"

definition IsRun :: "reduce_spec \<Rightarrow> bool" where "IsRun r = (rd_Run r \<noteq> [])"

definition runReduce :: "engine_env \<Rightarrow> ctx \<Rightarrow> reduce_spec \<Rightarrow> string \<Rightarrow> reduce_branch list \<Rightarrow> int \<Rightarrow> P" where
  "runReduce env c r nodePath branches cohort =
     read (\<lambda>w. if LookupCompleted (w_rs w) nodePath \<noteq> None then Ret (OutcomeOK, None)
       else if IsQuorum r then runQuorumReduce env r nodePath branches cohort
       else if IsRun r then runCommandReduce env c r nodePath branches
       else infra ''reduce has neither quorum nor run'')"

text \<open>The container of a command reduce, created for the reduce when the run has none.\<close>

definition with_reduce_container :: "engine_env \<Rightarrow> reduce_spec \<Rightarrow> P \<Rightarrow> P" where
  "with_reduce_container env r p =
     (let bare = fst (SplitContainerRef (rd_Container r))
      in if \<not> IsRun r \<or> e_hasHandle env bare then p
         else Act (\<lambda>w.
           if e_create env (w_tick w)
           then (seq p (\<lambda>res. destroy bare (Ret res)), (ticked w)\<lparr>w_trace := w_trace w @ [ContainerCreated bare []]\<rparr>)
           else (infra ''create reduce container'', ticked w)))"

definition runMapReduce :: "engine_env \<Rightarrow> ctx \<Rightarrow> reduce_spec \<Rightarrow> node list \<Rightarrow> string \<Rightarrow> int \<Rightarrow> P" where
  "runMapReduce env c r body mapPath cohort =
     read (\<lambda>w. if LookupCompleted (w_rs w) mapPath \<noteq> None then Ret (OutcomeOK, None)
       else read (\<lambda>w. case collectReduceBranches (w_rs w) (e_graph env) body mapPath of
         Inl e \<Rightarrow> stage_failed env mapPath ''collect reduce branches'' e
       | Inr branches \<Rightarrow> with_reduce_container env r (runReduce env c r mapPath branches cohort)))"

subsection \<open>runMap\<close>

definition runMap :: "engine_env \<Rightarrow> ctx \<Rightarrow> map_spec \<Rightarrow> node list \<Rightarrow> string \<Rightarrow> (ctx \<Rightarrow> string \<Rightarrow> P) \<Rightarrow> P" where
  "runMap env c v nodes mapPath body =
     (if \<not> e_local env then infra ''map requires the local dispatcher''
      else read (\<lambda>w. case resolveOverItems v (Resolve (scope_of env w (mapPath @ ''.over''))) of
        Inl e \<Rightarrow> failStep env mapPath OutcomePermanentFailure (Some e)
      | Inr (VArray xs) \<Rightarrow>
          if xs = [] then Ret (OutcomeOK, None)
          else read (\<lambda>w. let items = LookupMapItems (w_rs w) mapPath
            in fill_values mapPath xs items (
                 if int (length xs) \<le> max_committed items then infra ''non-deterministic over''
                 else let go = (\<lambda>stepID. run_items env c v mapPath stepID xs items body
                                  (\<lambda>cohort. case mp_Reduce v of None \<Rightarrow> infra ''no reduce'' | Some r \<Rightarrow> runMapReduce env c r nodes mapPath cohort))
                      in if mp_Prune v = None then go []
                         else (case LastStepID nodes of
                                 None \<Rightarrow> failStep env mapPath OutcomePermanentFailure (Some (ErrCause ''last node is not a step''))
                               | Some stepID \<Rightarrow> go stepID)))
      | Inr _ \<Rightarrow> failStep env mapPath OutcomePermanentFailure (Some (ErrCause ''over is not an array''))))"

end
