(* ===== verification/Engine_Agent.thy ===== *)
theory Engine_Agent
  imports Engine_React
begin

text \<open>
  The agent step (src/engine/agent_step.go) and its skills (src/engine/skills.go): what the step
  resolves before it is dispatched (configuration, feedback of the enclosing gate, the conversation it
  continues, files, skills, session directories), the dispatch with the live event sink, and the
  commit. The adapter behind the dispatcher is a parameter; metrics and the output tap are not kept.
\<close>

subsection \<open>Configuration\<close>

definition defaultIdleCoarse :: duration where "defaultIdleCoarse = 300 * 1000000000"

definition effectiveRecovery :: "string \<Rightarrow> bool \<Rightarrow> string" where
  "effectiveRecovery authored persistentSession =
     (if authored \<noteq> [] then authored else if persistentSession then ''continue'' else ''restart'')"

fun substituteRawConfig :: "(string \<times> goval) list \<Rightarrow> scope \<Rightarrow> eval_error + (string \<times> goval) list" where
  "substituteRawConfig [] sc = Inr []"
| "substituteRawConfig ((k, v) # kvs) sc =
     rbind (case v of VString s \<Rightarrow> rbind (Substitute s sc) (\<lambda>sub. Inr (VString sub)) | _ \<Rightarrow> Inr v) (\<lambda>v'.
     rbind (substituteRawConfig kvs sc) (\<lambda>rest. Inr ((k, v') # rest)))"

text \<open>\<open>AgentRuntimeRef\<close> in the top-level module is the name itself.\<close>

definition supportedMIME :: "string list" where
  "supportedMIME = [''application/pdf'', ''image/png'', ''image/jpeg'', ''image/webp'', ''image/gif'']"

definition DetectMIME :: "engine_env \<Rightarrow> string \<Rightarrow> string option" where
  "DetectMIME env content =
     (let m = e_contentType env content;
          m = (case indexOf m '';'' of None \<Rightarrow> m | Some i \<Rightarrow> take i m)
      in if m \<in> set supportedMIME then Some m else None)"

fun containerless_files :: "engine_env \<Rightarrow> scope_state \<Rightarrow> getter \<Rightarrow> run_asset pmap \<Rightarrow> string pmap \<Rightarrow> string list \<Rightarrow>
    stage_error + (string \<times> string \<times> string) list" where
  "containerless_files env s get assets inp [] = Inr []"
| "containerless_files env s get assets inp (label # labels) =
     rbind (resolveSingleRefBytes (e_jcs env) (the (map_of inp label)) s RootModuleID get assets) (\<lambda>(_, b).
     case DetectMIME env b of
       None \<Rightarrow> Inl StageError
     | Some m \<Rightarrow> rbind (containerless_files env s get assets inp labels) (\<lambda>rest. Inr ((label, b, m) # rest)))"

definition resolveContainerlessInputFiles :: "engine_env \<Rightarrow> string pmap \<Rightarrow> scope_state \<Rightarrow> getter \<Rightarrow> run_asset pmap \<Rightarrow>
    stage_error + (string \<times> string \<times> string) list" where
  "resolveContainerlessInputFiles env inp s get assets = containerless_files env s get assets inp (slices_Sort (map fst inp))"

subsection \<open>Skills\<close>

definition RouterName :: string where "RouterName = ''bm25''"

definition RouterVersion :: string where "RouterVersion = ''bm25-weighted-v1''"

definition RouterParams :: "(string \<times> rat) list" where
  "RouterParams = [(''b'', the bm25B), (''k1'', the bm25K1), (''path_weight'', of_int PathWeight),
     (''skill_md_weight'', of_int SkillMDWeight), (''text_file_weight'', of_int TextFileWeight),
     (''text_like_percent'', of_nat TextLikePercent)]"

fun read_skill_files :: "getter \<Rightarrow> asset_file list \<Rightarrow> stage_error + skill_file list" where
  "read_skill_files get [] = Inr []"
| "read_skill_files get (f # fs) =
     rbind (readRunStartedAssetFile get f) (\<lambda>b.
     rbind (read_skill_files get fs) (\<lambda>rest. Inr (\<lparr>sf_Path = af_Path f, sf_Content = b\<rparr> # rest)))"

definition buildSkillCorpus :: "engine_env \<Rightarrow> string \<Rightarrow> run_asset pmap \<Rightarrow> getter \<Rightarrow> stage_error + corpus" where
  "buildSkillCorpus env library assets get =
     (case map_of (e_skills env) library of
        None \<Rightarrow> Inl StageError
      | Some from \<Rightarrow>
          (case ParseAssetRef from of
             None \<Rightarrow> Inl StageError
           | Some assetID \<Rightarrow>
               (case map_of assets (QualifiedAssetKey RootModuleID assetID) of
                  None \<Rightarrow> Inl FetchError
                | Some asset \<Rightarrow>
                    if \<not> ra_IsDir asset then Inl FetchError
                    else rbind (read_skill_files get (ra_Files asset)) (\<lambda>files.
                         case NewCorpus (e_runes env) files of Inl _ \<Rightarrow> Inl StageError | Inr c \<Rightarrow> Inr c))))"

definition skillsSelectedMetadata :: "string \<Rightarrow> corpus \<Rightarrow> skills_selected" where
  "skillsSelectedMetadata library c = \<lparr>sl_Library = library, sl_LibraryDigest = co_digest c, sl_Router = RouterName,
     sl_RouterVersion = RouterVersion, sl_RouterParams = RouterParams, sl_Selected = []\<rparr>"

definition sameSkillsSelectedMetadata :: "skills_selected \<Rightarrow> skills_selected \<Rightarrow> bool" where
  "sameSkillsSelectedMetadata a b = (a\<lparr>sl_Selected := []\<rparr> = b\<lparr>sl_Selected := []\<rparr>)"

definition validateRecordedSelectedSkills :: "selected_skill list \<Rightarrow> corpus \<Rightarrow> bool" where
  "validateRecordedSelectedSkills sel c = (sel \<noteq> [] \<and> selected_ok [] sel \<and> list_all (\<lambda>s. sk_ID s \<in> set (co_skillIDs c)) sel)"

definition appendSkillsSelected :: "engine_env \<Rightarrow> string \<Rightarrow> skills_selected \<Rightarrow> (bool \<Rightarrow> P) \<Rightarrow> P" where
  "appendSkillsSelected env path d k = log_append env path (SkillsSelected d) (\<lambda>ok. if \<not> ok then k False else log_sync env k)"

text \<open>
  \<open>selectAgentStepSkills\<close> with the error handling of its caller: the selection recorded in the
  journal, if it still fits the library, or a new one that is journalled before it is used.
\<close>

definition route_skills :: "engine_env \<Rightarrow> skill_routing \<Rightarrow> string \<Rightarrow> corpus \<Rightarrow> (skills_selected \<Rightarrow> P) \<Rightarrow> P" where
  "route_skills env sr path c k =
     read (\<lambda>w. case Substitute (sr_Query sr) (Resolve (scope_of env w path)) of
       Inl e \<Rightarrow> failStep env path OutcomePermanentFailure (Some (ErrEval e))
     | Inr query \<Rightarrow>
         let sel = Route (e_runes env) (e_ln64 env) c query (sr_Limit sr);
             d = (skillsSelectedMetadata (sr_From sr) c)\<lparr>sl_Selected := sel\<rparr>
         in if sel = [] then failStep env path OutcomePermanentFailure (Some (ErrCause ''no skills matched''))
            else appendSkillsSelected env path d (\<lambda>ok.
              if \<not> ok then infra ''skills.selected'' else upd_rs (RecordSelectedSkills path d) (k d)))"

definition selectAgentStepSkills :: "engine_env \<Rightarrow> skill_routing \<Rightarrow> string \<Rightarrow> (skills_selected \<Rightarrow> corpus \<Rightarrow> P) \<Rightarrow> P" where
  "selectAgentStepSkills env sr path k =
     read (\<lambda>w. case buildSkillCorpus env (sr_From sr) (Assets (w_rs w)) (getter_of w) of
       Inl e \<Rightarrow> stage_failed env path ''select skills'' e
     | Inr c \<Rightarrow>
         read (\<lambda>w. case LookupSelectedSkills (w_rs w) path of
           Some recorded \<Rightarrow>
             if \<not> sameSkillsSelectedMetadata recorded (skillsSelectedMetadata (sr_From sr) c) then infra ''skills.selected metadata mismatch''
             else if \<not> validateRecordedSelectedSkills (sl_Selected recorded) c then infra ''invalid skills.selected selection''
             else k recorded c
         | None \<Rightarrow> route_skills env sr path c (\<lambda>d. k d c)))"

fun skill_files :: "skills_selected \<Rightarrow> corpus \<Rightarrow> string \<Rightarrow> selected_skill list \<Rightarrow> resolved_input list option" where
  "skill_files d c into [] = Some []"
| "skill_files d c into (s # ss) =
     (case StageFiles c (sk_ID s) into of
        None \<Rightarrow> None
      | Some files \<Rightarrow>
          if list_all (\<lambda>f. path_IsAbs (sf_Path f) \<and> sf_Path f = path_Clean (sf_Path f)) files
          then map_option (\<lambda>rest. map (\<lambda>f. \<lparr>ri_Path = sf_Path f, ri_Content = sf_Content f,
                   ri_source = ''skills.'' @ sl_Library d @ ''.'' @ sk_ID s, ri_ref = []\<rparr>) files @ rest) (skill_files d c into ss)
          else None)"

definition resolveSelectedSkillFiles :: "skills_selected \<Rightarrow> corpus \<Rightarrow> string \<Rightarrow> resolved_input list option" where
  "resolveSelectedSkillFiles d c into = skill_files d c into (sl_Selected d)"

subsection \<open>The conversation\<close>

definition agentStepByID :: "node list \<Rightarrow> agent_step pmap" where
  "agentStepByID graph = fold (\<lambda>(n, _) m. case n of AgentStep v \<Rightarrow> pm_put (as_ID v) v m | _ \<Rightarrow> m) (WalkNodes 0 graph []) []"

definition threadTargets :: "node list \<Rightarrow> string list" where
  "threadTargets graph = concat (map (\<lambda>(n, _). case n of AgentStep v \<Rightarrow> if as_Continues v \<noteq> [] then [as_Continues v] else [] | _ \<Rightarrow> [])
     (WalkNodes 0 graph []))"

text \<open>The turn of a step: what was asked and what was answered; both empty when none was committed.\<close>

definition turn_of :: "goval option \<Rightarrow> string \<times> string" where
  "turn_of v = (asString (out_field v ''user''), asString (out_field v ''assistant''))"

text \<open>
  The loop over the chain of \<open>continues\<close>, the oldest turn first. The first argument bounds the number
  of rounds: a chain that uses it up has come back to a step it has already passed, and the loop of the
  program would then never end.
\<close>

fun continued_turns :: "nat \<Rightarrow> scope_state \<Rightarrow> string \<Rightarrow> (string \<times> string) list \<Rightarrow> gerr + (string \<times> string) list" where
  "continued_turns 0 s cur acc = Inl ErrFuel"
| "continued_turns (Suc n) s cur acc =
     (if cur = [] then Inr acc
      else case stepRuntimePath s (case map_of (StepPathIndex (sc_graph s)) cur of None \<Rightarrow> [] | Some p \<Rightarrow> p) of
             Inl _ \<Rightarrow> Inl (ErrCause ''resolve continues target'')
           | Inr path \<Rightarrow>
               (case LookupCompleted (sc_rs s) path of
                  None \<Rightarrow> Inl (ErrCause ''continues target not committed'')
                | Some nr \<Rightarrow>
                    let t = turn_of (nr_Transcript nr)
                    in if t = ([], []) then Inl (ErrCause ''continues target has no committed transcript'')
                       else continued_turns n s
                              (case map_of (agentStepByID (sc_graph s)) cur of None \<Rightarrow> [] | Some tgt \<Rightarrow> as_Continues tgt) (t # acc)))"

definition thread_of :: "scope_state \<Rightarrow> agent_step \<Rightarrow> gerr + (string \<times> string) list" where
  "thread_of s v = continued_turns (length (agentStepByID (sc_graph s)) + 2) s (as_Continues v) []"

text \<open>
  A chain of \<open>continues\<close> that does not come back to a step it has passed. When every chain of a graph
  ends, the bound of \<open>thread_of\<close> is never reached.
\<close>

fun chain_ends :: "nat \<Rightarrow> node list \<Rightarrow> string \<Rightarrow> bool" where
  "chain_ends 0 graph cur = False"
| "chain_ends (Suc n) graph cur =
     (cur = [] \<or> chain_ends n graph (case map_of (agentStepByID graph) cur of None \<Rightarrow> [] | Some tgt \<Rightarrow> as_Continues tgt))"

definition continues_end :: "node list \<Rightarrow> bool" where
  "continues_end graph = list_all (chain_ends (length (agentStepByID graph) + 1) graph) (map fst (agentStepByID graph))"

lemma chain_ends_more: "chain_ends n graph cur \<Longrightarrow> chain_ends (Suc n) graph cur"
  by (induction n arbitrary: cur) auto

lemma continued_turns_ends: "chain_ends n (sc_graph s) cur \<Longrightarrow> continued_turns n s cur acc \<noteq> Inl ErrFuel"
  by (induction n arbitrary: cur acc) (auto simp: Let_def split: sum.split option.split)

lemma thread_of_ends:
  assumes "continues_end (sc_graph s)"
  shows "thread_of s v \<noteq> Inl ErrFuel"
  unfolding thread_of_def
proof (rule continued_turns_ends)
  show "chain_ends (length (agentStepByID (sc_graph s)) + 2) (sc_graph s) (as_Continues v)"
  proof (cases "map_of (agentStepByID (sc_graph s)) (as_Continues v)")
    case (Some tgt)
    then have "as_Continues v \<in> set (map fst (agentStepByID (sc_graph s)))" by (force dest: map_of_SomeD)
    with assms have "chain_ends (length (agentStepByID (sc_graph s)) + 1) (sc_graph s) (as_Continues v)"
      unfolding continues_end_def list_all_iff by blast
    from chain_ends_more [OF this] show ?thesis by simp
  qed simp
qed

lemma thread_of_errors: "thread_of s v = Inl e \<Longrightarrow> e = ErrFuel \<or> (\<exists>m. e = ErrCause m)"
proof -
  have "continued_turns n s cur acc = Inl e \<Longrightarrow> e = ErrFuel \<or> (\<exists>m. e = ErrCause m)" for n cur acc
    by (induction n arbitrary: cur acc) (auto simp: Let_def split: sum.splits option.splits if_splits)
  then show "thread_of s v = Inl e \<Longrightarrow> ?thesis" unfolding thread_of_def by blast
qed

definition gate_feedback :: "run_state \<Rightarrow> string \<Rightarrow> (string \<times> goval) list" where
  "gate_feedback rs path =
     (case enclosingGateForEvaluate path of
        None \<Rightarrow> []
      | Some gatePath \<Rightarrow>
          let attempts = LookupGateAttempts rs gatePath
          in if attempts = [] then []
             else (case map_value (at_Verdict (last attempts)) of VObject kvs \<Rightarrow> kvs | _ \<Rightarrow> []))"

subsection \<open>The dispatch\<close>

definition agent_caps :: "engine_env \<Rightarrow> string \<Rightarrow> adapter_caps option" where
  "agent_caps env uses = (if e_resolver env then e_adapter env uses else None)"

definition agent_policy :: "engine_env \<Rightarrow> agent_step \<Rightarrow> policy \<Rightarrow> policy" where
  "agent_policy env v pol = pol\<lparr>Recovery := effectiveRecovery (Recovery pol)
     (case agent_caps env (as_Uses v) of None \<Rightarrow> False | Some caps \<Rightarrow> ac_PersistentSession caps)\<rparr>"

definition agent_idle :: "engine_env \<Rightarrow> agent_step \<Rightarrow> duration" where
  "agent_idle env v =
     (case (case as_Timeout v of None \<Rightarrow> None | Some t \<Rightarrow> Idle t) of
        Some d \<Rightarrow> d
      | None \<Rightarrow> (case agent_caps env (as_Uses v) of
                   Some caps \<Rightarrow> if ac_SurfacesLiveness caps = LivenessCoarse then defaultIdleCoarse else 0
                 | None \<Rightarrow> 0))"

definition session_dirs :: "engine_env \<Rightarrow> agent_step \<Rightarrow> run_state \<Rightarrow> string \<times> string" where
  "session_dirs env v rs =
     (case agent_caps env (as_Uses v) of
        None \<Rightarrow> ([], [])
      | Some caps \<Rightarrow>
          if \<not> ac_Containerless caps \<and> (ac_IsolatedConfigDir caps \<or> ac_PersistentSession caps)
          then let dir = dispatcherStagingRoot env @ ''/claude-session/'' @ RunID rs
               in (dir, if ac_PersistentSession caps then dir @ ''/projects'' else [])
          else ([], []))"

definition agent_intent :: "engine_env \<Rightarrow> agent_step \<Rightarrow> string \<Rightarrow> policy \<Rightarrow> string \<Rightarrow> (string \<times> string) list \<Rightarrow>
    (string \<times> output_contract option) list \<Rightarrow> agent_inputs \<Rightarrow> node_intent" where
  "agent_intent env v path pol idemKey inputFiles outputFiles ai =
     \<lparr>ni_Path = path, ni_Node = AgentStep v, ni_Command = [], ni_Env = [], ni_OutputFiles = outputFiles,
      ni_OutputSchema = as_OutputSchema v, ni_NonRetryableExitCodes = NonRetryableExitCodes pol,
      ni_Snapshot = e_snapshot env (fst (SplitContainerRef (as_Container v))), ni_InputFiles = inputFiles,
      ni_Timeout = (case as_Timeout v of None \<Rightarrow> 0 | Some t \<Rightarrow> (case Wall t of None \<Rightarrow> 0 | Some d \<Rightarrow> d)),
      ni_IdleTimeout = agent_idle env v, ni_IdempotencyKey = idemKey, ni_RecoveryContinue = False, ni_Attempt = 0,
      ni_Agent = ai, ni_Sink = True\<rparr>"

text \<open>After the commit: the finalizer of a live session, whose failure is only noted.\<close>

definition finalizer_notice :: "string \<Rightarrow> agent_event" where
  "finalizer_notice msg = \<lparr>ev_Kind = ''live.finalizer.warning'', ev_Payload = msg, ev_Stream = ''stderr'', ev_Live = True,
     ev_Display = \<lparr>di_Class = DisplayNotice, di_Tool = [], di_Text = msg, di_Lines = 0, di_Bytes = 0, di_IsError = False\<rparr>\<rparr>"

definition finalize_live :: "engine_env \<Rightarrow> string \<Rightarrow> dispatch_result \<Rightarrow> P" where
  "finalize_live env path dr =
     (case (dr_Live dr, e_liveFinalizer env) of
        (Some rec, Some f) \<Rightarrow> Act (\<lambda>w.
          (case f (w_tick w) rec of
             None \<Rightarrow> Ret (OutcomeOK, None)
           | Some msg \<Rightarrow> appendAgentEvents env path [finalizer_notice msg] (\<lambda>_. Ret (OutcomeOK, None)), ticked w))
      | _ \<Rightarrow> Ret (OutcomeOK, None))"

definition commit_agent :: "engine_env \<Rightarrow> agent_step \<Rightarrow> string \<Rightarrow> dispatch_result \<Rightarrow> P" where
  "commit_agent env v path dr =
     Commit env path dr (as_ID v \<in> set (threadTargets (e_graph env))) (\<lambda>r.
       case r of
         None \<Rightarrow> infra ''commit agent''
       | Some nr \<Rightarrow> upd_rs (RecordCompleted path nr) (finalize_live env path dr))"

text \<open>The sink is closed, the events of the result are journalled, and only then the result counts.\<close>

definition agent_result :: "engine_env \<Rightarrow> ctx \<Rightarrow> agent_step \<Rightarrow> string \<Rightarrow> dispatch_result \<times> gerr option \<Rightarrow> P" where
  "agent_result env c v path = (\<lambda>(dr, runErr).
     if runErr = Some ErrSink then infra ''live agent.event sink''
     else journal_live env c path (\<lambda>sinkOk.
          appendAgentEvents env path (dr_AgentEvents dr) (\<lambda>appended.
            if \<not> sinkOk then infra ''live agent.event sink''
            else case runErr of
                   Some e \<Rightarrow> if dr_Outcome dr = NoOutcome then infra ''dispatch agent'' else failStep env path (dr_Outcome dr) (Some e)
                 | None \<Rightarrow> if \<not> appended then infra ''append agent.event entries'' else commit_agent env v path dr)))"

definition run_agent :: "engine_env \<Rightarrow> ctx \<Rightarrow> agent_step \<Rightarrow> string \<Rightarrow> policy \<Rightarrow> node_intent \<Rightarrow> P" where
  "run_agent env c v path pol intent = Act (\<lambda>w.
     (appendNodeStarted env path ''agent''
        (RunWithRetry env (w_ctxs w # c) intent pol (agent_result env (w_ctxs w # c) v path)),
      w\<lparr>w_ctxs := Suc (w_ctxs w)\<rparr>))"

definition agent_inputs_of :: "engine_env \<Rightarrow> agent_step \<Rightarrow> string \<Rightarrow> run_state \<Rightarrow> (string \<times> goval) list \<Rightarrow> (string \<times> goval) list \<Rightarrow>
    (string \<times> string) list \<Rightarrow> (string \<times> string \<times> string) list \<Rightarrow> agent_inputs" where
  "agent_inputs_of env v path rs resolvedWith roleWith turns files =
     \<lparr>ai_Uses = as_Uses v, ai_With = resolvedWith, ai_RoleWith = roleWith, ai_WorkflowDir = e_workflowDir env,
      ai_OutputArtifact = as_OutputArtifact v, ai_Feedback = gate_feedback rs path,
      ai_Thread = (if isGateEvaluateContext path then [] else turns),
      ai_ContextEvidence = (if isGateEvaluateContext path then turns else []), ai_ContainerlessFiles = files,
      ai_SessionConfigDirRel = fst (session_dirs env v rs), ai_SessionDir = snd (session_dirs env v rs),
      ai_IsGateEvaluate = isGateEvaluateContext path, ai_RunID = RunID rs, ai_CurrentEpoch = rs_Epoch rs, ai_NextEpoch = rs_Epoch rs\<rparr>"

text \<open>From the staged files on.\<close>

definition launch_agent :: "engine_env \<Rightarrow> ctx \<Rightarrow> agent_step \<Rightarrow> string \<Rightarrow> policy \<Rightarrow> (string \<times> goval) list \<Rightarrow> string \<Rightarrow>
    (string \<times> string) list \<Rightarrow> (string \<times> string \<times> string) list \<Rightarrow> (string \<times> string) list \<Rightarrow> P" where
  "launch_agent env c v path pol resolvedWith idemKey turns files inputFiles =
     read (\<lambda>w. case resolveOutputFiles (e_compiles env) (e_unmarshal env) (as_OutputFiles v)
                       (Resolve (scope_of env w path)) RootModuleID (Assets (w_rs w)) (getter_of w) of
       Inl e \<Rightarrow> stage_failed env path ''resolve output_files contracts'' e
     | Inr outputFiles \<Rightarrow>
     read (\<lambda>w. case (if agent_caps env (as_Uses v) = None then Inr []
                     else substituteRawConfig (e_roleWith env (as_Uses v)) (Resolve (scope_of env w path))) of
       Inl e \<Rightarrow> failStep env path OutcomePermanentFailure (Some (ErrEval e))
     | Inr roleWith \<Rightarrow>
     read (\<lambda>w. run_agent env c v path (agent_policy env v pol)
       (agent_intent env v path (agent_policy env v pol) idemKey inputFiles outputFiles
         (agent_inputs_of env v path (w_rs w) resolvedWith roleWith turns files)))))"

definition stage_agent :: "engine_env \<Rightarrow> agent_step \<Rightarrow> string \<Rightarrow> (skills_selected \<times> corpus) option \<Rightarrow>
    ((string \<times> string \<times> string) list \<Rightarrow> (string \<times> string) list \<Rightarrow> P) \<Rightarrow> P" where
  "stage_agent env v path skills k =
     (if as_Container v = [] then
        read (\<lambda>w. case resolveContainerlessInputFiles env (as_InputFiles v) (scope_of env w path) (getter_of w) (Assets (w_rs w)) of
          Inl e \<Rightarrow> stage_failed env path ''stage input_files'' e
        | Inr files \<Rightarrow> k files [])
      else
        read (\<lambda>w. case resolveInputFileEntries (e_jcs env) (as_InputFiles v) (scope_of env w path) RootModuleID
                          (getter_of w) (Assets (w_rs w)) of
          Inl e \<Rightarrow> stage_failed env path ''stage input_files'' e
        | Inr entries \<Rightarrow>
            (case (case (as_Skills v, skills) of
                     (Some sr, Some (d, c)) \<Rightarrow> map_option (\<lambda>fs. entries @ fs) (resolveSelectedSkillFiles d c (sr_Into sr))
                   | _ \<Rightarrow> Some entries) of
               None \<Rightarrow> failStep env path OutcomePermanentFailure (Some ErrStage)
             | Some entries \<Rightarrow>
                 (case inputFilesFromResolvedEntries entries of
                    Inl _ \<Rightarrow> failStep env path OutcomePermanentFailure (Some ErrStage)
                  | Inr inputFiles \<Rightarrow> k [] inputFiles))))"

definition with_skills :: "engine_env \<Rightarrow> agent_step \<Rightarrow> string \<Rightarrow> ((skills_selected \<times> corpus) option \<Rightarrow> P) \<Rightarrow> P" where
  "with_skills env v path k =
     (case as_Skills v of
        None \<Rightarrow> k None
      | Some sr \<Rightarrow>
          if as_Container v = []
          then failStep env path OutcomePermanentFailure (Some (ErrCause ''skills requires a container''))
          else selectAgentStepSkills env sr path (\<lambda>d c. k (Some (d, c))))"

definition runAgentStep :: "engine_env \<Rightarrow> ctx \<Rightarrow> agent_step \<Rightarrow> string \<Rightarrow> P" where
  "runAgentStep env c v path =
     read (\<lambda>w. if LookupCompleted (w_rs w) path \<noteq> None then Ret (OutcomeOK, None) else
     read (\<lambda>w. case substituteRawConfig (as_With v) (Resolve (scope_of env w path)) of
       Inl e \<Rightarrow> failStep env path OutcomePermanentFailure (Some (ErrEval e))
     | Inr resolvedWith \<Rightarrow>
     read (\<lambda>w. case (case as_IdempotencyKey v of
                       None \<Rightarrow> Inr []
                     | Some t \<Rightarrow> Substitute t (Resolve (scope_of env w path))) of
       Inl e \<Rightarrow> failStep env path OutcomePermanentFailure (Some (ErrEval e))
     | Inr idemKey \<Rightarrow>
     (case Merge AgentDefault (as_Retry v) of
       Inl _ \<Rightarrow> infra ''build retry policy''
     | Inr pol \<Rightarrow>
     with_skills env v path (\<lambda>skills.
     read (\<lambda>w. case thread_of (scope_of env w path) v of
       Inl ErrFuel \<Rightarrow> Ret (NoOutcome, Some ErrFuel)
     | Inl e \<Rightarrow> failStep env path OutcomePermanentFailure (Some e)
     | Inr turns \<Rightarrow>
     stage_agent env v path skills (\<lambda>files inputFiles.
       launch_agent env c v path pol resolvedWith idemKey turns files inputFiles)))))))"

end
