(* ===== verification/Engine.thy ===== *)
theory Engine
  imports Engine_Map Engine_Agent
begin

text \<open>
  The interpreter: \<open>Run\<close>, \<open>interpNodes\<close> and the control nodes (src/engine/interpreter.go,
  src/engine/gate.go, src/engine/try.go, src/engine/parallel.go, src/engine/skip.go) and the control
  poller (src/engine/controls.go). A loop with only a condition may run forever, so it takes
  \<open>e_fuel\<close> as a bound and reports \<open>ErrFuel\<close>; with \<open>max_iters\<close> the bound is the number of iterations
  left and is never the cause of an error. The branches of \<open>parallel\<close> are the branches of a \<open>Par\<close>;
  a context is the list of the cancellable contexts it derives from, so \<open>context.WithoutCancel\<close> is
  the empty list. Call and compose nodes are the parameter \<open>e_other\<close>.
\<close>

subsection \<open>Control nodes over the programs of their bodies\<close>

definition runSkip :: "string \<Rightarrow> P" where
  "runSkip reason = Ret (OutcomeOK, Some (ErrSkip reason))"

text \<open>\<open>runIf\<close>: the branch recorded or decided now, then its body.\<close>

definition take_branch :: "string \<Rightarrow> P \<Rightarrow> P \<Rightarrow> P" where
  "take_branch which thenP elseP =
     (if which = ''then'' then thenP else if which = ''else'' then elseP else infra ''unknown branch'')"

definition runIf :: "engine_env \<Rightarrow> string \<Rightarrow> string \<Rightarrow> P \<Rightarrow> P \<Rightarrow> P" where
  "runIf env cond path thenP elseP =
     read (\<lambda>w. case LookupBranch (w_rs w) path of
       Some which \<Rightarrow> take_branch which thenP elseP
     | None \<Rightarrow>
         read (\<lambda>w. case EvalBoolString cond (Resolve (scope_of env w path)) of
           Inl e \<Rightarrow> failStep env path OutcomePermanentFailure (Some (ErrEval e))
         | Inr b \<Rightarrow>
             let which = (if b then ''then'' else ''else'')
             in log_append env path (BranchTaken which) (\<lambda>ok.
                  if \<not> ok then infra ''append branch.taken''
                  else upd_rs (RecordBranch path which) (take_branch which thenP elseP))))"

text \<open>\<open>runLoop\<close>: one iteration after the other, from \<open>k\<close>.\<close>

fun loop_from :: "nat \<Rightarrow> engine_env \<Rightarrow> string option \<Rightarrow> int option \<Rightarrow> string \<Rightarrow> (string \<Rightarrow> P) \<Rightarrow> int \<Rightarrow> P" where
  "loop_from 0 env until maxIters path body k = Ret (NoOutcome, Some ErrFuel)"
| "loop_from (Suc n) env until maxIters path body k =
     (let bodyParent = IterPath (path @ ''.body'') k;
          finish = log_append env path (LoopIter k) (\<lambda>ok.
            if \<not> ok then infra ''append loop.iter''
            else upd_rs (RecordLoopIter path k) (
              let next = (if (case maxIters of None \<Rightarrow> False | Some m \<Rightarrow> m \<le> k) then Ret (OutcomeOK, None)
                          else loop_from n env until maxIters path body (k + 1))
              in case until of
                   None \<Rightarrow> next
                 | Some u \<Rightarrow> read (\<lambda>w. case EvalBoolString u (Resolve (scope_of env w bodyParent)) of
                     Inl e \<Rightarrow> failStep env path OutcomePermanentFailure (Some (ErrEval e))
                   | Inr done \<Rightarrow> if done then Ret (OutcomeOK, None) else next)))
      in seq (body bodyParent) (\<lambda>(oc, err).
           case err of
             Some (ErrSkip reason) \<Rightarrow> appendNodeSkipped env bodyParent reason (\<lambda>ok.
               if \<not> ok then infra ''append node.skipped'' else finish)
           | Some e \<Rightarrow> Ret (oc, Some e)
           | None \<Rightarrow> if oc \<noteq> OutcomeOK then Ret (oc, None) else finish))"

definition loop_fuel :: "engine_env \<Rightarrow> int option \<Rightarrow> int \<Rightarrow> nat" where
  "loop_fuel env maxIters startK = (case maxIters of Some m \<Rightarrow> Suc (nat (m - startK)) | None \<Rightarrow> e_fuel env)"

definition runLoop :: "engine_env \<Rightarrow> string option \<Rightarrow> int option \<Rightarrow> string \<Rightarrow> (string \<Rightarrow> P) \<Rightarrow> P" where
  "runLoop env until maxIters path body =
     (if until = None \<and> maxIters = None then infra ''loop without until or max_iters''
      else read (\<lambda>w. let startK = LookupLoopIters (w_rs w) path + 1
                     in loop_from (loop_fuel env maxIters startK) env until maxIters path body startK))"

text \<open>\<open>runTry\<close>: the error to return, after \<open>catch\<close> and the skip's event; then \<open>finally\<close>.\<close>

definition try_tail :: "ctx \<Rightarrow> gerr option \<Rightarrow> result \<Rightarrow> P" where
  "try_tail c pendingErr propagated =
     (if pendingErr \<noteq> None then Ret (NoOutcome, pendingErr)
      else read (\<lambda>w. if ctx_err c w then Ret (OutcomeRetryableFailure, Some ErrCtx) else Ret propagated))"

definition try_finally :: "ctx \<Rightarrow> P option \<Rightarrow> gerr option \<Rightarrow> result \<Rightarrow> P" where
  "try_finally c finallyP pendingErr propagated =
     (case finallyP of
        None \<Rightarrow> try_tail c pendingErr propagated
      | Some f \<Rightarrow> seq f (\<lambda>(oc, err). if err \<noteq> None then Ret (oc, err) else try_tail c pendingErr propagated))"

definition runTry :: "engine_env \<Rightarrow> ctx \<Rightarrow> string \<Rightarrow> P \<Rightarrow> P option \<Rightarrow> P option \<Rightarrow> P" where
  "runTry env c path doP catchP finallyP =
     seq doP (\<lambda>(doOC, doErr).
       case doErr of
         Some (ErrSkip reason) \<Rightarrow>
           appendNodeSkipped env path reason (\<lambda>ok.
             try_finally c finallyP (if ok then None else Some (ErrInfra ''append node.skipped''))
               (OutcomeOK, doErr))
       | _ \<Rightarrow>
           if doErr \<noteq> None \<and> isTypedFailureOutcome doOC \<and> catchP \<noteq> None
           then seq (the catchP) (\<lambda>propagated. try_finally c finallyP None propagated)
           else try_finally c finallyP None (doOC, doErr))"

text \<open>A branch of \<open>parallel\<close>: its result goes to the slot of the branch, an error cancels the group.\<close>

definition cancel_ctx :: "nat \<Rightarrow> P \<Rightarrow> P" where
  "cancel_ctx i p = upd (\<lambda>w. w\<lparr>w_cancelled := i # w_cancelled w\<rparr>) p"

definition branch_end :: "engine_env \<Rightarrow> nat \<Rightarrow> string \<Rightarrow> result \<Rightarrow> P" where
  "branch_end env gid path = (\<lambda>(oc, err).
     case err of
       Some (ErrSkip reason) \<Rightarrow> appendNodeSkipped env path reason (\<lambda>ok.
         if \<not> ok then cancel_ctx gid (infra ''append node.skipped'') else Ret (OutcomeOK, None))
     | Some e \<Rightarrow> cancel_ctx gid (Ret (oc, Some e))
     | None \<Rightarrow> Ret (oc, None))"

definition join_branches :: "result list \<Rightarrow> P" where
  "join_branches vs = (case find (\<lambda>(oc, err). err \<noteq> None) vs of None \<Rightarrow> Ret (OutcomeOK, None) | Some r \<Rightarrow> Ret r)"

text \<open>\<open>lastEvaluatorPath\<close>.\<close>

definition lastEvaluatorPath :: "node list \<Rightarrow> string \<Rightarrow> string option" where
  "lastEvaluatorPath evaluate evaluatePath =
     (if evaluate = [] then None
      else let idx = length evaluate - 1
           in case last evaluate of
                CodeStep v \<Rightarrow> Some (PathFor evaluatePath [] (cs_ID v) idx)
              | AgentStep v \<Rightarrow> Some (PathFor evaluatePath [] (as_ID v) idx)
              | SignalStep v \<Rightarrow> Some (PathFor evaluatePath [] (ss_ID v) idx)
              | Map _ _ \<Rightarrow> Some (PathFor evaluatePath ''map'' [] idx)
              | _ \<Rightarrow> None)"

text \<open>\<open>runGate\<close>: the first argument is the number of attempts left, \<open>n\<close> the attempt.\<close>

definition gate_verdict :: "engine_env \<Rightarrow> node list \<Rightarrow> string \<Rightarrow> string \<Rightarrow> int \<Rightarrow> (bool \<Rightarrow> P) \<Rightarrow> P" where
  "gate_verdict env evaluate until gatePath n k =
     (let attemptPath = AttemptPath gatePath n
      in case lastEvaluatorPath evaluate (attemptPath @ ''.evaluate'') of
           None \<Rightarrow> infra ''last evaluator''
         | Some lastStepPath \<Rightarrow>
             read (\<lambda>w. case LookupCompleted (w_rs w) lastStepPath of
               None \<Rightarrow> infra ''last evaluator step not in Completed''
             | Some nr \<Rightarrow>
                 read (\<lambda>w. case EvalBoolString until (Resolve (scopeWithVerdict env w (attemptPath @ ''.until'') (nr_Outputs nr))) of
                   Inl e \<Rightarrow> failStep env gatePath OutcomePermanentFailure (Some (ErrEval e))
                 | Inr passed \<Rightarrow>
                     let oc = (if passed then AttemptPassed else AttemptRejected)
                     in log_append env gatePath (GateAttempt \<lparr>ga_N = n, ga_Outcome = oc, ga_VerdictRef = nr_OutputsRef nr\<rparr>) (\<lambda>ok.
                          if \<not> ok then infra ''append gate.attempt''
                          else log_sync env (\<lambda>ok.
                            if \<not> ok then infra ''sync gate.attempt''
                            else upd_rs (RecordGateAttempt gatePath \<lparr>at_N = n, at_Outcome = oc, at_Verdict = nr_Outputs nr\<rparr>)
                                   (k passed))))))"

text \<open>A part of an attempt: a skip ends the gate, a failure ends it with the failure.\<close>

definition gate_part :: "engine_env \<Rightarrow> string \<Rightarrow> P \<Rightarrow> P \<Rightarrow> P" where
  "gate_part env gatePath part next =
     seq part (\<lambda>(oc, err).
       case err of
         Some (ErrSkip reason) \<Rightarrow> appendNodeSkipped env gatePath reason (\<lambda>ok.
           if \<not> ok then infra ''append node.skipped'' else Ret (OutcomeOK, None))
       | Some e \<Rightarrow> Ret (oc, Some e)
       | None \<Rightarrow> if oc \<noteq> OutcomeOK then Ret (oc, None) else next)"

fun gate_from :: "nat \<Rightarrow> engine_env \<Rightarrow> node list \<Rightarrow> string \<Rightarrow> int \<Rightarrow> string \<Rightarrow> (string \<Rightarrow> P) \<Rightarrow> (string \<Rightarrow> P) \<Rightarrow> int \<Rightarrow> P" where
  "gate_from 0 env evaluate until maxAttempts gatePath gen ev n =
     Ret (OutcomeRejected, Some (ErrRejected gatePath n))"
| "gate_from (Suc m) env evaluate until maxAttempts gatePath gen ev n =
     gate_part env gatePath (gen (AttemptPath gatePath n @ ''.generate''))
    (gate_part env gatePath (ev (AttemptPath gatePath n @ ''.evaluate''))
    (gate_verdict env evaluate until gatePath n (\<lambda>passed.
       if passed then Ret (OutcomeOK, None)
       else if n = maxAttempts then Ret (OutcomeRejected, Some (ErrRejected gatePath n))
       else gate_from m env evaluate until maxAttempts gatePath gen ev (n + 1))))"

definition runGate ::
  "engine_env \<Rightarrow> node list \<Rightarrow> node list \<Rightarrow> string \<Rightarrow> int \<Rightarrow> string \<Rightarrow> (string \<Rightarrow> P) \<Rightarrow> (string \<Rightarrow> P) \<Rightarrow> P" where
  "runGate env generate evaluate until maxAttempts gatePath gen ev =
     (if generate = [] then infra ''empty generate''
      else if evaluate = [] then infra ''empty evaluate''
      else if maxAttempts < 1 then infra ''MaxAttempts''
      else read (\<lambda>w.
        let attempts = LookupGateAttempts (w_rs w) gatePath
        in if attempts \<noteq> [] \<and> at_Outcome (last attempts) = AttemptPassed then Ret (OutcomeOK, None)
           else let startN = int (length attempts) + 1
                in gate_from (nat (maxAttempts + 1 - startN)) env evaluate until maxAttempts gatePath gen ev startN))"

subsection \<open>The interpreter\<close>

fun interpNodes :: "engine_env \<Rightarrow> ctx \<Rightarrow> nat \<Rightarrow> node list \<Rightarrow> string \<Rightarrow> P"
  and interpNode :: "engine_env \<Rightarrow> ctx \<Rightarrow> nat \<Rightarrow> node \<Rightarrow> string \<Rightarrow> P"
  and interpBranches :: "engine_env \<Rightarrow> ctx \<Rightarrow> nat \<Rightarrow> nat \<Rightarrow> node list \<Rightarrow> string \<Rightarrow> P list"
where
  "interpNodes env c i [] parent = Ret (OutcomeOK, None)"
| "interpNodes env c i (n # ns) parent =
     seq (interpNode env c i n parent) (\<lambda>(oc, err).
       if oc \<noteq> OutcomeOK \<or> err \<noteq> None then Ret (oc, err) else interpNodes env c (Suc i) ns parent)"
| "interpNode env c i (CodeStep v) parent = runCodeStep env c v (PathFor parent [] (cs_ID v) i)"
| "interpNode env c i (SignalStep v) parent = runSignalStep env v (PathFor parent [] (ss_ID v) i)"
| "interpNode env c i (If cond th el) parent =
     (let path = PathFor parent ''if'' [] i
      in runIf env cond path (interpNodes env c 0 th (path @ ''.then'')) (interpNodes env c 0 el (path @ ''.else'')))"
| "interpNode env c i (Loop until maxIters body) parent =
     runLoop env until maxIters (PathFor parent ''loop'' [] i) (\<lambda>p. interpNodes env c 0 body p)"
| "interpNode env c i (Try d cat fin) parent =
     (let path = PathFor parent ''try'' [] i
      in runTry env c path (interpNodes env c 0 d (path @ ''.do''))
           (if cat = [] then None else Some (interpNodes env c 0 cat (path @ ''.catch'')))
           (if fin = [] then None else Some (interpNodes env [] 0 fin (path @ ''.finally''))))"
| "interpNode env c i (Parallel children) parent =
     (let path = PathFor parent ''parallel'' [] i
      in if children = [] then Ret (OutcomeOK, None)
         else Act (\<lambda>w. (Par (interpBranches env (w_ctxs w # c) (w_ctxs w) 0 children path) join_branches,
                        w\<lparr>w_ctxs := Suc (w_ctxs w)\<rparr>)))"
| "interpNode env c i (Gate g e u m) parent =
     runGate env g e u m (PathFor parent ''gate'' [] i) (\<lambda>p. interpNodes env c 0 g p) (\<lambda>p. interpNodes env c 0 e p)"
| "interpNode env c i (Skip reason) parent = runSkip reason"
| "interpNode env c i (AgentStep v) parent = runAgentStep env c v (PathFor parent [] (as_ID v) i)"
| "interpNode env c i (CallStep v) parent = e_other env (CallStep v) (PathFor parent [] (cl_ID v) i) c"
| "interpNode env c i (Map v body) parent =
     runMap env c v body (PathFor parent ''map'' [] i) (\<lambda>c' p. interpNodes env c' 0 body p)"
| "interpNode env c i (Compose v body) parent = e_other env (Compose v body) (PathFor parent ''compose'' [] i) c"
| "interpNode env c i (React v) parent = runReact env c v (PathFor parent ''react'' [] i)"
| "interpBranches env c gid i [] path = []"
| "interpBranches env c gid i (n # ns) path =
     seq (interpNode env c i n path) (branch_end env gid path) # interpBranches env c gid (Suc i) ns path"

subsection \<open>A run\<close>

text \<open>
  The control poller as moves of the environment: it decides on a cancel or pause request, then
  cancels the run's context; or it stops when the context is done.
\<close>

inductive control :: "world \<Rightarrow> world \<Rightarrow> bool" where
  cancel_request: "w_poll w = Polling \<Longrightarrow>
     control w (w\<lparr>w_rs := SetCancelReason reason (SetCancelled True (w_rs w)), w_poll := PollDecided\<rparr>)"
| pause_request: "w_poll w = Polling \<Longrightarrow>
     control w (w\<lparr>w_rs := SetPaused (Some pm) (w_rs w), w_poll := PollDecided\<rparr>)"
| poll_cancel: "w_poll w = PollDecided \<Longrightarrow>
     control w (w\<lparr>w_cancelled := w_runctx w # w_cancelled w, w_poll := PollOff\<rparr>)"
| poll_stop: "w_poll w = Polling \<Longrightarrow> w_runctx w \<in> set (w_cancelled w) \<Longrightarrow> control w (w\<lparr>w_poll := PollOff\<rparr>)"

definition validateRunResultPair :: "result \<Rightarrow> result" where
  "validateRunResultPair r = (case r of (oc, err) \<Rightarrow>
     if oc = OutcomeOK \<and> err = None then (oc, err)
     else if isTypedFailureOutcome oc \<and> err \<noteq> None then (oc, err)
     else if oc = NoOutcome \<and> err \<noteq> None then (oc, err)
     else (NoOutcome, Some (ErrInfra ''result invariant violated'')))"

definition appendTerminalControlEvents :: "engine_env \<Rightarrow> (gerr option \<Rightarrow> P) \<Rightarrow> P" where
  "appendTerminalControlEvents env k =
     read (\<lambda>w.
       if Cancelled (w_rs w) then
         appendSyncedEvent env (RunCancelled (CancelReason (w_rs w))) (\<lambda>ok.
           if ok then k (Some ErrCancelled) else k (Some (ErrInfra ''append run.cancelled'')))
       else case Paused (w_rs w) of
              Some pm \<Rightarrow> appendSyncedEvent env (RunPaused (pa_NodePath pm) (pa_Reason pm)) (\<lambda>ok.
                if ok then k (Some ErrPaused) else k (Some (ErrInfra ''append run.paused'')))
            | None \<Rightarrow> k None)"

text \<open>The end of \<open>Run\<close>: a skip that reached the root, then the poller is stopped and awaited.\<close>

definition finish_run :: "engine_env \<Rightarrow> nat \<Rightarrow> result \<Rightarrow> P" where
  "finish_run env rid r =
     cancel_ctx rid (upd (\<lambda>w. w\<lparr>w_poll := PollOff\<rparr>) (
       appendTerminalControlEvents env (\<lambda>termErr.
         Ret (validateRunResultPair (if termErr \<noteq> None then (NoOutcome, termErr) else r)))))"

definition run_graph :: "engine_env \<Rightarrow> P" where
  "run_graph env = Act (\<lambda>w.
     let rid = w_ctxs w
     in (seq (interpNodes env [rid] 0 (e_graph env) []) (\<lambda>(oc, err).
           case err of
             Some (ErrSkip reason) \<Rightarrow> appendNodeSkipped env [] reason (\<lambda>ok.
               if \<not> ok then cancel_ctx rid (infra ''append node.skipped'') else finish_run env rid (OutcomeOK, None))
           | _ \<Rightarrow> finish_run env rid (oc, err)),
         w\<lparr>w_ctxs := Suc rid, w_runctx := rid, w_poll := (if e_broker env then Polling else PollOff)\<rparr>))"

definition Run :: "engine_env \<Rightarrow> string \<Rightarrow> P" where
  "Run env rerunFrom =
     (case e_preflight env of
        Some e \<Rightarrow> Ret (NoOutcome, Some e)
      | None \<Rightarrow>
          if rerunFrom = [] then run_graph env
          else read (\<lambda>w. case ComputeRerunInvalidation (e_graph env) (w_rs w) rerunFrom of
                 Inl _ \<Rightarrow> infra ''rerun --from''
               | Inr paths \<Rightarrow>
                   if paths = [] then run_graph env
                   else log_append env [] (NodeInvalidated paths) (\<lambda>ok.
                     if \<not> ok then infra ''append node.invalidated''
                     else log_sync env (\<lambda>ok.
                       if \<not> ok then infra ''sync node.invalidated''
                       else upd_rs (clearInvalidatedPaths paths) (run_graph env)))))"

text \<open>The node kinds whose execution is modelled.\<close>

fun modelled :: "node \<Rightarrow> bool" where
  "modelled (CodeStep _) = True"
| "modelled (SignalStep _) = True"
| "modelled (AgentStep _) = True"
| "modelled (React _) = True"
| "modelled (Skip _) = True"
| "modelled (If _ a b) = (list_all modelled a \<and> list_all modelled b)"
| "modelled (Loop _ _ a) = list_all modelled a"
| "modelled (Try a b c) = (list_all modelled a \<and> list_all modelled b \<and> list_all modelled c)"
| "modelled (Parallel a) = list_all modelled a"
| "modelled (Gate a b _ _) = (list_all modelled a \<and> list_all modelled b)"
| "modelled _ = False"

subsection \<open>A small run, for evaluation\<close>

definition demo_env :: "node list \<Rightarrow> engine_env" where
  "demo_env graph = \<lparr>e_graph = graph, e_inputFiles = None, e_runEnv = [], e_snapshot = (\<lambda>_. []), e_jcs = (\<lambda>_. None),
     e_compiles = (\<lambda>_. True), e_unmarshal = (\<lambda>s. if hasPrefix s ''{'' then Some (VObject []) else None),
     e_unmarshalTurn = (\<lambda>_. Some (VObject [])), e_validate = (\<lambda>_ _. None), e_digest = (\<lambda>_. Some ''d''), e_local = False,
     e_create = (\<lambda>_. True), e_dispatch = (\<lambda>_ _. (zero_dispatch\<lparr>dr_Outcome := OutcomeOK\<rparr>, None)),
     e_append = (\<lambda>_. True), e_sync = (\<lambda>_. True), e_put = (\<lambda>_. NoFault), e_sleep = (\<lambda>_. True), e_broker = True,
     e_receive = (\<lambda>_ _ _. ReceiveFailed ErrDeadline), e_preflight = None, e_fuel = 0,
     e_resolver = True, e_adapter = (\<lambda>_. Some \<lparr>ac_Containerless = True, ac_Threaded = True, ac_ToolLoop = True,
       ac_SurfacesLiveness = LivenessNone, ac_PersistentSession = False, ac_IsolatedConfigDir = False\<rparr>),
     e_runToolLoop = (\<lambda>_ _. Inl ModelFailed), e_tools = [], e_stagingRoot = [], e_validateJSON = (\<lambda>_ _. False),
     e_resume = False, e_acquire = (\<lambda>_. False), e_createItem = (\<lambda>_ _ _ _. Created []), e_hasHandle = (\<lambda>_. True),
     e_skills = [], e_runes = demo_runes, e_ln64 = (\<lambda>x. x), e_roleWith = (\<lambda>_. []), e_workflowDir = [],
     e_contentType = (\<lambda>_. []), e_live = (\<lambda>_. []), e_redact = (\<lambda>s. s), e_liveFinalizer = None,
     e_other = (\<lambda>_ _ _. infra ''not modelled'')\<rparr>"

definition demo_world :: world where
  "demo_world = \<lparr>w_log = [demo_started], w_synced = 1, w_blobs = \<lparr>fb_files = (\<lambda>_. None)\<rparr>,
     w_rs = zero_state\<lparr>RunID := ''r'', WorkflowDigest := ''w'', rs_Epoch := 1\<rparr>, w_tick = 0, w_ctxs = 0,
     w_cancelled = [], w_runctx = 0, w_poll = PollOff, w_trace = [], w_maps = []\<rparr>"


lemma demo_env_sel [simp]:
  "e_graph (demo_env g) = g" "e_append (demo_env g) t" "e_sync (demo_env g) t" "e_preflight (demo_env g) = None"
  "e_dispatch (demo_env g) t i = (zero_dispatch\<lparr>dr_Outcome := OutcomeOK\<rparr>, None)" "e_local (demo_env g) = False"
  "e_digest (demo_env g) n = Some ''d''" "e_broker (demo_env g)"
  by (simp_all add: demo_env_def)

definition demo_result :: node_result where
  "demo_result = \<lparr>nr_Outcome = OutcomeOK, nr_ExitCode = None, nr_Outputs = None, nr_OutputsRef = [],
   nr_Stdout = None, nr_StdoutRef = [], nr_Files = [], nr_Transcript = None,
   nr_NodeKey = computeNodeKey ''d'' [] [], nr_SubtreeDigest = ''d''\<rparr>"

definition demo_completed :: node_completed_data where
  "demo_completed = \<lparr>nc_Outcome = ''ok'', nc_ExitCode = None, nc_OutputsRef = [], nc_StdoutRef = [], nc_Files = [],
     nc_SnapshotRef = [], nc_Container = [], nc_TranscriptRef = [], nc_NodeKey = computeNodeKey ''d'' [] [],
     nc_SubtreeDigest = ''d'', nc_SessionRef = []\<rparr>"

text \<open>The world after a code step of the example.\<close>

definition demo_after :: "node_intent \<Rightarrow> string \<Rightarrow> world \<Rightarrow> world" where
  "demo_after intent path w = w\<lparr>w_log := w_log w @ [\<lparr>jPath = path, jData = NodeStarted ''code''\<rparr>,
       \<lparr>jPath = path, jData = NodeCompleted demo_completed\<rparr>],
     w_synced := length (w_log w) + 2, w_rs := RecordCompleted path demo_result (w_rs w), w_tick := w_tick w + 4,
     w_trace := w_trace w @ [Dispatched intent]\<rparr>"

lemma empty_templates:
  "Substitute [] sc = Inr []" "resolveInputFileEntries jcs [] s m get assets = Inr []"
  "inputFilesFromResolvedEntries [] = Inr []" "resolveOutputFiles cp um [] rs m assets get = Inr []"
  "inputFileRefsFromResolvedEntries (sort_by input_le []) = []"
  by (simp_all add: Substitute_def scan_def scanFrom.simps resolveInputFileEntries_def inputFilesFromResolvedEntries_def
      resolveOutputFiles_def rejectInputFilePathCollisions_def inputFileRefsFromResolvedEntries_def slices_Sort_def
      sort_by_def Let_def)

lemmas code_eval = runCodeStep_def run_code_def RunWithRetry_def after_attempt_def validateDispatchResult_def
  Commit_def commit_result_def appendNodeCompleted_def put_if_def appendNodeStarted_def node_keys_def isDeterministicNode_def

lemma exec_demo_step:
  assumes "LookupCompleted (w_rs w) (PathFor parent [] s i) = None" and "s \<noteq> []"
  shows "\<exists>intent. exec (interpNode (demo_env g) c i (demo_step s) parent) w
      = ((OutcomeOK, None), demo_after intent (PathFor parent [] s i) w)"
  using assms(1)
  by (cases w) (simp add: code_eval exec_calls exec_eval demo_step_def zero_dispatch_def map_nil_def empty_templates Merge_def
      CodeDefault_def Let_def demo_after_def demo_result_def demo_completed_def outcome_string_def ticked_def numeral_eq_Suc)

lemma exec_demo_step_done:
  assumes "LookupCompleted (w_rs w) (PathFor parent [] s i) \<noteq> None"
  shows "exec (interpNode (demo_env g) c i (demo_step s) parent) w = ((OutcomeOK, None), w)"
  using assms by (auto simp: runCodeStep_def demo_step_def)

lemma exec_demo_run:
  "\<exists>w'. exec (Run (demo_env [demo_step ''a'']) []) demo_world = ((OutcomeOK, None), w')
     \<and> LookupCompleted (w_rs w') ''a'' \<noteq> None \<and> w_synced w' \<le> length (w_log w')"
proof -
  let ?w = "demo_world\<lparr>w_ctxs := 1, w_runctx := 0, w_poll := Polling\<rparr>"
  have "LookupCompleted (w_rs ?w) (PathFor [] [] ''a'' 0) = None"
    by (simp add: demo_world_def LookupCompleted_def zero_state_def)
  from exec_demo_step [OF this, of "[demo_step ''a'']" "[0]"] obtain i where
    "exec (interpNode (demo_env [demo_step ''a'']) [0] 0 (demo_step ''a'') []) ?w = ((OutcomeOK, None), demo_after i ''a'' ?w)"
    by (auto simp: PathFor_def)
  then show ?thesis
    by (simp add: Run_def run_graph_def exec_eval finish_run_def cancel_ctx_def appendTerminalControlEvents_def
        demo_after_def demo_world_def Let_def RecordCompleted_def zero_state_def LookupCompleted_def
        validateRunResultPair_def)
qed

lemma demo_run:
  "\<exists>w'. steps control (Run (demo_env [demo_step ''a'']) [], demo_world) (Ret (OutcomeOK, None), w')
     \<and> LookupCompleted (w_rs w') ''a'' \<noteq> None \<and> w_synced w' \<le> length (w_log w')"
  using exec_demo_run exec_steps [of control "Run (demo_env [demo_step ''a'']) []" demo_world] by auto

end
