(* ===== verification/Validate.thy ===== *)
theory Validate
  imports Diagnostics Engine Skill_Route
begin

text \<open>
  The checks of the workflow validator on one module (src/ir/types.go, src/ir/agents.go and the
  passes src/ir/validate_structural.go, validate_recovery.go, validate_agents.go,
  validate_skills.go, validate_continues.go, validate_reduce.go, validate_prune.go,
  validate_tools.go, validate_misplaced_with.go, validate_staging_literal.go, validate_jury.go,
  validate_schema.go and validate_output_files.go).

  A Go map is an association list in the order the loop over it happens to take. The JSON schema
  library is the parameter \<open>compiles\<close>, which tells whether a schema compiles.
\<close>

subsection \<open>The workflow\<close>

record container =
  ct_Image :: string
  ct_Compose :: string
  ct_Service :: string
  ct_Snapshot :: string
  ct_Cmd :: "string list"
  ct_Keepalive :: "bool option"

record agent_role =
  ro_Uses :: string
  ro_Model :: string
  ro_SystemPrompt :: string
  ro_With :: "(string \<times> goval) list"

record skill_corpus =
  kc_From :: string
  kc_Layout :: string
  kc_Router :: string

record artifact_contract =
  ak_Format :: string
  ak_Schema :: "goval option"
  ak_SchemaRef :: string

record loaded_asset =
  la_ID :: string
  la_DeclaredPath :: string
  la_IsDir :: bool
  la_Files :: "skill_file list"

record workflow =
  wf_ID :: string
  wf_Version :: int
  wf_InputSchema :: "goval option"
  wf_InputFiles :: "artifact_contract pmap"
  wf_Env :: "string list"
  wf_Assets :: "string pmap"
  wf_Skills :: "skill_corpus pmap"
  wf_Agents :: "agent_role pmap"
  wf_Containers :: "container pmap"
  wf_OutputSchema :: "goval option"
  wf_Outputs :: "string pmap"
  wf_ArtifactExports :: "string pmap"
  wf_Tools :: "ir_tool pmap"
  wf_Graph :: "node list"

definition RoleByName :: "workflow \<Rightarrow> string \<Rightarrow> agent_role option" where
  "RoleByName flow name = map_of (wf_Agents flow) name"

definition declared :: "'a pmap \<Rightarrow> string \<Rightarrow> bool" where
  "declared m k = (map_of m k \<noteq> None)"

text \<open>The entry of a JSON object, the object and the string in a value.\<close>

definition field_of :: "goval option \<Rightarrow> string \<Rightarrow> goval option" where
  "field_of v k = (case v of Some (VObject kvs) \<Rightarrow> map_of kvs k | _ \<Rightarrow> None)"

definition object_of :: "goval option \<Rightarrow> goval pmap" where
  "object_of v = (case v of Some (VObject kvs) \<Rightarrow> kvs | _ \<Rightarrow> [])"

definition string_of :: "goval option \<Rightarrow> string" where
  "string_of v = (case v of Some (VString s) \<Rightarrow> s | _ \<Rightarrow> [])"

subsection \<open>Containers named by maps\<close>

definition bareContainerName :: "string \<Rightarrow> string" where
  "bareContainerName name = (case indexOf name '':'' of Some i \<Rightarrow> take i name | None \<Rightarrow> name)"

fun collectMapImageTargetOwners :: "nat \<Rightarrow> node list \<Rightarrow> string \<Rightarrow> string list pmap \<Rightarrow> string list pmap"
  and collect_node :: "nat \<Rightarrow> node \<Rightarrow> string \<Rightarrow> string list pmap \<Rightarrow> string list pmap"
where
  "collectMapImageTargetOwners i [] parent owners = owners"
| "collectMapImageTargetOwners i (n # ns) parent owners =
     collectMapImageTargetOwners (Suc i) ns parent (collect_node i n parent owners)"
| "collect_node i (Map v body) parent owners =
     collectMapImageTargetOwners 0 body (ChildPath parent ''map'' i ''body'')
       (if mp_Image v \<noteq> [] \<and> mp_Container v \<noteq> []
        then pm_append (bareContainerName (mp_Container v)) (PathFor parent ''map'' [] i) owners else owners)"
| "collect_node i (Compose v body) parent owners =
     collectMapImageTargetOwners 0 body (ChildPath parent ''compose'' i ''body'') owners"
| "collect_node i (If c th el) parent owners =
     collectMapImageTargetOwners 0 el (ChildPath parent ''if'' i ''else'')
       (collectMapImageTargetOwners 0 th (ChildPath parent ''if'' i ''then'') owners)"
| "collect_node i (Loop u m body) parent owners =
     collectMapImageTargetOwners 0 body (ChildPath parent ''loop'' i ''body'') owners"
| "collect_node i (Try d c f) parent owners =
     collectMapImageTargetOwners 0 f (ChildPath parent ''try'' i ''finally'')
       (collectMapImageTargetOwners 0 c (ChildPath parent ''try'' i ''catch'')
         (collectMapImageTargetOwners 0 d (ChildPath parent ''try'' i ''do'') owners))"
| "collect_node i (Parallel cs) parent owners =
     collectMapImageTargetOwners 0 cs (PathFor parent ''parallel'' [] i) owners"
| "collect_node i (Gate g e u m) parent owners =
     collectMapImageTargetOwners 0 e (ChildPath parent ''gate'' i ''evaluate'')
       (collectMapImageTargetOwners 0 g (ChildPath parent ''gate'' i ''generate'') owners)"
| "collect_node i n parent owners = owners"

definition MapImageTargetOwners :: "workflow \<Rightarrow> string list pmap" where
  "MapImageTargetOwners flow = collectMapImageTargetOwners 0 (wf_Graph flow) [] []"

definition MapImageTargets :: "workflow \<Rightarrow> string list" where
  "MapImageTargets flow = map fst (MapImageTargetOwners flow)"

definition pathWithinScope :: "string \<Rightarrow> string \<Rightarrow> bool" where
  "pathWithinScope refSite scopePrefix = (refSite = scopePrefix \<or> hasPrefix refSite (scopePrefix @ ''.''))"

subsection \<open>The checks of a field\<close>

definition maxExpressionBytes :: nat where "maxExpressionBytes = 64 * 1024"

definition checkFieldSize :: "string \<Rightarrow> string \<Rightarrow> diagnostic list" where
  "checkFieldSize src path = diag_if (maxExpressionBytes < length src)
     (errf path ''AWF1016'' [itoa (int maxExpressionBytes), itoa (int (length src))])"

definition checkWhereExpr :: "string \<Rightarrow> string \<Rightarrow> diagnostic list" where
  "checkWhereExpr src path =
     (if src = [] then []
      else checkFieldSize src path @
        (let trimmed = trimSpace src
         in if \<not> hasPrefix trimmed ''{{'' \<or> \<not> hasSuffix trimmed ''}}'' then errf path ''AWF1036'' []
            else case ParseExpr (UnwrapEnvelope src) of Inl _ \<Rightarrow> errf path ''AWF1036'' [''syntax''] | Inr _ \<Rightarrow> []))"

definition envNamePattern :: "string \<Rightarrow> bool" where
  "envNamePattern s = (s \<noteq> [] \<and> isLetterUnd (hd s) \<and> list_all (\<lambda>d. isLetterUnd d \<or> isDigit d) (tl s))"

definition containerNamePattern :: "string \<Rightarrow> bool" where
  "containerNamePattern s = stepIDPattern s"

definition check_ident :: "string \<Rightarrow> string \<Rightarrow> string \<Rightarrow> diagnostic list" where
  "check_ident code ident path =
     diag_if (\<not> stepIDPattern ident) (errf path code [ident, ''pattern''])
     @ diag_if (ident \<in> set reservedStepIDTokens) (errf path code [ident, ''reserved''])"

definition checkAssetID :: "string \<Rightarrow> diagnostic list" where
  "checkAssetID ident = check_ident ''AWF1020'' ident (''assets.'' @ ident)"

text \<open>
  The walk keeps the map from an identifier to the path it was first seen at: a check is a function
  from that map to its diagnostics and the next map.
\<close>

type_synonym check = "string pmap \<Rightarrow> diagnostic list \<times> string pmap"

definition emit :: "diagnostic list \<Rightarrow> check" where
  "emit ds = (\<lambda>m. (ds, m))"

definition andThen :: "check \<Rightarrow> check \<Rightarrow> check" where
  "andThen f g = (\<lambda>m. case f m of (ds, m1) \<Rightarrow> case g m1 of (es, m2) \<Rightarrow> (ds @ es, m2))"

definition checkAddressableID :: "string \<Rightarrow> string \<Rightarrow> string \<Rightarrow> check" where
  "checkAddressableID ident path kind = (\<lambda>m.
     if ident = [] then ([], m)
     else case map_of m ident of
            Some prev \<Rightarrow> (check_ident ''AWF1020'' ident path @ errf path ''AWF1004'' [kind, ident, prev], m)
          | None \<Rightarrow> (check_ident ''AWF1020'' ident path, pm_put ident path m))"

definition checkStepID :: "string \<Rightarrow> string \<Rightarrow> check" where
  "checkStepID ident path = checkAddressableID ident path ''step''"

definition checkMapID :: "map_spec \<Rightarrow> node list \<Rightarrow> string \<Rightarrow> check" where
  "checkMapID v body path =
     (if mp_ID v = [] then emit []
      else andThen (checkAddressableID (mp_ID v) path ''map aggregate'')
        (emit (diag_if (\<not> MapProductShape path) (errf path ''AWF5011'' [])
             @ diag_if (mp_Reduce v = None \<and> MapCompactProducer body = None) (errf path ''AWF5009'' []))))"

definition checkMapImageTargetRef :: "string \<Rightarrow> string \<Rightarrow> string list pmap \<Rightarrow> diagnostic list" where
  "checkMapImageTargetRef path bare owners =
     diag_if (pm_list owners bare \<noteq> []
       \<and> \<not> list_ex (\<lambda>own. path = own \<or> pathWithinScope path (own @ ''.body'')) (pm_list owners bare))
       (errf path ''AWF1039'' [bare])"

definition checkContainerRefInScope ::
  "workflow \<Rightarrow> string list \<Rightarrow> string list pmap \<Rightarrow> string \<Rightarrow> string \<Rightarrow> bool \<Rightarrow> diagnostic list" where
  "checkContainerRefInScope flow scoped owners name path required =
     (if name = [] then diag_if required (errf path ''AWF1009'' [''empty''])
      else if contains name ''{{'' then []
      else let bare = bareContainerName name
           in if bare \<in> set scoped then []
              else if \<not> declared (wf_Containers flow) bare then errf path ''AWF1009'' [name]
              else checkMapImageTargetRef path bare owners)"

fun firstContainerRef :: "node \<Rightarrow> string"
  and firstContainerRef_list :: "node list \<Rightarrow> string"
where
  "firstContainerRef (CodeStep v) = cs_Container v"
| "firstContainerRef (AgentStep v) = as_Container v"
| "firstContainerRef (If c th el) = firstContainerRef_list th"
| "firstContainerRef (Loop u m body) = firstContainerRef_list body"
| "firstContainerRef (Try d c f) = firstContainerRef_list d"
| "firstContainerRef (Gate g e u m) = firstContainerRef_list g"
| "firstContainerRef (Map v body) = mp_Container v"
| "firstContainerRef (Parallel cs) = firstContainerRef_list cs"
| "firstContainerRef n = []"
| "firstContainerRef_list [] = []"
| "firstContainerRef_list (n # ns) = firstContainerRef n"

text \<open>The branches that use a container, by its bare name.\<close>

definition used_by_branches :: "node list \<Rightarrow> nat list pmap" where
  "used_by_branches children =
     fold (\<lambda>(i, child) used. let ctr = firstContainerRef child
                             in if ctr = [] then used else pm_append (bareContainerName ctr) i used)
       (enumerate 0 children) []"

definition checkParallelDistinctContainers :: "node list \<Rightarrow> string \<Rightarrow> diagnostic list" where
  "checkParallelDistinctContainers children path =
     concat (map (\<lambda>(ctr, branches). diag_if (1 < length branches)
       (errf path ''AWF1010'' (ctr # map (itoa \<circ> int) branches))) (used_by_branches children))"

fun nodeHasOutputSchema :: "node \<Rightarrow> bool" where
  "nodeHasOutputSchema (CodeStep v) = (cs_OutputSchema v \<noteq> None)"
| "nodeHasOutputSchema (AgentStep v) = (as_OutputSchema v \<noteq> None)"
| "nodeHasOutputSchema (SignalStep v) = (ss_OutputSchema v \<noteq> None)"
| "nodeHasOutputSchema (Map v body) =
     (case mp_Reduce v of None \<Rightarrow> False | Some r \<Rightarrow> IsQuorum r \<or> rd_OutputSchema r \<noteq> None)"
| "nodeHasOutputSchema n = False"

subsection \<open>The structural pass\<close>

definition check_container :: "string list \<Rightarrow> string \<Rightarrow> container \<Rightarrow> diagnostic list" where
  "check_container targets name ctr =
     (let here = ContainerPath name []
      in diag_if (\<not> containerNamePattern name) (errf here ''AWF1059'' [name])
       @ (if ct_Image ctr \<noteq> [] \<and> ct_Compose ctr \<noteq> [] then errf here ''AWF1005'' []
          else diag_if (ct_Image ctr = [] \<and> ct_Compose ctr = [] \<and> name \<notin> set targets) (errf here ''AWF1006'' []))
       @ diag_if (ct_Image ctr \<noteq> [] \<and> \<not> contains (ct_Image ctr) ''@sha256:'') (errf (ContainerPath name ''image'') ''AWF1007'' [])
       @ diag_if (ct_Image ctr \<noteq> [] \<and> contains (ct_Image ctr) ''{{'') (errf (ContainerPath name ''image'') ''AWF1019'' [])
       @ diag_if (ct_Compose ctr \<noteq> [] \<and> ct_Service ctr = []) (errf here ''AWF1008'' [])
       @ diag_if (ct_Service ctr \<noteq> [] \<and> contains (ct_Service ctr) ''{{'') (errf (ContainerPath name ''service'') ''AWF1019'' [])
       @ diag_if (ct_Snapshot ctr \<noteq> [] \<and> ct_Snapshot ctr \<noteq> ''workspace'') (errf (ContainerPath name ''snapshot'') ''AWF1021'' [])
       @ diag_if (ct_Snapshot ctr = ''workspace'' \<and> ct_Compose ctr \<noteq> []) (errf (ContainerPath name ''snapshot'') ''AWF1022'' [])
       @ diag_if (name \<in> set targets \<and> (ct_Image ctr \<noteq> [] \<or> ct_Compose ctr \<noteq> [])) (errf here ''AWF1025'' [])
       @ diag_if (ct_Compose ctr \<noteq> [] \<and> (ct_Cmd ctr \<noteq> [] \<or> ct_Keepalive ctr \<noteq> None)) (errf here ''AWF1060'' []))"

definition check_map :: "workflow \<Rightarrow> string list \<Rightarrow> string list pmap \<Rightarrow> map_spec \<Rightarrow> string \<Rightarrow> diagnostic list" where
  "check_map flow scoped owners v path =
     diag_if (mp_Over v = [] \<and> mp_OverItems v = None) (errf path ''AWF1012'' [''over''])
     @ diag_if (mp_As v = []) (errf path ''AWF1012'' [''as''])
     @ diag_if (mp_Container v = []) (errf path ''AWF1012'' [''container''])
     @ diag_if (case mp_Concurrency v of None \<Rightarrow> False | Some k \<Rightarrow> k \<le> 0) (errf path ''AWF1012'' [''concurrency''])
     @ diag_if (mp_Over v \<noteq> []) (checkFieldSize (mp_Over v) path)
     @ diag_if (mp_Image v \<noteq> []) (checkFieldSize (mp_Image v) path)
     @ (if mp_Container v = [] then []
        else if contains (mp_Container v) ''{{'' then errf path ''AWF1019'' []
        else checkContainerRefInScope flow scoped owners (mp_Container v) path True
           @ diag_if (case map_of (wf_Containers flow) (bareContainerName (mp_Container v)) of
                        None \<Rightarrow> False | Some ctr \<Rightarrow> ct_Snapshot ctr = ''workspace'') (errf path ''AWF1023'' []))"

definition check_compose :: "workflow \<Rightarrow> string list \<Rightarrow> compose_spec \<Rightarrow> node list \<Rightarrow> string \<Rightarrow> diagnostic list" where
  "check_compose flow scoped v body path =
     diag_if (cp_As v = [] \<or> cp_From v = [] \<or> cp_Service v = [] \<or> body = []) (errf path ''AWF1038'' [])
     @ (if cp_As v = [] then []
        else if contains (cp_As v) ''{{'' then errf path ''AWF1019'' []
        else if \<not> stepIDPattern (cp_As v) then errf path ''AWF1038'' [cp_As v, ''pattern'']
        else if declared (wf_Containers flow) (cp_As v) then errf path ''AWF1038'' [cp_As v, ''container'']
        else diag_if (cp_As v \<in> set scoped) (errf path ''AWF1038'' [cp_As v, ''scoped'']))
     @ diag_if (cp_Service v \<noteq> []) (checkFieldSize (cp_Service v) (path @ ''.service''))"

fun walkStructural :: "workflow \<Rightarrow> string list pmap \<Rightarrow> string list \<Rightarrow> nat \<Rightarrow> node list \<Rightarrow> string \<Rightarrow> check"
  and walkStructural_node :: "workflow \<Rightarrow> string list pmap \<Rightarrow> string list \<Rightarrow> nat \<Rightarrow> node \<Rightarrow> string \<Rightarrow> check"
where
  "walkStructural flow owners scoped i [] parent = emit []"
| "walkStructural flow owners scoped i (n # ns) parent =
     andThen (walkStructural_node flow owners scoped i n parent) (walkStructural flow owners scoped (Suc i) ns parent)"
| "walkStructural_node flow owners scoped i (CodeStep v) parent =
     (let path = PathFor parent [] (cs_ID v) i
      in andThen (checkStepID (cs_ID v) path)
           (emit (checkContainerRefInScope flow scoped owners (cs_Container v) path False @ checkFieldSize (cs_Run v) path)))"
| "walkStructural_node flow owners scoped i (AgentStep v) parent =
     (let path = PathFor parent [] (as_ID v) i
      in andThen (checkStepID (as_ID v) path) (emit (checkContainerRefInScope flow scoped owners (as_Container v) path False)))"
| "walkStructural_node flow owners scoped i (SignalStep v) parent =
     (let path = PathFor parent [] (ss_ID v) i
      in andThen (checkStepID (ss_ID v) path)
           (emit (diag_if (ss_Await v \<noteq> [] \<and> \<not> stepIDPattern (ss_Await v)) (errf path ''AWF1020'' [''await'', ss_Await v])
                @ checkWhereExpr (ss_Where v) (path @ ''.where''))))"
| "walkStructural_node flow owners scoped i (CallStep v) parent = checkStepID (cl_ID v) (PathFor parent [] (cl_ID v) i)"
| "walkStructural_node flow owners scoped i (If c th el) parent =
     andThen (emit (checkFieldSize c (PathFor parent ''if'' [] i)))
    (andThen (walkStructural flow owners scoped 0 th (ChildPath parent ''if'' i ''then''))
             (walkStructural flow owners scoped 0 el (ChildPath parent ''if'' i ''else'')))"
| "walkStructural_node flow owners scoped i (Loop u m body) parent =
     (let path = PathFor parent ''loop'' [] i
      in andThen (emit (diag_if (u = None \<and> m = None) (errf path ''AWF1011'' [])
             @ (case u of None \<Rightarrow> [] | Some e \<Rightarrow> checkFieldSize e path)))
           (walkStructural flow owners scoped 0 body (ChildPath parent ''loop'' i ''body'')))"
| "walkStructural_node flow owners scoped i (Try d c f) parent =
     andThen (walkStructural flow owners scoped 0 d (ChildPath parent ''try'' i ''do''))
    (andThen (walkStructural flow owners scoped 0 c (ChildPath parent ''try'' i ''catch''))
             (walkStructural flow owners scoped 0 f (ChildPath parent ''try'' i ''finally'')))"
| "walkStructural_node flow owners scoped i (Parallel cs) parent =
     (let path = PathFor parent ''parallel'' [] i
      in andThen (emit (checkParallelDistinctContainers cs path)) (walkStructural flow owners scoped 0 cs path))"
| "walkStructural_node flow owners scoped i (Gate g e u m) parent =
     (let path = PathFor parent ''gate'' [] i
      in andThen (emit (diag_if (g = []) (errf path ''AWF1013'' [])
             @ (if u = [] then errf path ''AWF1015'' [] else checkFieldSize u path)
             @ diag_if (e \<noteq> [] \<and> \<not> nodeHasOutputSchema (last e)) (errf path ''AWF1014'' [])))
        (andThen (walkStructural flow owners scoped 0 g (ChildPath parent ''gate'' i ''generate''))
                 (walkStructural flow owners scoped 0 e (ChildPath parent ''gate'' i ''evaluate''))))"
| "walkStructural_node flow owners scoped i (Skip r) parent = emit []"
| "walkStructural_node flow owners scoped i (React v) parent =
     checkAddressableID (rc_ID v) (PathFor parent ''react'' [] i) ''react node''"
| "walkStructural_node flow owners scoped i (Map v body) parent =
     (let path = PathFor parent ''map'' [] i
      in andThen (checkMapID v body path)
        (andThen (emit (check_map flow scoped owners v path))
                 (walkStructural flow owners scoped 0 body (ChildPath parent ''map'' i ''body''))))"
| "walkStructural_node flow owners scoped i (Compose v body) parent =
     (let path = PathFor parent ''compose'' [] i
      in andThen (emit (check_compose flow scoped v body path))
           (walkStructural flow owners (if cp_As v \<noteq> [] then cp_As v # scoped else scoped) 0 body
              (ChildPath parent ''compose'' i ''body'')))"

definition structural_walk :: "workflow \<Rightarrow> diagnostic list" where
  "structural_walk flow = fst (walkStructural flow (MapImageTargetOwners flow) [] 0 (wf_Graph flow) [] [])"

definition validateStructural :: "workflow \<Rightarrow> diagnostic list" where
  "validateStructural flow =
     diag_if (wf_Version flow \<noteq> 1) (errf [] ''AWF1017'' [itoa (wf_Version flow)])
     @ concat (map (\<lambda>(name, ctr). check_container (MapImageTargets flow) name ctr) (wf_Containers flow))
     @ concat (map (\<lambda>(i, name). diag_if (\<not> envNamePattern name) (errf (bracketed ''env'' i) ''AWF1024'' [name]))
         (enumerate 0 (wf_Env flow)))
     @ concat (map (\<lambda>(ident, _). checkAssetID ident) (wf_Assets flow))
     @ structural_walk flow"

end
