(* ===== verification/Validate_Passes.thy ===== *)
theory Validate_Passes
  imports Validate
begin

text \<open>
  The passes of the validator on one module that follow the structural one: recovery strategies,
  agent roles, skill libraries, \<open>continues\<close> links, reducers, prune frontiers, tools, misplaced
  keys, the staging path, juries, schemas and artifact contracts (the files
  src/ir/validate_*.go of those names).
\<close>

text \<open>A pass that visits every node of the graph.\<close>

definition each_node :: "workflow \<Rightarrow> (node \<Rightarrow> string \<Rightarrow> diagnostic list) \<Rightarrow> diagnostic list" where
  "each_node flow visit = concat (map (\<lambda>(n, path). visit n path) (WalkNodes 0 (wf_Graph flow) []))"

lemma each_node_errors:
  "HasErrors (each_node flow visit) \<longleftrightarrow> (\<exists>(n, path) \<in> set (WalkNodes 0 (wf_Graph flow) []). HasErrors (visit n path))"
  by (force simp: each_node_def)

text \<open>The entries of a Go map in the order of its sorted keys.\<close>

definition by_key :: "'a pmap \<Rightarrow> 'a pmap" where
  "by_key m = sort_by (\<lambda>a b. str_le (fst a) (fst b)) m"

subsection \<open>Recovery strategies\<close>

definition checkRecovery :: "ir_retry option \<Rightarrow> string \<Rightarrow> diagnostic list" where
  "checkRecovery rp path =
     (case rp of None \<Rightarrow> []
      | Some r \<Rightarrow> diag_if (ir_Recovery r \<notin> {[], ''continue'', ''restart''}) (errf path ''AWF1064'' [ir_Recovery r]))"

definition validateRecovery :: "workflow \<Rightarrow> diagnostic list" where
  "validateRecovery flow =
     each_node flow (\<lambda>n path. case n of
         CodeStep v \<Rightarrow> checkRecovery (cs_Retry v) (path @ ''.retry'')
       | AgentStep v \<Rightarrow> checkRecovery (as_Retry v) (path @ ''.retry'')
       | _ \<Rightarrow> [])
     @ concat (map (\<lambda>(name, tool). checkRecovery (tl_Retry tool) (''tools.'' @ name @ ''.impl.retry'')) (wf_Tools flow))"

subsection \<open>Agent roles\<close>

definition checkRoleInputOnly :: "string \<Rightarrow> string \<Rightarrow> diagnostic list" where
  "checkRoleInputOnly path src =
     (if src = [] then []
      else case Slots src of
        Inl _ \<Rightarrow> errf path ''AWF1067'' [''malformed'', src]
      | Inr slots \<Rightarrow> concat (map (\<lambda>sl.
          let inner = trimSpace (Inner sl)
          in case ParseRef inner of
               Inl _ \<Rightarrow> errf path ''AWF1067'' [''invalid'', inner]
             | Inr [] \<Rightarrow> errf path ''AWF1067'' [''invalid'', inner]
             | Inr (seg # _) \<Rightarrow> diag_if (Ident seg \<noteq> ''input'') (errf path ''AWF1067'' [''input only'', inner])) slots))"

definition rejectTemplateInString :: "string \<Rightarrow> string \<Rightarrow> diagnostic list" where
  "rejectTemplateInString path s =
     diag_if (case Slots s of Inl _ \<Rightarrow> True | Inr slots \<Rightarrow> slots \<noteq> []) (errf path ''AWF1067'' [''nested''])"

fun rejectAnyRoleTemplate :: "string \<Rightarrow> goval \<Rightarrow> diagnostic list"
  and reject_elements :: "nat \<Rightarrow> string \<Rightarrow> goval list \<Rightarrow> diagnostic list"
where
  "rejectAnyRoleTemplate path (VString s) = rejectTemplateInString path s"
| "rejectAnyRoleTemplate path (VObject kvs) =
     concat (map snd (by_key (map (\<lambda>(k, v).
       (k, rejectTemplateInString (path @ ''.'' @ k) k @ rejectAnyRoleTemplate (path @ ''.'' @ k) v)) kvs)))"
| "rejectAnyRoleTemplate path (VArray vs) = reject_elements 0 path vs"
| "rejectAnyRoleTemplate path _ = []"
| "reject_elements i path [] = []"
| "reject_elements i path (v # vs) = rejectAnyRoleTemplate (bracketed path i) v @ reject_elements (Suc i) path vs"

definition checkRoleTemplates :: "string \<Rightarrow> agent_role \<Rightarrow> diagnostic list" where
  "checkRoleTemplates rolePath role =
     checkRoleInputOnly (rolePath @ ''.model'') (ro_Model role)
     @ checkRoleInputOnly (rolePath @ ''.system_prompt'') (ro_SystemPrompt role)
     @ concat (map (\<lambda>(k, v). let path = rolePath @ ''.with.'' @ k
         in rejectTemplateInString path k
            @ (case v of VString s \<Rightarrow> checkRoleInputOnly path s | _ \<Rightarrow> rejectAnyRoleTemplate path v)) (by_key (ro_With role)))"

definition check_role :: "string \<Rightarrow> agent_role \<Rightarrow> diagnostic list" where
  "check_role name role =
     (let rolePath = ''agents.'' @ name; uses = trimSpace (ro_Uses role)
      in (if uses = [] then errf rolePath ''AWF1033'' [''empty'', name]
          else diag_if (\<not> contains uses ''/'') (errf rolePath ''AWF1033'' [''uses'', name, uses]))
         @ diag_if (contains name ''/'') (errf rolePath ''AWF1033'' [''name'', name])
         @ checkRoleTemplates rolePath role)"

definition validateAgents :: "workflow \<Rightarrow> diagnostic list" where
  "validateAgents flow =
     concat (map (\<lambda>(name, role). check_role name role) (wf_Agents flow))
     @ each_node flow (\<lambda>n path. case n of
         AgentStep v \<Rightarrow> diag_if (RoleByName flow (as_Uses v) = None \<and> \<not> contains (as_Uses v) ''/'')
                          (errf path ''AWF1034'' [as_Uses v])
       | _ \<Rightarrow> [])"

subsection \<open>Skill libraries\<close>

definition LayoutSkillDirs :: string where "LayoutSkillDirs = ''skill_dirs''"
definition RouterName :: string where "RouterName = ''bm25''"
definition MaxSelectionLimit :: int where "MaxSelectionLimit = 64"

definition validateLoadedSkillCorpus :: "string \<Rightarrow> loaded_asset \<Rightarrow> diagnostic list" where
  "validateLoadedSkillCorpus corpusPath asset =
     concat (map (\<lambda>issue. case issue of
         RootFile p \<Rightarrow> errf corpusPath ''AWF3010'' [p]
       | MissingSkillMD d \<Rightarrow> errf corpusPath ''AWF3010'' [d]
       | InvalidPath p \<Rightarrow> errf corpusPath ''AWF3011'' [p]
       | InvalidSkillID p d \<Rightarrow> errf corpusPath ''AWF3011'' [p, d]) (ValidateFiles (la_Files asset)))"

definition check_corpus :: "loaded_asset pmap \<Rightarrow> string \<Rightarrow> skill_corpus \<Rightarrow> diagnostic list" where
  "check_corpus assets ident corpus =
     (let corpusPath = ''skills.'' @ ident; assetID = ParseAssetRef (kc_From corpus)
      in check_ident ''AWF1040'' ident corpusPath
         @ diag_if (assetID = None) (errf corpusPath ''AWF1040'' [kc_From corpus])
         @ diag_if (kc_Layout corpus \<noteq> LayoutSkillDirs \<or> kc_Router corpus \<noteq> RouterName)
             (errf corpusPath ''AWF1042'' [kc_Layout corpus, kc_Router corpus])
         @ (case assetID of None \<Rightarrow> []
            | Some aid \<Rightarrow> (case map_of assets aid of
                None \<Rightarrow> errf corpusPath ''AWF1041'' [kc_From corpus]
              | Some asset \<Rightarrow> if \<not> la_IsDir asset then errf corpusPath ''AWF1041'' [kc_From corpus]
                              else validateLoadedSkillCorpus corpusPath asset)))"

definition validateSkillCorpora :: "loaded_asset pmap \<Rightarrow> workflow \<Rightarrow> diagnostic list" where
  "validateSkillCorpora assets flow = concat (map (\<lambda>(ident, corpus). check_corpus assets ident corpus) (wf_Skills flow))"

definition inputFileDestinationAncestor :: "string \<Rightarrow> string \<Rightarrow> bool" where
  "inputFileDestinationAncestor parent child =
     (if parent = ''/'' then child \<noteq> ''/'' else hasPrefix child (parent @ ''/''))"

definition validateSkillRoutingInto :: "string \<Rightarrow> bool" where
  "validateSkillRoutingInto into = (path_IsAbs into \<and> into = path_Clean into \<and> into \<noteq> ''/'')"

definition validateSkillRoutingInputFileOverlap :: "string \<Rightarrow> string \<Rightarrow> string pmap \<Rightarrow> diagnostic list" where
  "validateSkillRoutingInputFileOverlap nodePath into inputFiles =
     concat (map (\<lambda>(dst, _).
       diag_if (path_IsAbs dst \<and> dst = path_Clean dst
           \<and> (dst = into \<or> inputFileDestinationAncestor dst into \<or> inputFileDestinationAncestor into dst))
         (errf nodePath ''AWF1045'' [into, dst])) inputFiles)"

definition check_skill_routing :: "workflow \<Rightarrow> agent_step \<Rightarrow> skill_routing \<Rightarrow> string \<Rightarrow> diagnostic list" where
  "check_skill_routing flow v routing nodePath =
     diag_if (\<not> declared (wf_Skills flow) (sr_From routing)) (errf nodePath ''AWF1044'' [sr_From routing])
     @ diag_if (trimSpace (sr_Query routing) = []) (errf nodePath ''AWF1043'' [''query''])
     @ diag_if (sr_Limit routing \<le> 0 \<or> MaxSelectionLimit < sr_Limit routing) (errf nodePath ''AWF1043'' [''limit''])
     @ diag_if (\<not> validateSkillRoutingInto (sr_Into routing)) (errf nodePath ''AWF1043'' [''into'', sr_Into routing])
     @ diag_if (trimSpace (as_Container v) = []) (errf nodePath ''AWF1045'' [''container''])
     @ diag_if (validateSkillRoutingInto (sr_Into routing))
         (validateSkillRoutingInputFileOverlap nodePath (sr_Into routing) (as_InputFiles v))"

definition validateAgentSkillRouting :: "workflow \<Rightarrow> diagnostic list" where
  "validateAgentSkillRouting flow = each_node flow (\<lambda>n path. case n of
       AgentStep v \<Rightarrow> (case as_Skills v of None \<Rightarrow> [] | Some routing \<Rightarrow> check_skill_routing flow v routing path)
     | _ \<Rightarrow> [])"

definition validateSkills :: "loaded_asset pmap \<Rightarrow> workflow \<Rightarrow> diagnostic list" where
  "validateSkills assets flow = validateSkillCorpora assets flow @ validateAgentSkillRouting flow"

subsection \<open>Links between agent steps\<close>

definition agentPathByID :: "node list \<Rightarrow> string pmap" where
  "agentPathByID graph = fold (\<lambda>(n, path) m. case n of AgentStep v \<Rightarrow> pm_put (as_ID v) path m | _ \<Rightarrow> m) (WalkNodes 0 graph []) []"

definition agentOrderByID :: "node list \<Rightarrow> nat pmap" where
  "agentOrderByID graph = fold (\<lambda>(ord, n, _) m. case n of AgentStep v \<Rightarrow> pm_put (as_ID v) ord m | _ \<Rightarrow> m)
     (enumerate 0 (WalkNodes 0 graph [])) []"

text \<open>
  The chain from one step: the identifiers to mark as reported when it comes back to one it visited.
  The first argument is the number of links still followed, \<^verbatim>\<open>len(agents)\<close> at the start.
\<close>

fun find_cycle :: "nat \<Rightarrow> agent_step pmap \<Rightarrow> string list \<Rightarrow> string \<Rightarrow> string list option" where
  "find_cycle 0 agents visited cur = None"
| "find_cycle (Suc n) agents visited cur =
     (if cur = [] then None
      else case map_of agents cur of
        None \<Rightarrow> None
      | Some nxt \<Rightarrow>
          if as_ID nxt \<in> set visited then Some (as_ID nxt # visited)
          else find_cycle n agents (as_ID nxt # visited) (as_Continues nxt))"

fun continues_cycles :: "agent_step pmap \<Rightarrow> (node \<times> string) list \<Rightarrow> string list \<Rightarrow> diagnostic list" where
  "continues_cycles agents [] reported = []"
| "continues_cycles agents ((n, srcPath) # rest) reported =
     (case n of
        AgentStep v \<Rightarrow>
          if as_Continues v = [] \<or> as_ID v \<in> set reported then continues_cycles agents rest reported
          else (case find_cycle (length agents) agents [as_ID v] (as_Continues v) of
                  None \<Rightarrow> continues_cycles agents rest reported
                | Some ids \<Rightarrow> errf srcPath ''AWF1028'' [] @ continues_cycles agents rest (ids @ reported))
      | _ \<Rightarrow> continues_cycles agents rest reported)"

definition scopePrefixOf :: "string \<Rightarrow> string" where
  "scopePrefixOf path = joinDot (butlast (splitDot path))"

definition hasPathPrefix :: "string \<Rightarrow> string \<Rightarrow> bool" where
  "hasPathPrefix path pre = (pre = [] \<or> path = pre \<or> hasPrefix path (pre @ ''.''))"

definition dominates :: "string \<Rightarrow> string \<Rightarrow> nat \<Rightarrow> nat \<Rightarrow> bool" where
  "dominates tgtPath srcPath tgtOrd srcOrd = (tgtOrd < srcOrd \<and> hasPathPrefix srcPath (scopePrefixOf tgtPath))"

fun split_below_parallel :: "string option \<Rightarrow> string list \<Rightarrow> string list \<Rightarrow> bool" where
  "split_below_parallel prev (t # ts) (s # ss) =
     (if t = s then split_below_parallel (Some t) ts ss
      else case prev of None \<Rightarrow> False | Some p \<Rightarrow> hasPrefix p ''parallel['')"
| "split_below_parallel prev _ _ = False"

definition parallelSiblings :: "string \<Rightarrow> string \<Rightarrow> bool" where
  "parallelSiblings tgtPath srcPath = split_below_parallel None (splitDot tgtPath) (splitDot srcPath)"

definition inEvaluateBlock :: "string \<Rightarrow> bool" where
  "inEvaluateBlock path =
     (let segs = splitDot path
      in list_ex (\<lambda>(prev, seg). seg = ''evaluate'' \<and> hasPrefix prev ''gate['') (zip segs (tl segs)))"

function chain_touches_evaluate :: "agent_step pmap \<Rightarrow> string pmap \<Rightarrow> string list \<Rightarrow> string \<Rightarrow> bool" where
  "chain_touches_evaluate agents paths passed cur =
     (if cur = [] \<or> cur \<in> set passed then False
      else if inEvaluateBlock (case map_of paths cur of None \<Rightarrow> [] | Some p \<Rightarrow> p) then True
      else case map_of agents cur of
             None \<Rightarrow> False
           | Some nxt \<Rightarrow> chain_touches_evaluate agents paths (cur # passed) (as_Continues nxt))"
  by pat_completeness auto
termination
proof (relation "measure (\<lambda>(agents, _, passed, _). card (fst ` set agents - set passed))", goal_cases)
  case (2 agents paths passed cur step)
  then have "cur \<in> fst ` set agents - set passed" by (force dest: map_of_SomeD)
  then have "fst ` set agents - set (cur # passed) \<subset> fst ` set agents - set passed" by auto
  then show ?case using psubset_card_mono [of "fst ` set agents - set passed"] by simp
qed simp

declare chain_touches_evaluate.simps [simp del]

definition continuesChainTouchesEvaluate :: "string \<Rightarrow> agent_step pmap \<Rightarrow> string pmap \<Rightarrow> bool" where
  "continuesChainTouchesEvaluate ident agents paths = chain_touches_evaluate agents paths [] ident"

definition resolvedBaseUses :: "workflow \<Rightarrow> string \<Rightarrow> string" where
  "resolvedBaseUses flow uses =
     (case RoleByName flow uses of Some role \<Rightarrow> if ro_Uses role \<noteq> [] then ro_Uses role else uses | None \<Rightarrow> uses)"

definition continuesUsesCompatible :: "workflow \<Rightarrow> agent_step \<Rightarrow> agent_step \<Rightarrow> bool \<Rightarrow> bool" where
  "continuesUsesCompatible flow src tgt evaluatorSource =
     (if evaluatorSource then resolvedBaseUses flow (as_Uses src) = resolvedBaseUses flow (as_Uses tgt)
      else as_Uses src = as_Uses tgt)"

text \<open>\<open>strings.Count\<close> for a separator that is not empty.\<close>

function count_of :: "string \<Rightarrow> string \<Rightarrow> nat" where
  "count_of s p =
     (if p = [] then 0 else case indexOf s p of None \<Rightarrow> 0 | Some i \<Rightarrow> Suc (count_of (drop (i + length p) s) p))"
  by pat_completeness auto
termination
proof (relation "measure (\<lambda>(s, _). length s)", goal_cases)
  case (2 s p i)
  then have "i + length p \<le> length s" "0 < length p" using indexOf_bound by auto
  then have "length s - (i + length p) < length s" by linarith
  then show ?case by simp
qed simp

declare count_of.simps [simp del]

definition lookup :: "'a \<Rightarrow> 'a pmap \<Rightarrow> string \<Rightarrow> 'a" where
  "lookup dflt m k = (case map_of m k of None \<Rightarrow> dflt | Some v \<Rightarrow> v)"

definition check_link :: "workflow \<Rightarrow> agent_step \<Rightarrow> string \<Rightarrow> diagnostic list" where
  "check_link flow v srcPath =
     (let agents = agentStepByID (wf_Graph flow); paths = agentPathByID (wf_Graph flow);
          order = agentOrderByID (wf_Graph flow); tgtID = as_Continues v;
          evaluatorSource = inEvaluateBlock srcPath; tgtPath = lookup [] paths tgtID
      in if tgtID = [] then []
         else case map_of agents tgtID of
           None \<Rightarrow> errf srcPath ''AWF1026'' [tgtID]
         | Some tgt \<Rightarrow>
             if evaluatorSource \<and> continuesChainTouchesEvaluate tgtID agents paths then errf srcPath ''AWF1030'' [tgtID]
             else if parallelSiblings tgtPath srcPath then errf srcPath ''AWF1032'' [tgtID]
             else if \<not> dominates tgtPath srcPath (lookup 0 order tgtID) (lookup 0 order (as_ID v))
               then errf srcPath ''AWF1027'' [tgtID]
             else diag_if (1 < count_of tgtPath ''loop['') (errf srcPath ''AWF1031'' [tgtID])
                @ diag_if (\<not> continuesUsesCompatible flow v tgt evaluatorSource) (errf srcPath ''AWF1029'' [as_Uses v, as_Uses tgt]))"

definition validateContinues :: "workflow \<Rightarrow> diagnostic list" where
  "validateContinues flow =
     continues_cycles (agentStepByID (wf_Graph flow)) (WalkNodes 0 (wf_Graph flow) []) []
     @ each_node flow (\<lambda>n path. case n of AgentStep v \<Rightarrow> check_link flow v path | _ \<Rightarrow> [])"

subsection \<open>Reducers\<close>

definition QuorumVerdictFields :: "string list" where
  "QuorumVerdictFields = [''votes'', ''agree'', ''votes_detail'']"

fun producer_schema :: "node \<Rightarrow> goval option" where
  "producer_schema (CodeStep v) = cs_OutputSchema v"
| "producer_schema (AgentStep v) = as_OutputSchema v"
| "producer_schema n = None"

fun producer_files :: "node \<Rightarrow> output_file list" where
  "producer_files (CodeStep v) = cs_OutputFiles v"
| "producer_files (AgentStep v) = as_OutputFiles v"
| "producer_files n = []"

definition declares_field :: "goval option \<Rightarrow> string \<Rightarrow> bool" where
  "declares_field schema field =
     (schema \<noteq> None \<and> (case field_of schema ''properties'' of Some (VObject props) \<Rightarrow> declared props field | _ \<Rightarrow> True))"

definition bodyDeclaresField :: "node list \<Rightarrow> string \<Rightarrow> bool" where
  "bodyDeclaresField body field = list_ex (\<lambda>(n, _). declares_field (producer_schema n) field) (WalkNodes 0 body [])"

definition checkReduceProducerNesting :: "string \<Rightarrow> node \<Rightarrow> string \<Rightarrow> diagnostic list" where
  "checkReduceProducerNesting path n rp =
     (let segs = splitDot path;
          gates = length (filter (\<lambda>s. hasPrefix s ''gate['') segs);
          loops = length (filter (\<lambda>s. hasPrefix s ''loop['') segs)
      in diag_if ((producer_schema n \<noteq> None \<or> producer_files n \<noteq> []) \<and> (0 < loops \<or> 1 < gates))
           (errf rp ''AWF5007'' [path, itoa (int loops), itoa (int gates)]))"

definition validateMapReduce ::
  "workflow \<Rightarrow> string list \<Rightarrow> string list pmap \<Rightarrow> map_spec \<Rightarrow> node list \<Rightarrow> string \<Rightarrow> diagnostic list" where
  "validateMapReduce flow scoped owners v body nodePath =
     (case mp_Reduce v of
        None \<Rightarrow> []
      | Some r \<Rightarrow>
          let rp = nodePath @ ''.reduce'';
              hasQuorum = (rd_Quorum r \<noteq> None); hasRun = (trimSpace (rd_Run r) \<noteq> []);
              nesting = concat (map (\<lambda>(n, p). checkReduceProducerNesting p n rp) (WalkNodes 0 body []))
          in if hasQuorum = hasRun then errf rp ''AWF1035'' [''exactly one'']
             else if hasQuorum then
               (if trimSpace (rd_Field r) = [] then errf rp ''AWF1035'' [''field'']
                else diag_if (mp_MinSuccess v \<noteq> None) (errf rp ''AWF5006'' [''min_success''])
                   @ diag_if (rd_Field r \<in> set QuorumVerdictFields) (errf rp ''AWF1068'' [rd_Field r])
                   @ diag_if (\<not> bodyDeclaresField body (rd_Field r)) (errf rp ''AWF5006'' [rd_Field r])
                   @ nesting)
             else if trimSpace (rd_Container r) = [] then errf rp ''AWF1035'' [''container'']
             else checkContainerRefInScope flow scoped owners (rd_Container r) rp True @ nesting)"

fun walkReduce :: "workflow \<Rightarrow> string list pmap \<Rightarrow> string list \<Rightarrow> nat \<Rightarrow> node list \<Rightarrow> string \<Rightarrow> diagnostic list"
  and walkReduce_node :: "workflow \<Rightarrow> string list pmap \<Rightarrow> string list \<Rightarrow> nat \<Rightarrow> node \<Rightarrow> string \<Rightarrow> diagnostic list"
where
  "walkReduce flow owners scoped i [] parent = []"
| "walkReduce flow owners scoped i (n # ns) parent =
     walkReduce_node flow owners scoped i n parent @ walkReduce flow owners scoped (Suc i) ns parent"
| "walkReduce_node flow owners scoped i (If c th el) parent =
     walkReduce flow owners scoped 0 th (ChildPath parent ''if'' i ''then'')
     @ walkReduce flow owners scoped 0 el (ChildPath parent ''if'' i ''else'')"
| "walkReduce_node flow owners scoped i (Loop u m body) parent =
     walkReduce flow owners scoped 0 body (ChildPath parent ''loop'' i ''body'')"
| "walkReduce_node flow owners scoped i (Try d c f) parent =
     walkReduce flow owners scoped 0 d (ChildPath parent ''try'' i ''do'')
     @ walkReduce flow owners scoped 0 c (ChildPath parent ''try'' i ''catch'')
     @ walkReduce flow owners scoped 0 f (ChildPath parent ''try'' i ''finally'')"
| "walkReduce_node flow owners scoped i (Parallel cs) parent =
     walkReduce flow owners scoped 0 cs (PathFor parent ''parallel'' [] i)"
| "walkReduce_node flow owners scoped i (Gate g e u m) parent =
     walkReduce flow owners scoped 0 g (ChildPath parent ''gate'' i ''generate'')
     @ walkReduce flow owners scoped 0 e (ChildPath parent ''gate'' i ''evaluate'')"
| "walkReduce_node flow owners scoped i (Map v body) parent =
     validateMapReduce flow scoped owners v body (PathFor parent ''map'' [] i)
     @ walkReduce flow owners scoped 0 body (ChildPath parent ''map'' i ''body'')"
| "walkReduce_node flow owners scoped i (Compose v body) parent =
     walkReduce flow owners (if cp_As v \<noteq> [] then cp_As v # scoped else scoped) 0 body (ChildPath parent ''compose'' i ''body'')"
| "walkReduce_node flow owners scoped i n parent = []"

definition validateReduce :: "workflow \<Rightarrow> diagnostic list" where
  "validateReduce flow = walkReduce flow (MapImageTargetOwners flow) [] 0 (wf_Graph flow) []"

subsection \<open>Prune frontiers\<close>

definition lastStepSchema :: "node list \<Rightarrow> goval option" where
  "lastStepSchema body = (if body = [] then None else producer_schema (last body))"

definition schemaHasNumericField :: "goval option \<Rightarrow> string \<Rightarrow> bool" where
  "schemaHasNumericField schema field =
     (case map_of (object_of (field_of schema ''properties'')) field of
        Some (VObject spec) \<Rightarrow> string_of (map_of spec ''type'') \<in> {''number'', ''integer''}
      | _ \<Rightarrow> False)"

definition check_prune :: "prune_spec \<Rightarrow> node list \<Rightarrow> string \<Rightarrow> diagnostic list" where
  "check_prune pr body nodePath =
     (let hasKeep = (pr_Keep pr \<noteq> None); hasStop = (trimSpace (pr_StopWhen pr) \<noteq> [])
      in if pr_Score pr = [] \<or> hasKeep = hasStop then errf nodePath ''AWF1037'' []
         else if (case pr_Keep pr of None \<Rightarrow> False | Some k \<Rightarrow> k \<le> 0) then errf nodePath ''AWF1037'' []
         else diag_if (\<not> schemaHasNumericField (lastStepSchema body) (pr_Score pr)) (errf nodePath ''AWF5008'' []))"

definition validatePrune :: "workflow \<Rightarrow> diagnostic list" where
  "validatePrune flow = each_node flow (\<lambda>n path. case n of
       Map v body \<Rightarrow> (case mp_Prune v of None \<Rightarrow> [] | Some pr \<Rightarrow> check_prune pr body path)
     | _ \<Rightarrow> [])"

subsection \<open>Tools and react steps\<close>

definition reservedReactOutputFields :: "string list" where "reservedReactOutputFields = [''stop_reason'']"

definition check_react :: "workflow \<Rightarrow> react_spec \<Rightarrow> string \<Rightarrow> diagnostic list" where
  "check_react flow r path =
     diag_if (rc_Tools r = []) (errf path ''AWF1052'' [])
     @ concat (map (\<lambda>tn. diag_if (\<not> declared (wf_Tools flow) tn) (errf path ''AWF1053'' [])) (rc_Tools r))
     @ diag_if (rc_MaxTurns r < 0) (errf path ''AWF1054'' [])
     @ concat (map (\<lambda>res. diag_if (declared (object_of (field_of (rc_OutputSchema r) ''properties'')) res)
         (errf path ''AWF1055'' [])) reservedReactOutputFields)
     @ diag_if (string_of (map_of (rc_With r) ''uses'') \<noteq> ''awf/llm'') (errf path ''AWF1057'' [])
     @ diag_if (string_of (map_of (rc_With r) ''structured_output'') = ''ollama_format'') (errf path ''AWF1058'' [])"

definition validateTools :: "workflow \<Rightarrow> diagnostic list" where
  "validateTools flow =
     concat (map (\<lambda>(name, tool). diag_if (tl_Container tool = [] \<or> \<not> declared (wf_Containers flow) (tl_Container tool))
       (errf (''tools.'' @ name) ''AWF1056'' [])) (wf_Tools flow))
     @ each_node flow (\<lambda>n path. case n of React r \<Rightarrow> check_react flow r path | _ \<Rightarrow> [])"

subsection \<open>Misplaced keys, scripts and the staging path\<close>

definition reservedAgentStepKeys :: "string list" where
  "reservedAgentStepKeys = [''id'', ''container'', ''uses'', ''continues'', ''output_schema'', ''output_files'',
     ''skills'', ''input_files'', ''timeout'', ''idempotency_key'', ''retry'']"

definition validateMisplacedWithKeys :: "workflow \<Rightarrow> diagnostic list" where
  "validateMisplacedWithKeys flow = each_node flow (\<lambda>n path. case n of
       AgentStep v \<Rightarrow> concat (map (\<lambda>(key, _). diag_if (key \<in> set reservedAgentStepKeys) (warnf path ''AWF1061'' [])) (as_With v))
     | _ \<Rightarrow> [])"

definition validateStagingLiteral :: "workflow \<Rightarrow> diagnostic list" where
  "validateStagingLiteral flow = each_node flow (\<lambda>n path. case n of
       CodeStep v \<Rightarrow> diag_if (contains (cs_Run v) ''/work/.awf'') (warnf (path @ ''.run'') ''AWF3015'' [])
     | Map v body \<Rightarrow> (case mp_Reduce v of None \<Rightarrow> []
         | Some r \<Rightarrow> diag_if (contains (rd_Run r) ''/work/.awf'') (warnf (path @ ''.reduce.run'') ''AWF3015'' []))
     | _ \<Rightarrow> [])"

definition validateAwfOutputWrites :: "workflow \<Rightarrow> diagnostic list" where
  "validateAwfOutputWrites flow = each_node flow (\<lambda>n path. case n of
       CodeStep v \<Rightarrow> diag_if (cs_OutputSchema v \<noteq> None \<and> \<not> contains (cs_Run v) ''AWF_OUTPUT'') (warnf path ''AWF3006'' [])
     | _ \<Rightarrow> [])"

subsection \<open>Juries\<close>

fun single_boolean :: "string \<Rightarrow> goval pmap \<Rightarrow> string option" where
  "single_boolean found [] = (if found = [] then None else Some found)"
| "single_boolean found ((name, spec) # props) =
     (if string_of (field_of (Some spec) ''type'') = ''boolean''
      then (if found \<noteq> [] then None else single_boolean name props)
      else single_boolean found props)"

definition JuryField :: "jury \<Rightarrow> goval option \<Rightarrow> string option" where
  "JuryField j schema =
     (if ju_Field j \<noteq> [] then Some (ju_Field j)
      else if schema = None then None
      else single_boolean [] (object_of (field_of schema ''properties'')))"

definition uniformKeys :: "goval list \<Rightarrow> bool" where
  "uniformKeys items =
     (case items of [] \<Rightarrow> True
      | x # xs \<Rightarrow> list_all (\<lambda>y. set (map fst (object_of (Some x))) = set (map fst (object_of (Some y)))) xs)"

text \<open>The last argument is the index that may hold a jury: the last node of an \<open>evaluate\<close> list.\<close>

fun jury_walk :: "nat \<Rightarrow> node list \<Rightarrow> string \<Rightarrow> nat option \<Rightarrow> diagnostic list"
  and jury_node :: "nat \<Rightarrow> node \<Rightarrow> string \<Rightarrow> nat option \<Rightarrow> diagnostic list"
where
  "jury_walk i [] parent ex = []"
| "jury_walk i (n # ns) parent ex = jury_node i n parent ex @ jury_walk (Suc i) ns parent ex"
| "jury_node i (AgentStep v) parent ex =
     diag_if (as_Jury v \<noteq> None \<and> ex \<noteq> Some i) (errf (PathFor parent [] (as_ID v) i) ''AWF1072'' [])"
| "jury_node i (If c th el) parent ex =
     jury_walk 0 th (ChildPath parent ''if'' i ''then'') None @ jury_walk 0 el (ChildPath parent ''if'' i ''else'') None"
| "jury_node i (Loop u m body) parent ex = jury_walk 0 body (ChildPath parent ''loop'' i ''body'') None"
| "jury_node i (Try d c f) parent ex =
     jury_walk 0 d (ChildPath parent ''try'' i ''do'') None
     @ jury_walk 0 c (ChildPath parent ''try'' i ''catch'') None
     @ jury_walk 0 f (ChildPath parent ''try'' i ''finally'') None"
| "jury_node i (Parallel cs) parent ex = jury_walk 0 cs (PathFor parent ''parallel'' [] i) None"
| "jury_node i (Gate g e u m) parent ex =
     jury_walk 0 g (ChildPath parent ''gate'' i ''generate'') None
     @ jury_walk 0 e (ChildPath parent ''gate'' i ''evaluate'') (if e = [] then None else Some (length e - 1))"
| "jury_node i (Map v body) parent ex = jury_walk 0 body (ChildPath parent ''map'' i ''body'') None"
| "jury_node i (Compose v body) parent ex = jury_walk 0 body (ChildPath parent ''compose'' i ''body'') None"
| "jury_node i n parent ex = []"

definition checkJuryPlacement :: "workflow \<Rightarrow> diagnostic list" where
  "checkJuryPlacement flow = jury_walk 0 (wf_Graph flow) [] None"

definition ValidateJury :: "workflow \<Rightarrow> diagnostic list" where
  "ValidateJury flow =
     each_node flow (\<lambda>n path. case n of
       AgentStep v \<Rightarrow> (case as_Jury v of
           None \<Rightarrow> []
         | Some j \<Rightarrow>
             if as_OutputSchema v = None then errf path ''AWF1069'' []
             else diag_if (\<not> uniformKeys (ju_Over j)) (errf path ''AWF1070'' [])
                @ diag_if (JuryField j (as_OutputSchema v) = None) (errf path ''AWF1071'' []))
     | _ \<Rightarrow> [])
     @ checkJuryPlacement flow"

subsection \<open>Schemas\<close>

definition checkSchemaWellFormed :: "(goval \<Rightarrow> bool) \<Rightarrow> goval \<Rightarrow> string \<Rightarrow> diagnostic list" where
  "checkSchemaWellFormed compiles schema path = diag_if (\<not> compiles schema) (errf path ''AWF2001'' [])"

definition floorForbidden :: "string list" where
  "floorForbidden = [''oneOf'', ''anyOf'', ''allOf'', ''not'', ''minimum'', ''maximum'', ''exclusiveMinimum'', ''exclusiveMaximum'',
     ''minLength'', ''maxLength'', ''minItems'', ''maxItems'', ''pattern'', ''format'']"

definition floorAllowedTypes :: "string list" where
  "floorAllowedTypes = [''object'', ''array'', ''string'', ''integer'', ''number'', ''boolean'']"

definition floorMaxDepth :: nat where "floorMaxDepth = 10"

definition hasEnum :: "goval pmap \<Rightarrow> bool" where "hasEnum m = declared m ''enum''"

definition required_names :: "goval option \<Rightarrow> string list" where
  "required_names req =
     (case req of Some (VArray vs) \<Rightarrow> concat (map (\<lambda>v. case v of VString s \<Rightarrow> [s] | _ \<Rightarrow> []) vs) | _ \<Rightarrow> [])"

definition floor_object :: "goval pmap \<Rightarrow> string \<Rightarrow> diagnostic list" where
  "floor_object m path =
     (case map_of m ''additionalProperties'' of
        None \<Rightarrow> warnf path ''AWF2002'' [''additionalProperties missing'']
      | Some ap \<Rightarrow> diag_if (ap \<noteq> VBool False) (warnf path ''AWF2002'' [''additionalProperties'']))
     @ concat (map (\<lambda>(name, _). diag_if (name \<notin> set (required_names (map_of m ''required'')))
         (warnf path ''AWF2002'' [''required'', name])) (object_of (map_of m ''properties'')))"

function walkFloor :: "goval pmap \<Rightarrow> string \<Rightarrow> nat \<Rightarrow> diagnostic list" where
  "walkFloor m path depth =
     (if floorMaxDepth < depth then warnf path ''AWF2002'' [''depth'']
      else concat (map (\<lambda>k. diag_if (declared m k) (warnf path ''AWF2002'' [k])) floorForbidden)
         @ (case map_of m ''type'' of
              Some (VString t) \<Rightarrow> diag_if (t \<noteq> [] \<and> t \<notin> set floorAllowedTypes \<and> \<not> hasEnum m) (warnf path ''AWF2002'' [''type'', t])
            | Some (VArray _) \<Rightarrow> warnf path ''AWF2002'' [''type array'']
            | _ \<Rightarrow> [])
         @ diag_if (string_of (map_of m ''type'') = ''object'') (floor_object m path)
         @ diag_if (depth = 0 \<and> string_of (map_of m ''type'') \<noteq> ''object'') (warnf path ''AWF2002'' [''top-level type''])
         @ concat (map (\<lambda>(name, sub). case sub of VObject sm \<Rightarrow> walkFloor sm (path @ ''.properties.'' @ name) (Suc depth) | _ \<Rightarrow> [])
             (object_of (map_of m ''properties'')))
         @ (case map_of m ''items'' of Some (VObject im) \<Rightarrow> walkFloor im (path @ ''.items'') (Suc depth) | _ \<Rightarrow> []))"
  by pat_completeness auto
termination by (relation "measure (\<lambda>(_, _, depth). Suc floorMaxDepth - depth)") auto

declare walkFloor.simps [simp del]

definition checkAgentFloor :: "goval \<Rightarrow> string \<Rightarrow> diagnostic list" where
  "checkAgentFloor schema path = walkFloor (object_of (Some schema)) path 0"

definition check_optional :: "(goval \<Rightarrow> diagnostic list) \<Rightarrow> goval option \<Rightarrow> diagnostic list" where
  "check_optional f v = (case v of None \<Rightarrow> [] | Some x \<Rightarrow> f x)"

definition validateSchema :: "(goval \<Rightarrow> bool) \<Rightarrow> workflow \<Rightarrow> diagnostic list" where
  "validateSchema compiles flow =
     (let well = checkSchemaWellFormed compiles;
          floored = (\<lambda>p s. well s p @ checkAgentFloor s p)
      in check_optional (\<lambda>s. well s ''input'') (wf_InputSchema flow)
         @ check_optional (\<lambda>s. well s ''output_schema'') (wf_OutputSchema flow)
         @ concat (map (\<lambda>(name, tool). check_optional (floored (''tools.'' @ name @ ''.input_schema'')) (tl_InputSchema tool)) (wf_Tools flow))
         @ each_node flow (\<lambda>n path. case n of
             CodeStep v \<Rightarrow> check_optional (\<lambda>s. well s (path @ ''.output_schema'')) (cs_OutputSchema v)
           | AgentStep v \<Rightarrow> check_optional (floored (path @ ''.output_schema'')) (as_OutputSchema v)
           | SignalStep v \<Rightarrow> check_optional (\<lambda>s. well s (path @ ''.output_schema'')) (ss_OutputSchema v)
           | React v \<Rightarrow> check_optional (floored (path @ ''.output_schema'')) (rc_OutputSchema v)
           | _ \<Rightarrow> []))"

subsection \<open>Artifact contracts\<close>

text \<open>
  \<open>unmarshal\<close> is the decoding of a JSON object, \<open>assets\<close> the files the loader read.
\<close>

definition validateSchemaRefAsset ::
  "(goval \<Rightarrow> bool) \<Rightarrow> (string \<Rightarrow> goval option) \<Rightarrow> loaded_asset pmap \<Rightarrow> workflow \<Rightarrow> string \<Rightarrow> string \<Rightarrow> string \<Rightarrow> string \<Rightarrow> string
     \<Rightarrow> diagnostic list" where
  "validateSchemaRefAsset compiles unmarshal assets flow nodePath code label schemaRef schemaPath =
     (case ParseAssetRef schemaRef of
        None \<Rightarrow> errf nodePath code [label, ''asset ref'']
      | Some ident \<Rightarrow>
          if \<not> declared (wf_Assets flow) ident then errf nodePath code [label, ''undeclared'', ident]
          else case map_of assets ident of
                 None \<Rightarrow> []
               | Some asset \<Rightarrow> (case (la_IsDir asset, la_Files asset) of
                     (False, [f]) \<Rightarrow>
                       if sf_Path f \<noteq> ''.'' then errf nodePath code [label, ''single file'', ident]
                       else (case unmarshal (sf_Content f) of
                               None \<Rightarrow> errf nodePath code [label, ''not JSON'', ident]
                             | Some schema \<Rightarrow> checkSchemaWellFormed compiles schema schemaPath)
                   | _ \<Rightarrow> errf nodePath code [label, ''single file'', ident]))"

definition validateArtifactContractMetadata ::
  "(goval \<Rightarrow> bool) \<Rightarrow> (string \<Rightarrow> goval option) \<Rightarrow> loaded_asset pmap \<Rightarrow> workflow \<Rightarrow> string \<Rightarrow> string \<Rightarrow> string \<Rightarrow> string
     \<Rightarrow> artifact_contract \<Rightarrow> diagnostic list" where
  "validateArtifactContractMetadata compiles unmarshal assets flow nodePath code label schemaPath k =
     diag_if (ak_Format k \<notin> {[], ''json'', ''jsonl''}) (errf nodePath code [label, ''format''])
     @ diag_if ((ak_Schema k \<noteq> None \<or> ak_SchemaRef k \<noteq> []) \<and> ak_Format k = []) (errf nodePath code [label, ''schema requires format''])
     @ diag_if (ak_Schema k \<noteq> None \<and> ak_SchemaRef k \<noteq> []) (errf nodePath code [label, ''exclusive''])
     @ check_optional (\<lambda>s. checkSchemaWellFormed compiles s (schemaPath @ ''.schema'')) (ak_Schema k)
     @ diag_if (ak_SchemaRef k \<noteq> [])
         (validateSchemaRefAsset compiles unmarshal assets flow nodePath code label (ak_SchemaRef k) (schemaPath @ ''.schema_ref''))"

definition ContractFromOutputFile :: "output_file \<Rightarrow> artifact_contract" where
  "ContractFromOutputFile f = \<lparr>ak_Format = of_Format f, ak_Schema = of_Schema f, ak_SchemaRef = of_SchemaRef f\<rparr>"

definition check_output_file ::
  "(goval \<Rightarrow> bool) \<Rightarrow> (string \<Rightarrow> goval option) \<Rightarrow> loaded_asset pmap \<Rightarrow> workflow \<Rightarrow> string \<Rightarrow> string pmap \<Rightarrow> output_file \<Rightarrow> diagnostic list" where
  "check_output_file compiles unmarshal assets flow nodePath paths f =
     (let label = ''output_files.'' @ of_Name f
      in diag_if (of_Name f \<noteq> [] \<and> \<not> stepIDPattern (of_Name f)) (errf nodePath ''AWF3009'' [label, ''name''])
         @ diag_if (of_Path f \<noteq> [] \<and> declared paths (of_Path f)) (errf nodePath ''AWF3009'' [label, ''duplicate'', of_Path f])
         @ diag_if (of_Format f \<noteq> [] \<or> of_Schema f \<noteq> None \<or> of_SchemaRef f \<noteq> [])
             (diag_if (of_Name f = []) (errf nodePath ''AWF3009'' [''unnamed''])
              @ diag_if (of_Path f = []) (errf nodePath ''AWF3009'' [label, ''path''])
              @ validateArtifactContractMetadata compiles unmarshal assets flow nodePath ''AWF3009'' label
                  (nodePath @ ''.output_files.'' @ of_Name f) (ContractFromOutputFile f)))"

fun validateOutputFileContracts ::
  "(goval \<Rightarrow> bool) \<Rightarrow> (string \<Rightarrow> goval option) \<Rightarrow> loaded_asset pmap \<Rightarrow> workflow \<Rightarrow> string \<Rightarrow> string pmap \<Rightarrow> output_file list \<Rightarrow> diagnostic list" where
  "validateOutputFileContracts compiles unmarshal assets flow nodePath paths [] = []"
| "validateOutputFileContracts compiles unmarshal assets flow nodePath paths (f # fs) =
     check_output_file compiles unmarshal assets flow nodePath paths f
     @ validateOutputFileContracts compiles unmarshal assets flow nodePath
         (if of_Path f \<noteq> [] \<and> \<not> declared paths (of_Path f) then pm_put (of_Path f) (of_Name f) paths else paths) fs"

definition validateOutputArtifact :: "agent_step \<Rightarrow> string \<Rightarrow> diagnostic list" where
  "validateOutputArtifact v nodePath =
     (if as_OutputArtifact v = [] then []
      else diag_if (\<not> stepIDPattern (as_OutputArtifact v)) (errf nodePath ''AWF3014'' [''name''])
         @ diag_if (as_OutputFiles v \<noteq> []) (errf nodePath ''AWF3014'' [''output_files''])
         @ diag_if (as_OutputSchema v = None) (errf nodePath ''AWF3014'' [''output_schema'']))"

definition validateWorkflowInputFiles ::
  "(goval \<Rightarrow> bool) \<Rightarrow> (string \<Rightarrow> goval option) \<Rightarrow> loaded_asset pmap \<Rightarrow> workflow \<Rightarrow> diagnostic list" where
  "validateWorkflowInputFiles compiles unmarshal assets flow =
     concat (map (\<lambda>(key, k). let path = ''input_files.'' @ key
       in if \<not> stepIDPattern key then errf path ''AWF1050'' [key]
          else validateArtifactContractMetadata compiles unmarshal assets flow path ''AWF1050'' path path k) (by_key (wf_InputFiles flow)))"

definition validateOutputFiles ::
  "(goval \<Rightarrow> bool) \<Rightarrow> (string \<Rightarrow> goval option) \<Rightarrow> loaded_asset pmap \<Rightarrow> workflow \<Rightarrow> diagnostic list" where
  "validateOutputFiles compiles unmarshal assets flow =
     (let contracts = (\<lambda>path files. validateOutputFileContracts compiles unmarshal assets flow path [] files)
      in validateWorkflowInputFiles compiles unmarshal assets flow
         @ each_node flow (\<lambda>n path. case n of
             CodeStep v \<Rightarrow> contracts path (cs_OutputFiles v)
           | AgentStep v \<Rightarrow> contracts path (as_OutputFiles v) @ validateOutputArtifact v path
           | Map v body \<Rightarrow> (case mp_Reduce v of None \<Rightarrow> [] | Some r \<Rightarrow> contracts (path @ ''.reduce'') (rd_OutputFiles r))
           | _ \<Rightarrow> []))"

end
