(* ===== verification/Validate_Refs.thy ===== *)
theory Validate_Refs
  imports Validate_Passes
begin

text \<open>
  The passes of the validator that follow references (src/ir/validate_refs.go and
  src/ir/validate_input_files.go), with the modules of a loaded definition they look call targets
  up in (src/ir/loaded.go).

  A check returns its diagnostics and the identifiers it marks as referenced. The record
  \<open>json_lib\<close> stands for the JSON libraries: whether a schema compiles, \<open>json.Unmarshal\<close> into a value
  and the decoder that keeps numbers as text.
\<close>

subsection \<open>Loaded modules\<close>

record json_lib =
  jl_compiles :: "goval \<Rightarrow> bool"
  jl_unmarshal :: "string \<Rightarrow> goval option"
  jl_decode :: "string \<Rightarrow> goval option"

record loaded_module =
  lm_ID :: string
  lm_Workflow :: "workflow option"
  lm_WorkflowPath :: string
  lm_ComposeFiles :: "string pmap"
  lm_Assets :: "loaded_asset pmap"
  lm_RawDoc :: "goval pmap option"

record import_edge =
  ie_ParentID :: string
  ie_ImportID :: string
  ie_DeclaredPath :: string
  ie_ChildID :: string

record loaded_definition =
  ld_Workflow :: "workflow option"
  ld_WorkflowPath :: string
  ld_ComposeFiles :: "string pmap"
  ld_Assets :: "loaded_asset pmap"
  ld_Modules :: "loaded_module pmap option"
  ld_ImportEdges :: "import_edge list"

definition own_module :: "loaded_definition \<Rightarrow> loaded_module" where
  "own_module ld = \<lparr>lm_ID = [], lm_Workflow = ld_Workflow ld, lm_WorkflowPath = ld_WorkflowPath ld,
     lm_ComposeFiles = ld_ComposeFiles ld, lm_Assets = ld_Assets ld, lm_RawDoc = None\<rparr>"

definition ld_Root :: "loaded_definition \<Rightarrow> loaded_module" where
  "ld_Root ld = (case ld_Modules ld of None \<Rightarrow> own_module ld
     | Some mods \<Rightarrow> (case map_of mods [] of Some m \<Rightarrow> m | None \<Rightarrow> own_module ld))"

definition ld_Module :: "loaded_definition \<Rightarrow> string \<Rightarrow> loaded_module option" where
  "ld_Module ld ident = (case ld_Modules ld of Some mods \<Rightarrow> map_of mods ident
     | None \<Rightarrow> if ident = [] then Some (ld_Root ld) else None)"

text \<open>The root module first, the others by identifier.\<close>

definition WalkModules :: "loaded_definition \<Rightarrow> loaded_module list" where
  "WalkModules ld = (case ld_Modules ld of None \<Rightarrow> [ld_Root ld] | Some mods \<Rightarrow> map snd (by_key mods))"

definition edge_le :: "import_edge \<Rightarrow> import_edge \<Rightarrow> bool" where
  "edge_le a b = key_le [ie_ParentID a, ie_ImportID a, ie_ChildID a, ie_DeclaredPath a]
     [ie_ParentID b, ie_ImportID b, ie_ChildID b, ie_DeclaredPath b]"

definition WalkImportEdges :: "loaded_definition \<Rightarrow> import_edge list" where
  "WalkImportEdges ld = sort_by edge_le (ld_ImportEdges ld)"

definition callTargets :: "loaded_definition \<Rightarrow> string \<Rightarrow> string pmap" where
  "callTargets ld parentID =
     fold (\<lambda>e m. if ie_ParentID e = parentID then pm_put (ie_ImportID e) (ie_ChildID e) m else m) (WalkImportEdges ld) []"

definition callTargetModule :: "loaded_definition \<Rightarrow> string \<Rightarrow> string \<Rightarrow> loaded_module option" where
  "callTargetModule ld parentID importID =
     (case map_of (callTargets ld parentID) importID of None \<Rightarrow> None | Some childID \<Rightarrow> ld_Module ld childID)"

definition call_workflow :: "loaded_definition \<Rightarrow> string \<Rightarrow> string \<Rightarrow> workflow option" where
  "call_workflow ld parentID importID = Option.bind (callTargetModule ld parentID importID) lm_Workflow"

subsection \<open>Producers\<close>

record producer =
  pd_path :: string
  pd_ord :: nat
  pd_kind :: string
  pd_schema :: "goval option"
  pd_reduce :: "reduce_spec option"

definition produces :: "string \<Rightarrow> nat \<Rightarrow> string \<Rightarrow> goval option \<Rightarrow> producer" where
  "produces path ord kind schema = \<lparr>pd_path = path, pd_ord = ord, pd_kind = kind, pd_schema = schema, pd_reduce = None\<rparr>"

definition properties_of :: "goval option \<Rightarrow> goval pmap" where
  "properties_of schema = object_of (field_of schema ''properties'')"

definition callProducerSchema :: "workflow \<Rightarrow> goval option" where
  "callProducerSchema flow =
     (let props = properties_of (wf_OutputSchema flow);
          bound = concat (map (\<lambda>(key, _). case map_of props key of None \<Rightarrow> [] | Some prop \<Rightarrow> [(key, prop)]) (by_key (wf_Outputs flow)))
      in if wf_OutputSchema flow = None \<or> wf_Outputs flow = [] \<or> props = [] \<or> bound = [] then None
         else Some (VObject [(''type'', VString ''object''), (''properties'', VObject bound), (''additionalProperties'', VBool False)]))"

fun producer_of :: "loaded_definition \<Rightarrow> string \<Rightarrow> nat \<Rightarrow> node \<Rightarrow> string \<Rightarrow> (string \<times> producer) option" where
  "producer_of ld moduleID ord (CodeStep v) path = Some (cs_ID v, produces path ord ''code'' (cs_OutputSchema v))"
| "producer_of ld moduleID ord (AgentStep v) path = Some (as_ID v, produces path ord ''agent'' (as_OutputSchema v))"
| "producer_of ld moduleID ord (SignalStep v) path = Some (ss_ID v, produces path ord ''signal'' (ss_OutputSchema v))"
| "producer_of ld moduleID ord (CallStep v) path =
     Some (cl_ID v, produces path ord ''call''
       (case call_workflow ld moduleID (cl_Call v) of None \<Rightarrow> None | Some child \<Rightarrow> callProducerSchema child))"
| "producer_of ld moduleID ord (Map v body) path =
     (if mp_ID v = [] then None
      else case mp_Reduce v of
        Some r \<Rightarrow> Some (mp_ID v, (produces path ord ''map_reduce'' (rd_OutputSchema r))\<lparr>pd_reduce := Some r\<rparr>)
      | None \<Rightarrow> Some (mp_ID v, produces path ord ''map_compact''
          (case MapCompactProducer body of None \<Rightarrow> None | Some (_, schema) \<Rightarrow> schema)))"
| "producer_of ld moduleID ord (React v) path =
     (if rc_ID v = [] \<or> CHR ''.'' \<in> set path then None else Some (rc_ID v, produces path ord ''react'' (rc_OutputSchema v)))"
| "producer_of ld moduleID ord n path = None"

definition indexModuleProducers :: "loaded_definition \<Rightarrow> string \<Rightarrow> node list \<Rightarrow> producer pmap" where
  "indexModuleProducers ld moduleID graph =
     fold (\<lambda>(ord, n, path) m. case producer_of ld moduleID ord n path of None \<Rightarrow> m | Some (ident, p) \<Rightarrow> pm_put ident p m)
       (enumerate 0 (WalkNodes 0 graph [])) []"

definition producers_with_input :: "loaded_definition \<Rightarrow> string \<Rightarrow> workflow \<Rightarrow> producer pmap" where
  "producers_with_input ld moduleID flow =
     (let ps = indexModuleProducers ld moduleID (wf_Graph flow)
      in case wf_InputSchema flow of None \<Rightarrow> ps | Some s \<Rightarrow> pm_put ''input'' (produces ''input'' 0 ''input'' (Some s)) ps)"

definition mapsByPath :: "node list \<Rightarrow> map_spec pmap" where
  "mapsByPath graph = fold (\<lambda>(n, path) m. case n of Map v body \<Rightarrow> pm_put path v m | _ \<Rightarrow> m) (WalkNodes 0 graph []) []"

definition lastEvaluatorProducerID :: "node list \<Rightarrow> string" where
  "lastEvaluatorProducerID nodes =
     (if nodes = [] then []
      else case last nodes of
        CodeStep v \<Rightarrow> cs_ID v | AgentStep v \<Rightarrow> as_ID v | SignalStep v \<Rightarrow> ss_ID v | Map v body \<Rightarrow> mp_ID v | _ \<Rightarrow> [])"

subsection \<open>Scopes that block a reference\<close>

definition isGateScope :: "string \<Rightarrow> bool" where
  "isGateScope sc = hasPrefix (last (splitDot sc)) ''gate[''"

text \<open>
  The scopes of the producer from the innermost outward, over the reversed segments of its path: a
  map body the reference is outside of blocks it, a gate only for a producer that is not under its
  \<open>generate\<close>. The result is the blocking scope and whether a gate was passed before it.
\<close>

fun blocking_from :: "string \<Rightarrow> string \<Rightarrow> bool \<Rightarrow> string list \<Rightarrow> (string \<times> bool) option" where
  "blocking_from producerPath refSite peeled [] = None"
| "blocking_from producerPath refSite peeled (seg # outer) =
     (let sc = joinDot (rev (seg # outer))
      in if seg = ''body'' \<and> outer \<noteq> [] \<and> hasPrefix (hd outer) ''map[''
           then (if pathWithinScope refSite sc then None else Some (sc, peeled))
         else if hasPrefix seg ''gate['' then
           (if pathWithinScope refSite sc then None
            else if \<not> hasPrefix (trimPrefix producerPath (sc @ ''.'')) ''generate.'' then Some (sc, peeled)
            else blocking_from producerPath refSite True outer)
         else blocking_from producerPath refSite peeled outer)"

definition blockingScope :: "string \<Rightarrow> string \<Rightarrow> (string \<times> bool) option" where
  "blockingScope producerPath refSite = blocking_from producerPath refSite False (rev (splitDot producerPath))"

subsection \<open>References\<close>

type_synonym found = "diagnostic list \<times> string list"

definition complain :: "diagnostic list \<Rightarrow> found" where "complain ds = (ds, [])"

definition both :: "found \<Rightarrow> found \<Rightarrow> found" where "both a b = (fst a @ fst b, snd a @ snd b)"

definition all_found :: "found list \<Rightarrow> found" where "all_found fs = foldr both fs ([], [])"

definition renderRef :: "segment list \<Rightarrow> string" where
  "renderRef ref = joinDot (map (\<lambda>s. if IsIndex s then itoa (int (Index s)) else Ident s) ref)"

definition checkSchemaField :: "string \<Rightarrow> string \<Rightarrow> string \<Rightarrow> goval option \<Rightarrow> diagnostic list" where
  "checkSchemaField path ident field schema =
     (if schema = None then errf path ''AWF3001'' [''no schema'', ident, field]
      else diag_if (\<not> declared (properties_of schema) field) (errf path ''AWF3001'' [''undeclared'', ident, field]))"

definition malformed_step :: "string \<Rightarrow> segment list \<Rightarrow> diagnostic list" where
  "malformed_step path ref = errf path ''AWF3001'' [''malformed step'', renderRef ref]"

text \<open>A reference to an array of outputs: the whole of it or one field of every element.\<close>

definition aggregate_ref :: "string \<Rightarrow> string \<Rightarrow> segment list \<Rightarrow> goval option \<Rightarrow> found" where
  "aggregate_ref path ident ref schema =
     (if length ref = 2 then []
      else if IsIndex (ref ! 2) then malformed_step path ref
      else let field = Ident (ref ! 2)
           in if field \<in> {''exit_code'', ''stdout''} then errf path ''AWF5005'' [renderRef ref]
              else checkSchemaField path ident field schema, [ident])"

definition checkReducedMapRef :: "string \<Rightarrow> string \<Rightarrow> segment list \<Rightarrow> reduce_spec \<Rightarrow> found" where
  "checkReducedMapRef path ident ref r =
     (if length ref = 2 then []
      else if IsIndex (ref ! 2) then malformed_step path ref
      else let field = Ident (ref ! 2)
           in if IsQuorum r then
                diag_if (field \<noteq> rd_Field r \<and> field \<notin> set QuorumVerdictFields) (errf path ''AWF3001'' [''quorum'', ident, field])
              else checkSchemaField path ident field (rd_OutputSchema r), [ident])"

definition plain_step_ref :: "producer \<Rightarrow> string \<Rightarrow> string \<Rightarrow> segment list \<Rightarrow> found" where
  "plain_step_ref p path ident ref =
     (if length ref < 3 \<or> IsIndex (ref ! 2) then complain (malformed_step path ref)
      else case blockingScope (pd_path p) path of
        Some (sc, peeled) \<Rightarrow> complain (errf path (if isGateScope sc \<or> peeled then ''AWF5003'' else ''AWF5002'') [renderRef ref])
      | None \<Rightarrow>
          let field = Ident (ref ! 2)
          in if field \<in> {''exit_code'', ''stdout''} then
               (if pd_kind p \<noteq> ''code'' then complain (errf path ''AWF3001'' [ident, pd_kind p, field]) else ([], [ident]))
             else if pd_kind p = ''react'' \<and> field \<in> set reservedReactOutputFields then ([], [ident])
             else let ds = checkSchemaField path ident field (pd_schema p) in (ds, if ds = [] then [ident] else []))"

definition step_ref :: "producer pmap \<Rightarrow> map_spec pmap \<Rightarrow> string \<Rightarrow> string \<Rightarrow> segment list \<Rightarrow> found" where
  "step_ref producers maps overSink path ref =
     (if length ref < 2 \<or> IsIndex (ref ! 1) then complain (malformed_step path ref)
      else let ident = Ident (ref ! 1)
      in case map_of producers ident of
        None \<Rightarrow> complain (errf path ''AWF3001'' [''undeclared step'', ident])
      | Some p \<Rightarrow>
          if pd_kind p \<in> {''map_reduce'', ''map_compact''} \<and> pathWithinScope path (pd_path p)
            then complain (errf path ''AWF5010'' [renderRef ref])
          else if pd_kind p = ''map_reduce'' then
            (case pd_reduce p of Some r \<Rightarrow> checkReducedMapRef path ident ref r | None \<Rightarrow> ([], [ident]))
          else if pd_kind p = ''map_compact'' then
            (if overSink = [] \<or> overSink = pd_path p then complain (errf path ''AWF5004'' [renderRef ref])
             else aggregate_ref path ident ref (pd_schema p))
          else case SingleMapBodyShape (pd_path p) of
            None \<Rightarrow> plain_step_ref p path ident ref
          | Some (mapPath, _) \<Rightarrow>
              if pathWithinScope path mapPath \<and> \<not> pathWithinScope path (mapPath @ ''.body'')
                then complain (errf path ''AWF5002'' [renderRef ref])
              else if pathWithinScope path mapPath then plain_step_ref p path ident ref
              else case Option.bind (map_of maps mapPath) mp_Reduce of
                Some r \<Rightarrow> checkReducedMapRef path ident ref r
              | None \<Rightarrow> if overSink = [] then complain (errf path ''AWF5004'' [renderRef ref])
                        else aggregate_ref path ident ref (pd_schema p))"

definition input_ref :: "producer pmap \<Rightarrow> string \<Rightarrow> segment list \<Rightarrow> diagnostic list" where
  "input_ref producers path ref =
     (if length ref < 2 \<or> IsIndex (ref ! 1) then errf path ''AWF3001'' [''malformed input'', renderRef ref]
      else let field = Ident (ref ! 1)
           in case Option.bind (map_of producers ''input'') pd_schema of
                None \<Rightarrow> errf path ''AWF3001'' [''no input schema'', field]
              | Some s \<Rightarrow> diag_if (\<not> declared (properties_of (Some s)) field) (errf path ''AWF3001'' [''input field'', field]))"

definition react_ref :: "producer pmap \<Rightarrow> string \<Rightarrow> segment list \<Rightarrow> found" where
  "react_ref producers path ref =
     (let rootID = Ident (hd ref)
      in case map_of producers rootID of
           None \<Rightarrow> ([], [])
         | Some p \<Rightarrow>
             if pd_kind p \<noteq> ''react'' then ([], [])
             else if length ref < 2 \<or> IsIndex (ref ! 1) then complain (errf path ''AWF3001'' [''malformed react'', rootID, renderRef ref])
             else let field = Ident (ref ! 1)
                  in if field \<in> set reservedReactOutputFields then ([], [rootID])
                     else let ds = checkSchemaField path rootID field (pd_schema p) in (ds, if ds = [] then [rootID] else []))"

definition checkRef :: "producer pmap \<Rightarrow> map_spec pmap \<Rightarrow> bool \<Rightarrow> string \<Rightarrow> string \<Rightarrow> segment list \<Rightarrow> found" where
  "checkRef producers maps evaluateAllowed overSink path ref =
     (if ref = [] then ([], [])
      else let rootID = Ident (hd ref)
      in if rootID = ''step'' then step_ref producers maps overSink path ref
         else if rootID = ''input'' then complain (input_ref producers path ref)
         else if rootID = ''run'' then
           complain (diag_if (length ref \<noteq> 2 \<or> IsIndex (ref ! 1) \<or> Ident (ref ! 1) \<noteq> ''id'') (errf path ''AWF3001'' [''run'', renderRef ref]))
         else if rootID = ''evaluate'' then complain (diag_if (\<not> evaluateAllowed) (errf path ''AWF5001'' [renderRef ref]))
         else react_ref producers path ref)"

definition walkTemplateRefs :: "string \<Rightarrow> string \<Rightarrow> (segment list \<Rightarrow> found) \<Rightarrow> found" where
  "walkTemplateRefs src path visit =
     (if src = [] then ([], [])
      else case Slots src of
        Inl _ \<Rightarrow> complain (errf path ''AWF3001'' [''malformed template''])
      | Inr slots \<Rightarrow> all_found (map (\<lambda>sl.
          let inner = trimSpace (Inner sl)
          in if inner = [] then complain (errf path ''AWF3001'' [''empty slot''])
             else case ParseRef inner of
                    Inl _ \<Rightarrow> complain (errf path ''AWF3001'' [''invalid reference'', inner])
                  | Inr ref \<Rightarrow> visit ref) slots))"

definition checkTemplateRefs :: "producer pmap \<Rightarrow> map_spec pmap \<Rightarrow> bool \<Rightarrow> string \<Rightarrow> string \<Rightarrow> string \<Rightarrow> found" where
  "checkTemplateRefs producers maps evaluateAllowed overSink src path =
     walkTemplateRefs src path (checkRef producers maps evaluateAllowed overSink path)"

definition checkExprRefs :: "producer pmap \<Rightarrow> map_spec pmap \<Rightarrow> bool \<Rightarrow> string \<Rightarrow> string \<Rightarrow> string \<Rightarrow> found" where
  "checkExprRefs producers maps evaluateAllowed overSink src path =
     (if src = [] then ([], [])
      else case ParseExpr (UnwrapEnvelope src) of
        Inl _ \<Rightarrow> complain (errf path ''AWF3001'' [''invalid expression''])
      | Inr e \<Rightarrow> all_found (map (checkRef producers maps evaluateAllowed overSink path) (References e)))"

definition checkReduceRef :: "producer pmap \<Rightarrow> map_spec pmap \<Rightarrow> bool \<Rightarrow> string \<Rightarrow> segment list \<Rightarrow> found" where
  "checkReduceRef producers maps evaluateAllowed path ref =
     (let plain = checkRef producers maps evaluateAllowed [] path ref
      in if 2 \<le> length ref \<and> Ident (ref ! 0) = ''step'' \<and> \<not> IsIndex (ref ! 1)
         then case map_of producers (Ident (ref ! 1)) of
                None \<Rightarrow> plain
              | Some p \<Rightarrow> (case SingleMapBodyShape (pd_path p) of
                    Some (mapPath, _) \<Rightarrow>
                      if pathWithinScope path (mapPath @ ''.reduce'') then aggregate_ref path (Ident (ref ! 1)) ref (pd_schema p) else plain
                  | None \<Rightarrow> plain)
         else plain)"

definition checkReduceTemplateRefs :: "producer pmap \<Rightarrow> map_spec pmap \<Rightarrow> bool \<Rightarrow> string \<Rightarrow> string \<Rightarrow> found" where
  "checkReduceTemplateRefs producers maps evaluateAllowed src path =
     walkTemplateRefs src path (checkReduceRef producers maps evaluateAllowed path)"

definition checkReduceRefs :: "producer pmap \<Rightarrow> map_spec pmap \<Rightarrow> bool \<Rightarrow> reduce_spec option \<Rightarrow> string \<Rightarrow> found" where
  "checkReduceRefs producers maps evaluateAllowed rd mapPath =
     (case rd of
        None \<Rightarrow> ([], [])
      | Some r \<Rightarrow> both
          (if rd_Run r = [] then ([], []) else checkReduceTemplateRefs producers maps evaluateAllowed (rd_Run r) (mapPath @ ''.reduce.run''))
          (all_found (map (\<lambda>f. checkReduceTemplateRefs producers maps evaluateAllowed (of_Path f)
             (if of_Name f = [] then mapPath @ ''.reduce.output_files'' else mapPath @ ''.reduce.output_files.'' @ of_Name f))
             (rd_OutputFiles r))))"

definition markQuorumFieldReferenced :: "map_spec \<Rightarrow> node list \<Rightarrow> string list" where
  "markQuorumFieldReferenced v body =
     (case mp_Reduce v of
        None \<Rightarrow> []
      | Some r \<Rightarrow> let field = trimSpace (rd_Field r)
          in if rd_Quorum r = None \<or> field = [] then []
             else concat (map (\<lambda>(n, _). if declares_field (producer_schema n) field then [node_id n] else []) (WalkNodes 0 body [])))"

subsection \<open>Shell hosts\<close>

definition field_is_string :: "goval option \<Rightarrow> string \<Rightarrow> bool" where
  "field_is_string schema field = (string_of (field_of (map_of (properties_of schema) field) ''type'') = ''string'')"

definition refIsStringTyped :: "producer pmap \<Rightarrow> segment list \<Rightarrow> bool" where
  "refIsStringTyped producers ref =
     (if ref = [] then False
      else if Ident (hd ref) = ''step'' then
        (if length ref < 3 \<or> IsIndex (ref ! 1) \<or> IsIndex (ref ! 2) then False
         else let field = Ident (ref ! 2)
              in if field = ''exit_code'' then False
                 else if field = ''stdout'' then True
                 else field_is_string (Option.bind (map_of producers (Ident (ref ! 1))) pd_schema) field)
      else if Ident (hd ref) = ''input'' then
        (if length ref < 2 \<or> IsIndex (ref ! 1) then False
         else field_is_string (Option.bind (map_of producers ''input'') pd_schema) (Ident (ref ! 1)))
      else False)"

definition slotIsShellQuoted :: "string \<Rightarrow> slot \<Rightarrow> bool" where
  "slotIsShellQuoted host sl =
     (if Start sl = 0 \<or> length host \<le> End sl then False
      else let before = host ! (Start sl - 1); next = host ! End sl
           in (before = CHR 0x22 \<and> next = CHR 0x22) \<or> (before = CHR 0x27 \<and> next = CHR 0x27))"

definition checkShellHostInjection :: "producer pmap \<Rightarrow> string \<Rightarrow> string \<Rightarrow> diagnostic list" where
  "checkShellHostInjection producers src path =
     (case Slots src of
        Inl _ \<Rightarrow> []
      | Inr slots \<Rightarrow> concat (map (\<lambda>sl.
          case ParseRef (trimSpace (Inner sl)) of
            Inl _ \<Rightarrow> []
          | Inr ref \<Rightarrow> diag_if (refIsStringTyped producers ref \<and> \<not> slotIsShellQuoted src sl) (warnf path ''AWF3013'' [])) slots))"

subsection \<open>The pass over the graph\<close>

definition code_refs :: "producer pmap \<Rightarrow> map_spec pmap \<Rightarrow> bool \<Rightarrow> string \<Rightarrow> string \<Rightarrow> found" where
  "code_refs producers maps ev src path =
     both (checkTemplateRefs producers maps ev [] src path) (complain (checkShellHostInjection producers src path))"

definition code_step_refs :: "producer pmap \<Rightarrow> map_spec pmap \<Rightarrow> bool \<Rightarrow> code_step \<Rightarrow> string \<Rightarrow> found" where
  "code_step_refs producers maps ev v path =
     both (code_refs producers maps ev (cs_Run v) (path @ ''.run''))
       (case cs_IdempotencyKey v of None \<Rightarrow> ([], []) | Some k \<Rightarrow> code_refs producers maps ev k (path @ ''.idempotency_key''))"

definition agent_step_refs :: "producer pmap \<Rightarrow> map_spec pmap \<Rightarrow> bool \<Rightarrow> agent_step \<Rightarrow> string \<Rightarrow> found" where
  "agent_step_refs producers maps ev v path =
     both (case as_IdempotencyKey v of None \<Rightarrow> ([], []) | Some k \<Rightarrow> code_refs producers maps ev k (path @ ''.idempotency_key''))
    (both (case as_Skills v of None \<Rightarrow> ([], [])
           | Some r \<Rightarrow> both (complain (checkFieldSize (sr_Query r) (path @ ''.skills.query'')))
                           (checkTemplateRefs producers maps ev [] (sr_Query r) (path @ ''.skills.query'')))
      (all_found (map (\<lambda>(k, x). case x of VString t \<Rightarrow> checkTemplateRefs producers maps ev [] t (path @ ''.with.'' @ k) | _ \<Rightarrow> ([], []))
         (by_key (as_With v)))))"

fun walkRefs :: "producer pmap \<Rightarrow> map_spec pmap \<Rightarrow> bool \<Rightarrow> nat \<Rightarrow> node list \<Rightarrow> string \<Rightarrow> found"
  and walkRefs_node :: "producer pmap \<Rightarrow> map_spec pmap \<Rightarrow> bool \<Rightarrow> nat \<Rightarrow> node \<Rightarrow> string \<Rightarrow> found"
where
  "walkRefs ps maps ev i [] parent = ([], [])"
| "walkRefs ps maps ev i (n # ns) parent = both (walkRefs_node ps maps ev i n parent) (walkRefs ps maps ev (Suc i) ns parent)"
| "walkRefs_node ps maps ev i (CodeStep v) parent = code_step_refs ps maps ev v (PathFor parent [] (cs_ID v) i)"
| "walkRefs_node ps maps ev i (AgentStep v) parent = agent_step_refs ps maps ev v (PathFor parent [] (as_ID v) i)"
| "walkRefs_node ps maps ev i (If c th el) parent =
     both (checkExprRefs ps maps ev [] c (PathFor parent ''if'' [] i @ ''.cond''))
    (both (walkRefs ps maps ev 0 th (ChildPath parent ''if'' i ''then''))
          (walkRefs ps maps ev 0 el (ChildPath parent ''if'' i ''else'')))"
| "walkRefs_node ps maps ev i (Loop u m body) parent =
     both (case u of None \<Rightarrow> ([], []) | Some e \<Rightarrow> checkExprRefs ps maps ev [] e (PathFor parent ''loop'' [] i @ ''.until''))
          (walkRefs ps maps ev 0 body (ChildPath parent ''loop'' i ''body''))"
| "walkRefs_node ps maps ev i (Try d c f) parent =
     both (walkRefs ps maps ev 0 d (ChildPath parent ''try'' i ''do''))
    (both (walkRefs ps maps ev 0 c (ChildPath parent ''try'' i ''catch''))
          (walkRefs ps maps ev 0 f (ChildPath parent ''try'' i ''finally'')))"
| "walkRefs_node ps maps ev i (Parallel cs) parent = walkRefs ps maps ev 0 cs (PathFor parent ''parallel'' [] i)"
| "walkRefs_node ps maps ev i (Gate g e u m) parent =
     both (checkExprRefs ps maps True [] u (PathFor parent ''gate'' [] i @ ''.until''))
    (both (walkRefs ps maps True 0 g (ChildPath parent ''gate'' i ''generate''))
    (both (walkRefs ps maps False 0 e (ChildPath parent ''gate'' i ''evaluate''))
          ([], if lastEvaluatorProducerID e \<noteq> [] then [lastEvaluatorProducerID e] else [])))"
| "walkRefs_node ps maps ev i (Map v body) parent =
     (let path = PathFor parent ''map'' [] i
      in both (checkExprRefs ps maps ev path (mp_Over v) (path @ ''.over''))
        (both (walkRefs ps maps ev 0 body (ChildPath parent ''map'' i ''body''))
        (both (checkReduceRefs ps maps ev (mp_Reduce v) path) ([], markQuorumFieldReferenced v body))))"
| "walkRefs_node ps maps ev i (Compose v body) parent =
     both (checkTemplateRefs ps maps ev [] (cp_Service v) (PathFor parent ''compose'' [] i @ ''.service''))
          (walkRefs ps maps ev 0 body (ChildPath parent ''compose'' i ''body''))"
| "walkRefs_node ps maps ev i n parent = ([], [])"

subsection \<open>Template values\<close>

definition reemitDiagnosticsAs :: "string \<Rightarrow> diagnostic list \<Rightarrow> diagnostic list" where
  "reemitDiagnosticsAs code ds =
     concat (map (\<lambda>d. if d_Severity d = Error then errf (d_Path d) code (d_Code d # d_Msg d) else []) ds)"

fun walkTemplateValueStrings :: "producer pmap \<Rightarrow> map_spec pmap \<Rightarrow> string \<Rightarrow> string \<Rightarrow> goval \<Rightarrow> found"
  and template_elements :: "producer pmap \<Rightarrow> map_spec pmap \<Rightarrow> string \<Rightarrow> nat \<Rightarrow> string \<Rightarrow> goval list \<Rightarrow> found"
where
  "walkTemplateValueStrings ps maps code path (VString s) =
     (let r = checkTemplateRefs ps maps False [] s path in (reemitDiagnosticsAs code (fst r), snd r))"
| "walkTemplateValueStrings ps maps code path (VArray vs) = template_elements ps maps code 0 path vs"
| "walkTemplateValueStrings ps maps code path (VObject kvs) =
     all_found (map snd (by_key (map (\<lambda>(k, v). (k, walkTemplateValueStrings ps maps code (path @ ''.'' @ k) v)) kvs)))"
| "walkTemplateValueStrings ps maps code path _ = ([], [])"
| "template_elements ps maps code i path [] = ([], [])"
| "template_elements ps maps code i path (v # vs) =
     both (walkTemplateValueStrings ps maps code (bracketed path i) v) (template_elements ps maps code (Suc i) path vs)"

definition validateTemplateValueRefs ::
  "json_lib \<Rightarrow> producer pmap \<Rightarrow> map_spec pmap \<Rightarrow> string \<Rightarrow> string \<Rightarrow> string pmap \<Rightarrow> found" where
  "validateTemplateValueRefs jl ps maps code basePath values =
     all_found (map (\<lambda>(key, raw). let path = (if key = [] then basePath else basePath @ ''.'' @ key)
       in case jl_unmarshal jl raw of
            None \<Rightarrow> complain (errf path code [''invalid JSON''])
          | Some v \<Rightarrow> walkTemplateValueStrings ps maps code path v) (by_key values))"

definition markTemplateValueRefsReferenced :: "json_lib \<Rightarrow> producer pmap \<Rightarrow> map_spec pmap \<Rightarrow> workflow \<Rightarrow> string list" where
  "markTemplateValueRefsReferenced jl ps maps flow =
     concat (map (\<lambda>(n, path). case n of
         CallStep v \<Rightarrow> snd (validateTemplateValueRefs jl ps maps ''AWF3001'' (path @ ''.input'') (cl_Input v))
       | _ \<Rightarrow> []) (WalkNodes 0 (wf_Graph flow) []))
     @ concat (map (\<lambda>(key, raw). snd (validateTemplateValueRefs jl ps maps ''AWF3001'' (''outputs.'' @ key) [([], raw)]))
         (by_key (wf_Outputs flow)))"

definition validateRefsModule :: "json_lib \<Rightarrow> loaded_definition \<Rightarrow> string \<Rightarrow> workflow \<Rightarrow> diagnostic list" where
  "validateRefsModule jl ld moduleID flow =
     (let ps = producers_with_input ld moduleID flow;
          maps = mapsByPath (wf_Graph flow);
          (ds, marks) = walkRefs ps maps False 0 (wf_Graph flow) [];
          referenced = marks @ markTemplateValueRefsReferenced jl ps maps flow
      in ds @ concat (map (\<lambda>(ident, p). diag_if (pd_kind p = ''agent'' \<and> pd_schema p \<noteq> None \<and> ident \<notin> set referenced)
           (warnf (pd_path p) ''AWF3002'' [ident])) ps))"

subsection \<open>Input files\<close>

definition nodeOrder :: "node list \<Rightarrow> nat pmap" where
  "nodeOrder graph = fold (\<lambda>(ord, _, path) m. pm_put path ord m) (enumerate 0 (WalkNodes 0 graph [])) []"

definition exported_files :: "workflow \<Rightarrow> output_file list" where
  "exported_files child = map (\<lambda>(name, path). \<lparr>of_Name = name, of_Path = path, of_Format = [], of_Schema = None, of_SchemaRef = []\<rparr>)
     (by_key (wf_ArtifactExports child))"

definition outputFilesByStepIDForModule :: "loaded_definition \<Rightarrow> string \<Rightarrow> workflow \<Rightarrow> output_file list pmap" where
  "outputFilesByStepIDForModule ld moduleID flow =
     fold (\<lambda>(n, _) m. case n of
         CallStep v \<Rightarrow> (case call_workflow ld moduleID (cl_Call v) of
             Some child \<Rightarrow> if wf_ArtifactExports child = [] then m else pm_put (cl_ID v) (exported_files child) m
           | None \<Rightarrow> m)
       | _ \<Rightarrow> m) (WalkNodes 0 (wf_Graph flow) []) (OutputFilesByStepID (wf_Graph flow))"

text \<open>What a check of an artifact reference reads of a module.\<close>

record ref_index =
  ix_producers :: "producer pmap"
  ix_order :: "nat pmap"
  ix_outFiles :: "output_file list pmap"
  ix_maps :: "map_spec pmap"

definition ref_index_of :: "producer pmap \<Rightarrow> loaded_definition \<Rightarrow> string \<Rightarrow> workflow \<Rightarrow> ref_index" where
  "ref_index_of ps ld moduleID flow = \<lparr>ix_producers = ps, ix_order = nodeOrder (wf_Graph flow),
     ix_outFiles = outputFilesByStepIDForModule ld moduleID flow, ix_maps = mapsByPath (wf_Graph flow)\<rparr>"

definition validateParsedNamedArtifactRef ::
  "ref_index \<Rightarrow> string \<Rightarrow> string \<Rightarrow> string \<Rightarrow> string \<Rightarrow> string \<Rightarrow> diagnostic list" where
  "validateParsedNamedArtifactRef ix diagnosticPath consumerPath label ident name =
     (case map_of (ix_producers ix) ident of
        None \<Rightarrow> errf diagnosticPath ''AWF3007'' [label, ident, ''undeclared'']
      | Some p \<Rightarrow>
          if pd_kind p = ''map_reduce'' \<and> pathWithinScope consumerPath (pd_path p)
            then errf diagnosticPath ''AWF3007'' [label, ident, ''own map'']
          else if (case map_of (ix_order ix) consumerPath of None \<Rightarrow> False | Some ord \<Rightarrow> ord \<le> pd_ord p)
            then errf diagnosticPath ''AWF3007'' [label, ident, ''not before'']
          else let reducer = (case SingleMapBodyShape (pd_path p) of
                 Some (mapPath, _) \<Rightarrow> if \<not> pathWithinScope consumerPath mapPath
                                      then Option.bind (map_of (ix_maps ix) mapPath) mp_Reduce else None
               | None \<Rightarrow> None)
          in case reducer of
               Some r \<Rightarrow> diag_if (PathForName (rd_OutputFiles r) name = None) (errf diagnosticPath ''AWF3007'' [label, ident, name, ''reducer''])
             | None \<Rightarrow>
                 if PathForName (lookup [] (ix_outFiles ix) ident) name = None
                   then errf diagnosticPath ''AWF3007'' [label, ident, name, ''no artifact'']
                 else diag_if (blockingScope (pd_path p) consumerPath \<noteq> None) (errf diagnosticPath ''AWF3007'' [label, ident, ''scope'']))"

definition validateInputFileRef ::
  "ref_index \<Rightarrow> artifact_contract pmap \<Rightarrow> string pmap \<Rightarrow> string \<Rightarrow> string \<Rightarrow> string \<Rightarrow> string \<Rightarrow> diagnostic list" where
  "validateInputFileRef ix workflowInputFiles assets diagnosticPath consumerPath label raw =
     (if contains raw ''{{'' \<or> contains raw ''}}'' then errf diagnosticPath ''AWF3007'' [label, ''template'']
      else case ParseWorkflowInputFileRef raw of
        Some name \<Rightarrow> diag_if (\<not> declared workflowInputFiles name) (errf diagnosticPath ''AWF3007'' [label, name, ''input file''])
      | None \<Rightarrow> (case ParseAssetRef raw of
          Some ident \<Rightarrow> diag_if (\<not> declared assets ident) (errf diagnosticPath ''AWF3007'' [label, ident, ''asset''])
        | None \<Rightarrow> (case ParseArtifactRef raw of
            None \<Rightarrow> errf diagnosticPath ''AWF3007'' [label, raw]
          | Some (ident, name) \<Rightarrow> validateParsedNamedArtifactRef ix diagnosticPath consumerPath label ident name)))"

definition validateNamedArtifactRef :: "ref_index \<Rightarrow> string \<Rightarrow> string \<Rightarrow> string \<Rightarrow> diagnostic list" where
  "validateNamedArtifactRef ix nodePath label raw =
     (if contains raw ''{{'' \<or> contains raw ''}}'' then errf nodePath ''AWF3007'' [label, ''template'']
      else case ParseArtifactRef raw of
        None \<Rightarrow> errf nodePath ''AWF3007'' [label, raw]
      | Some (ident, name) \<Rightarrow> validateParsedNamedArtifactRef ix nodePath nodePath label ident name)"

fun adjacent_overlaps :: "string \<Rightarrow> string list \<Rightarrow> diagnostic list" where
  "adjacent_overlaps nodePath (prev # cur # rest) =
     diag_if (prev = cur \<or> inputFileDestinationAncestor prev cur) (errf nodePath ''AWF3007'' [prev, cur])
     @ adjacent_overlaps nodePath (cur # rest)"
| "adjacent_overlaps nodePath _ = []"

definition validateInputFileDestinationOverlap :: "string \<Rightarrow> string list \<Rightarrow> diagnostic list" where
  "validateInputFileDestinationOverlap nodePath dsts = adjacent_overlaps nodePath (slices_Sort dsts)"

text \<open>The entries of one \<open>input_files\<close> map, and the destinations among them that are well formed.\<close>

definition check_inputs ::
  "ref_index \<Rightarrow> workflow \<Rightarrow> string \<Rightarrow> (string \<Rightarrow> string) \<Rightarrow> (string \<Rightarrow> bool) \<Rightarrow> string pmap \<Rightarrow> diagnostic list" where
  "check_inputs ix flow nodePath label dst_ok inputs =
     concat (map (\<lambda>(dst, raw). if \<not> dst_ok dst then errf nodePath ''AWF3007'' [label dst, ''destination'']
       else validateInputFileRef ix (wf_InputFiles flow) (wf_Assets flow) nodePath nodePath (label dst) raw) inputs)"

definition abs_clean :: "string \<Rightarrow> bool" where
  "abs_clean dst = (path_IsAbs dst \<and> dst = path_Clean dst)"

definition input_label :: "string \<Rightarrow> string" where
  "input_label dst = ''input_files['' @ dst @ '']''"

definition validateReactToolInputFiles :: "ref_index \<Rightarrow> workflow \<Rightarrow> react_spec \<Rightarrow> string \<Rightarrow> diagnostic list" where
  "validateReactToolInputFiles ix flow r reactPath =
     concat (map (\<lambda>toolName. case map_of (wf_Tools flow) toolName of
         None \<Rightarrow> []
       | Some tool \<Rightarrow>
           check_inputs ix flow reactPath (\<lambda>dst. ''tool '' @ toolName @ '' '' @ input_label dst) abs_clean (tl_InputFiles tool)
           @ validateInputFileDestinationOverlap reactPath (filter abs_clean (map fst (tl_InputFiles tool)))) (rc_Tools r))"

definition staged_inputs :: "ref_index \<Rightarrow> workflow \<Rightarrow> string \<Rightarrow> string pmap \<Rightarrow> diagnostic list" where
  "staged_inputs ix flow path inputs =
     check_inputs ix flow path input_label abs_clean inputs
     @ validateInputFileDestinationOverlap path (filter abs_clean (map fst inputs))"

definition validateInputFilesModule :: "loaded_definition \<Rightarrow> string \<Rightarrow> workflow \<Rightarrow> diagnostic list" where
  "validateInputFilesModule ld moduleID flow =
     (let ix = ref_index_of (indexModuleProducers ld moduleID (wf_Graph flow)) ld moduleID flow
      in each_node flow (\<lambda>n path. case n of
           Compose v body \<Rightarrow> validateNamedArtifactRef ix path ''compose.from'' (cp_From v)
         | React r \<Rightarrow> validateReactToolInputFiles ix flow r path
         | CodeStep v \<Rightarrow> staged_inputs ix flow path (cs_InputFiles v)
         | AgentStep v \<Rightarrow>
             if as_Container v \<noteq> [] then staged_inputs ix flow path (as_InputFiles v)
             else check_inputs ix flow path input_label stepIDPattern (as_InputFiles v)
                @ diag_if (as_InputFiles v \<noteq> []) (warnf path ''AWF2003'' [])
         | _ \<Rightarrow> []))"

subsection \<open>Calls\<close>

definition schemaType :: "goval option \<Rightarrow> string" where
  "schemaType schema = string_of (field_of schema ''type'')"

definition schemaRequired :: "goval option \<Rightarrow> string list" where
  "schemaRequired schema = slices_Sort (required_names (field_of schema ''required''))"

definition isTemplatedString :: "goval \<Rightarrow> bool" where
  "isTemplatedString v = (case v of VString s \<Rightarrow> contains s ''{{'' \<or> contains s ''}}'' | _ \<Rightarrow> False)"

definition staticValueMatchesSchemaType :: "goval \<Rightarrow> goval \<Rightarrow> bool" where
  "staticValueMatchesSchemaType v prop =
     (case prop of
        VObject spec \<Rightarrow>
          let t = string_of (map_of spec ''type'')
          in if t = ''string'' then (case v of VString _ \<Rightarrow> True | _ \<Rightarrow> False)
             else if t = ''number'' then (case v of VNumber _ \<Rightarrow> True | _ \<Rightarrow> False)
             else if t = ''integer'' then (case v of VNumber s \<Rightarrow> parse_int64 s \<noteq> None | _ \<Rightarrow> False)
             else if t = ''boolean'' then (case v of VBool _ \<Rightarrow> True | _ \<Rightarrow> False)
             else if t = ''array'' then (case v of VArray _ \<Rightarrow> True | _ \<Rightarrow> False)
             else if t = ''object'' then (case v of VObject _ \<Rightarrow> True | _ \<Rightarrow> False)
             else if t = ''null'' then v = VNil
             else True
      | _ \<Rightarrow> True)"

definition validateCallInputContract :: "json_lib \<Rightarrow> string \<Rightarrow> string pmap \<Rightarrow> goval option \<Rightarrow> diagnostic list" where
  "validateCallInputContract jl nodePath input schema =
     (let inputPath = nodePath @ ''.input''
      in if schema = None then diag_if (input \<noteq> []) (errf inputPath ''AWF1047'' [''no schema''])
         else if schemaType schema \<notin> {[], ''object''} then errf inputPath ''AWF1047'' [''object'']
         else concat (map (\<lambda>name. diag_if (\<not> declared input name) (errf inputPath ''AWF1047'' [''missing'', name])) (schemaRequired schema))
            @ concat (map (\<lambda>(key, raw). let path = inputPath @ ''.'' @ key
                in case map_of (properties_of schema) key of
                     None \<Rightarrow> diag_if (field_of schema ''additionalProperties'' = Some (VBool False)) (errf path ''AWF1047'' [''undeclared'', key])
                   | Some prop \<Rightarrow> (case jl_decode jl raw of
                       None \<Rightarrow> errf path ''AWF1047'' [''invalid JSON'']
                     | Some v \<Rightarrow> diag_if (\<not> isTemplatedString v \<and> \<not> staticValueMatchesSchemaType v prop)
                                   (errf path ''AWF1047'' [''type'', key]))) (by_key input)))"

definition validateCallInputFiles ::
  "ref_index \<Rightarrow> loaded_definition \<Rightarrow> string \<Rightarrow> string \<Rightarrow> string pmap \<Rightarrow> artifact_contract pmap \<Rightarrow> diagnostic list" where
  "validateCallInputFiles ix ld moduleID nodePath inputFiles childInputFiles =
     (let inputPath = nodePath @ ''.input_files'';
          parent = ld_Module ld moduleID;
          flow = Option.bind parent lm_Workflow;
          assets = (case flow of None \<Rightarrow> [] | Some w \<Rightarrow> wf_Assets w);
          parentInputFiles = (case flow of None \<Rightarrow> [] | Some w \<Rightarrow> wf_InputFiles w)
      in concat (map (\<lambda>(name, _). diag_if (\<not> declared inputFiles name) (errf (inputPath @ ''.'' @ name) ''AWF1051'' [''missing'', name]))
           (by_key childInputFiles))
         @ concat (map (\<lambda>(name, raw). let path = inputPath @ ''.'' @ name
             in diag_if (\<not> declared childInputFiles name) (errf path ''AWF1051'' [''undeclared'', name])
                @ validateInputFileRef ix parentInputFiles assets path nodePath (''input_files.'' @ name) raw
                @ (case (ParseAssetRef raw, parent) of
                     (Some ident, Some m) \<Rightarrow> (case map_of (lm_Assets m) ident of
                         Some asset \<Rightarrow> diag_if (la_IsDir asset) (errf path ''AWF1051'' [''directory'', ident]) | None \<Rightarrow> [])
                   | _ \<Rightarrow> [])) (by_key inputFiles)))"

definition validateCalls :: "json_lib \<Rightarrow> loaded_definition \<Rightarrow> string \<Rightarrow> workflow \<Rightarrow> diagnostic list" where
  "validateCalls jl ld moduleID flow =
     (let ps = producers_with_input ld moduleID flow; ix = ref_index_of ps ld moduleID flow
      in each_node flow (\<lambda>n path. case n of
           CallStep v \<Rightarrow>
             (if cl_Call v = [] then errf path ''AWF1046'' [''empty'']
              else if \<not> declared (callTargets ld moduleID) (cl_Call v) then errf path ''AWF1046'' [cl_Call v]
              else case call_workflow ld moduleID (cl_Call v) of
                     None \<Rightarrow> []
                   | Some child \<Rightarrow> validateCallInputContract jl path (cl_Input v) (wf_InputSchema child)
                       @ validateCallInputFiles ix ld moduleID path (cl_InputFiles v) (wf_InputFiles child))
             @ fst (validateTemplateValueRefs jl ps (ix_maps ix) ''AWF1047'' (path @ ''.input'') (cl_Input v))
         | _ \<Rightarrow> []))"

subsection \<open>Outputs\<close>

definition step_ids_in :: "string \<Rightarrow> string list" where
  "step_ids_in s = snd (walkTemplateRefs s [] (\<lambda>ref.
     if 2 \<le> length ref \<and> Ident (ref ! 0) = ''step'' \<and> \<not> IsIndex (ref ! 1) then ([], [Ident (ref ! 1)]) else ([], [])))"

fun value_step_refs :: "goval \<Rightarrow> string list" where
  "value_step_refs (VString s) = step_ids_in s"
| "value_step_refs (VArray vs) = concat (map value_step_refs vs)"
| "value_step_refs (VObject kvs) = concat (map (\<lambda>(_, v). value_step_refs v) kvs)"
| "value_step_refs _ = []"

definition outputStepRefs :: "json_lib \<Rightarrow> string \<Rightarrow> string list" where
  "outputStepRefs jl raw = (case jl_unmarshal jl raw of None \<Rightarrow> [] | Some v \<Rightarrow> rev (remdups (rev (value_step_refs v))))"

definition conditionallyScoped :: "string \<Rightarrow> bool" where
  "conditionallyScoped staticPath = list_ex (\<lambda>s. hasPrefix s ''if['' \<or> hasPrefix s ''loop['') (splitDot staticPath)"

definition check_output :: "json_lib \<Rightarrow> producer pmap \<Rightarrow> map_spec pmap \<Rightarrow> workflow \<Rightarrow> string \<Rightarrow> string \<Rightarrow> diagnostic list" where
  "check_output jl ps maps flow key raw =
     (let path = ''outputs.'' @ key
      in diag_if (wf_OutputSchema flow \<noteq> None \<and> \<not> declared (properties_of (wf_OutputSchema flow)) key) (errf path ''AWF1048'' [''undeclared'', key])
         @ fst (validateTemplateValueRefs jl ps maps ''AWF1048'' path [([], raw)])
         @ concat (map (\<lambda>ident. case map_of ps ident of
               None \<Rightarrow> []
             | Some p \<Rightarrow> diag_if (conditionallyScoped (pd_path p)) (warnf path ''AWF3012'' [key, ident, pd_path p])) (outputStepRefs jl raw)))"

definition validateWorkflowExports :: "json_lib \<Rightarrow> loaded_definition \<Rightarrow> string \<Rightarrow> workflow \<Rightarrow> diagnostic list" where
  "validateWorkflowExports jl ld moduleID flow =
     (let ps = producers_with_input ld moduleID flow; ix = ref_index_of ps ld moduleID flow
      in diag_if (wf_Outputs flow \<noteq> [] \<and> wf_OutputSchema flow = None) (errf ''outputs'' ''AWF1048'' [''requires output_schema''])
         @ concat (map (\<lambda>key. diag_if (\<not> declared (wf_Outputs flow) key) (errf (''outputs.'' @ key) ''AWF1048'' [''required'', key]))
             (schemaRequired (wf_OutputSchema flow)))
         @ concat (map (\<lambda>(key, raw). check_output jl ps (ix_maps ix) flow key raw) (by_key (wf_Outputs flow)))
         @ concat (map (\<lambda>(key, raw). let path = ''output_files.'' @ key
             in if \<not> stepIDPattern key then errf path ''AWF1049'' [key]
                else reemitDiagnosticsAs ''AWF1049'' (validateNamedArtifactRef ix path path raw)) (by_key (wf_ArtifactExports flow))))"

end
