(* ===== verification/Key_Distance.thy ===== *)
theory Key_Distance
  imports Go_Json
begin

text \<open>
  The suggestion for a misspelt key and the edit distance it is chosen by
  (src/ir/validate_unknown_keys.go).
\<close>

subsection \<open>The distance between two keys\<close>

text \<open>
  One row of the table from the row above it: \<open>left\<close> is the entry just computed, \<open>diag\<close> the entry
  above it.
\<close>

fun next_row :: "char \<Rightarrow> string \<Rightarrow> nat \<Rightarrow> nat \<Rightarrow> nat list \<Rightarrow> nat list" where
  "next_row c (d # b) left diag (up # row) =
     (let cur = min (up + 1) (min (left + 1) (diag + (if c = d then 0 else 1)))
      in cur # next_row c b cur up row)"
| "next_row c _ left diag _ = []"

definition lev_row :: "string \<Rightarrow> nat \<Rightarrow> char \<Rightarrow> nat list \<Rightarrow> nat list" where
  "lev_row b i c prev = i # next_row c b i (hd prev) (tl prev)"

fun lev_rows :: "string \<Rightarrow> nat \<Rightarrow> string \<Rightarrow> nat list \<Rightarrow> nat list" where
  "lev_rows b i [] prev = prev"
| "lev_rows b i (c # a) prev = lev_rows b (Suc i) a (lev_row b i c prev)"

definition levenshtein :: "string \<Rightarrow> string \<Rightarrow> nat" where
  "levenshtein a b = lev_rows b 1 a [0..<Suc (length b)] ! length b"

definition didYouMean :: "string \<Rightarrow> string list \<Rightarrow> string" where
  "didYouMean key allowed =
     (let best = fold (\<lambda>cand (bestDist, best). let d = levenshtein key cand
            in if d < bestDist \<or> d = bestDist \<and> cand \<noteq> best \<and> str_le cand best then (d, cand) else (bestDist, best))
            allowed (3, [])
      in if snd best = [] \<or> 2 < fst best then [] else '' (did you mean '' @ [CHR 0x22] @ snd best @ [CHR 0x22] @ ''?)'')"

subsection \<open>Edits\<close>

text \<open>\<open>edits n a b\<close>: \<open>n\<close> insertions, deletions and replacements of a character turn \<open>a\<close> into \<open>b\<close>.\<close>

inductive edits :: "nat \<Rightarrow> string \<Rightarrow> string \<Rightarrow> bool" where
  Done: "edits 0 [] []"
| Keep: "edits n a b \<Longrightarrow> edits n (c # a) (c # b)"
| Replace: "edits n a b \<Longrightarrow> edits (Suc n) (c # a) (d # b)"
| Delete: "edits n a b \<Longrightarrow> edits (Suc n) (c # a) b"
| Insert: "edits n a b \<Longrightarrow> edits (Suc n) a (d # b)"

text \<open>The recurrence of the table, on the reversed prefixes.\<close>

fun edit_dist :: "string \<Rightarrow> string \<Rightarrow> nat" where
  "edit_dist [] b = length b"
| "edit_dist (c # a) [] = Suc (length a)"
| "edit_dist (c # a) (d # b) = min (edit_dist a (d # b) + 1) (min (edit_dist (c # a) b + 1) (edit_dist a b + (if c = d then 0 else 1)))"

lemma edit_dist_Nil [simp]: "edit_dist a [] = length a"
  by (cases a) simp_all

lemma edits_append: "edits n a b \<Longrightarrow> edits m a' b' \<Longrightarrow> edits (n + m) (a @ a') (b @ b')"
  by (induction rule: edits.induct) (auto intro: edits.intros)

lemma edits_rev: "edits n a b \<Longrightarrow> edits n (rev a) (rev b)"
proof (induction rule: edits.induct)
  case (Keep n a b c)
  then show ?case using edits_append [OF Keep.IH edits.Keep [OF edits.Done]] by simp
next
  case (Replace n a b c d)
  then show ?case using edits_append [OF Replace.IH edits.Replace [OF edits.Done]] by simp
next
  case (Delete n a b c)
  then show ?case using edits_append [OF Delete.IH edits.Delete [OF edits.Done]] by simp
next
  case (Insert n a b d)
  then show ?case using edits_append [OF Insert.IH edits.Insert [OF edits.Done]] by simp
qed (simp add: edits.Done)

lemma edits_dist: "edits (edit_dist a b) a b"
proof (induction a b rule: edit_dist.induct)
  case (1 b)
  show ?case by (induction b) (auto intro: edits.intros)
next
  case (2 c a)
  have "edits (length a) a []" for a by (induction a) (auto intro: edits.intros)
  from this [of "c # a"] show ?case by simp
next
  case (3 c a d b)
  then show ?case
    by (auto simp: min_def intro: edits.intros split: if_splits)
qed

lemma dist_Cons_le: "edit_dist (c # a) b \<le> Suc (edit_dist a b)" "edit_dist a (d # b) \<le> Suc (edit_dist a b)"
proof -
  show "edit_dist (c # a) b \<le> Suc (edit_dist a b)" by (cases b) simp_all
  show "edit_dist a (d # b) \<le> Suc (edit_dist a b)" by (cases a) simp_all
qed

lemma dist_same: "edit_dist (c # a) (c # b) \<le> edit_dist a b"
  by simp

lemma dist_least: "edits n a b \<Longrightarrow> edit_dist a b \<le> n"
proof (induction rule: edits.induct)
  case (Delete n a b c)
  then show ?case using dist_Cons_le(1) [of c a b] by simp
next
  case (Insert n a b d)
  then show ?case using dist_Cons_le(2) [of a d b] by simp
qed (auto simp: min_def)

subsection \<open>The table\<close>

lemma nth_next_row:
  "length row = length b \<Longrightarrow> j < length b \<Longrightarrow> left = edit_dist (c # ra) rb \<Longrightarrow> diag = edit_dist ra rb \<Longrightarrow>
   (\<And>k. k < length b \<Longrightarrow> row ! k = edit_dist ra (rev (take (Suc k) b) @ rb)) \<Longrightarrow>
   next_row c b left diag row ! j = edit_dist (c # ra) (rev (take (Suc j) b) @ rb)"
proof (induction b arbitrary: row left diag rb j)
  case (Cons d b)
  then obtain up row' where row: "row = up # row'" "length row' = length b" by (cases row) auto
  have up: "up = edit_dist ra (d # rb)" using Cons.prems(5) [of 0] row by simp
  let ?cur = "min (up + 1) (min (left + 1) (diag + (if c = d then 0 else 1)))"
  have cur: "?cur = edit_dist (c # ra) (d # rb)" using Cons.prems(3,4) up by simp
  have rest: "row' ! k = edit_dist ra (rev (take (Suc k) b) @ d # rb)" if "k < length b" for k
    using Cons.prems(5) [of "Suc k"] row that by simp
  show ?case
  proof (cases j)
    case 0
    then show ?thesis using row cur by (simp add: Let_def)
  next
    case (Suc j')
    then show ?thesis
      using Cons.IH [OF row(2) _ cur up rest, of j'] Cons.prems(2) row by (simp add: Let_def)
  qed
qed simp

lemma length_next_row: "length row = length b \<Longrightarrow> length (next_row c b left diag row) = length b"
  by (induction b arbitrary: row left diag) (auto simp: Let_def length_Suc_conv)

definition row_of :: "string \<Rightarrow> string \<Rightarrow> nat list" where
  "row_of ra b = map (\<lambda>j. edit_dist ra (rev (take j b))) [0..<Suc (length b)]"

lemma lev_row_of: "i = Suc (length ra) \<Longrightarrow> lev_row b i c (row_of ra b) = row_of (c # ra) b"
proof (rule nth_equalityI)
  assume i: "i = Suc (length ra)"
  have parts: "hd (row_of ra b) = length ra" "length (tl (row_of ra b)) = length b"
    "\<And>k. k < length b \<Longrightarrow> tl (row_of ra b) ! k = edit_dist ra (rev (take (Suc k) b))"
    by (simp_all add: row_of_def nth_tl hd_conv_nth del: upt_Suc)
  show len: "length (lev_row b i c (row_of ra b)) = length (row_of (c # ra) b)"
    using length_next_row [OF parts(2)] by (simp add: lev_row_def row_of_def del: upt_Suc)
  fix j assume "j < length (lev_row b i c (row_of ra b))"
  then have j: "j \<le> length b" using len by (simp add: row_of_def)
  show "lev_row b i c (row_of ra b) ! j = row_of (c # ra) b ! j"
  proof (cases j)
    case 0
    then show ?thesis using i by (simp add: lev_row_def row_of_def del: upt_Suc)
  next
    case (Suc k)
    then have "next_row c b i (hd (row_of ra b)) (tl (row_of ra b)) ! k = edit_dist (c # ra) (rev (take (Suc k) b) @ [])"
      using j i parts by (intro nth_next_row) simp_all
    then show ?thesis using Suc j by (simp add: lev_row_def row_of_def del: upt_Suc)
  qed
qed

lemma lev_rows_of: "i = Suc (length ra) \<Longrightarrow> lev_rows b i a (row_of ra b) = row_of (rev a @ ra) b"
proof (induction a arbitrary: i ra)
  case (Cons c a)
  then show ?case using Cons.IH [of "Suc i" "c # ra"] by (simp add: lev_row_of)
qed simp

lemma levenshtein_dist: "levenshtein a b = edit_dist (rev a) (rev b)"
proof -
  have "[0..<Suc (length b)] = row_of [] b" by (rule nth_equalityI) (simp_all add: row_of_def del: upt_Suc)
  then show ?thesis unfolding levenshtein_def using lev_rows_of [of 1 "[]" b a] by (simp add: row_of_def del: upt_Suc)
qed

text \<open>
  The table of \<open>levenshtein\<close> computes the edit distance: its result is the least number of
  insertions, deletions and replacements that turn one key into the other.
\<close>

lemma levenshtein_is_least: "edits (levenshtein a b) a b \<and> (\<forall>n. edits n a b \<longrightarrow> levenshtein a b \<le> n)"
proof
  show "edits (levenshtein a b) a b"
    using edits_rev [OF edits_dist [of "rev a" "rev b"]] by (simp add: levenshtein_dist)
  show "\<forall>n. edits n a b \<longrightarrow> levenshtein a b \<le> n"
    using dist_least [OF edits_rev] by (simp add: levenshtein_dist)
qed

lemma levenshtein_is_least_witness:
  "levenshtein ''cat'' ''cut'' \<le> 1 \<and> levenshtein ''cat'' ''cut'' = 1"
proof -
  have "edits 1 ''cat'' ''cut''" by (simp add: edits.Keep edits.Replace edits.Done)
  then have "levenshtein ''cat'' ''cut'' \<le> 1" using levenshtein_is_least by blast
  moreover have "levenshtein ''cat'' ''cut'' = 1" by code_simp
  ultimately show ?thesis by simp
qed

end
