(* ===== verification/Validate_Raw.thy ===== *)
theory Validate_Raw
  imports Validate_Refs Key_Distance
begin

text \<open>
  The passes of the validator over the undecoded document (src/ir/validate_unknown_keys.go and
  src/ir/validate_duration_scalars.go), the check of the compose files (src/ir/validate_compose.go) and the entry point of the validator
  (src/ir/validate.go). The keys a Go struct accepts are read off its JSON tags
  (src/ir/types.go, src/ir/node.go, src/ir/reduce.go).
\<close>

subsection \<open>Unknown keys\<close>

definition controlKeys :: "string list" where
  "controlKeys = [''if'', ''loop'', ''try'', ''parallel'', ''gate'', ''skip'', ''map'', ''compose'', ''react'']"

definition stepKeys :: "string list" where
  "stepKeys = [''run'', ''uses'', ''await'', ''call'']"

text \<open>The JSON tags of the struct of a node kind.\<close>

definition allowedJSONKeys :: "string \<Rightarrow> string list" where
  "allowedJSONKeys kind =
     (if kind = ''run'' then [''id'', ''container'', ''run'', ''timeout'', ''output_schema'', ''output_files'', ''input_files'', ''idempotency_key'', ''retry'']
      else if kind = ''uses'' then [''id'', ''container'', ''uses'', ''with'', ''continues'', ''output_schema'', ''output_files'', ''output_artifact'',
        ''skills'', ''input_files'', ''timeout'', ''idempotency_key'', ''retry'', ''jury'']
      else if kind = ''await'' then [''id'', ''await'', ''where'', ''timeout'', ''output_schema'']
      else if kind = ''call'' then [''id'', ''call'', ''input'', ''input_files'']
      else if kind = ''if'' then [''cond'', ''then'', ''else'']
      else if kind = ''loop'' then [''until'', ''max_iters'', ''body'']
      else if kind = ''try'' then [''do'', ''catch'', ''finally'']
      else if kind = ''gate'' then [''generate'', ''evaluate'', ''until'', ''max_attempts'']
      else if kind = ''map'' then [''id'', ''over'', ''as'', ''container'', ''image'', ''concurrency'', ''min_success'', ''body'', ''reduce'', ''prune'']
      else if kind = ''compose'' then [''as'', ''from'', ''service'', ''body'']
      else if kind = ''react'' then [''id'', ''with'', ''prompt'', ''tools'', ''max_turns'', ''output_schema'']
      else [])"

definition reduceJSONKeys :: "string list" where
  "reduceJSONKeys = [''quorum'', ''field'', ''run'', ''container'', ''output_schema'', ''output_files'']"

definition workflowJSONKeys :: "string list" where
  "workflowJSONKeys = [''workflow'', ''version'', ''input_schema'', ''input_files'', ''env'', ''assets'', ''skills'', ''imports'', ''agents'',
     ''containers'', ''output_schema'', ''outputs'', ''output_files'', ''tools'', ''graph'']"

definition checkUnknownKeys :: "string \<Rightarrow> string list \<Rightarrow> string list \<Rightarrow> string list \<Rightarrow> bool \<Rightarrow> diagnostic list" where
  "checkUnknownKeys path keys allowed renamed tolerateX =
     concat (map (\<lambda>k.
       if tolerateX \<and> hasPrefix k ''x-'' then []
       else if k \<in> set allowed then []
       else if k \<in> set renamed then errf path ''AWF1066'' [k]
       else errf path ''AWF1062'' [k, didYouMean k allowed]) keys)"

definition rawNodeKind :: "goval pmap \<Rightarrow> string" where
  "rawNodeKind m = (case filter (\<lambda>k. k \<in> set controlKeys \<or> k \<in> set stepKeys) (map fst m) of [k] \<Rightarrow> k | _ \<Rightarrow> [])"

definition rawStepID :: "goval pmap \<Rightarrow> string" where
  "rawStepID m = string_of (map_of m ''id'')"

text \<open>The branches of a control node that hold nodes, in the order they are walked.\<close>

definition child_branches :: "string \<Rightarrow> string list" where
  "child_branches kind =
     (if kind = ''if'' then [''then'', ''else'']
      else if kind = ''try'' then [''do'', ''catch'', ''finally'']
      else if kind = ''gate'' then [''generate'', ''evaluate'']
      else if kind \<in> {''loop'', ''map'', ''compose''} then [''body'']
      else [])"

definition array_of :: "goval option \<Rightarrow> goval list" where
  "array_of v = (case v of Some (VArray vs) \<Rightarrow> vs | _ \<Rightarrow> [])"

abbreviation entries_size :: "goval pmap \<Rightarrow> nat" where
  "entries_size \<equiv> size_list (size_prod (\<lambda>_. 0) size)"

lemma entry_smaller: "map_of m k = Some v \<Longrightarrow> size v < entries_size m"
proof -
  assume "map_of m k = Some v"
  then have "(k, v) \<in> set m" by (rule map_of_SomeD)
  then show ?thesis by (induction m) auto
qed

lemma branch_smaller: "size_list size (array_of (map_of m k)) \<le> entries_size m"
  using entry_smaller [of m k] by (fastforce simp: array_of_def split: option.split goval.split)

lemma inner_branch_smaller:
  assumes "map_of m k = Some (VObject inner)"
  shows "2 * size_list size (array_of (map_of inner b)) < Suc (2 * entries_size m)"
  using entry_smaller [OF assms] branch_smaller [of inner b] by simp

function walkRawNodeList :: "string \<Rightarrow> nat \<Rightarrow> goval list \<Rightarrow> diagnostic list"
  and walkRawNode :: "string \<Rightarrow> nat \<Rightarrow> goval pmap \<Rightarrow> diagnostic list"
where
  "walkRawNodeList parent i [] = []"
| "walkRawNodeList parent i (e # es) =
     (case e of VObject m \<Rightarrow> walkRawNode parent i m | _ \<Rightarrow> []) @ walkRawNodeList parent (Suc i) es"
| "walkRawNode parent i m =
     (let kind = rawNodeKind m
      in if kind = [] then []
         else if kind \<in> set stepKeys then
           checkUnknownKeys (PathFor parent [] (rawStepID m) i) (map fst m) (allowedJSONKeys kind) [] False
         else let path = PathFor parent kind [] i
           in checkUnknownKeys path (map fst m) [kind] [] False
              @ (if kind = ''parallel'' then walkRawNodeList path 0 (array_of (map_of m kind))
                 else if kind = ''skip'' then []
                 else case map_of m kind of
                   Some (VObject inner) \<Rightarrow>
                     checkUnknownKeys path (map fst inner) (allowedJSONKeys kind) [] False
                     @ concat (map (\<lambda>b. walkRawNodeList (path @ ''.'' @ b) 0 (array_of (map_of inner b))) (child_branches kind))
                     @ (case map_of inner ''reduce'' of
                          Some (VObject red) \<Rightarrow> diag_if (kind = ''map'')
                            (checkUnknownKeys (path @ ''.reduce'') (map fst red) reduceJSONKeys [''over''] False)
                        | _ \<Rightarrow> [])
                 | _ \<Rightarrow> []))"
  by pat_completeness auto
termination
  by (relation "measure (\<lambda>x. case x of Inl (_, _, es) \<Rightarrow> 2 * size_list size es | Inr (_, _, m) \<Rightarrow> Suc (2 * entries_size m))")
    (auto intro: le_imp_less_Suc inner_branch_smaller simp: branch_smaller)

declare walkRawNode.simps [simp del]

definition validateUnknownKeys :: "goval pmap option \<Rightarrow> diagnostic list" where
  "validateUnknownKeys rawDoc =
     (case rawDoc of
        None \<Rightarrow> []
      | Some raw \<Rightarrow> checkUnknownKeys [] (map fst raw) workflowJSONKeys [''input''] True
          @ walkRawNodeList [] 0 (array_of (map_of raw ''graph'')))"

subsection \<open>Durations\<close>

definition checkDurationKey :: "goval pmap \<Rightarrow> string \<Rightarrow> string \<Rightarrow> diagnostic list" where
  "checkDurationKey m key path =
     (case map_of m key of None \<Rightarrow> [] | Some VNil \<Rightarrow> [] | Some (VString _) \<Rightarrow> [] | Some _ \<Rightarrow> errf path ''AWF1063'' [key])"

definition checkTimeoutKey :: "goval pmap \<Rightarrow> string \<Rightarrow> diagnostic list" where
  "checkTimeoutKey m path =
     (case map_of m ''timeout'' of
        Some (VObject sub) \<Rightarrow> checkDurationKey sub ''wall'' (path @ ''.timeout'') @ checkDurationKey sub ''idle'' (path @ ''.timeout'')
      | _ \<Rightarrow> checkDurationKey m ''timeout'' path)"

definition check_retry_durations :: "goval pmap \<Rightarrow> string \<Rightarrow> diagnostic list" where
  "check_retry_durations m path =
     (case map_of m ''retry'' of
        Some (VObject r) \<Rightarrow> checkDurationKey r ''initial'' (path @ ''.retry'') @ checkDurationKey r ''max'' (path @ ''.retry'')
      | _ \<Rightarrow> [])"

function walkDurationNodeList :: "string \<Rightarrow> nat \<Rightarrow> goval list \<Rightarrow> diagnostic list"
  and walkDurationNode :: "string \<Rightarrow> nat \<Rightarrow> goval pmap \<Rightarrow> diagnostic list"
where
  "walkDurationNodeList parent i [] = []"
| "walkDurationNodeList parent i (e # es) =
     (case e of VObject m \<Rightarrow> walkDurationNode parent i m | _ \<Rightarrow> []) @ walkDurationNodeList parent (Suc i) es"
| "walkDurationNode parent i m =
     (let kind = rawNodeKind m
      in if kind = [] then []
         else if kind \<in> set stepKeys then
           (let path = PathFor parent [] (rawStepID m) i
            in (if kind \<in> {''run'', ''uses''} then checkTimeoutKey m path else checkDurationKey m ''timeout'' path)
               @ check_retry_durations m path)
         else let path = PathFor parent kind [] i
           in if kind = ''parallel'' then walkDurationNodeList path 0 (array_of (map_of m kind))
              else if kind = ''skip'' then []
              else case map_of m kind of
                Some (VObject inner) \<Rightarrow>
                  concat (map (\<lambda>b. walkDurationNodeList (path @ ''.'' @ b) 0 (array_of (map_of inner b))) (child_branches kind))
              | _ \<Rightarrow> [])"
  by pat_completeness auto
termination
  by (relation "measure (\<lambda>x. case x of Inl (_, _, es) \<Rightarrow> 2 * size_list size es | Inr (_, _, m) \<Rightarrow> Suc (2 * entries_size m))")
    (auto intro: le_imp_less_Suc inner_branch_smaller simp: branch_smaller)

declare walkDurationNode.simps [simp del]

definition validateDurationScalars :: "goval pmap option \<Rightarrow> diagnostic list" where
  "validateDurationScalars rawDoc =
     (case rawDoc of
        None \<Rightarrow> []
      | Some raw \<Rightarrow> walkDurationNodeList [] 0 (array_of (map_of raw ''graph''))
          @ concat (map (\<lambda>(name, t). case field_of (Some t) ''impl'' of
                Some (VObject impl) \<Rightarrow> (let path = ''tools.'' @ name @ ''.impl''
                  in checkDurationKey impl ''timeout'' path @ check_retry_durations impl path)
              | _ \<Rightarrow> []) (object_of (map_of raw ''tools''))))"

subsection \<open>Compose files\<close>

text \<open>
  The YAML, compose and digest libraries: the value of a YAML document, the services of a compose
  project with their images, and the algorithm of a well-formed digest.
\<close>

record compose_lib =
  cl_yaml :: "string \<Rightarrow> goval option"
  cl_load :: "string \<Rightarrow> string \<Rightarrow> string pmap option"
  cl_digest :: "string \<Rightarrow> string option"

definition hasFileFollowingDirective :: "compose_lib \<Rightarrow> string \<Rightarrow> bool" where
  "hasFileFollowingDirective lib content =
     (case cl_yaml lib content of
        Some (VObject doc) \<Rightarrow> declared doc ''include''
          \<or> list_ex (\<lambda>(_, svc). field_of (Some svc) ''extends'' \<noteq> None \<or> field_of (Some svc) ''label_file'' \<noteq> None)
              (object_of (map_of doc ''services''))
      | _ \<Rightarrow> False)"

definition validSHA256DigestPinnedImage :: "compose_lib \<Rightarrow> string \<Rightarrow> bool" where
  "validSHA256DigestPinnedImage lib img =
     (CHR ''@'' \<in> set img \<and> last img \<noteq> CHR ''@''
      \<and> cl_digest lib (rev (takeWhile (\<lambda>c. c \<noteq> CHR ''@'') (rev img))) = Some ''sha256'')"

definition ValidateComposeBytes :: "compose_lib \<Rightarrow> string \<Rightarrow> string \<Rightarrow> string list \<Rightarrow> (string \<times> string list) list" where
  "ValidateComposeBytes lib filename content requiredServices =
     (if hasFileFollowingDirective lib content then [(''AWF3005'', [])]
      else case cl_load lib filename content of
        None \<Rightarrow> [(''AWF3004'', [])]
      | Some services \<Rightarrow>
          concat (map (\<lambda>(name, img). if img = [] then [(''AWF3003'', [name])]
            else if \<not> validSHA256DigestPinnedImage lib img then [(''AWF3003'', [name, img])] else []) services)
          @ concat (map (\<lambda>req. let svc = trimSpace req
              in if svc = [] then [(''AWF3008'', [])] else if \<not> declared services svc then [(''AWF3008'', [svc])] else []) requiredServices))"

definition validateCompose :: "compose_lib \<Rightarrow> string pmap \<Rightarrow> workflow \<Rightarrow> diagnostic list" where
  "validateCompose lib composeFiles flow =
     concat (map (\<lambda>(name, ctr).
       if ct_Compose ctr = [] then []
       else case map_of composeFiles (ct_Compose ctr) of
              None \<Rightarrow> errf (ContainerPath name []) ''AWF3004'' [ct_Compose ctr]
            | Some content \<Rightarrow> concat (map (\<lambda>(code, msg). errf (ContainerPath name []) code msg)
                (ValidateComposeBytes lib (ct_Compose ctr) content []))) (wf_Containers flow))"

subsection \<open>The entry point\<close>

definition validate_module :: "json_lib \<Rightarrow> compose_lib \<Rightarrow> loaded_definition \<Rightarrow> loaded_module \<Rightarrow> diagnostic list" where
  "validate_module jl lib ld m =
     (case lm_Workflow m of
        None \<Rightarrow> []
      | Some flow \<Rightarrow>
          let source = (if lm_ID m = [] then [] else lm_WorkflowPath m);
              ds = validateUnknownKeys (lm_RawDoc m) @ validateDurationScalars (lm_RawDoc m) @ validateRecovery flow
                 @ validateStructural flow @ validateAgents flow @ validateSkills (lm_Assets m) flow @ validateContinues flow
                 @ validateReduce flow @ validatePrune flow @ validateTools flow @ validateMisplacedWithKeys flow
                 @ validateCalls jl ld (lm_ID m) flow @ validateRefsModule jl ld (lm_ID m) flow
                 @ validateInputFilesModule ld (lm_ID m) flow
                 @ validateOutputFiles (jl_compiles jl) (jl_unmarshal jl) (lm_Assets m) flow
                 @ validateStagingLiteral flow @ validateWorkflowExports jl ld (lm_ID m) flow @ validateAwfOutputWrites flow
                 @ validateSchema (jl_compiles jl) flow @ validateCompose lib (lm_ComposeFiles m) flow
          in map (d_Source_update (\<lambda>_. source)) ds)"

definition validationModules :: "loaded_definition \<Rightarrow> loaded_module list" where
  "validationModules ld =
     (let out = WalkModules ld in if out = [] \<and> ld_Workflow ld \<noteq> None then [own_module ld] else out)"

definition Validate :: "json_lib \<Rightarrow> compose_lib \<Rightarrow> (diagnostic \<Rightarrow> string) \<Rightarrow> loaded_definition option \<Rightarrow> diagnostic list" where
  "Validate jl lib fmt def =
     (case def of
        None \<Rightarrow> errf [] ''AWF1003'' []
      | Some ld \<Rightarrow> if ld_Workflow ld = None then errf [] ''AWF1003'' []
          else sortDiagnostics fmt (concat (map (validate_module jl lib ld) (validationModules ld))))"

end
