(* ===== verification/Validate_Scope.thy ===== *)
theory Validate_Scope
  imports Validate_Refs
begin

text \<open>
  The static reachability check of a reference (\<open>blockingScope\<close>, src/ir/validate_refs.go) against
  the path the engine computes for it when the step runs (\<open>stepRuntimePath\<close>, src/engine/scope.go).
\<close>

subsection \<open>Paths and their segments\<close>

lemma no_dot_split: "ps \<noteq> [] \<Longrightarrow> list_all no_dot ps \<Longrightarrow> splitDot (joinDot ps) = ps"
  by (rule splitDot_joinDot) (auto simp: list_all_iff no_dot_def)

lemma within_prefix:
  assumes "list_all no_dot ps" "list_all no_dot qs" "ps \<noteq> []" "qs \<noteq> []"
  shows "pathWithinScope (joinDot qs) (joinDot ps) \<longleftrightarrow> prefix ps qs"
proof
  assume "pathWithinScope (joinDot qs) (joinDot ps)"
  then consider "joinDot qs = joinDot ps" | t where "joinDot qs = joinDot ps @ CHR ''.'' # t"
    by (auto simp: pathWithinScope_def hasPrefix_iff)
  then show "prefix ps qs"
  proof cases
    case 1
    then have "splitDot (joinDot qs) = splitDot (joinDot ps)" by simp
    with assms show ?thesis by (simp add: no_dot_split)
  next
    case (2 t)
    then have "splitDot (joinDot qs) = splitDot (joinDot ps) @ splitDot t" by (simp add: splitDot_append)
    with assms show ?thesis by (simp add: no_dot_split)
  qed
next
  assume "prefix ps qs"
  then obtain zs where qs: "qs = ps @ zs" by (auto simp: prefix_def)
  show "pathWithinScope (joinDot qs) (joinDot ps)"
    using assms(3) joinDot_append [of ps zs] qs by (cases "zs = []") (auto simp: pathWithinScope_def hasPrefix_iff)
qed

lemma generate_next:
  assumes "list_all no_dot segs" "Suc j < length segs"
  shows "hasPrefix (trimPrefix (joinDot segs) (joinDot (take (Suc j) segs) @ ''.'')) ''generate.''
    \<longleftrightarrow> Suc (Suc j) < length segs \<and> segs ! Suc j = ''generate''"
proof -
  let ?rest = "drop (Suc j) segs"
  have "joinDot segs = (joinDot (take (Suc j) segs) @ ''.'') @ joinDot ?rest"
    using joinDot_append [of "take (Suc j) segs" ?rest] assms(2) by (cases segs) auto
  then have trim: "trimPrefix (joinDot segs) (joinDot (take (Suc j) segs) @ ''.'') = joinDot ?rest"
    by (metis trimPrefix_append)
  have rest: "?rest = segs ! Suc j # drop (Suc (Suc j)) segs" using assms(2) by (simp add: Cons_nth_drop_Suc)
  have nd: "list_all no_dot ?rest" using assms(1) by (metis append_take_drop_id list_all_append)
  have "hasPrefix (joinDot ?rest) ''generate.'' \<longleftrightarrow> (\<exists>t. joinDot ?rest = ''generate'' @ CHR ''.'' # t)"
    by (simp add: hasPrefix_iff)
  also have "\<dots> \<longleftrightarrow> (\<exists>q qs. ?rest = ''generate'' # q # qs)"
  proof
    assume "\<exists>t. joinDot ?rest = ''generate'' @ CHR ''.'' # t"
    then obtain t where t: "joinDot ?rest = ''generate'' @ CHR ''.'' # t" by blast
    have "?rest = splitDot (joinDot ?rest)" using no_dot_split [OF _ nd] rest by simp
    also have "\<dots> = ''generate'' # splitDot t" unfolding t by (rule splitDot_append_dot) simp
    finally show "\<exists>q qs. ?rest = ''generate'' # q # qs" using splitDot_not_Nil [of t] by (cases "splitDot t") auto
  qed auto
  also have "\<dots> \<longleftrightarrow> Suc (Suc j) < length segs \<and> segs ! Suc j = ''generate''"
  proof -
    have "drop (Suc (Suc j)) segs \<noteq> [] \<longleftrightarrow> Suc (Suc j) < length segs" by auto
    then show ?thesis unfolding rest by (cases "drop (Suc (Suc j)) segs") auto
  qed
  finally show ?thesis using trim by simp
qed

subsection \<open>What blocks a reference\<close>

text \<open>The scopes of a path: bodies of maps and gates.\<close>

definition map_body_at :: "string list \<Rightarrow> nat \<Rightarrow> bool" where
  "map_body_at segs i = (segs ! i = ''body'' \<and> 0 < i \<and> hasPrefix (segs ! (i - 1)) ''map['')"

definition gate_at :: "string list \<Rightarrow> nat \<Rightarrow> bool" where
  "gate_at segs i = hasPrefix (segs ! i) ''gate[''"

definition passes_scope :: "string list \<Rightarrow> string list \<Rightarrow> nat \<Rightarrow> bool" where
  "passes_scope segs site i =
     ((map_body_at segs i \<longrightarrow> prefix (take (Suc i) segs) site)
      \<and> (gate_at segs i \<longrightarrow> prefix (take (Suc i) segs) site \<or> Suc (Suc i) < length segs \<and> segs ! Suc i = ''generate''))"

lemma passes_outer: "prefix (take (Suc j) segs) site \<Longrightarrow> i \<le> j \<Longrightarrow> passes_scope segs site i"
proof -
  assume within: "prefix (take (Suc j) segs) site" and "i \<le> j"
  then have "take (Suc i) segs = take (Suc i) (take (Suc j) segs)" by (simp add: min_def)
  then have "prefix (take (Suc i) segs) (take (Suc j) segs)" by (metis take_is_prefix)
  with within have "prefix (take (Suc i) segs) site" using prefix_order.trans by blast
  then show ?thesis by (simp add: passes_scope_def)
qed

lemma blocking_from_None:
  assumes "list_all no_dot segs" "list_all no_dot site" "site \<noteq> []" "\<not> hasPrefix (last segs) ''gate[''" "j \<le> length segs"
  shows "blocking_from (joinDot segs) (joinDot site) peeled (rev (take j segs)) = None \<longleftrightarrow> (\<forall>i<j. passes_scope segs site i)"
  using assms(5)
proof (induction j arbitrary: peeled)
  case (Suc j)
  then have j: "j < length segs" by simp
  let ?sc = "take (Suc j) segs"
  have rev: "rev ?sc = segs ! j # rev (take j segs)" using j by (simp add: take_Suc_conv_app_nth)
  have sc: "joinDot (rev (segs ! j # rev (take j segs))) = joinDot ?sc" using j by (simp add: take_Suc_conv_app_nth)
  have "list_all no_dot ?sc" using assms(1) by (metis append_take_drop_id list_all_append)
  then have within: "pathWithinScope (joinDot site) (joinDot ?sc) \<longleftrightarrow> prefix ?sc site"
    using within_prefix assms(2,3) j by (metis Suc_neq_Zero length_0_conv less_nat_zero_code take_eq_Nil)
  have body: "segs ! j = ''body'' \<and> rev (take j segs) \<noteq> [] \<and> hasPrefix (hd (rev (take j segs))) ''map['' \<longleftrightarrow> map_body_at segs j"
  proof -
    have "last (take j segs) = segs ! (j - 1)" if "0 < j" using j that by (cases j) (auto simp: take_Suc_conv_app_nth)
    then show ?thesis using j by (cases "j = 0") (auto simp: map_body_at_def hd_rev)
  qed
  have gate_last: "gate_at segs j \<Longrightarrow> Suc j < length segs"
    using assms(4) j by (metis Suc_lessI diff_Suc_1 gate_at_def last_conv_nth length_0_conv less_nat_zero_code)
  have not_both: "map_body_at segs j \<Longrightarrow> \<not> gate_at segs j" by (auto simp: map_body_at_def gate_at_def hasPrefix_iff)
  have split: "(\<forall>i<Suc j. passes_scope segs site i) \<longleftrightarrow> passes_scope segs site j \<and> (\<forall>i<j. passes_scope segs site i)"
    by (auto simp: less_Suc_eq)
  consider "prefix ?sc site" | "\<not> prefix ?sc site" "map_body_at segs j" | "\<not> prefix ?sc site" "\<not> map_body_at segs j" "gate_at segs j"
    | "\<not> map_body_at segs j" "\<not> gate_at segs j" by blast
  then show ?case
  proof cases
    case 1
    then have "\<forall>i<Suc j. passes_scope segs site i" using passes_outer by simp
    with 1 Suc.IH [of peeled] Suc.IH [of True] j show ?thesis
      unfolding rev blocking_from.simps Let_def sc within split by auto
  next
    case 2
    then show ?thesis unfolding rev blocking_from.simps Let_def sc within using body by (auto simp: passes_scope_def)
  next
    case 3
    show ?thesis unfolding rev blocking_from.simps Let_def sc within split
      using 3 body Suc.IH [of True] j generate_next [OF assms(1) gate_last [OF 3(3)]]
      by (auto simp: passes_scope_def gate_at_def)
  next
    case 4
    then show ?thesis unfolding rev blocking_from.simps Let_def sc within split
      using body Suc.IH [of peeled] j by (auto simp: passes_scope_def gate_at_def)
  qed
qed simp

lemma blockingScope_None:
  assumes "list_all no_dot segs" "list_all no_dot site" "segs \<noteq> []" "site \<noteq> []" "\<not> hasPrefix (last segs) ''gate[''"
  shows "blockingScope (joinDot segs) (joinDot site) = None \<longleftrightarrow> (\<forall>i<length segs. passes_scope segs site i)"
  using blocking_from_None [OF assms(1,2,4,5) order_refl, of False] no_dot_split [OF assms(3,1)]
  by (simp add: blockingScope_def)

subsection \<open>The path of a step that its reader does not share\<close>

definition scope_errors :: "eval_error set" where
  "scope_errors = {OtherError ''step inside map'', OtherError ''step inside gate''}"

text \<open>The reader runs outside of the path.\<close>

definition apart :: "scope_state \<Rightarrow> string \<Rightarrow> bool" where
  "apart s q = (\<not> prefix (splitDot q) (splitDot (sc_ctxPath s)))"

lemma apart_instance: "apart s q \<Longrightarrow> instanceFromCtx s q (CHR ''.'' # t) = Inr None"
  by (auto simp: apart_def instanceFromCtx_def hasPrefix_iff splitDot_append Let_def)

lemma splitDot_appendSeg: "cur \<noteq> [] \<Longrightarrow> no_dot seg \<Longrightarrow> splitDot (appendSeg cur seg) = splitDot cur @ [seg]"
  by (simp add: appendSeg_def splitDot_append splitDot_no_dot no_dot_def)

lemma apart_ext:
  "apart s cur \<Longrightarrow> cur \<noteq> [] \<Longrightarrow> no_dot seg \<Longrightarrow> apart s (appendSeg cur seg)"
  "apart s cur \<Longrightarrow> apart s (IterPath cur k)" "apart s cur \<Longrightarrow> apart s (AttemptPath cur k)"
  by (auto simp: apart_def splitDot_appendSeg runtime_segs dest: append_prefixD)

lemma iterForLoop_error: "iterForLoop s p = Inl e \<Longrightarrow> e \<notin> scope_errors"
  by (auto simp: iterForLoop_def instanceFromCtx_def scope_errors_def Let_def rbind_def
      split: if_splits option.splits sum.splits)

lemma attemptPath_self: "attemptPath cur cur as \<noteq> [] \<Longrightarrow> \<exists>k. attemptPath cur cur as = AttemptPath cur k"
  by (auto simp: attemptPath_def replaceFirst_def indexOf.simps [of cur] hasPrefix_def split: option.splits)

text \<open>Segments that enter no map body, and gates only to reach what was accepted.\<close>

fun open_rest :: "string option \<Rightarrow> string list \<Rightarrow> bool" where
  "open_rest prev [] = True"
| "open_rest prev (seg # rest) =
     (\<not> (seg = ''body'' \<and> after ''map['' prev) \<and> (hasPrefix seg ''gate['' \<longrightarrow> rest \<noteq> [] \<and> hd rest = ''generate'')
      \<and> open_rest (Some seg) rest)"

definition as_open :: "bool \<Rightarrow> eval_error + string \<Rightarrow> bool" where
  "as_open b r = ((b \<longrightarrow> r \<notin> Inl ` scope_errors) \<and> (\<not> b \<longrightarrow> (\<exists>e. r = Inl e)))"

lemma segment_apart:
  assumes "no_dot seg" and "apart s (appendSeg cur seg)"
    and map: "seg = ''body'' \<Longrightarrow> after ''map['' prev \<Longrightarrow> instanceFromCtx s cur ''.item-'' = Inr None"
    and next_seg: "\<And>c. apart s c \<Longrightarrow> c \<noteq> [] \<Longrightarrow> as_open (open_rest (Some seg) rest) (runtimeSegs s (Some seg) rest c)"
  shows "as_open (open_rest prev (seg # rest)) (runtimeSegs s prev (seg # rest) cur)"
proof -
  let ?c = "appendSeg cur seg"
  have c: "?c \<noteq> []" using assms(1) by (simp add: no_dot_def)
  show ?thesis
  proof (cases seg prev rule: segment_cases)
    case loop
    then have "\<not> after ''map['' prev" "\<not> hasPrefix seg ''gate[''" by (auto simp: after_def hasPrefix_iff split: option.splits)
    with loop show ?thesis
      using next_seg [OF apart_ext(2) [OF assms(2)] runtime_path_neq(1)] iterForLoop_error [of s ?c]
      by (cases "iterForLoop s ?c") (auto simp: as_open_def after_def Let_def rbind_def split: option.splits)
  next
    case map
    with assms(3) show ?thesis by (auto simp: as_open_def after_def rbind_def split: option.splits)
  next
    case gate
    have inst: "instanceFromCtx s ?c ''.attempt-'' = Inr None" using apart_instance [OF assms(2)] by simp
    have run: "runtimeSegs s prev (seg # rest) cur =
        (if rest = [] \<or> hd rest \<noteq> ''generate'' then Inl (OtherError ''step inside gate'')
         else let accepted = attemptPath ?c ?c (LookupGateAttempts (sc_rs s) ?c)
              in if accepted = [] then Inl (OtherError ''no accepted attempt'') else runtimeSegs s (Some seg) rest accepted)"
      using gate inst by (auto simp: Let_def after_def rbind_def split: option.splits)
    show ?thesis
    proof (cases "rest = [] \<or> hd rest \<noteq> ''generate''")
      case True
      with run gate show ?thesis by (auto simp: as_open_def)
    next
      case False
      let ?a = "attemptPath ?c ?c (LookupGateAttempts (sc_rs s) ?c)"
      have "as_open (open_rest (Some seg) rest) (runtimeSegs s prev (seg # rest) cur)"
        using run False attemptPath_self [of ?c "LookupGateAttempts (sc_rs s) ?c"]
          next_seg [OF apart_ext(3) [OF assms(2)] runtime_path_neq(3)]
        by (cases "?a = []") (auto simp: Let_def as_open_def scope_errors_def)
      moreover have "open_rest prev (seg # rest) = open_rest (Some seg) rest" using gate False by auto
      ultimately show ?thesis by simp
    qed
  next
    case other
    then have "runtimeSegs s prev (seg # rest) cur = runtimeSegs s (Some seg) rest ?c"
      "open_rest prev (seg # rest) = open_rest (Some seg) rest"
      by (auto simp: Let_def after_def split: option.splits)
    with next_seg [OF assms(2) c] show ?thesis by simp
  qed
qed

lemma rest_apart:
  "list_all no_dot rest \<Longrightarrow> apart s cur \<Longrightarrow> cur \<noteq> [] \<Longrightarrow> as_open (open_rest prev rest) (runtimeSegs s prev rest cur)"
proof (induction rest arbitrary: prev cur)
  case Nil
  then show ?case by (auto simp: as_open_def)
next
  case (Cons seg rest)
  then have nd: "no_dot seg" "list_all no_dot rest" by simp_all
  show ?case
  proof (rule segment_apart [OF nd(1)])
    show "apart s (appendSeg cur seg)" using Cons.prems nd apart_ext(1) by blast
    show "instanceFromCtx s cur ''.item-'' = Inr None" using apart_instance [OF Cons.prems(2)] by simp
    show "as_open (open_rest (Some seg) rest) (runtimeSegs s (Some seg) rest c)" if "apart s c" "c \<noteq> []" for c
      using Cons.IH nd that by blast
  qed
qed

subsection \<open>The point where the two paths part\<close>

lemma map_bodies_append:
  "map_bodies prev (pre @ rest) \<Longrightarrow> map_bodies (if pre = [] then prev else Some (last pre)) rest"
  by (induction pre arbitrary: prev) (auto split: if_splits)

lemma inst_not_empty: "pre \<noteq> [] \<Longrightarrow> list_all no_dot pre \<Longrightarrow> instSegs num None pre [] \<noteq> []"
proof -
  assume "pre \<noteq> []" and nd: "list_all no_dot pre"
  then obtain a as where pre: "pre = a # as" by (cases pre) auto
  have a: "appendSeg [] a \<noteq> []" and as: "list_all (\<lambda>x. x \<noteq> []) as" using nd pre by (auto simp: no_dot_def list_all_iff)
  show "instSegs num None pre [] \<noteq> []"
    using ends_at_dot_neq [OF instSegs_extends [OF a as]] ends_at_dot_neq [OF instSegs_extends [OF runtime_path_neq(3) as]]
    by (auto simp: pre after_def Let_def a)
qed

text \<open>The first segment of the reader's path after the shared ones.\<close>

lemma first_segment:
  assumes "list_all no_dot (pre @ b # bs)" and "after ''map['' (if pre = [] then None else Some (last pre)) \<longrightarrow> b \<noteq> ''body''"
    and "pre \<noteq> []"
  shows "\<exists>t. splitDot (instSegs num None (pre @ b # bs) []) = splitDot (instSegs num None pre []) @ b # t"
proof -
  have nd: "list_all no_dot pre" "list_all no_dot (b # bs)" using assms(1) by simp_all
  show ?thesis
    unfolding instSegs_append splitDot_instSegs [OF inst_not_empty [OF assms(3) nd(1)] nd(2)]
    using assms(2) by (auto simp: Let_def)
qed

lemma first_segment_top:
  assumes "list_all no_dot (b # bs)"
  shows "\<exists>t. splitDot (instSegs num None (b # bs) []) = b # t"
proof -
  have nd: "b \<noteq> []" "CHR ''.'' \<notin> set b" "list_all no_dot bs" using assms by (auto simp: no_dot_def)
  have cur: "splitDot (appendSeg [] b) = [b]" using nd by (simp add: appendSeg_def splitDot_no_dot)
  show ?thesis
    using splitDot_instSegs [OF appendSeg_neq [OF nd(1)] nd(3), of num "Some b" "[]"]
      splitDot_instSegs [OF runtime_path_neq(3) nd(3), of num "Some b" "appendSeg [] b"]
    by (auto simp: after_def Let_def cur runtime_segs)
qed

lemma parting_apart:
  assumes segs: "list_all no_dot (pre @ a # as)" "map_bodies None (pre @ a # as)"
    and reader: "list_all no_dot (pre @ rest')" "map_bodies None (pre @ rest')"
    and part: "rest' = [] \<or> a \<noteq> hd rest'"
    and ctx: "sc_ctxPath s = instSegs num None (pre @ rest') []"
  shows "apart s (appendSeg (instSegs num None pre []) a)"
    and "a = ''body'' \<Longrightarrow> after ''map['' (if pre = [] then None else Some (last pre)) \<Longrightarrow>
      instanceFromCtx s (instSegs num None pre []) ''.item-'' = Inr None"
proof -
  let ?cur = "instSegs num None pre []" and ?prev = "if pre = [] then None else Some (last pre)"
  have a: "no_dot a" "a \<noteq> []" using segs(1) by (auto simp: no_dot_def)
  have after_map: "after ''map['' ?prev \<Longrightarrow> a = ''body''" "after ''map['' ?prev \<Longrightarrow> rest' = [] \<or> hd rest' = ''body''"
    using map_bodies_append [OF segs(2)] map_bodies_append [OF reader(2)] by (cases rest'; simp)+
  show "apart s (appendSeg ?cur a)"
  proof (cases "pre = []")
    case True
    then have "splitDot (appendSeg ?cur a) = [a]" using a by (simp add: appendSeg_def splitDot_no_dot no_dot_def)
    moreover have "\<not> prefix [a] (splitDot (sc_ctxPath s))"
    proof (cases rest')
      case Nil
      then show ?thesis using ctx True a by simp
    next
      case (Cons b bs)
      then show ?thesis using first_segment_top [of b bs num] ctx True reader(1) part by auto
    qed
    ultimately show ?thesis by (simp add: apart_def)
  next
    case False
    then have cur: "?cur \<noteq> []" using inst_not_empty segs(1) by simp
    have "\<not> prefix (splitDot ?cur @ [a]) (splitDot (sc_ctxPath s))"
    proof (cases rest')
      case Nil
      then show ?thesis using ctx by (auto dest: prefix_length_le)
    next
      case (Cons b bs)
      have "after ''map['' ?prev \<longrightarrow> b \<noteq> ''body''" using after_map(1) part Cons by auto
      from first_segment [OF _ this False, of bs num] reader(1) Cons
      obtain t where "splitDot (sc_ctxPath s) = splitDot ?cur @ b # t" using ctx by auto
      then show ?thesis using part Cons by auto
    qed
    then show ?thesis using splitDot_appendSeg [OF cur a(1)] by (simp add: apart_def)
  qed
  show "instanceFromCtx s ?cur ''.item-'' = Inr None" if "a = ''body''" "after ''map['' ?prev"
  proof -
    have "rest' = []" using after_map(2) part that by auto
    then show ?thesis using ctx by (simp add: instanceFromCtx_def hasPrefix_def Let_def)
  qed
qed

subsection \<open>Agreement\<close>

lemma open_rest_nth:
  "open_rest prev rest \<longleftrightarrow> (\<forall>i<length rest.
     \<not> (rest ! i = ''body'' \<and> after ''map['' (if i = 0 then prev else Some (rest ! (i - 1))))
     \<and> (hasPrefix (rest ! i) ''gate['' \<longrightarrow> Suc i < length rest \<and> rest ! Suc i = ''generate''))"
proof (induction rest arbitrary: prev)
  case (Cons seg rest)
  have shift: "Some ((seg # rest) ! i) = (if i = 0 then Some seg else Some (rest ! (i - 1)))" for i
    by (simp add: nth_Cons')
  have next_seg: "rest \<noteq> [] \<and> hd rest = g \<longleftrightarrow> 0 < length rest \<and> rest ! 0 = g" for g
    by (cases rest) auto
  show ?case
    unfolding open_rest.simps Cons.IH length_Cons All_less_Suc2 next_seg using shift by simp
qed simp

lemma passes_open:
  assumes segs: "segs = pre @ rest" and site: "site = pre @ rest' @ fs"
    and part: "rest = [] \<or> rest' = [] \<or> hd rest \<noteq> hd rest'"
    and fields: "list_all (\<lambda>x. x \<noteq> ''body'' \<and> \<not> hasPrefix x ''gate['') fs"
    and last_seg: "segs \<noteq> [] \<Longrightarrow> last segs \<noteq> ''generate''"
  shows "(\<forall>i<length segs. passes_scope segs site i) \<longleftrightarrow> open_rest (if pre = [] then None else Some (last pre)) rest"
proof -
  let ?prev = "if pre = [] then None else Some (last pre)"
  have shared: "passes_scope segs site i" if "i < length pre" for i
    using that by (auto simp: passes_scope_def segs site prefix_def intro!: exI [of _ "drop (Suc i) pre @ rest' @ fs"])
  have not_within: "\<not> prefix (take (Suc (length pre + i)) segs) site"
    if i: "i < length rest" and scope: "rest ! i = ''body'' \<or> hasPrefix (rest ! i) ''gate[''" for i
  proof
    assume "prefix (take (Suc (length pre + i)) segs) site"
    then have pr: "prefix (take (Suc i) rest) (rest' @ fs)" by (simp add: segs site)
    obtain a as where rest: "rest = a # as" using i by (cases rest) auto
    show False
    proof (cases rest')
      case Nil
      have "last (take (Suc i) rest) = rest ! i" using i by (simp add: take_Suc_conv_app_nth)
      moreover have "last (take (Suc i) rest) \<in> set fs"
        using pr Nil rest by (metis append_Nil last_in_set list.distinct(1) set_mono_prefix subsetD take_Suc_Cons)
      ultimately show False using fields scope by (auto simp: list_all_iff)
    next
      case (Cons b bs)
      then show False using pr part rest by auto
    qed
  qed
  have prev: "map_body_at segs (length pre + i) \<longleftrightarrow> rest ! i = ''body'' \<and> after ''map['' (if i = 0 then ?prev else Some (rest ! (i - 1)))"
    if "i < length rest" for i
    using that by (auto simp: map_body_at_def after_def segs nth_append last_conv_nth split: if_splits)
  have inside: "passes_scope segs site (length pre + i) \<longleftrightarrow>
      \<not> (rest ! i = ''body'' \<and> after ''map['' (if i = 0 then ?prev else Some (rest ! (i - 1))))
      \<and> (hasPrefix (rest ! i) ''gate['' \<longrightarrow> Suc i < length rest \<and> rest ! Suc i = ''generate'')" if i: "i < length rest" for i
  proof -
    have gate: "gate_at segs (length pre + i) \<longleftrightarrow> hasPrefix (rest ! i) ''gate[''" using i by (simp add: gate_at_def segs nth_append)
    have gen: "Suc (Suc (length pre + i)) < length segs \<and> segs ! Suc (length pre + i) = ''generate''
        \<longleftrightarrow> Suc i < length rest \<and> rest ! Suc i = ''generate''"
    proof
      assume r: "Suc i < length rest \<and> rest ! Suc i = ''generate''"
      have "Suc (Suc i) \<noteq> length rest"
      proof
        assume "Suc (Suc i) = length rest"
        then have "last rest = rest ! Suc i" by (metis diff_Suc_1 last_conv_nth length_0_conv nat.distinct(1))
        moreover have "rest \<noteq> []" using i by auto
        ultimately show False using last_seg r segs by simp
      qed
      with r show "Suc (Suc (length pre + i)) < length segs \<and> segs ! Suc (length pre + i) = ''generate''"
        by (auto simp: segs nth_append)
    qed (auto simp: segs nth_append)
    show ?thesis unfolding passes_scope_def gate prev [OF i] gen using not_within [OF i] by auto
  qed
  have "(\<forall>i<length segs. passes_scope segs site i) \<longleftrightarrow> (\<forall>i<length rest. passes_scope segs site (length pre + i))"
  proof
    assume all: "\<forall>i<length rest. passes_scope segs site (length pre + i)"
    show "\<forall>i<length segs. passes_scope segs site i"
    proof (intro allI impI)
      fix i assume "i < length segs"
      then show "passes_scope segs site i"
        using shared [of i] all [rule_format, of "i - length pre"] segs by (cases "i < length pre") auto
    qed
  qed (auto simp: segs)
  then show ?thesis unfolding open_rest_nth using inside by simp
qed

text \<open>
  C11: The validator and the engine agree on which steps a reference may name. When the validator
  reports a reference from a node (whose template may be a field of it) as blocked by a map body or a
  gate, the engine cannot compute the path of the step for a reader running at any instance of that
  node; a reference that is not blocked never fails there with one of the two scope errors. What may
  still be missing is a loop with no iteration, a gate with no accepted attempt, or nested loops.
\<close>

theorem blocking_scope_agrees_with_engine:
  assumes num: "in_range num"
    and producer: "list_all no_dot segs" "segs \<noteq> []" "map_bodies None segs"
      "\<not> hasPrefix (last segs) ''gate[''" "last segs \<noteq> ''generate''"
    and reader: "list_all no_dot node" "node \<noteq> []" "map_bodies None node"
    and fields: "list_all no_dot fs" "list_all (\<lambda>x. x \<noteq> ''body'' \<and> \<not> hasPrefix x ''gate['') fs"
    and ctx: "sc_ctxPath s = instSegs num None node []"
  shows "if blockingScope (joinDot segs) (joinDot (node @ fs)) = None
    then stepRuntimePath s (joinDot segs) \<notin> Inl ` {OtherError ''step inside map'', OtherError ''step inside gate''}
    else \<exists>e. stepRuntimePath s (joinDot segs) = Inl e"
proof -
  obtain pre rest rest' where paths: "segs = pre @ rest" "node = pre @ rest'"
    and part: "rest = [] \<or> rest' = [] \<or> hd rest \<noteq> hd rest'"
    using longest_common_prefix [of segs node] by blast
  let ?prev = "if pre = [] then None else Some (last pre)" and ?cur = "instSegs num None pre []"
  have "blockingScope (joinDot segs) (joinDot (node @ fs)) = None \<longleftrightarrow> (\<forall>i<length segs. passes_scope segs (node @ fs) i)"
    using producer reader fields by (intro blockingScope_None) simp_all
  also have "\<dots> \<longleftrightarrow> open_rest ?prev rest"
    using passes_open [OF paths(1) _ part fields(2), of "node @ fs"] paths(2) producer(5) by simp
  finally have static: "blockingScope (joinDot segs) (joinDot (node @ fs)) = None \<longleftrightarrow> open_rest ?prev rest" .
  have neq: "list_all (\<lambda>x. x \<noteq> []) (pre @ rest')" using reader(1) paths(2) by (auto simp: list_all_iff no_dot_def)
  have run: "runtimeSegs s None segs [] = runtimeSegs s ?prev rest ?cur"
    using runtimeSegs_shared [OF num neq, of None "[]" s rest] ctx paths by simp
  have "as_open (open_rest ?prev rest) (runtimeSegs s ?prev rest ?cur)"
  proof (cases rest)
    case Nil
    then show ?thesis by (auto simp: as_open_def)
  next
    case (Cons a as)
    note parted = parting_apart [of pre a as rest' s num]
    show ?thesis unfolding Cons
    proof (rule segment_apart)
      show "no_dot a" using producer(1) paths(1) Cons by simp
      show "apart s (appendSeg ?cur a)" using parted(1) producer reader ctx part paths Cons by simp
      show "instanceFromCtx s ?cur ''.item-'' = Inr None" if "a = ''body''" "after ''map['' ?prev"
        using parted(2) that producer reader ctx part paths Cons by simp
      show "as_open (open_rest (Some a) as) (runtimeSegs s (Some a) as c)" if "apart s c" "c \<noteq> []" for c
        using rest_apart that producer(1) paths(1) Cons by simp
    qed
  qed
  with run have "as_open (open_rest ?prev rest) (runtimeSegs s None segs [])" by simp
  moreover have "splitDot (joinDot segs) = segs" using no_dot_split producer by blast
  ultimately show ?thesis unfolding static stepRuntimePath_def Let_def by (auto simp: as_open_def scope_errors_def)
qed

theorem blocking_scope_agrees_with_engine_witness:
  "blockingScope ''map[0].body.a'' ''b.run'' \<noteq> None
   \<and> (\<exists>e. stepRuntimePath (NewScope zero_state [] ''b'') ''map[0].body.a'' = Inl e)"
proof -
  have blocked: "blockingScope ''map[0].body.a'' ''b.run'' \<noteq> None"
    by (simp add: blockingScope_def pathWithinScope_def hasPrefix_def Let_def)
  have paths: "joinDot [''map[0]'', ''body'', ''a''] = ''map[0].body.a''" "joinDot ([''b''] @ [''run'']) = ''b.run''" by simp_all
  have "if blockingScope (joinDot [''map[0]'', ''body'', ''a'']) (joinDot ([''b''] @ [''run''])) = None
    then stepRuntimePath (NewScope zero_state [] ''b'') (joinDot [''map[0]'', ''body'', ''a''])
      \<notin> Inl ` {OtherError ''step inside map'', OtherError ''step inside gate''}
    else \<exists>e. stepRuntimePath (NewScope zero_state [] ''b'') (joinDot [''map[0]'', ''body'', ''a'']) = Inl e"
    by (rule blocking_scope_agrees_with_engine [of "\<lambda>_. 0"])
      (simp_all add: in_range_def no_dot_def after_def hasPrefix_def NewScope_def Let_def appendSeg_def)
  note agree = this [unfolded paths]
  from agree blocked show ?thesis by (simp only: if_False simp_thms)
qed

end
