(* ===== verification/Validate_Run.thy ===== *)
theory Validate_Run
  imports Validate_Raw Validate_Scope
begin

text \<open>
  What the engine may rely on after the validator has accepted a definition: identifiers and paths,
  the shape of control nodes, and that \<open>continues\<close> chains end; and what it may not rely on.
\<close>

subsection \<open>From the report to the passes\<close>

lemma HasErrors_sourced [simp]: "HasErrors (map (d_Source_update f) ds) \<longleftrightarrow> HasErrors ds"
  by (simp add: HasErrors_def list_ex_iff)

text \<open>The definition has no error, and one of its modules holds the workflow.\<close>

definition accepted :: "json_lib \<Rightarrow> compose_lib \<Rightarrow> (diagnostic \<Rightarrow> string) \<Rightarrow> loaded_definition \<Rightarrow> workflow \<Rightarrow> bool" where
  "accepted jl lib fmt ld flow =
     (\<not> HasErrors (Validate jl lib fmt (Some ld)) \<and> list_ex (\<lambda>m. lm_Workflow m = Some flow) (validationModules ld))"

lemma accepted_passes:
  assumes "accepted jl lib fmt ld flow"
  shows "\<not> HasErrors (validateStructural flow)" "\<not> HasErrors (validateContinues flow)"
proof -
  from assms obtain m where m: "m \<in> set (validationModules ld)" "lm_Workflow m = Some flow"
    by (auto simp: accepted_def list_ex_iff)
  have "\<not> HasErrors (validate_module jl lib ld m)"
    using assms m(1) by (auto simp: accepted_def Validate_def HasErrors_sort split: if_splits)
  then show "\<not> HasErrors (validateStructural flow)" "\<not> HasErrors (validateContinues flow)"
    using m(2) by (simp_all add: validate_module_def Let_def)
qed

subsection \<open>Identifiers\<close>

text \<open>
  A check that records the identifiers: when it reports nothing they are valid, distinct and new, and
  the next check finds them in the map.
\<close>

definition records :: "string list \<Rightarrow> check \<Rightarrow> bool" where
  "records ids f = (\<forall>m. \<not> HasErrors (fst (f m)) \<longrightarrow>
     (let named = filter (\<lambda>x. x \<noteq> []) ids
      in ids_ok named \<and> set named \<inter> dom (map_of m) = {} \<and> dom (map_of m) \<union> set named \<subseteq> dom (map_of (snd (f m)))))"

lemma andThen_errors [simp]: "HasErrors (fst (andThen f g m)) \<longleftrightarrow> HasErrors (fst (f m)) \<or> HasErrors (fst (g (snd (f m))))"
  by (simp add: andThen_def split: prod.split)

lemma andThen_map [simp]: "snd (andThen f g m) = snd (g (snd (f m)))"
  by (simp add: andThen_def split: prod.split)

lemma emit_sel [simp]: "fst (emit ds m) = ds" "snd (emit ds m) = m"
  by (simp_all add: emit_def)

lemma records_emit [simp]: "records [] (emit ds)"
  by (simp add: records_def ids_ok_def)

lemma recordsD:
  assumes "records ids f" "\<not> HasErrors (fst (f m))"
  shows "ids_ok (filter (\<lambda>x. x \<noteq> []) ids)" "set (filter (\<lambda>x. x \<noteq> []) ids) \<inter> dom (map_of m) = {}"
    "dom (map_of m) \<union> set (filter (\<lambda>x. x \<noteq> []) ids) \<subseteq> dom (map_of (snd (f m)))"
  using assms unfolding records_def Let_def by blast+

lemma records_andThen:
  assumes "records a f" "records b g"
  shows "records (a @ b) (andThen f g)"
  unfolding records_def Let_def
proof (intro allI impI)
  fix m assume "\<not> HasErrors (fst (andThen f g m))"
  then have ok: "\<not> HasErrors (fst (f m))" "\<not> HasErrors (fst (g (snd (f m))))" by simp_all
  note a = recordsD [OF assms(1) ok(1)] and b = recordsD [OF assms(2) ok(2)]
  have "set (filter (\<lambda>x. x \<noteq> []) a) \<inter> set (filter (\<lambda>x. x \<noteq> []) b) = {}" using a(3) b(2) by blast
  then have "ids_ok (filter (\<lambda>x. x \<noteq> []) (a @ b))" using a(1) b(1) by simp
  moreover have "set (filter (\<lambda>x. x \<noteq> []) (a @ b)) \<inter> dom (map_of m) = {}"
    using a(2,3) b(2) unfolding filter_append set_append by blast
  moreover have "dom (map_of m) \<union> set (filter (\<lambda>x. x \<noteq> []) (a @ b)) \<subseteq> dom (map_of (snd (andThen f g m)))"
    unfolding filter_append set_append andThen_map using a(3) b(3) by blast
  ultimately show "ids_ok (filter (\<lambda>x. x \<noteq> []) (a @ b)) \<and> set (filter (\<lambda>x. x \<noteq> []) (a @ b)) \<inter> dom (map_of m) = {}
    \<and> dom (map_of m) \<union> set (filter (\<lambda>x. x \<noteq> []) (a @ b)) \<subseteq> dom (map_of (snd (andThen f g m)))" by blast
qed

lemma records_emits:
  "records b g \<Longrightarrow> records b (andThen (emit ds) g)" "records a f \<Longrightarrow> records a (andThen f (emit ds))"
  using records_andThen [OF records_emit] records_andThen [OF _ records_emit, of a f ds] by fastforce+

lemma records_addressable: "records [ident] (checkAddressableID ident path kind)" "records [] (checkAddressableID ident path kind)"
  by (auto simp: records_def checkAddressableID_def check_ident_def ids_ok_def valid_step_id_def split: option.split)

lemma records_map: "records b g \<Longrightarrow> records b (andThen (checkMapID v body path) g)"
  using records_andThen [of "[]" "checkMapID v body path" b g]
  by (simp add: checkMapID_def records_emits(2) records_addressable(2))

lemma records_structural:
  "records (step_ids ns) (walkStructural flow owners scoped i ns parent)"
  "records (ids_of n) (walkStructural_node flow owners scoped i n parent)"
proof (induction flow owners scoped i ns parent and flow owners scoped i n parent rule: walkStructural_walkStructural_node.induct)
  case (2 flow owners scoped i n ns parent)
  then show ?case by (simp add: records_andThen)
next
  case (9 flow owners scoped i d c f parent)
  then show ?case by (simp add: records_andThen)
qed (simp_all add: checkStepID_def Let_def records_emits records_addressable records_map records_andThen)

lemma structural_ids:
  assumes "\<not> HasErrors (validateStructural flow)" "[] \<notin> set (step_ids (wf_Graph flow))"
  shows "ids_ok (step_ids (wf_Graph flow))"
proof -
  have "filter (\<lambda>x. x \<noteq> []) (step_ids (wf_Graph flow)) = step_ids (wf_Graph flow)"
    using assms(2) by (metis (mono_tags, lifting) filter_True)
  moreover have "\<not> HasErrors (fst (walkStructural flow (MapImageTargetOwners flow) [] 0 (wf_Graph flow) [] []))"
    using assms(1) by (simp add: validateStructural_def structural_walk_def)
  ultimately show ?thesis using recordsD(1) [OF records_structural(1)] by metis
qed

text \<open>
  C9: An accepted definition is addressable. When the validator reports no error, the identifiers of
  the steps of every module match the pattern, are not reserved and are pairwise distinct, and every
  node has its own path, provided each step has an identifier (the validator does not ask for one).
\<close>

theorem accepted_is_addressable:
  assumes "accepted jl lib fmt ld flow" and "[] \<notin> set (step_ids (wf_Graph flow))"
  shows "list_all valid_step_id (step_ids (wf_Graph flow)) \<and> distinct (step_ids (wf_Graph flow))
    \<and> distinct (map snd (WalkNodes 0 (wf_Graph flow) []))"
  using structural_ids [OF accepted_passes(1) [OF assms(1)] assms(2)] walk_distinct(1)
  by (simp add: ids_ok_def)

subsection \<open>Chains of agent steps\<close>

lemma agent_fold:
  "map_of (fold (\<lambda>(n, _) m. case n of AgentStep v \<Rightarrow> pm_put (as_ID v) v m | _ \<Rightarrow> m) visits m) k = Some v \<Longrightarrow>
   map_of m k = Some v \<or> as_ID v = k \<and> (\<exists>path. (AgentStep v, path) \<in> set visits)"
proof (induction visits arbitrary: m)
  case (Cons x visits)
  obtain n path where x: "x = (n, path)" by (cases x)
  have "map_of (case n of AgentStep u \<Rightarrow> pm_put (as_ID u) u m | _ \<Rightarrow> m) k = Some v
      \<or> as_ID v = k \<and> (\<exists>path. (AgentStep v, path) \<in> set visits)"
    using Cons.prems unfolding x by (intro Cons.IH) simp
  then show ?case unfolding x by (cases n) (auto split: if_splits)
qed simp

lemma agent_visited:
  assumes "map_of (agentStepByID graph) k = Some v"
  obtains path where "as_ID v = k" "(AgentStep v, path) \<in> set (WalkNodes 0 graph [])"
  using assms agent_fold [of "WalkNodes 0 graph []" "[]"] unfolding agentStepByID_def by auto

lemma chain_of_no_cycle:
  assumes "find_cycle n (agentStepByID graph) visited cur = None" "distinct visited"
    "set visited \<subseteq> dom (map_of (agentStepByID graph))" "length (agentStepByID graph) < length visited + n"
    "\<And>k v. map_of (agentStepByID graph) k = Some v \<Longrightarrow> as_Continues v = [] \<or> as_Continues v \<in> dom (map_of (agentStepByID graph))"
    "cur = [] \<or> cur \<in> dom (map_of (agentStepByID graph))"
  shows "chain_ends n graph cur"
  using assms
proof (induction n arbitrary: visited cur)
  case 0
  have "card (set visited) \<le> card (dom (map_of (agentStepByID graph)))"
    using "0.prems"(3) by (intro card_mono) (auto simp: finite_dom_map_of)
  moreover have "card (dom (map_of (agentStepByID graph))) \<le> length (agentStepByID graph)"
    by (metis card_length dom_map_of_conv_image_fst length_map set_map)
  ultimately show ?case using "0.prems"(2,4) by (simp add: distinct_card)
next
  case (Suc n)
  show ?case
  proof (cases "cur = []")
    case False
    with Suc.prems(6) obtain nxt where nxt: "map_of (agentStepByID graph) cur = Some nxt" by blast
    have "as_ID nxt = cur" using agent_visited [OF nxt] by blast
    with nxt False Suc.prems have "chain_ends n graph (as_Continues nxt)"
      by (intro Suc.IH [of "cur # visited"]) (auto split: if_splits)
    with nxt False show ?thesis by simp
  qed simp
qed

lemma continues_cycles_none:
  "\<not> HasErrors (continues_cycles agents visits reported) \<Longrightarrow> (AgentStep v, path) \<in> set visits \<Longrightarrow>
   as_Continues v \<noteq> [] \<Longrightarrow> as_ID v \<notin> set reported \<Longrightarrow> find_cycle (length agents) agents [as_ID v] (as_Continues v) = None"
proof (induction agents visits reported rule: continues_cycles.induct)
  case (2 agents n srcPath rest reported)
  show ?case
  proof (cases n)
    case (AgentStep u)
    show ?thesis
    proof (cases "as_Continues u = [] \<or> as_ID u \<in> set reported")
      case True
      with 2 AgentStep show ?thesis by auto
    next
      case False
      with "2.prems"(1) AgentStep have none: "find_cycle (length agents) agents [as_ID u] (as_Continues u) = None"
        by (auto split: option.splits)
      with 2 AgentStep False show ?thesis by auto
    qed
  qed (use 2 in auto)
qed simp

text \<open>
  C10: In an accepted definition every chain of \<open>continues\<close> ends. A definition without error has no
  cycle and no dangling link, so following the links from any agent step reaches a step that
  continues none after at most as many links as there are agent steps; the engine's walk back over a
  conversation therefore terminates.
\<close>

theorem accepted_chains_end:
  assumes "accepted jl lib fmt ld flow"
  shows "continues_end (wf_Graph flow)"
  unfolding continues_end_def list_all_iff
proof
  let ?graph = "wf_Graph flow" and ?agents = "agentStepByID (wf_Graph flow)"
  have ok: "\<not> HasErrors (continues_cycles ?agents (WalkNodes 0 ?graph []) [])"
    "\<not> HasErrors (each_node flow (\<lambda>n path. case n of AgentStep v \<Rightarrow> check_link flow v path | _ \<Rightarrow> []))"
    using accepted_passes(2) [OF assms] by (simp_all add: validateContinues_def)
  have closed: "as_Continues v = [] \<or> as_Continues v \<in> dom (map_of ?agents)" if found: "map_of ?agents k = Some v" for k v
  proof -
    obtain path where "(AgentStep v, path) \<in> set (WalkNodes 0 ?graph [])" using agent_visited [OF found] by blast
    with ok(2) have "\<not> HasErrors (check_link flow v path)" by (force simp: each_node_errors)
    then show ?thesis by (auto simp: check_link_def Let_def split: option.splits)
  qed
  fix k assume "k \<in> set (map fst ?agents)"
  then obtain v where v: "map_of ?agents k = Some v" by (metis list.set_map map_of_eq_None_iff not_None_eq)
  obtain path where k: "as_ID v = k" "k \<in> dom (map_of ?agents)"
    and visit: "(AgentStep v, path) \<in> set (WalkNodes 0 ?graph [])" using agent_visited [OF v] v by blast
  have len: "length ?agents \<noteq> 0" using v by auto
  have "chain_ends (length ?agents) ?graph (as_Continues v)"
  proof (cases "as_Continues v = []")
    case True
    then show ?thesis using len by (cases "length ?agents") auto
  next
    case False
    have "find_cycle (length ?agents) ?agents [as_ID v] (as_Continues v) = None"
      using continues_cycles_none [OF ok(1) visit False] by simp
    then show ?thesis using k closed [OF v] closed by (intro chain_of_no_cycle [of _ _ "[as_ID v]"]) auto
  qed
  then show "chain_ends (length ?agents + 1) ?graph k" using v by simp
qed

subsection \<open>What the validator lets through\<close>

definition flow_of :: "node list \<Rightarrow> workflow" where
  "flow_of graph = \<lparr>wf_ID = ''w'', wf_Version = 1, wf_InputSchema = None, wf_InputFiles = [], wf_Env = [], wf_Assets = [],
     wf_Skills = [], wf_Agents = [], wf_Containers = [], wf_OutputSchema = None, wf_Outputs = [], wf_ArtifactExports = [],
     wf_Tools = [], wf_Graph = graph\<rparr>"

definition def_of :: "node list \<Rightarrow> loaded_definition" where
  "def_of graph = \<lparr>ld_Workflow = Some (flow_of graph), ld_WorkflowPath = ''w.yaml'', ld_ComposeFiles = [], ld_Assets = [],
     ld_Modules = None, ld_ImportEdges = []\<rparr>"

lemma flow_of_sel [simp]:
  "wf_Version (flow_of g) = 1" "wf_InputSchema (flow_of g) = None" "wf_InputFiles (flow_of g) = []" "wf_Env (flow_of g) = []"
  "wf_Assets (flow_of g) = []" "wf_Skills (flow_of g) = []" "wf_Agents (flow_of g) = []" "wf_Containers (flow_of g) = []"
  "wf_OutputSchema (flow_of g) = None" "wf_Outputs (flow_of g) = []" "wf_ArtifactExports (flow_of g) = []" "wf_Tools (flow_of g) = []"
  "wf_Graph (flow_of g) = g"
  by (simp_all add: flow_of_def)

text \<open>A step that only runs a script: its passes have nothing to look at.\<close>

definition bare_step :: "string \<Rightarrow> string \<Rightarrow> node" where
  "bare_step ident ctr = CodeStep \<lparr>cs_ID = ident, cs_Container = ctr, cs_Run = [], cs_Timeout = None, cs_OutputSchema = None,
     cs_OutputFiles = [], cs_InputFiles = [], cs_IdempotencyKey = None, cs_Retry = None\<rparr>"

lemma by_key_Nil [simp]: "by_key [] = []"
  by (simp add: by_key_def sort_by_def)

lemma diag_if_simps [simp]: "diag_if b [] = []" "diag_if False ds = []" "diag_if True ds = ds"
  by (simp_all add: diag_if_def)

lemma complain_Nil: "complain [] = ([], [])" by (simp add: complain_def)

lemmas graph_pass_defs = each_node_def validateRecovery_def validateAgents_def validateSkills_def validateSkillCorpora_def
  validateAgentSkillRouting_def validatePrune_def validateTools_def validateMisplacedWithKeys_def validateCalls_def Let_def
  validateOutputFiles_def validateWorkflowInputFiles_def validateStagingLiteral_def validateAwfOutputWrites_def
  validateSchema_def validateCompose_def validateReduce_def check_optional_def checkRecovery_def contains_def indexOf.simps hasPrefix_def

lemma schemaRequired_None [simp]: "schemaRequired None = []"
  by (simp add: schemaRequired_def required_names_def field_of_def slices_Sort_def)

lemma exports_flow_of [simp]: "validateWorkflowExports jl ld m (flow_of g) = []"
  by (simp add: validateWorkflowExports_def Let_def)

text \<open>The report on a graph is the report of the passes that read it.\<close>

lemma Validate_def_of:
  "Validate jl lib fmt (Some (def_of g)) = sortDiagnostics fmt (map (d_Source_update (\<lambda>_. []))
     (validateRecovery (flow_of g) @ structural_walk (flow_of g) @ validateAgents (flow_of g) @ validateAgentSkillRouting (flow_of g)
      @ validateContinues (flow_of g) @ validateReduce (flow_of g) @ validatePrune (flow_of g) @ validateTools (flow_of g)
      @ validateMisplacedWithKeys (flow_of g) @ validateCalls jl (def_of g) [] (flow_of g)
      @ validateRefsModule jl (def_of g) [] (flow_of g) @ validateInputFilesModule (def_of g) [] (flow_of g)
      @ validateOutputFiles (jl_compiles jl) (jl_unmarshal jl) [] (flow_of g) @ validateStagingLiteral (flow_of g)
      @ validateAwfOutputWrites (flow_of g) @ validateSchema (jl_compiles jl) (flow_of g)))"
  by (simp add: Validate_def def_of_def validationModules_def WalkModules_def ld_Root_def own_module_def validate_module_def Let_def
      validateUnknownKeys_def validateDurationScalars_def validateStructural_def validateSkills_def validateSkillCorpora_def validateCompose_def)

lemma sort_Nil [simp]: "sortDiagnostics fmt [] = []"
  by (simp add: sortDiagnostics_def)

lemma evaluate_parses:
  "ParseExpr (UnwrapEnvelope ''evaluate.ok'') = Inr (Ref [\<lparr>Ident = ''evaluate'', Index = 0, IsIndex = False, SegPos = 0\<rparr>,
     \<lparr>Ident = ''ok'', Index = 0, IsIndex = False, SegPos = 9\<rparr>])"
  by code_simp

lemma bare_refs: "walkRefs_node ps maps ev i (bare_step a c) parent = ([], [])"
  by (simp add: bare_step_def code_step_refs_def code_refs_def checkTemplateRefs_def walkTemplateRefs_def checkShellHostInjection_def
      both_def complain_def Slots_def scan_def scanFrom.simps slotOpen_def indexOf.simps hasPrefix_def)

lemma gate_until_refs: "checkExprRefs ps maps True [] ''evaluate.ok'' path = ([], [])"
  by (simp add: checkExprRefs_def evaluate_parses References_def all_found_def checkRef_def both_def complain_def)

lemma bare_inputs: "validateInputFilesModule ld m (flow_of [bare_step a c]) = []"
  by (simp add: validateInputFilesModule_def each_node_def bare_step_def staged_inputs_def check_inputs_def
      validateInputFileDestinationOverlap_def slices_Sort_def Let_def)

lemma bare_producers:
  "indexModuleProducers ld m [bare_step a c] = [(a, produces (PathFor [] [] a 0) 0 ''code'' None)]"
  by (simp add: indexModuleProducers_def bare_step_def pm_put_def)

lemma bare_passes:
  "validateRecovery (flow_of [bare_step a c]) = []" "validateAgents (flow_of [bare_step a c]) = []"
  "validateAgentSkillRouting (flow_of [bare_step a c]) = []" "validateReduce (flow_of [bare_step a c]) = []"
  "validatePrune (flow_of [bare_step a c]) = []" "validateTools (flow_of [bare_step a c]) = []"
  "validateMisplacedWithKeys (flow_of [bare_step a c]) = []" "validateCalls jl ld [] (flow_of [bare_step a c]) = []"
  "validateOutputFiles cs um as (flow_of [bare_step a c]) = []" "validateStagingLiteral (flow_of [bare_step a c]) = []"
  "validateAwfOutputWrites (flow_of [bare_step a c]) = []" "validateSchema cs (flow_of [bare_step a c]) = []"
  "validateContinues (flow_of [bare_step a c]) = []"
  by (simp_all add: bare_step_def graph_pass_defs validateContinues_def)

lemma bare_marks: "markTemplateValueRefsReferenced jl ps maps (flow_of [bare_step a c]) = []"
  by (simp add: markTemplateValueRefsReferenced_def bare_step_def)

lemma bare_ref_pass: "validateRefsModule jl ld m (flow_of [bare_step a c]) = []"
  by (simp add: validateRefsModule_def producers_with_input_def bare_producers bare_refs bare_marks both_def produces_def Let_def)

lemma bare_structural:
  assumes "a = [] \<or> valid_step_id a" "c = [] \<or> contains c ''{{''"
  shows "structural_walk (flow_of [bare_step a c]) = []"
  using assms
  by (auto simp: structural_walk_def bare_step_def checkStepID_def checkAddressableID_def check_ident_def valid_step_id_def
      checkContainerRefInScope_def checkFieldSize_def emit_def andThen_def Let_def)

text \<open>
  A container reference with template syntax on a step is accepted. The check of a container name
  leaves the report of \<^verbatim>\<open>{{ }}\<close> to its caller; for a map the caller reports \<^verbatim>\<open>AWF1019\<close>, for a code step
  nothing is reported, although the name can never resolve to a declared container.
\<close>

lemma templated_container_is_accepted:
  "Validate jl lib fmt (Some (def_of [bare_step ''build'' ''{{ input.c }}''])) = []
   \<and> map d_Code (check_map (flow_of []) [] [] \<lparr>mp_ID = [], mp_Over = ''xs'', mp_OverItems = None, mp_As = ''x'',
        mp_Container = ''{{ input.c }}'', mp_Image = [], mp_Concurrency = None, mp_MinSuccess = None, mp_Reduce = None,
        mp_Prune = None\<rparr> ''map[0]'') = [''AWF1019'']"
proof
  have "structural_walk (flow_of [bare_step ''build'' ''{{ input.c }}'']) = []"
    by (rule bare_structural)
      (simp_all add: valid_step_id_def reservedStepIDTokens_def isLetterUnd_def contains_def indexOf.simps hasPrefix_def)
  then show "Validate jl lib fmt (Some (def_of [bare_step ''build'' ''{{ input.c }}''])) = []"
    by (simp add: Validate_def_of bare_passes bare_ref_pass bare_inputs)
qed (simp add: check_map_def errf_def checkFieldSize_def maxExpressionBytes_def contains_def indexOf.simps hasPrefix_def)

text \<open>A step without an identifier is accepted too, against the comment of \<open>checkAddressableID\<close>.\<close>

lemma step_without_id_is_accepted: "Validate jl lib fmt (Some (def_of [bare_step [] []])) = []"
  by (simp add: Validate_def_of bare_passes bare_ref_pass bare_inputs bare_structural)

text \<open>The keys reported when they are nested under \<open>with\<close> are not all the keys of an agent step.\<close>

lemma reserved_keys_miss_two: "set (allowedJSONKeys ''uses'') - set reservedAgentStepKeys = {''with'', ''output_artifact'', ''jury''}"
  by (auto simp: allowedJSONKeys_def reservedAgentStepKeys_def)

definition open_gate :: "int \<Rightarrow> node" where
  "open_gate k = Gate [bare_step ''draft'' []] [] ''evaluate.ok'' k"

lemma open_gate_passes:
  "validateRecovery (flow_of [open_gate k]) = []" "validateAgents (flow_of [open_gate k]) = []"
  "validateAgentSkillRouting (flow_of [open_gate k]) = []" "validateReduce (flow_of [open_gate k]) = []"
  "validatePrune (flow_of [open_gate k]) = []" "validateTools (flow_of [open_gate k]) = []"
  "validateMisplacedWithKeys (flow_of [open_gate k]) = []" "validateCalls jl ld [] (flow_of [open_gate k]) = []"
  "validateOutputFiles cs um as (flow_of [open_gate k]) = []" "validateStagingLiteral (flow_of [open_gate k]) = []"
  "validateAwfOutputWrites (flow_of [open_gate k]) = []" "validateSchema cs (flow_of [open_gate k]) = []"
  "validateContinues (flow_of [open_gate k]) = []"
  by (simp_all add: open_gate_def bare_step_def graph_pass_defs validateContinues_def)

lemma gate_inputs: "validateInputFilesModule ld m (flow_of [open_gate k]) = []"
  by (simp add: validateInputFilesModule_def each_node_def open_gate_def bare_step_def staged_inputs_def check_inputs_def
      validateInputFileDestinationOverlap_def slices_Sort_def Let_def)

lemma gate_producers:
  "indexModuleProducers ld m [open_gate k] = [(''draft'', produces (PathFor (ChildPath [] ''gate'' 0 ''generate'') [] ''draft'' 0) 1 ''code'' None)]"
  by (simp add: indexModuleProducers_def open_gate_def bare_step_def pm_put_def)

lemma gate_marks: "markTemplateValueRefsReferenced jl ps maps (flow_of [open_gate k]) = []"
  by (simp add: markTemplateValueRefsReferenced_def open_gate_def bare_step_def)

lemma gate_refs: "walkRefs_node ps maps ev i (open_gate k) parent = ([], [])"
  by (simp add: open_gate_def both_def gate_until_refs bare_refs lastEvaluatorProducerID_def)

lemma gate_ref_pass: "validateRefsModule jl ld m (flow_of [open_gate k]) = []"
  by (simp add: validateRefsModule_def producers_with_input_def gate_producers gate_refs gate_marks both_def produces_def Let_def)

lemma gate_structural: "structural_walk (flow_of [open_gate k]) = []"
  by (simp add: structural_walk_def open_gate_def bare_step_def checkStepID_def checkAddressableID_def check_ident_def
      stepIDPattern.simps reservedStepIDTokens_def isLetterUnd_def checkContainerRefInScope_def checkFieldSize_def
      maxExpressionBytes_def emit_def andThen_def Let_def)

text \<open>
  C13: A gate without evaluator is accepted and then aborts the run. The validator reports nothing for a
  gate whose \<^verbatim>\<open>evaluate\<close> list is empty, whatever its \<^verbatim>\<open>max_attempts\<close>, zero and negative included; the
  engine refuses the gate with an internal error before its first attempt.
\<close>

theorem gate_without_evaluator_is_accepted:
  "Validate jl lib fmt (Some (def_of [Gate [bare_step ''draft'' []] [] ''evaluate.ok'' k])) = []
   \<and> interpNode env c 0 (Gate [bare_step ''draft'' []] [] ''evaluate.ok'' k) [] = infra ''empty evaluate''"
proof
  show "Validate jl lib fmt (Some (def_of [Gate [bare_step ''draft'' []] [] ''evaluate.ok'' k])) = []"
    using Validate_def_of [of jl lib fmt "[open_gate k]"]
    by (simp add: open_gate_passes gate_ref_pass gate_inputs gate_structural open_gate_def [symmetric])
qed (simp add: runGate_def Let_def)

lemma accepted_bare: "accepted jl lib fmt (def_of [bare_step ''build'' []]) (flow_of [bare_step ''build'' []])"
proof -
  have "structural_walk (flow_of [bare_step ''build'' []]) = []"
    by (rule bare_structural) (simp_all add: valid_step_id_def reservedStepIDTokens_def isLetterUnd_def)
  then have "Validate jl lib fmt (Some (def_of [bare_step ''build'' []])) = []"
    by (simp add: Validate_def_of bare_passes bare_ref_pass bare_inputs)
  then show ?thesis
    by (simp add: accepted_def validationModules_def WalkModules_def ld_Root_def own_module_def def_of_def)
qed

theorem accepted_is_addressable_witness:
  "list_all valid_step_id (step_ids [bare_step ''build'' []])
   \<and> accepted \<lparr>jl_compiles = (\<lambda>_. True), jl_unmarshal = (\<lambda>_. None), jl_decode = (\<lambda>_. None)\<rparr>
        \<lparr>cl_yaml = (\<lambda>_. None), cl_load = (\<lambda>_ _. None), cl_digest = (\<lambda>_. None)\<rparr> (\<lambda>_. [])
        (def_of [bare_step ''build'' []]) (flow_of [bare_step ''build'' []])"
  using accepted_is_addressable [OF accepted_bare] accepted_bare by (simp add: bare_step_def)

definition talk :: "string \<Rightarrow> string \<Rightarrow> node" where
  "talk ident prev = AgentStep \<lparr>as_ID = ident, as_Container = [], as_Uses = ''awf/llm'', as_With = [], as_Continues = prev,
     as_OutputSchema = None, as_OutputFiles = [], as_OutputArtifact = [], as_Skills = None, as_InputFiles = [], as_Timeout = None,
     as_IdempotencyKey = None, as_Retry = None, as_Jury = None\<rparr>"

definition dialogue :: "node list" where "dialogue = [talk ''a'' [], talk ''b'' ''a'']"

lemma dialogue_passes:
  "validateRecovery (flow_of dialogue) = []" "validateAgents (flow_of dialogue) = []"
  "validateAgentSkillRouting (flow_of dialogue) = []" "validateReduce (flow_of dialogue) = []"
  "validatePrune (flow_of dialogue) = []" "validateTools (flow_of dialogue) = []"
  "validateMisplacedWithKeys (flow_of dialogue) = []" "validateCalls jl ld [] (flow_of dialogue) = []"
  "validateOutputFiles cs um as (flow_of dialogue) = []" "validateStagingLiteral (flow_of dialogue) = []"
  "validateAwfOutputWrites (flow_of dialogue) = []" "validateSchema cs (flow_of dialogue) = []"
  by (simp_all add: dialogue_def talk_def graph_pass_defs validateOutputArtifact_def)

lemma dialogue_refs: "validateRefsModule jl ld m (flow_of dialogue) = []"
  by (simp add: validateRefsModule_def producers_with_input_def dialogue_def talk_def agent_step_refs_def both_def all_found_def
      indexModuleProducers_def pm_put_def produces_def markTemplateValueRefsReferenced_def Let_def)

lemma dialogue_inputs: "validateInputFilesModule ld m (flow_of dialogue) = []"
  by (simp add: validateInputFilesModule_def each_node_def dialogue_def talk_def check_inputs_def Let_def)

lemma dialogue_structural: "structural_walk (flow_of dialogue) = []"
  by (simp add: structural_walk_def dialogue_def talk_def checkStepID_def checkAddressableID_def check_ident_def pm_put_def
      stepIDPattern.simps reservedStepIDTokens_def isLetterUnd_def checkContainerRefInScope_def emit_def andThen_def Let_def)

lemma dialogue_continues: "validateContinues (flow_of dialogue) = []"
  by (simp add: validateContinues_def dialogue_def talk_def each_node_def agentStepByID_def agentPathByID_def agentOrderByID_def pm_put_def
      check_link_def Let_def lookup_def inEvaluateBlock_def parallelSiblings_def dominates_def hasPathPrefix_def scopePrefixOf_def
      PathFor_def continuesUsesCompatible_def count_of.simps indexOf.simps hasPrefix_def)

theorem accepted_chains_end_witness:
  "continues_end [talk ''a'' [], talk ''b'' ''a''] \<and> chain_ends 3 [talk ''a'' [], talk ''b'' ''a''] ''b''
   \<and> \<not> chain_ends 2 [talk ''a'' [], talk ''b'' ''a''] ''b''"
proof -
  let ?jl = "\<lparr>jl_compiles = (\<lambda>_. True), jl_unmarshal = (\<lambda>_. None), jl_decode = (\<lambda>_. None)\<rparr>"
  let ?lib = "\<lparr>cl_yaml = (\<lambda>_. None), cl_load = (\<lambda>_ _. None), cl_digest = (\<lambda>_. None)\<rparr>"
  have "Validate ?jl ?lib (\<lambda>_. []) (Some (def_of dialogue)) = []"
    by (simp add: Validate_def_of dialogue_passes dialogue_refs dialogue_inputs dialogue_structural dialogue_continues)
  then have "accepted ?jl ?lib (\<lambda>_. []) (def_of dialogue) (flow_of dialogue)"
    by (simp add: accepted_def validationModules_def WalkModules_def ld_Root_def own_module_def def_of_def)
  from accepted_chains_end [OF this] have "continues_end dialogue" by simp
  moreover have "chain_ends 3 dialogue ''b''" "\<not> chain_ends 2 dialogue ''b''"
    by (simp_all add: dialogue_def talk_def agentStepByID_def pm_put_def numeral_3_eq_3 numeral_2_eq_2)
  ultimately show ?thesis by (simp add: dialogue_def)
qed

end
