(* ===== verification/Engine_Journal.thy ===== *)
theory Engine_Journal
  imports Engine
begin

text \<open>
  The journal and the state in memory. While a run executes, under every interleaving of its
  branches, every fault of the log and of the store and every move of the control poller, the
  journal on disk can be folded, and whatever the engine believes to be completed is in the synced
  part of the journal. The relation \<open>R\<close> is the guarantee of every action of the engine; it
  interprets the locale \<open>guarantee\<close> of \<open>Interleave\<close>.
\<close>

subsection \<open>Readers and the journal of a world\<close>

definition rd_of :: "engine_env \<Rightarrow> world \<Rightarrow> readers" where
  "rd_of env w = \<lparr>rd_get = getter_of w, rd_map = e_unmarshal env, rd_turn = e_unmarshalTurn env\<rparr>"

definition map_ok :: "engine_env \<Rightarrow> world \<Rightarrow> string \<Rightarrow> bool" where
  "map_ok env w ref = is_ok (read_map (rd_of env w) ref)"

definition bytes_ok :: "engine_env \<Rightarrow> world \<Rightarrow> string \<Rightarrow> bool" where
  "bytes_ok env w ref = is_ok (read_bytes (rd_of env w) ref)"

definition turn_ok :: "engine_env \<Rightarrow> world \<Rightarrow> string \<Rightarrow> bool" where
  "turn_ok env w ref = is_ok (read_turn (rd_of env w) ref)"

text \<open>A synced \<open>node.completed\<close> that nothing invalidates later.\<close>

definition logged :: "string \<Rightarrow> node_result \<Rightarrow> world \<Rightarrow> bool" where
  "logged p nr w \<longleftrightarrow> (\<exists>us d vs. w_log w = us @ \<lparr>jPath = p, jData = NodeCompleted d\<rparr> # vs
     \<and> length us < w_synced w \<and> matches nr d \<and> (\<forall>f \<in> set vs. commit_effect p f \<noteq> Some None))"

definition Inv :: "engine_env \<Rightarrow> string set \<Rightarrow> world \<Rightarrow> bool" where
  "Inv env S w \<longleftrightarrow>
     fs_inv (w_blobs w) \<and> ran (fb_files (w_blobs w)) \<subseteq> S
     \<and> 0 < w_synced w \<and> w_synced w \<le> length (w_log w)
     \<and> is_ok (Fold_log (rd_of env w) (w_log w))
     \<and> (\<forall>p nr. LookupCompleted (w_rs w) p = Some nr \<longrightarrow> logged p nr w)
     \<and> (\<forall>p e. LookupSignalReceivedAt (w_rs w) p = Some e \<longrightarrow> map_ok env w (se_PayloadRef e))
     \<and> (\<forall>e \<in> set (w_log w). \<forall>d. jData e = SignalReceived d \<longrightarrow> map_ok env w (sg_PayloadRef d))"

text \<open>How the world grows: the journal by events that invalidate nothing, the store by blobs.\<close>

definition ext :: "world \<Rightarrow> world \<Rightarrow> bool" where
  "ext w w' \<longleftrightarrow> (\<exists>es. w_log w' = w_log w @ es \<and> (\<forall>e \<in> set es. \<forall>ps. jData e \<noteq> NodeInvalidated ps))
     \<and> w_synced w \<le> w_synced w'
     \<and> (\<forall>ref c. fs_Get ref (w_blobs w) = Inr c \<longrightarrow> fs_Get ref (w_blobs w') = Inr c)"

definition R :: "engine_env \<Rightarrow> string set \<Rightarrow> world \<Rightarrow> world \<Rightarrow> bool" where
  "R env S w w' \<longleftrightarrow> (Inv env S w \<longrightarrow> Inv env S w' \<and> ext w w')"

lemma ext_refl [simp]: "ext w w"
  by (simp add: ext_def)

lemma ext_trans: "ext u v \<Longrightarrow> ext v w \<Longrightarrow> ext u w"
  by (fastforce simp: ext_def)

interpretation jr: guarantee "R env S" for env S
  by unfold_locales (auto simp: R_def intro: ext_trans)

subsection \<open>Folding with more blobs\<close>

definition readers_le :: "readers \<Rightarrow> readers \<Rightarrow> bool" where
  "readers_le r r' \<longleftrightarrow> (\<forall>ref c. rd_get r ref = Inr c \<longrightarrow> rd_get r' ref = Inr c)
     \<and> rd_map r' = rd_map r \<and> rd_turn r' = rd_turn r"

lemma ext_readers: "ext w w' \<Longrightarrow> readers_le (rd_of env w) (rd_of env w')"
  by (simp add: ext_def readers_le_def rd_of_def getter_of_def)

lemma read_blob_mono: "readers_le r r' \<Longrightarrow> read_blob r ref = Inr c \<Longrightarrow> read_blob r' ref = Inr c"
  by (auto simp: readers_le_def read_blob_def split: sum.splits)

lemma parse_blob_mono: "readers_le r r' \<Longrightarrow> rd_map r' = rd_map r \<and> rd_turn r' = rd_turn r"
  by (simp add: readers_le_def)

lemma read_mono:
  assumes "readers_le r r'"
  shows "read_map r ref = Inr v \<Longrightarrow> read_map r' ref = Inr v"
    and "read_turn r ref = Inr v \<Longrightarrow> read_turn r' ref = Inr v"
    and "read_bytes r ref = Inr b \<Longrightarrow> read_bytes r' ref = Inr b"
  using parse_blob_mono [OF assms] read_blob_mono [OF assms]
  by (auto simp: read_map_def read_turn_def read_bytes_def rbind_eq_Inr split: if_splits)

lemma foldCallStarted_mono:
  assumes "readers_le r r'" and "foldCallStarted r path d rs = Inr rs'"
  shows "foldCallStarted r' path d rs = Inr rs'"
  using assms(2) parse_blob_mono [OF assms(1)] read_blob_mono [OF assms(1)]
  by (auto simp: foldCallStarted_def rbind_eq_Inr)

lemma foldEvent_mono:
  assumes "readers_le r r'" and "foldEvent r e st = Inr st'"
  shows "foldEvent r' e st = Inr st'"
proof -
  obtain b rs where st: "st = (b, rs)" by fastforce
  show ?thesis
  proof (cases "jData e")
    case (CallStartedEv d)
    then show ?thesis using assms(2) foldCallStarted_mono [OF assms(1)]
      by (auto simp: st foldEvent_def Let_def rbind_eq_Inr split: if_splits)
  qed (use assms(2) read_mono [OF assms(1)] in \<open>auto simp: st foldEvent_def foldRunStarted_def
       foldNodeCompleted_def foldGateAttempt_def Let_def rbind_eq_Inr split: if_splits sum.splits\<close>)
qed

lemma foldEvents_mono:
  "readers_le r r' \<Longrightarrow> foldEvents r es st = Inr st' \<Longrightarrow> foldEvents r' es st = Inr st'"
proof (induction es arbitrary: st)
  case (Cons e es)
  then obtain st1 where "foldEvent r e st = Inr st1" and "foldEvents r es st1 = Inr st'"
    by (auto simp: rbind_eq_Inr)
  with Cons.IH [OF Cons.prems(1)] foldEvent_mono [OF Cons.prems(1)] show ?case by simp
qed simp

lemma Fold_log_mono:
  assumes "readers_le r r'" and "Fold_log r es = Inr rs"
  shows "Fold_log r' es = Inr rs"
  using assms(2) foldEvents_mono [OF assms(1)]
  by (auto simp: Fold_log_def rbind_eq_Inr split: if_splits)

lemma is_ok_iff: "is_ok x \<longleftrightarrow> (\<exists>v. x = Inr v)"
  by (cases x) (simp_all add: is_ok_def)

lemma ext_ok:
  assumes "ext w w'"
  shows "map_ok env w ref \<Longrightarrow> map_ok env w' ref"
    and "bytes_ok env w ref \<Longrightarrow> bytes_ok env w' ref"
    and "turn_ok env w ref \<Longrightarrow> turn_ok env w' ref"
    and "is_ok (Fold_log (rd_of env w) es) \<Longrightarrow> is_ok (Fold_log (rd_of env w') es)"
  using read_mono [OF ext_readers [OF assms, of env]] Fold_log_mono [OF ext_readers [OF assms, of env]]
  by (auto simp: map_ok_def bytes_ok_def turn_ok_def is_ok_iff)

lemma ext_logged: "ext w w' \<Longrightarrow> logged p nr w \<Longrightarrow> logged p nr w'"
proof -
  assume e: "ext w w'" and l: "logged p nr w"
  from e obtain es where es: "w_log w' = w_log w @ es" "\<forall>e \<in> set es. \<forall>ps. jData e \<noteq> NodeInvalidated ps"
    and le: "w_synced w \<le> w_synced w'" by (auto simp: ext_def)
  from l obtain us d vs where u: "w_log w = us @ \<lparr>jPath = p, jData = NodeCompleted d\<rparr> # vs"
      "length us < w_synced w" "matches nr d" "\<forall>f \<in> set vs. commit_effect p f \<noteq> Some None"
    by (auto simp: logged_def)
  have "\<forall>f \<in> set es. commit_effect p f \<noteq> Some None"
    using es(2) by (auto simp: commit_effect_def split: event_data.split)
  with u es(1) le show ?thesis
    unfolding logged_def by (intro exI [of _ us] exI [of _ d] exI [of _ "vs @ es"]) auto
qed

subsection \<open>Appending to a journal that folds\<close>

text \<open>The events a run appends, and what makes each foldable.\<close>

definition ev_ok :: "engine_env \<Rightarrow> world \<Rightarrow> event_data \<Rightarrow> bool" where
  "ev_ok env w d \<longleftrightarrow>
     (case d of
        NodeCompleted nc \<Rightarrow> nc_Outcome nc = ''ok'' \<and> map_ok env w (nc_OutputsRef nc)
          \<and> bytes_ok env w (nc_StdoutRef nc) \<and> turn_ok env w (nc_TranscriptRef nc)
      | GateAttempt ga \<Rightarrow> map_ok env w (ga_VerdictRef ga)
      | SignalReceived sg \<Rightarrow> map_ok env w (sg_PayloadRef sg)
      | AgentEventEntry _ \<Rightarrow> True | NodeStarted _ \<Rightarrow> True | BranchTaken _ \<Rightarrow> True | LoopIter _ \<Rightarrow> True | RetryAttempt _ \<Rightarrow> True
      | NodeFailed _ _ \<Rightarrow> True | NodeSkipped _ _ \<Rightarrow> True | RunPaused _ _ \<Rightarrow> True | RunCancelled _ \<Rightarrow> True
      | _ \<Rightarrow> False)"

lemma foldEvent_ok:
  assumes "ev_ok env w d"
  shows "\<exists>rs'. foldEvent (rd_of env w) \<lparr>jPath = p, jData = d\<rparr> (b, rs) = Inr (b, rs')"
proof (cases d)
  case (NodeCompleted nc)
  with assms show ?thesis
    by (auto simp: ev_ok_def map_ok_def bytes_ok_def turn_ok_def is_ok_iff foldEvent_def foldNodeCompleted_Inr
        ParseOutcome_def Let_def rbind_eq_Inr)
next
  case (GateAttempt ga)
  with assms show ?thesis
    by (auto simp: ev_ok_def map_ok_def is_ok_iff foldEvent_def foldGateAttempt_def Let_def)
qed (use assms in \<open>simp_all add: ev_ok_def foldEvent_def Let_def\<close>)

lemma Fold_log_snoc:
  assumes "is_ok (Fold_log (rd_of env w) es)" and "es \<noteq> []" and "ev_ok env w d"
  shows "is_ok (Fold_log (rd_of env w) (es @ [\<lparr>jPath = p, jData = d\<rparr>]))"
proof -
  from assms(1) obtain rs where "Fold_log (rd_of env w) es = Inr rs" by (auto simp: is_ok_iff)
  from Fold_log_Inr [OF this assms(2)] obtain b where hd: "event_type (jData (hd es)) = ''run.started''"
    and f: "foldEvents (rd_of env w) es (False, zero_state) = Inr (b, rs)" by blast
  obtain rs' where "foldEvent (rd_of env w) \<lparr>jPath = p, jData = d\<rparr> (b, rs) = Inr (b, rs')"
    using foldEvent_ok [OF assms(3)] by blast
  with hd f assms(2) show ?thesis by (simp add: Fold_log_def foldEvents_append is_ok_def)
qed

lemma completed_map_ok:
  assumes "is_ok (Fold_log (rd_of env w) (us @ \<lparr>jPath = p, jData = NodeCompleted d\<rparr> # vs))"
  shows "map_ok env w (nc_OutputsRef d)"
proof -
  from assms obtain rs where "Fold_log (rd_of env w) (us @ \<lparr>jPath = p, jData = NodeCompleted d\<rparr> # vs) = Inr rs"
    by (auto simp: is_ok_iff)
  from Fold_log_Inr [OF this] show ?thesis
    by (auto simp: foldEvents_append rbind_eq_Inr foldEvent_def foldNodeCompleted_Inr map_ok_def is_ok_def)
qed

lemma Inv_verdict:
  assumes "Inv env S w" and "LookupCompleted (w_rs w) p = Some nr"
  shows "map_ok env w (nr_OutputsRef nr)"
proof -
  from assms have "logged p nr w" by (simp add: Inv_def)
  then obtain us d vs where "w_log w = us @ \<lparr>jPath = p, jData = NodeCompleted d\<rparr> # vs" "matches nr d"
    by (auto simp: logged_def)
  with assms(1) completed_map_ok [of env w us p d vs] show ?thesis by (simp add: Inv_def matches_def)
qed

subsection \<open>Safe programs\<close>

definition keeps_inv :: "engine_env \<Rightarrow> string set \<Rightarrow> P \<Rightarrow> world \<Rightarrow> bool" where
  "keeps_inv env S p w = wp (R env S) p (\<lambda>_ _. True) w"

lemma keeps_inv_Ret [simp]: "keeps_inv env S (Ret v) w"
  by (simp add: keeps_inv_def)

lemma keeps_inv_infra [simp]: "keeps_inv env S (infra s) w"
  by (simp add: infra_def)

lemma keeps_inv_Act:
  assumes "Inv env S w"
    and "\<And>w' p w''. Inv env S w' \<Longrightarrow> ext w w' \<Longrightarrow> f w' = (p, w'') \<Longrightarrow> Inv env S w'' \<and> ext w' w'' \<and> keeps_inv env S p w''"
  shows "keeps_inv env S (Act f) w"
  unfolding keeps_inv_def
proof (rule jr.wp_Act)
  fix w' p w''
  assume "R env S w w'" and "f w' = (p, w'')"
  with assms show "R env S w' w'' \<and> wp (R env S) p (\<lambda>_ _. True) w''"
    unfolding R_def keeps_inv_def by blast
qed

lemma keeps_inv_read:
  assumes "Inv env S w" and "\<And>w'. Inv env S w' \<Longrightarrow> ext w w' \<Longrightarrow> keeps_inv env S (k w') w'"
  shows "keeps_inv env S (read k) w"
  unfolding read_def by (rule keeps_inv_Act [OF assms(1)]) (use assms(2) in auto)

lemma keeps_inv_seq:
  assumes "Inv env S w" and "keeps_inv env S p w"
    and "\<And>v w'. Inv env S w' \<Longrightarrow> ext w w' \<Longrightarrow> keeps_inv env S (f v) w'"
  shows "keeps_inv env S (seq p f) w"
  unfolding keeps_inv_def
  by (rule jr.wp_seq, rule jr.wp_mono [OF assms(2) [unfolded keeps_inv_def]])
    (use assms(1,3) in \<open>auto simp: R_def keeps_inv_def\<close>)

lemma keeps_inv_Par:
  assumes "Inv env S w" and "\<And>p. p \<in> set ps \<Longrightarrow> keeps_inv env S p w"
    and "\<And>vs w'. Inv env S w' \<Longrightarrow> ext w w' \<Longrightarrow> keeps_inv env S (k vs) w'"
  shows "keeps_inv env S (Par ps k) w"
  unfolding keeps_inv_def
  by (rule jr.wp_Par [where P = "\<lambda>_ _ _. True"]) (use assms in \<open>auto simp: R_def keeps_inv_def\<close>)

text \<open>A change outside the journal, the store and the records of completions and signals.\<close>

lemma Inv_quiet:
  assumes "Inv env S w" and "w_log w' = w_log w" and "w_synced w' = w_synced w" and "w_blobs w' = w_blobs w"
    and "Completed (w_rs w') = Completed (w_rs w)" and "SignalReceivedAt (w_rs w') = SignalReceivedAt (w_rs w)"
  shows "Inv env S w' \<and> ext w w'"
  using assms
  by (auto simp: Inv_def ext_def logged_def map_ok_def rd_of_def getter_of_def LookupCompleted_def
      LookupSignalReceivedAt_def)

lemma keeps_inv_quiet:
  assumes "Inv env S w"
    and "\<And>w' p w''. f w' = (p, w'') \<Longrightarrow> w_log w'' = w_log w' \<and> w_synced w'' = w_synced w'
      \<and> w_blobs w'' = w_blobs w' \<and> Completed (w_rs w'') = Completed (w_rs w')
      \<and> SignalReceivedAt (w_rs w'') = SignalReceivedAt (w_rs w')"
    and "\<And>w' p w'' w1. Inv env S w'' \<Longrightarrow> ext w w'' \<Longrightarrow> f w' = (p, w'') \<Longrightarrow> keeps_inv env S p w''"
  shows "keeps_inv env S (Act f) w"
proof (rule keeps_inv_Act [OF assms(1)])
  fix w' p w''
  assume i: "Inv env S w'" and e: "ext w w'" and f: "f w' = (p, w'')"
  have q: "Inv env S w'' \<and> ext w' w''" using assms(2) [OF f] by (intro Inv_quiet [OF i]) simp_all
  then show "Inv env S w'' \<and> ext w' w'' \<and> keeps_inv env S p w''"
    using assms(3) [OF _ _ f] ext_trans [OF e] by blast
qed

lemma Inv_append:
  assumes "Inv env S w" and "ev_ok env w d"
    and "w' = w\<lparr>w_tick := t, w_log := w_log w @ [\<lparr>jPath = path, jData = d\<rparr>]\<rparr>"
  shows "Inv env S w' \<and> ext w w'"
proof -
  have e: "ext w w'" using assms(2,3) by (auto simp: ext_def ev_ok_def)
  have rd: "rd_of env w' = rd_of env w" using assms(3) by (simp add: rd_of_def getter_of_def)
  have "is_ok (Fold_log (rd_of env w') (w_log w'))"
    unfolding rd using assms Fold_log_snoc [of env w "w_log w" d path] by (cases "w_log w = []") (auto simp: Inv_def)
  moreover have "\<forall>e \<in> set (w_log w'). \<forall>d. jData e = SignalReceived d \<longrightarrow> map_ok env w' (sg_PayloadRef d)"
    using assms rd by (auto simp: Inv_def ev_ok_def map_ok_def)
  ultimately show ?thesis
    using assms(1,3) e ext_logged [OF e] ext_ok(1) [OF e] by (auto simp: Inv_def)
qed

lemma keeps_inv_append:
  assumes "Inv env S w" and "ev_ok env w d"
    and "\<And>w'. Inv env S w' \<Longrightarrow> ext w w' \<Longrightarrow> keeps_inv env S (k False) w'"
    and "\<And>w' us. Inv env S w' \<Longrightarrow> ext w w' \<Longrightarrow> w_log w' = us @ [\<lparr>jPath = path, jData = d\<rparr>] \<Longrightarrow> keeps_inv env S (k True) w'"
  shows "keeps_inv env S (log_append env path d k) w"
  unfolding log_append_def
proof (rule keeps_inv_Act [OF assms(1)])
  fix w' p w''
  assume i: "Inv env S w'" and e: "ext w w'"
    and f: "(if e_append env (w_tick w')
             then (k True, (ticked w')\<lparr>w_log := w_log w' @ [\<lparr>jPath = path, jData = d\<rparr>]\<rparr>)
             else (k False, ticked w')) = (p, w'')"
  show "Inv env S w'' \<and> ext w' w'' \<and> keeps_inv env S p w''"
  proof (cases "e_append env (w_tick w')")
    case True
    have "ev_ok env w' d" using assms(2) ext_ok [OF e] by (auto simp: ev_ok_def split: event_data.splits)
    from Inv_append [OF i this refl, where path = path and t = "Suc (w_tick w')"] True f
    have "Inv env S w'' \<and> ext w' w''" by (auto simp: ticked_def)
    with True f assms(4) ext_trans [OF e] show ?thesis by auto
  next
    case False
    then have "Inv env S w'' \<and> ext w' w''" using f by (intro Inv_quiet [OF i]) (auto simp: ticked_def)
    with False f assms(3) ext_trans [OF e] show ?thesis by auto
  qed
qed

text \<open>After a sync, whatever was in the journal is durable.\<close>

lemma Inv_sync:
  assumes "Inv env S w" and "w' = w\<lparr>w_tick := t, w_synced := length (w_log w)\<rparr>"
  shows "Inv env S w' \<and> ext w w'"
proof -
  have e: "ext w w'" using assms by (auto simp: ext_def Inv_def)
  moreover have "rd_of env w' = rd_of env w" using assms(2) by (simp add: rd_of_def getter_of_def)
  ultimately show ?thesis
    using assms ext_logged [OF e] ext_ok(1) [OF e] by (auto simp: Inv_def)
qed

lemma keeps_inv_sync:
  assumes "Inv env S w"
    and "\<And>w'. Inv env S w' \<Longrightarrow> ext w w' \<Longrightarrow> keeps_inv env S (k False) w'"
    and "\<And>w'. Inv env S w' \<Longrightarrow> ext w w' \<Longrightarrow> length (w_log w) \<le> w_synced w' \<Longrightarrow> keeps_inv env S (k True) w'"
  shows "keeps_inv env S (log_sync env k) w"
  unfolding log_sync_def
proof (rule keeps_inv_Act [OF assms(1)])
  fix w' p w''
  assume i: "Inv env S w'" and e: "ext w w'"
    and f: "(if e_sync env (w_tick w') then (k True, (ticked w')\<lparr>w_synced := length (w_log w')\<rparr>)
             else (k False, ticked w')) = (p, w'')"
  show "Inv env S w'' \<and> ext w' w'' \<and> keeps_inv env S p w''"
  proof (cases "e_sync env (w_tick w')")
    case True
    from Inv_sync [OF i, of w'' "Suc (w_tick w')"] True f
    have "Inv env S w'' \<and> ext w' w''" by (auto simp: ticked_def)
    moreover have "length (w_log w) \<le> w_synced w''" using True f e by (auto simp: ext_def)
    ultimately show ?thesis using True f assms(3) ext_trans [OF e] by auto
  next
    case False
    then have "Inv env S w'' \<and> ext w' w''" using f by (intro Inv_quiet [OF i]) (auto simp: ticked_def)
    with False f assms(2) ext_trans [OF e] show ?thesis by auto
  qed
qed

lemma Inv_put:
  assumes "Inv env S w" and "c \<in> S" and "w' = w\<lparr>w_tick := t, w_blobs := snd (fs_Put fault c (w_blobs w))\<rparr>"
  shows "Inv env S w' \<and> ext w w'"
proof -
  have inv: "fs_inv (w_blobs w)" using assms(1) by (simp add: Inv_def)
  have e: "ext w w'" using fs.put_mono [OF inv] assms(3) by (simp add: ext_def)
  have "ran (fb_files (w_blobs w')) \<subseteq> S"
    using assms by (auto simp: Inv_def fs_Put_def ran_def Let_def split: prod.split)
  with e show ?thesis
    using assms(1,3) fs.put_inv [OF inv] ext_logged [OF e] ext_ok [OF e] by (auto simp: Inv_def)
qed

lemma Inv_stored:
  assumes "Inv env S w" and "inj_on RefFor S" and "c \<in> S" and "fs_Get (RefFor c) (w_blobs w) = Inr c'"
  shows "c' = c"
proof -
  have "c' \<in> ran (fb_files (w_blobs w))"
    using assms(4) by (auto simp: fs_Get_def rbind_eq_Inr intro: ranI split: option.splits if_splits)
  then have "c' \<in> S" using assms(1) by (auto simp: Inv_def)
  moreover have "RefFor c' = RefFor c" using assms(1,4) fs.get_digest by (auto simp: Inv_def)
  ultimately show ?thesis using assms(2,3) by (simp add: inj_on_eq_iff)
qed

lemma keeps_inv_put:
  assumes "Inv env S w" and "inj_on RefFor S" and "c \<in> S"
    and "\<And>w'. Inv env S w' \<Longrightarrow> ext w w' \<Longrightarrow> keeps_inv env S (k None) w'"
    and "\<And>w' ref. Inv env S w' \<Longrightarrow> ext w w' \<Longrightarrow> fs_Get ref (w_blobs w') = Inr c \<Longrightarrow> keeps_inv env S (k (Some ref)) w'"
  shows "keeps_inv env S (blob_put env c k) w"
  unfolding blob_put_def
proof (rule keeps_inv_Act [OF assms(1)])
  fix w' p w''
  assume i: "Inv env S w'" and e: "ext w w'"
    and f: "(case fs_Put (e_put env (w_tick w')) c (w_blobs w') of
               (Inl _, b) \<Rightarrow> (k None, (ticked w')\<lparr>w_blobs := b\<rparr>)
             | (Inr ref, b) \<Rightarrow> (k (Some ref), (ticked w')\<lparr>w_blobs := b\<rparr>)) = (p, w'')"
  obtain r b where put: "fs_Put (e_put env (w_tick w')) c (w_blobs w') = (r, b)" by fastforce
  with f have w'': "w'' = w'\<lparr>w_tick := Suc (w_tick w'), w_blobs := snd (fs_Put (e_put env (w_tick w')) c (w_blobs w'))\<rparr>"
    by (auto simp: ticked_def split: sum.splits)
  note iv = Inv_put [OF i assms(3) w'']
  show "Inv env S w'' \<and> ext w' w'' \<and> keeps_inv env S p w''"
  proof (cases r)
    case (Inl x)
    with f put assms(4) iv ext_trans [OF e] show ?thesis by auto
  next
    case (Inr ref)
    obtain c' where g: "fs_Get ref b = Inr c'"
      using fs.put_get [OF _ put [unfolded Inr]] i by (auto simp: Inv_def)
    have "ref = RefFor c" using fs.put_ref put Inr by blast
    with g Inv_stored [of env S w'' c c'] iv assms(2,3) put w'' have "fs_Get ref (w_blobs w'') = Inr c" by simp
    with Inr f put assms(5) iv ext_trans [OF e] show ?thesis by auto
  qed
qed

subsection \<open>What the run relies on\<close>

text \<open>
  \<open>S\<close> is the set of the contents the run stores: the hypothesis is that SHA-256 does not collide
  on it, that \<open>json.Marshal\<close> of an object can be unmarshalled into a map, that the dispatcher and
  the validator return maps, that the turn of a conversation can be unmarshalled again, and that a delivered payload is empty or a JSON object (see
  \<open>non_object_payload_breaks_the_journal\<close> for a payload that is not).
\<close>

definition outputs_ok :: "string set \<Rightarrow> goval option \<Rightarrow> bool" where
  "outputs_ok S m \<longleftrightarrow> map_nil m \<or> (\<exists>kvs. m = Some (VObject kvs) \<and> json_encode (VObject kvs) \<in> S)"

text \<open>Agent events of which the payload is stored when it is too long for the journal.\<close>

definition events_ok :: "engine_env \<Rightarrow> string set \<Rightarrow> agent_event list \<Rightarrow> bool" where
  "events_ok env S evs \<longleftrightarrow>
     (\<forall>ev \<in> set evs. AgentEventInlineThreshold \<le> length (event_payload env ev) \<longrightarrow> event_payload env ev \<in> S)"

definition transcript_ok :: "engine_env \<Rightarrow> string set \<Rightarrow> goval option \<Rightarrow> bool" where
  "transcript_ok env S t \<longleftrightarrow> json_encode (map_value t) \<in> S \<and> e_unmarshalTurn env (json_encode (map_value t)) \<noteq> None"

definition dispatch_ok :: "engine_env \<Rightarrow> string set \<Rightarrow> dispatch_result \<Rightarrow> bool" where
  "dispatch_ok env S dr \<longleftrightarrow> outputs_ok S (dr_Outputs dr) \<and> (dr_Stdout dr = [] \<or> dr_Stdout dr \<in> S)
     \<and> snd ` set (dr_Files dr) \<subseteq> S \<and> (dr_SessionTranscript dr = [] \<or> dr_SessionTranscript dr \<in> S)
     \<and> (dr_Outcome dr = OutcomeOK \<longrightarrow> transcript_ok env S (dr_Transcript dr)) \<and> events_ok env S (dr_AgentEvents dr)"

definition delivery_ok :: "engine_env \<Rightarrow> string set \<Rightarrow> string \<Rightarrow> bool" where
  "delivery_ok env S payload \<longleftrightarrow>
     (payload = [] \<or> payload \<in> S \<and> e_unmarshal env payload \<noteq> None)
     \<and> (\<forall>schema v. e_validate env schema payload = Some v \<longrightarrow> outputs_ok S (Some v))"

definition env_ok :: "engine_env \<Rightarrow> string set \<Rightarrow> bool" where
  "env_ok env S \<longleftrightarrow> inj_on RefFor S
     \<and> (\<forall>kvs. e_unmarshal env (json_encode (VObject kvs)) \<noteq> None)
     \<and> (\<forall>t intent dr. e_dispatch env t intent = (dr, None) \<longrightarrow> dispatch_ok env S dr)
     \<and> (\<forall>t intent dr e. e_dispatch env t intent = (dr, e) \<longrightarrow> events_ok env S (dr_AgentEvents dr))
     \<and> (\<forall>t b. events_ok env S (sk_appended (sink_run new_sink (filter (\<lambda>i. i = CtxDone \<longrightarrow> b) (e_live env t)))))
     \<and> (\<forall>f t r msg. e_liveFinalizer env = Some f \<longrightarrow> f t r = Some msg \<longrightarrow> events_ok env S [finalizer_notice msg])
     \<and> (\<forall>t name match n payload. e_receive env t name match = Delivered n payload \<longrightarrow> delivery_ok env S payload)"

lemma env_okD:
  assumes "env_ok env S"
  shows "inj_on RefFor S" and "e_dispatch env t intent = (dr, e) \<Longrightarrow> events_ok env S (dr_AgentEvents dr)"
    and "events_ok env S (sk_appended (sink_run new_sink (filter (\<lambda>i. i = CtxDone \<longrightarrow> b) (e_live env t))))"
    and "e_liveFinalizer env = Some f \<Longrightarrow> f t r = Some msg \<Longrightarrow> events_ok env S [finalizer_notice msg]"
  using assms by (simp_all only: env_ok_def)

lemma map_ok_stored:
  assumes "fs_Get ref (w_blobs w) = Inr c" and "e_unmarshal env c \<noteq> None"
  shows "map_ok env w ref"
  using assms by (auto simp: map_ok_def read_map_def read_blob_def parse_blob_def rd_of_def getter_of_def is_ok_def)

lemma bytes_ok_stored: "fs_Get ref (w_blobs w) = Inr c \<Longrightarrow> bytes_ok env w ref"
  by (simp add: bytes_ok_def read_bytes_def read_blob_def rd_of_def getter_of_def is_ok_def)

lemma turn_ok_stored:
  assumes "fs_Get ref (w_blobs w) = Inr c" and "e_unmarshalTurn env c \<noteq> None"
  shows "turn_ok env w ref"
  using assms by (auto simp: turn_ok_def read_turn_def read_blob_def parse_blob_def rd_of_def getter_of_def is_ok_def)

lemma ok_Nil [simp]: "map_ok env w []" "bytes_ok env w []" "turn_ok env w []"
  by (simp_all add: map_ok_def bytes_ok_def turn_ok_def read_map_def read_bytes_def read_turn_def is_ok_def)

subsection \<open>Steps are safe\<close>

lemma keeps_inv_failStep: "Inv env S w \<Longrightarrow> keeps_inv env S (failStep env path oc cause) w"
  unfolding failStep_def by (rule keeps_inv_append) (auto simp: ev_ok_def intro!: keeps_inv_sync)

lemma keeps_inv_started:
  "Inv env S w \<Longrightarrow> (\<And>w'. Inv env S w' \<Longrightarrow> ext w w' \<Longrightarrow> keeps_inv env S p w') \<Longrightarrow>
   keeps_inv env S (appendNodeStarted env path kind p) w"
  unfolding appendNodeStarted_def by (rule keeps_inv_append) (auto simp: ev_ok_def)

lemma keeps_inv_skipped:
  "Inv env S w \<Longrightarrow> (\<And>ok w'. Inv env S w' \<Longrightarrow> ext w w' \<Longrightarrow> keeps_inv env S (k ok) w') \<Longrightarrow>
   keeps_inv env S (appendNodeSkipped env path reason k) w"
  unfolding appendNodeSkipped_def by (rule keeps_inv_append) (auto simp: ev_ok_def)

lemma keeps_inv_upd_rs:
  assumes "Inv env S w" and "\<And>rs. Completed (f rs) = Completed rs \<and> SignalReceivedAt (f rs) = SignalReceivedAt rs"
    and "\<And>w'. Inv env S w' \<Longrightarrow> ext w w' \<Longrightarrow> keeps_inv env S p w'"
  shows "keeps_inv env S (upd_rs f p) w"
  unfolding upd_rs_def upd_def by (rule keeps_inv_quiet [OF assms(1)]) (use assms(2,3) in auto)

lemma rs_update [simp]:
  "rd_of env (w\<lparr>w_rs := x\<rparr>) = rd_of env w" "map_ok env (w\<lparr>w_rs := x\<rparr>) = map_ok env w"
  "logged p nr (w\<lparr>w_rs := x\<rparr>) = logged p nr w" "ext w (w\<lparr>w_rs := x\<rparr>)"
  by (simp_all add: rd_of_def getter_of_def map_ok_def logged_def ext_def fun_eq_iff)

lemma keeps_inv_record_completed:
  assumes "Inv env S w" and "logged path nr w"
    and "\<And>w'. Inv env S w' \<Longrightarrow> ext w w' \<Longrightarrow> keeps_inv env S p w'"
  shows "keeps_inv env S (upd_rs (RecordCompleted path nr) p) w"
  unfolding upd_rs_def upd_def
proof (rule keeps_inv_Act [OF assms(1)])
  fix w' q w'' assume i: "Inv env S w'" and e: "ext w w'"
    and f: "(p, w'\<lparr>w_rs := RecordCompleted path nr (w_rs w')\<rparr>) = (q, w'')"
  have "logged path nr w'" using ext_logged [OF e assms(2)] .
  with i f have "Inv env S w'' \<and> ext w' w''"
    by (auto simp: Inv_def LookupSignalReceivedAt_def RecordCompleted_def LookupCompleted_def split: if_splits)
  with assms(3) ext_trans [OF e] f show "Inv env S w'' \<and> ext w' w'' \<and> keeps_inv env S q w''" by blast
qed

lemma keeps_inv_appendNodeCompleted:
  assumes "Inv env S w" and "ev_ok env w (NodeCompleted d)" and "matches nr d"
    and "\<And>w'. Inv env S w' \<Longrightarrow> ext w w' \<Longrightarrow> keeps_inv env S (k False) w'"
    and "\<And>w'. Inv env S w' \<Longrightarrow> ext w w' \<Longrightarrow> logged path nr w' \<Longrightarrow> keeps_inv env S (k True) w'"
  shows "keeps_inv env S (appendNodeCompleted env path d k) w"
  unfolding appendNodeCompleted_def
proof (rule keeps_inv_append [OF assms(1,2)])
  fix w1 us assume i: "Inv env S w1" and e: "ext w w1" and l: "w_log w1 = us @ [\<lparr>jPath = path, jData = NodeCompleted d\<rparr>]"
  have "logged path nr w2" if e2: "ext w1 w2" and n: "length (w_log w1) \<le> w_synced w2" for w2
  proof -
    from e2 obtain es where "w_log w2 = w_log w1 @ es" "\<forall>e \<in> set es. \<forall>ps. jData e \<noteq> NodeInvalidated ps"
      by (auto simp: ext_def)
    with l n assms(3) show ?thesis
      unfolding logged_def
      by (intro exI [of _ us] exI [of _ d] exI [of _ es]) (auto simp: commit_effect_def split: event_data.split)
  qed
  then show "keeps_inv env S (if \<not> True then k False else log_sync env k) w1"
    using assms(4,5) ext_trans [OF e] by (auto intro!: keeps_inv_sync [OF i])
qed (use assms(4) in auto)

lemma keeps_inv_put_if:
  assumes "Inv env S w" and "inj_on RefFor S" and "b \<Longrightarrow> c \<in> S"
    and "\<And>w'. Inv env S w' \<Longrightarrow> ext w w' \<Longrightarrow> keeps_inv env S failed w'"
    and "\<And>w' ref. Inv env S w' \<Longrightarrow> ext w w' \<Longrightarrow> ref = [] \<and> \<not> b \<or> b \<and> fs_Get ref (w_blobs w') = Inr c \<Longrightarrow> keeps_inv env S (k ref) w'"
  shows "keeps_inv env S (put_if env b c failed k) w"
  using assms unfolding put_if_def by (auto intro!: keeps_inv_put)

lemma keeps_inv_put_files:
  assumes "Inv env S w" and "inj_on RefFor S" and "snd ` set fs \<subseteq> S"
    and "\<And>w'. Inv env S w' \<Longrightarrow> ext w w' \<Longrightarrow> keeps_inv env S failed w'"
    and "\<And>w' m. Inv env S w' \<Longrightarrow> ext w w' \<Longrightarrow> keeps_inv env S (k m) w'"
  shows "keeps_inv env S (put_files env fs acc failed k) w"
  using assms
proof (induction fs arbitrary: acc w)
  case Nil
  then show ?case by simp
next
  case (Cons f fs)
  obtain q c where f: "f = (q, c)" by fastforce
  show ?case unfolding f put_files.simps
  proof (rule keeps_inv_put [OF Cons.prems(1,2)])
    show "c \<in> S" using Cons.prems(3) f by simp
    fix w' ref assume i: "Inv env S w'" and e: "ext w w'"
    show "keeps_inv env S (case Some ref of None \<Rightarrow> failed | Some ref \<Rightarrow> put_files env fs (pm_put q ref acc) failed k) w'"
      using Cons.prems(3-5) ext_trans [OF e] by (auto intro!: Cons.IH [OF i Cons.prems(2)])
  qed (use Cons.prems(4) in auto)
qed

lemma keeps_inv_completed:
  assumes "Inv env S w" and "ev_ok env w (NodeCompleted d)" and "matches nr d"
    and "\<And>w'. Inv env S w' \<Longrightarrow> ext w w' \<Longrightarrow> keeps_inv env S (k None) w'"
    and "\<And>w' nr. Inv env S w' \<Longrightarrow> ext w w' \<Longrightarrow> logged path nr w' \<Longrightarrow> keeps_inv env S (k (Some nr)) w'"
  shows "keeps_inv env S (appendNodeCompleted env path d (\<lambda>ok. if ok then k (Some nr) else k None)) w"
  by (rule keeps_inv_appendNodeCompleted [OF assms(1-3)]) (use assms(4,5) in auto)

lemma keeps_inv_commit_result:
  assumes "Inv env S w" and "dr_Outcome dr = OutcomeOK" and "map_ok env w outRef" and "bytes_ok env w stdRef"
    and "turn_ok env w turnRef"
    and "\<And>w'. Inv env S w' \<Longrightarrow> ext w w' \<Longrightarrow> keeps_inv env S (k None) w'"
    and "\<And>w' nr. Inv env S w' \<Longrightarrow> ext w w' \<Longrightarrow> logged path nr w' \<Longrightarrow> keeps_inv env S (k (Some nr)) w'"
  shows "keeps_inv env S (commit_result env path dr part outRef stdRef files turnRef sref k) w"
proof (cases "node_keys env dr")
  case None
  then show ?thesis using assms(1,6) by (simp add: commit_result_def)
next
  case (Some ks)
  then show ?thesis
    unfolding commit_result_def
    by (cases ks) (auto simp: Let_def assms(2) intro!: keeps_inv_completed [OF assms(1) _ _ assms(6,7)]
        intro: assms(3-5) simp: ev_ok_def matches_def outcome_string_def)
qed

lemma keeps_inv_Commit:
  assumes "Inv env S w" and "env_ok env S" and "dispatch_ok env S dr"
    and none: "\<And>w'. Inv env S w' \<Longrightarrow> ext w w' \<Longrightarrow> keeps_inv env S (k None) w'"
    and some: "\<And>w' nr. Inv env S w' \<Longrightarrow> ext w w' \<Longrightarrow> logged path nr w' \<Longrightarrow> keeps_inv env S (k (Some nr)) w'"
  shows "keeps_inv env S (Commit env path dr part k) w"
proof (cases "dr_Outcome dr = OutcomeOK")
  case False
  then show ?thesis using assms(1,4) by (simp add: Commit_def)
next
  case ok: True
  have inj: "inj_on RefFor S" and um: "\<And>kvs. e_unmarshal env (json_encode (VObject kvs)) \<noteq> None"
    using assms(2) by (simp_all add: env_ok_def)
  have outs: "\<not> map_nil (dr_Outputs dr) \<Longrightarrow> json_encode (map_value (dr_Outputs dr)) \<in> S
      \<and> e_unmarshal env (json_encode (map_value (dr_Outputs dr))) \<noteq> None"
    using assms(3) um by (auto simp: dispatch_ok_def outputs_ok_def map_value_def)
  have rest: "dr_Stdout dr \<noteq> [] \<Longrightarrow> dr_Stdout dr \<in> S" "snd ` set (dr_Files dr) \<subseteq> S"
      "dr_SessionTranscript dr \<noteq> [] \<Longrightarrow> dr_SessionTranscript dr \<in> S" "transcript_ok env S (dr_Transcript dr)"
    using assms(3) ok by (auto simp: dispatch_ok_def)
  show ?thesis
    apply (simp only: Commit_def ok simp_thms if_False)
    apply (rule keeps_inv_put_if [OF assms(1) inj])
    subgoal using outs by blast
    subgoal by (rule none)
    subgoal premises p1 for w1 outRef
      apply (rule keeps_inv_put_if [OF p1(1) inj rest(1)], assumption)
      subgoal by (rule none) (use p1(2) in \<open>blast intro: ext_trans\<close>)+
      subgoal premises p2 for w2 stdRef
        apply (rule keeps_inv_put_files [OF p2(1) inj rest(2)])
        subgoal by (rule none) (use p1(2) p2(2) in \<open>blast intro: ext_trans\<close>)+
        subgoal premises p3 for w3 files
          apply (rule keeps_inv_put_if [OF p3(1) inj])
          subgoal using rest(4) by (simp add: transcript_ok_def)
          subgoal by (rule none) (use p1(2) p2(2) p3(2) in \<open>blast intro: ext_trans\<close>)+
          subgoal premises pt for wt turnRef
          apply (rule keeps_inv_put_if [OF pt(1) inj])
          subgoal using rest(3) by blast
          subgoal by (rule none) (use p1(2) p2(2) p3(2) pt(2) in \<open>blast intro: ext_trans\<close>)+
          subgoal premises p4 for w4 sref
          proof (rule keeps_inv_commit_result [OF p4(1) ok])
            note e24 = ext_trans [OF ext_trans [OF p3(2) pt(2)] p4(2)]
            note e4 = ext_trans [OF ext_trans [OF p1(2) p2(2)] e24]
            have "turn_ok env wt turnRef" using pt(3) rest(4) turn_ok_stored by (auto simp: transcript_ok_def)
            then show "turn_ok env w4 turnRef" by (rule ext_ok(3) [OF p4(2)])
            have "map_ok env w1 outRef" using p1(3) outs map_ok_stored by auto
            then show "map_ok env w4 outRef" by (rule ext_ok(1) [OF ext_trans [OF p2(2) e24]])
            have "bytes_ok env w2 stdRef" using p2(3) bytes_ok_stored by auto
            then show "bytes_ok env w4 stdRef" by (rule ext_ok(2) [OF e24])
            show "keeps_inv env S (k None) w'" if "Inv env S w'" "ext w4 w'" for w'
              using none that ext_trans [OF e4] by blast
            show "keeps_inv env S (k (Some nr)) w'" if "Inv env S w'" "ext w4 w'" "logged path nr w'" for w' nr
              using some that ext_trans [OF e4] by blast
          qed
          done
          done
        done
      done
    done
qed

lemma keeps_inv_dispatch:
  assumes "Inv env S w"
    and "\<And>t w'. Inv env S w' \<Longrightarrow> ext w w' \<Longrightarrow> keeps_inv env S (k (e_dispatch env t intent)) w'"
  shows "keeps_inv env S (dispatch env intent k) w"
  unfolding dispatch_def by (rule keeps_inv_quiet [OF assms(1)]) (use assms(2) in \<open>auto simp: ticked_def\<close>)

lemma keeps_inv_sleep:
  assumes "Inv env S w" and "\<And>e w'. Inv env S w' \<Longrightarrow> ext w w' \<Longrightarrow> keeps_inv env S (k e) w'"
  shows "keeps_inv env S (clk_sleep env c d k) w"
  unfolding clk_sleep_def
  by (rule keeps_inv_quiet [OF assms(1)]) (use assms(2) in \<open>auto simp: ticked_def split: if_splits\<close>)

lemma dispatch_ok_zero: "dispatch_ok env S zero_dispatch"
  by (simp add: dispatch_ok_def outputs_ok_def zero_dispatch_def map_nil_def events_ok_def)

lemma dispatch_ok_update [simp]:
  "dispatch_ok env S (dr\<lparr>dr_Node := n, dr_InputRefs := refs\<rparr>) = dispatch_ok env S dr"
  "dispatch_ok env S dr \<Longrightarrow> dispatch_ok env S (dr\<lparr>dr_Outcome := OutcomeRetryableFailure, dr_Err := e\<rparr>)"
  by (simp_all add: dispatch_ok_def)

lemma dispatch_ok_events:
  assumes "dispatch_ok env S (dr\<lparr>dr_AgentEvents := []\<rparr>)" and "events_ok env S (dr_AgentEvents dr)"
  shows "dispatch_ok env S dr"
  using assms by (simp add: dispatch_ok_def)

lemma dispatch_ok_valid:
  assumes "env_ok env S" and "e_dispatch env t intent = (dr, e)" and "validateDispatchResult dr e"
  shows "dispatch_ok env S dr"
proof (cases e)
  case None
  with assms show ?thesis by (simp add: env_ok_def)
next
  case (Some x)
  then have z: "dr\<lparr>dr_AgentEvents := []\<rparr> = zero_dispatch" using assms(3) by (simp add: validateDispatchResult_def)
  show ?thesis by (rule dispatch_ok_events, unfold z, rule dispatch_ok_zero, rule env_okD(2) [OF assms(1,2)])
qed

subsection \<open>Agent events are safe\<close>

lemma keeps_inv_agent_events:
  assumes "Inv env S w" and "inj_on RefFor S" and "events_ok env S evs"
    and "\<And>w' ok. Inv env S w' \<Longrightarrow> ext w w' \<Longrightarrow> keeps_inv env S (k ok) w'"
  shows "keeps_inv env S (appendAgentEvents env path evs k) w"
  using assms(1,3,4)
proof (induction evs arbitrary: w)
  case (Cons ev evs)
  have k: "keeps_inv env S (k ok) w'" if "Inv env S w'" "ext w w'" for w' ok using Cons.prems(3) that by blast
  show ?case
    unfolding appendAgentEvents.simps Let_def
  proof (rule keeps_inv_put_if [OF Cons.prems(1) assms(2)])
    show "event_payload env ev \<in> S" if "AgentEventInlineThreshold \<le> length (event_payload env ev)"
      using Cons.prems(2) that by (simp add: events_ok_def)
    fix w1 ref assume i1: "Inv env S w1" and e1: "ext w w1"
    show "keeps_inv env S (log_append env path (AgentEventEntry (event_entry env ev (event_payload env ev) ref))
        (\<lambda>ok. if \<not> ok then k False else appendAgentEvents env path evs k)) w1"
    proof (rule keeps_inv_append [OF i1])
      fix w2 us assume i2: "Inv env S w2" and e2: "ext w1 w2"
      have "keeps_inv env S (appendAgentEvents env path evs k) w2"
        by (rule Cons.IH [OF i2]) (use Cons.prems(2) k ext_trans [OF ext_trans [OF e1 e2]] in \<open>auto simp: events_ok_def\<close>)
      then show "keeps_inv env S (if \<not> True then k False else appendAgentEvents env path evs k) w2" by simp
    qed (use k ext_trans [OF e1] in \<open>auto simp: ev_ok_def\<close>)
  qed (rule k)
qed simp

lemma keeps_inv_journal_live:
  assumes "Inv env S w" and "env_ok env S" and "\<And>w' ok. Inv env S w' \<Longrightarrow> ext w w' \<Longrightarrow> keeps_inv env S (k ok) w'"
  shows "keeps_inv env S (journal_live env c path k) w"
  unfolding journal_live_def Let_def
proof (rule keeps_inv_quiet [OF assms(1)], force simp: ticked_def)
  fix w' p w'' w1
  assume i: "Inv env S w''" and e: "ext w w''"
    and f: "(appendAgentEvents env path (sk_appended (sink_run new_sink (filter (\<lambda>i. i = CtxDone \<longrightarrow> ctx_err c w') (e_live env (w_tick w')))))
        (\<lambda>ok. k (ok \<and> sk_err (sink_run new_sink (filter (\<lambda>i. i = CtxDone \<longrightarrow> ctx_err c w') (e_live env (w_tick w')))) = None)),
       ticked w') = (p, w'')"
  have "keeps_inv env S (appendAgentEvents env path (sk_appended (sink_run new_sink (filter (\<lambda>i. i = CtxDone \<longrightarrow> ctx_err c w') (e_live env (w_tick w')))))
        (\<lambda>ok. k (ok \<and> sk_err (sink_run new_sink (filter (\<lambda>i. i = CtxDone \<longrightarrow> ctx_err c w') (e_live env (w_tick w')))) = None))) w''"
    by (rule keeps_inv_agent_events [OF i env_okD(1,3) [OF assms(2)]]) (rule assms(3), assumption, rule ext_trans [OF e])
  with f show "keeps_inv env S p w''" by simp
qed

lemma keeps_inv_flush_sink:
  assumes "Inv env S w" and "env_ok env S" and "\<And>w' ok. Inv env S w' \<Longrightarrow> ext w w' \<Longrightarrow> keeps_inv env S (k ok) w'"
  shows "keeps_inv env S (flush_sink env c intent k) w"
  unfolding flush_sink_def using assms keeps_inv_journal_live by simp

lemma keeps_inv_after_attempt:
  assumes "Inv env S w" and "validateDispatchResult dr e \<Longrightarrow> dispatch_ok env S dr" and env: "env_ok env S"
    and again: "\<And>w'. Inv env S w' \<Longrightarrow> ext w w' \<Longrightarrow> keeps_inv env S again w'"
    and k: "\<And>w' dr e. Inv env S w' \<Longrightarrow> ext w w' \<Longrightarrow> dispatch_ok env S dr \<Longrightarrow> keeps_inv env S (k (dr, e)) w'"
  shows "keeps_inv env S (after_attempt env c intent pol a again k (dr, e)) w"
proof (cases "validateDispatchResult dr e")
  case False
  then show ?thesis using k [OF assms(1) ext_refl dispatch_ok_zero] by (simp add: after_attempt_def)
next
  case True
  define replay where "replay = (e = Some ErrReplayRequired \<and> ni_RecoveryContinue intent)"
  define dr' where "dr' = (if replay then dr\<lparr>dr_Outcome := OutcomeRetryableFailure, dr_Err := e\<rparr> else dr)"
  have ok: "dispatch_ok env S dr'" using assms(2) [OF True] by (simp add: dr'_def)
  have retry: "keeps_inv env S (log_append env (ni_Path intent) (RetryAttempt rd) (\<lambda>ok.
      if \<not> ok then k (dr', Some (ErrInfra ''append retry.attempt''))
      else clk_sleep env c b (\<lambda>e. if e \<noteq> None then k (dr', e) else again))) w0"
    if i0: "Inv env S w0" and e0: "ext w w0" for rd b w0
  proof (rule keeps_inv_append [OF i0])
    fix w1 us assume i: "Inv env S w1" and e: "ext w0 w1"
    have "keeps_inv env S (clk_sleep env c b (\<lambda>e. if e \<noteq> None then k (dr', e) else again)) w1"
      by (rule keeps_inv_sleep [OF i]) (simp, intro conjI impI; (rule again k); blast intro: ok ext_trans [OF ext_trans [OF e0 e]])
    then show "keeps_inv env S (if \<not> True then k (dr', Some (ErrInfra ''append retry.attempt''))
      else clk_sleep env c b (\<lambda>e. if e \<noteq> None then k (dr', e) else again)) w1" by simp
  qed (use k ok ext_trans [OF e0] in \<open>auto simp: ev_ok_def\<close>)
  have "keeps_inv env S (flush_sink env c intent (\<lambda>ok. if \<not> ok then k (zero_dispatch, Some ErrSink)
      else log_append env (ni_Path intent) (RetryAttempt rd) (\<lambda>ok.
      if \<not> ok then k (dr', Some (ErrInfra ''append retry.attempt''))
      else clk_sleep env c b (\<lambda>e. if e \<noteq> None then k (dr', e) else again)))) w" for rd b
  proof (rule keeps_inv_flush_sink [OF assms(1) env])
    fix w1 flushed assume "Inv env S w1" "ext w w1"
    with retry [of w1 rd b] k dispatch_ok_zero show "keeps_inv env S (if \<not> flushed then k (zero_dispatch, Some ErrSink)
      else log_append env (ni_Path intent) (RetryAttempt rd) (\<lambda>ok.
      if \<not> ok then k (dr', Some (ErrInfra ''append retry.attempt''))
      else clk_sleep env c b (\<lambda>e. if e \<noteq> None then k (dr', e) else again))) w1" by simp
  qed
  moreover have "keeps_inv env S (k (dr', x)) w" for x by (rule k [OF assms(1) ext_refl ok])
  ultimately show ?thesis
    using True unfolding after_attempt_def prod.case Let_def replay_def [symmetric] dr'_def [symmetric]
    by (simp split: outcome.split)
qed

lemma keeps_inv_retry_attempts:
  assumes "Inv env S w" and "env_ok env S"
    and "\<And>w' dr e. Inv env S w' \<Longrightarrow> ext w w' \<Longrightarrow> dispatch_ok env S dr \<Longrightarrow> keeps_inv env S (k (dr, e)) w'"
  shows "keeps_inv env S (retry_attempts n a env c intent pol k) w"
  using assms(1,3)
proof (induction n arbitrary: a w)
  case 0
  then show ?case by (simp add: dispatch_ok_zero)
next
  case (Suc n)
  show ?case
    unfolding retry_attempts.simps
  proof (rule keeps_inv_dispatch [OF Suc.prems(1)])
    fix t w1
    assume i: "Inv env S w1" and e: "ext w w1"
    obtain dr err where d: "e_dispatch env t (intent\<lparr>ni_Attempt := a\<rparr>) = (dr, err)" by fastforce
    show "keeps_inv env S (after_attempt env c intent pol a (retry_attempts n (a + 1) env c intent pol k) k
        (e_dispatch env t (intent\<lparr>ni_Attempt := a\<rparr>))) w1"
      unfolding d
    proof (rule keeps_inv_after_attempt [OF i dispatch_ok_valid [OF assms(2) d] assms(2)])
      show "keeps_inv env S (k (x, y)) w'" if "Inv env S w'" "ext w1 w'" "dispatch_ok env S x" for w' x y
        using Suc.prems(2) that ext_trans [OF e] by blast
      show "keeps_inv env S (retry_attempts n (a + 1) env c intent pol k) w'" if "Inv env S w'" "ext w1 w'" for w'
        by (rule Suc.IH [OF that(1)]) (use Suc.prems(2) ext_trans [OF ext_trans [OF e that(2)]] in blast)
    qed
  qed
qed

lemma keeps_inv_RunWithRetry:
  assumes "Inv env S w" and "env_ok env S"
    and "\<And>w' dr e. Inv env S w' \<Longrightarrow> ext w w' \<Longrightarrow> dispatch_ok env S dr \<Longrightarrow> keeps_inv env S (k (dr, e)) w'"
  shows "keeps_inv env S (RunWithRetry env c intent pol k) w"
  unfolding RunWithRetry_def
  using assms dispatch_ok_zero by (auto intro!: keeps_inv_retry_attempts)

lemma keeps_inv_run_code:
  assumes "Inv env S w" and "env_ok env S"
  shows "keeps_inv env S (run_code env c cs path pol intent refs) w"
  unfolding run_code_def
proof (rule keeps_inv_started [OF assms(1)], rule keeps_inv_RunWithRetry [OF _ assms(2)], assumption)
  fix w1 w2 dr e assume i: "Inv env S w2" and d: "dispatch_ok env S dr"
  have "keeps_inv env S (Commit env path (dr\<lparr>dr_Node := Some (CodeStep cs), dr_InputRefs := refs\<rparr>) False
      (\<lambda>r. case r of None \<Rightarrow> infra ''commit'' | Some nr \<Rightarrow> upd_rs (RecordCompleted path nr) (Ret (OutcomeOK, None)))) w2"
    by (rule keeps_inv_Commit [OF i assms(2)]) (use d in \<open>auto intro!: keeps_inv_record_completed\<close>)
  then show "keeps_inv env S (case (dr, e) of (dr, runErr) \<Rightarrow> case runErr of
         Some e \<Rightarrow> if dr_Outcome dr = NoOutcome then infra ''dispatch'' else failStep env path (dr_Outcome dr) (Some e)
       | None \<Rightarrow>
           if dr_Outcome dr \<noteq> OutcomeOK
           then failStep env path (dr_Outcome dr) (Some (ErrCause ''step did not commit (no underlying error reported)''))
           else Commit env path (dr\<lparr>dr_Node := Some (CodeStep cs), dr_InputRefs := refs\<rparr>) False (\<lambda>r.
                  case r of None \<Rightarrow> infra ''commit''
                  | Some nr \<Rightarrow> upd_rs (RecordCompleted path nr) (Ret (OutcomeOK, None)))) w2"
    using keeps_inv_failStep [OF i] by (simp split: option.split)
qed

lemma keeps_inv_stage_failed: "Inv env S w \<Longrightarrow> keeps_inv env S (stage_failed env path msg e) w"
  by (cases e) (auto simp: stage_failed_def intro: keeps_inv_failStep)

lemma keeps_inv_sum: "(\<And>a. x = Inl a \<Longrightarrow> keeps_inv env S (f a) w) \<Longrightarrow> (\<And>b. x = Inr b \<Longrightarrow> keeps_inv env S (g b) w) \<Longrightarrow>
   keeps_inv env S (case x of Inl a \<Rightarrow> f a | Inr b \<Rightarrow> g b) w"
  by (cases x) auto

lemma keeps_inv_opt: "(x = None \<Longrightarrow> keeps_inv env S f w) \<Longrightarrow> (\<And>b. x = Some b \<Longrightarrow> keeps_inv env S (g b) w) \<Longrightarrow>
   keeps_inv env S (case x of None \<Rightarrow> f | Some b \<Rightarrow> g b) w"
  by (cases x) auto

lemma keeps_inv_if: "(b \<Longrightarrow> keeps_inv env S p w) \<Longrightarrow> (\<not> b \<Longrightarrow> keeps_inv env S q w) \<Longrightarrow> keeps_inv env S (if b then p else q) w"
  by simp

lemmas keeps_inv_step_intros = keeps_inv_read keeps_inv_sum keeps_inv_opt keeps_inv_if keeps_inv_failStep keeps_inv_stage_failed keeps_inv_Ret keeps_inv_infra

lemma keeps_inv_runCodeStep: "Inv env S w \<Longrightarrow> env_ok env S \<Longrightarrow> keeps_inv env S (runCodeStep env c cs path) w"
  unfolding runCodeStep_def
  by (intro keeps_inv_step_intros keeps_inv_run_code; assumption)

text \<open>Agent steps that route no skills.\<close>

lemma keeps_inv_finalize_live:
  assumes "Inv env S w" and "env_ok env S"
  shows "keeps_inv env S (finalize_live env path dr) w"
proof -
  have "keeps_inv env S (Act (\<lambda>w. (case f (w_tick w) rec of None \<Rightarrow> Ret (OutcomeOK, None)
      | Some msg \<Rightarrow> appendAgentEvents env path [finalizer_notice msg] (\<lambda>_. Ret (OutcomeOK, None)), ticked w))) w"
    if "e_liveFinalizer env = Some f" for f rec
  proof (rule keeps_inv_quiet [OF assms(1)], force simp: ticked_def)
    fix w' p w'' w1
    assume i: "Inv env S w''" and p: "(case f (w_tick w') rec of None \<Rightarrow> Ret (OutcomeOK, None)
      | Some msg \<Rightarrow> appendAgentEvents env path [finalizer_notice msg] (\<lambda>_. Ret (OutcomeOK, None)), ticked w') = (p, w'')"
    have "keeps_inv env S (appendAgentEvents env path [finalizer_notice msg] (\<lambda>_. Ret (OutcomeOK, None))) w''"
      if "f (w_tick w') rec = Some msg" for msg
      by (rule keeps_inv_agent_events [OF i env_okD(1) [OF assms(2)] env_okD(4) [OF assms(2) \<open>e_liveFinalizer env = Some f\<close> that]]) simp
    then show "keeps_inv env S p w''" using p by (cases "f (w_tick w') rec") auto
  qed
  then show ?thesis unfolding finalize_live_def by (auto split: option.split)
qed

lemma keeps_inv_agent_result:
  assumes "Inv env S w" and "env_ok env S" and "dispatch_ok env S dr"
  shows "keeps_inv env S (agent_result env c v path (dr, e)) w"
proof -
  have commit: "keeps_inv env S (commit_agent env v path dr) w'" if i: "Inv env S w'" for w'
    unfolding commit_agent_def
    by (rule keeps_inv_Commit [OF i assms(2,3)])
      (auto intro!: keeps_inv_record_completed keeps_inv_finalize_live assms(2))
  have ev: "inj_on RefFor S" "events_ok env S (dr_AgentEvents dr)"
    using assms(2,3) by (auto simp: env_ok_def dispatch_ok_def)
  show ?thesis
    unfolding agent_result_def prod.case
    by (intro keeps_inv_if keeps_inv_infra keeps_inv_journal_live [OF assms(1,2)] keeps_inv_agent_events [OF _ ev] keeps_inv_opt
        keeps_inv_failStep commit; assumption)
qed

lemma keeps_inv_run_agent:
  assumes "Inv env S w" and "env_ok env S"
  shows "keeps_inv env S (run_agent env c v path pol intent) w"
  unfolding run_agent_def
proof (rule keeps_inv_quiet [OF assms(1)], force)
  fix w' p w'' w1
  assume i: "Inv env S w''" and f: "(appendNodeStarted env path ''agent''
        (RunWithRetry env (w_ctxs w' # c) intent pol (agent_result env (w_ctxs w' # c) v path)),
      w'\<lparr>w_ctxs := Suc (w_ctxs w')\<rparr>) = (p, w'')"
  have "keeps_inv env S (appendNodeStarted env path ''agent''
        (RunWithRetry env (w_ctxs w' # c) intent pol (agent_result env (w_ctxs w' # c) v path))) w''"
    by (intro keeps_inv_started [OF i] keeps_inv_RunWithRetry [OF _ assms(2)] keeps_inv_agent_result assms(2); assumption)
  with f show "keeps_inv env S p w''" by simp
qed

lemma keeps_inv_runAgentStep:
  assumes "Inv env S w" and "env_ok env S" and "as_Skills v = None"
  shows "keeps_inv env S (runAgentStep env c v path) w"
proof -
  have launch: "Inv env S w' \<Longrightarrow> keeps_inv env S (launch_agent env c v path pol wth key turns files inputFiles) w'"
    for w' pol wth key turns files inputFiles
    unfolding launch_agent_def by (intro keeps_inv_step_intros keeps_inv_run_agent assms(2); assumption)
  have stage: "Inv env S w' \<Longrightarrow> keeps_inv env S (stage_agent env v path None k) w'"
    if k: "\<And>files inputFiles w'. Inv env S w' \<Longrightarrow> keeps_inv env S (k files inputFiles) w'" for w' k
    unfolding stage_agent_def by (intro keeps_inv_step_intros k; assumption)
  have tail: "Inv env S w' \<Longrightarrow> keeps_inv env S (read (\<lambda>w. case thread_of (scope_of env w path) v of
       Inl ErrFuel \<Rightarrow> Ret (NoOutcome, Some ErrFuel)
     | Inl e \<Rightarrow> failStep env path OutcomePermanentFailure (Some e)
     | Inr turns \<Rightarrow> stage_agent env v path None (\<lambda>files inputFiles.
         launch_agent env c v path pol wth key turns files inputFiles))) w'" for w' pol wth key
    by (rule keeps_inv_read, assumption, rule keeps_inv_sum)
      (auto intro!: keeps_inv_failStep stage launch split: gerr.split)
  show ?thesis
    unfolding runAgentStep_def with_skills_def assms(3) option.case
    by (rule keeps_inv_read [OF assms(1)], intro keeps_inv_if keeps_inv_Ret, rule keeps_inv_read, assumption, rule keeps_inv_sum,
        rule keeps_inv_failStep, assumption, rule keeps_inv_read, assumption, rule keeps_inv_sum, rule keeps_inv_failStep,
        assumption, intro keeps_inv_sum keeps_inv_infra tail)
qed

lemma keeps_inv_commit_signal:
  assumes "Inv env S w" and "map_ok env w ref"
  shows "keeps_inv env S (commit_signal env path ref outs) w"
  unfolding commit_signal_def
proof (rule keeps_inv_appendNodeCompleted [OF assms(1), where nr = "\<lparr>nr_Outcome = OutcomeOK, nr_ExitCode = None,
      nr_Outputs = outs, nr_OutputsRef = ref, nr_Stdout = None, nr_StdoutRef = [], nr_Files = [],
      nr_Transcript = None, nr_NodeKey = [], nr_SubtreeDigest = []\<rparr>"])
qed (use assms(2) in \<open>auto simp: ev_ok_def matches_def intro!: keeps_inv_record_completed\<close>)

lemma keeps_inv_received_at:
  assumes "Inv env S w" and "map_ok env w (se_PayloadRef entry)"
    and "\<And>w'. Inv env S w' \<Longrightarrow> ext w w' \<Longrightarrow> keeps_inv env S p w'"
  shows "keeps_inv env S (upd_rs (RecordSignalReceivedAt path entry) p) w"
  unfolding upd_rs_def upd_def
proof (rule keeps_inv_Act [OF assms(1)])
  fix w' q w'' assume i: "Inv env S w'" and e: "ext w w'"
    and f: "(p, w'\<lparr>w_rs := RecordSignalReceivedAt path entry (w_rs w')\<rparr>) = (q, w'')"
  have "map_ok env w' (se_PayloadRef entry)" by (rule ext_ok(1) [OF e assms(2)])
  with i f have "Inv env S w'' \<and> ext w' w''"
    by (auto simp: Inv_def LookupSignalReceivedAt_def RecordSignalReceivedAt_def LookupCompleted_def split: if_splits)
  with assms(3) ext_trans [OF e] f show "Inv env S w'' \<and> ext w' w'' \<and> keeps_inv env S q w''" by blast
qed

lemma keeps_inv_record_delivery:
  assumes "Inv env S w" and "map_ok env w ref"
  shows "keeps_inv env S (record_delivery env ss path n ref outs) w"
proof -
  have ok: "map_ok env w' ref" if "ext w w'" for w' using ext_ok(1) [OF that assms(2)] .
  show ?thesis
    unfolding record_delivery_def
    by (rule keeps_inv_append [OF assms(1)], auto simp: ev_ok_def assms(2) AppendSignal_def
        intro!: keeps_inv_sync keeps_inv_upd_rs keeps_inv_received_at keeps_inv_commit_signal) (blast intro: ok ext_trans)+
qed

lemma keeps_inv_take_delivery:
  assumes "Inv env S w" and "env_ok env S" and "delivery_ok env S payload"
  shows "keeps_inv env S (take_delivery env ss path n payload) w"
proof -
  have inj: "inj_on RefFor S" and um: "\<And>kvs. e_unmarshal env (json_encode (VObject kvs)) \<noteq> None"
    using assms(2) by (simp_all add: env_ok_def)
  have put: "keeps_inv env S (put_if env (\<not> map_nil outs \<or> payload \<noteq> [])
      (if map_nil outs then payload else json_encode (map_value outs)) (infra ''put payload'')
      (\<lambda>ref. record_delivery env ss path n ref outs)) w" if o: "outputs_ok S outs" for outs
  proof (rule keeps_inv_put_if [OF assms(1) inj])
    show "(if map_nil outs then payload else json_encode (map_value outs)) \<in> S" if "\<not> map_nil outs \<or> payload \<noteq> []"
      using that o assms(3) by (auto simp: outputs_ok_def delivery_ok_def map_value_def)
    fix w1 ref assume i1: "Inv env S w1" and r: "ref = [] \<and> \<not> (\<not> map_nil outs \<or> payload \<noteq> []) \<or>
      (\<not> map_nil outs \<or> payload \<noteq> []) \<and> fs_Get ref (w_blobs w1) = Inr (if map_nil outs then payload else json_encode (map_value outs))"
    have "map_ok env w1 ref"
    proof (cases "map_nil outs")
      case True
      then show ?thesis using r assms(3) map_ok_stored [of ref w1] by (auto simp: delivery_ok_def)
    next
      case False
      with o obtain kvs where "outs = Some (VObject kvs)" by (auto simp: outputs_ok_def)
      with False r um [of kvs] map_ok_stored [of ref w1] show ?thesis by (auto simp: map_value_def)
    qed
    then show "keeps_inv env S (record_delivery env ss path n ref outs) w1" by (rule keeps_inv_record_delivery [OF i1])
  qed simp
  have "outputs_ok S None" by (simp add: outputs_ok_def map_nil_def)
  moreover have "e_validate env schema payload = Some v \<Longrightarrow> outputs_ok S (Some v)" for schema v
    using assms(3) by (simp add: delivery_ok_def)
  ultimately show ?thesis
    unfolding take_delivery_def
    by (intro keeps_inv_opt keeps_inv_failStep [OF assms(1)] put) (auto split: option.splits)
qed

lemma keeps_inv_receive:
  assumes "Inv env S w" and "\<And>t w'. Inv env S w' \<Longrightarrow> ext w w' \<Longrightarrow> keeps_inv env S (k (e_receive env t name match)) w'"
  shows "keeps_inv env S (receive env name match k) w"
  unfolding receive_def by (rule keeps_inv_quiet [OF assms(1)]) (use assms(2) in \<open>auto simp: ticked_def\<close>)

lemma keeps_inv_receive_failed: "Inv env S w \<Longrightarrow> keeps_inv env S (receive_failed env ss path e) w"
  unfolding receive_failed_def by (intro keeps_inv_step_intros; assumption)

lemma keeps_inv_await_signal:
  assumes "Inv env S w" and "env_ok env S"
  shows "keeps_inv env S (await_signal env ss path match) w"
  unfolding await_signal_def
proof (rule keeps_inv_receive [OF assms(1)])
  fix t w' assume i: "Inv env S w'"
  show "keeps_inv env S (case e_receive env t (ss_Await ss) match of
      Delivered seqno payload \<Rightarrow> take_delivery env ss path seqno payload
    | ReceiveFailed e \<Rightarrow> receive_failed env ss path e) w'"
  proof (cases "e_receive env t (ss_Await ss) match")
    case (Delivered n payload)
    moreover from this assms(2) have "delivery_ok env S payload" by (auto simp: env_ok_def)
    ultimately show ?thesis using keeps_inv_take_delivery [OF i assms(2)] by simp
  qed (use keeps_inv_receive_failed [OF i] in simp)
qed

lemma keeps_inv_half_commit:
  assumes "Inv env S w" and "map_ok env w (se_PayloadRef entry)"
  shows "keeps_inv env S (half_commit env ss path entry) w"
  unfolding half_commit_def
  by (intro keeps_inv_opt keeps_inv_if keeps_inv_sum keeps_inv_read keeps_inv_infra keeps_inv_commit_signal)
    (auto intro: assms ext_ok(1) [OF _ assms(2)])

lemma keeps_inv_runSignalStep:
  assumes "Inv env S w" and "env_ok env S"
  shows "keeps_inv env S (runSignalStep env ss path) w"
  unfolding runSignalStep_def
  by (intro keeps_inv_step_intros keeps_inv_started keeps_inv_half_commit keeps_inv_await_signal assms; assumption?)
    (auto simp: Inv_def)

subsection \<open>Control nodes are safe\<close>

text \<open>A body is safe when it is safe in every world of the run.\<close>

definition keeps_inv_body :: "engine_env \<Rightarrow> string set \<Rightarrow> P \<Rightarrow> bool" where
  "keeps_inv_body env S p \<longleftrightarrow> (\<forall>w. Inv env S w \<longrightarrow> keeps_inv env S p w)"

lemma keeps_inv_bodyI: "(\<And>w. Inv env S w \<Longrightarrow> keeps_inv env S p w) \<Longrightarrow> keeps_inv_body env S p"
  by (simp add: keeps_inv_body_def)

lemma keeps_inv_bodyD: "keeps_inv_body env S p \<Longrightarrow> Inv env S w \<Longrightarrow> keeps_inv env S p w"
  by (simp add: keeps_inv_body_def)

lemma keeps_inv_body_seq: "keeps_inv_body env S p \<Longrightarrow> (\<And>v. keeps_inv_body env S (f v)) \<Longrightarrow> keeps_inv_body env S (seq p f)"
  by (simp add: keeps_inv_body_def keeps_inv_seq)

lemma keeps_inv_body_skipped: "(\<And>ok. keeps_inv_body env S (k ok)) \<Longrightarrow> keeps_inv_body env S (appendNodeSkipped env path reason k)"
  by (simp add: keeps_inv_body_def keeps_inv_skipped)

lemma keeps_inv_body_plain:
  "keeps_inv_body env S (Ret v)" "keeps_inv_body env S (infra s)" "keeps_inv_body env S (failStep env path oc cause)"
  by (simp_all add: keeps_inv_body_def keeps_inv_failStep)

lemma keeps_inv_body_opt: "(x = None \<Longrightarrow> keeps_inv_body env S f) \<Longrightarrow> (\<And>b. x = Some b \<Longrightarrow> keeps_inv_body env S (g b)) \<Longrightarrow>
   keeps_inv_body env S (case x of None \<Rightarrow> f | Some b \<Rightarrow> g b)"
  by (cases x) auto

lemma keeps_inv_body_append:
  assumes "\<And>w. ev_ok env w d" and "\<And>ok. keeps_inv_body env S (k ok)"
  shows "keeps_inv_body env S (log_append env path d k)"
  using assms(2) by (auto intro!: keeps_inv_bodyI keeps_inv_append intro: assms(1) keeps_inv_bodyD)

lemma keeps_inv_body_sync: "(\<And>ok. keeps_inv_body env S (k ok)) \<Longrightarrow> keeps_inv_body env S (log_sync env k)"
  by (auto intro!: keeps_inv_bodyI keeps_inv_sync intro: keeps_inv_bodyD)

lemma keeps_inv_body_read: "(\<And>w. Inv env S w \<Longrightarrow> keeps_inv env S (k w) w) \<Longrightarrow> keeps_inv_body env S (read k)"
  by (auto intro!: keeps_inv_bodyI keeps_inv_read)

lemma keeps_inv_body_upd_rs:
  assumes "\<And>rs. Completed (f rs) = Completed rs \<and> SignalReceivedAt (f rs) = SignalReceivedAt rs" and "keeps_inv_body env S p"
  shows "keeps_inv_body env S (upd_rs f p)"
  by (rule keeps_inv_bodyI, rule keeps_inv_upd_rs) (use assms keeps_inv_bodyD in blast)+

lemma keeps_inv_body_cancel: "keeps_inv_body env S p \<Longrightarrow> keeps_inv_body env S (cancel_ctx i p)"
  unfolding cancel_ctx_def upd_def by (rule keeps_inv_bodyI, rule keeps_inv_quiet) (auto intro: keeps_inv_bodyD)

lemmas record_simps = RecordBranch_def RecordLoopIter_def RecordGateAttempt_def

lemma keeps_inv_runIf:
  assumes "keeps_inv_body env S p" and "keeps_inv_body env S q"
  shows "keeps_inv_body env S (runIf env cond path p q)"
proof -
  have t: "keeps_inv_body env S (take_branch b p q)" for b
    using assms by (simp add: take_branch_def keeps_inv_body_plain)
  have "keeps_inv_body env S (log_append env path (BranchTaken b) (\<lambda>ok.
      if \<not> ok then infra ''append branch.taken'' else upd_rs (RecordBranch path b) (take_branch b p q)))" for b
    by (rule keeps_inv_body_append) (auto simp: ev_ok_def RecordBranch_def intro!: keeps_inv_body_plain keeps_inv_body_upd_rs t)
  with t show ?thesis
    unfolding runIf_def Let_def
    by (intro keeps_inv_body_read keeps_inv_opt keeps_inv_sum keeps_inv_read keeps_inv_failStep) (auto intro: keeps_inv_bodyD)
qed

lemma keeps_inv_loop_from:
  assumes "\<And>p. keeps_inv_body env S (body p)"
  shows "keeps_inv_body env S (loop_from n env until maxIters path body k)"
proof (induction n arbitrary: k)
  case 0
  then show ?case by (simp add: keeps_inv_body_plain)
next
  case (Suc n)
  define rest where "rest = (if (case maxIters of None \<Rightarrow> False | Some m \<Rightarrow> m \<le> k) then Ret (OutcomeOK, None)
                             else loop_from n env until maxIters path body (k + 1))"
  have r: "keeps_inv_body env S rest" using Suc.IH by (simp add: rest_def keeps_inv_body_plain)
  define finish where "finish = log_append env path (LoopIter k) (\<lambda>ok.
      if \<not> ok then infra ''append loop.iter''
      else upd_rs (RecordLoopIter path k) (case until of
             None \<Rightarrow> rest
           | Some u \<Rightarrow> read (\<lambda>w. case EvalBoolString u (Resolve (scope_of env w (IterPath (path @ ''.body'') k))) of
               Inl e \<Rightarrow> failStep env path OutcomePermanentFailure (Some (ErrEval e))
             | Inr done \<Rightarrow> if done then Ret (OutcomeOK, None) else rest)))"
  have f: "keeps_inv_body env S finish"
    unfolding finish_def
    by (rule keeps_inv_body_append, simp add: ev_ok_def)
      (auto simp: RecordLoopIter_def intro!: keeps_inv_body_plain keeps_inv_body_upd_rs r keeps_inv_body_opt keeps_inv_body_read
        keeps_inv_sum keeps_inv_failStep keeps_inv_bodyD [OF r])
  show ?case
    unfolding loop_from.simps Let_def rest_def [symmetric] finish_def [symmetric]
    by (rule keeps_inv_body_seq [OF assms])
      (auto split: option.split gerr.split intro!: keeps_inv_body_plain keeps_inv_body_skipped f)
qed

lemma keeps_inv_runLoop: "(\<And>p. keeps_inv_body env S (body p)) \<Longrightarrow> keeps_inv_body env S (runLoop env until maxIters path body)"
  unfolding runLoop_def Let_def
  by (auto intro!: keeps_inv_body_plain keeps_inv_body_read keeps_inv_bodyD [OF keeps_inv_loop_from])

lemma keeps_inv_try_finally:
  assumes "\<And>f. finallyP = Some f \<Longrightarrow> keeps_inv_body env S f"
  shows "keeps_inv_body env S (try_finally c finallyP pendingErr propagated)"
proof -
  have "keeps_inv_body env S (try_tail c pendingErr propagated)"
    unfolding try_tail_def by (auto intro!: keeps_inv_body_plain keeps_inv_body_read)
  with assms show ?thesis
    unfolding try_finally_def
    by (auto intro!: keeps_inv_body_opt keeps_inv_body_seq keeps_inv_body_plain)
qed

lemma keeps_inv_runTry:
  assumes "keeps_inv_body env S doP" and "\<And>p. catchP = Some p \<Longrightarrow> keeps_inv_body env S p"
    and "\<And>p. finallyP = Some p \<Longrightarrow> keeps_inv_body env S p"
  shows "keeps_inv_body env S (runTry env c path doP catchP finallyP)"
proof -
  have "keeps_inv_body env S (try_finally c finallyP pe pr)" for pe pr by (rule keeps_inv_try_finally [OF assms(3)])
  moreover have "catchP \<noteq> None \<Longrightarrow> keeps_inv_body env S (the catchP)" using assms(2) by auto
  ultimately show ?thesis
    unfolding runTry_def
    by (intro keeps_inv_body_seq assms(1)) (auto split: option.split gerr.split intro!: keeps_inv_body_skipped keeps_inv_body_seq)
qed

lemma keeps_inv_branch_end: "keeps_inv_body env S (branch_end env gid path v)"
  unfolding branch_end_def
  by (auto split: prod.split option.split gerr.split intro!: keeps_inv_body_skipped keeps_inv_body_cancel keeps_inv_body_plain)

lemma keeps_inv_gate_part:
  "keeps_inv_body env S part \<Longrightarrow> keeps_inv_body env S p \<Longrightarrow> keeps_inv_body env S (gate_part env path part p)"
  unfolding gate_part_def
  by (rule keeps_inv_body_seq) (auto split: option.split gerr.split intro!: keeps_inv_body_skipped keeps_inv_body_plain)

lemma keeps_inv_gate_attempt_record:
  assumes "Inv env S w" and "map_ok env w (ga_VerdictRef d)" and "\<And>b. keeps_inv_body env S (k b)"
  shows "keeps_inv env S (log_append env path (GateAttempt d) (\<lambda>ok.
     if \<not> ok then infra ''append gate.attempt''
     else log_sync env (\<lambda>ok. if \<not> ok then infra ''sync gate.attempt'' else upd_rs (RecordGateAttempt path ar) (k b)))) w"
proof (rule keeps_inv_append [OF assms(1)])
  fix w' us assume "Inv env S w'"
  moreover have "keeps_inv_body env S (log_sync env (\<lambda>ok. if \<not> ok then infra ''sync gate.attempt''
      else upd_rs (RecordGateAttempt path ar) (k b)))"
    by (rule keeps_inv_body_sync) (auto simp: RecordGateAttempt_def intro!: keeps_inv_body_plain keeps_inv_body_upd_rs assms(3))
  ultimately show "keeps_inv env S (if \<not> True then infra ''append gate.attempt''
     else log_sync env (\<lambda>ok. if \<not> ok then infra ''sync gate.attempt'' else upd_rs (RecordGateAttempt path ar) (k b))) w'"
    by (simp add: keeps_inv_bodyD)
qed (use assms(2) in \<open>auto simp: ev_ok_def\<close>)

lemma keeps_inv_gate_verdict:
  assumes "\<And>b. keeps_inv_body env S (k b)"
  shows "keeps_inv_body env S (gate_verdict env evaluate until path n k)"
  unfolding gate_verdict_def Let_def
proof (intro keeps_inv_body_opt keeps_inv_body_plain keeps_inv_body_read keeps_inv_opt keeps_inv_infra)
  fix lastStepPath w nr
  assume i: "Inv env S w" and "LookupCompleted (w_rs w) lastStepPath = Some nr"
  then have m: "map_ok env w (nr_OutputsRef nr)" by (rule Inv_verdict)
  show "keeps_inv env S (read (\<lambda>w. case EvalBoolString until (Resolve (scopeWithVerdict env w (AttemptPath path n @ ''.until'') (nr_Outputs nr))) of
      Inl e \<Rightarrow> failStep env path OutcomePermanentFailure (Some (ErrEval e))
    | Inr passed \<Rightarrow> log_append env path (GateAttempt \<lparr>ga_N = n, ga_Outcome = if passed then AttemptPassed else AttemptRejected, ga_VerdictRef = nr_OutputsRef nr\<rparr>) (\<lambda>ok.
        if \<not> ok then infra ''append gate.attempt''
        else log_sync env (\<lambda>ok. if \<not> ok then infra ''sync gate.attempt''
          else upd_rs (RecordGateAttempt path \<lparr>at_N = n, at_Outcome = if passed then AttemptPassed else AttemptRejected, at_Verdict = nr_Outputs nr\<rparr>)
            (k passed))))) w"
    by (intro keeps_inv_read [OF i] keeps_inv_sum keeps_inv_failStep keeps_inv_gate_attempt_record assms)
      (auto intro: ext_ok(1) [OF _ m])
qed

lemma keeps_inv_gate_from:
  assumes "\<And>p. keeps_inv_body env S (gen p)" and "\<And>p. keeps_inv_body env S (ev p)"
  shows "keeps_inv_body env S (gate_from m env evaluate until maxAttempts path gen ev n)"
proof (induction m arbitrary: n)
  case (Suc m)
  then show ?case
    unfolding gate_from.simps
    by (intro keeps_inv_gate_part assms keeps_inv_gate_verdict) (auto intro: keeps_inv_body_plain)
qed (simp add: keeps_inv_body_plain)

lemma keeps_inv_runGate:
  "(\<And>p. keeps_inv_body env S (gen p)) \<Longrightarrow> (\<And>p. keeps_inv_body env S (ev p)) \<Longrightarrow>
   keeps_inv_body env S (runGate env generate evaluate until maxAttempts path gen ev)"
  unfolding runGate_def Let_def
  by (auto intro!: keeps_inv_body_plain keeps_inv_body_read keeps_inv_bodyD [OF keeps_inv_gate_from])

subsection \<open>Runs are safe\<close>

text \<open>The nodes whose events are covered here; the rounds of a react step are treated in \<open>React_Resume\<close>.\<close>

fun journalled :: "node \<Rightarrow> bool" where
  "journalled (CodeStep _) = True"
| "journalled (SignalStep _) = True"
| "journalled (AgentStep v) = (as_Skills v = None)"
| "journalled (Skip _) = True"
| "journalled (If _ a b) = (list_all journalled a \<and> list_all journalled b)"
| "journalled (Loop _ _ a) = list_all journalled a"
| "journalled (Try a b c) = (list_all journalled a \<and> list_all journalled b \<and> list_all journalled c)"
| "journalled (Parallel a) = list_all journalled a"
| "journalled (Gate a b _ _) = (list_all journalled a \<and> list_all journalled b)"
| "journalled _ = False"

lemma keeps_inv_parallel:
  assumes "\<And>w p. p \<in> set (bs w) \<Longrightarrow> keeps_inv_body env S p"
  shows "keeps_inv_body env S (Act (\<lambda>w. (Par (bs w) join_branches, w\<lparr>w_ctxs := Suc (w_ctxs w)\<rparr>)))"
proof (rule keeps_inv_bodyI, rule keeps_inv_quiet, assumption)
  fix w w' p w'' assume "Inv env S w''" and "(Par (bs w') join_branches, w'\<lparr>w_ctxs := Suc (w_ctxs w')\<rparr>) = (p, w'')"
  then show "keeps_inv env S p w''"
    by (auto intro!: keeps_inv_Par intro: keeps_inv_bodyD assms simp: join_branches_def split: option.split)
qed auto

lemma keeps_inv_interp:
  shows "env_ok env S \<Longrightarrow> list_all journalled ns \<Longrightarrow> keeps_inv_body env S (interpNodes env c i ns parent)"
    and "env_ok env S \<Longrightarrow> journalled n \<Longrightarrow> keeps_inv_body env S (interpNode env c i n parent)"
    and "env_ok env S \<Longrightarrow> list_all journalled ns \<Longrightarrow> \<forall>p \<in> set (interpBranches env c gid i ns parent). keeps_inv_body env S p"
proof (induction env c i ns parent and env c i n parent and env c gid i ns parent
    rule: interpNodes_interpNode_interpBranches.induct)
  case (2 env c i n ns parent)
  then show ?case by (auto intro!: keeps_inv_body_seq keeps_inv_body_plain split: prod.split)
next
  case (3 env c i v parent)
  then show ?case by (simp add: keeps_inv_bodyI keeps_inv_runCodeStep)
next
  case (4 env c i v parent)
  then show ?case by (simp add: keeps_inv_bodyI keeps_inv_runSignalStep)
next
  case (5 env c i cond th el parent)
  then show ?case by (simp add: Let_def keeps_inv_runIf)
next
  case (6 env c i until maxIters body parent)
  then show ?case by (simp add: keeps_inv_runLoop)
next
  case (7 env c i d cat fin parent)
  then show ?case by (auto simp: Let_def intro!: keeps_inv_runTry)
next
  case (8 env c i children parent)
  show ?case
  proof (cases "children = []")
    case False
    with 8 show ?thesis by (auto simp: Let_def intro!: keeps_inv_parallel)
  qed (simp add: Let_def keeps_inv_body_plain)
next
  case (9 env c i g e u m parent)
  then show ?case by (simp add: keeps_inv_runGate)
next
  case (11 env c i v parent)
  then show ?case by (simp add: keeps_inv_bodyI keeps_inv_runAgentStep)
next
  case (17 env c gid i n ns path)
  then show ?case by (auto intro!: keeps_inv_body_seq keeps_inv_branch_end)
qed (simp_all add: runSkip_def keeps_inv_body_plain)

lemma keeps_inv_body_synced_event:
  "(\<And>w. ev_ok env w d) \<Longrightarrow> (\<And>ok. keeps_inv_body env S (k ok)) \<Longrightarrow> keeps_inv_body env S (appendSyncedEvent env d k)"
  unfolding appendSyncedEvent_def by (rule keeps_inv_body_append) (auto intro!: keeps_inv_body_sync)

lemma keeps_inv_finish_run: "keeps_inv_body env S (finish_run env rid r)"
proof -
  have "keeps_inv_body env S (appendTerminalControlEvents env k)" if "\<And>e. keeps_inv_body env S (k e)" for k
    unfolding appendTerminalControlEvents_def
    by (rule keeps_inv_body_read, intro keeps_inv_if keeps_inv_opt; rule keeps_inv_bodyD, assumption?)
      (auto simp: ev_ok_def intro!: keeps_inv_body_synced_event that)
  then have "keeps_inv_body env S (appendTerminalControlEvents env (\<lambda>termErr.
      Ret (validateRunResultPair (if termErr \<noteq> None then (NoOutcome, termErr) else r))))"
    by (simp add: keeps_inv_body_plain)
  then have "keeps_inv_body env S (upd (\<lambda>w. w\<lparr>w_poll := PollOff\<rparr>) (appendTerminalControlEvents env (\<lambda>termErr.
      Ret (validateRunResultPair (if termErr \<noteq> None then (NoOutcome, termErr) else r)))))"
    unfolding upd_def by (intro keeps_inv_bodyI keeps_inv_quiet) (auto intro: keeps_inv_bodyD)
  then show ?thesis unfolding finish_run_def by (rule keeps_inv_body_cancel)
qed

lemma keeps_inv_Run:
  assumes "env_ok env S" and "list_all journalled (e_graph env)"
  shows "keeps_inv_body env S (Run env [])"
proof -
  have "keeps_inv_body env S (seq (interpNodes env [rid] 0 (e_graph env) []) (\<lambda>(oc, err).
           case err of
             Some (ErrSkip reason) \<Rightarrow> appendNodeSkipped env [] reason (\<lambda>ok.
               if \<not> ok then cancel_ctx rid (infra ''append node.skipped'') else finish_run env rid (OutcomeOK, None))
           | _ \<Rightarrow> finish_run env rid (oc, err)))" for rid
    by (rule keeps_inv_body_seq [OF keeps_inv_interp(1) [OF assms]])
      (auto split: option.split gerr.split intro!: keeps_inv_body_skipped keeps_inv_body_cancel keeps_inv_body_plain keeps_inv_finish_run)
  then have "keeps_inv_body env S (run_graph env)"
    unfolding run_graph_def Let_def by (intro keeps_inv_bodyI keeps_inv_quiet) (auto intro: keeps_inv_bodyD)
  then show ?thesis by (auto simp: Run_def intro: keeps_inv_body_plain split: option.split)
qed

lemma control_R: "control u v \<Longrightarrow> R env S u v"
  unfolding R_def
  by (induction rule: control.induct; rule impI; erule Inv_quiet)
    (simp_all add: SetCancelReason_def SetCancelled_def SetPaused_def)

lemma run_keeps_Inv:
  assumes "env_ok env S" and "list_all journalled (e_graph env)" and "Inv env S w"
    and "steps control (Run env [], w) (p, w')"
  shows "Inv env S w' \<and> ext w w'"
  using jr.wp_steps [OF assms(4) control_R keeps_inv_bodyD [OF keeps_inv_Run [OF assms(1,2)] assms(3), unfolded keeps_inv_def]]
    assms(3) by (simp add: R_def)

subsection \<open>Crashes\<close>

text \<open>
  A crash keeps the blobs and some prefix of the journal that contains what was synced; the next
  process folds that prefix (\<open>awf resume\<close>) and starts over with the state it gives.
\<close>

definition recovered :: "nat \<Rightarrow> run_state \<Rightarrow> world \<Rightarrow> world" where
  "recovered k rs w = w\<lparr>w_log := take k (w_log w), w_synced := k, w_rs := rs, w_ctxs := 0, w_cancelled := [],
     w_runctx := 0, w_poll := PollOff, w_trace := []\<rparr>"

inductive history :: "engine_env \<Rightarrow> string set \<Rightarrow> world \<Rightarrow> bool" for env S where
  fresh: "w_log w = [\<lparr>jPath = [], jData = RunStarted d\<rparr>] \<Longrightarrow> w_synced w = 1 \<Longrightarrow> fs_inv (w_blobs w) \<Longrightarrow>
    ran (fb_files (w_blobs w)) \<subseteq> S \<Longrightarrow> Fold_log (rd_of env w) (w_log w) = Inr (w_rs w) \<Longrightarrow> history env S w"
| crash: "history env S w \<Longrightarrow> steps control (Run env [], w) (p, w') \<Longrightarrow> w_synced w' \<le> k \<Longrightarrow> k \<le> length (w_log w') \<Longrightarrow>
    Fold_log (rd_of env w') (take k (w_log w')) = Inr rs \<Longrightarrow> history env S (recovered k rs w')"

lemma last_commit_unless_invalidated:
  assumes "commit_effect p e = Some (Some d)" and "\<forall>f \<in> set vs. commit_effect p f \<noteq> Some None"
  shows "\<exists>d'. last_commit p (us @ e # vs) = Some d'"
proof -
  have *: "\<exists>d'. last_commit p vs = Some d'" if "\<exists>f \<in> set vs. commit_effect p f \<noteq> None"
    using assms(2) that by (induction vs) (auto split: if_splits)
  show ?thesis
  proof (induction us)
    case Nil
    then show ?case using * assms(1) by auto
  next
    case (Cons u us)
    then show ?case using assms(1) by simp
  qed
qed

lemma last_commit_split:
  "last_commit p es = Some d \<Longrightarrow> \<exists>us vs. es = us @ \<lparr>jPath = p, jData = NodeCompleted d\<rparr> # vs
     \<and> (\<forall>f \<in> set vs. commit_effect p f \<noteq> Some None)"
proof (induction es)
  case (Cons e es)
  show ?case
  proof (cases "\<exists>f \<in> set es. commit_effect p f \<noteq> None")
    case True
    with Cons obtain us vs where "es = us @ \<lparr>jPath = p, jData = NodeCompleted d\<rparr> # vs"
      "\<forall>f \<in> set vs. commit_effect p f \<noteq> Some None" by auto
    then show ?thesis by (intro exI [of _ "e # us"] exI [of _ vs]) simp
  next
    case False
    with Cons.prems have "commit_effect p e = Some (Some d)" by (auto split: option.splits)
    then have "e = \<lparr>jPath = p, jData = NodeCompleted d\<rparr>"
      by (cases e) (auto simp: commit_effect_def split: event_data.splits if_splits)
    with False show ?thesis by (intro exI [of _ "[]"] exI [of _ es]) auto
  qed
qed simp

lemma foldEvent_signals:
  assumes "foldEvent r f (b, rs) = Inr (b', rs')"
    and "LookupSignalReceivedAt rs' p = Some e" and "LookupSignalReceivedAt rs p \<noteq> Some e"
  shows "\<exists>d. jData f = SignalReceived d \<and> sg_PayloadRef d = se_PayloadRef e"
proof (cases "jData f")
  case (NodeInvalidated ps)
  have "map_of (SignalReceivedAt (clearInvalidatedPaths ps rs)) p
      = (if p \<in> set ps then None else map_of (SignalReceivedAt rs) p)" for rs
    by (induction ps arbitrary: rs) (auto simp: clearInvalidatedPaths_def clear_path_def)
  with NodeInvalidated assms show ?thesis
    by (auto simp: foldEvent_def LookupSignalReceivedAt_def split: if_splits)
next
  case (MapFrontier ds)
  have "SignalReceivedAt (fold (\<lambda>d rs. rs\<lparr>MapItems := pm_append q (frontier_record d) (MapItems rs)\<rparr>) ds rs)
    = SignalReceivedAt rs" for q and rs :: run_state by (induction ds arbitrary: rs) simp_all
  with MapFrontier assms show ?thesis by (auto simp: foldEvent_def LookupSignalReceivedAt_def)
next
  case (CallStartedEv d)
  with assms show ?thesis
    by (auto simp: foldEvent_def Let_def LookupSignalReceivedAt_def RecordCallStarted_def split: if_splits
        elim!: foldCallStarted_Inr)
next
  case (SignalReceived d)
  with assms show ?thesis
    by (auto simp: foldEvent_def foldSignal_def Let_def LookupSignalReceivedAt_def split: if_splits)
qed (use assms in \<open>auto simp: foldEvent_def foldRunStarted_def foldGateAttempt_def foldSkills_def RecordBranch_def
      RecordLoopIter_def RecordReactRound_def RecordMapItem_def SetCancelled_def LookupSignalReceivedAt_def
      foldNodeCompleted_Inr store_commit_def Let_def split: if_splits\<close>)

lemma foldEvents_signals:
  "foldEvents r es (b, rs) = Inr (b', rs') \<Longrightarrow> LookupSignalReceivedAt rs' p = Some e \<Longrightarrow>
   LookupSignalReceivedAt rs p \<noteq> Some e \<Longrightarrow>
   \<exists>f \<in> set es. \<exists>d. jData f = SignalReceived d \<and> sg_PayloadRef d = se_PayloadRef e"
proof (induction es arbitrary: b rs)
  case (Cons f es)
  then obtain b1 rs1 where "foldEvent r f (b, rs) = Inr (b1, rs1)" "foldEvents r es (b1, rs1) = Inr (b', rs')"
    by auto
  with Cons foldEvent_signals [of r f b rs b1 rs1 p e] show ?case
    by (cases "LookupSignalReceivedAt rs1 p = Some e") auto
qed simp

text \<open>A world whose state is the fold of its journal satisfies the invariant.\<close>

lemma Inv_folded:
  assumes "Fold_log (rd_of env w) (w_log w) = Inr (w_rs w)" and "w_log w \<noteq> []" and "w_synced w = length (w_log w)"
    and "fs_inv (w_blobs w)" and "ran (fb_files (w_blobs w)) \<subseteq> S"
    and "\<forall>e \<in> set (w_log w). \<forall>d. jData e = SignalReceived d \<longrightarrow> map_ok env w (sg_PayloadRef d)"
  shows "Inv env S w"
proof -
  obtain b where f: "foldEvents (rd_of env w) (w_log w) (False, zero_state) = Inr (b, w_rs w)"
    using Fold_log_Inr [OF assms(1,2)] by blast
  have "logged p nr w" if c: "LookupCompleted (w_rs w) p = Some nr" for p nr
  proof -
    from c fold_last_commit [OF assms(1,2), of p] obtain d where d: "last_commit p (w_log w) = Some d" "matches nr d"
      by (cases "last_commit p (w_log w)") (auto simp: committed_as_def LookupCompleted_def)
    from last_commit_split [OF d(1)] obtain us vs where "w_log w = us @ \<lparr>jPath = p, jData = NodeCompleted d\<rparr> # vs"
      "\<forall>f \<in> set vs. commit_effect p f \<noteq> Some None" by blast
    with d(2) assms(3) show ?thesis unfolding logged_def by (intro exI [of _ us] exI [of _ d] exI [of _ vs]) simp
  qed
  moreover have "map_ok env w (se_PayloadRef e)" if "LookupSignalReceivedAt (w_rs w) p = Some e" for p e
    using foldEvents_signals [OF f that] assms(6) by (auto simp: LookupSignalReceivedAt_def zero_state_def)
  ultimately show ?thesis using assms by (auto simp: Inv_def is_ok_def)
qed

lemma Inv_prefix_folds:
  assumes "Inv env S w" and "w_synced w \<le> k" and "k \<le> length (w_log w)"
  shows "\<exists>rs. Fold_log (rd_of env w) (take k (w_log w)) = Inr rs"
proof -
  from assms(1) obtain rs where "Fold_log (rd_of env w) (take k (w_log w) @ drop k (w_log w)) = Inr rs"
    by (auto simp: Inv_def is_ok_iff)
  then show ?thesis by (rule fold_prefix)
qed

lemma Inv_completed_survives:
  assumes "Inv env S w" and "w_synced w \<le> k" and "LookupCompleted (w_rs w) q = Some nr"
    and "Fold_log (rd_of env w) (take k (w_log w)) = Inr rs"
  shows "(\<exists>d. \<lparr>jPath = q, jData = NodeCompleted d\<rparr> \<in> set (take k (w_log w)) \<and> matches nr d)
    \<and> LookupCompleted rs q \<noteq> None"
proof -
  from assms(1,3) have "logged q nr w" by (simp add: Inv_def)
  then obtain us d vs where l: "w_log w = us @ \<lparr>jPath = q, jData = NodeCompleted d\<rparr> # vs" "length us < w_synced w"
      "matches nr d" "\<forall>f \<in> set vs. commit_effect q f \<noteq> Some None" by (auto simp: logged_def)
  obtain n where n: "k - length us = Suc n" using l(2) assms(2) by (cases "k - length us") auto
  then have t: "take k (w_log w) = us @ \<lparr>jPath = q, jData = NodeCompleted d\<rparr> # take n vs"
    using l(1) by simp
  have "\<exists>d'. last_commit q (take k (w_log w)) = Some d'"
    unfolding t by (rule last_commit_unless_invalidated) (use l(4) in \<open>auto simp: commit_effect_def dest: in_set_takeD\<close>)
  moreover have "committed_as rs q (last_commit q (take k (w_log w)))"
    by (rule fold_last_commit [OF assms(4)]) (simp add: t)
  ultimately show ?thesis using l(3) t by (auto simp: committed_as_def LookupCompleted_def)
qed

lemma Inv_recovered:
  assumes "Inv env S w" and "w_synced w \<le> k" and "k \<le> length (w_log w)"
    and "Fold_log (rd_of env w) (take k (w_log w)) = Inr rs"
  shows "Inv env S (recovered k rs w)"
proof -
  have rd: "rd_of env (recovered k rs w) = rd_of env w" by (simp add: rd_of_def getter_of_def recovered_def)
  then have m: "map_ok env (recovered k rs w) = map_ok env w" by (simp add: map_ok_def fun_eq_iff)
  show ?thesis
  proof (rule Inv_folded, unfold rd m)
    show "Fold_log (rd_of env w) (w_log (recovered k rs w)) = Inr (w_rs (recovered k rs w))"
      using assms(4) by (simp add: recovered_def)
  qed (use assms in \<open>auto simp: recovered_def Inv_def dest: in_set_takeD\<close>)
qed

lemma history_Inv:
  assumes "env_ok env S" and "list_all journalled (e_graph env)" and "history env S w"
  shows "Inv env S w"
  using assms(3)
proof (induction rule: history.induct)
  case (fresh w d)
  then show ?case by (intro Inv_folded) auto
next
  case (crash w p w' k rs)
  then show ?case using run_keeps_Inv [OF assms(1,2)] Inv_recovered by blast
qed

subsection \<open>Properties\<close>


lemma demo_history: "history (demo_env graph) S demo_world"
  by (rule history.fresh)
    (simp_all add: demo_world_def demo_started_def fs_inv_def Fold_log_def foldEvent_def foldRunStarted_def
      read_map_def Let_def zero_state_def)

definition demo_contents :: "string set" where
  "demo_contents = {json_encode (map_value None)}"

lemma demo_env_ok: "env_ok (demo_env graph) demo_contents"
  by (auto simp: env_ok_def demo_env_def dispatch_ok_def outputs_ok_def zero_dispatch_def map_nil_def hasPrefix_def
      transcript_ok_def events_ok_def demo_contents_def new_sink_def flushPendingDelta_def)


definition demo_signal :: node where
  "demo_signal = SignalStep \<lparr>ss_ID = ''s'', ss_Await = ''go'', ss_Where = [], ss_Timeout = None, ss_OutputSchema = None\<rparr>"

definition payload_env :: "string \<Rightarrow> engine_env" where
  "payload_env payload = (demo_env [demo_signal])\<lparr>e_receive := (\<lambda>_ _ _. Delivered 1 payload)\<rparr>"


end
