(* ===== verification/Engine_Results.thy ===== *)
theory Engine_Results
  imports Engine
begin

text \<open>
  What a run returns and what it never undoes, under every schedule: the discipline of the pairs
  \<open>(Outcome, error)\<close> the interpreter passes up, and that a run which reports success has completed,
  or skipped with an event, every node on the path it took. Every action of the engine guarantees
  \<open>grows\<close>: the journal is only extended, completed nodes and passed gate attempts stay.
\<close>

subsection \<open>What a run never undoes\<close>

definition passed_gate :: "world \<Rightarrow> string \<Rightarrow> bool" where
  "passed_gate w path = (\<exists>a \<in> set (LookupGateAttempts (w_rs w) path). at_Outcome a = AttemptPassed)"

definition skipped :: "world \<Rightarrow> string \<Rightarrow> bool" where
  "skipped w path = (\<exists>r. \<lparr>jPath = path, jData = NodeSkipped path r\<rparr> \<in> set (w_log w))"

definition grows :: "world \<Rightarrow> world \<Rightarrow> bool" where
  "grows w w' \<longleftrightarrow> prefix (w_log w) (w_log w') \<and> prefix (w_trace w) (w_trace w')
     \<and> (\<forall>p. LookupCompleted (w_rs w) p \<noteq> None \<longrightarrow> LookupCompleted (w_rs w') p \<noteq> None)
     \<and> (\<forall>p. passed_gate w p \<longrightarrow> passed_gate w' p)
     \<and> (Cancelled (w_rs w) \<longrightarrow> Cancelled (w_rs w'))"

interpretation gw: guarantee grows
  by unfold_locales (auto simp: grows_def)

lemma control_grows: "control u v \<Longrightarrow> grows u v"
  by (induction rule: control.induct)
    (auto simp: grows_def passed_gate_def LookupCompleted_def LookupGateAttempts_def SetCancelReason_def
      SetCancelled_def SetPaused_def)

lemma grows_skipped: "grows w w' \<Longrightarrow> skipped w p \<Longrightarrow> skipped w' p"
  by (auto simp: grows_def skipped_def dest: set_mono_prefix)

subsection \<open>Verdicts on programs\<close>

text \<open>
  \<open>gives p Q\<close>: from every world, whatever the schedule, \<open>p\<close> only does what \<open>grows\<close> allows and a
  result of it satisfies \<open>Q\<close>. Postconditions are kept by \<open>grows\<close>.
\<close>

definition gives :: "P \<Rightarrow> (result \<Rightarrow> world \<Rightarrow> bool) \<Rightarrow> bool" where
  "gives p Q \<longleftrightarrow> (\<forall>w. wp grows p Q w)"

definition kept :: "(result \<Rightarrow> world \<Rightarrow> bool) \<Rightarrow> bool" where
  "kept Q \<longleftrightarrow> (\<forall>v w w'. Q v w \<longrightarrow> grows w w' \<longrightarrow> Q v w')"

lemma gives_Ret: "(\<And>w. Q v w) \<Longrightarrow> gives (Ret v) Q"
  by (simp add: gives_def)

lemma gives_read: "(\<And>w. wp grows (k w) Q w) \<Longrightarrow> gives (read k) Q"
  by (simp add: gives_def gw.wp_read)

lemma gives_mono: "gives p Q \<Longrightarrow> (\<And>v w. Q v w \<Longrightarrow> Q' v w) \<Longrightarrow> gives p Q'"
  unfolding gives_def by (blast intro: gw.wp_mono)

lemma gives_seq:
  assumes "gives p Q" and "\<And>v w. Q v w \<Longrightarrow> wp grows (f v) Q' w"
  shows "gives (seq p f) Q'"
  using assms unfolding gives_def by (blast intro: gw.wp_seq gw.wp_mono)

lemma gives_seq2:
  assumes "gives p Q" and "\<And>oc err w. Q (oc, err) w \<Longrightarrow> wp grows (f oc err) Q' w"
  shows "gives (seq p (\<lambda>(oc, err). f oc err)) Q'"
  by (rule gives_seq [OF assms(1)]) (use assms(2) in \<open>auto split: prod.split\<close>)

lemma gives_Act:
  "(\<And>w p w'. f w = (p, w') \<Longrightarrow> grows w w' \<and> wp grows p Q w') \<Longrightarrow> gives (Act f) Q"
  unfolding gives_def by (blast intro: gw.wp_Act)

lemma givesD: "gives p Q \<Longrightarrow> wp grows p Q w"
  by (simp add: gives_def)

lemma grows_simple:
  "w_log w' = w_log w \<Longrightarrow> prefix (w_trace w) (w_trace w') \<Longrightarrow> Completed (w_rs w') = Completed (w_rs w) \<Longrightarrow>
   GateAttempts (w_rs w') = GateAttempts (w_rs w) \<Longrightarrow> Cancelled (w_rs w') = Cancelled (w_rs w) \<Longrightarrow> grows w w'"
  by (auto simp: grows_def passed_gate_def LookupCompleted_def LookupGateAttempts_def)

lemma grows_log:
  "prefix (w_log w) (w_log w') \<Longrightarrow> w_trace w' = w_trace w \<Longrightarrow> w_rs w' = w_rs w \<Longrightarrow> grows w w'"
  by (auto simp: grows_def passed_gate_def)

lemma wp_append:
  assumes "wp grows (k False) Q w"
    and "\<And>w'. grows w w' \<Longrightarrow> \<lparr>jPath = path, jData = d\<rparr> \<in> set (w_log w') \<Longrightarrow> wp grows (k True) Q w'"
  shows "wp grows (log_append env path d k) Q w"
  unfolding log_append_def
proof (rule gw.wp_Act)
  fix w' p w''
  assume g: "grows w w'" and f: "(if e_append env (w_tick w')
      then (k True, (ticked w')\<lparr>w_log := w_log w' @ [\<lparr>jPath = path, jData = d\<rparr>]\<rparr>)
      else (k False, ticked w')) = (p, w'')"
  have g2: "grows w' w''" using f by (auto intro!: grows_log simp: ticked_def split: if_splits)
  moreover have "wp grows p Q w''"
    using f assms gw.R_trans [OF g g2] gw.wp_stable [OF assms(1)] by (auto split: if_splits)
  ultimately show "grows w' w'' \<and> wp grows p Q w''" by blast
qed

lemma gives_append:
  assumes "gives (k False) Q" and "gives (k True) Q" shows "gives (log_append env path d k) Q"
  unfolding gives_def by (blast intro: wp_append givesD assms)

lemma gives_sync:
  assumes "gives (k False) Q" and "gives (k True) Q" shows "gives (log_sync env k) Q"
  unfolding log_sync_def
  by (rule gives_Act) (use assms in \<open>auto simp: ticked_def gives_def intro!: grows_simple split: if_splits\<close>)

lemma gives_put:
  assumes "\<And>r. gives (k r) Q" shows "gives (blob_put env c k) Q"
  unfolding blob_put_def
  by (rule gives_Act) (use assms in \<open>auto simp: ticked_def gives_def intro!: grows_simple split: prod.splits sum.splits\<close>)

lemma gives_dispatch:
  assumes "\<And>t. gives (k (e_dispatch env t intent)) Q" shows "gives (dispatch env intent k) Q"
  unfolding dispatch_def
  by (rule gives_Act) (use assms in \<open>auto simp: ticked_def gives_def intro!: grows_simple\<close>)

lemma gives_sleep:
  assumes "gives (k None) Q" and "gives (k (Some ErrCtx)) Q" shows "gives (clk_sleep env c d k) Q"
  unfolding clk_sleep_def
  by (rule gives_Act) (use assms in \<open>auto simp: ticked_def gives_def intro!: grows_simple split: if_splits\<close>)

lemma gives_receive:
  assumes "\<And>t. gives (k (e_receive env t name match)) Q" shows "gives (receive env name match k) Q"
  unfolding receive_def
  by (rule gives_Act) (use assms in \<open>auto simp: ticked_def gives_def intro!: grows_simple\<close>)

lemma gives_cancel: "gives p Q \<Longrightarrow> gives (cancel_ctx i p) Q"
  unfolding cancel_ctx_def upd_def by (rule gives_Act) (auto simp: gives_def intro!: grows_simple)

lemma wp_upd_rs:
  assumes "\<And>rs w. grows w (w\<lparr>w_rs := f (w_rs w)\<rparr>)"
    and "\<And>w'. grows w (w'\<lparr>w_rs := f (w_rs w')\<rparr>) \<Longrightarrow> wp grows p Q (w'\<lparr>w_rs := f (w_rs w')\<rparr>)"
  shows "wp grows (upd_rs f p) Q w"
  unfolding upd_rs_def by (rule gw.wp_upd) (use assms gw.R_trans in blast)+

lemma grows_record:
  "grows w (w\<lparr>w_rs := RecordCompleted p nr (w_rs w)\<rparr>)" "grows w (w\<lparr>w_rs := RecordBranch p b (w_rs w)\<rparr>)"
  "grows w (w\<lparr>w_rs := RecordLoopIter p k (w_rs w)\<rparr>)" "grows w (w\<lparr>w_rs := RecordGateAttempt p a (w_rs w)\<rparr>)"
  "grows w (w\<lparr>w_rs := AppendSignal n e (w_rs w)\<rparr>)" "grows w (w\<lparr>w_rs := RecordSignalReceivedAt p e (w_rs w)\<rparr>)"
  by (auto simp: grows_def passed_gate_def)
    (auto simp: RecordCompleted_def LookupCompleted_def LookupGateAttempts_def RecordBranch_def RecordLoopIter_def
      RecordGateAttempt_def AppendSignal_def RecordSignalReceivedAt_def)

subsection \<open>The discipline of results\<close>

definition plain_err :: "gerr \<Rightarrow> bool" where
  "plain_err e \<longleftrightarrow> (\<forall>r. e \<noteq> ErrSkip r) \<and> e \<noteq> ErrFuel \<and> e \<noteq> ErrInfra ''result invariant violated''"

text \<open>The pairs the interpreter passes up: ok, a skip, or a failure with its error.\<close>

definition disciplined :: "result \<Rightarrow> bool" where
  "disciplined v = (case v of
       (oc, None) \<Rightarrow> oc = OutcomeOK
     | (oc, Some (ErrSkip r)) \<Rightarrow> oc = OutcomeOK
     | (oc, Some e) \<Rightarrow> (oc = NoOutcome \<or> isTypedFailureOutcome oc) \<and> plain_err e)"

text \<open>The dispatcher and the broker return errors of their own.\<close>

definition own_errors :: "engine_env \<Rightarrow> bool" where
  "own_errors env \<longleftrightarrow>
     (\<forall>t i dr e x. e_dispatch env t i = (dr, e) \<longrightarrow> e = Some x \<or> dr_Err dr = Some x \<longrightarrow> plain_err x)
     \<and> (\<forall>t name match e. e_receive env t name match = ReceiveFailed e \<longrightarrow> plain_err e)"

definition outcome_of :: "(world \<Rightarrow> bool) \<Rightarrow> result \<Rightarrow> world \<Rightarrow> bool" where
  "outcome_of D v w \<longleftrightarrow> disciplined v \<and> (v = (OutcomeOK, None) \<longrightarrow> D w)"

lemma gives_infra: "s \<noteq> ''result invariant violated'' \<Longrightarrow> gives (infra s) (outcome_of D)"
  unfolding infra_def by (rule gives_Ret) (simp add: outcome_of_def disciplined_def plain_err_def)

lemma plain_pair:
  "oc = NoOutcome \<or> isTypedFailureOutcome oc \<Longrightarrow> plain_err e \<Longrightarrow> outcome_of D (oc, Some e) w"
  by (auto simp: outcome_of_def disciplined_def plain_err_def split: gerr.split)

lemma gives_failStep:
  "oc = NoOutcome \<or> isTypedFailureOutcome oc \<Longrightarrow> plain_err e \<Longrightarrow> gives (failStep env path oc (Some e)) (outcome_of D)"
  unfolding failStep_def
  by (intro gives_append) (auto intro!: gives_infra gives_sync gives_Ret plain_pair)

lemma plain_simps [simp]:
  "plain_err ErrCtx" "plain_err ErrDeadline" "plain_err (ErrCause s)" "plain_err ErrReplayRequired" "plain_err (ErrEval e)"
  "plain_err ErrCancelled" "plain_err ErrPaused" "plain_err (ErrRejected p n)" "plain_err ErrStage" "plain_err ErrSink"
  "plain_err (ErrInfra s) \<longleftrightarrow> s \<noteq> ''result invariant violated''"
  by (simp_all add: plain_err_def)

lemma typed_simps [simp]:
  "isTypedFailureOutcome OutcomeRetryableFailure" "isTypedFailureOutcome OutcomePermanentFailure"
  "isTypedFailureOutcome OutcomeRejected" "\<not> isTypedFailureOutcome OutcomeOK" "\<not> isTypedFailureOutcome NoOutcome"
  by (simp_all add: isTypedFailureOutcome_def)

text \<open>An action on the other parts of the world.\<close>

lemma gives_quiet:
  assumes "\<And>w p w'. f w = (p, w') \<Longrightarrow> w_log w' = w_log w \<and> prefix (w_trace w) (w_trace w') \<and> w_rs w' = w_rs w \<and> gives p Q"
  shows "gives (Act f) Q"
  by (rule gives_Act) (use assms in \<open>auto intro!: grows_simple givesD\<close>)

lemma gives_started: "gives p Q \<Longrightarrow> gives (appendNodeStarted env path kind p) Q"
  unfolding appendNodeStarted_def by (rule gives_append)

lemma gives_put_if: "gives failed Q \<Longrightarrow> (\<And>r. gives (k r) Q) \<Longrightarrow> gives (put_if env b c failed k) Q"
  unfolding put_if_def by (auto intro!: gives_put split: option.split)

lemma gives_put_files:
  "gives failed Q \<Longrightarrow> (\<And>r. gives (k r) Q) \<Longrightarrow> gives (put_files env fs acc failed k) Q"
  by (induction fs arbitrary: acc) (auto intro!: gives_put split: option.split)

lemma gives_Commit:
  assumes "gives (k None) Q" and "\<And>nr. gives (k (Some nr)) Q"
  shows "gives (Commit env path dr b k) Q"
proof -
  have "gives (commit_result env path dr b out std f t x k) Q" for out std f t x
    unfolding commit_result_def appendNodeCompleted_def Let_def
    using assms by (auto intro!: gives_append gives_sync split: option.split prod.split)
  then show ?thesis
    unfolding Commit_def using assms by (auto intro!: gives_put_if gives_put_files)
qed

text \<open>What the retry loop hands on: success, a failure with its error, or an aborted call.\<close>

definition attempted :: "dispatch_result \<times> gerr option \<Rightarrow> bool" where
  "attempted v = (case v of (dr, e) \<Rightarrow>
     (e = None \<longrightarrow> dr_Outcome dr = OutcomeOK \<or> dr_Outcome dr = NoOutcome)
     \<and> (\<forall>x. e = Some x \<longrightarrow> plain_err x \<and> (dr_Outcome dr = NoOutcome \<or> isTypedFailureOutcome (dr_Outcome dr))))"

lemma gives_agent_events:
  assumes "\<And>ok. gives (k ok) Q" shows "gives (appendAgentEvents env path evs k) Q"
  by (induction evs) (auto simp: Let_def assms intro!: gives_put_if gives_append)

lemma gives_journal_live:
  assumes "\<And>ok. gives (k ok) Q" shows "gives (journal_live env c path k) Q"
  unfolding journal_live_def Let_def by (rule gives_quiet) (auto simp: ticked_def intro!: gives_agent_events assms)

lemma gives_flush_sink: "(\<And>ok. gives (k ok) Q) \<Longrightarrow> gives (flush_sink env c intent k) Q"
  unfolding flush_sink_def by (auto intro!: gives_journal_live)

lemma gives_after_attempt:
  assumes "gives again Q" and "\<And>v. attempted v \<Longrightarrow> gives (k v) Q"
    and "\<And>x. e = Some x \<or> dr_Err dr = Some x \<Longrightarrow> plain_err x"
  shows "gives (after_attempt env c intent pol a again k (dr, e)) Q"
proof (cases "validateDispatchResult dr e")
  case False
  then show ?thesis using assms(2) by (simp add: after_attempt_def attempted_def zero_dispatch_def)
next
  case valid: True
  show ?thesis
  proof (cases e)
    case None
    from valid None consider "dr_Outcome dr = OutcomeOK"
      | x where "dr_Outcome dr = OutcomeRetryableFailure \<or> dr_Outcome dr = OutcomePermanentFailure" "dr_Err dr = Some x"
      by (auto simp: validateDispatchResult_def)
    then show ?thesis
    proof cases
      case 1
      then show ?thesis using valid None assms(2) by (simp add: after_attempt_def attempted_def Let_def)
    next
      case 2
      then have "gives (k (dr, Some y)) Q" if "plain_err y" for y
        using that by (intro assms(2)) (auto simp: attempted_def)
      moreover have "gives (k (zero_dispatch, Some ErrSink)) Q"
        by (rule assms(2)) (simp add: attempted_def zero_dispatch_def)
      ultimately show ?thesis
        using valid None 2 assms(1,3)
        by (auto simp: after_attempt_def Let_def intro!: gives_flush_sink gives_append gives_sleep)
    qed
  next
    case (Some x)
    then have z: "dr\<lparr>dr_AgentEvents := []\<rparr> = zero_dispatch" and x: "plain_err x"
      using valid assms(3) by (auto simp: validateDispatchResult_def)
    have "dr_Outcome (dr\<lparr>dr_AgentEvents := []\<rparr>) = NoOutcome" unfolding z by (simp add: zero_dispatch_def)
    then have "gives (k (dr, Some x)) Q" "gives (k (zero_dispatch, Some ErrSink)) Q"
      and "plain_err y \<Longrightarrow> gives (k (dr\<lparr>dr_Outcome := OutcomeRetryableFailure, dr_Err := Some x\<rparr>, Some y)) Q" for y
      using x by (auto intro!: assms(2) simp: attempted_def zero_dispatch_def)
    then show ?thesis
      using valid Some x assms(1)
      by (auto simp: after_attempt_def Let_def intro!: gives_flush_sink gives_append gives_sleep)
  qed
qed

lemma gives_RunWithRetry:
  assumes "own_errors env" and "\<And>v. attempted v \<Longrightarrow> gives (k v) Q"
  shows "gives (RunWithRetry env c intent pol k) Q"
proof -
  have "gives (retry_attempts n a env c i pol k) Q" for n a i
  proof (induction n arbitrary: a)
    case 0
    then show ?case by (simp add: assms(2) attempted_def zero_dispatch_def)
  next
    case (Suc n)
    show ?case
      unfolding retry_attempts.simps
    proof (rule gives_dispatch)
      fix t
      obtain dr e where d: "e_dispatch env t (i\<lparr>ni_Attempt := a\<rparr>) = (dr, e)" by fastforce
      show "gives (after_attempt env c i pol a (retry_attempts n (a + 1) env c i pol k) k
          (e_dispatch env t (i\<lparr>ni_Attempt := a\<rparr>))) Q"
        unfolding d using Suc.IH assms d by (intro gives_after_attempt) (auto simp: own_errors_def)
    qed
  qed
  then show ?thesis unfolding RunWithRetry_def by (simp add: assms(2) attempted_def zero_dispatch_def)
qed

subsection \<open>Steps\<close>

definition completed_at :: "string \<Rightarrow> world \<Rightarrow> bool" where
  "completed_at path w \<longleftrightarrow> LookupCompleted (w_rs w) path \<noteq> None"

lemma grows_completed: "grows w w' \<Longrightarrow> completed_at path w \<Longrightarrow> completed_at path w'"
  by (simp add: grows_def completed_at_def)

lemma gives_record_completed:
  "gives (upd_rs (RecordCompleted path nr) (Ret (OutcomeOK, None))) (outcome_of (completed_at path))"
  unfolding gives_def
proof
  fix w
  show "wp grows (upd_rs (RecordCompleted path nr) (Ret (OutcomeOK, None))) (outcome_of (completed_at path)) w"
  proof (rule wp_upd_rs [OF grows_record(1)])
    fix w'
    show "wp grows (Ret (OutcomeOK, None)) (outcome_of (completed_at path)) (w'\<lparr>w_rs := RecordCompleted path nr (w_rs w')\<rparr>)"
      by (rule gw.wp_Ret, drule grows_completed [of _ _ path])
        (simp_all add: outcome_of_def disciplined_def completed_at_def)
  qed
qed

lemma gives_sum: "(\<And>a. x = Inl a \<Longrightarrow> gives (f a) Q) \<Longrightarrow> (\<And>b. x = Inr b \<Longrightarrow> gives (g b) Q) \<Longrightarrow>
   gives (case x of Inl a \<Rightarrow> f a | Inr b \<Rightarrow> g b) Q"
  by (cases x) auto

lemma gives_opt: "(x = None \<Longrightarrow> gives f Q) \<Longrightarrow> (\<And>b. x = Some b \<Longrightarrow> gives (g b) Q) \<Longrightarrow>
   gives (case x of None \<Rightarrow> f | Some b \<Rightarrow> g b) Q"
  by (cases x) auto

lemma gives_if: "(b \<Longrightarrow> gives p Q) \<Longrightarrow> (\<not> b \<Longrightarrow> gives q Q) \<Longrightarrow> gives (if b then p else q) Q"
  by simp

lemma gives_reads: "(\<And>w. gives (k w) Q) \<Longrightarrow> gives (read k) Q"
  by (rule gives_read) (rule givesD)

lemmas gives_intros = gives_reads gives_sum gives_opt gives_if gives_infra gives_started

lemma gives_run_code:
  assumes "own_errors env"
  shows "gives (run_code env c cs path pol intent refs) (outcome_of (completed_at path))"
  unfolding run_code_def
proof (rule gives_started, rule gives_RunWithRetry [OF assms], clarify)
  fix dr e assume "attempted (dr, e)"
  then show "gives (case e of
         Some e \<Rightarrow> if dr_Outcome dr = NoOutcome then infra ''dispatch'' else failStep env path (dr_Outcome dr) (Some e)
       | None \<Rightarrow>
           if dr_Outcome dr \<noteq> OutcomeOK
           then failStep env path (dr_Outcome dr) (Some (ErrCause ''step did not commit (no underlying error reported)''))
           else Commit env path (dr\<lparr>dr_Node := Some (CodeStep cs), dr_InputRefs := refs\<rparr>) False (\<lambda>r.
                  case r of None \<Rightarrow> infra ''commit''
                  | Some nr \<Rightarrow> upd_rs (RecordCompleted path nr) (Ret (OutcomeOK, None)))) (outcome_of (completed_at path))"
    by (intro gives_opt gives_if gives_infra gives_failStep gives_Commit) (auto simp: attempted_def intro!: gives_infra gives_record_completed)
qed

lemma gives_stage_failed: "msg \<noteq> ''result invariant violated'' \<Longrightarrow> gives (stage_failed env path msg e) (outcome_of D)"
  unfolding stage_failed_def by (cases e) (auto intro!: gives_infra gives_failStep)

lemma gives_skip_if_done:
  assumes "gives p (outcome_of (completed_at path))"
  shows "gives (read (\<lambda>w. if LookupCompleted (w_rs w) path \<noteq> None then Ret (OutcomeOK, None) else p))
    (outcome_of (completed_at path))"
proof (rule gives_read)
  fix w
  have "wp grows (Ret (OutcomeOK, None)) (outcome_of (completed_at path)) w" if "completed_at path w"
    by (rule gw.wp_Ret) (use that grows_completed in \<open>auto simp: outcome_of_def disciplined_def\<close>)
  with givesD [OF assms]
  show "wp grows (if LookupCompleted (w_rs w) path \<noteq> None then Ret (OutcomeOK, None) else p)
      (outcome_of (completed_at path)) w" by (simp only: completed_at_def split: if_split) blast
qed

lemma gives_runCodeStep:
  "own_errors env \<Longrightarrow> gives (runCodeStep env c cs path) (outcome_of (completed_at path))"
  unfolding runCodeStep_def
  by (intro gives_skip_if_done gives_intros gives_failStep gives_stage_failed gives_run_code) simp_all

lemma gives_commit_signal: "gives (commit_signal env path ref outs) (outcome_of (completed_at path))"
  unfolding commit_signal_def appendNodeCompleted_def
  by (intro gives_append) (auto intro!: gives_infra gives_sync gives_record_completed)

lemma gives_upd_rs: "(\<And>rs w. grows w (w\<lparr>w_rs := f (w_rs w)\<rparr>)) \<Longrightarrow> gives p Q \<Longrightarrow> gives (upd_rs f p) Q"
  unfolding gives_def by (blast intro: wp_upd_rs)

lemma gives_take_delivery: "gives (take_delivery env ss path n payload) (outcome_of (completed_at path))"
proof -
  have "gives (record_delivery env ss path n ref outs) (outcome_of (completed_at path))" for ref outs
    unfolding record_delivery_def
    by (intro gives_append) (auto intro!: gives_infra gives_sync gives_upd_rs grows_record gives_commit_signal)
  then show ?thesis
    unfolding take_delivery_def by (intro gives_opt gives_failStep gives_put_if gives_infra) simp_all
qed

lemma gives_await_signal:
  assumes "own_errors env"
  shows "gives (await_signal env ss path match) (outcome_of (completed_at path))"
proof -
  have f: "gives (receive_failed env ss path e) (outcome_of (completed_at path))" if "plain_err e" for e
    unfolding receive_failed_def using that
    by (intro gives_if gives_failStep gives_reads gives_infra gives_Ret plain_pair) simp_all
  show ?thesis
    unfolding await_signal_def
  proof (rule gives_receive)
    fix t
    show "gives (case e_receive env t (ss_Await ss) match of
        Delivered seqno payload \<Rightarrow> take_delivery env ss path seqno payload
      | ReceiveFailed e \<Rightarrow> receive_failed env ss path e) (outcome_of (completed_at path))"
      using assms by (cases "e_receive env t (ss_Await ss) match") (auto simp: own_errors_def intro!: f gives_take_delivery)
  qed
qed

lemma gives_runSignalStep:
  assumes "own_errors env"
  shows "gives (runSignalStep env ss path) (outcome_of (completed_at path))"
proof -
  have "gives (half_commit env ss path entry) (outcome_of (completed_at path))" for entry
    unfolding half_commit_def by (intro gives_intros gives_commit_signal) simp_all
  moreover have "plain_err e" if "buildWherePredicate env cond sc = Inl e" for cond sc e
    using that by (auto simp: buildWherePredicate_def split: sum.splits option.splits)
  ultimately show ?thesis
    unfolding runSignalStep_def
    by (intro gives_skip_if_done gives_intros gives_failStep gives_await_signal assms) auto
qed

lemma gives_recorded:
  assumes "gives p (outcome_of (\<lambda>_. True))"
  shows "gives (upd_rs (RecordCompleted path nr) p) (outcome_of (completed_at path))"
  unfolding gives_def
proof
  fix w
  show "wp grows (upd_rs (RecordCompleted path nr) p) (outcome_of (completed_at path)) w"
  proof (rule wp_upd_rs [OF grows_record(1)])
    fix w'
    have "completed_at path (w'\<lparr>w_rs := RecordCompleted path nr (w_rs w')\<rparr>)" by (simp add: completed_at_def)
    then show "wp grows p (outcome_of (completed_at path)) (w'\<lparr>w_rs := RecordCompleted path nr (w_rs w')\<rparr>)"
      by (intro gw.wp_mono [OF givesD [OF assms]]) (auto simp: outcome_of_def intro: grows_completed)
  qed
qed

lemma gives_done: "gives (Ret (OutcomeOK, None)) (outcome_of (\<lambda>_. True))"
  by (rule gives_Ret) (simp add: outcome_of_def disciplined_def)

subsection \<open>Agent steps\<close>

lemma gives_finalize_live: "gives (finalize_live env path dr) (outcome_of (\<lambda>_. True))"
proof -
  have "gives (Act (\<lambda>w. (case f (w_tick w) rec of None \<Rightarrow> Ret (OutcomeOK, None)
      | Some msg \<Rightarrow> appendAgentEvents env path [finalizer_notice msg] (\<lambda>_. Ret (OutcomeOK, None)), ticked w)))
      (outcome_of (\<lambda>_. True))" for f rec
    by (rule gives_quiet) (auto simp: ticked_def simp del: appendAgentEvents.simps intro!: gives_agent_events gives_done split: option.split)
  then show ?thesis unfolding finalize_live_def by (auto intro!: gives_done split: option.split)
qed

lemma gives_agent_result:
  assumes "attempted (dr, e)"
  shows "gives (agent_result env c v path (dr, e)) (outcome_of (completed_at path))"
proof -
  have "gives (commit_agent env v path dr) (outcome_of (completed_at path))"
    unfolding commit_agent_def by (rule gives_Commit) (auto intro!: gives_infra gives_recorded gives_finalize_live)
  with assms show ?thesis
    unfolding agent_result_def prod.case
    by (intro gives_if gives_infra gives_journal_live gives_agent_events gives_opt gives_failStep) (auto simp: attempted_def)
qed

lemma gives_run_agent:
  assumes "own_errors env"
  shows "gives (run_agent env c v path pol intent) (outcome_of (completed_at path))"
  unfolding run_agent_def
  by (rule gives_quiet) (auto intro!: gives_started gives_RunWithRetry [OF assms] gives_agent_result)

lemma gives_with_skills:
  assumes "\<And>skills. gives (k skills) (outcome_of D)"
  shows "gives (with_skills env v path k) (outcome_of D)"
proof -
  have "grows w (w\<lparr>w_rs := RecordSelectedSkills path d (w_rs w)\<rparr>)" for d w
    by (rule grows_simple) (simp_all add: RecordSelectedSkills_def)
  then have "gives (route_skills env sr path c k') (outcome_of D)" if "\<And>d. gives (k' d) (outcome_of D)" for sr c k'
    unfolding route_skills_def appendSkillsSelected_def Let_def
    by (intro gives_reads gives_sum gives_failStep gives_if gives_append) (auto intro!: gives_infra gives_sync gives_upd_rs that)
  then have "gives (selectAgentStepSkills env sr path k') (outcome_of D)" if "\<And>d c. gives (k' d c) (outcome_of D)" for sr k'
    unfolding selectAgentStepSkills_def
    using that by (auto intro!: gives_reads gives_sum gives_stage_failed gives_infra split: option.split)
  then show ?thesis
    unfolding with_skills_def by (intro gives_opt gives_if gives_failStep assms) (simp_all add: assms)
qed

lemma gives_stage_agent:
  assumes "\<And>files inputFiles. gives (k files inputFiles) (outcome_of D)"
  shows "gives (stage_agent env v path skills k) (outcome_of D)"
  unfolding stage_agent_def
  by (intro gives_intros gives_stage_failed gives_failStep assms) simp_all

lemma sc_graph_scope_of [simp]: "sc_graph (scope_of env w path) = e_graph env"
  by (simp add: scope_of_def NewScope_def NewScopeWithInputAndFiles_def)

lemma gives_runAgentStep:
  assumes "own_errors env" and "continues_end (e_graph env)"
  shows "gives (runAgentStep env c v path) (outcome_of (completed_at path))"
proof -
  have launch: "gives (launch_agent env c v path pol wth key turns files inputFiles) (outcome_of (completed_at path))"
    for pol wth key turns files inputFiles
    unfolding launch_agent_def
    by (intro gives_intros gives_stage_failed gives_failStep gives_run_agent [OF assms(1)]) simp_all
  have "gives (case thread_of (scope_of env w path) v of
       Inl ErrFuel \<Rightarrow> Ret (NoOutcome, Some ErrFuel)
     | Inl e \<Rightarrow> failStep env path OutcomePermanentFailure (Some e)
     | Inr turns \<Rightarrow> stage_agent env v path skills (\<lambda>files inputFiles.
         launch_agent env c v path pol wth key turns files inputFiles)) (outcome_of (completed_at path))" for w pol wth key skills
  proof (cases "thread_of (scope_of env w path) v")
    case (Inl e)
    then have "\<exists>m. e = ErrCause m" using thread_of_errors [OF Inl] thread_of_ends [of "scope_of env w path" v] assms(2) by auto
    then show ?thesis using Inl by (auto intro!: gives_failStep)
  qed (auto intro!: gives_stage_agent launch)
  then show ?thesis
    unfolding runAgentStep_def
    by (intro gives_skip_if_done, intro gives_reads gives_sum gives_failStep gives_infra plain_simps; (simp; fail)?)
      (intro gives_with_skills gives_reads; assumption)+
qed

subsection \<open>React steps\<close>

lemma gives_round_tools:
  assumes "own_errors env" and "\<And>msgs. gives (k msgs) (outcome_of D)"
  shows "gives (dispatchRoundTools env c r roundPath tcs msgs k) (outcome_of D)"
proof (induction tcs arbitrary: msgs)
  case (Cons tc tcs)
  have "gives (run_tool env c toolPath pol intent k') (outcome_of D)" if "\<And>x. gives (k' x) (outcome_of D)" for toolPath pol intent k'
    unfolding run_tool_def Let_def
    by (rule gives_RunWithRetry [OF assms(1)])
      (auto intro!: gives_infra gives_Commit gives_upd_rs grows_record that split: option.split)
  then have "gives (dispatchOneTool env c t toolPath tc k') (outcome_of D)" if "\<And>x. gives (k' x) (outcome_of D)" for t toolPath k'
    unfolding dispatchOneTool_def Let_def using that by (intro gives_intros) simp_all
  with Cons show ?case by (auto simp: Let_def intro!: gives_reads split: option.split)
qed (simp add: assms(2))

lemma gives_commitTerminal: "gives (commitTerminal env r reactPath mr reason) (outcome_of (completed_at reactPath))"
  unfolding commitTerminal_def
  by (intro gives_opt gives_failStep gives_Commit) (auto intro!: gives_infra gives_record_completed)

lemma gives_react_from:
  assumes "own_errors env"
  shows "gives (react_from n env c r reactPath maxTurns k msgs) (outcome_of (completed_at reactPath))"
proof (induction n arbitrary: k msgs)
  case (Suc n)
  have "grows w (w\<lparr>w_rs := RecordReactRound reactPath k (w_rs w)\<rparr>)" for w
    by (rule grows_simple) (simp_all add: RecordReactRound_def)
  with Suc have answer: "gives (react_answer env c r reactPath maxTurns k msgs mr (react_from n env c r reactPath maxTurns (k + 1)))
      (outcome_of (completed_at reactPath))" for mr
    unfolding react_answer_def closeRound_def
    by (intro gives_if gives_commitTerminal gives_round_tools [OF assms] gives_append)
      (auto intro!: gives_infra gives_sync gives_upd_rs)
  have leaf: "gives (commitModelLeaf env p mr q) (outcome_of D)" if "gives q (outcome_of D)" for p mr q D
    unfolding commitModelLeaf_def by (rule gives_Commit) (auto intro!: gives_infra gives_upd_rs grows_record that)
  have model: "gives (run_model env iv k') Q" if "\<And>x. gives (k' x) Q" for iv k' Q
    unfolding run_model_def by (rule gives_quiet) (auto simp: ticked_def that)
  show ?case
    unfolding react_from.simps Let_def
    by (intro gives_reads gives_opt gives_infra model answer)
      (auto intro!: gives_failStep gives_infra leaf answer split: sum.split model_error.split)
qed (simp add: gives_infra)

lemma gives_runReact:
  assumes "own_errors env"
  shows "gives (runReact env c r reactPath) (outcome_of (completed_at reactPath))"
  unfolding runReact_def Let_def
  by (intro gives_skip_if_done gives_intros gives_failStep gives_react_from [OF assms]) simp_all

subsection \<open>What success means\<close>

text \<open>
  The specification: a step is completed; one branch of an \<open>if\<close> is done; some iteration of a loop is
  done or was skipped; \<open>do\<close> or \<open>catch\<close> is done, and \<open>finally\<close>; every branch of \<open>parallel\<close> is done or
  a skip was journalled at the node; a gate has a passed attempt or a journalled skip. A \<open>skip\<close>
  itself never succeeds.
\<close>

fun done_nodes :: "world \<Rightarrow> nat \<Rightarrow> node list \<Rightarrow> string \<Rightarrow> bool"
  and node_done :: "world \<Rightarrow> nat \<Rightarrow> node \<Rightarrow> string \<Rightarrow> bool"
  and done_branches :: "world \<Rightarrow> nat \<Rightarrow> node list \<Rightarrow> string \<Rightarrow> bool"
where
  "done_nodes w i [] parent = True"
| "done_nodes w i (n # ns) parent = (node_done w i n parent \<and> done_nodes w (Suc i) ns parent)"
| "node_done w i (CodeStep v) parent = completed_at (PathFor parent [] (cs_ID v) i) w"
| "node_done w i (SignalStep v) parent = completed_at (PathFor parent [] (ss_ID v) i) w"
| "node_done w i (AgentStep v) parent = completed_at (PathFor parent [] (as_ID v) i) w"
| "node_done w i (React v) parent = completed_at (PathFor parent ''react'' [] i) w"
| "node_done w i (If cond th el) parent =
     (let path = PathFor parent ''if'' [] i in done_nodes w 0 th (path @ ''.then'') \<or> done_nodes w 0 el (path @ ''.else''))"
| "node_done w i (Loop until maxIters body) parent =
     (\<exists>k. let p = IterPath (PathFor parent ''loop'' [] i @ ''.body'') k in done_nodes w 0 body p \<or> skipped w p)"
| "node_done w i (Try d cat fin) parent =
     (let path = PathFor parent ''try'' [] i
      in (done_nodes w 0 d (path @ ''.do'') \<or> cat \<noteq> [] \<and> done_nodes w 0 cat (path @ ''.catch''))
         \<and> done_nodes w 0 fin (path @ ''.finally''))"
| "node_done w i (Parallel children) parent = done_branches w 0 children (PathFor parent ''parallel'' [] i)"
| "node_done w i (Gate g e u m) parent =
     (passed_gate w (PathFor parent ''gate'' [] i) \<or> skipped w (PathFor parent ''gate'' [] i))"
| "node_done w i _ parent = False"
| "done_branches w i [] path = True"
| "done_branches w i (n # ns) path = ((node_done w i n path \<or> skipped w path) \<and> done_branches w (Suc i) ns path)"

lemma grows_gate: "grows w w' \<Longrightarrow> passed_gate w p \<Longrightarrow> passed_gate w' p"
  by (simp add: grows_def)

lemma done_kept:
  "grows w w' \<Longrightarrow> done_nodes w i ns parent \<Longrightarrow> done_nodes w' i ns parent"
  "grows w w' \<Longrightarrow> node_done w i n parent \<Longrightarrow> node_done w' i n parent"
  "grows w w' \<Longrightarrow> done_branches w i ns parent \<Longrightarrow> done_branches w' i ns parent"
proof (induction w i ns parent and w i n parent and w i ns parent rule: done_nodes_node_done_done_branches.induct)
  case (8 w i until maxIters body parent)
  then show ?case using grows_skipped [OF "8.prems"(1)] by (auto simp: Let_def)
qed (auto simp: Let_def intro: grows_completed grows_skipped grows_gate)

definition stable :: "(world \<Rightarrow> bool) \<Rightarrow> bool" where
  "stable D \<longleftrightarrow> (\<forall>w w'. grows w w' \<longrightarrow> D w \<longrightarrow> D w')"

lemma stable_done [intro]:
  "stable (\<lambda>w. done_nodes w i ns parent)" "stable (\<lambda>w. node_done w i n parent)" "stable (\<lambda>w. skipped w p)"
  "stable (\<lambda>w. passed_gate w p)" "stable (\<lambda>_. True)"
  "stable D \<Longrightarrow> stable E \<Longrightarrow> stable (\<lambda>w. D w \<or> E w)"
  "stable D \<Longrightarrow> stable E \<Longrightarrow> stable (\<lambda>w. D w \<and> E w)"
  unfolding stable_def by (auto intro: done_kept grows_skipped grows_gate)

lemma wp_ok: "stable D \<Longrightarrow> D w \<Longrightarrow> wp grows (Ret (OutcomeOK, None)) (outcome_of D) w"
  by (rule gw.wp_Ret) (auto simp: stable_def outcome_of_def disciplined_def)

text \<open>Passing a result up; an error only has to be disciplined.\<close>

lemma wp_pass: "disciplined (oc, Some e) \<Longrightarrow> wp grows (Ret (oc, Some e)) (outcome_of D) w"
  by (rule gw.wp_Ret) (simp add: outcome_of_def)

lemma wp_skipped:
  assumes "wp grows (k False) Q w" and "\<And>w'. grows w w' \<Longrightarrow> skipped w' path \<Longrightarrow> wp grows (k True) Q w'"
  shows "wp grows (appendNodeSkipped env path reason k) Q w"
  unfolding appendNodeSkipped_def
  by (rule wp_append) (use assms in \<open>auto simp: skipped_def\<close>)

subsection \<open>Control nodes\<close>

lemma gives_runIf:
  assumes "gives p (outcome_of D)" and "gives q (outcome_of E)"
  shows "gives (runIf env cond path p q) (outcome_of (\<lambda>w. D w \<or> E w))"
proof -
  have "gives p (outcome_of (\<lambda>w. D w \<or> E w))" "gives q (outcome_of (\<lambda>w. D w \<or> E w))"
    using assms by (auto elim!: gives_mono simp: outcome_of_def)
  then have "gives (take_branch b p q) (outcome_of (\<lambda>w. D w \<or> E w))" for b
    unfolding take_branch_def by (intro gives_if gives_infra) simp_all
  then show ?thesis
    unfolding runIf_def Let_def
    by (intro gives_reads gives_opt gives_sum gives_failStep gives_append gives_infra gives_if gives_upd_rs grows_record)
      (auto intro!: gives_infra gives_upd_rs grows_record)
qed

lemma disciplined_cases:
  assumes "disciplined v"
  obtains "v = (OutcomeOK, None)" | r where "v = (OutcomeOK, Some (ErrSkip r))"
    | oc e where "v = (oc, Some e)" "oc = NoOutcome \<or> isTypedFailureOutcome oc" "plain_err e"
  using assms unfolding disciplined_def by (cases v) (auto split: option.splits gerr.splits)

lemma pass_up:
  assumes "oc = NoOutcome \<or> isTypedFailureOutcome oc" and "plain_err e"
  shows "wp grows (Ret (oc, Some e)) (outcome_of D) w"
  by (rule gw.wp_Ret) (rule plain_pair [OF assms])

lemma plain_case:
  "plain_err e \<Longrightarrow> (case e of ErrSkip r \<Rightarrow> f r | _ \<Rightarrow> x) = x"
  by (cases e) (simp_all add: plain_err_def)

lemma gives_loop_from:
  assumes body: "\<And>p. gives (body p) (outcome_of (\<lambda>w. D w p))" and stab: "\<And>p. stable (\<lambda>w. D w p)"
    and "maxIters = Some m" and "nat (m - k) < n"
  shows "gives (loop_from n env until maxIters path body k)
     (outcome_of (\<lambda>w. \<exists>k. D w (IterPath (path @ ''.body'') k) \<or> skipped w (IterPath (path @ ''.body'') k)))"
  using assms(4)
proof (induction n arbitrary: k)
  case (Suc n)
  let ?p = "IterPath (path @ ''.body'') k"
  let ?Q = "outcome_of (\<lambda>w. \<exists>k. D w (IterPath (path @ ''.body'') k) \<or> skipped w (IterPath (path @ ''.body'') k))"
  have stabQ: "stable (\<lambda>w. \<exists>k. D w (IterPath (path @ ''.body'') k) \<or> skipped w (IterPath (path @ ''.body'') k))"
    using stab grows_skipped unfolding stable_def by blast
  define rest where "rest = (if (case maxIters of None \<Rightarrow> False | Some m \<Rightarrow> m \<le> k) then Ret (OutcomeOK, None)
                             else loop_from n env until maxIters path body (k + 1))"
  define finish where "finish = log_append env path (LoopIter k) (\<lambda>ok.
      if \<not> ok then infra ''append loop.iter''
      else upd_rs (RecordLoopIter path k) (case until of
             None \<Rightarrow> rest
           | Some u \<Rightarrow> read (\<lambda>w. case EvalBoolString u (Resolve (scope_of env w ?p)) of
               Inl e \<Rightarrow> failStep env path OutcomePermanentFailure (Some (ErrEval e))
             | Inr done \<Rightarrow> if done then Ret (OutcomeOK, None) else rest)))"
  have ok: "wp grows (Ret (OutcomeOK, None)) ?Q w" if "D w ?p \<or> skipped w ?p" for w
    by (rule wp_ok [OF stabQ]) (use that in blast)
  have rest: "wp grows rest ?Q w" if "D w ?p \<or> skipped w ?p" for w
    using ok [OF that] Suc.IH [of "k + 1"] Suc.prems assms(3) by (auto simp: rest_def gives_def)
  have step: "D w' ?p \<or> skipped w' ?p" if "D w ?p \<or> skipped w ?p" "grows w w'" for w w'
    using that stab grows_skipped unfolding stable_def by blast
  have fin: "wp grows finish ?Q w" if d: "D w ?p \<or> skipped w ?p" for w
    unfolding finish_def
  proof (rule wp_append, goal_cases)
    case 1
    then show ?case by (simp add: givesD [OF gives_infra])
  next
    case (2 w1)
    have d1: "D w1 ?p \<or> skipped w1 ?p" by (rule step [OF d 2(1)])
    have "wp grows (case until of
             None \<Rightarrow> rest
           | Some u \<Rightarrow> read (\<lambda>w. case EvalBoolString u (Resolve (scope_of env w ?p)) of
               Inl e \<Rightarrow> failStep env path OutcomePermanentFailure (Some (ErrEval e))
             | Inr done \<Rightarrow> if done then Ret (OutcomeOK, None) else rest)) ?Q w2" if d2: "D w2 ?p \<or> skipped w2 ?p" for w2
    proof (cases until)
      case None
      with rest [OF d2] show ?thesis by simp
    next
      case (Some u)
      have "wp grows (case EvalBoolString u (Resolve (scope_of env w3 ?p)) of
               Inl e \<Rightarrow> failStep env path OutcomePermanentFailure (Some (ErrEval e))
             | Inr done \<Rightarrow> if done then Ret (OutcomeOK, None) else rest) ?Q w3" if "grows w2 w3" for w3
        using rest [OF step [OF d2 that]] ok [OF step [OF d2 that]] givesD [OF gives_failStep]
        by (cases "EvalBoolString u (Resolve (scope_of env w3 ?p))") (simp_all del: wp.simps)
      with Some show ?thesis by (simp add: gw.wp_read del: wp.simps)
    qed
    then show ?case
      by (simp del: wp.simps) (rule wp_upd_rs [OF grows_record(3)], use step [OF d1] in blast)
  qed
  show ?case
    unfolding loop_from.simps Let_def rest_def [symmetric] finish_def [symmetric]
  proof (rule gives_seq2 [OF body])
    fix oc err w assume o: "outcome_of (\<lambda>w. D w ?p) (oc, err) w"
    from o have "disciplined (oc, err)" by (simp add: outcome_of_def)
    then show "wp grows (case err of None \<Rightarrow> if oc \<noteq> OutcomeOK then Ret (oc, None) else finish
       | Some (ErrSkip reason) \<Rightarrow> appendNodeSkipped env ?p reason (\<lambda>ok. if \<not> ok then infra ''append node.skipped'' else finish)
       | Some e \<Rightarrow> Ret (oc, Some e)) ?Q w"
    proof (cases rule: disciplined_cases)
      case 1
      with o fin show ?thesis by (simp add: outcome_of_def)
    next
      case (2 r)
      then show ?thesis using fin by (auto intro!: wp_skipped givesD [OF gives_infra])
    next
      case (3 oc' e)
      with pass_up [OF 3(2,3)] show ?thesis by (cases e) (auto simp: plain_err_def)
    qed
  qed
qed simp

lemma gives_runLoop:
  assumes "\<And>p. gives (body p) (outcome_of (\<lambda>w. D w p))" and "\<And>p. stable (\<lambda>w. D w p)" and "maxIters = Some m"
  shows "gives (runLoop env until maxIters path body)
     (outcome_of (\<lambda>w. \<exists>k. D w (IterPath (path @ ''.body'') k) \<or> skipped w (IterPath (path @ ''.body'') k)))"
  unfolding runLoop_def Let_def
  by (intro gives_if gives_infra gives_reads gives_loop_from [OF assms]) (simp_all add: loop_fuel_def assms(3))

text \<open>\<open>finally\<close> runs last; the pending result is passed on after it.\<close>

lemma wp_try_tail:
  assumes "\<And>e. pe = Some e \<Longrightarrow> plain_err e" and "pe = None \<Longrightarrow> outcome_of D v w" and "stable D"
  shows "wp grows (try_tail c pe v) (outcome_of D) w"
proof (cases pe)
  case None
  have v: "outcome_of D v w'" if "grows w w'" for w'
    using assms(2) [OF None] assms(3) that by (auto simp: outcome_of_def stable_def)
  have "wp grows (if ctx_err c w1 then Ret (OutcomeRetryableFailure, Some ErrCtx) else Ret v) (outcome_of D) w1" if "grows w w1" for w1
    using v gw.R_trans [OF that] pass_up [of OutcomeRetryableFailure ErrCtx D w1] by simp
  with None show ?thesis by (simp add: try_tail_def gw.wp_read del: wp.simps)
qed (simp add: try_tail_def pass_up assms(1) del: wp.simps)

lemma wp_try_finally:
  assumes "\<And>e. pe = Some e \<Longrightarrow> plain_err e" and "pe = None \<Longrightarrow> outcome_of D v w" and "stable D" and "stable E"
    and fin: "\<And>f. finallyP = Some f \<Longrightarrow> gives f (outcome_of E)" and "finallyP = None \<Longrightarrow> E w"
  shows "wp grows (try_finally c finallyP pe v) (outcome_of (\<lambda>w. D w \<and> E w)) w"
proof -
  have tail: "wp grows (try_tail c pe v) (outcome_of (\<lambda>w. D w \<and> E w)) w1" if "grows w w1" "E w1" for w1
  proof (rule wp_try_tail [OF assms(1)])
    show "outcome_of (\<lambda>w. D w \<and> E w) v w1" if "pe = None"
      using assms(2) [OF that] assms(3) \<open>grows w w1\<close> \<open>E w1\<close> by (auto simp: outcome_of_def stable_def)
  qed (use assms(3,4) in auto)
  show ?thesis
  proof (cases finallyP)
    case None
    then show ?thesis using tail [OF gw.R_refl] assms(6) by (simp add: try_finally_def)
  next
    case (Some f)
    have "wp grows (case r of (oc, err) \<Rightarrow> if err \<noteq> None then Ret (oc, err) else try_tail c pe v)
        (outcome_of (\<lambda>w. D w \<and> E w)) w1" if g: "grows w w1" and r: "outcome_of E r w1" for r w1
    proof -
      have d: "disciplined r" using r by (simp add: outcome_of_def)
      then show ?thesis
      proof (cases rule: disciplined_cases)
        case 1
        then show ?thesis using r tail [OF g] by (simp add: outcome_of_def)
      qed (use d wp_pass in \<open>auto simp del: wp.simps\<close>)
    qed
    then have "wp grows (seq f (\<lambda>(oc, err). if err \<noteq> None then Ret (oc, err) else try_tail c pe v)) (outcome_of (\<lambda>w. D w \<and> E w)) w"
      by (intro gw.wp_seq gw.wp_mono [OF givesD [OF fin [OF Some]]])
    with Some show ?thesis by (simp add: try_finally_def)
  qed
qed

lemma gives_runTry:
  assumes "gives doP (outcome_of D)" and "\<And>p. catchP = Some p \<Longrightarrow> gives p (outcome_of C)"
    and "\<And>p. finallyP = Some p \<Longrightarrow> gives p (outcome_of E)" and "finallyP = None \<Longrightarrow> E = (\<lambda>_. True)"
    and "stable D" "stable C" "stable E"
  shows "gives (runTry env c path doP catchP finallyP) (outcome_of (\<lambda>w. (D w \<or> catchP \<noteq> None \<and> C w) \<and> E w))"
  unfolding runTry_def
proof (rule gives_seq2 [OF assms(1)])
  fix oc err w assume o: "outcome_of D (oc, err) w"
  let ?D = "\<lambda>w. D w \<or> catchP \<noteq> None \<and> C w"
  let ?Q = "outcome_of (\<lambda>w. ?D w \<and> E w)"
  have stab: "stable ?D" using assms(5,6) by (auto simp: stable_def)
  have tf: "wp grows (try_finally c finallyP pe v) ?Q w1"
    if "\<And>e. pe = Some e \<Longrightarrow> plain_err e" and "pe = None \<Longrightarrow> outcome_of ?D v w1" for pe v w1
    by (rule wp_try_finally [OF that stab assms(7)]) (use assms(3,4) in auto)
  have o': "outcome_of ?D (oc, err) w" using o by (auto simp: outcome_of_def)
  have catch: "wp grows (seq (the catchP) (\<lambda>v. try_finally c finallyP None v)) ?Q w" if "catchP \<noteq> None"
  proof (rule gw.wp_seq, rule gw.wp_mono [where Q = "outcome_of C"])
    show "wp grows (the catchP) (outcome_of C) w" using assms(2) that by (auto simp: gives_def)
    show "wp grows (try_finally c finallyP None v) ?Q w'" if "outcome_of C v w'" for v w'
      using that \<open>catchP \<noteq> None\<close> by (intro tf) (auto simp: outcome_of_def)
  qed
  from o have "disciplined (oc, err)" by (simp add: outcome_of_def)
  then show "wp grows (case err of
         Some (ErrSkip reason) \<Rightarrow>
           appendNodeSkipped env path reason (\<lambda>ok.
             try_finally c finallyP (if ok then None else Some (ErrInfra ''append node.skipped'')) (OutcomeOK, err))
       | _ \<Rightarrow>
           if err \<noteq> None \<and> isTypedFailureOutcome oc \<and> catchP \<noteq> None
           then seq (the catchP) (\<lambda>propagated. try_finally c finallyP None propagated)
           else try_finally c finallyP None (oc, err)) ?Q w"
  proof (cases rule: disciplined_cases)
    case 1
    with tf [of None "(oc, err)" w] o' show ?thesis by simp
  next
    case (2 r)
    have "outcome_of ?D (oc, err) w1" for w1 using o 2 by (simp add: outcome_of_def)
    note tf = tf [of _ "(oc, err)", OF _ this]
    have "wp grows (try_finally c finallyP (if ok then None else Some (ErrInfra ''append node.skipped'')) (OutcomeOK, err)) ?Q w1" for ok w1
      using tf [of "if ok then None else Some (ErrInfra ''append node.skipped'')" w1] 2 by (cases ok) (simp_all del: wp.simps)
    then have "wp grows (appendNodeSkipped env path r (\<lambda>ok.
        try_finally c finallyP (if ok then None else Some (ErrInfra ''append node.skipped'')) (OutcomeOK, err))) ?Q w"
      by (intro wp_skipped)
    with 2 show ?thesis by simp
  next
    case (3 oc' e)
    then show ?thesis using catch tf [of None "(oc, err)" w] o' by (simp add: plain_case)
  qed
qed

lemma gives_gate_part:
  assumes "gives part (outcome_of D)" and "gives p (outcome_of E)" and "\<And>w. skipped w path \<Longrightarrow> E w" and "stable E"
  shows "gives (gate_part env path part p) (outcome_of E)"
  unfolding gate_part_def
proof (rule gives_seq2 [OF assms(1)])
  fix oc err w assume "outcome_of D (oc, err) w"
  then have "disciplined (oc, err)" by (simp add: outcome_of_def)
  then show "wp grows (case err of None \<Rightarrow> if oc \<noteq> OutcomeOK then Ret (oc, None) else p
       | Some (ErrSkip reason) \<Rightarrow> appendNodeSkipped env path reason (\<lambda>ok.
           if \<not> ok then infra ''append node.skipped'' else Ret (OutcomeOK, None))
       | Some e \<Rightarrow> Ret (oc, Some e)) (outcome_of E) w"
  proof (cases rule: disciplined_cases)
    case (2 r)
    then show ?thesis
      using wp_ok [OF assms(4,3)] by (auto intro!: wp_skipped givesD [OF gives_infra] simp del: wp.simps)
  next
    case (3 oc' e)
    with pass_up [OF 3(2,3)] show ?thesis by (cases e) (auto simp: plain_err_def simp del: wp.simps)
  qed (use givesD [OF assms(2)] in simp)
qed

lemma gives_gate_verdict:
  assumes "\<And>w. passed_gate w path \<Longrightarrow> wp grows (k True) Q w" and "gives (k False) Q"
    and Q: "\<And>s. s \<noteq> ''result invariant violated'' \<Longrightarrow> gives (infra s) Q"
    and F: "\<And>e. gives (failStep env path OutcomePermanentFailure (Some (ErrEval e))) Q"
  shows "gives (gate_verdict env evaluate until path n k) Q"
proof -
  have r: "gives (upd_rs (RecordGateAttempt path \<lparr>at_N = n, at_Outcome = (if passed then AttemptPassed else AttemptRejected),
      at_Verdict = v\<rparr>) (k passed)) Q" for passed v
    unfolding gives_def
  proof
    fix w
    show "wp grows (upd_rs (RecordGateAttempt path \<lparr>at_N = n, at_Outcome = (if passed then AttemptPassed else AttemptRejected),
      at_Verdict = v\<rparr>) (k passed)) Q w"
      by (rule wp_upd_rs [OF grows_record(4)], cases passed)
        (auto intro!: assms(1) givesD [OF assms(2)] simp: passed_gate_def)
  qed
  show ?thesis
    unfolding gate_verdict_def Let_def
    by (intro gives_opt gives_reads gives_sum Q F gives_append gives_if)
      (use r [of True] r [of False] in \<open>auto intro!: Q gives_sync\<close>)
qed

lemma gives_gate_from:
  assumes "\<And>p. gives (gen p) (outcome_of (D p))" and "\<And>p. gives (ev p) (outcome_of (E p))"
  shows "gives (gate_from m env evaluate until maxAttempts path gen ev n)
    (outcome_of (\<lambda>w. passed_gate w path \<or> skipped w path))"
proof (induction m arbitrary: n)
  case 0
  then show ?case by (auto intro!: gives_Ret plain_pair)
next
  case (Suc m)
  have "wp grows (Ret (OutcomeOK, None)) (outcome_of (\<lambda>w. passed_gate w path \<or> skipped w path)) w" if "passed_gate w path" for w
    by (rule wp_ok) (use that in auto)
  then have "gives (gate_verdict env evaluate until path n (\<lambda>passed.
       if passed then Ret (OutcomeOK, None)
       else if n = maxAttempts then Ret (OutcomeRejected, Some (ErrRejected path n))
       else gate_from m env evaluate until maxAttempts path gen ev (n + 1)))
       (outcome_of (\<lambda>w. passed_gate w path \<or> skipped w path))"
    by (intro gives_gate_verdict) (auto intro!: gives_Ret plain_pair gives_infra gives_failStep Suc.IH simp del: wp.simps)
  then show ?case
    unfolding gate_from.simps
    by (intro gives_gate_part [OF assms(1)] gives_gate_part [OF assms(2)]) auto
qed

lemma gives_runGate:
  assumes "\<And>p. gives (gen p) (outcome_of (D p))" and "\<And>p. gives (ev p) (outcome_of (E p))"
  shows "gives (runGate env generate evaluate until maxAttempts path gen ev)
    (outcome_of (\<lambda>w. passed_gate w path \<or> skipped w path))"
  unfolding runGate_def Let_def
proof (intro gives_if gives_infra gives_read)
  fix w
  have "wp grows (Ret (OutcomeOK, None)) (outcome_of (\<lambda>w. passed_gate w path \<or> skipped w path)) w"
    if "LookupGateAttempts (w_rs w) path \<noteq> []" "at_Outcome (last (LookupGateAttempts (w_rs w) path)) = AttemptPassed"
    by (rule wp_ok) (use that last_in_set in \<open>auto simp: passed_gate_def [of w]\<close>)
  then show "wp grows (if LookupGateAttempts (w_rs w) path \<noteq> [] \<and> at_Outcome (last (LookupGateAttempts (w_rs w) path)) = AttemptPassed
      then Ret (OutcomeOK, None)
      else gate_from (nat (maxAttempts + 1 - (int (length (LookupGateAttempts (w_rs w) path)) + 1))) env evaluate until
             maxAttempts path gen ev (int (length (LookupGateAttempts (w_rs w) path)) + 1))
      (outcome_of (\<lambda>w. passed_gate w path \<or> skipped w path)) w"
    using givesD [OF gives_gate_from [OF assms]] by (simp del: wp.simps)
qed simp_all

subsection \<open>The interpreter\<close>

lemma gives_branch:
  assumes "gives p (outcome_of (\<lambda>w. node_done w i n path))"
  shows "gives (seq p (branch_end env gid path)) (outcome_of (\<lambda>w. node_done w i n path \<or> skipped w path))"
  unfolding branch_end_def
proof (rule gives_seq2 [OF assms])
  fix oc err w assume o: "outcome_of (\<lambda>w. node_done w i n path) (oc, err) w"
  let ?Q = "outcome_of (\<lambda>w. node_done w i n path \<or> skipped w path)"
  have ok: "wp grows (Ret (OutcomeOK, None)) ?Q w'" if "node_done w' i n path \<or> skipped w' path" for w'
    by (rule wp_ok) (use that in auto)
  from o have "disciplined (oc, err)" by (simp add: outcome_of_def)
  then show "wp grows (case err of
       None \<Rightarrow> Ret (oc, None)
     | Some (ErrSkip reason) \<Rightarrow> appendNodeSkipped env path reason (\<lambda>ok.
         if \<not> ok then cancel_ctx gid (infra ''append node.skipped'') else Ret (OutcomeOK, None))
     | Some e \<Rightarrow> cancel_ctx gid (Ret (oc, Some e))) ?Q w"
  proof (cases rule: disciplined_cases)
    case 1
    with o ok [of w] show ?thesis by (simp add: outcome_of_def del: wp.simps)
  next
    case (2 r)
    then show ?thesis
      using ok by (auto intro!: wp_skipped givesD [OF gives_cancel [OF gives_infra]] simp del: wp.simps)
  next
    case (3 oc' e)
    have "gives (cancel_ctx gid (Ret (oc', Some e))) ?Q" using plain_pair [OF 3(2,3)] by (intro gives_cancel gives_Ret)
    with 3 givesD [OF this, of w] show ?thesis by (cases e) (auto simp: plain_err_def simp del: wp.simps)
  qed
qed

lemma done_branches_nth:
  "done_branches w i ns path \<longleftrightarrow> (\<forall>j < length ns. node_done w (i + j) (ns ! j) path \<or> skipped w path)"
proof (induction ns arbitrary: i)
  case (Cons n ns)
  have "(\<forall>j < length (n # ns). P j) \<longleftrightarrow> P 0 \<and> (\<forall>j < length ns. P (Suc j))" for P
    by (auto simp: less_Suc_eq_0_disj)
  then show ?case using Cons by simp
qed simp

lemma wp_join:
  assumes "length vs = length Ds" and "\<And>i. i < length Ds \<Longrightarrow> outcome_of (Ds ! i) (vs ! i) w"
    and "\<And>i. i < length Ds \<Longrightarrow> stable (Ds ! i)"
  shows "wp grows (join_branches vs) (outcome_of (\<lambda>w. \<forall>i < length Ds. (Ds ! i) w)) w"
proof (cases "find (\<lambda>(oc, err). err \<noteq> None) vs")
  case None
  then have "vs ! i = (OutcomeOK, None)" if "i < length Ds" for i
  proof -
    have "vs ! i \<in> set vs" using that assms(1) by simp
    with None have "snd (vs ! i) = None" by (cases "vs ! i") (auto simp: find_None_iff)
    with assms(2) [OF that] show ?thesis by (auto simp: outcome_of_def elim!: disciplined_cases)
  qed
  then have "(Ds ! i) w" if "i < length Ds" for i using assms(2) [OF that] that by (simp add: outcome_of_def)
  moreover have "stable (\<lambda>w. \<forall>i < length Ds. (Ds ! i) w)" using assms(3) by (auto simp: stable_def)
  ultimately show ?thesis using None wp_ok by (simp add: join_branches_def del: wp.simps)
next
  case (Some r)
  then obtain i where "i < length vs" "r = vs ! i" "snd r \<noteq> None"
    by (auto simp: find_Some_iff case_prod_beta)
  with assms(1,2) have "disciplined r" "snd r \<noteq> None" by (auto simp: outcome_of_def)
  then have "wp grows (Ret r) (outcome_of (\<lambda>w. \<forall>i < length Ds. (Ds ! i) w)) w"
    using wp_pass [of "fst r"] by (cases r) (auto simp del: wp.simps)
  with Some show ?thesis by (simp add: join_branches_def)
qed

lemma gives_parallel:
  assumes "\<And>w. length (bs w) = length Ds"
    and "\<And>w i. i < length Ds \<Longrightarrow> gives (bs w ! i) (outcome_of (Ds ! i))" and "\<And>i. i < length Ds \<Longrightarrow> stable (Ds ! i)"
  shows "gives (Act (\<lambda>w. (Par (bs w) join_branches, w\<lparr>w_ctxs := Suc (w_ctxs w)\<rparr>))) (outcome_of (\<lambda>w. \<forall>i < length Ds. (Ds ! i) w))"
proof (rule gives_Act, clarify)
  fix w
  show "grows w (w\<lparr>w_ctxs := Suc (w_ctxs w)\<rparr>)
      \<and> wp grows (Par (bs w) join_branches) (outcome_of (\<lambda>w. \<forall>i < length Ds. (Ds ! i) w)) (w\<lparr>w_ctxs := Suc (w_ctxs w)\<rparr>)"
  proof
    show "grows w (w\<lparr>w_ctxs := Suc (w_ctxs w)\<rparr>)" by (rule grows_simple) simp_all
    show "wp grows (Par (bs w) join_branches) (outcome_of (\<lambda>w. \<forall>i < length Ds. (Ds ! i) w)) (w\<lparr>w_ctxs := Suc (w_ctxs w)\<rparr>)"
      by (rule gw.wp_Par [where P = "\<lambda>i. outcome_of (Ds ! i)"])
        (use assms in \<open>auto intro!: wp_join simp: gives_def simp del: wp.simps\<close>)
  qed
qed

text \<open>Loops with \<open>max_iters\<close>, which always end.\<close>

fun bounded :: "node \<Rightarrow> bool" where
  "bounded (If _ a b) = (list_all bounded a \<and> list_all bounded b)"
| "bounded (Loop _ m a) = (m \<noteq> None \<and> list_all bounded a)"
| "bounded (Try a b c) = (list_all bounded a \<and> list_all bounded b \<and> list_all bounded c)"
| "bounded (Parallel a) = list_all bounded a"
| "bounded (Gate a b _ _) = (list_all bounded a \<and> list_all bounded b)"
| "bounded _ = True"

lemma length_interpBranches [simp]: "length (interpBranches env c gid i ns path) = length ns"
  by (induction ns arbitrary: i) simp_all

lemma gives_nodes_step:
  assumes "gives p (outcome_of D)" and "gives q (outcome_of E)" and "stable D" "stable E"
  shows "gives (seq p (\<lambda>(oc, err). if oc \<noteq> OutcomeOK \<or> err \<noteq> None then Ret (oc, err) else q)) (outcome_of (\<lambda>w. D w \<and> E w))"
proof (rule gives_seq2 [OF assms(1)])
  fix oc err w assume o: "outcome_of D (oc, err) w"
  then have d: "disciplined (oc, err)" by (simp add: outcome_of_def)
  then show "wp grows (if oc \<noteq> OutcomeOK \<or> err \<noteq> None then Ret (oc, err) else q) (outcome_of (\<lambda>w. D w \<and> E w)) w"
  proof (cases rule: disciplined_cases)
    case 1
    with o have "D w" by (simp add: outcome_of_def)
    then have "wp grows q (outcome_of (\<lambda>w. D w \<and> E w)) w"
      using assms(3) by (intro gw.wp_mono [OF givesD [OF assms(2)]]) (auto simp: outcome_of_def stable_def)
    with 1 show ?thesis by simp
  qed (use d wp_pass in \<open>auto simp del: wp.simps\<close>)
qed

lemma gives_interp:
  "own_errors env \<Longrightarrow> continues_end (e_graph env) \<Longrightarrow> list_all modelled ns \<Longrightarrow> list_all bounded ns \<Longrightarrow>
     gives (interpNodes env c i ns parent) (outcome_of (\<lambda>w. done_nodes w i ns parent))"
  "own_errors env \<Longrightarrow> continues_end (e_graph env) \<Longrightarrow> modelled n \<Longrightarrow> bounded n \<Longrightarrow>
     gives (interpNode env c i n parent) (outcome_of (\<lambda>w. node_done w i n parent))"
  "own_errors env \<Longrightarrow> continues_end (e_graph env) \<Longrightarrow> list_all modelled ns \<Longrightarrow> list_all bounded ns \<Longrightarrow> \<forall>j < length ns.
     gives (interpBranches env c gid i ns parent ! j) (outcome_of (\<lambda>w. node_done w (i + j) (ns ! j) parent \<or> skipped w parent))"
proof (induction env c i ns parent and env c i n parent and env c gid i ns parent
    rule: interpNodes_interpNode_interpBranches.induct)
  case (1 env c i parent)
  then show ?case by (auto intro!: gives_Ret simp: outcome_of_def disciplined_def)
next
  case (2 env c i n ns parent)
  then have "gives (interpNode env c i n parent) (outcome_of (\<lambda>w. node_done w i n parent))"
    and "gives (interpNodes env c (Suc i) ns parent) (outcome_of (\<lambda>w. done_nodes w (Suc i) ns parent))" by simp_all
  from gives_nodes_step [OF this] show ?case
    unfolding interpNodes.simps done_nodes.simps by blast
next
  case (3 env c i v parent)
  then show ?case using gives_runCodeStep by simp
next
  case (4 env c i v parent)
  then show ?case using gives_runSignalStep by simp
next
  case (5 env c i cond th el parent)
  then show ?case by (simp add: Let_def gives_runIf)
next
  case (6 env c i until maxIters body parent)
  then obtain m where m: "maxIters = Some m" by auto
  have "gives (interpNodes env c 0 body p) (outcome_of (\<lambda>w. done_nodes w 0 body p))" for p using 6 by simp
  from gives_runLoop [OF this stable_done(1) m] show ?case by (simp add: Let_def)
next
  case (7 env c i d cat fin parent)
  let ?p = "PathFor parent ''try'' [] i"
  have "gives (runTry env c ?p (interpNodes env c 0 d (?p @ ''.do''))
      (if cat = [] then None else Some (interpNodes env c 0 cat (?p @ ''.catch'')))
      (if fin = [] then None else Some (interpNodes env [] 0 fin (?p @ ''.finally''))))
    (outcome_of (\<lambda>w. (done_nodes w 0 d (?p @ ''.do'') \<or> (if cat = [] then None else Some (interpNodes env c 0 cat (?p @ ''.catch''))) \<noteq> None
       \<and> done_nodes w 0 cat (?p @ ''.catch'')) \<and> done_nodes w 0 fin (?p @ ''.finally'')))"
    by (rule gives_runTry) (use 7 in \<open>auto split: if_splits\<close>)
  then show ?case by (auto simp: Let_def elim!: gives_mono simp: outcome_of_def)
next
  case (8 env c i children parent)
  let ?p = "PathFor parent ''parallel'' [] i"
  let ?Ds = "map (\<lambda>j w. node_done w j (children ! j) ?p \<or> skipped w ?p) [0..<length children]"
  show ?case
  proof (cases "children = []")
    case False
    with 8 have "gives (interpBranches env (w_ctxs w # c) (w_ctxs w) 0 children ?p ! j)
        (outcome_of (\<lambda>w. node_done w j (children ! j) ?p \<or> skipped w ?p))" if "j < length children" for w :: world and j
      using that by (simp add: Let_def)
    then have "gives (Act (\<lambda>w. (Par (interpBranches env (w_ctxs w # c) (w_ctxs w) 0 children ?p) join_branches,
        w\<lparr>w_ctxs := Suc (w_ctxs w)\<rparr>))) (outcome_of (\<lambda>w. \<forall>i < length ?Ds. (?Ds ! i) w))"
      by (intro gives_parallel) auto
    with False show ?thesis by (auto simp: Let_def done_branches_nth elim!: gives_mono simp: outcome_of_def)
  qed (auto simp: Let_def outcome_of_def disciplined_def intro!: gives_Ret)
next
  case (9 env c i g e u m parent)
  then show ?case using gives_runGate [where D = "\<lambda>p w. done_nodes w 0 g p" and E = "\<lambda>p w. done_nodes w 0 e p"] by simp
next
  case (10 env c i reason parent)
  then show ?case by (auto simp: runSkip_def outcome_of_def disciplined_def intro!: gives_Ret)
next
  case (11 env c i v parent)
  then show ?case using gives_runAgentStep by simp
next
  case (15 env c i v parent)
  then show ?case using gives_runReact by simp
next
  case (17 env c gid i n ns path)
  then have "gives (interpNode env c i n path) (outcome_of (\<lambda>w. node_done w i n path))" by simp
  from gives_branch [OF this] 17 show ?case by (auto simp: less_Suc_eq_0_disj)
qed simp_all

subsection \<open>Runs\<close>

definition legal_result :: "result \<Rightarrow> bool" where
  "legal_result v = (case v of (oc, err) \<Rightarrow>
     if err = None then oc = OutcomeOK
     else (oc = NoOutcome \<or> isTypedFailureOutcome oc) \<and> (\<forall>e. err = Some e \<longrightarrow> plain_err e))"

text \<open>What a run that returns ok has done: its graph, or a skip at the root.\<close>

definition run_done :: "engine_env \<Rightarrow> world \<Rightarrow> bool" where
  "run_done env w \<longleftrightarrow> done_nodes w 0 (e_graph env) [] \<or> skipped w []"

definition run_post :: "engine_env \<Rightarrow> result \<Rightarrow> world \<Rightarrow> bool" where
  "run_post env v w \<longleftrightarrow> legal_result v \<and> (v = (OutcomeOK, None) \<longrightarrow> run_done env w)"

lemma stable_run_done: "stable (run_done env)"
  unfolding run_done_def by (rule stable_done(6)) (rule stable_done)+

lemma legal_validate:
  assumes "outcome_of D v w" and "\<And>r. snd v \<noteq> Some (ErrSkip r)"
  shows "validateRunResultPair v = v \<and> legal_result v"
proof -
  from assms(1) have "disciplined v" by (simp add: outcome_of_def)
  then show ?thesis
    by (cases rule: disciplined_cases) (use assms(2) in \<open>auto simp: validateRunResultPair_def legal_result_def\<close>)
qed

lemma gives_synced_event: "(\<And>ok. gives (k ok) Q) \<Longrightarrow> gives (appendSyncedEvent env d k) Q"
  unfolding appendSyncedEvent_def by (rule gives_append) (auto intro: gives_sync)

lemma legal_aborted: "plain_err e \<Longrightarrow> run_post env (validateRunResultPair (NoOutcome, Some e)) w"
  by (simp add: run_post_def validateRunResultPair_def legal_result_def)

lemma wp_poll_off: "(\<And>w'. grows w w' \<Longrightarrow> wp grows p Q w') \<Longrightarrow> wp grows (upd (\<lambda>w. w\<lparr>w_poll := PollOff\<rparr>) p) Q w"
proof (rule gw.wp_upd)
  fix w' assume p: "\<And>w'. grows w w' \<Longrightarrow> wp grows p Q w'" and g: "grows w w'"
  show s: "grows w' (w'\<lparr>w_poll := PollOff\<rparr>)" by (rule grows_simple) simp_all
  show "wp grows p Q (w'\<lparr>w_poll := PollOff\<rparr>)" by (rule p) (rule gw.R_trans [OF g s])
qed

lemma wp_cancel: "(\<And>w'. grows w w' \<Longrightarrow> wp grows p Q w') \<Longrightarrow> wp grows (cancel_ctx i p) Q w"
  unfolding cancel_ctx_def
proof (rule gw.wp_upd)
  fix w' assume p: "\<And>w'. grows w w' \<Longrightarrow> wp grows p Q w'" and g: "grows w w'"
  show s: "grows w' (w'\<lparr>w_cancelled := i # w_cancelled w'\<rparr>)" by (rule grows_simple) simp_all
  show "wp grows p Q (w'\<lparr>w_cancelled := i # w_cancelled w'\<rparr>)" by (rule p) (rule gw.R_trans [OF g s])
qed

lemma wp_terminal:
  assumes "\<And>e w'. plain_err e \<Longrightarrow> wp grows (k (Some e)) Q w'"
    and "\<And>w'. grows w w' \<Longrightarrow> \<not> Cancelled (w_rs w') \<Longrightarrow> wp grows (k None) Q w'"
  shows "wp grows (appendTerminalControlEvents env k) Q w"
  unfolding appendTerminalControlEvents_def
proof (rule gw.wp_read)
  fix w1 assume g: "grows w w1"
  have e: "gives (appendSyncedEvent env d (\<lambda>ok. if ok then k (Some x) else k (Some y))) Q" if "plain_err x" "plain_err y" for d x y
    by (rule gives_synced_event) (use that assms(1) in \<open>simp add: gives_def\<close>)
  show "wp grows (if Cancelled (w_rs w1) then
         appendSyncedEvent env (RunCancelled (CancelReason (w_rs w1))) (\<lambda>ok.
           if ok then k (Some ErrCancelled) else k (Some (ErrInfra ''append run.cancelled'')))
       else case Paused (w_rs w1) of
              Some pm \<Rightarrow> appendSyncedEvent env (RunPaused (pa_NodePath pm) (pa_Reason pm)) (\<lambda>ok.
                if ok then k (Some ErrPaused) else k (Some (ErrInfra ''append run.paused'')))
            | None \<Rightarrow> k None) Q w1"
    using assms(2) [OF g] givesD [OF e] by (simp split: option.split)
qed

lemma wp_finish_run:
  assumes "\<And>e w'. plain_err e \<Longrightarrow> Q (validateRunResultPair (NoOutcome, Some e)) w'"
    and "\<And>w1 w2. grows w w1 \<Longrightarrow> \<not> Cancelled (w_rs w1) \<Longrightarrow> grows w1 w2 \<Longrightarrow> Q (validateRunResultPair r) w2"
  shows "wp grows (finish_run env rid r) Q w"
  unfolding finish_run_def
proof (intro wp_cancel wp_poll_off wp_terminal)
  fix w1 w2 w3 assume g: "grows w w1" "grows w1 w2" "grows w2 w3" and c: "\<not> Cancelled (w_rs w3)"
  have "grows w w3" using g gw.R_trans by blast
  with assms(2) c show "wp grows (Ret (validateRunResultPair (if None \<noteq> None then (NoOutcome, None) else r))) Q w3"
    by (intro gw.wp_Ret) simp
next
  fix e w3 assume "plain_err e"
  then show "wp grows (Ret (validateRunResultPair (if Some e \<noteq> None then (NoOutcome, Some e) else r))) Q w3"
    by (intro gw.wp_Ret) (simp add: assms(1))
qed

text \<open>A run, for any postcondition its last part establishes.\<close>

lemma wp_run_graph:
  assumes "own_errors env" and "continues_end (e_graph env)" and "list_all modelled (e_graph env)" and "list_all bounded (e_graph env)"
    and infra: "\<And>w'. Q (NoOutcome, Some (ErrInfra ''append node.skipped'')) w'"
    and finish: "\<And>rid v w'. grows w w' \<Longrightarrow> outcome_of (run_done env) v w' \<Longrightarrow> (\<And>r. snd v \<noteq> Some (ErrSkip r)) \<Longrightarrow>
      wp grows (finish_run env rid v) Q w'"
  shows "wp grows (run_graph env) Q w"
  unfolding run_graph_def
proof (rule gw.wp_Act, unfold Let_def, clarify)
  fix w1 assume g: "grows w w1"
  let ?w = "w1\<lparr>w_ctxs := Suc (w_ctxs w1), w_runctx := w_ctxs w1, w_poll := (if e_broker env then Polling else PollOff)\<rparr>"
  let ?rid = "w_ctxs w1"
  have g1: "grows w1 ?w" by (rule grows_simple) simp_all
  have "wp grows (case v of (oc, err) \<Rightarrow> case err of
             Some (ErrSkip reason) \<Rightarrow> appendNodeSkipped env [] reason (\<lambda>ok.
               if \<not> ok then cancel_ctx ?rid (infra ''append node.skipped'') else finish_run env ?rid (OutcomeOK, None))
           | _ \<Rightarrow> finish_run env ?rid (oc, err)) Q w2"
    if g2: "grows ?w w2" and o: "outcome_of (\<lambda>w. done_nodes w 0 (e_graph env) []) v w2" for v w2
  proof -
    have gw2: "grows w w2" using g g1 g2 gw.R_trans by blast
    from o have o': "outcome_of (run_done env) v w2" by (auto simp: outcome_of_def run_done_def)
    from o have "disciplined v" by (simp add: outcome_of_def)
    then show ?thesis
    proof (cases rule: disciplined_cases)
      case 1
      with finish [OF gw2 o'] show ?thesis by simp
    next
      case (2 r)
      have "wp grows (finish_run env ?rid (OutcomeOK, None)) Q w3" if "grows w2 w3" "skipped w3 []" for w3
        by (rule finish) (use that gw.R_trans [OF gw2] in \<open>auto simp: outcome_of_def disciplined_def run_done_def\<close>)
      moreover have "wp grows (cancel_ctx ?rid (infra ''append node.skipped'')) Q w2"
        unfolding infra_def by (intro wp_cancel gw.wp_Ret infra)
      ultimately show ?thesis using 2 by (simp add: wp_skipped)
    next
      case (3 oc e)
      then have "snd v \<noteq> Some (ErrSkip r)" for r by (simp add: plain_err_def)
      from finish [OF gw2 o' this] 3 show ?thesis by (simp add: plain_case)
    qed
  qed
  then have "wp grows (seq (interpNodes env [?rid] 0 (e_graph env) []) (\<lambda>(oc, err). case err of
             Some (ErrSkip reason) \<Rightarrow> appendNodeSkipped env [] reason (\<lambda>ok.
               if \<not> ok then cancel_ctx ?rid (infra ''append node.skipped'') else finish_run env ?rid (OutcomeOK, None))
           | _ \<Rightarrow> finish_run env ?rid (oc, err))) Q ?w"
    by (intro gw.wp_seq gw.wp_mono [OF givesD [OF gives_interp(1) [OF assms(1-4)]]])
  with g1 show "grows w1 ?w \<and> wp grows (seq (interpNodes env [?rid] 0 (e_graph env) []) (\<lambda>(oc, err). case err of
             Some (ErrSkip reason) \<Rightarrow> appendNodeSkipped env [] reason (\<lambda>ok.
               if \<not> ok then cancel_ctx ?rid (infra ''append node.skipped'') else finish_run env ?rid (OutcomeOK, None))
           | _ \<Rightarrow> finish_run env ?rid (oc, err))) Q ?w" by blast
qed

lemma run_post_holds:
  assumes "own_errors env" and "continues_end (e_graph env)" and "list_all modelled (e_graph env)" and "list_all bounded (e_graph env)"
    and "e_preflight env = None" and "steps control (Run env [], w) (Ret v, w')"
  shows "run_post env v w'"
proof -
  have "wp grows (run_graph env) (run_post env) w"
  proof (rule wp_run_graph [OF assms(1-4)])
    show "run_post env (NoOutcome, Some (ErrInfra ''append node.skipped'')) w'" for w'
      by (simp add: run_post_def legal_result_def)
    fix rid v w' assume o: "outcome_of (run_done env) v w'" and s: "\<And>r. snd v \<noteq> Some (ErrSkip r)"
    show "wp grows (finish_run env rid v) (run_post env) w'"
    proof (rule wp_finish_run)
      show "run_post env (validateRunResultPair v) w2" if "grows w' w1" "grows w1 w2" for w1 w2
        using legal_validate [OF o s] o stable_run_done gw.R_trans [OF that]
        by (auto simp: run_post_def outcome_of_def stable_def)
    qed (rule legal_aborted)
  qed
  then have "wp grows (Run env []) (run_post env) w" using assms(5) by (simp add: Run_def)
  from gw.wp_result [OF assms(6) control_grows this] show ?thesis by blast
qed

subsection \<open>Properties\<close>


lemma foldEvent_cancelled:
  assumes "foldEvent r e (b, rs) = Inr (b', rs')"
  shows "(Cancelled rs \<longrightarrow> Cancelled rs') \<and> (\<forall>reason. jData e = RunCancelled reason \<longrightarrow> Cancelled rs')"
proof (cases "jData e")
  case (NodeInvalidated ps)
  have "Cancelled (clearInvalidatedPaths ps rs) = Cancelled rs" for rs
    by (induction ps arbitrary: rs) (simp_all add: clearInvalidatedPaths_def clear_path_def)
  with NodeInvalidated assms show ?thesis by (auto simp: foldEvent_def)
next
  case (MapFrontier ds)
  have "Cancelled (fold (\<lambda>d rs. rs\<lparr>MapItems := pm_append q (frontier_record d) (MapItems rs)\<rparr>) ds rs) = Cancelled rs"
    for q and rs :: run_state by (induction ds arbitrary: rs) simp_all
  with MapFrontier assms show ?thesis by (auto simp: foldEvent_def)
next
  case (CallStartedEv d)
  with assms show ?thesis
    by (auto simp: foldEvent_def Let_def RecordCallStarted_def split: if_splits elim!: foldCallStarted_Inr)
qed (use assms in \<open>auto simp: foldEvent_def foldRunStarted_def foldGateAttempt_def foldSkills_def foldSignal_def
      RecordBranch_def RecordLoopIter_def RecordReactRound_def RecordMapItem_def SetCancelled_def
      foldNodeCompleted_Inr store_commit_def Let_def split: if_splits\<close>)

lemma foldEvents_cancelled:
  "foldEvents r es (b, rs) = Inr (b', rs') \<Longrightarrow>
   Cancelled rs \<or> (\<exists>e \<in> set es. \<exists>reason. jData e = RunCancelled reason) \<Longrightarrow> Cancelled rs'"
proof (induction es arbitrary: b rs)
  case (Cons e es)
  then obtain b1 rs1 where "foldEvent r e (b, rs) = Inr (b1, rs1)" "foldEvents r es (b1, rs1) = Inr (b', rs')" by auto
  with Cons foldEvent_cancelled [of r e b rs b1 rs1] show ?case by auto
qed simp

text \<open>
  C15: A run resumed after \<open>run.cancelled\<close> can do all its work and still not succeed: \<open>Fold\<close> restores
  the cancelled flag, nothing clears it, and the end of \<open>Run\<close> reports the run as cancelled again,
  whatever the schedule.
\<close>

theorem resumed_cancelled_run_never_succeeds:
  assumes "own_errors env" and "continues_end (e_graph env)" and "list_all modelled (e_graph env)" and "list_all bounded (e_graph env)"
    and "e_preflight env = None" and "Fold_log r es = Inr (w_rs w)" and "e \<in> set es" and "jData e = RunCancelled reason"
    and "steps control (Run env [], w) (Ret v, w')"
  shows "fst v = NoOutcome \<and> snd v \<noteq> None"
proof -
  have "es \<noteq> []" using assms(7) by auto
  from Fold_log_Inr [OF assms(6) this] foldEvents_cancelled assms(7,8) have c: "Cancelled (w_rs w)" by blast
  let ?Q = "\<lambda>v (_ :: world). fst v = NoOutcome \<and> snd v \<noteq> None"
  have "wp grows (run_graph env) ?Q w"
  proof (rule wp_run_graph [OF assms(1-4)])
    fix rid v w' assume g: "grows w w'"
    show "wp grows (finish_run env rid v) ?Q w'"
    proof (rule wp_finish_run)
      show "?Q (validateRunResultPair v) w2" if "grows w' w1" "\<not> Cancelled (w_rs w1)" for w1 w2
        using gw.R_trans [OF g that(1)] that(2) c by (simp add: grows_def)
    qed (auto simp: validateRunResultPair_def)
  qed simp
  then have "wp grows (Run env []) ?Q w" using assms(5) by (simp add: Run_def)
  from gw.wp_result [OF assms(9) control_grows this] show ?thesis by simp
qed


subsection \<open>Witnesses\<close>

definition demo_graph :: "node list" where
  "demo_graph = [Parallel [demo_step ''a'', demo_step ''b''], Loop None (Some 2) [demo_step ''c'']]"

lemma demo_ok:
  "own_errors (demo_env g)" "list_all modelled demo_graph" "list_all bounded demo_graph"
  "continues_end demo_graph" "continues_end [demo_step s]"
  by (simp_all add: own_errors_def demo_env_def zero_dispatch_def demo_graph_def demo_step_def continues_end_def
      agentStepByID_def)



definition cancelled_log :: "jevent list" where
  "cancelled_log = [demo_started, \<lparr>jPath = [], jData = RunCancelled ''stop''\<rparr>, \<lparr>jPath = [], jData = RunResumed 2\<rparr>]"

theorem resumed_cancelled_run_never_succeeds_witness:
  "\<exists>rs v w'. Fold_log demo_readers cancelled_log = Inr rs
     \<and> steps control (Run (demo_env demo_graph) [], demo_world\<lparr>w_rs := rs\<rparr>) (Ret v, w') \<and> fst v = NoOutcome"
proof -
  obtain rs where rs: "Fold_log demo_readers cancelled_log = Inr rs"
    by (auto simp: cancelled_log_def Fold_log_def foldEvent_def foldRunStarted_def demo_started_def read_map_def Let_def)
  obtain v w' where s: "steps control (Run (demo_env demo_graph) [], demo_world\<lparr>w_rs := rs\<rparr>) (Ret v, w')"
    using run_ends [of control "Run (demo_env demo_graph) []" "demo_world\<lparr>w_rs := rs\<rparr>"] by blast
  have "fst v = NoOutcome \<and> snd v \<noteq> None"
    by (rule resumed_cancelled_run_never_succeeds [OF demo_ok(1) _ _ _ _ _ _ _ s, where r = demo_readers and es = cancelled_log])
      (use rs demo_ok in \<open>auto simp: cancelled_log_def\<close>)
  with rs s show ?thesis by blast
qed

end
