(* ===== verification/Engine_Resume.thy ===== *)
theory Engine_Resume
  imports Engine
begin

text \<open>
  Resuming: what a run does when its state already holds the results. Steps, branches, parallel
  blocks and passed gates that are settled are passed over without a dispatch, a write or an event;
  a finished loop is not, and runs once more.
\<close>

subsection \<open>Settled graphs\<close>

fun settled_nodes :: "run_state \<Rightarrow> nat \<Rightarrow> node list \<Rightarrow> string \<Rightarrow> bool"
  and settled :: "run_state \<Rightarrow> nat \<Rightarrow> node \<Rightarrow> string \<Rightarrow> bool"
  and settled_branches :: "run_state \<Rightarrow> nat \<Rightarrow> node list \<Rightarrow> string \<Rightarrow> bool"
where
  "settled_nodes rs i [] parent = True"
| "settled_nodes rs i (n # ns) parent = (settled rs i n parent \<and> settled_nodes rs (Suc i) ns parent)"
| "settled rs i (CodeStep v) parent = (LookupCompleted rs (PathFor parent [] (cs_ID v) i) \<noteq> None)"
| "settled rs i (SignalStep v) parent = (LookupCompleted rs (PathFor parent [] (ss_ID v) i) \<noteq> None)"
| "settled rs i (If cond th el) parent =
     (let path = PathFor parent ''if'' [] i
      in LookupBranch rs path = Some ''then'' \<and> settled_nodes rs 0 th (path @ ''.then'')
         \<or> LookupBranch rs path = Some ''else'' \<and> settled_nodes rs 0 el (path @ ''.else''))"
| "settled rs i (Try d cat fin) parent =
     (let path = PathFor parent ''try'' [] i
      in settled_nodes rs 0 d (path @ ''.do'') \<and> settled_nodes rs 0 fin (path @ ''.finally''))"
| "settled rs i (Parallel children) parent = settled_branches rs 0 children (PathFor parent ''parallel'' [] i)"
| "settled rs i (Gate g e u m) parent =
     (let attempts = LookupGateAttempts rs (PathFor parent ''gate'' [] i)
      in g \<noteq> [] \<and> e \<noteq> [] \<and> 1 \<le> m \<and> attempts \<noteq> [] \<and> at_Outcome (last attempts) = AttemptPassed)"
| "settled rs i _ parent = False"
| "settled_branches rs i [] path = True"
| "settled_branches rs i (n # ns) path = (settled rs i n path \<and> settled_branches rs (Suc i) ns path)"

subsection \<open>Nothing happens\<close>

text \<open>Between two moves of a quiet run only fresh context numbers are drawn.\<close>

definition still :: "world \<Rightarrow> world \<Rightarrow> bool" where
  "still w w' \<longleftrightarrow> w' = w\<lparr>w_ctxs := w_ctxs w'\<rparr> \<and> w_ctxs w \<le> w_ctxs w'"

lemma still_fields:
  "still w w' \<Longrightarrow> w_rs w' = w_rs w \<and> w_log w' = w_log w \<and> w_trace w' = w_trace w \<and> w_blobs w' = w_blobs w
     \<and> w_synced w' = w_synced w \<and> w_cancelled w' = w_cancelled w \<and> w_ctxs w \<le> w_ctxs w'"
  by (cases w; cases w') (simp add: still_def)

interpretation sl: guarantee still
proof
  show "still w w" for w by (simp add: still_def)
  show "still u w" if "still u v" "still v w" for u v w
    using that by (cases u; cases v; cases w) (auto simp: still_def)
qed

definition live :: "ctx \<Rightarrow> world \<Rightarrow> bool" where
  "live c w \<longleftrightarrow> \<not> ctx_err c w \<and> (\<forall>i \<in> set (w_cancelled w). i < w_ctxs w)"

lemma still_live: "still w w' \<Longrightarrow> live c w \<Longrightarrow> live c w'"
  by (drule still_fields) (auto simp: live_def ctx_err_def intro: order.strict_trans2)

definition quiet :: "P \<Rightarrow> world \<Rightarrow> bool" where
  "quiet p w = wp still p (\<lambda>v _. v = (OutcomeOK, None)) w"

lemma quiet_ok [simp]: "quiet (Ret (OutcomeOK, None)) w"
  by (simp add: quiet_def)

lemma quiet_read: "(\<And>w'. still w w' \<Longrightarrow> quiet (k w') w') \<Longrightarrow> quiet (read k) w"
  unfolding quiet_def by (rule sl.wp_read)

lemma quiet_seq:
  assumes "quiet p w" and "\<And>w'. still w w' \<Longrightarrow> quiet (f (OutcomeOK, None)) w'"
  shows "quiet (seq p f) w"
  unfolding quiet_def
  by (rule sl.wp_seq, rule sl.wp_mono [OF assms(1) [unfolded quiet_def]]) (use assms(2) in \<open>auto simp: quiet_def\<close>)

lemma quiet_step:
  assumes "LookupCompleted (w_rs w) path \<noteq> None"
  shows "quiet (read (\<lambda>w. if LookupCompleted (w_rs w) path \<noteq> None then Ret (OutcomeOK, None) else p)) w"
proof (rule quiet_read)
  fix w' assume "still w w'"
  then have "LookupCompleted (w_rs w') path \<noteq> None" using assms by (simp add: still_fields)
  then show "quiet (if LookupCompleted (w_rs w') path \<noteq> None then Ret (OutcomeOK, None) else p) w'" by simp
qed

lemma quiet_if:
  assumes "LookupBranch (w_rs w) path = Some b" and "\<And>w'. still w w' \<Longrightarrow> quiet (take_branch b p q) w'"
  shows "quiet (runIf env cond path p q) w"
  unfolding runIf_def by (rule quiet_read) (use assms still_fields in simp)

lemma quiet_try:
  assumes "quiet doP w" and "\<And>f w'. finallyP = Some f \<Longrightarrow> still w w' \<Longrightarrow> quiet f w'" and "live c w"
  shows "quiet (runTry env c path doP catchP finallyP) w"
proof -
  have tail: "quiet (try_tail c None (OutcomeOK, None)) w'" if "still w w'" for w'
    unfolding try_tail_def
    by (auto intro!: quiet_read simp: ctx_err_def) (use still_live [OF _ assms(3)] sl.R_trans [OF that] in \<open>auto simp: live_def ctx_err_def\<close>)
  have "quiet (try_finally c finallyP None (OutcomeOK, None)) w'" if s: "still w w'" for w'
  proof (cases finallyP)
    case None
    then show ?thesis using tail [OF s] by (simp add: try_finally_def)
  next
    case (Some f)
    with assms(2) s have "quiet f w'" by blast
    then show ?thesis unfolding try_finally_def Some option.case
      by (rule quiet_seq) (use tail sl.R_trans [OF s] in simp)
  qed
  then show ?thesis unfolding runTry_def by (intro quiet_seq [OF assms(1)]) simp
qed

lemma quiet_parallel:
  assumes "\<And>w' p. still w w' \<Longrightarrow> p \<in> set (bs w') \<Longrightarrow> quiet p (w'\<lparr>w_ctxs := Suc (w_ctxs w')\<rparr>)"
  shows "quiet (Act (\<lambda>w. (Par (bs w) join_branches, w\<lparr>w_ctxs := Suc (w_ctxs w)\<rparr>))) w"
  unfolding quiet_def
proof (rule sl.wp_Act, clarify)
  fix w1 assume s: "still w w1"
  let ?w = "w1\<lparr>w_ctxs := Suc (w_ctxs w1)\<rparr>"
  have "wp still (Par (bs w1) join_branches) (\<lambda>v _. v = (OutcomeOK, None)) ?w"
  proof (rule sl.wp_Par [where P = "\<lambda>_ v _. v = (OutcomeOK, None)"])
    show "wp still (bs w1 ! i) (\<lambda>v _. v = (OutcomeOK, None)) ?w" if "i < length (bs w1)" for i
      using assms [OF s] that by (simp add: quiet_def)
    fix w' and vs :: "result list"
    assume l: "length vs = length (bs w1)" and v: "\<And>i. i < length (bs w1) \<Longrightarrow> vs ! i = (OutcomeOK, None)"
    then have "find (\<lambda>(oc, err). err \<noteq> None) vs = None" by (auto simp: find_None_iff in_set_conv_nth)
    then show "wp still (join_branches vs) (\<lambda>v _. v = (OutcomeOK, None)) w'" by (simp add: join_branches_def)
  qed
  then show "still w1 ?w \<and> wp still (Par (bs w1) join_branches) (\<lambda>v _. v = (OutcomeOK, None)) ?w"
    by (simp add: still_def)
qed

lemma quiet_interp:
  "settled_nodes (w_rs w) i ns parent \<Longrightarrow> live c w \<Longrightarrow> quiet (interpNodes env c i ns parent) w"
  "settled (w_rs w) i n parent \<Longrightarrow> live c w \<Longrightarrow> quiet (interpNode env c i n parent) w"
  "settled_branches (w_rs w) i ns parent \<Longrightarrow> live c w \<Longrightarrow> \<forall>p \<in> set (interpBranches env c gid i ns parent). quiet p w"
proof (induction env c i ns parent and env c i n parent and env c gid i ns parent
    arbitrary: w and w and w rule: interpNodes_interpNode_interpBranches.induct)
  case (2 env c i n ns parent)
  have "quiet (interpNodes env c (Suc i) ns parent) w'" if "still w w'" for w'
    using 2 still_fields [OF that] still_live [OF that] by simp
  with 2 show ?case by (auto intro!: quiet_seq)
next
  case (3 env c i v parent)
  then show ?case unfolding interpNode.simps runCodeStep_def settled.simps by (intro quiet_step)
next
  case (4 env c i v parent)
  then show ?case unfolding interpNode.simps runSignalStep_def settled.simps by (intro quiet_step)
next
  case (5 env c i cond th el parent)
  let ?p = "PathFor parent ''if'' [] i"
  from "5.prems"(1) obtain b where b: "LookupBranch (w_rs w) ?p = Some b"
    "b = ''then'' \<and> settled_nodes (w_rs w) 0 th (?p @ ''.then'') \<or> b = ''else'' \<and> settled_nodes (w_rs w) 0 el (?p @ ''.else'')"
    by (auto simp: Let_def)
  have "quiet (take_branch b (interpNodes env c 0 th (?p @ ''.then'')) (interpNodes env c 0 el (?p @ ''.else''))) w'"
    if "still w w'" for w'
    using b(2) "5.IH" still_fields [OF that] still_live [OF that "5.prems"(2)] by (auto simp: take_branch_def)
  with b(1) show ?case by (simp add: Let_def quiet_if)
next
  case (7 env c i d cat fin parent)
  let ?p = "PathFor parent ''try'' [] i"
  have fin: "quiet (interpNodes env [] 0 fin (?p @ ''.finally'')) w'" if "still w w'" "fin \<noteq> []" for w'
  proof -
    have "live [] w'" using still_live [OF that(1) "7.prems"(2)] by (auto simp: live_def ctx_err_def)
    then show ?thesis using 7 that still_fields [OF that(1)] by (simp add: Let_def)
  qed
  have "quiet (interpNodes env c 0 d (?p @ ''.do'')) w" using 7 by (simp add: Let_def)
  then show ?case by (auto simp: Let_def intro!: quiet_try fin "7.prems"(2) split: if_splits)
next
  case (8 env c i children parent)
  let ?p = "PathFor parent ''parallel'' [] i"
  have "quiet p (w'\<lparr>w_ctxs := Suc (w_ctxs w')\<rparr>)"
    if s: "still w w'" and p: "p \<in> set (interpBranches env (w_ctxs w' # c) (w_ctxs w') 0 children ?p)" and "children \<noteq> []" for w' p
  proof -
    have "live (w_ctxs w' # c) (w'\<lparr>w_ctxs := Suc (w_ctxs w')\<rparr>)"
      using still_live [OF s "8.prems"(2)] by (auto simp: live_def ctx_err_def)
    moreover have "settled_branches (w_rs (w'\<lparr>w_ctxs := Suc (w_ctxs w')\<rparr>)) 0 children ?p"
      using "8.prems"(1) still_fields [OF s] by simp
    ultimately show ?thesis using "8.IH" that(3) p by (auto simp: Let_def)
  qed
  then show ?case by (auto simp: Let_def intro!: quiet_parallel)
next
  case (9 env c i g e u m parent)
  then show ?case by (auto simp: runGate_def Let_def still_fields intro!: quiet_read)
next
  case (17 env c gid i n ns path)
  then show ?case by (auto intro!: quiet_seq simp: branch_end_def)
qed (auto simp: Let_def)

text \<open>The end of a quiet run only cancels its own context.\<close>

definition calm :: "world \<Rightarrow> world \<Rightarrow> bool" where
  "calm w w' \<longleftrightarrow> w_log w' = w_log w \<and> w_blobs w' = w_blobs w \<and> w_rs w' = w_rs w \<and> w_trace w' = w_trace w"

interpretation cm: guarantee calm
  by unfold_locales (auto simp: calm_def)

lemma calm_finish:
  assumes "\<not> Cancelled (w_rs w)" and "Paused (w_rs w) = None"
  shows "wp calm (finish_run env rid (OutcomeOK, None)) (\<lambda>v _. v = (OutcomeOK, None)) w"
  unfolding finish_run_def cancel_ctx_def appendTerminalControlEvents_def
  by (intro cm.wp_upd cm.wp_read) (use assms in \<open>auto simp: calm_def validateRunResultPair_def\<close>)

subsection \<open>Properties\<close>

text \<open>
  C4: Resuming does not repeat work: when every node of the graph is settled in the state, and no
  control request arrives, then under every schedule the run has no effect at all on the journal, the
  blobs, the state and the outside world, and it ends with ok.
\<close>

theorem settled_resume_is_noop:
  assumes "settled_nodes (w_rs w) 0 (e_graph env) []" and "e_preflight env = None"
    and "\<forall>i \<in> set (w_cancelled w). i < w_ctxs w" and "\<not> Cancelled (w_rs w)" and "Paused (w_rs w) = None"
    and "steps (\<lambda>_ _. False) (Run env [], w) (p, w')"
  shows "w_log w' = w_log w \<and> w_blobs w' = w_blobs w \<and> w_rs w' = w_rs w \<and> w_trace w' = w_trace w
    \<and> (\<forall>v. p = Ret v \<longrightarrow> v = (OutcomeOK, None))"
proof -
  let ?rid = "w_ctxs w"
  let ?w1 = "w\<lparr>w_ctxs := Suc ?rid, w_runctx := ?rid, w_poll := (if e_broker env then Polling else PollOff)\<rparr>"
  let ?f = "\<lambda>(oc, err). case err of
             Some (ErrSkip reason) \<Rightarrow> appendNodeSkipped env [] reason (\<lambda>ok.
               if \<not> ok then cancel_ctx ?rid (infra ''append node.skipped'') else finish_run env ?rid (OutcomeOK, None))
           | _ \<Rightarrow> finish_run env ?rid (oc, err)"
  let ?p = "interpNodes env [?rid] 0 (e_graph env) []"
  have run: "Run env [] = run_graph env" using assms(2) by (simp add: Run_def)
  have "(p = Run env [] \<and> w' = w) \<or> steps (\<lambda>_ _. False) (seq ?p ?f, ?w1) (p, w')"
    using assms(6) unfolding run run_graph_def Let_def
    by (cases rule: converse_rtranclpE) (auto elim!: step_ActE)
  then show ?thesis
  proof
    assume "p = Run env [] \<and> w' = w"
    then show ?thesis by (simp add: run run_graph_def)
  next
    assume s: "steps (\<lambda>_ _. False) (seq ?p ?f, ?w1) (p, w')"
    have "live [?rid] ?w1" using assms(3) by (auto simp: live_def ctx_err_def)
    then have q: "wp still ?p (\<lambda>v _. v = (OutcomeOK, None)) ?w1"
      using quiet_interp(1) [of ?w1] assms(1) by (simp add: quiet_def)
    from steps_seq [OF s] show ?thesis
    proof
      assume "\<exists>p'. p = seq p' ?f \<and> steps (\<lambda>_ _. False) (?p, ?w1) (p', w')"
      then obtain p' where p': "p = seq p' ?f" "steps (\<lambda>_ _. False) (?p, ?w1) (p', w')" by blast
      have st: "still ?w1 w'" "wp still p' (\<lambda>v _. v = (OutcomeOK, None)) w'" using sl.wp_steps [OF p'(2) _ q] by blast+
      have "p \<noteq> Ret v" for v
      proof (cases p')
        case (Ret u)
        with st(2) have "u = (OutcomeOK, None)" using sl.R_refl [of w'] by auto
        with Ret p'(1) show ?thesis by (simp add: finish_run_def cancel_ctx_def upd_def)
      qed (use p'(1) in simp_all)
      with still_fields [OF st(1)] show ?thesis by simp
    next
      assume "\<exists>v w1. steps (\<lambda>_ _. False) (?p, ?w1) (Ret v, w1) \<and> steps (\<lambda>_ _. False) (?f v, w1) (p, w')"
      then obtain v w1 where v: "steps (\<lambda>_ _. False) (?p, ?w1) (Ret v, w1)" "steps (\<lambda>_ _. False) (?f v, w1) (p, w')" by blast
      from sl.wp_result [OF v(1) _ q] have st: "still ?w1 w1" "v = (OutcomeOK, None)" by blast+
      from still_fields [OF st(1)] have same: "w_rs w1 = w_rs w" "calm w w1" by (simp_all add: calm_def)
      from v(2) st(2) have fin: "steps (\<lambda>_ _. False) (finish_run env ?rid (OutcomeOK, None), w1) (p, w')" by simp
      have "wp calm (finish_run env ?rid (OutcomeOK, None)) (\<lambda>v _. v = (OutcomeOK, None)) w1"
        by (rule calm_finish) (use same assms(4,5) in simp_all)
      from cm.wp_steps [OF fin _ this] have "calm w1 w'" "wp calm p (\<lambda>v _. v = (OutcomeOK, None)) w'" by blast+
      with same(2) cm.R_refl show ?thesis by (auto simp: calm_def)
    qed
  qed
qed

definition settled_world :: world where
  "settled_world = demo_world\<lparr>w_rs := RecordCompleted ''a'' demo_result (w_rs demo_world)\<rparr>"

theorem settled_resume_is_noop_witness:
  "\<exists>w'. steps (\<lambda>_ _. False) (Run (demo_env [demo_step ''a'']) [], settled_world) (Ret (OutcomeOK, None), w')
     \<and> w_log w' = w_log settled_world \<and> w_trace w' = []"
proof -
  obtain v w' where s: "steps (\<lambda>_ _. False) (Run (demo_env [demo_step ''a'']) [], settled_world) (Ret v, w')"
    using run_ends [of "\<lambda>_ _. False" "Run (demo_env [demo_step ''a'']) []" settled_world] by blast
  have "w_log w' = w_log settled_world \<and> w_trace w' = w_trace settled_world \<and> v = (OutcomeOK, None)"
    using settled_resume_is_noop [OF _ _ _ _ _ s]
    by (simp add: settled_world_def demo_world_def demo_step_def PathFor_def RecordCompleted_def zero_state_def LookupCompleted_def)
  with s show ?thesis by (auto simp: settled_world_def demo_world_def)
qed

definition loop_graph :: "node list" where
  "loop_graph = [Loop None (Some 1) [demo_step ''a'']]"

definition loop_path :: string where "loop_path = PathFor [] ''loop'' [] 0"

definition body_path :: "int \<Rightarrow> string" where
  "body_path k = PathFor (IterPath (loop_path @ ''.body'') k) [] ''a'' 0"

lemma exec_loop_node:
  assumes "LookupCompleted (w_rs w) (body_path k) = None" and "LookupLoopIters (w_rs w) loop_path + 1 = k" and "1 \<le> k"
  shows "\<exists>i w'. exec (interpNodes (demo_env g) c 0 loop_graph []) w = ((OutcomeOK, None), w')
    \<and> w_rs w' = RecordLoopIter loop_path k (RecordCompleted (body_path k) demo_result (w_rs w))
    \<and> w_trace w' = w_trace w @ [Dispatched i]"
proof -
  from exec_demo_step [of w "IterPath (loop_path @ ''.body'') k" "''a''" 0 g c] assms(1) obtain i where
    "exec (interpNode (demo_env g) c 0 (demo_step ''a'') (IterPath (loop_path @ ''.body'') k)) w
       = ((OutcomeOK, None), demo_after i (body_path k) w)"
    by (auto simp: body_path_def)
  moreover have "nat (1 - (LookupLoopIters (w_rs w) loop_path + 1)) = 0" using assms(2,3) by simp
  ultimately show ?thesis
    using assms(2,3)
    by (auto simp: loop_graph_def loop_path_def [symmetric] exec_eval exec_calls runLoop_def loop_fuel_def Let_def demo_after_def ticked_def
        RecordCompleted_def LookupLoopIters_def)
qed

lemma exec_demo_loop:
  assumes "LookupCompleted (w_rs w) (body_path k) = None" and "LookupLoopIters (w_rs w) loop_path + 1 = k"
    and "1 \<le> k" and "\<not> Cancelled (w_rs w)" and "Paused (w_rs w) = None"
  shows "\<exists>i w'. exec (Run (demo_env loop_graph) []) w = ((OutcomeOK, None), w')
    \<and> w_rs w' = RecordLoopIter loop_path k (RecordCompleted (body_path k) demo_result (w_rs w))
    \<and> w_trace w' = w_trace w @ [Dispatched i]"
proof -
  let ?w = "w\<lparr>w_ctxs := Suc (w_ctxs w), w_runctx := w_ctxs w, w_poll := Polling\<rparr>"
  from exec_loop_node [of ?w k loop_graph "[w_ctxs w]"] assms obtain i w' where
    "exec (interpNodes (demo_env loop_graph) [w_ctxs w] 0 loop_graph []) ?w = ((OutcomeOK, None), w')"
    "w_rs w' = RecordLoopIter loop_path k (RecordCompleted (body_path k) demo_result (w_rs w))"
    "w_trace w' = w_trace w @ [Dispatched i]" by auto
  with assms(4,5) show ?thesis
    by (simp add: Run_def run_graph_def exec_eval Let_def finish_run_def cancel_ctx_def appendTerminalControlEvents_def
        RecordLoopIter_def RecordCompleted_def validateRunResultPair_def)
qed


end
