(* ===== verification/Engine_Retry.thy ===== *)
theory Engine_Retry
  imports Engine
begin

text \<open>
  The retry loop: how often it dispatches, what it journals and when it stops.
\<close>

definition dispatches :: "external list \<Rightarrow> node_intent list" where
  "dispatches ts = List.map_filter (\<lambda>x. case x of Dispatched i \<Rightarrow> Some i | _ \<Rightarrow> None) ts"

definition sleeps :: "external list \<Rightarrow> duration list" where
  "sleeps ts = List.map_filter (\<lambda>x. case x of Slept d \<Rightarrow> Some d | _ \<Rightarrow> None) ts"

lemma trace_simps [simp]:
  "dispatches [] = []" "dispatches (Dispatched i # ts) = i # dispatches ts" "dispatches (Slept d # ts) = dispatches ts"
  "sleeps [] = []" "sleeps (Dispatched i # ts) = sleeps ts" "sleeps (Slept d # ts) = d # sleeps ts"
  by (simp_all add: dispatches_def sleeps_def)

text \<open>The numbers of the \<open>retry.attempt\<close> events of a node.\<close>

definition retry_numbers :: "string \<Rightarrow> jevent list \<Rightarrow> int list" where
  "retry_numbers path es = List.map_filter (\<lambda>e. case jData e of RetryAttempt d \<Rightarrow> if jPath e = path then Some (rd_N d) else None
     | _ \<Rightarrow> None) es"

lemma retry_numbers_simps [simp]:
  "retry_numbers p [] = []"
  "retry_numbers p (\<lparr>jPath = p, jData = RetryAttempt d\<rparr> # es) = rd_N d # retry_numbers p es"
  by (simp_all add: retry_numbers_def)

definition as_result :: "dispatch_result \<times> gerr option \<Rightarrow> P" where
  "as_result = (\<lambda>(dr, e). Ret (dr_Outcome dr, e))"

text \<open>What an execution of the loop from attempt \<open>a\<close> looks like: it ends after attempt \<open>n\<close>.\<close>

definition retried :: "node_intent \<Rightarrow> policy \<Rightarrow> int \<Rightarrow> world \<Rightarrow> result \<times> world \<Rightarrow> bool" where
  "retried intent pol a w r \<longleftrightarrow> (\<exists>n m ts es. a \<le> n \<and> n \<le> Attempts pol
     \<and> w_trace (snd r) = w_trace w @ ts \<and> dispatches ts = map (\<lambda>k. intent\<lparr>ni_Attempt := k\<rparr>) [a..n]
     \<and> w_log (snd r) = w_log w @ es \<and> length es = length (retry_numbers (ni_Path intent) es)
     \<and> retry_numbers (ni_Path intent) es = [a..m] \<and> (m = n - 1 \<or> m = n \<and> snd (fst r) \<noteq> None \<and> n < Attempts pol)
     \<and> length (sleeps ts) \<le> nat (n - a) \<and> w_blobs (snd r) = w_blobs w \<and> w_rs (snd r) = w_rs w)"

lemma retried_stop:
  assumes "a \<le> Attempts pol" and "w_trace w' = w_trace w @ [Dispatched (intent\<lparr>ni_Attempt := a\<rparr>)]" and "w_log w' = w_log w"
    and "w_blobs w' = w_blobs w" "w_rs w' = w_rs w"
  shows "retried intent pol a w (v, w')"
  unfolding retried_def using assms
  by (intro exI [of _ a] exI [of _ "a - 1"] exI [of _ "[Dispatched (intent\<lparr>ni_Attempt := a\<rparr>)]"] exI [of _ "[]"]) simp

lemma retried_broken:
  assumes "a < Attempts pol" and "w_trace w' = w_trace w @ [Dispatched (intent\<lparr>ni_Attempt := a\<rparr>)]"
    and "w_log w' = w_log w @ [\<lparr>jPath = ni_Path intent, jData = RetryAttempt d\<rparr>]" and "rd_N d = a" and "snd v \<noteq> None"
    and "w_blobs w' = w_blobs w" "w_rs w' = w_rs w"
  shows "retried intent pol a w (v, w')"
  unfolding retried_def using assms
  by (intro exI [of _ a] exI [of _ a] exI [of _ "[Dispatched (intent\<lparr>ni_Attempt := a\<rparr>)]"]
      exI [of _ "[\<lparr>jPath = ni_Path intent, jData = RetryAttempt d\<rparr>]"]) auto

lemma retried_again:
  assumes "retried intent pol (a + 1) w1 r" and "a < Attempts pol"
    and "w_trace w1 = w_trace w @ [Dispatched (intent\<lparr>ni_Attempt := a\<rparr>)]
      \<or> w_trace w1 = w_trace w @ [Dispatched (intent\<lparr>ni_Attempt := a\<rparr>), Slept b]"
    and "w_log w1 = w_log w @ [\<lparr>jPath = ni_Path intent, jData = RetryAttempt d\<rparr>]" and "rd_N d = a"
    and "w_blobs w1 = w_blobs w" "w_rs w1 = w_rs w"
  shows "retried intent pol a w r"
proof -
  from assms(1) obtain n m ts es where r: "a + 1 \<le> n" "n \<le> Attempts pol" "w_trace (snd r) = w_trace w1 @ ts"
      "dispatches ts = map (\<lambda>k. intent\<lparr>ni_Attempt := k\<rparr>) [a + 1..n]" "w_log (snd r) = w_log w1 @ es"
      "length es = length (retry_numbers (ni_Path intent) es)" "retry_numbers (ni_Path intent) es = [a + 1..m]"
      "m = n - 1 \<or> m = n \<and> snd (fst r) \<noteq> None \<and> n < Attempts pol" "length (sleeps ts) \<le> nat (n - (a + 1))"
      "w_blobs (snd r) = w_blobs w1" "w_rs (snd r) = w_rs w1"
    unfolding retried_def by blast
  have up: "[a..n] = a # [a + 1..n]" "[a..m] = a # [a + 1..m]" using r(1,8) by (auto simp: upto_rec1)
  obtain ts1 where ts1: "w_trace w1 = w_trace w @ ts1" "dispatches (ts1 @ ts) = intent\<lparr>ni_Attempt := a\<rparr> # dispatches ts"
      "length (sleeps (ts1 @ ts)) \<le> Suc (length (sleeps ts))"
    using assms(3) by auto
  show ?thesis
    unfolding retried_def
    by (intro exI [of _ n] exI [of _ m] exI [of _ "ts1 @ ts"] exI [of _ "\<lparr>jPath = ni_Path intent, jData = RetryAttempt d\<rparr> # es"])
      (use r ts1 up assms(4-7) in auto)
qed

lemma exec_as_result [simp]: "exec (as_result (dr, e)) w = ((dr_Outcome dr, e), w)"
  by (simp add: as_result_def)

lemma exec_retry:
  "\<not> ni_Sink intent \<Longrightarrow> a + int n = Attempts pol + 1 \<Longrightarrow> 0 < n \<Longrightarrow> retried intent pol a w (exec (retry_attempts n a env c intent pol as_result) w)"
proof (induction n arbitrary: a w)
  case (Suc n)
  obtain dr e where d: "e_dispatch env (w_tick w) (intent\<lparr>ni_Attempt := a\<rparr>) = (dr, e)" by fastforce
  let ?w = "(ticked w)\<lparr>w_trace := w_trace w @ [Dispatched (intent\<lparr>ni_Attempt := a\<rparr>)]\<rparr>"
  have step: "exec (retry_attempts (Suc n) a env c intent pol as_result) w
      = exec (after_attempt env c intent pol a (retry_attempts n (a + 1) env c intent pol as_result) as_result (dr, e)) ?w"
    by (simp add: exec_calls d)
  have a: "a \<le> Attempts pol" using Suc.prems by simp
  have stop: "retried intent pol a w (v, ?w)" for v by (rule retried_stop [OF a]) (simp_all add: ticked_def)
  have again: "retried intent pol a w (exec (log_append env (ni_Path intent) (RetryAttempt \<lparr>rd_N = a, rd_Outcome = x, rd_Error = y\<rparr>) (\<lambda>ok.
      if \<not> ok then as_result (dr', Some (ErrInfra ''append retry.attempt''))
      else clk_sleep env c b (\<lambda>e. if e \<noteq> None then as_result (dr', e) else retry_attempts n (a + 1) env c intent pol as_result))) ?w)"
    if lt: "a < Attempts pol" for dr' x y b
  proof (cases "e_append env (w_tick ?w)")
    case False
    then show ?thesis by (simp add: exec_calls) (rule retried_stop [OF a], simp_all add: ticked_def)
  next
    case True
    let ?w2 = "(ticked ?w)\<lparr>w_log := w_log ?w @ [\<lparr>jPath = ni_Path intent, jData = RetryAttempt \<lparr>rd_N = a, rd_Outcome = x, rd_Error = y\<rparr>\<rparr>]\<rparr>"
    have n: "0 < n" "a + 1 + int n = Attempts pol + 1" using lt Suc.prems(2) by auto
    have ih: "retried intent pol a w (exec (retry_attempts n (a + 1) env c intent pol as_result) w3)"
      if "w_trace w3 = w_trace ?w2 \<or> w_trace w3 = w_trace ?w2 @ [Slept b]" "w_log w3 = w_log ?w2" "w_blobs w3 = w_blobs w" "w_rs w3 = w_rs w" for w3
      by (rule retried_again [OF Suc.IH [OF Suc.prems(1) n(2,1)] lt, where b = b and d = "\<lparr>rd_N = a, rd_Outcome = x, rd_Error = y\<rparr>"]) (use that in \<open>auto simp: ticked_def\<close>)
    have broken: "retried intent pol a w ((dr_Outcome dr', Some ErrCtx), w3)"
      if "w_trace w3 = w_trace ?w2" "w_log w3 = w_log ?w2" "w_blobs w3 = w_blobs w" "w_rs w3 = w_rs w" for w3
      by (rule retried_broken [OF lt, where d = "\<lparr>rd_N = a, rd_Outcome = x, rd_Error = y\<rparr>"]) (use that in \<open>simp_all add: ticked_def\<close>)
    show ?thesis
      using True ih broken by (simp add: exec_calls ticked_def)
  qed
  show ?case
    unfolding step after_attempt_def prod.case Let_def
    using stop again a Suc.prems(1) by (auto simp: flush_sink_def split: outcome.split)
qed simp

subsection \<open>Properties\<close>

text \<open>
  C7: For a step without a live event sink, the retry loop dispatches the step at least once and at most \<open>attempts\<close> times, with the same
  intent numbered 1, 2, up to the last attempt; between two dispatches it journals exactly one
  \<open>retry.attempt\<close> with the number of the failed attempt and sleeps at most once; it writes nothing
  else. An extra \<open>retry.attempt\<close> without a dispatch after it occurs only when the wait was cut short.
\<close>

theorem retry_loop_dispatches:
  assumes "1 \<le> Attempts pol" and "\<not> ni_Sink intent"
  shows "retried (intent\<lparr>ni_RecoveryContinue := (Recovery pol = ''continue'')\<rparr>) pol 1 w
     (exec (RunWithRetry env c intent pol as_result) w)"
  using assms exec_retry [of "intent\<lparr>ni_RecoveryContinue := (Recovery pol = ''continue'')\<rparr>" 1 "nat (Attempts pol)" pol] by (simp add: RunWithRetry_def)

definition failing_env :: engine_env where
  "failing_env = (demo_env [])\<lparr>e_dispatch := (\<lambda>_ _. (zero_dispatch\<lparr>dr_Outcome := OutcomeRetryableFailure, dr_Err := Some (ErrCause ''boom'')\<rparr>, None))\<rparr>"

theorem retry_loop_dispatches_witness:
  "\<exists>n m :: int. 1 \<le> n \<and> n \<le> 3 \<and> length (dispatches (w_trace (snd (exec (RunWithRetry failing_env []
     (code_intent failing_env \<lparr>cs_ID = ''s'', cs_Container = [], cs_Run = [], cs_Timeout = None, cs_OutputSchema = None,
        cs_OutputFiles = [], cs_InputFiles = [], cs_IdempotencyKey = None, cs_Retry = None\<rparr> ''s'' CodeDefault [] [] [] [])
     (CodeDefault\<lparr>Attempts := 3\<rparr>) as_result) demo_world)))) = nat n"
proof -
  let ?i = "code_intent failing_env \<lparr>cs_ID = ''s'', cs_Container = [], cs_Run = [], cs_Timeout = None, cs_OutputSchema = None,
        cs_OutputFiles = [], cs_InputFiles = [], cs_IdempotencyKey = None, cs_Retry = None\<rparr> ''s'' CodeDefault [] [] [] []"
  have "retried (?i\<lparr>ni_RecoveryContinue := (Recovery (CodeDefault\<lparr>Attempts := 3\<rparr>) = ''continue'')\<rparr>) (CodeDefault\<lparr>Attempts := 3\<rparr>) 1 demo_world
     (exec (RunWithRetry failing_env [] ?i (CodeDefault\<lparr>Attempts := 3\<rparr>) as_result) demo_world)"
    by (rule retry_loop_dispatches) (simp_all add: code_intent_def)
  then show ?thesis unfolding retried_def by (auto simp: demo_world_def) 
qed

end
