(* ===== verification/React_Resume.thy ===== *)
theory React_Resume
  imports Engine
begin

text \<open>
  The conversation of a react step (\<open>Engine_React\<close>) across crashes and resumes. The step owns the
  leaves below its path; other branches of the run move meanwhile by \<open>others\<close>. What is shown: every
  model call of a step sees exactly the conversation that can be rebuilt from the committed leaves,
  at most one call is made per round, and none for a round already answered; and where this fails.
\<close>

subsection \<open>What the step owns\<close>

definition below :: "string \<Rightarrow> string \<Rightarrow> bool" where
  "below rp q \<longleftrightarrow> (\<exists>s. q = rp @ ''.round-'' @ s)"

definition model_calls :: "string \<Rightarrow> external list \<Rightarrow> tool_invocation list" where
  "model_calls rp ts = List.map_filter (\<lambda>x. case x of
     ModelCalled iv \<Rightarrow> if below rp (ti_NodePath iv) then Some iv else None | _ \<Rightarrow> None) ts"

definition others :: "string \<Rightarrow> world \<Rightarrow> world \<Rightarrow> bool" where
  "others rp w w' \<longleftrightarrow> (\<forall>q. below rp q \<longrightarrow> LookupCompleted (w_rs w') q = LookupCompleted (w_rs w) q)
     \<and> LookupReactRounds (w_rs w') rp = LookupReactRounds (w_rs w) rp
     \<and> model_calls rp (w_trace w') = model_calls rp (w_trace w)"

lemma model_calls_append [simp]: "model_calls rp (ts @ us) = model_calls rp ts @ model_calls rp us"
  by (simp add: model_calls_def List.map_filter_def)

lemma model_calls_one [simp]:
  "model_calls rp [Dispatched i] = []" "model_calls rp [Slept d] = []" "model_calls rp [] = []"
  "below rp (ti_NodePath iv) \<Longrightarrow> model_calls rp [ModelCalled iv] = [iv]"
  by (simp_all add: model_calls_def List.map_filter_def)

lemma below_paths [simp]:
  "below rp (ModelPath (RoundPath rp k))" "below rp (ToolPath (RoundPath rp k) j)" "\<not> below rp rp"
  by (simp_all add: below_def ModelPath_def ToolPath_def RoundPath_def)

lemma tool_not_model [simp]: "ToolPath p j \<noteq> ModelPath q"
proof
  assume "ToolPath p j = ModelPath q"
  then have "splitDot (ToolPath p j) = splitDot (ModelPath q)" by simp
  moreover have "splitDot (ToolPath p j) = splitDot p @ [''tool-'' @ itoa j]"
    using splitDot_tag [of "''tool-''" p j] by (simp add: ToolPath_def)
  moreover have "splitDot (ModelPath q) = splitDot q @ [''model'']"
    using splitDot_append [of q "''model''"] by (simp add: ModelPath_def splitDot_no_dot)
  ultimately show False by simp
qed

lemma control_others: "control u v \<Longrightarrow> others rp u v"
  by (induction rule: control.induct)
    (auto simp: others_def LookupCompleted_def LookupReactRounds_def SetCancelReason_def SetCancelled_def SetPaused_def)

lemma others_quiet:
  "w_rs w' = w_rs w \<Longrightarrow> model_calls rp (w_trace w') = model_calls rp (w_trace w) \<Longrightarrow> others rp w w'"
  by (simp add: others_def)

subsection \<open>Calls that leave the leaves alone\<close>

locale react_thread = owned "others rp" I for rp :: string and I :: "world \<Rightarrow> bool"
begin

lemma safe_append: "assertion A \<Longrightarrow> (\<And>b. safe A (k b)) \<Longrightarrow> safe A (log_append env path d k)"
  unfolding log_append_def by (rule safe_quiet) (auto simp: ticked_def intro!: others_quiet split: if_splits)

lemma safe_sync: "assertion A \<Longrightarrow> (\<And>b. safe A (k b)) \<Longrightarrow> safe A (log_sync env k)"
  unfolding log_sync_def by (rule safe_quiet) (auto simp: ticked_def intro!: others_quiet split: if_splits)

lemma safe_put: "assertion A \<Longrightarrow> (\<And>r. safe A (k r)) \<Longrightarrow> safe A (blob_put env content k)"
  unfolding blob_put_def
  by (rule safe_quiet) (auto simp: ticked_def intro!: others_quiet split: prod.splits sum.splits)

lemma safe_dispatch: "assertion A \<Longrightarrow> (\<And>x. safe A (k x)) \<Longrightarrow> safe A (dispatch env intent k)"
  unfolding dispatch_def
  by (rule safe_quiet, assumption, unfold prod.inject, elim conjE, hypsubst, intro conjI others_quiet)
    (simp_all only:, simp_all add: ticked_def)

lemma safe_sleep: "assertion A \<Longrightarrow> (\<And>x. safe A (k x)) \<Longrightarrow> safe A (clk_sleep env c d k)"
  unfolding clk_sleep_def by (rule safe_quiet) (auto simp: ticked_def intro!: others_quiet split: if_splits)

lemma safe_upd_rs:
  "assertion A \<Longrightarrow> (\<And>w. A w \<Longrightarrow> B (w\<lparr>w_rs := f (w_rs w)\<rparr>)) \<Longrightarrow> safe B p \<Longrightarrow> safe A (upd_rs f p)"
  unfolding upd_rs_def by (rule safe_upd)

lemma safe_infra: "assertion A \<Longrightarrow> safe A (infra s)"
  unfolding infra_def by (rule safe_Ret)

lemma safe_failStep: "assertion A \<Longrightarrow> safe A (failStep env path oc e)"
  unfolding failStep_def by (simp add: safe_append safe_sync safe_infra safe_Ret)

lemma safe_put_files:
  "assertion A \<Longrightarrow> safe A failed \<Longrightarrow> (\<And>fs. safe A (k fs)) \<Longrightarrow> safe A (put_files env fs acc failed k)"
  by (induction fs arbitrary: acc) (auto intro!: safe_put split: option.split)

lemma safe_put_if: "assertion A \<Longrightarrow> safe A failed \<Longrightarrow> (\<And>r. safe A (k r)) \<Longrightarrow> safe A (put_if env b content failed k)"
  unfolding put_if_def by (auto intro!: safe_put split: option.split)

lemma safe_agent_events: "assertion A \<Longrightarrow> (\<And>ok. safe A (k ok)) \<Longrightarrow> safe A (appendAgentEvents env path evs k)"
  by (induction evs) (auto simp: Let_def intro!: safe_put_if safe_append)

lemma safe_flush_sink: "assertion A \<Longrightarrow> (\<And>ok. safe A (k ok)) \<Longrightarrow> safe A (flush_sink env c intent k)"
  unfolding flush_sink_def journal_live_def Let_def
  by (auto simp: ticked_def intro!: safe_quiet others_quiet safe_agent_events)

lemma safe_Commit:
  assumes A: "assertion A" and k: "safe A (k None)" "\<And>nr. nr_Outputs nr = dr_Outputs dr \<Longrightarrow> safe A (k (Some nr))"
  shows "safe A (Commit env path dr b k)"
proof -
  have "safe A (commit_result env path dr b out std fs t x k)" for out std fs t x
    unfolding commit_result_def appendNodeCompleted_def Let_def
    using k by (auto intro!: safe_append safe_sync A split: option.split prod.split)
  then show ?thesis
    unfolding Commit_def using k(1) by (auto intro!: safe_put_if safe_put_files A)
qed

lemma safe_retry:
  assumes A: "assertion A" and k: "\<And>x. safe A (k x)"
  shows "safe A (RunWithRetry env c intent pol k)"
proof -
  have after: "safe A (after_attempt env c i pol a again k x)" if "safe A again" for again i a x
    unfolding after_attempt_def Let_def
    using that k by (cases x) (auto intro!: safe_flush_sink safe_append safe_sleep A split: outcome.split)
  have "safe A (retry_attempts n a env c i pol k)" for n a i
    by (induction n arbitrary: a) (auto intro!: safe_dispatch after A k)
  then show ?thesis by (simp add: RunWithRetry_def k)
qed

end

subsection \<open>The recorded conversation\<close>

definition extends :: "string \<Rightarrow> run_state \<Rightarrow> run_state \<Rightarrow> bool" where
  "extends rp rs rs' \<longleftrightarrow> (\<forall>q nr. below rp q \<longrightarrow> LookupCompleted rs q = Some nr \<longrightarrow> LookupCompleted rs' q = Some nr)"

lemma extends_refl [simp]: "extends rp rs rs"
  by (simp add: extends_def)

lemma extends_trans: "extends rp a b \<Longrightarrow> extends rp b c \<Longrightarrow> extends rp a c"
  by (simp add: extends_def)

lemma others_extends: "others rp w w' \<Longrightarrow> extends rp (w_rs w) (w_rs w')"
  by (simp add: others_def extends_def)

lemma record_extends: "LookupCompleted rs q = None \<Longrightarrow> extends rp rs (RecordCompleted q nr rs)"
  by (auto simp: extends_def)

lemma replay_tools_mono:
  "replay_tools rs (RoundPath rp k) tcs = Some ts \<Longrightarrow> extends rp rs rs' \<Longrightarrow> replay_tools rs' (RoundPath rp k) tcs = Some ts"
  by (induction tcs arbitrary: ts) (auto simp: extends_def split: option.splits)

lemma replay_rounds_mono:
  "replay_rounds n rs rp k = Some ts \<Longrightarrow> extends rp rs rs' \<Longrightarrow> replay_rounds n rs' rp k = Some ts"
proof (induction n arbitrary: k ts)
  case (Suc n)
  from Suc.prems(1) obtain nr mr us vs where
    r: "LookupCompleted rs (ModelPath (RoundPath rp k)) = Some nr" "roundResultFromLeaf nr = Some mr"
      "replay_tools rs (RoundPath rp k) (mo_ToolCalls mr) = Some us" "replay_rounds n rs rp (k + 1) = Some vs"
      "ts = (buildAssistantTurn mr # us) @ vs"
    by (auto simp: Let_def split: option.splits)
  from r(1) Suc.prems(2) have "LookupCompleted rs' (ModelPath (RoundPath rp k)) = Some nr" by (simp add: extends_def)
  with r Suc.IH [OF r(4) Suc.prems(2)] replay_tools_mono [OF r(3) Suc.prems(2)] show ?case by simp
qed simp

lemma replay_mono:
  "replayMessages prompt rp rs k = Some ms \<Longrightarrow> extends rp rs rs' \<Longrightarrow> replayMessages prompt rp rs' k = Some ms"
  by (auto simp: replayMessages_def intro: replay_rounds_mono)

lemma replay_tools_snoc:
  "replay_tools rs p (tcs @ [tc]) =
     (case replay_tools rs p tcs of None \<Rightarrow> None | Some ts \<Rightarrow>
        map_option (\<lambda>nr. ts @ [toolMessageFromLeaf (tc_ID tc) nr]) (LookupCompleted rs (ToolPath p (tc_Index tc))))"
  by (induction tcs) (auto simp: option.map_comp comp_def split: option.splits)

lemma replay_rounds_snoc:
  assumes "replay_rounds n rs rp k = Some ms"
    and "LookupCompleted rs (ModelPath (RoundPath rp (k + int n))) = Some nr" "roundResultFromLeaf nr = Some mr"
    and "replay_tools rs (RoundPath rp (k + int n)) (mo_ToolCalls mr) = Some ts"
  shows "replay_rounds (Suc n) rs rp k = Some (ms @ buildAssistantTurn mr # ts)"
  using assms
proof (induction n arbitrary: k ms)
  case (Suc n)
  from Suc.prems(1) obtain nr' mr' us vs where
    r: "LookupCompleted rs (ModelPath (RoundPath rp k)) = Some nr'" "roundResultFromLeaf nr' = Some mr'"
      "replay_tools rs (RoundPath rp k) (mo_ToolCalls mr') = Some us" "replay_rounds n rs rp (k + 1) = Some vs"
      "ms = (buildAssistantTurn mr' # us) @ vs"
    by (auto simp: Let_def split: option.splits)
  have "replay_rounds (Suc n) rs rp (k + 1) = Some (vs @ buildAssistantTurn mr # ts)"
    using Suc.IH [OF r(4)] Suc.prems(2-4) by (simp add: algebra_simps)
  with r show ?case by (subst replay_rounds.simps) (simp add: Let_def)
qed simp

lemma replay_snoc:
  assumes "replayMessages prompt rp rs k = Some ms" and "1 \<le> k"
    and "LookupCompleted rs (ModelPath (RoundPath rp k)) = Some nr" "roundResultFromLeaf nr = Some mr"
    and "replay_tools rs (RoundPath rp k) (mo_ToolCalls mr) = Some ts"
  shows "replayMessages prompt rp rs (k + 1) = Some (ms @ buildAssistantTurn mr # ts)"
proof -
  from assms(1) obtain us where us: "replay_rounds (nat (k - 1)) rs rp 1 = Some us" "ms = turn ''user'' prompt # us"
    by (auto simp: replayMessages_def)
  have "1 + int (nat (k - 1)) = k" using assms(2) by simp
  then have "replay_rounds (Suc (nat (k - 1))) rs rp 1 = Some (us @ buildAssistantTurn mr # ts)"
    using replay_rounds_snoc [OF us(1)] assms(3-5) by simp
  moreover have "nat (k + 1 - 1) = Suc (nat (k - 1))" using assms(2) by (simp add: Suc_nat_eq_nat_zadd1)
  ultimately show ?thesis using us(2) by (simp add: replayMessages_def)
qed

text \<open>A model answer reads back from its leaf.\<close>

lemma call_round_trip [simp]: "call_of_value (call_value tc) = Some tc"
  by (simp add: call_of_value_def call_value_def jsonInt_def asString_def)

lemma calls_round_trip [simp]: "calls_of_values (map call_value tcs) = Some tcs"
  by (induction tcs) simp_all

lemma model_leaf_read_back:
  assumes "nr_Outputs nr = Some (modelLeafOutputs mr)"
  shows "\<exists>mr'. roundResultFromLeaf nr = Some mr' \<and> mo_Text mr' = mo_Text mr \<and> mo_ToolCalls mr' = mo_ToolCalls mr
    \<and> mo_FinishReason mr' = mo_FinishReason mr"
  using assms
  by (simp add: roundResultFromLeaf_def modelLeafOutputs_def out_field_def map_value_def map_nil_def asString_def Let_def)

subsection \<open>The invariant\<close>

definition turns :: "react_spec \<Rightarrow> int" where
  "turns r = (if rc_MaxTurns r = 0 then defaultMaxTurns else rc_MaxTurns r)"

text \<open>The tools that the recorded answers, and the answers to come, ask for are tools of the step.\<close>

definition known_leaves :: "engine_env \<Rightarrow> react_spec \<Rightarrow> string \<Rightarrow> run_state \<Rightarrow> bool" where
  "known_leaves env r rp rs \<longleftrightarrow> (\<forall>j nr mr tc. LookupCompleted rs (ModelPath (RoundPath rp j)) = Some nr \<longrightarrow>
     roundResultFromLeaf nr = Some mr \<longrightarrow> tc \<in> set (mo_ToolCalls mr) \<longrightarrow> toolByName env r (tc_Name tc) \<noteq> None)"

definition known_answers :: "engine_env \<Rightarrow> react_spec \<Rightarrow> bool" where
  "known_answers env r \<longleftrightarrow> (\<forall>t iv mr tc. e_runToolLoop env t iv = Inr mr \<longrightarrow> tc \<in> set (mo_ToolCalls mr) \<longrightarrow>
     toolByName env r (tc_Name tc) \<noteq> None)"

text \<open>The model call of round \<open>k\<close>: its path, and its messages are those of the leaves.\<close>

definition call_ok :: "string \<Rightarrow> string \<Rightarrow> run_state \<Rightarrow> int \<Rightarrow> tool_invocation \<Rightarrow> bool" where
  "call_ok prompt rp rs k iv \<longleftrightarrow>
     ti_NodePath iv = ModelPath (RoundPath rp k) \<and> replayMessages prompt rp rs k = Some (ti_Messages iv)"

text \<open>Since \<open>w0\<close>, the step has made calls \<open>ivs\<close> for the rounds \<open>ks\<close>, all below \<open>m\<close>.\<close>

definition conversed :: "world \<Rightarrow> string \<Rightarrow> string \<Rightarrow> int \<Rightarrow> world \<Rightarrow> bool" where
  "conversed w0 prompt rp m w \<longleftrightarrow> extends rp (w_rs w0) (w_rs w)
     \<and> (\<exists>ks ivs. model_calls rp (w_trace w) = model_calls rp (w_trace w0) @ ivs
          \<and> sorted_wrt (<) ks \<and> list_all (\<lambda>k. 1 \<le> k \<and> k < m
              \<and> LookupCompleted (w_rs w0) (ModelPath (RoundPath rp k)) = None) ks
          \<and> list_all2 (call_ok prompt rp (w_rs w)) ks ivs)"

lemma call_ok_mono: "call_ok prompt rp rs k iv \<Longrightarrow> extends rp rs rs' \<Longrightarrow> call_ok prompt rp rs' k iv"
  by (auto simp: call_ok_def intro: replay_mono)

lemma conversed_mono:
  assumes "conversed w0 prompt rp m w" and "extends rp (w_rs w) (w_rs w')" and "m \<le> m'"
    and "model_calls rp (w_trace w') = model_calls rp (w_trace w)"
  shows "conversed w0 prompt rp m' w'"
proof -
  from assms(1) obtain ks ivs where c: "extends rp (w_rs w0) (w_rs w)"
      "model_calls rp (w_trace w) = model_calls rp (w_trace w0) @ ivs" "sorted_wrt (<) ks"
      "list_all (\<lambda>k. 1 \<le> k \<and> k < m \<and> LookupCompleted (w_rs w0) (ModelPath (RoundPath rp k)) = None) ks"
      "list_all2 (call_ok prompt rp (w_rs w)) ks ivs"
    unfolding conversed_def by blast
  have "list_all2 (call_ok prompt rp (w_rs w')) ks ivs"
    using c(5) call_ok_mono [OF _ assms(2)] by (rule list_all2_mono)
  moreover have "list_all (\<lambda>k. 1 \<le> k \<and> k < m' \<and> LookupCompleted (w_rs w0) (ModelPath (RoundPath rp k)) = None) ks"
    using c(4) assms(3) by (auto simp: list_all_iff)
  ultimately show ?thesis
    unfolding conversed_def using c(2,3) extends_trans [OF c(1) assms(2)] assms(4) by auto
qed

lemma conversed_call:
  assumes "conversed w0 prompt rp k w" and "1 \<le> k" and "call_ok prompt rp (w_rs w) k iv"
    and "LookupCompleted (w_rs w0) (ModelPath (RoundPath rp k)) = None"
    and "w_rs w' = w_rs w" and "model_calls rp (w_trace w') = model_calls rp (w_trace w) @ [iv]"
  shows "conversed w0 prompt rp (k + 1) w'"
proof -
  from assms(1) obtain ks ivs where c: "extends rp (w_rs w0) (w_rs w)"
      "model_calls rp (w_trace w) = model_calls rp (w_trace w0) @ ivs" "sorted_wrt (<) ks"
      "list_all (\<lambda>j. 1 \<le> j \<and> j < k \<and> LookupCompleted (w_rs w0) (ModelPath (RoundPath rp j)) = None) ks"
      "list_all2 (call_ok prompt rp (w_rs w)) ks ivs"
    unfolding conversed_def by blast
  have "list_all2 (call_ok prompt rp (w_rs w')) (ks @ [k]) (ivs @ [iv])"
    using c(5) assms(3,5) by (simp add: list_all2_appendI)
  moreover have "sorted_wrt (<) (ks @ [k])" using c(3,4) by (auto simp: sorted_wrt_append list_all_iff)
  moreover have "list_all (\<lambda>j. 1 \<le> j \<and> j < k + 1 \<and> LookupCompleted (w_rs w0) (ModelPath (RoundPath rp j)) = None) (ks @ [k])"
    using c(4) assms(2,4) by (auto simp: list_all_iff)
  ultimately show ?thesis
    unfolding conversed_def using c(1,2) assms(5,6)
    by (intro conjI exI [of _ "ks @ [k]"] exI [of _ "ivs @ [iv]"]) simp_all
qed

lemma conversed_start: "conversed w prompt rp m w"
  unfolding conversed_def by (auto intro: exI [of _ "[]"])

text \<open>What always holds, and the assertions at the start of a round and among its tools.\<close>

definition talk :: "world \<Rightarrow> react_spec \<Rightarrow> string \<Rightarrow> world \<Rightarrow> bool" where
  "talk w0 r rp w \<longleftrightarrow> (\<exists>prompt. conversed w0 prompt rp (turns r + 1) w)"

definition at_round :: "world \<Rightarrow> engine_env \<Rightarrow> react_spec \<Rightarrow> string \<Rightarrow> string \<Rightarrow> int \<Rightarrow> react_turn list \<Rightarrow> world \<Rightarrow> bool" where
  "at_round w0 env r rp prompt k msgs w \<longleftrightarrow> known_leaves env r rp (w_rs w) \<and> conversed w0 prompt rp k w
     \<and> replayMessages prompt rp (w_rs w) k = Some msgs"

definition at_tools :: "world \<Rightarrow> engine_env \<Rightarrow> react_spec \<Rightarrow> string \<Rightarrow> string \<Rightarrow> int \<Rightarrow> model_result \<Rightarrow> tool_call list \<Rightarrow>
    react_turn list \<Rightarrow> world \<Rightarrow> bool" where
  "at_tools w0 env r rp prompt k mr dn msgs w \<longleftrightarrow> known_leaves env r rp (w_rs w) \<and> conversed w0 prompt rp (k + 1) w
     \<and> (\<exists>pre nr mr' ts. replayMessages prompt rp (w_rs w) k = Some pre
          \<and> LookupCompleted (w_rs w) (ModelPath (RoundPath rp k)) = Some nr \<and> roundResultFromLeaf nr = Some mr'
          \<and> mo_Text mr' = mo_Text mr \<and> mo_ToolCalls mr' = mo_ToolCalls mr
          \<and> replay_tools (w_rs w) (RoundPath rp k) dn = Some ts \<and> msgs = pre @ buildAssistantTurn mr # ts)"

lemma talk_kept: "talk w0 r rp w \<Longrightarrow> others rp w w' \<Longrightarrow> talk w0 r rp w'"
  unfolding talk_def by (meson conversed_mono others_extends others_def order_refl)

lemma known_others: "known_leaves env r rp (w_rs w) \<Longrightarrow> others rp w w' \<Longrightarrow> known_leaves env r rp (w_rs w')"
  by (simp add: known_leaves_def others_def)

lemma at_round_others: "at_round w0 env r rp prompt k msgs w \<Longrightarrow> others rp w w' \<Longrightarrow> at_round w0 env r rp prompt k msgs w'"
  unfolding at_round_def
  by (meson conversed_mono others_extends others_def order_refl known_others replay_mono)

lemma at_tools_mono:
  assumes "at_tools w0 env r rp prompt k mr dn msgs w" and "extends rp (w_rs w) (w_rs w')"
    and "model_calls rp (w_trace w') = model_calls rp (w_trace w)" and "known_leaves env r rp (w_rs w')"
  shows "at_tools w0 env r rp prompt k mr dn msgs w'"
proof -
  from assms(1) obtain pre nr mr' ts where t: "conversed w0 prompt rp (k + 1) w"
      "replayMessages prompt rp (w_rs w) k = Some pre"
      "LookupCompleted (w_rs w) (ModelPath (RoundPath rp k)) = Some nr" "roundResultFromLeaf nr = Some mr'"
      "mo_Text mr' = mo_Text mr" "mo_ToolCalls mr' = mo_ToolCalls mr"
      "replay_tools (w_rs w) (RoundPath rp k) dn = Some ts" "msgs = pre @ buildAssistantTurn mr # ts"
    unfolding at_tools_def by blast
  have "LookupCompleted (w_rs w') (ModelPath (RoundPath rp k)) = Some nr" using t(3) assms(2) by (simp add: extends_def)
  then show ?thesis
    unfolding at_tools_def
    using t conversed_mono [OF t(1) assms(2) order_refl assms(3)] assms(4) replay_mono [OF t(2) assms(2)]
      replay_tools_mono [OF t(7) assms(2)] by blast
qed

lemma at_tools_others:
  "at_tools w0 env r rp prompt k mr dn msgs w \<Longrightarrow> others rp w w' \<Longrightarrow> at_tools w0 env r rp prompt k mr dn msgs w'"
  by (rule at_tools_mono) (auto simp: others_extends others_def at_tools_def intro: known_others [unfolded others_def])

interpretation rt: react_thread rp "talk w0 r rp" for rp w0 r
  by unfold_locales (auto simp: others_def intro: talk_kept)

lemma conversed_talk: "conversed w0 prompt rp k w \<Longrightarrow> k \<le> turns r + 1 \<Longrightarrow> talk w0 r rp w"
  unfolding talk_def by (blast intro: conversed_mono [OF _ extends_refl _ refl])

lemma at_round_assertion: "k \<le> turns r + 1 \<Longrightarrow> rt.assertion rp w0 r (at_round w0 env r rp prompt k msgs)"
  unfolding rt.assertion_def by (auto intro: at_round_others) (auto simp: at_round_def intro: conversed_talk)

lemma at_tools_assertion: "k \<le> turns r \<Longrightarrow> rt.assertion rp w0 r (at_tools w0 env r rp prompt k mr dn msgs)"
  unfolding rt.assertion_def by (auto intro: at_tools_others) (auto simp: at_tools_def intro: conversed_talk)

subsection \<open>Every program of the step keeps it\<close>

lemma known_record_tool: "known_leaves env r rp rs \<Longrightarrow> known_leaves env r rp (RecordCompleted (ToolPath p j) nr rs)"
  by (auto simp: known_leaves_def tool_not_model [symmetric])

lemma at_tools_snoc:
  assumes "at_tools w0 env r rp prompt k mr dn msgs w"
    and "LookupCompleted (w_rs w) (ToolPath (RoundPath rp k) (tc_Index tc)) = Some nr"
  shows "at_tools w0 env r rp prompt k mr (dn @ [tc]) (msgs @ [toolMessageFromLeaf (tc_ID tc) nr]) w"
  using assms unfolding at_tools_def by (fastforce simp: replay_tools_snoc)

lemma at_tools_record:
  assumes "at_tools w0 env r rp prompt k mr dn msgs w"
    and "LookupCompleted (w_rs w) (ToolPath (RoundPath rp k) (tc_Index tc)) = None"
    and "asString (out_field (nr_Outputs nr) ''content'') = content"
  shows "at_tools w0 env r rp prompt k mr (dn @ [tc]) (msgs @ [tool_turn (tc_ID tc) content])
    (w\<lparr>w_rs := RecordCompleted (ToolPath (RoundPath rp k) (tc_Index tc)) nr (w_rs w)\<rparr>)"
proof -
  let ?w = "w\<lparr>w_rs := RecordCompleted (ToolPath (RoundPath rp k) (tc_Index tc)) nr (w_rs w)\<rparr>"
  have "known_leaves env r rp (w_rs ?w)" using assms(1) by (simp add: at_tools_def known_record_tool)
  then have "at_tools w0 env r rp prompt k mr dn msgs ?w"
    by (intro at_tools_mono [OF assms(1)]) (simp_all add: record_extends assms(2))
  from at_tools_snoc [OF this, of tc nr] assms(3) show ?thesis by (simp add: toolMessageFromLeaf_def)
qed

text \<open>Among the tools, before the leaf of \<open>tc\<close> is written.\<close>

definition at_tool :: "world \<Rightarrow> engine_env \<Rightarrow> react_spec \<Rightarrow> string \<Rightarrow> string \<Rightarrow> int \<Rightarrow> model_result \<Rightarrow> tool_call list \<Rightarrow>
    react_turn list \<Rightarrow> tool_call \<Rightarrow> world \<Rightarrow> bool" where
  "at_tool w0 env r rp prompt k mr dn msgs tc w \<longleftrightarrow> at_tools w0 env r rp prompt k mr dn msgs w
     \<and> LookupCompleted (w_rs w) (ToolPath (RoundPath rp k) (tc_Index tc)) = None"

lemma at_tool_assertion: "k \<le> turns r \<Longrightarrow> rt.assertion rp w0 r (at_tool w0 env r rp prompt k mr dn msgs tc)"
  using at_tools_assertion [of k r rp w0 env prompt mr dn msgs]
  unfolding rt.assertion_def at_tool_def by (auto simp: others_def)

lemma safe_run_tool:
  assumes k: "k \<le> turns r"
    and kont: "\<And>content. rt.safe rp w0 r (at_tools w0 env r rp prompt k mr (dn @ [tc]) (msgs @ [tool_turn (tc_ID tc) content])) (kont content)"
  shows "rt.safe rp w0 r (at_tool w0 env r rp prompt k mr dn msgs tc)
    (run_tool env c (ToolPath (RoundPath rp k) (tc_Index tc)) pol intent kont)"
proof -
  note A = at_tool_assertion [OF k]
  show ?thesis
    unfolding run_tool_def Let_def
  proof (rule rt.safe_retry [OF A], unfold case_prod_beta, rule rt.safe_opt)
    fix x :: "dispatch_result \<times> gerr option" assume "dr_ExitCode (fst x) = None"
    show "rt.safe rp w0 r (at_tool w0 env r rp prompt k mr dn msgs tc) (infra ''dispatch tool impl'')"
      by (rule rt.safe_infra [OF A])
  next
    fix x :: "dispatch_result \<times> gerr option" and e assume "dr_ExitCode (fst x) = Some e"
    let ?content = "boundToolResult e (dr_Stdout (fst x))"
    show "rt.safe rp w0 r (at_tool w0 env r rp prompt k mr dn msgs tc)
       (Commit env (ToolPath (RoundPath rp k) (tc_Index tc)) (tool_leaf (fst x) e ?content) False (\<lambda>r. case r of
          None \<Rightarrow> infra ''commit tool leaf''
        | Some nr \<Rightarrow> upd_rs (RecordCompleted (ToolPath (RoundPath rp k) (tc_Index tc)) nr) (kont ?content)))"
    proof (rule rt.safe_Commit [OF A], simp add: rt.safe_infra [OF A], simp)
      fix nr :: node_result assume "nr_Outputs nr = dr_Outputs (tool_leaf (fst x) e ?content)"
      then have "asString (out_field (nr_Outputs nr) ''content'') = ?content"
        by (simp add: tool_leaf_def out_field_def map_value_def map_nil_def asString_def)
      then show "rt.safe rp w0 r (at_tool w0 env r rp prompt k mr dn msgs tc)
          (upd_rs (RecordCompleted (ToolPath (RoundPath rp k) (tc_Index tc)) nr) (kont ?content))"
        by (intro rt.safe_upd_rs [OF A _ kont]) (auto simp: at_tool_def intro: at_tools_record)
    qed
  qed
qed

lemma safe_tool:
  assumes "k \<le> turns r"
    and "\<And>content. rt.safe rp w0 r (at_tools w0 env r rp prompt k mr (dn @ [tc]) (msgs @ [tool_turn (tc_ID tc) content])) (kont content)"
  shows "rt.safe rp w0 r (at_tool w0 env r rp prompt k mr dn msgs tc)
    (dispatchOneTool env c t (ToolPath (RoundPath rp k) (tc_Index tc)) tc kont)"
  unfolding dispatchOneTool_def Let_def
  by (intro rt.safe_reads rt.safe_sum rt.safe_infra at_tool_assertion safe_run_tool assms)

lemma safe_tools:
  assumes k: "k \<le> turns r"
    and kont: "\<And>msgs. rt.safe rp w0 r (at_tools w0 env r rp prompt k mr (dn @ tcs) msgs) (kont msgs)"
    and known: "\<And>tc. tc \<in> set tcs \<Longrightarrow> toolByName env r (tc_Name tc) \<noteq> None"
  shows "rt.safe rp w0 r (at_tools w0 env r rp prompt k mr dn msgs) (dispatchRoundTools env c r (RoundPath rp k) tcs msgs kont)"
  using kont known
proof (induction tcs arbitrary: dn msgs)
  case (Cons tc tcs)
  have rest: "rt.safe rp w0 r (at_tools w0 env r rp prompt k mr (dn @ [tc]) ms) (dispatchRoundTools env c r (RoundPath rp k) tcs ms kont)" for ms
    using Cons.IH [of "dn @ [tc]" ms] Cons.prems by simp
  obtain t where t: "toolByName env r (tc_Name tc) = Some t" using Cons.prems(2) [of tc] by auto
  show ?case
    unfolding dispatchRoundTools.simps Let_def
  proof (rule rt.safe_read [OF at_tools_assertion [OF k]])
    fix w assume w: "at_tools w0 env r rp prompt k mr dn msgs w"
    show "always (others rp) (talk w0 r rp) (case LookupCompleted (w_rs w) (ToolPath (RoundPath rp k) (tc_Index tc)) of
        None \<Rightarrow> (case toolByName env r (tc_Name tc) of
            None \<Rightarrow> dispatchRoundTools env c r (RoundPath rp k) tcs
              (msgs @ [tool_turn (tc_ID tc) (''error: unknown tool '' @ go_quote (tc_Name tc))]) kont
          | Some t \<Rightarrow> dispatchOneTool env c t (ToolPath (RoundPath rp k) (tc_Index tc)) tc
              (\<lambda>content. dispatchRoundTools env c r (RoundPath rp k) tcs (msgs @ [tool_turn (tc_ID tc) content]) kont))
      | Some nr \<Rightarrow> dispatchRoundTools env c r (RoundPath rp k) tcs (msgs @ [toolMessageFromLeaf (tc_ID tc) nr]) kont) w"
    proof (cases "LookupCompleted (w_rs w) (ToolPath (RoundPath rp k) (tc_Index tc))")
      case None
      then have "at_tool w0 env r rp prompt k mr dn msgs tc w" using w by (simp add: at_tool_def)
      moreover have "rt.safe rp w0 r (at_tool w0 env r rp prompt k mr dn msgs tc)
          (dispatchOneTool env c t (ToolPath (RoundPath rp k) (tc_Index tc)) tc
            (\<lambda>content. dispatchRoundTools env c r (RoundPath rp k) tcs (msgs @ [tool_turn (tc_ID tc) content]) kont))"
        by (rule safe_tool [OF k rest])
      ultimately show ?thesis using None t by (simp add: rt.safe_def)
    next
      case (Some nr)
      then show ?thesis using rest at_tools_snoc [OF w Some] by (simp add: rt.safe_def)
    qed
  qed
qed simp

text \<open>The terminal is not a leaf.\<close>

lemma safe_terminal:
  assumes A: "rt.assertion rp w0 r A"
  shows "rt.safe rp w0 r A (commitTerminal env rc rp mr reason)"
proof -
  have "rt.safe rp w0 r A (upd_rs (RecordCompleted rp nr) (Ret v))" for nr v
  proof (rule rt.safe_upd_rs [OF A _ rt.safe_Ret [OF A]])
    fix w assume "A w"
    moreover have "others rp w (w\<lparr>w_rs := RecordCompleted rp nr (w_rs w)\<rparr>)"
      by (auto simp: others_def LookupReactRounds_def RecordCompleted_def LookupCompleted_def)
    ultimately show "A (w\<lparr>w_rs := RecordCompleted rp nr (w_rs w)\<rparr>)" using A by (auto simp: rt.assertion_def)
  qed
  then show ?thesis
    unfolding commitTerminal_def
    by (intro rt.safe_opt rt.safe_failStep rt.safe_Commit A) (auto intro: rt.safe_infra A)
qed

lemma safe_close:
  assumes k: "1 \<le> k" "k \<le> turns r" and p: "rt.safe rp w0 r (at_round w0 env r rp prompt (k + 1) msgs) p"
  shows "rt.safe rp w0 r (at_tools w0 env r rp prompt k mr (mo_ToolCalls mr) msgs) (closeRound env rp k p)"
proof -
  note A = at_tools_assertion [OF k(2)]
  have "rt.safe rp w0 r (at_tools w0 env r rp prompt k mr (mo_ToolCalls mr) msgs) (upd_rs (RecordReactRound rp k) p)"
  proof (rule rt.safe_upd_rs [OF A _ p])
    fix w :: world let ?rs = "RecordReactRound rp k (w_rs w)"
    assume "at_tools w0 env r rp prompt k mr (mo_ToolCalls mr) msgs w"
    then obtain pre nr mr' ts where t: "known_leaves env r rp (w_rs w)" "conversed w0 prompt rp (k + 1) w"
      "replayMessages prompt rp (w_rs w) k = Some pre"
      "LookupCompleted (w_rs w) (ModelPath (RoundPath rp k)) = Some nr" "roundResultFromLeaf nr = Some mr'"
      "mo_Text mr' = mo_Text mr" "mo_ToolCalls mr' = mo_ToolCalls mr"
      "replay_tools (w_rs w) (RoundPath rp k) (mo_ToolCalls mr) = Some ts" "msgs = pre @ buildAssistantTurn mr # ts"
      unfolding at_tools_def by blast
    have e: "extends rp (w_rs w) ?rs" and l: "LookupCompleted ?rs q = LookupCompleted (w_rs w) q" for q
      by (auto simp: extends_def LookupCompleted_def RecordReactRound_def)
    have "replayMessages prompt rp (w_rs w) (k + 1) = Some msgs"
      using replay_snoc [OF t(3) k(1) t(4,5)] t(6-9) by (simp add: buildAssistantTurn_def)
    then show "at_round w0 env r rp prompt (k + 1) msgs (w\<lparr>w_rs := ?rs\<rparr>)"
      using t(1) conversed_mono [OF t(2), of "w\<lparr>w_rs := ?rs\<rparr>" "k + 1"] replay_mono [OF _ e] e
      by (simp add: at_round_def known_leaves_def l)
  qed
  then show ?thesis
    unfolding closeRound_def by (intro rt.safe_append rt.safe_sync rt.safe_if rt.safe_infra A)
qed

lemma safe_answer:
  assumes k: "1 \<le> k" "k \<le> turns r"
    and p: "\<And>ms. k < turns r \<Longrightarrow> rt.safe rp w0 r (at_round w0 env r rp prompt (k + 1) ms) (p ms)"
    and known: "\<And>tc. tc \<in> set (mo_ToolCalls mr) \<Longrightarrow> toolByName env r (tc_Name tc) \<noteq> None"
  shows "rt.safe rp w0 r (at_tools w0 env r rp prompt k mr [] (msgs @ [buildAssistantTurn mr]))
    (react_answer env c r rp (turns r) k msgs mr p)"
proof -
  note A = at_tools_assertion [OF k(2)]
  show ?thesis
    unfolding react_answer_def
  proof (intro rt.safe_if safe_terminal A safe_tools k(2))
    assume "k \<noteq> turns r"
    then show "rt.safe rp w0 r (at_tools w0 env r rp prompt k mr ([] @ mo_ToolCalls mr) ms) (closeRound env rp k (p ms))" for ms
      using k p by (simp add: safe_close)
  qed (use known in blast)
qed

text \<open>The commit of a model answer, and the answer of a leaf that is there.\<close>

lemma at_tools_model:
  assumes "known_answers env r" "e_runToolLoop env t iv = Inr mr" "nr_Outputs nr = Some (modelLeafOutputs mr)"
    and "known_leaves env r rp (w_rs w)" "conversed w0 prompt rp (k + 1) w" "replayMessages prompt rp (w_rs w) k = Some msgs"
    and "LookupCompleted (w_rs w) (ModelPath (RoundPath rp k)) = None"
  shows "at_tools w0 env r rp prompt k mr [] (msgs @ [buildAssistantTurn mr])
    (w\<lparr>w_rs := RecordCompleted (ModelPath (RoundPath rp k)) nr (w_rs w)\<rparr>)"
proof -
  let ?w = "w\<lparr>w_rs := RecordCompleted (ModelPath (RoundPath rp k)) nr (w_rs w)\<rparr>"
  have e: "extends rp (w_rs w) (w_rs ?w)" using assms(7) by (simp add: record_extends)
  obtain mr' where mr': "roundResultFromLeaf nr = Some mr'" "mo_Text mr' = mo_Text mr" "mo_ToolCalls mr' = mo_ToolCalls mr"
    using model_leaf_read_back [OF assms(3)] by blast
  have "known_leaves env r rp (w_rs ?w)"
    using assms(1,2,4) mr' unfolding known_leaves_def known_answers_def by (auto split: if_splits)
  moreover have "conversed w0 prompt rp (k + 1) ?w" using conversed_mono [OF assms(5) e] by simp
  moreover have "replayMessages prompt rp (w_rs ?w) k = Some msgs" by (rule replay_mono [OF assms(6) e])
  ultimately show ?thesis unfolding at_tools_def using mr' by simp
qed

text \<open>A round whose model leaf is missing, with the call made.\<close>

definition at_model :: "world \<Rightarrow> engine_env \<Rightarrow> react_spec \<Rightarrow> string \<Rightarrow> string \<Rightarrow> int \<Rightarrow> react_turn list \<Rightarrow> world \<Rightarrow> bool" where
  "at_model w0 env r rp prompt k msgs w \<longleftrightarrow> known_leaves env r rp (w_rs w) \<and> conversed w0 prompt rp (k + 1) w
     \<and> replayMessages prompt rp (w_rs w) k = Some msgs \<and> LookupCompleted (w_rs w) (ModelPath (RoundPath rp k)) = None"

lemma at_model_assertion:
  assumes "k \<le> turns r" shows "rt.assertion rp w0 r (at_model w0 env r rp prompt k msgs)"
proof -
  have "at_model w0 env r rp prompt k msgs w'" if "at_model w0 env r rp prompt k msgs w" "others rp w w'" for w w'
  proof -
    have m: "model_calls rp (w_trace w') = model_calls rp (w_trace w)" and e: "extends rp (w_rs w) (w_rs w')"
      and l: "LookupCompleted (w_rs w') (ModelPath (RoundPath rp k)) = LookupCompleted (w_rs w) (ModelPath (RoundPath rp k))"
      using that(2) others_extends by (auto simp: others_def)
    then show ?thesis
      using that conversed_mono [OF _ e order_refl m] replay_mono [OF _ e] known_others [OF _ that(2)]
      by (auto simp: at_model_def)
  qed
  moreover have "talk w0 r rp w" if "at_model w0 env r rp prompt k msgs w" for w
    using that assms conversed_talk [of w0 prompt rp "k + 1" w r] by (simp add: at_model_def)
  ultimately show ?thesis unfolding rt.assertion_def by blast
qed

text \<open>One round, given that the rounds after it are safe.\<close>

lemma at_model_called:
  assumes "1 \<le> k" "at_round w0 env r rp prompt k msgs w" "LookupCompleted (w_rs w) (ModelPath (RoundPath rp k)) = None"
    and "iv = buildToolLoopInvocation env r (ModelPath (RoundPath rp k)) msgs"
  shows "at_model w0 env r rp prompt k msgs ((ticked w)\<lparr>w_trace := w_trace w @ [ModelCalled iv]\<rparr>)"
proof -
  have "LookupCompleted (w_rs w0) (ModelPath (RoundPath rp k)) = None"
    using assms(2,3) by (auto simp: at_round_def conversed_def extends_def) (metis below_paths(1) not_None_eq)
  then show ?thesis
    using assms conversed_call [of w0 prompt rp k w iv]
    by (simp add: at_round_def at_model_def call_ok_def buildToolLoopInvocation_def ticked_def)
qed

lemma safe_model_leaf:
  assumes k: "1 \<le> k" "k \<le> turns r" and known: "known_answers env r" and mr: "e_runToolLoop env t iv = Inr mr"
    and ans: "rt.safe rp w0 r (at_tools w0 env r rp prompt k mr [] (msgs @ [buildAssistantTurn mr])) p"
  shows "rt.safe rp w0 r (at_model w0 env r rp prompt k msgs) (commitModelLeaf env (ModelPath (RoundPath rp k)) mr p)"
  unfolding commitModelLeaf_def
proof (rule rt.safe_Commit [OF at_model_assertion [OF k(2)]], simp add: rt.safe_infra at_model_assertion [OF k(2)], simp)
  fix nr :: node_result assume "nr_Outputs nr = Some (modelLeafOutputs mr)"
  then show "rt.safe rp w0 r (at_model w0 env r rp prompt k msgs) (upd_rs (RecordCompleted (ModelPath (RoundPath rp k)) nr) p)"
    using at_tools_model [OF known mr]
    by (intro rt.safe_upd_rs [OF at_model_assertion [OF k(2)] _ ans]) (auto simp: at_model_def)
qed

lemma safe_model:
  assumes k: "1 \<le> k" "k \<le> turns r" and iv: "iv = buildToolLoopInvocation env r (ModelPath (RoundPath rp k)) msgs"
    and p: "\<And>t. rt.safe rp w0 r (at_model w0 env r rp prompt k msgs) (p (e_runToolLoop env t iv))"
  shows "rt.safe rp w0 r (\<lambda>w. at_round w0 env r rp prompt k msgs w \<and> LookupCompleted (w_rs w) (ModelPath (RoundPath rp k)) = None)
    (run_model env iv p)" (is "rt.safe _ _ _ ?A _")
  unfolding run_model_def
proof (rule rt.safe_Act)
  show "rt.assertion rp w0 r ?A"
    using at_round_assertion [of k r rp w0 env prompt msgs] k(2) unfolding rt.assertion_def by (auto simp: others_def)
next
  fix w q w' assume "?A w" and "(p (e_runToolLoop env (w_tick w) iv), (ticked w)\<lparr>w_trace := w_trace w @ [ModelCalled iv]\<rparr>) = (q, w')"
  then show "always (others rp) (talk w0 r rp) q w'"
    using p [of "w_tick w"] at_model_called [OF k(1) _ _ iv] by (auto simp: rt.safe_def)
qed

lemma safe_round:
  assumes k: "1 \<le> k" "k \<le> turns r" and known: "known_answers env r"
    and p: "\<And>ms. k < turns r \<Longrightarrow> rt.safe rp w0 r (at_round w0 env r rp prompt (k + 1) ms)
      (react_from n env c r rp (turns r) (k + 1) ms)"
  shows "rt.safe rp w0 r (at_round w0 env r rp prompt k msgs) (react_from (Suc n) env c r rp (turns r) k msgs)"
proof -
  let ?mp = "ModelPath (RoundPath rp k)"
  let ?iv = "buildToolLoopInvocation env r ?mp msgs"
  let ?p = "\<lambda>mr. react_answer env c r rp (turns r) k msgs mr (react_from n env c r rp (turns r) (k + 1))"
  have ans: "rt.safe rp w0 r (at_tools w0 env r rp prompt k mr [] (msgs @ [buildAssistantTurn mr])) (?p mr)"
    if "\<And>tc. tc \<in> set (mo_ToolCalls mr) \<Longrightarrow> toolByName env r (tc_Name tc) \<noteq> None" for mr
    by (rule safe_answer [OF k p that])
  note A = at_model_assertion [OF k(2)]
  have model: "rt.safe rp w0 r (\<lambda>w. at_round w0 env r rp prompt k msgs w \<and> LookupCompleted (w_rs w) ?mp = None)
      (run_model env ?iv (\<lambda>res. case res of
         Inl Unparseable \<Rightarrow> failStep env rp OutcomeRetryableFailure (Some (ErrCause ''unparseable output''))
       | Inl ModelFailed \<Rightarrow> infra ''model call''
       | Inr mr \<Rightarrow> commitModelLeaf env ?mp mr (?p mr)))"
    by (rule safe_model [OF k refl])
      (use known in \<open>auto simp: known_answers_def intro!: rt.safe_failStep rt.safe_infra A safe_model_leaf [OF k known] ans
        split: sum.split model_error.split\<close>)
  show ?thesis
    unfolding react_from.simps Let_def
  proof (rule rt.safe_read [OF at_round_assertion])
    fix w assume w: "at_round w0 env r rp prompt k msgs w"
    have "at_tools w0 env r rp prompt k mr [] (msgs @ [buildAssistantTurn mr]) w"
      and "tc \<in> set (mo_ToolCalls mr) \<Longrightarrow> toolByName env r (tc_Name tc) \<noteq> None"
      if "LookupCompleted (w_rs w) ?mp = Some nr" "roundResultFromLeaf nr = Some mr" for nr mr tc
      using w that conversed_mono [of w0 prompt rp k w w "k + 1"] unfolding at_round_def at_tools_def known_leaves_def
      by (simp, blast)
    then show "always (others rp) (talk w0 r rp) (case LookupCompleted (w_rs w) ?mp of
        None \<Rightarrow> run_model env ?iv (\<lambda>res. case res of
             Inl Unparseable \<Rightarrow> failStep env rp OutcomeRetryableFailure (Some (ErrCause ''unparseable output''))
           | Inl ModelFailed \<Rightarrow> infra ''model call''
           | Inr mr \<Rightarrow> commitModelLeaf env ?mp mr (?p mr))
      | Some nr \<Rightarrow> (case roundResultFromLeaf nr of None \<Rightarrow> infra ''read model leaf'' | Some mr \<Rightarrow> ?p mr)) w"
      using w model ans rt.safe_infra [OF at_round_assertion [of k r rp w0 env prompt msgs]] k(2)
      by (auto simp: rt.safe_def split: option.split)
  qed (use k in simp)
qed

lemma safe_react_from:
  assumes "known_answers env r" and "1 \<le> k" and "k + int n = turns r + 1"
  shows "rt.safe rp w0 r (at_round w0 env r rp prompt k msgs) (react_from n env c r rp (turns r) k msgs)"
  using assms(2,3)
proof (induction n arbitrary: k msgs)
  case 0
  then show ?case by (simp add: rt.safe_infra at_round_assertion)
next
  case (Suc n)
  then show ?case by (intro safe_round assms(1)) auto
qed

subsection \<open>The whole step\<close>

definition before_calls :: "world \<Rightarrow> engine_env \<Rightarrow> react_spec \<Rightarrow> string \<Rightarrow> world \<Rightarrow> bool" where
  "before_calls w0 env r rp w \<longleftrightarrow> others rp w0 w \<and> known_leaves env r rp (w_rs w0)"

lemma before_conversed: "before_calls w0 env r rp w \<Longrightarrow> conversed w0 prompt rp m w"
  unfolding before_calls_def
  by (rule conversed_mono [OF conversed_start]) (auto simp: others_extends others_def)

lemma before_assertion: "rt.assertion rp w0 r (before_calls w0 env r rp)"
  unfolding rt.assertion_def
  by (auto simp: talk_def intro: before_conversed) (auto simp: before_calls_def others_def)

lemma safe_runReact:
  assumes "known_answers env r"
  shows "rt.safe rp w0 r (before_calls w0 env r rp) (runReact env c r rp)"
proof -
  note A = before_assertion
  have loop: "always (others rp) (talk w0 r rp) (case replayMessages prompt rp (w_rs w) k of
        None \<Rightarrow> infra ''replay'' | Some msgs \<Rightarrow> react_from (nat (turns r + 1 - k)) env c r rp (turns r) k msgs) w"
    if w: "before_calls w0 env r rp w" and k: "1 \<le> k" for w prompt k
  proof (cases "replayMessages prompt rp (w_rs w) k")
    case None
    then show ?thesis using w rt.safe_infra [OF A] by (simp add: rt.safe_def)
  next
    case (Some msgs)
    show ?thesis
    proof (cases "k \<le> turns r")
      case True
      have "at_round w0 env r rp prompt k msgs w"
        using w Some known_others before_conversed [OF w] by (auto simp: at_round_def before_calls_def)
      moreover have "rt.safe rp w0 r (at_round w0 env r rp prompt k msgs)
          (react_from (nat (turns r + 1 - k)) env c r rp (turns r) k msgs)"
        using True k by (intro safe_react_from assms) auto
      ultimately show ?thesis using Some by (simp add: rt.safe_def)
    next
      case False
      then show ?thesis using Some w rt.safe_infra [OF A] by (simp add: rt.safe_def)
    qed
  qed
  show ?thesis
    unfolding runReact_def appendNodeStarted_def Let_def turns_def [symmetric]
    by (intro rt.safe_reads rt.safe_if rt.safe_append rt.safe_sum rt.safe_infra rt.safe_Ret rt.safe_failStep A
        rt.safe_read [OF A loop]) auto
qed

subsection \<open>Properties\<close>

text \<open>
  C17: The conversation of a react step survives crashes. At every moment of an execution of the step,
  whatever the rest of the run does meanwhile, the model calls made so far are for increasing rounds
  within the turn limit, none for a round whose answer was already committed when the execution
  began, and the messages of each are exactly those a resume would rebuild from the committed leaves.
  This holds when the model asks only for tools the step has.
\<close>

theorem model_sees_the_recorded_conversation:
  assumes "steps (others rp) (runReact env c r rp, w0) (p, w)"
    and "known_answers env r" and "known_leaves env r rp (w_rs w0)"
  shows "\<exists>prompt ks ivs. model_calls rp (w_trace w) = model_calls rp (w_trace w0) @ ivs
    \<and> sorted_wrt (<) ks
    \<and> (\<forall>k \<in> set ks. 1 \<le> k \<and> k \<le> turns r \<and> LookupCompleted (w_rs w0) (ModelPath (RoundPath rp k)) = None)
    \<and> list_all2 (\<lambda>k iv. ti_NodePath iv = ModelPath (RoundPath rp k)
         \<and> replayMessages prompt rp (w_rs w) k = Some (ti_Messages iv)) ks ivs"
proof -
  have "before_calls w0 env r rp w0" using assms(3) by (simp add: before_calls_def rt.R_refl)
  then have "always (others rp) (talk w0 r rp) (runReact env c r rp) w0"
    using safe_runReact [OF assms(2)] by (simp add: rt.safe_def)
  then have "talk w0 r rp w" by (rule rt.always_steps [OF assms(1)])
  then show ?thesis
    unfolding talk_def conversed_def call_ok_def by (fastforce simp: list_all_iff)
qed

definition chat_spec :: react_spec where
  "chat_spec = \<lparr>rc_ID = [], rc_With = [(''uses'', VString ''m'')], rc_Prompt = [], rc_Tools = [], rc_MaxTurns = 0, rc_OutputSchema = None\<rparr>"

text \<open>A model that answers at once.\<close>

definition chat_env :: engine_env where
  "chat_env = (demo_env [])\<lparr>e_local := True, e_runToolLoop := (\<lambda>_ _. Inr \<lparr>mo_Text = ''hi'', mo_Output = None, mo_ToolCalls = [],
     mo_FinishReason = ''stop''\<rparr>)\<rparr>"

theorem model_sees_the_recorded_conversation_witness:
  "\<exists>prompt ks ivs. model_calls ''r'' (w_trace (snd (exec (runReact chat_env [] chat_spec ''r'') demo_world))) = ivs
    \<and> list_all2 (\<lambda>k iv. 1 \<le> k \<and> k \<le> 8 \<and> replayMessages prompt ''r'' (w_rs (snd (exec (runReact chat_env [] chat_spec ''r'') demo_world))) k
         = Some (ti_Messages iv)) ks ivs"
proof -
  have "known_answers chat_env chat_spec" by (auto simp: known_answers_def chat_env_def)
  moreover have "known_leaves chat_env chat_spec ''r'' (w_rs demo_world)"
    by (simp add: known_leaves_def demo_world_def LookupCompleted_def zero_state_def)
  moreover have "model_calls ''r'' (w_trace demo_world) = []" by (simp add: demo_world_def)
  ultimately obtain prompt ks ivs where
    i: "model_calls ''r'' (w_trace (snd (exec (runReact chat_env [] chat_spec ''r'') demo_world))) = ivs"
    and k: "\<forall>k \<in> set ks. 1 \<le> k \<and> k \<le> turns chat_spec"
    and l: "list_all2 (\<lambda>k iv. ti_NodePath iv = ModelPath (RoundPath ''r'' k)
       \<and> replayMessages prompt ''r'' (w_rs (snd (exec (runReact chat_env [] chat_spec ''r'') demo_world))) k = Some (ti_Messages iv)) ks ivs"
    using model_sees_the_recorded_conversation [OF exec_steps, where rp = "''r''" and env = chat_env and c = "[]"
      and r = chat_spec and ?w0.0 = demo_world] by auto
  have "turns chat_spec = 8" by (simp add: turns_def chat_spec_def defaultMaxTurns_def)
  with k l have "list_all2 (\<lambda>k iv. 1 \<le> k \<and> k \<le> 8 \<and> replayMessages prompt ''r'' (w_rs (snd (exec (runReact chat_env [] chat_spec ''r'') demo_world))) k
         = Some (ti_Messages iv)) ks ivs"
    by (auto simp: list_all2_conv_all_nth)
  with i show ?thesis by blast
qed

lemma fs_Put_NoFault: "fs_Put NoFault c b = (Inr (RefFor c), snd (fs_Put NoFault c b))"
  by (simp add: fs_Put_def hashAndRef_def RefFor_def Let_def)

lemma exec_put_NoFault:
  "e_put env (w_tick w) = NoFault \<Longrightarrow>
   exec (blob_put env content k) w = exec (k (Some (RefFor content))) ((ticked w)\<lparr>w_blobs := snd (fs_Put NoFault content (w_blobs w))\<rparr>)"
  by (subst blob_put_def) (simp add: exec_Act, subst fs_Put_NoFault, simp)

text \<open>A round whose call has no leaf cannot be rebuilt.\<close>

lemma no_replay:
  assumes "LookupCompleted (w_rs w) rp = None" and "length (LookupReactRounds (w_rs w) rp) = 1"
    and "replay_rounds 1 (w_rs w) rp 1 = None" and "rc_Prompt r = []"
  shows "fst (exec (runReact env c r rp) w) \<noteq> (OutcomeOK, None)
    \<and> w_trace (snd (exec (runReact env c r rp) w)) = w_trace w"
proof -
  have "replayMessages [] rp (w_rs w) 2 = None" using assms(3) by (simp add: replayMessages_def)
  then show ?thesis
    using assms(1,2,4)
    by (simp add: runReact_def appendNodeStarted_def exec_calls exec_infra empty_templates Let_def ticked_def)
qed

definition leaf_result :: "goval \<Rightarrow> string \<Rightarrow> node_result" where
  "leaf_result v ref = \<lparr>nr_Outcome = OutcomeOK, nr_ExitCode = None, nr_Outputs = Some v, nr_OutputsRef = ref, nr_Stdout = None,
     nr_StdoutRef = [], nr_Files = [], nr_Transcript = None, nr_NodeKey = [], nr_SubtreeDigest = []\<rparr>"

text \<open>A model that asks for a tool the step does not have, and then is not reachable.\<close>

definition lost_answer :: model_result where
  "lost_answer = \<lparr>mo_Text = [], mo_Output = None,
     mo_ToolCalls = [\<lparr>tc_Index = 0, tc_ID = ''c'', tc_Name = ''search'', tc_Arguments = ''{}''\<rparr>], mo_FinishReason = ''tool_calls''\<rparr>"

definition lost_env :: engine_env where
  "lost_env = chat_env\<lparr>e_runToolLoop := (\<lambda>_ iv. if length (ti_Messages iv) = 1 then Inr lost_answer else Inl ModelFailed)\<rparr>"

lemma lost_env_sel [simp]:
  "e_append lost_env t" "e_sync lost_env t" "e_put lost_env t = NoFault" "toolLoopRunnerFor lost_env chat_spec"
  "e_runToolLoop lost_env t iv = (if length (ti_Messages iv) = 1 then Inr lost_answer else Inl ModelFailed)"
  "toolByName lost_env chat_spec n = None"
  by (simp_all add: lost_env_def chat_env_def chat_spec_def demo_env_def toolLoopRunnerFor_def toolByName_def)

lemma lost_commit:
  "\<exists>ref w'. w_rs w' = w_rs w \<and> exec (Commit lost_env path (zero_dispatch\<lparr>dr_Outcome := OutcomeOK, dr_Outputs := Some (VObject kvs)\<rparr>) False k) w
     = exec (k (Some (leaf_result (VObject kvs) ref))) w'"
proof -
  let ?c = "json_encode (VObject kvs)"
  let ?w = "w\<lparr>w_log := w_log w @ [\<lparr>jPath = path, jData = NodeCompleted \<lparr>nc_Outcome = outcome_string OutcomeOK, nc_ExitCode = None,
      nc_OutputsRef = RefFor ?c, nc_StdoutRef = [], nc_Files = [], nc_SnapshotRef = [], nc_Container = [], nc_TranscriptRef = [],
      nc_NodeKey = [], nc_SubtreeDigest = [], nc_SessionRef = []\<rparr>\<rparr>], w_tick := w_tick w + 3,
      w_synced := Suc (length (w_log w)), w_blobs := snd (fs_Put NoFault ?c (w_blobs w))\<rparr>"
  have "exec (Commit lost_env path (zero_dispatch\<lparr>dr_Outcome := OutcomeOK, dr_Outputs := Some (VObject kvs)\<rparr>) False k) w
     = exec (k (Some (leaf_result (VObject kvs) (RefFor ?c)))) ?w"
    by (cases w) (simp add: Commit_def put_if_def commit_result_def node_keys_def appendNodeCompleted_def exec_put_NoFault
        exec_calls zero_dispatch_def map_nil_def map_value_def leaf_result_def Let_def ticked_def numeral_eq_Suc
        del: json_encode.simps)
  then show ?thesis by (intro exI [of _ "RefFor ?c"] exI [of _ ?w]) simp
qed

lemma lost_leaf:
  "\<exists>ref w'. w_rs w' = RecordCompleted path (leaf_result (modelLeafOutputs mr) ref) (w_rs w)
     \<and> exec (commitModelLeaf lost_env path mr p) w = exec p w'"
proof -
  obtain kvs where v: "modelLeafOutputs mr = VObject kvs" by (simp add: modelLeafOutputs_def)
  let ?k = "\<lambda>r. case r of None \<Rightarrow> infra ''commit model leaf'' | Some nr \<Rightarrow> upd_rs (RecordCompleted path nr) p"
  obtain ref w' where "w_rs w' = w_rs w" "exec (commitModelLeaf lost_env path mr p) w = exec (?k (Some (leaf_result (VObject kvs) ref))) w'"
    using lost_commit [of w path kvs ?k] unfolding commitModelLeaf_def v by blast
  then show ?thesis
    unfolding v by (intro exI [of _ ref] exI [of _ "w'\<lparr>w_rs := RecordCompleted path (leaf_result (VObject kvs) ref) (w_rs w')\<rparr>"])
      (simp add: exec_calls)
qed

lemma lost_second_round:
  assumes "LookupCompleted (w_rs w) (ModelPath (RoundPath ''r'' 2)) = None" and "length msgs \<noteq> 1"
  shows "\<exists>w'. w_rs w' = w_rs w
    \<and> exec (react_from (Suc n) lost_env [] chat_spec ''r'' 8 2 msgs) w = ((NoOutcome, Some (ErrInfra ''model call'')), w')"
  using assms
  by (simp add: run_model_def exec_Act exec_infra buildToolLoopInvocation_def Let_def) (simp add: ticked_def)

lemma lost_close:
  assumes "LookupCompleted (w_rs w) (ToolPath (RoundPath ''r'' 1) 0) = None"
  shows "\<exists>msgs w'. length msgs = 3 \<and> w_rs w' = RecordReactRound ''r'' 1 (w_rs w)
    \<and> exec (react_answer lost_env [] chat_spec ''r'' 8 1 [turn ''user'' []] lost_answer p) w = exec (p msgs) w'"
proof -
  let ?msgs = "[turn ''user'' [], buildAssistantTurn lost_answer, tool_turn ''c'' (''error: unknown tool '' @ go_quote ''search'')]"
  let ?w = "w\<lparr>w_rs := RecordReactRound ''r'' 1 (w_rs w), w_log := w_log w @ [\<lparr>jPath = ''r'', jData = ReactRound 1\<rparr>],
      w_synced := Suc (length (w_log w)), w_tick := Suc (Suc (w_tick w))\<rparr>"
  have calls: "mo_ToolCalls lost_answer = [\<lparr>tc_Index = 0, tc_ID = ''c'', tc_Name = ''search'', tc_Arguments = ''{}''\<rparr>]"
      "mo_FinishReason lost_answer = ''tool_calls''" by (simp_all add: lost_answer_def)
  have "exec (closeRound lost_env ''r'' 1 q) w = exec q ?w" for q
    by (cases w) (simp add: closeRound_def exec_calls ticked_def)
  then have "exec (react_answer lost_env [] chat_spec ''r'' 8 1 [turn ''user'' []] lost_answer p) w = exec (p ?msgs) ?w"
    using assms by (simp add: react_answer_def calls Let_def)
  then show ?thesis by (intro exI [of _ ?msgs] exI [of _ ?w]) simp
qed

lemma lost_first_round:
  assumes "LookupCompleted (w_rs w) (ModelPath (RoundPath ''r'' 1)) = None" "LookupCompleted (w_rs w) (ToolPath (RoundPath ''r'' 1) 0) = None"
    and "LookupCompleted (w_rs w) (ModelPath (RoundPath ''r'' 2)) = None"
  shows "\<exists>ref w'. w_rs w' = RecordReactRound ''r'' 1 (RecordCompleted (ModelPath (RoundPath ''r'' 1))
        (leaf_result (modelLeafOutputs lost_answer) ref) (w_rs w))
    \<and> exec (react_from (Suc (Suc n)) lost_env [] chat_spec ''r'' 8 1 [turn ''user'' []]) w = ((NoOutcome, Some (ErrInfra ''model call'')), w')"
proof -
  let ?mp = "ModelPath (RoundPath ''r'' 1)"
  let ?v = "modelLeafOutputs lost_answer"
  let ?iv = "buildToolLoopInvocation lost_env chat_spec ?mp [turn ''user'' []]"
  let ?p = "react_answer lost_env [] chat_spec ''r'' 8 1 [turn ''user'' []] lost_answer (react_from (Suc n) lost_env [] chat_spec ''r'' 8 2)"
  let ?w1 = "(ticked w)\<lparr>w_trace := w_trace w @ [ModelCalled ?iv]\<rparr>"
  have "exec (react_from (Suc (Suc n)) lost_env [] chat_spec ''r'' 8 1 [turn ''user'' []]) w = exec (commitModelLeaf lost_env ?mp lost_answer ?p) ?w1"
    using assms(1) by (simp add: run_model_def exec_Act buildToolLoopInvocation_def Let_def)
  moreover obtain ref w2 where w2: "w_rs w2 = RecordCompleted ?mp (leaf_result ?v ref) (w_rs w)"
      "exec (commitModelLeaf lost_env ?mp lost_answer ?p) ?w1 = exec ?p w2"
    using lost_leaf [of ?mp lost_answer ?w1 ?p] by (auto simp: ticked_def)
  moreover obtain msgs w3 where w3: "length msgs = 3" "w_rs w3 = RecordReactRound ''r'' 1 (w_rs w2)"
      "exec ?p w2 = exec (react_from (Suc n) lost_env [] chat_spec ''r'' 8 2 msgs) w3"
    using lost_close [of w2 "react_from (Suc n) lost_env [] chat_spec ''r'' 8 2"] assms(2) w2(1) by auto
  moreover have "LookupCompleted (w_rs w3) (ModelPath (RoundPath ''r'' 2)) = None"
    using assms(3) w2(1) w3(2) itoa_inj [of 2 1] by (auto simp: ModelPath_def RoundPath_def LookupCompleted_def RecordReactRound_def RecordCompleted_def)
  then obtain w' where "w_rs w' = w_rs w3"
      "exec (react_from (Suc n) lost_env [] chat_spec ''r'' 8 2 msgs) w3 = ((NoOutcome, Some (ErrInfra ''model call'')), w')"
    using lost_second_round [of w3 msgs n] w3(1) by auto
  ultimately show ?thesis by (intro exI [of _ ref] exI [of _ w']) simp
qed

lemma chat_prompt: "rc_Prompt chat_spec = []" "rc_MaxTurns chat_spec = 0"
  by (simp_all add: chat_spec_def)

lemma lost_run:
  "\<exists>w1 ref. exec (runReact lost_env [] chat_spec ''r'') demo_world = ((NoOutcome, Some (ErrInfra ''model call'')), w1)
     \<and> w_rs w1 = RecordReactRound ''r'' 1 (RecordCompleted (ModelPath (RoundPath ''r'' 1))
         (leaf_result (modelLeafOutputs lost_answer) ref) (w_rs demo_world))"
proof -
  let ?w = "(ticked demo_world)\<lparr>w_log := w_log demo_world @ [\<lparr>jPath = ''r'', jData = NodeStarted ''react''\<rparr>]\<rparr>"
  have empty: "LookupCompleted (w_rs demo_world) q = None" "LookupReactRounds (w_rs demo_world) q = []" for q
    by (simp_all add: demo_world_def zero_state_def LookupCompleted_def LookupReactRounds_def pm_list_def)
  have "exec (runReact lost_env [] chat_spec ''r'') demo_world
      = exec (react_from (Suc (Suc 6)) lost_env [] chat_spec ''r'' 8 1 [turn ''user'' []]) ?w"
    by (simp add: runReact_def appendNodeStarted_def exec_calls empty ticked_def replayMessages_def defaultMaxTurns_def
        chat_prompt empty_templates numeral_eq_Suc del: react_from.simps)
  then show ?thesis using lost_first_round [of ?w 6] empty by (fastforce simp: ticked_def)
qed

text \<open>
  C22: A react step that was once answered with a request for a tool it does not have cannot be
  resumed. The step tells the model that the tool is unknown and closes the round without a leaf for
  the call. When it is interrupted later, every further execution of the step, with any model,
  dispatcher and store, ends with an error before the model is called.
\<close>

theorem unknown_tool_breaks_resume:
  "\<exists>w1. exec (runReact lost_env [] chat_spec ''r'') demo_world = ((NoOutcome, Some (ErrInfra ''model call'')), w1)
     \<and> LookupReactRounds (w_rs w1) ''r'' = [1]
     \<and> (\<forall>env c. fst (exec (runReact env c chat_spec ''r'') w1) \<noteq> (OutcomeOK, None)
          \<and> w_trace (snd (exec (runReact env c chat_spec ''r'') w1)) = w_trace w1)"
proof -
  obtain w1 ref where w1: "exec (runReact lost_env [] chat_spec ''r'') demo_world = ((NoOutcome, Some (ErrInfra ''model call'')), w1)"
      "w_rs w1 = RecordReactRound ''r'' 1 (RecordCompleted (ModelPath (RoundPath ''r'' 1))
         (leaf_result (modelLeafOutputs lost_answer) ref) (w_rs demo_world))"
    using lost_run by blast
  have comp: "LookupCompleted (w_rs w1) q = (if q = ModelPath (RoundPath ''r'' 1) then Some (leaf_result (modelLeafOutputs lost_answer) ref) else None)"
    and rounds: "LookupReactRounds (w_rs w1) ''r'' = [1]" for q
    by (auto simp: w1(2) demo_world_def zero_state_def LookupCompleted_def RecordCompleted_def LookupReactRounds_def RecordReactRound_def)
      (simp add: pm_list_def)
  obtain mr where mr: "roundResultFromLeaf (leaf_result (modelLeafOutputs lost_answer) ref) = Some mr" "mo_ToolCalls mr = mo_ToolCalls lost_answer"
    using model_leaf_read_back [of "leaf_result (modelLeafOutputs lost_answer) ref" lost_answer] by (auto simp: leaf_result_def)
  have "replay_rounds 1 (w_rs w1) ''r'' 1 = None"
    using mr by (simp add: comp) (simp add: lost_answer_def comp)
  moreover have "''r'' \<noteq> ModelPath (RoundPath ''r'' 1)" by (simp add: ModelPath_def RoundPath_def)
  ultimately show ?thesis
    using w1(1) rounds no_replay [of w1 "''r''" chat_spec] comp by (auto simp: chat_spec_def)
qed

lemma schema_miss_once:
  assumes "LookupCompleted (w_rs w) rp = None" and "int (length (LookupReactRounds (w_rs w) rp)) + 1 = k" and "k \<le> turns r"
    and "LookupCompleted (w_rs w) (ModelPath (RoundPath rp k)) = Some nr" and "roundResultFromLeaf nr = Some mr"
    and "mo_FinishReason mr \<noteq> ''tool_calls''" and "terminal_output env r mr ''stop'' = None"
  shows "w_rs (snd (exec (runReact env c r rp) w)) = w_rs w \<and> w_trace (snd (exec (runReact env c r rp) w)) = w_trace w
    \<and> fst (exec (runReact env c r rp) w) \<noteq> (OutcomeOK, None)"
proof -
  obtain n where n: "nat (turns r + 1 - k) = Suc n" using assms(3) by (cases "nat (turns r + 1 - k)") auto
  have fail: "w_rs (snd (exec (failStep env rp oc (Some e)) v)) = w_rs v \<and> w_trace (snd (exec (failStep env rp oc (Some e)) v)) = w_trace v
      \<and> fst (exec (failStep env rp oc (Some e)) v) \<noteq> (OutcomeOK, None)" for v oc e
    by (simp add: exec_failStep ticked_def Let_def)
  have round: "w_rs (snd (exec (react_from (Suc n) env c r rp (turns r) k msgs) v)) = w_rs v
      \<and> w_trace (snd (exec (react_from (Suc n) env c r rp (turns r) k msgs) v)) = w_trace v
      \<and> fst (exec (react_from (Suc n) env c r rp (turns r) k msgs) v) \<noteq> (OutcomeOK, None)"
    if "w_rs v = w_rs w" for v msgs
    using assms(4-7) that fail by (simp add: react_answer_def commitTerminal_def Let_def)
  show ?thesis
    unfolding runReact_def appendNodeStarted_def turns_def [symmetric] Let_def
    using assms(1,2) fail round n
    by (auto simp: exec_calls exec_infra ticked_def split: sum.split option.split simp del: react_from.simps)
qed

text \<open>
  A react answer that misses the step's output schema is reported as a retryable failure, but
  however often the step is executed again it fails the same way and the model is never asked for
  another answer: the committed model leaf is read back each time.
\<close>

lemma schema_miss_is_never_retried:
  assumes "LookupCompleted (w_rs w) rp = None" and "int (length (LookupReactRounds (w_rs w) rp)) + 1 = k" and "k \<le> turns r"
    and "LookupCompleted (w_rs w) (ModelPath (RoundPath rp k)) = Some nr" and "roundResultFromLeaf nr = Some mr"
    and "mo_FinishReason mr \<noteq> ''tool_calls''" and "terminal_output env r mr ''stop'' = None"
  shows "w_trace (((\<lambda>v. snd (exec (runReact env c r rp) v)) ^^ n) w) = w_trace w
    \<and> fst (exec (runReact env c r rp) (((\<lambda>v. snd (exec (runReact env c r rp) v)) ^^ n) w)) \<noteq> (OutcomeOK, None)"
proof -
  have "w_rs (((\<lambda>v. snd (exec (runReact env c r rp) v)) ^^ n) w) = w_rs w
    \<and> w_trace (((\<lambda>v. snd (exec (runReact env c r rp) v)) ^^ n) w) = w_trace w"
  proof (induction n)
    case (Suc n)
    then show ?case using schema_miss_once [of "((\<lambda>v. snd (exec (runReact env c r rp) v)) ^^ n) w"] assms by simp
  qed simp
  then show ?thesis using schema_miss_once [of "((\<lambda>v. snd (exec (runReact env c r rp) v)) ^^ n) w"] assms by simp
qed

definition strict_spec :: react_spec where
  "strict_spec = chat_spec\<lparr>rc_OutputSchema := Some (VObject [])\<rparr>"

definition strict_world :: world where
  "strict_world = demo_world\<lparr>w_rs := RecordCompleted (ModelPath (RoundPath ''r'' 1)) (leaf_result (modelLeafOutputs
     \<lparr>mo_Text = ''hi'', mo_Output = None, mo_ToolCalls = [], mo_FinishReason = ''stop''\<rparr>) []) (w_rs demo_world)\<rparr>"

lemma schema_miss_is_never_retried_witness:
  "w_trace (((\<lambda>v. snd (exec (runReact chat_env [] strict_spec ''r'') v)) ^^ 5) strict_world) = []"
proof -
  let ?mr = "\<lparr>mo_Text = ''hi'', mo_Output = None, mo_ToolCalls = [], mo_FinishReason = ''stop''\<rparr>"
  have "w_trace (((\<lambda>v. snd (exec (runReact chat_env [] strict_spec ''r'') v)) ^^ 5) strict_world) = w_trace strict_world
      \<and> fst (exec (runReact chat_env [] strict_spec ''r'') (((\<lambda>v. snd (exec (runReact chat_env [] strict_spec ''r'') v)) ^^ 5) strict_world)) \<noteq> (OutcomeOK, None)"
  proof (rule schema_miss_is_never_retried)
    show "LookupCompleted (w_rs strict_world) (ModelPath (RoundPath ''r'' 1)) = Some (leaf_result (modelLeafOutputs ?mr) [])"
      by (simp add: strict_world_def)
    show "roundResultFromLeaf (leaf_result (modelLeafOutputs ?mr) []) = Some ?mr"
      by (simp add: roundResultFromLeaf_def leaf_result_def modelLeafOutputs_def out_field_def map_value_def map_nil_def asString_def Let_def)
    show "terminal_output chat_env strict_spec ?mr ''stop'' = None"
      by (simp add: terminal_output_def strict_spec_def chat_env_def demo_env_def)
    show "1 \<le> turns strict_spec" by (simp add: turns_def strict_spec_def chat_spec_def defaultMaxTurns_def)
  qed (simp_all add: strict_world_def demo_world_def zero_state_def LookupCompleted_def LookupReactRounds_def RecordCompleted_def
      ModelPath_def RoundPath_def pm_list_def)
  then show ?thesis by (simp add: strict_world_def demo_world_def)
qed

end
