(* ===== verification/Map_Frontier.thy ===== *)
theory Map_Frontier
  imports Engine
begin

text \<open>
  Properties of the map executor (\<open>Engine_Map\<close>): the success threshold, the frontier of a map with
  \<open>prune\<close>, the branches of a reduce, and a finished map on resume.
\<close>

subsection \<open>Thresholds\<close>

lemma fraction_needed:
  assumes "0 < f" "f \<le> 1" "0 \<le> n" "n \<le> 2 ^ 53"
  shows "\<exists>x. fmul f (f64_of_int n) = Some x \<and> 0 \<le> x \<and> x \<le> of_int n"
proof -
  have n: "f64_of_int n = of_int n" using assms(3,4) by (rule f64_of_int_exact)
  have r: "representable (of_int n)" using representable_scaled [of n 0] assms(3,4) by simp
  have "(of_int n :: rat) \<le> of_int (2 ^ 53)" using assms(4) by (simp only: of_int_le_iff)
  then have "(of_int n :: rat) < pow2 1024" using pow2_less_iff [of 53 1024] by (simp add: pow2_def [of 53])
  with r n assms show ?thesis by (auto intro!: fmul_le mult_left_le_one_le)
qed



subsection \<open>Rounding up in floating point\<close>

lemma lead_exp_eq: "pow2 k \<le> x \<Longrightarrow> x < pow2 (k + 1) \<Longrightarrow> lead_exp x = k"
proof -
  assume a: "pow2 k \<le> x" "x < pow2 (k + 1)"
  then have "0 < x" using pow2_pos [of k] by linarith
  from lead_exp_bounds [OF this] a have "pow2 k < pow2 (lead_exp x + 1)" "pow2 (lead_exp x) < pow2 (k + 1)" by linarith+
  then show ?thesis by (simp add: pow2_less_iff)
qed

lemma round_f64_eq:
  assumes "0 < x" and "pow2 k \<le> x" "x < pow2 (k + 1)" and "- 1022 \<le> k" "k < 1023"
    and "\<bar>x / pow2 (k - 52) - of_int m\<bar> < 1 / 2"
  shows "round_f64 x = Some (of_int m * pow2 (k - 52))"
proof -
  let ?y = "x / pow2 (k - 52)"
  have ulp: "ulp_exp x = k - 52" using lead_exp_eq [OF assms(2,3)] assms(4) by (simp add: ulp_exp_def)
  have m: "round_half_even ?y = m"
  proof (cases "of_int m \<le> ?y")
    case True
    with assms(6) have "\<lfloor>?y\<rfloor> = m" by (intro floor_unique) linarith+
    with assms(6) True show ?thesis by (simp add: round_half_even_def Let_def)
  next
    case False
    with assms(6) have "\<lfloor>?y\<rfloor> = m - 1" by (intro floor_unique) (auto simp: abs_less_iff)
    with assms(6) False show ?thesis by (simp add: round_half_even_def Let_def)
  qed
  have "?y < pow2 53" using assms(3) by (simp add: pos_divide_less_eq add.commute flip: pow2_add)
  moreover have "pow2 53 = 2 ^ 53" by (simp add: pow2_def)
  ultimately have "of_int m < (2 ^ 53 + 1 :: rat)" using assms(6) unfolding abs_less_iff by linarith
  then have "(of_int m :: rat) < of_int (2 ^ 53 + 1)" by simp
  then have "m \<le> 2 ^ 53" unfolding of_int_less_iff by simp
  then have "of_int m * pow2 (k - 52) \<le> pow2 53 * pow2 (k - 52)" by (simp add: pow2_def [of 53])
  also have "\<dots> < pow2 1024" using assms(5) by (simp add: pow2_less_iff flip: pow2_add)
  finally show ?thesis
    using assms(1) ulp m by (simp add: round_f64_def round_pos_def Let_def)
qed

text \<open>
  A fraction can ask for more items than it says: 0.07 of 100 items is exactly 7, but the product
  is formed in floating point, where it is slightly above 7, and then rounded up to 8.
\<close>

lemma fraction_asks_for_more:
  "decimal_value ''0.07'' = Some (7 / 100) \<and> (7 / 100) * 100 = (7 :: rat) \<and> ratioThreshold (Some ''0.07'') 100 = 8"
proof -
  have d: "decimal_value ''0.07'' = Some (7 / 100)" by code_simp
  have f: "parse_f64 ''0.07'' = Some (5044031582654956 * pow2 (- 56))"
    using round_f64_eq [of "7 / 100" "- 4" 5044031582654956] by (simp add: parse_f64_def d pow2_def)
  have "fmul (5044031582654956 * pow2 (- 56)) 100 = Some (7881299347898369 * pow2 (- 50))"
    using round_f64_eq [of "504403158265495600 / 2 ^ 56" 2 7881299347898369] by (simp add: fmul_def pow2_def)
  then have x: "fmul (5044031582654956 * pow2 (- 56)) (f64_of_int 100) = Some (7881299347898369 * pow2 (- 50))"
    using f64_of_int_exact [of 100] by simp
  have "trunc_int (7881299347898369 * pow2 (- 50)) = 7" by (simp add: trunc_int_def pow2_def floor_eq_iff)
  moreover have "parse_int64 ''0.07'' = None" by code_simp
  ultimately have "ratioThreshold (Some ''0.07'') 100 = 8"
    using f x f64_of_int_exact [of 7] by (simp add: ratioThreshold_def Let_def pow2_def)
  with d show ?thesis by simp
qed

subsection \<open>The frontier\<close>

text \<open>\<open>a\<close> is ahead of \<open>b\<close>: a higher score, or the same score and a lower index.\<close>

definition ahead :: "int \<times> rat \<Rightarrow> int \<times> rat \<Rightarrow> bool" where
  "ahead a b \<longleftrightarrow> snd b < snd a \<or> snd a = snd b \<and> fst a < fst b"

lemma score_le_ahead: "score_le a b \<longleftrightarrow> ahead a b \<or> a = b"
  by (cases a; cases b) (auto simp: score_le_def ahead_def)

lemma ahead_order: "\<not> ahead a a" "ahead a b \<Longrightarrow> ahead b c \<Longrightarrow> ahead a c" "ahead a b \<Longrightarrow> \<not> ahead b a"
  "fst a \<noteq> fst b \<Longrightarrow> ahead a b \<or> ahead b a"
  by (auto simp: ahead_def)

lemma sorted_insert_score:
  "sorted_wrt ahead xs \<Longrightarrow> fst x \<notin> fst ` set xs \<Longrightarrow> sorted_wrt ahead (insert_by score_le x xs)"
proof (induction xs)
  case (Cons y ys)
  then have "score_le x y \<longleftrightarrow> ahead x y" and "ahead x y \<or> ahead y x"
    using ahead_order(4) [of x y] by (auto simp: score_le_ahead)
  moreover have "set (insert_by score_le x ys) = insert x (set ys)" by (metis mset_insert_by set_mset_add_mset_insert set_mset_mset)
  ultimately show ?case
    using Cons ahead_order(2) [of x y] by auto
qed simp

lemma sorted_sort_score: "distinct (map fst xs) \<Longrightarrow> sorted_wrt ahead (sort_by score_le xs)"
proof -
  have set: "set (foldr (insert_by score_le) xs []) = set xs" for xs
    using set_sort_by [of score_le xs] by (simp add: sort_by_def)
  show "distinct (map fst xs) \<Longrightarrow> sorted_wrt ahead (sort_by score_le xs)"
    unfolding sort_by_def by (induction xs) (auto intro!: sorted_insert_score simp: set)
qed

text \<open>In a sorted list, an element is preceded by exactly the elements ahead of it.\<close>

lemma ahead_count:
  assumes "sorted_wrt ahead ys" and "p < length ys"
  shows "card {y \<in> set ys. ahead y (ys ! p)} = p"
proof -
  have "{y \<in> set ys. ahead y (ys ! p)} = set (take p ys)"
  proof (intro equalityI subsetI)
    fix y assume "y \<in> {y \<in> set ys. ahead y (ys ! p)}"
    then obtain q where q: "q < length ys" "y = ys ! q" "ahead (ys ! q) (ys ! p)" by (auto simp: in_set_conv_nth)
    then have "q < p"
      using sorted_wrt_nth_less [OF assms(1), of p q] ahead_order(1,3) by (metis linorder_neqE_nat)
    then show "y \<in> set (take p ys)" using q(1,2) by (auto simp: in_set_conv_nth)
  next
    fix y assume "y \<in> set (take p ys)"
    then obtain q where "q < p" "y = ys ! q" using assms(2) by (auto simp: in_set_conv_nth)
    then show "y \<in> {y \<in> set ys. ahead y (ys ! p)}"
      using sorted_wrt_nth_less [OF assms(1), of q p] assms(2) by simp
  qed
  moreover have "distinct ys"
    using assms(1) by (induction ys) (auto simp: ahead_order(1))
  ultimately show ?thesis using assms(2) by (simp add: distinct_card)
qed

lemma set_drop_nth: "set (drop n ys) = {ys ! p |p. n \<le> p \<and> p < length ys}"
proof (intro equalityI subsetI)
  fix y assume "y \<in> set (drop n ys)"
  then obtain q where "q < length ys - n" "y = ys ! (n + q)" by (auto simp: in_set_conv_nth)
  then show "y \<in> {ys ! p |p. n \<le> p \<and> p < length ys}" by (auto intro!: exI [of _ "n + q"])
next
  fix y assume "y \<in> {ys ! p |p. n \<le> p \<and> p < length ys}"
  then obtain p where "n \<le> p" "p < length ys" "y = ys ! p" by blast
  then show "y \<in> set (drop n ys)" by (auto simp: in_set_conv_nth intro!: exI [of _ "p - n"])
qed

lemma ex_set_nth: "(\<exists>y \<in> set ys. Q y) \<longleftrightarrow> (\<exists>p < length ys. Q (ys ! p))"
  unfolding Bex_def in_set_conv_nth by blast

lemma lowestBeyondK_iff:
  assumes "distinct (map fst xs)"
  shows "i \<in> set (lowestBeyondK xs k) \<longleftrightarrow> (\<exists>x. (i, x) \<in> set xs \<and> nat k \<le> card {y \<in> set xs. ahead y (i, x)})"
proof -
  let ?ys = "sort_by score_le xs"
  note s = sorted_sort_score [OF assms]
  have "i \<in> set (lowestBeyondK xs k) \<longleftrightarrow> (\<exists>p. nat k \<le> p \<and> p < length ?ys \<and> fst (?ys ! p) = i)"
    unfolding lowestBeyondK_def set_sort set_map set_drop_nth by auto
  also have "\<dots> \<longleftrightarrow> (\<exists>p < length ?ys. nat k \<le> card {y \<in> set ?ys. ahead y (?ys ! p)} \<and> fst (?ys ! p) = i)"
    using ahead_count [OF s] by auto
  also have "\<dots> \<longleftrightarrow> (\<exists>y \<in> set ?ys. nat k \<le> card {z \<in> set ?ys. ahead z y} \<and> fst y = i)"
    unfolding ex_set_nth [of ?ys] by blast
  finally show ?thesis by auto
qed

lemma lowestBeyondK_mono:
  assumes "distinct (map fst ys)" and "set xs \<subseteq> set ys" and "distinct (map fst xs)"
  shows "set (lowestBeyondK xs k) \<subseteq> set (lowestBeyondK ys k)"
proof
  fix i assume "i \<in> set (lowestBeyondK xs k)"
  then obtain x where x: "(i, x) \<in> set xs" "nat k \<le> card {y \<in> set xs. ahead y (i, x)}"
    using lowestBeyondK_iff [OF assms(3)] by blast
  have "card {y \<in> set xs. ahead y (i, x)} \<le> card {y \<in> set ys. ahead y (i, x)}"
    by (rule card_mono) (use assms(2) in auto)
  with x assms(2) show "i \<in> set (lowestBeyondK ys k)" using lowestBeyondK_iff [OF assms(1)] by fastforce
qed

subsection \<open>Reports in any order\<close>

text \<open>
  The moves of the item goroutines on the frontier (\<open>report\<close>): an item reports its score to the
  controller and gets a decision; later, in any order, the decision is applied. The second component
  holds the decisions not applied yet.
\<close>

inductive frontier_step :: "prune_spec \<Rightarrow> map_run \<times> prune_decision list \<Rightarrow> map_run \<times> prune_decision list \<Rightarrow> bool"
  for policy :: prune_spec where
  reports: "i \<notin> fst ` set (mr_scores mr) \<Longrightarrow> Report policy i raw (mr_scores mr) = (Inr d, scores) \<Longrightarrow>
    frontier_step policy (mr, ds) (mr\<lparr>mr_completed := i # mr_completed mr, mr_scores := scores\<rparr>, ds @ [d])"
| applies: "frontier_step policy (mr, ds @ d # es)
    (mr\<lparr>mr_stopAll := (mr_stopAll mr \<or> pd_StopAll d), mr_pruned := losers_of d mr @ mr_pruned mr\<rparr>, ds @ es)"

text \<open>What holds of the frontier under \<open>keep\<close>: the decisions made so far, applied or not, name exactly the losers.\<close>

definition top_frontier :: "int \<Rightarrow> map_run \<Rightarrow> prune_decision list \<Rightarrow> bool" where
  "top_frontier k mr ds \<longleftrightarrow> distinct (map fst (mr_scores mr)) \<and> \<not> mr_stopAll mr \<and> list_all (\<lambda>d. \<not> pd_StopAll d) ds
     \<and> set (mr_pruned mr) \<union> (\<Union>d \<in> set ds. set (pd_PruneLosers d)) = set (lowestBeyondK (mr_scores mr) k)"

lemma lowestBeyondK_few: "int (length xs) \<le> k \<Longrightarrow> lowestBeyondK xs k = []"
proof -
  assume "int (length xs) \<le> k"
  moreover have "length (sort_by score_le xs) = length xs" by (metis mset_sort_by mset_eq_length)
  ultimately show ?thesis by (simp add: lowestBeyondK_def)
qed

lemma Report_keep:
  assumes "pr_StopWhen policy = []" "pr_Keep policy = Some k" "Report policy i raw scores = (Inr d, scores')"
  shows "\<exists>x. scores' = set_score i x scores \<and> \<not> pd_StopAll d \<and> pd_PruneLosers d = lowestBeyondK scores' k"
  using assms by (auto simp: Report_def Let_def lowestBeyondK_few split: option.splits)

lemma set_score_fresh: "i \<notin> fst ` set xs \<Longrightarrow> set_score i x xs = (i, x) # xs"
  by (force simp: set_score_def filter_id_conv)

lemma frontier_step_top:
  assumes "frontier_step policy (mr, ds) (mr', ds')" and "pr_StopWhen policy = []" "pr_Keep policy = Some k"
    and "top_frontier k mr ds"
  shows "top_frontier k mr' ds'"
  using assms(1)
proof cases
  case (reports i raw d scores)
  obtain x where x: "scores = (i, x) # mr_scores mr" "\<not> pd_StopAll d" "pd_PruneLosers d = lowestBeyondK scores k"
    using Report_keep [OF assms(2,3) reports(4)] set_score_fresh [OF reports(3)] by auto
  have dist: "distinct (map fst scores)" using assms(4) x(1) reports(3) by (simp add: top_frontier_def)
  have "set (lowestBeyondK (mr_scores mr) k) \<subseteq> set (lowestBeyondK scores k)"
    using lowestBeyondK_mono [OF dist, of "mr_scores mr" k] assms(4) x(1) by (auto simp: top_frontier_def)
  then show ?thesis using assms(4) reports x dist by (auto simp: top_frontier_def)
next
  case (applies es d fs)
  then show ?thesis using assms(4) by (auto simp: top_frontier_def losers_of_def)
qed

text \<open>
  C19: The survivors of \<open>keep\<close> do not depend on the schedule. However the items report and however late
  the decisions are applied, once none is outstanding an item that reported is pruned exactly when at
  least \<open>k\<close> of the items that reported are ahead of it (a higher score, or the same score and a lower
  index); so the \<open>k\<close> best survive.
\<close>

theorem keep_is_top_k:
  assumes "(frontier_step policy)\<^sup>*\<^sup>* (new_map_run n, []) (mr, [])"
    and "pr_StopWhen policy = []" and "pr_Keep policy = Some k"
  shows "(i, x) \<in> set (mr_scores mr) \<Longrightarrow>
    isPruned i mr \<longleftrightarrow> nat k \<le> card {y \<in> set (mr_scores mr). snd y > x \<or> snd y = x \<and> fst y < i}"
proof -
  have "top_frontier k mr' ds" if "(frontier_step policy)\<^sup>*\<^sup>* (new_map_run n, []) (mr', ds)" for mr' ds
    using that
  proof (induction rule: rtranclp_induct2)
    case refl
    then show ?case by (simp add: top_frontier_def new_map_run_def lowestBeyondK_def sort_by_def)
  next
    case (step mr1 ds1 mr2 ds2)
    then show ?case using frontier_step_top [OF step.hyps(2) assms(2,3)] by blast
  qed
  from this [OF assms(1)] have t: "distinct (map fst (mr_scores mr))" "\<not> mr_stopAll mr"
      "set (mr_pruned mr) = set (lowestBeyondK (mr_scores mr) k)"
    by (auto simp: top_frontier_def)
  assume x: "(i, x) \<in> set (mr_scores mr)"
  have "(i, x') \<in> set (mr_scores mr) \<longleftrightarrow> x' = x" for x'
    using t(1) x by (metis eq_key_imp_eq_value)
  then show "isPruned i mr \<longleftrightarrow> nat k \<le> card {y \<in> set (mr_scores mr). snd y > x \<or> snd y = x \<and> fst y < i}"
    using t lowestBeyondK_iff [OF t(1), of i k] by (auto simp: isPruned_def ahead_def)
qed

definition keep_one :: prune_spec where
  "keep_one = \<lparr>pr_Score = ''s'', pr_Keep = Some 1, pr_StopWhen = []\<rparr>"

definition two_reports :: map_run where
  "two_reports = (new_map_run 2)\<lparr>mr_completed := [1, 0], mr_scores := [(1, 2), (0, 1)], mr_pruned := [0]\<rparr>"

lemma two_reports_reached: "(frontier_step keep_one)\<^sup>*\<^sup>* (new_map_run 2, []) (two_reports, [])"
proof -
  let ?d0 = "\<lparr>pd_PruneLosers = [], pd_StopAll = False\<rparr>" and ?d1 = "\<lparr>pd_PruneLosers = [0], pd_StopAll = False\<rparr>"
  let ?m1 = "(new_map_run 2)\<lparr>mr_completed := [0], mr_scores := [(0, 1)]\<rparr>"
  let ?m2 = "(new_map_run 2)\<lparr>mr_completed := [1, 0], mr_scores := [(1, 2), (0, 1)]\<rparr>"
  have r0: "Report keep_one 0 (VFloat 1) [] = (Inr ?d0, [(0, 1)])"
    and r1: "Report keep_one 1 (VFloat 2) [(0, 1)] = (Inr ?d1, [(1, 2), (0, 1)])"
    by (simp_all add: Report_def keep_one_def asFloat_def set_score_def lowestBeyondK_def sort_by_def score_le_def)
  have "frontier_step keep_one (new_map_run 2, []) (?m1, [?d0])"
    using frontier_step.reports [of 0 "new_map_run 2" keep_one "VFloat 1" ?d0 "[(0, 1)]" "[]"] r0 by (simp add: new_map_run_def)
  moreover have "frontier_step keep_one (?m1, [?d0]) (?m1, [])"
    using frontier_step.applies [of keep_one ?m1 "[]" ?d0 "[]"] by (simp add: new_map_run_def losers_of_def)
  moreover have "frontier_step keep_one (?m1, []) (?m2, [?d1])"
    using frontier_step.reports [of 1 ?m1 keep_one "VFloat 2" ?d1 "[(1, 2), (0, 1)]" "[]"] r1 by (simp add: new_map_run_def)
  moreover have "frontier_step keep_one (?m2, [?d1]) (two_reports, [])"
    using frontier_step.applies [of keep_one ?m2 "[]" ?d1 "[]"] by (simp add: new_map_run_def losers_of_def two_reports_def)
  ultimately show ?thesis by (meson rtranclp.rtrancl_into_rtrancl rtranclp.rtrancl_refl)
qed

theorem keep_is_top_k_witness: "isPruned 0 two_reports"
  using keep_is_top_k [OF two_reports_reached, of 1 0 1]
  by (simp add: keep_one_def two_reports_def new_map_run_def isPruned_def)

subsection \<open>A failed item under \<open>stop_when\<close>\<close>

definition stop_policy :: prune_spec where
  "stop_policy = \<lparr>pr_Score = ''score'', pr_Keep = None, pr_StopWhen = ''best.score >= 1''\<rparr>"

definition race_map :: "prune_spec option \<Rightarrow> map_spec" where
  "race_map policy = \<lparr>mp_ID = [], mp_Over = [], mp_OverItems = Some [VNil, VNil], mp_As = ''x'', mp_Container = ''c'', mp_Image = [],
     mp_Concurrency = Some 2, mp_MinSuccess = None, mp_Reduce = None, mp_Prune = policy\<rparr>"

definition race_env :: engine_env where "race_env = (demo_env [])\<lparr>e_local := True\<rparr>"

text \<open>The first item fails for good, the second one commits a score.\<close>

definition race_body :: "ctx \<Rightarrow> string \<Rightarrow> P" where
  "race_body c p =
     (if p = ItemPath ''m'' 0 then Ret (OutcomePermanentFailure, Some (ErrCause ''boom''))
      else upd_rs (RecordCompleted (p @ ''.s'') (demo_result\<lparr>nr_Outputs := Some (VObject [(''score'', VFloat 1)])\<rparr>)) (Ret (OutcomeOK, None)))"

lemma stop_parses:
  "ParseExpr (UnwrapEnvelope ''best.score >= 1'') =
     Inr (CmpExpr ''>='' (Ref [\<lparr>Ident = ''best'', Index = 0, IsIndex = False, SegPos = 0\<rparr>,
        \<lparr>Ident = ''score'', Index = 0, IsIndex = False, SegPos = 5\<rparr>]) (NumberLit ''1''))"
  by code_simp

lemma stop_holds: "evalStopWhen ''best.score >= 1'' 1 [(1, 1)] = Inr True"
proof -
  have "decimal_value ''1'' = Some 1" by code_simp
  moreover have "round_f64 1 = Some 1" using round_f64_eq [of 1 0 "2 ^ 52"] by (simp add: pow2_def)
  ultimately have "parse_f64 ''1'' = Some 1" by (simp add: parse_f64_def)
  then show ?thesis
    by (simp add: evalStopWhen_def EvalBoolString_def stop_parses EvalBool_def resolveRefValue_def best_Resolve_def
        checkInlineSize_def compare_def toFloat_def compareFloats_def requireBool_def rbind_def)
qed

lemmas map_eval = runMap_def resolveOverItems_def run_items_def join_items_def map_item_def run_item_def if_pruned_def
  sem_acquire_def dispatchItem_def image_of_def create_item_def item_verdict_def end_item_def item_result_def set_status_def
  upd_map_def set_map_def get_map_def item_done_def destroy_def new_map_run_def

lemma race_env_sel [simp]:
  "e_local race_env" "e_append race_env t" "e_sync race_env t" "\<not> e_resume race_env" "e_createItem race_env t s i img = Created []"
  by (simp_all add: race_env_def demo_env_def)

lemma race_sel [simp]:
  "mp_OverItems (race_map p) = Some [VNil, VNil]" "mp_Prune (race_map p) = p" "mp_Reduce (race_map p) = None"
  "mp_Image (race_map p) = []" "mp_MinSuccess (race_map p) = None" "mp_Container (race_map p) = ''c''"
  by (simp_all add: race_map_def)

text \<open>The first item, and the second one.\<close>

lemma race_first:
  assumes "w_maps w = [mr]" and "length (mr_statuses mr) = 2" "length (mr_causes mr) = 2" and "\<not> mr_stopAll mr" and "mr_pruned mr = []"
    and "\<not> ctx_err [w_ctxs w] w"
  shows "\<exists>w'. exec (map_item race_env [] (race_map (Some stop_policy)) ''m'' ''s'' 0 0 race_body) w = ((OutcomeOK, None), w')
    \<and> w_maps w' = [mr\<lparr>mr_cancels := (0, w_ctxs w) # mr_cancels mr, mr_statuses := (mr_statuses mr)[0 := ItemFailed], mr_causes := (mr_causes mr)[0 := ''boom'']\<rparr>]
    \<and> w_log w' = w_log w \<and> w_rs w' = w_rs w \<and> w_ctxs w' = Suc (w_ctxs w) \<and> w_cancelled w' = w_ctxs w # w_cancelled w"
  using assms
  by (simp add: map_eval exec_eval isPruned_def race_body_def ctx_err_def ticked_def isTypedFailureOutcome_def Let_def
      item_data_def boundCause_def maxMapItemCauseBytes_def ItemFailed_def ItemPassed_def)

lemma race_second:
  assumes "w_maps w = [mr]" and "length (mr_statuses mr) = 2" "length (mr_causes mr) = 2" and "\<not> mr_stopAll mr" and "mr_pruned mr = []"
    and "mr_completed mr = []" "mr_scores mr = []" "mr_cancels mr = [(0, c0)]" and "\<not> ctx_err [w_ctxs w] w"
  shows "\<exists>w'. exec (map_item race_env [] (race_map (Some stop_policy)) ''m'' ''s'' 0 1 race_body) w = ((OutcomeOK, None), w')
    \<and> w_maps w' = [mr\<lparr>mr_cancels := [(1, w_ctxs w), (0, c0)], mr_statuses := (mr_statuses mr)[1 := ItemPassed],
         mr_causes := (mr_causes mr)[1 := []], mr_completed := [1], mr_scores := [(1, 1)], mr_stopAll := True, mr_pruned := [0]\<rparr>]
    \<and> w_log w' = w_log w"
proof -
  have "ItemPath ''m'' 1 \<noteq> ItemPath ''m'' 0" using itoa_inj [of 1 0] by (auto simp: ItemPath_def)
  moreover have "Report stop_policy 1 (VFloat 1) [] = (Inr \<lparr>pd_PruneLosers = [], pd_StopAll = True\<rparr>, [(1, 1)])"
    by (simp add: Report_def stop_policy_def asFloat_def set_score_def stop_holds)
  moreover have "pr_Score stop_policy = ''score''" by (simp add: stop_policy_def)
  ultimately show ?thesis
    using assms
    by (simp add: map_eval exec_eval exec_calls isPruned_def race_body_def ctx_err_def ticked_def Let_def item_data_def
        report_def apply_decision_def losers_of_def ItemStepPath_def out_field_def map_value_def map_nil_def map_filter_simps
        LookupCompleted_def RecordCompleted_def)
qed

lemma race_start:
  "LookupMapItems (w_rs demo_world) ''m'' = []" "w_maps demo_world = []"
  "zip [0..int (length [VNil, VNil]) - 1] [VNil, VNil] = [(0, VNil), (1, VNil)]"
  by (simp_all add: demo_world_def zero_state_def LookupMapItems_def pm_list_def upto_rec1)

lemma race_upto: "[0..1] = [0, 1 :: int]"
  by (simp add: upto_rec1)

lemma item_simps: "ItemPruned \<noteq> ItemFailed" "ItemPassed \<noteq> ItemFailed" "ItemPassed \<noteq> ItemPruned"
  "ItemFailed \<noteq> ItemPruned" "ItemFailed \<noteq> ItemPassed" "ItemPruned \<noteq> ItemPassed"
  by (simp_all add: ItemPruned_def ItemFailed_def ItemPassed_def)

lemma race_pruned:
  "\<exists>w'. exec (runMap race_env [] (race_map (Some stop_policy)) [demo_step ''s''] ''m'' race_body) demo_world = ((OutcomeOK, None), w')
     \<and> w_log w' = w_log demo_world @ [\<lparr>jPath = ''m'', jData = MapFrontier [item_data 0 ItemPruned, item_data 1 ItemPassed]\<rparr>]"
proof -
  let ?pend = "\<lambda>i. \<lparr>mi_N = i, mi_ItemValue = Some VNil, mi_Status = [], mi_Outcome = [], mi_ImageDigest = [], mi_Reason = [], mi_Cause = []\<rparr>"
  let ?spawn = "spawn_items race_env [] (race_map (Some stop_policy)) ''m'' ''s'' 0 [] race_body"
  let ?w0 = "demo_world\<lparr>w_maps := [new_map_run 2]\<rparr>"
  let ?wa = "?w0\<lparr>w_rs := RecordMapItem ''m'' (?pend 0) (w_rs ?w0)\<rparr>"
  have a: "w_maps ?wa = [new_map_run 2]" "\<not> ctx_err [w_ctxs ?wa] ?wa" "w_cancelled ?wa = []" "w_ctxs ?wa = 0"
    by (simp_all add: demo_world_def ctx_err_def)
  obtain wb where b: "exec (map_item race_env [] (race_map (Some stop_policy)) ''m'' ''s'' 0 0 race_body) ?wa = ((OutcomeOK, None), wb)"
      "w_maps wb = [(new_map_run 2)\<lparr>mr_cancels := [(0, 0)], mr_statuses := [ItemFailed, []], mr_causes := [''boom'', []]\<rparr>]"
      "w_log wb = w_log demo_world" "w_ctxs wb = 1" "w_cancelled wb = [0]"
    using race_first [OF a(1) _ _ _ _ a(2)] a(3,4) by (auto simp: new_map_run_def numeral_2_eq_2)
  let ?wc = "wb\<lparr>w_rs := RecordMapItem ''m'' (?pend 1) (w_rs wb)\<rparr>"
  obtain wd where d: "exec (map_item race_env [] (race_map (Some stop_policy)) ''m'' ''s'' 0 1 race_body) ?wc = ((OutcomeOK, None), wd)"
      "w_maps wd = [(new_map_run 2)\<lparr>mr_cancels := [(1, 1), (0, 0)], mr_statuses := [ItemFailed, ItemPassed], mr_causes := [''boom'', []],
         mr_completed := [1], mr_scores := [(1, 1)], mr_stopAll := True, mr_pruned := [0]\<rparr>]" "w_log wd = w_log demo_world"
    using race_second [of ?wc _ 0] b by (auto simp: new_map_run_def ctx_err_def)
  have "exec (?spawn [(1, VNil)]) wb = ((OutcomeOK, None), wd)"
    using d(1) by (simp add: exec_eval exec_calls committed_item_def Let_def item_done_def)
  then have spawn: "exec (?spawn [(0, VNil), (1, VNil)]) ?w0 = ((OutcomeOK, None), wd)"
    using b(1) by (simp add: exec_eval exec_calls committed_item_def Let_def item_done_def del: spawn_items.simps(2) add: spawn_items.simps(2) [of _ _ _ _ _ _ _ _ 0])
  have "exec (runMap race_env [] (race_map (Some stop_policy)) [demo_step ''s''] ''m'' race_body) demo_world
      = exec (join_items race_env (race_map (Some stop_policy)) ''m'' 0 [] 2 (\<lambda>_. infra ''no reduce'')) wd"
    using spawn
    by (simp add: runMap_def resolveOverItems_def run_items_def race_start max_committed_def LastStepID_def demo_step_def exec_eval
        Let_def race_upto numeral_2_eq_2 [symmetric] del: spawn_items.simps)
  moreover have "\<exists>w'. exec (join_items race_env (race_map (Some stop_policy)) ''m'' 0 [] 2 (\<lambda>_. infra ''no reduce'')) wd = ((OutcomeOK, None), w')
     \<and> w_log w' = w_log demo_world @ [\<lparr>jPath = ''m'', jData = MapFrontier [item_data 0 ItemPruned, item_data 1 ItemPassed]\<rparr>]"
    using d(2,3)
    by (simp add: join_items_def get_map_def frontier_def settle_def upd_map_def set_map_def exec_calls exec_eval isPruned_def
        committed_item_def commitMapFrontier_def map_verdict_def defaultMinSuccess_def ratioThreshold_def tallyResults_def
        countPruned_def item_data_def new_map_run_def item_simps race_upto Let_def ticked_def)
  ultimately show ?thesis by auto
qed

lemma race_plain_item:
  assumes "w_maps w = [mr]" and "length (mr_statuses mr) = 2" "length (mr_causes mr) = 2"
    and "i = 0 \<and> st = ItemFailed \<and> cause = ''boom'' \<or> i = 1 \<and> st = ItemPassed \<and> cause = []"
  shows "\<exists>w'. exec (map_item race_env [] (race_map None) ''m'' [] 0 i race_body) w = ((OutcomeOK, None), w')
    \<and> w_maps w' = [mr\<lparr>mr_statuses := (mr_statuses mr)[nat i := st], mr_causes := (mr_causes mr)[nat i := cause]\<rparr>]"
proof -
  have "ItemPath ''m'' 1 \<noteq> ItemPath ''m'' 0" using itoa_inj [of 1 0] by (auto simp: ItemPath_def)
  then show ?thesis
    using assms
    by (auto simp add: map_eval exec_eval exec_calls race_body_def ctx_err_def ticked_def Let_def item_data_def commitMapItem_def
        isTypedFailureOutcome_def boundCause_def maxMapItemCauseBytes_def)
qed

lemma new_map_run_err [simp]: "mr_err (new_map_run n) = None"
  by (simp add: new_map_run_def)

lemma race_plain:
  "\<exists>w'. exec (runMap race_env [] (race_map None) [demo_step ''s''] ''m'' race_body) demo_world
     = ((OutcomeRetryableFailure, Some (ErrCause ''min_success'')), w')"
proof -
  let ?pend = "\<lambda>i. \<lparr>mi_N = i, mi_ItemValue = Some VNil, mi_Status = [], mi_Outcome = [], mi_ImageDigest = [], mi_Reason = [], mi_Cause = []\<rparr>"
  let ?spawn = "spawn_items race_env [] (race_map None) ''m'' [] 0 [] race_body"
  let ?w0 = "demo_world\<lparr>w_maps := [new_map_run 2]\<rparr>"
  let ?wa = "?w0\<lparr>w_rs := RecordMapItem ''m'' (?pend 0) (w_rs ?w0)\<rparr>"
  obtain wb where b: "exec (map_item race_env [] (race_map None) ''m'' [] 0 0 race_body) ?wa = ((OutcomeOK, None), wb)"
      "w_maps wb = [(new_map_run 2)\<lparr>mr_statuses := [ItemFailed, []], mr_causes := [''boom'', []]\<rparr>]"
    using race_plain_item [of ?wa "new_map_run 2" 0 ItemFailed "''boom''"] by (auto simp: new_map_run_def numeral_2_eq_2)
  let ?wc = "wb\<lparr>w_rs := RecordMapItem ''m'' (?pend 1) (w_rs wb)\<rparr>"
  obtain wd where d: "exec (map_item race_env [] (race_map None) ''m'' [] 0 1 race_body) ?wc = ((OutcomeOK, None), wd)"
      "w_maps wd = [(new_map_run 2)\<lparr>mr_statuses := [ItemFailed, ItemPassed], mr_causes := [''boom'', []]\<rparr>]"
    using race_plain_item [of ?wc "(new_map_run 2)\<lparr>mr_statuses := [ItemFailed, []], mr_causes := [''boom'', []]\<rparr>" 1 ItemPassed "[]"] b(2)
    by (auto simp: new_map_run_def)
  have "exec (?spawn [(1, VNil)]) wb = ((OutcomeOK, None), wd)"
    using d(1) by (simp add: exec_eval exec_calls committed_item_def Let_def item_done_def)
  then have "exec (?spawn [(0, VNil), (1, VNil)]) ?w0 = ((OutcomeOK, None), wd)"
    using b(1) by (simp add: exec_eval exec_calls committed_item_def Let_def item_done_def del: spawn_items.simps(2) add: spawn_items.simps(2) [of _ _ _ _ _ _ _ _ 0])
  then show ?thesis
    using d(2)
    by (simp add: runMap_def resolveOverItems_def run_items_def race_start max_committed_def exec_eval join_items_def get_map_def
        map_verdict_def defaultMinSuccess_def ratioThreshold_def tallyResults_def countPruned_def item_simps
        Let_def race_upto numeral_2_eq_2 [symmetric] del: spawn_items.simps)
qed

text \<open>
  C21: Under \<open>stop_when\<close> an item that has failed can be turned into a pruned one. Two items run; the
  first fails permanently; then the second reports a score that ends the map. The failed item is
  journalled as pruned, its cause is dropped, it no longer counts, and the map succeeds. The same
  items without \<open>prune\<close> fail the map.
\<close>

theorem stop_when_hides_a_failed_item:
  "\<exists>w1 w2. exec (runMap race_env [] (race_map (Some stop_policy)) [demo_step ''s''] ''m'' race_body) demo_world = ((OutcomeOK, None), w1)
     \<and> w_log w1 = w_log demo_world @ [\<lparr>jPath = ''m'', jData = MapFrontier [item_data 0 ItemPruned, item_data 1 ItemPassed]\<rparr>]
     \<and> exec (runMap race_env [] (race_map None) [demo_step ''s''] ''m'' race_body) demo_world
         = ((OutcomeRetryableFailure, Some (ErrCause ''min_success'')), w2)"
  using race_pruned race_plain by blast

subsection \<open>A finished map on resume\<close>

definition replayed :: "map_item_record list \<Rightarrow> int \<Rightarrow> string" where
  "replayed items i = mi_Status (the (committed_item items i))"

lemma exec_fill_values:
  "\<exists>rs'. exec (fill_values mapPath xs mrs p) w = exec p (w\<lparr>w_rs := rs'\<rparr>)"
proof (induction mrs arbitrary: w)
  case Nil
  then show ?case by (auto intro: exI [of _ "w_rs w"])
next
  case (Cons mr mrs)
  from Cons [of w] Cons [of "w\<lparr>w_rs := UpdateMapItemValue mapPath (mi_N mr) (Some (xs ! nat (mi_N mr))) (w_rs w)\<rparr>"]
  show ?case by (auto simp: exec_calls)
qed

lemma exec_spawn_replayed:
  assumes "\<And>i x. (i, x) \<in> set ixs \<Longrightarrow> \<exists>mr. committed_item items i = Some mr \<and> \<not> shouldRerunItem v (e_resume env) mr"
  shows "exec (spawn_items env c v mapPath stepID m items body ixs) w = ((OutcomeOK, None),
    foldl (\<lambda>w (i, _). set_map m (\<lambda>r. r\<lparr>mr_statuses := (mr_statuses r)[nat i := replayed items i]\<rparr>) w) w ixs)"
  using assms
proof (induction ixs arbitrary: w)
  case (Cons ix ixs)
  obtain i x where ix: "ix = (i, x)" by fastforce
  with Cons.prems obtain mr where "committed_item items i = Some mr" "\<not> shouldRerunItem v (e_resume env) mr" by fastforce
  moreover have "exec (spawn_items env c v mapPath stepID m items body ixs) u = ((OutcomeOK, None),
      foldl (\<lambda>w (i, _). set_map m (\<lambda>r. r\<lparr>mr_statuses := (mr_statuses r)[nat i := replayed items i]\<rparr>) w) u ixs)" for u
    by (rule Cons.IH) (use Cons.prems in fastforce)
  ultimately show ?case using ix by (simp add: upd_map_def replayed_def)
qed (simp add: item_done_def)

lemma foldl_set_map:
  "m < length (w_maps w) \<Longrightarrow>
   foldl (\<lambda>w (i, _). set_map m (\<lambda>r. r\<lparr>mr_statuses := (mr_statuses r)[nat i := f i]\<rparr>) w) w ixs
     = set_map m (\<lambda>r. r\<lparr>mr_statuses := foldl (\<lambda>st (i, _). st[nat i := f i]) (mr_statuses r) ixs\<rparr>) w"
proof (induction ixs arbitrary: w)
  case (Cons ix ixs)
  then show ?case by (cases ix) (simp add: set_map_def)
qed (simp add: set_map_def)

lemma foldl_statuses:
  "length st = a + length ys \<Longrightarrow>
   foldl (\<lambda>st (i, _). st[nat i := f i]) st (zip [int a..int (a + length ys) - 1] ys) = take a st @ map f [int a..int (a + length ys) - 1]"
proof (induction ys arbitrary: a st)
  case (Cons y ys)
  have up: "[int a..int (a + length (y # ys)) - 1] = int a # [int (Suc a)..int (Suc a + length ys) - 1]"
    by (subst upto_rec1) (simp_all add: add.commute)
  have "take (Suc a) (st[a := f (int a)]) = take a st @ [f (int a)]"
    using Cons.prems by (simp add: take_Suc_conv_app_nth)
  then show ?case unfolding up using Cons.IH [of "st[a := f (int a)]" "Suc a"] Cons.prems by simp
qed simp

lemma exec_replayed_items:
  assumes "\<And>i. 0 \<le> i \<Longrightarrow> i < int (length xs) \<Longrightarrow> \<exists>mr. committed_item items i = Some mr \<and> \<not> shouldRerunItem v (e_resume env) mr"
  shows "exec (run_items env c v mapPath stepID xs items body reduce) w
    = exec (map_verdict env v mapPath (int (length xs)) reduce
              ((new_map_run (length xs))\<lparr>mr_statuses := map (replayed items) [0..int (length xs) - 1]\<rparr>))
        (w\<lparr>w_maps := w_maps w @ [(new_map_run (length xs))\<lparr>mr_statuses := map (replayed items) [0..int (length xs) - 1]\<rparr>]\<rparr>)"
proof -
  let ?n = "int (length xs)" and ?m = "length (w_maps w)"
  let ?w = "w\<lparr>w_maps := w_maps w @ [new_map_run (length xs)]\<rparr>"
  have fresh: "filter (\<lambda>i. committed_item items i = None) [0..?n - 1] = []"
    using assms by (fastforce simp: filter_empty_conv)
  have "exec (spawn_items env c v mapPath stepID ?m items body (zip [0..?n - 1] xs)) ?w = ((OutcomeOK, None),
      foldl (\<lambda>w (i, _). set_map ?m (\<lambda>r. r\<lparr>mr_statuses := (mr_statuses r)[nat i := replayed items i]\<rparr>) w) ?w (zip [0..?n - 1] xs))"
    using assms by (intro exec_spawn_replayed) (auto dest!: set_zip_leftD)
  moreover have "foldl (\<lambda>st (i, _). st[nat i := replayed items i]) (mr_statuses (new_map_run (length xs))) (zip [0..?n - 1] xs)
      = map (replayed items) [0..?n - 1]"
    using foldl_statuses [of "mr_statuses (new_map_run (length xs))" 0 xs "replayed items"] by (simp add: new_map_run_def)
  ultimately have "exec (spawn_items env c v mapPath stepID ?m items body (zip [0..?n - 1] xs)) ?w = ((OutcomeOK, None),
      w\<lparr>w_maps := w_maps w @ [(new_map_run (length xs))\<lparr>mr_statuses := map (replayed items) [0..?n - 1]\<rparr>]\<rparr>)"
    by (simp add: foldl_set_map) (simp add: set_map_def)
  then show ?thesis
    using fresh by (simp add: run_items_def exec_eval join_items_def get_map_def set_map_def new_map_run_def frontier_def
        settle_def upd_map_def Let_def)
qed


definition half_done :: world where
  "half_done = demo_world\<lparr>w_rs := zero_state\<lparr>MapItems := [(''m'',
     [\<lparr>mi_N = 0, mi_ItemValue = None, mi_Status = ItemPassed, mi_Outcome = ''ok'', mi_ImageDigest = [], mi_Reason = [], mi_Cause = []\<rparr>,
      \<lparr>mi_N = 1, mi_ItemValue = None, mi_Status = ItemFailed, mi_Outcome = ''permanent_failure'', mi_ImageDigest = [],
        mi_Reason = [], mi_Cause = []\<rparr>])]\<rparr>\<rparr>"

lemma half_done_items:
  "LookupMapItems (w_rs half_done) ''m'' =
     [\<lparr>mi_N = 0, mi_ItemValue = None, mi_Status = ItemPassed, mi_Outcome = ''ok'', mi_ImageDigest = [], mi_Reason = [], mi_Cause = []\<rparr>,
      \<lparr>mi_N = 1, mi_ItemValue = None, mi_Status = ItemFailed, mi_Outcome = ''permanent_failure'', mi_ImageDigest = [],
        mi_Reason = [], mi_Cause = []\<rparr>]"
  by (simp add: half_done_def LookupMapItems_def pm_list_def)

lemma half_done_replayed:
  "map (replayed (LookupMapItems (w_rs half_done) ''m'')) [0..1] = [ItemPassed, ItemFailed]"
  by (simp add: half_done_items replayed_def committed_item_def race_upto)


end
