(* ===== verification/Map_Quorum.thy ===== *)
theory Map_Quorum
  imports Engine
begin

text \<open>
  The fan-in of a map by a quorum. The reference count is over the items of the map, read from the
  run state; the program counts over the branches it has collected from the committed producers.
\<close>

subsection \<open>The vote of an item\<close>

text \<open>What one step of the body has committed under a field for an item.\<close>

definition produced :: "run_state \<Rightarrow> string \<Rightarrow> int \<Rightarrow> string \<Rightarrow> reduce_producer \<Rightarrow> goval option" where
  "produced rs mapPath n field p =
     (case itemBodyStepPath rs mapPath n (rp_suffix p) of
        None \<Rightarrow> None
      | Some path \<Rightarrow>
          (case LookupCompleted rs path of
             None \<Rightarrow> None
           | Some nr \<Rightarrow> map_of (rev (case map_value (nr_Outputs nr) of VObject kvs \<Rightarrow> kvs | _ \<Rightarrow> [])) field))"

text \<open>The vote of an item: the value of the last step of the body that has one.\<close>

definition ballot :: "run_state \<Rightarrow> string \<Rightarrow> string \<Rightarrow> int \<Rightarrow> reduce_producer list \<Rightarrow> goval option \<Rightarrow> goval option" where
  "ballot rs mapPath field n ps = fold (\<lambda>p v. case produced rs mapPath n field p of None \<Rightarrow> v | Some x \<Rightarrow> Some x) ps"

definition agrees :: "run_state \<Rightarrow> node list \<Rightarrow> string \<Rightarrow> string \<Rightarrow> map_item_record \<Rightarrow> bool" where
  "agrees rs body mapPath field mr \<longleftrightarrow>
     mi_Status mr = ItemPassed \<and> ballot rs mapPath field (mi_N mr) (body_producers body) None = Some (VBool True)"

lemma map_of_set_field [simp]: "map_of (set_field k v kvs) f = (if f = k then Some v else map_of kvs f)"
  by (induction kvs) (auto simp: set_field_def map_add_Some_iff split: option.splits)

lemma map_of_fold_set_field:
  "map_of (fold (\<lambda>(k, x). set_field k x) kvs acc) f = (case map_of (rev kvs) f of None \<Rightarrow> map_of acc f | Some x \<Rightarrow> Some x)"
  by (induction kvs arbitrary: acc) (auto simp: map_add_def split: option.splits)

lemma branch_outputs_ballot:
  "branch_outputs rs g mapPath n ps b d = Inr (b', d') \<Longrightarrow>
   rb_N b' = rb_N b \<and> map_of (rb_Outputs b') f = ballot rs mapPath f n ps (map_of (rb_Outputs b) f) \<and> (\<not> d' \<longrightarrow> b' = b)
     \<and> (d \<longrightarrow> d')"
proof (induction ps arbitrary: b d)
  case (Cons p ps)
  then show ?case
    by (auto simp: ballot_def produced_def map_of_fold_set_field split: option.splits sum.splits)
qed (simp add: ballot_def)

lemma collect_items_agree:
  "collect_items rs g mapPath (body_producers body) mrs = Inr bs \<Longrightarrow>
   map rb_N (filter (\<lambda>b. map_of (rb_Outputs b) f = Some (VBool True)) bs) = map mi_N (filter (agrees rs body mapPath f) mrs)"
proof (induction mrs arbitrary: bs)
  case (Cons mr mrs)
  show ?case
  proof (cases "mi_Status mr = ItemPassed")
    case True
    with Cons.prems obtain b d bs' where "branch_outputs rs g mapPath (mi_N mr) (body_producers body)
        \<lparr>rb_N = mi_N mr, rb_Outputs = [], rb_Files = []\<rparr> False = Inr (b, d)"
      and rest: "collect_items rs g mapPath (body_producers body) mrs = Inr bs'" "bs = (if d then b # bs' else bs')"
      by (auto split: sum.splits)
    from branch_outputs_ballot [OF this(1), of f] Cons.IH [OF rest(1)] rest(2) True
    show ?thesis by (auto simp: agrees_def)
  qed (use Cons in \<open>simp add: agrees_def\<close>)
qed simp

text \<open>
  C20: The verdict of a quorum is an honest count. The value committed under the field of the quorum is
  true exactly when the items that passed and whose committed output says true reach the threshold;
  each item counts once, whatever the number of steps of the body, and an item that failed never
  counts, since the threshold is taken of the cohort.
\<close>

theorem quorum_counts_each_item_once:
  assumes "collectReduceBranches rs graph body mapPath = Inr bs" and "distinct (map mi_N (LookupMapItems rs mapPath))"
    and "rd_Field r \<notin> {''votes'', ''agree'', ''votes_detail''}"
  shows "map_of (quorum_output r bs cohort) (rd_Field r)
    = Some (VBool (quorumThreshold (rd_Quorum r) cohort
        \<le> int (card {mr \<in> set (LookupMapItems rs mapPath). agrees rs body mapPath (rd_Field r) mr})))"
proof -
  let ?ok = "agrees rs body mapPath (rd_Field r)" and ?items = "LookupMapItems rs mapPath"
  let ?yes = "filter (\<lambda>b. map_of (rb_Outputs b) (rd_Field r) = Some (VBool True)) bs"
  have "length ?yes = length (filter ?ok (sort_key mi_N ?items))"
    using arg_cong [OF collect_items_agree [OF assms(1) [unfolded collectReduceBranches_def], of "rd_Field r"], of length] by simp
  also have "\<dots> = card (set (filter ?ok (sort_key mi_N ?items)))"
    using assms(2) by (intro distinct_card [symmetric] distinct_filter) (simp add: distinct_map)
  finally show ?thesis
    using assms(3) by (simp add: quorum_output_def Let_def)
qed

definition jury_state :: run_state where
  "jury_state = zero_state\<lparr>Completed := [(''m.item-0.s'', demo_result\<lparr>nr_Outputs := Some (VObject [(''ok'', VBool True)])\<rparr>)],
     MapItems := [(''m'',
       [\<lparr>mi_N = 1, mi_ItemValue = None, mi_Status = ItemFailed, mi_Outcome = ''retryable_failure'', mi_ImageDigest = [], mi_Reason = [],
          mi_Cause = []\<rparr>,
        \<lparr>mi_N = 0, mi_ItemValue = None, mi_Status = ItemPassed, mi_Outcome = [], mi_ImageDigest = [], mi_Reason = [], mi_Cause = []\<rparr>])]\<rparr>"

definition jury_reduce :: reduce_spec where
  "jury_reduce = \<lparr>rd_Quorum = Some ''2'', rd_Field = ''ok'', rd_Run = [], rd_Container = [], rd_OutputSchema = None, rd_OutputFiles = []\<rparr>"

lemma jury_items:
  "LookupMapItems jury_state ''m'' =
     [\<lparr>mi_N = 1, mi_ItemValue = None, mi_Status = ItemFailed, mi_Outcome = ''retryable_failure'', mi_ImageDigest = [], mi_Reason = [],
        mi_Cause = []\<rparr>,
      \<lparr>mi_N = 0, mi_ItemValue = None, mi_Status = ItemPassed, mi_Outcome = [], mi_ImageDigest = [], mi_Reason = [], mi_Cause = []\<rparr>]"
  by (simp add: jury_state_def LookupMapItems_def pm_list_def)

lemma jury_done:
  "LookupCompleted jury_state ''m.item-0.s'' = Some (demo_result\<lparr>nr_Outputs := Some (VObject [(''ok'', VBool True)])\<rparr>)"
  by (simp add: jury_state_def LookupCompleted_def)

lemma itoa_zero: "itoa 0 = ''0''"
  by code_simp

theorem quorum_counts_each_item_once_witness:
  "\<exists>bs. collectReduceBranches jury_state [] [demo_step ''s''] ''m'' = Inr bs \<and> length bs = 1
     \<and> map_of (quorum_output jury_reduce bs 2) ''ok'' = Some (VBool False)"
proof -
  let ?bs = "[\<lparr>rb_N = 0, rb_Outputs = [(''ok'', VBool True)], rb_Files = []\<rparr>]"
  have ps: "body_producers [demo_step ''s''] = [\<lparr>rp_suffix = ''s'', rp_outputFiles = []\<rparr>]"
    by (simp add: body_producers_def demo_step_def trimPrefix_def PathFor_def hasPrefix_def)
  have path: "itemBodyStepPath jury_state ''m'' 0 ''s'' = Some ''m.item-0.s''"
    by (simp add: itemBodyStepPath_def gateScopePrefix_def ItemStepPath_def ItemPath_def hasPrefix_def itoa_zero)
  have bs: "collectReduceBranches jury_state [] [demo_step ''s''] ''m'' = Inr ?bs"
    by (simp add: collectReduceBranches_def ps path jury_items jury_done ItemFailed_def ItemPassed_def map_value_def map_nil_def set_field_def)
  have two: "parse_int64 ''2'' = Some 2" by code_simp
  have "distinct (map mi_N (LookupMapItems jury_state ''m''))" "rd_Field jury_reduce = ''ok''"
    "quorumThreshold (rd_Quorum jury_reduce) 2 = 2"
    "{mr \<in> set (LookupMapItems jury_state ''m''). agrees jury_state [demo_step ''s''] ''m'' ''ok'' mr}
      \<subseteq> {LookupMapItems jury_state ''m'' ! 1}"
    by (auto simp: agrees_def jury_items ItemFailed_def ItemPassed_def jury_reduce_def
        quorumThreshold_def ratioThreshold_def two)
  note facts = this
  show ?thesis
    using quorum_counts_each_item_once [OF bs facts(1), of jury_reduce 2] bs facts(2,3) card_mono [OF _ facts(4)] by auto
qed

end
