(* ===== verification/Signal_Broker.thy ===== *)
theory Signal_Broker
  imports Artifacts Interleave
begin

text \<open>
  The control surface of a run (src/signal): named signals as files of a directory that the engine
  and the command line share (broker.go, paths.go), and the pause and cancel requests beside them
  (control.go). The directory is modelled with inodes, so that a file opened by a writer and renamed
  by a consumer stays the same file; every system call is one atomic action of \<open>Interleave\<close> and
  may fail. The lemmas show that, call by call, the directory implements a first-in first-out queue
  per name (the locale \<open>signal_queue\<close>).
\<close>

subsection \<open>File names\<close>

definition signalFileName :: "string \<Rightarrow> int \<Rightarrow> string" where
  "signalFileName name n = ''signal-'' @ name @ ''-'' @ itoa n @ ''.json''"

text \<open>\<open>strings.LastIndex(s, "-")\<close>, \<open>None\<close> for Go's \<open>-1\<close>.\<close>

definition lastDash :: "string \<Rightarrow> nat option" where
  "lastDash s =
     (let tail = takeWhile (\<lambda>c. c \<noteq> CHR ''-'') (rev s)
      in if length tail = length s then None else Some (length s - length tail - 1))"

definition parseSignalFileName :: "string \<Rightarrow> (string \<times> int) option" where
  "parseSignalFileName fileName =
     (if \<not> hasPrefix fileName ''signal-'' then None
      else if \<not> hasSuffix fileName ''.json'' then None
      else
        let mid = trimSuffix (trimPrefix fileName ''signal-'') ''.json''
        in case lastDash mid of
             None \<Rightarrow> None
           | Some idx \<Rightarrow>
               let name = take idx mid; seqStr = drop (idx + 1) mid
               in if name = [] \<or> last name = CHR ''-'' then None
                  else case parse_int64 seqStr of
                         None \<Rightarrow> None
                       | Some n \<Rightarrow> if n < 1 then None else Some (name, n))"

text \<open>\<open>signalNamePattern\<close> is the expression of \<open>stepIDPattern\<close>.\<close>

definition validateSignalName :: "string \<Rightarrow> bool" where
  "validateSignalName name = stepIDPattern name"

subsection \<open>The directory\<close>

datatype dirent = RegFile nat | SubDir

text \<open>A directory that does not exist is \<open>None\<close>; contents are indexed by inode number.\<close>

record control_dir =
  cd_control :: "dirent pmap option"
  cd_consumed :: "dirent pmap option"
  cd_inodes :: "string list"
  cd_calls :: nat

text \<open>Which system calls fail for another reason than a missing or existing file; what a failing write leaves.\<close>

record broker_env =
  be_fault :: "nat \<Rightarrow> bool"
  be_partial :: "nat \<Rightarrow> nat"

datatype io_err = NotExist | Exist | IOFail

datatype broker_err = BadName | MkdirErr | ReadDirErr | OpenErr | WriteErr | CloseErr | Contended
  | ReadErr | RenameErr | VerifyErr | CtxErr

record Delivery =
  dl_Name :: string
  dl_Seq :: int
  dl_Payload :: string

datatype broker_result = BErr broker_err | BDone | BControl "(string \<times> string) option" "string option" | BWrote int | BNone | BGot Delivery | BDrained "Delivery list"

type_synonym B = "(control_dir, broker_result) prog"

definition called :: "control_dir \<Rightarrow> control_dir" where
  "called w = w\<lparr>cd_calls := Suc (cd_calls w)\<rparr>"

text \<open>A system call that fails, or acts.\<close>

definition syscall :: "broker_env \<Rightarrow> B \<Rightarrow> (control_dir \<Rightarrow> B \<times> control_dir) \<Rightarrow> B" where
  "syscall env failed act = Act (\<lambda>w. if be_fault env (cd_calls w) then (failed, called w) else act (called w))"

definition readDir :: "broker_env \<Rightarrow> (control_dir \<Rightarrow> dirent pmap option) \<Rightarrow> (io_err + dirent pmap \<Rightarrow> B) \<Rightarrow> B" where
  "readDir env dir k = syscall env (k (Inl IOFail)) (\<lambda>w.
     case dir w of
       None \<Rightarrow> (k (Inl NotExist), w)
     | Some es \<Rightarrow> (k (Inr (sort_by (\<lambda>a b. str_le (fst a) (fst b)) es)), w))"

definition mkdirControl :: "broker_env \<Rightarrow> B \<Rightarrow> B \<Rightarrow> B" where
  "mkdirControl env failed p = syscall env failed (\<lambda>w.
     (p, w\<lparr>cd_control := Some (case cd_control w of None \<Rightarrow> [] | Some es \<Rightarrow> es)\<rparr>))"

definition mkdirConsumed :: "broker_env \<Rightarrow> B \<Rightarrow> B \<Rightarrow> B" where
  "mkdirConsumed env failed p = syscall env failed (\<lambda>w.
     (p, w\<lparr>cd_control := Some (case cd_control w of None \<Rightarrow> [] | Some es \<Rightarrow> es),
          cd_consumed := Some (case cd_consumed w of None \<Rightarrow> [] | Some es \<Rightarrow> es)\<rparr>))"

text \<open>\<open>OpenFile\<close> with \<open>O_CREATE|O_EXCL\<close>: a new empty inode, or an error.\<close>

definition openExcl :: "broker_env \<Rightarrow> string \<Rightarrow> (io_err + nat \<Rightarrow> B) \<Rightarrow> B" where
  "openExcl env fileName k = syscall env (k (Inl IOFail)) (\<lambda>w.
     case cd_control w of
       None \<Rightarrow> (k (Inl NotExist), w)
     | Some es \<Rightarrow>
         if map_of es fileName \<noteq> None then (k (Inl Exist), w)
         else let ino = length (cd_inodes w)
              in (k (Inr ino), w\<lparr>cd_control := Some (pm_put fileName (RegFile ino) es), cd_inodes := cd_inodes w @ [[]]\<rparr>))"

text \<open>A write reaches the inode wherever its file has moved; a failing one may write a part.\<close>

definition writeInode :: "broker_env \<Rightarrow> nat \<Rightarrow> string \<Rightarrow> (bool \<Rightarrow> B) \<Rightarrow> B" where
  "writeInode env ino payload k = Act (\<lambda>w.
     if be_fault env (cd_calls w)
     then (k False, (called w)\<lparr>cd_inodes := (cd_inodes w)[ino := take (be_partial env (cd_calls w)) payload]\<rparr>)
     else (k True, (called w)\<lparr>cd_inodes := (cd_inodes w)[ino := payload]\<rparr>))"

definition removeFile :: "broker_env \<Rightarrow> string \<Rightarrow> B \<Rightarrow> B" where
  "removeFile env fileName p = syscall env p (\<lambda>w.
     (p, w\<lparr>cd_control := map_option (pm_del fileName) (cd_control w)\<rparr>))"

definition readFile :: "broker_env \<Rightarrow> string \<Rightarrow> (io_err + string \<Rightarrow> B) \<Rightarrow> B" where
  "readFile env fileName k = syscall env (k (Inl IOFail)) (\<lambda>w.
     case (case cd_control w of None \<Rightarrow> None | Some es \<Rightarrow> map_of es fileName) of
       None \<Rightarrow> (k (Inl NotExist), w)
     | Some SubDir \<Rightarrow> (k (Inl IOFail), w)
     | Some (RegFile i) \<Rightarrow> (k (Inr (cd_inodes w ! i)), w))"

text \<open>\<open>os.Rename\<close> from the control directory into \<open>consumed\<close>, replacing a file of that name.\<close>

definition renameFile :: "broker_env \<Rightarrow> string \<Rightarrow> (io_err option \<Rightarrow> B) \<Rightarrow> B" where
  "renameFile env fileName k = syscall env (k (Some IOFail)) (\<lambda>w.
     case (cd_control w, cd_consumed w) of
       (Some es, Some cs) \<Rightarrow>
         (case map_of es fileName of
            None \<Rightarrow> (k (Some NotExist), w)
          | Some e \<Rightarrow>
              if map_of cs fileName = Some SubDir \<and> e \<noteq> SubDir then (k (Some IOFail), w)
              else (k None, w\<lparr>cd_control := Some (pm_del fileName es), cd_consumed := Some (pm_put fileName e cs)\<rparr>))
     | _ \<Rightarrow> (k (Some NotExist), w))"

subsection \<open>Sending\<close>

text \<open>The largest sequence number of a name in a directory listing.\<close>

fun scanSeq :: "string \<Rightarrow> int \<Rightarrow> dirent pmap \<Rightarrow> int" where
  "scanSeq name maxSeq [] = maxSeq"
| "scanSeq name maxSeq ((fileName, e) # es) =
     (case (e, parseSignalFileName fileName) of
        (RegFile _, Some (n, s)) \<Rightarrow> scanSeq name (if n = name \<and> maxSeq < s then s else maxSeq) es
      | _ \<Rightarrow> scanSeq name maxSeq es)"

definition scanDir :: "broker_env \<Rightarrow> (control_dir \<Rightarrow> dirent pmap option) \<Rightarrow> string \<Rightarrow> int \<Rightarrow> (int option \<Rightarrow> B) \<Rightarrow> B" where
  "scanDir env dir name maxSeq k = readDir env dir (\<lambda>r.
     case r of
       Inl NotExist \<Rightarrow> k (Some maxSeq)
     | Inl _ \<Rightarrow> k None
     | Inr es \<Rightarrow> k (Some (scanSeq name maxSeq es)))"

definition nextSeq :: "broker_env \<Rightarrow> string \<Rightarrow> (int option \<Rightarrow> B) \<Rightarrow> B" where
  "nextSeq env name k =
     scanDir env cd_control name 0 (\<lambda>r. case r of
       None \<Rightarrow> k None
     | Some m \<Rightarrow> scanDir env cd_consumed name m (\<lambda>r. k (map_option (\<lambda>m. wrap64 (m + 1)) r)))"

fun write_attempts :: "nat \<Rightarrow> broker_env \<Rightarrow> string \<Rightarrow> string \<Rightarrow> B" where
  "write_attempts 0 env name payload = Ret (BErr Contended)"
| "write_attempts (Suc n) env name payload =
     nextSeq env name (\<lambda>r. case r of
       None \<Rightarrow> Ret (BErr ReadDirErr)
     | Some s \<Rightarrow>
         openExcl env (signalFileName name s) (\<lambda>r. case r of
           Inl Exist \<Rightarrow> write_attempts n env name payload
         | Inl _ \<Rightarrow> Ret (BErr OpenErr)
         | Inr ino \<Rightarrow>
             writeInode env ino payload (\<lambda>ok.
               if \<not> ok then removeFile env (signalFileName name s) (Ret (BErr WriteErr))
               else syscall env (Ret (BErr CloseErr)) (\<lambda>w. (Ret (BWrote s), w)))))"

definition WriteSignal :: "broker_env \<Rightarrow> string \<Rightarrow> string \<Rightarrow> B" where
  "WriteSignal env name payload =
     (if \<not> validateSignalName name then Ret (BErr BadName)
      else mkdirControl env (Ret (BErr MkdirErr)) (write_attempts 50 env name payload))"

subsection \<open>Receiving\<close>

fun candidates :: "string \<Rightarrow> dirent pmap \<Rightarrow> (int \<times> string) list" where
  "candidates name [] = []"
| "candidates name ((fileName, e) # es) =
     (case (e, parseSignalFileName fileName) of
        (RegFile _, Some (n, s)) \<Rightarrow> if n = name then (s, fileName) # candidates name es else candidates name es
      | _ \<Rightarrow> candidates name es)"

definition sortedCandidates :: "broker_env \<Rightarrow> string \<Rightarrow> ((int \<times> string) list option \<Rightarrow> B) \<Rightarrow> B" where
  "sortedCandidates env name k = readDir env cd_control (\<lambda>r.
     case r of
       Inl NotExist \<Rightarrow> k (Some [])
     | Inl _ \<Rightarrow> k None
     | Inr es \<Rightarrow> k (Some (sort_key fst (candidates name es))))"

text \<open>
  The tail both consumers share: claim the file by renaming it. \<open>claimed\<close> continues when another
  consumer was faster.
\<close>

definition claim :: "broker_env \<Rightarrow> string \<Rightarrow> B \<Rightarrow> (broker_err \<Rightarrow> B) \<Rightarrow> B \<Rightarrow> B" where
  "claim env fileName claimed failed p =
     mkdirConsumed env (failed MkdirErr) (
     renameFile env fileName (\<lambda>r. case r of
       None \<Rightarrow> p
     | Some NotExist \<Rightarrow> readFile env fileName (\<lambda>r. case r of
         Inl NotExist \<Rightarrow> claimed
       | Inl _ \<Rightarrow> failed VerifyErr
       | Inr _ \<Rightarrow> failed RenameErr)
     | Some _ \<Rightarrow> failed RenameErr))"

definition tryConsume :: "broker_env \<Rightarrow> string \<Rightarrow> (broker_err + Delivery option \<Rightarrow> B) \<Rightarrow> B" where
  "tryConsume env name k =
     sortedCandidates env name (\<lambda>r. case r of
       None \<Rightarrow> k (Inl ReadDirErr)
     | Some [] \<Rightarrow> k (Inr None)
     | Some ((s, fileName) # _) \<Rightarrow>
         readFile env fileName (\<lambda>r. case r of
           Inl NotExist \<Rightarrow> k (Inr None)
         | Inl _ \<Rightarrow> k (Inl ReadErr)
         | Inr payload \<Rightarrow>
             claim env fileName (k (Inr None)) (\<lambda>e. k (Inl e))
               (k (Inr (Some \<lparr>dl_Name = name, dl_Seq = s, dl_Payload = payload\<rparr>)))))"

fun consume_matching :: "broker_env \<Rightarrow> string \<Rightarrow> (string \<Rightarrow> bool) \<Rightarrow> (int \<times> string) list \<Rightarrow>
    (broker_err + Delivery option \<Rightarrow> B) \<Rightarrow> B" where
  "consume_matching env name mf [] k = k (Inr None)"
| "consume_matching env name mf ((s, fileName) # cs) k =
     readFile env fileName (\<lambda>r. case r of
       Inl NotExist \<Rightarrow> consume_matching env name mf cs k
     | Inl _ \<Rightarrow> k (Inl ReadErr)
     | Inr payload \<Rightarrow>
         if \<not> mf payload then consume_matching env name mf cs k
         else claim env fileName (consume_matching env name mf cs k) (\<lambda>e. k (Inl e))
                (k (Inr (Some \<lparr>dl_Name = name, dl_Seq = s, dl_Payload = payload\<rparr>))))"

definition tryConsumeMatching :: "broker_env \<Rightarrow> string \<Rightarrow> (string \<Rightarrow> bool) \<Rightarrow> (broker_err + Delivery option \<Rightarrow> B) \<Rightarrow> B" where
  "tryConsumeMatching env name mf k =
     sortedCandidates env name (\<lambda>r. case r of
       None \<Rightarrow> k (Inl ReadDirErr)
     | Some cs \<Rightarrow> consume_matching env name mf cs k)"

text \<open>The polling loop: one attempt, then one per tick until the context ends after \<open>n\<close> ticks.\<close>

fun poll :: "((broker_err + Delivery option \<Rightarrow> B) \<Rightarrow> B) \<Rightarrow> nat \<Rightarrow> B" where
  "poll attempt n = attempt (\<lambda>r. case r of
     Inl e \<Rightarrow> Ret (BErr e)
   | Inr (Some d) \<Rightarrow> Ret (BGot d)
   | Inr None \<Rightarrow> (case n of 0 \<Rightarrow> Ret (BErr CtxErr) | Suc m \<Rightarrow> poll attempt m))"

declare poll.simps [simp del]

definition Receive :: "broker_env \<Rightarrow> string \<Rightarrow> nat \<Rightarrow> B" where
  "Receive env name ticks =
     (if \<not> validateSignalName name then Ret (BErr BadName) else poll (tryConsume env name) ticks)"

definition ReceiveMatching :: "broker_env \<Rightarrow> string \<Rightarrow> (string \<Rightarrow> bool) option \<Rightarrow> nat \<Rightarrow> B" where
  "ReceiveMatching env name match ticks =
     (if \<not> validateSignalName name then Ret (BErr BadName)
      else case match of
             None \<Rightarrow> Receive env name ticks
           | Some m \<Rightarrow> poll (tryConsumeMatching env name m) ticks)"

fun drain_entries :: "broker_env \<Rightarrow> dirent pmap \<Rightarrow> Delivery list \<Rightarrow> B" where
  "drain_entries env [] acc = Ret (BDrained (rev acc))"
| "drain_entries env ((fileName, e) # es) acc =
     (case (e, parseSignalFileName fileName) of
        (RegFile _, Some (name, _)) \<Rightarrow>
          tryConsume env name (\<lambda>r. case r of
            Inr (Some d) \<Rightarrow> drain_entries env es (d # acc)
          | _ \<Rightarrow> drain_entries env es acc)
      | _ \<Rightarrow> drain_entries env es acc)"

definition Drain :: "broker_env \<Rightarrow> B" where
  "Drain env = readDir env cd_control (\<lambda>r. case r of Inl _ \<Rightarrow> Ret (BDrained []) | Inr es \<Rightarrow> drain_entries env es [])"

subsection \<open>Pause and cancel requests\<close>

definition pauseFileName :: string where
  "pauseFileName = ''pause.json''"

definition cancelFileName :: string where
  "cancelFileName = ''cancel.json''"

text \<open>\<open>json.Marshal\<close> of \<open>PauseRequest\<close> and \<open>CancelRequest\<close>: empty fields are omitted.\<close>

definition marshalPause :: "string \<Rightarrow> string \<Rightarrow> string" where
  "marshalPause nodePath reason =
     json_encode (VObject ((if nodePath = [] then [] else [(''node_path'', VString nodePath)])
       @ (if reason = [] then [] else [(''reason'', VString reason)])))"

definition marshalCancel :: "string \<Rightarrow> string" where
  "marshalCancel reason = json_encode (VObject (if reason = [] then [] else [(''reason'', VString reason)]))"

text \<open>\<open>os.WriteFile\<close>: create or truncate, then write; the two are separate calls.\<close>

definition openTrunc :: "broker_env \<Rightarrow> string \<Rightarrow> (nat option \<Rightarrow> B) \<Rightarrow> B" where
  "openTrunc env fileName k = syscall env (k None) (\<lambda>w.
     case cd_control w of
       None \<Rightarrow> (k None, w)
     | Some es \<Rightarrow>
         (case map_of es fileName of
            Some SubDir \<Rightarrow> (k None, w)
          | Some (RegFile i) \<Rightarrow> (k (Some i), w\<lparr>cd_inodes := (cd_inodes w)[i := []]\<rparr>)
          | None \<Rightarrow>
              let i = length (cd_inodes w)
              in (k (Some i), w\<lparr>cd_control := Some (pm_put fileName (RegFile i) es), cd_inodes := cd_inodes w @ [[]]\<rparr>)))"

definition writeControlJSON :: "broker_env \<Rightarrow> string \<Rightarrow> string \<Rightarrow> B" where
  "writeControlJSON env fileName data =
     mkdirControl env (Ret (BErr MkdirErr)) (
     openTrunc env fileName (\<lambda>r. case r of
       None \<Rightarrow> Ret (BErr OpenErr)
     | Some i \<Rightarrow> writeInode env i data (\<lambda>ok.
         if \<not> ok then Ret (BErr WriteErr) else syscall env (Ret (BErr CloseErr)) (\<lambda>w. (Ret BDone, w)))))"

definition WritePause :: "broker_env \<Rightarrow> string \<Rightarrow> string \<Rightarrow> B" where
  "WritePause env nodePath reason = writeControlJSON env pauseFileName (marshalPause nodePath reason)"

definition WriteCancel :: "broker_env \<Rightarrow> string \<Rightarrow> B" where
  "WriteCancel env reason = writeControlJSON env cancelFileName (marshalCancel reason)"

definition maxControlFileBytes :: nat where
  "maxControlFileBytes = 64 * 1024"

definition readControlFile :: "broker_env \<Rightarrow> string \<Rightarrow> (io_err + string option \<Rightarrow> B) \<Rightarrow> B" where
  "readControlFile env fileName k = readFile env fileName (\<lambda>r. case r of
     Inl NotExist \<Rightarrow> k (Inr None)
   | Inl e \<Rightarrow> k (Inl e)
   | Inr data \<Rightarrow> k (Inr (Some (take maxControlFileBytes data))))"

text \<open>
  \<open>decode\<close> is \<open>json.Unmarshal\<close> into the request's fields: the fields it could decode, none when
  the body is malformed.
\<close>

definition CheckPauseCancel :: "broker_env \<Rightarrow> (string \<Rightarrow> string pmap) \<Rightarrow> B" where
  "CheckPauseCancel env decode =
     readControlFile env pauseFileName (\<lambda>r. case r of
       Inl _ \<Rightarrow> Ret (BErr ReadErr)
     | Inr pause \<Rightarrow>
         readControlFile env cancelFileName (\<lambda>r. case r of
           Inl _ \<Rightarrow> Ret (BErr ReadErr)
         | Inr cancel \<Rightarrow>
             let field = (\<lambda>k m. case map_of m k of None \<Rightarrow> [] | Some s \<Rightarrow> s)
             in Ret (BControl
                  (map_option (\<lambda>d. (field ''node_path'' (decode d), field ''reason'' (decode d))) pause)
                  (map_option (\<lambda>d. field ''reason'' (decode d)) cancel))))"

text \<open>\<open>os.Remove\<close> of one request; a missing file is not an error.\<close>

definition clearFile :: "broker_env \<Rightarrow> string \<Rightarrow> B \<Rightarrow> B" where
  "clearFile env fileName p = syscall env (Ret (BErr OpenErr)) (\<lambda>w.
     (p, w\<lparr>cd_control := map_option (pm_del fileName) (cd_control w)\<rparr>))"

definition ClearPauseCancel :: "broker_env \<Rightarrow> B" where
  "ClearPauseCancel env = clearFile env pauseFileName (clearFile env cancelFileName (Ret BDone))"

subsection \<open>Names and numbers\<close>

text \<open>The names whose files are found again: valid, and not ending in the separator.\<close>

definition good_name :: "string \<Rightarrow> bool" where
  "good_name name = (validateSignalName name \<and> last name \<noteq> CHR ''-'')"

lemma itoa_pos_digits: "0 \<le> i \<Longrightarrow> c \<in> set (itoa i) \<Longrightarrow> isDigit c"
  using nat_digits_digits [of "nat i"] by (simp add: itoa_def list_all_iff)

lemma lastDash_append: "CHR ''-'' \<notin> set t \<Longrightarrow> lastDash (s @ CHR ''-'' # t) = Some (length s)"
proof -
  assume t: "CHR ''-'' \<notin> set t"
  have "takeWhile (\<lambda>c. c \<noteq> CHR ''-'') (rev t @ CHR ''-'' # rev s) = rev t"
    using t by (subst takeWhile_append2) auto
  then show ?thesis by (simp add: lastDash_def Let_def)
qed

lemma validateSignalName_not_Nil: "validateSignalName name \<Longrightarrow> name \<noteq> []"
  by (auto simp: validateSignalName_def)

lemma parse_signalFileName:
  assumes "good_name name" and "1 \<le> s" and "s < 2 ^ 63"
  shows "parseSignalFileName (signalFileName name s) = Some (name, s)"
proof -
  have n: "name \<noteq> []" "last name \<noteq> CHR ''-''"
    using assms(1) validateSignalName_not_Nil by (auto simp: good_name_def)
  have "CHR ''-'' \<notin> set (itoa s)" using itoa_pos_digits [of s] assms(2) isDigit_not_sign by fastforce
  then have "lastDash (name @ CHR ''-'' # itoa s) = Some (length name)" by (rule lastDash_append)
  moreover have "parse_int64 (itoa s) = Some s" using assms by (intro parse_int64_itoa) auto
  moreover have "signalFileName name s = ''signal-'' @ (name @ CHR ''-'' # itoa s) @ ''.json''"
    by (simp add: signalFileName_def)
  then have "hasPrefix (signalFileName name s) ''signal-''" "hasSuffix (signalFileName name s) ''.json''"
    "trimSuffix (trimPrefix (signalFileName name s) ''signal-'') ''.json'' = name @ CHR ''-'' # itoa s"
    using hasSuffix_append [of "''signal-'' @ name @ CHR ''-'' # itoa s" "''.json''"]
      trimPrefix_append [of "''signal-''" "(name @ CHR ''-'' # itoa s) @ ''.json''"]
      hasPrefix_append [of "''signal-''" "(name @ CHR ''-'' # itoa s) @ ''.json''"]
      trimSuffix_append [of "name @ CHR ''-'' # itoa s" "''.json''"]
    by (simp_all del: hasPrefix_append trimPrefix_append hasSuffix_append trimSuffix_append append.append_Cons)
  ultimately show ?thesis using n assms(2) by (simp add: parseSignalFileName_def)
qed

lemma parse_bounds: "parseSignalFileName fileName = Some (name, s) \<Longrightarrow> 1 \<le> s \<and> s < 2 ^ 63"
  by (auto simp: parseSignalFileName_def parse_int64_def Let_def split: if_splits option.splits)

lemma candidates_iff:
  "(s, fileName) \<in> set (candidates name es)
     \<longleftrightarrow> (\<exists>i. (fileName, RegFile i) \<in> set es \<and> parseSignalFileName fileName = Some (name, s))"
  by (induction name es rule: candidates.induct) (auto split: dirent.splits option.splits)

lemma scanSeq_fold: "scanSeq name m es = fold max (map fst (candidates name es)) m"
  by (induction name m es rule: scanSeq.induct) (auto simp: max_def split: dirent.splits option.splits)

lemma scanSeq_Max: "scanSeq name m es = Max (insert m (fst ` set (candidates name es)))"
  using Max.set_eq_fold [of m "map fst (candidates name es)"] by (simp add: scanSeq_fold)

subsection \<open>The directory as a queue\<close>

definition entries :: "dirent pmap option \<Rightarrow> dirent pmap" where
  "entries d = (case d of None \<Rightarrow> [] | Some es \<Rightarrow> es)"

definition content :: "control_dir \<Rightarrow> string \<Rightarrow> string" where
  "content w fileName = (case map_of (entries (cd_control w)) fileName of Some (RegFile i) \<Rightarrow> cd_inodes w ! i | _ \<Rightarrow> [])"

definition pending :: "control_dir \<Rightarrow> string \<Rightarrow> (int \<times> string) list" where
  "pending w name = map (\<lambda>(s, fileName). (s, content w fileName)) (sort_key fst (candidates name (entries (cd_control w))))"

text \<open>The largest number given out for a name so far.\<close>

definition used :: "control_dir \<Rightarrow> string \<Rightarrow> int" where
  "used w name = scanSeq name (scanSeq name 0 (entries (cd_control w))) (entries (cd_consumed w))"

definition listing_ok :: "dirent pmap \<Rightarrow> bool" where
  "listing_ok es \<longleftrightarrow> distinct (map fst es)
     \<and> list_all (\<lambda>(fileName, e). case parseSignalFileName fileName of
          None \<Rightarrow> True
        | Some (name, s) \<Rightarrow> e \<noteq> SubDir \<and> fileName = signalFileName name s) es"

definition dir_ok :: "control_dir \<Rightarrow> bool" where
  "dir_ok w \<longleftrightarrow> listing_ok (entries (cd_control w)) \<and> listing_ok (entries (cd_consumed w))
     \<and> list_all (\<lambda>(_, e). case e of SubDir \<Rightarrow> True | RegFile i \<Rightarrow> i < length (cd_inodes w)) (entries (cd_control w))"

definition calm :: "broker_env \<Rightarrow> bool" where
  "calm env \<longleftrightarrow> (\<forall>n. \<not> be_fault env n)"

lemma listing_okD:
  assumes "listing_ok es" and "(fileName, e) \<in> set es" and "parseSignalFileName fileName = Some (name, s)"
  shows "e \<noteq> SubDir" and "fileName = signalFileName name s" and "map_of es fileName = Some e"
  using assms by (auto simp: listing_ok_def list_all_iff split_def)

lemma candidates_distinct:
  "listing_ok es \<Longrightarrow> distinct (map fst (candidates name es))"
proof (induction es)
  case (Cons x es)
  obtain fileName e where x: "x = (fileName, e)" by fastforce
  have ok: "listing_ok es" using Cons.prems by (auto simp: listing_ok_def)
  have "s \<notin> fst ` set (candidates name es)" if p: "parseSignalFileName fileName = Some (name, s)" for s
  proof
    assume "s \<in> fst ` set (candidates name es)"
    then obtain f where "(s, f) \<in> set (candidates name es)" by force
    then obtain i where f: "(f, RegFile i) \<in> set es" "parseSignalFileName f = Some (name, s)"
      by (auto simp: candidates_iff)
    then have "f = fileName"
      using listing_okD(2) [OF ok f] listing_okD(2) [OF Cons.prems _ p, of e] x by simp
    with f Cons.prems x show False by (force simp: listing_ok_def)
  qed
  with Cons.IH [OF ok] x show ?case by (auto split: dirent.splits option.splits)
qed simp

lemma sort_key_unique:
  assumes "distinct (map f xs)" and "mset ys = mset xs"
  shows "sort_key f ys = sort_key f xs"
proof (rule map_sorted_distinct_set_unique [where f = f])
  have "set ys = set xs" "distinct (map f ys)"
    using assms by (auto dest: mset_eq_setD) (metis mset_map mset_eq_imp_distinct_iff)
  then show "inj_on f (set (sort_key f ys) \<union> set (sort_key f xs))" "set (sort_key f ys) = set (sort_key f xs)"
    using assms(1) by (simp_all add: distinct_map)
  have d: "distinct (map f (sort_key f zs))" if "distinct (map f zs)" for zs
    using that by (simp add: distinct_map)
  show "distinct (map f (sort_key f ys))" "distinct (map f (sort_key f xs))"
    using d \<open>distinct (map f ys)\<close> assms(1) by blast+
qed simp_all

lemma mset_candidates: "mset es = mset es' \<Longrightarrow> mset (candidates name es) = mset (candidates name es')"
proof -
  have c: "candidates name es = concat (map (\<lambda>x. candidates name [x]) es)" for es
    by (induction es) (auto split: dirent.splits option.splits)
  assume "mset es = mset es'"
  then show ?thesis by (subst (1 2) c) (simp add: mset_concat flip: sum_mset_sum_list)
qed

lemma insort_last: "(\<And>y. y \<in> set ys \<Longrightarrow> f y < f x) \<Longrightarrow> insort_key f x ys = ys @ [x]"
  by (induction ys) force+

subsection \<open>Calls without faults\<close>

lemma exec_syscall: "calm env \<Longrightarrow> exec (syscall env failed act) w = (case act (called w) of (p, w') \<Rightarrow> exec p w')"
  by (simp add: syscall_def exec_Act calm_def)

lemma called_sel [simp]:
  "cd_control (called w) = cd_control w" "cd_consumed (called w) = cd_consumed w" "cd_inodes (called w) = cd_inodes w"
  by (simp_all add: called_def)

lemma exec_scanDir:
  assumes "calm env"
  shows "exec (scanDir env dir name m k) w = exec (k (Some (scanSeq name m (entries (dir (called w)))))) (called w)"
proof (cases "dir (called w)")
  case (Some es)
  have "scanSeq name m (sort_by (\<lambda>a b. str_le (fst a) (fst b)) es) = scanSeq name m es"
    unfolding scanSeq_Max using mset_candidates [of "sort_by (\<lambda>a b. str_le (fst a) (fst b)) es" es name]
    by (metis mset_eq_setD mset_sort_by)
  with Some assms show ?thesis by (simp add: scanDir_def readDir_def exec_syscall entries_def)
qed (use assms in \<open>simp add: scanDir_def readDir_def exec_syscall entries_def\<close>)

lemma exec_sortedCandidates:
  assumes "calm env" and "listing_ok (entries (cd_control w))"
  shows "exec (sortedCandidates env name k) w
     = exec (k (Some (sort_key fst (candidates name (entries (cd_control w)))))) (called w)"
proof (cases "cd_control w")
  case (Some es)
  have "sort_key fst (candidates name (sort_by (\<lambda>a b. str_le (fst a) (fst b)) es)) = sort_key fst (candidates name es)"
    using candidates_distinct assms(2) Some mset_candidates [OF mset_sort_by]
    by (intro sort_key_unique) (simp_all add: entries_def)
  with Some assms(1) show ?thesis by (simp add: sortedCandidates_def readDir_def exec_syscall entries_def)
qed (use assms in \<open>simp add: sortedCandidates_def readDir_def exec_syscall entries_def\<close>)

text \<open>A send: a new file with the next number, holding the payload.\<close>

definition after_send :: "string \<Rightarrow> string \<Rightarrow> control_dir \<Rightarrow> control_dir" where
  "after_send name payload w =
     w\<lparr>cd_control := Some ((signalFileName name (used w name + 1), RegFile (length (cd_inodes w))) # entries (cd_control w)),
       cd_inodes := cd_inodes w @ [payload], cd_calls := cd_calls w + 6\<rparr>"

lemma used_bounds:
  "0 \<le> used w name"
  "(s, f) \<in> set (candidates name (entries (cd_control w))) \<Longrightarrow> s \<le> used w name"
  "(s, f) \<in> set (candidates name (entries (cd_consumed w))) \<Longrightarrow> s \<le> used w name"
  unfolding used_def scanSeq_Max by (force simp: Max_ge_iff)+

lemma next_name_free:
  assumes "good_name name" and "dir_ok w" and "used w name < 2 ^ 63 - 1"
  shows "map_of (entries (cd_control w)) (signalFileName name (used w name + 1)) = None"
proof (rule ccontr)
  let ?f = "signalFileName name (used w name + 1)"
  assume "map_of (entries (cd_control w)) ?f \<noteq> None"
  then obtain e where e: "(?f, e) \<in> set (entries (cd_control w))" by (auto dest: map_of_SomeD)
  have p: "parseSignalFileName ?f = Some (name, used w name + 1)"
    using assms used_bounds(1) [of w name] by (intro parse_signalFileName) auto
  then have "e \<noteq> SubDir" using listing_okD(1) [OF _ e p] assms(2) by (simp add: dir_ok_def)
  then obtain i where "e = RegFile i" by (cases e) auto
  then have "(used w name + 1, ?f) \<in> set (candidates name (entries (cd_control w)))"
    using e p by (auto simp: candidates_iff)
  then show False using used_bounds(2) by fastforce
qed

lemma exec_WriteSignal_free:
  assumes "calm env" and "validateSignalName name" and "used w name < 2 ^ 63 - 1"
    and free: "map_of (entries (cd_control w)) (signalFileName name (used w name + 1)) = None"
  shows "exec (WriteSignal env name payload) w = (BWrote (used w name + 1), after_send name payload w)"
proof -
  let ?es = "entries (cd_control w)"
  have put: "pm_put (signalFileName name (used w name + 1)) e ?es = (signalFileName name (used w name + 1), e) # ?es" for e
    using free by (force simp: pm_put_def map_of_eq_None_iff intro!: filter_True)
  have w: "wrap64 (used w name + 1) = used w name + 1" using assms(3) used_bounds(1) [of w name] by (intro wrap64_id) auto
  let ?w = "(called w)\<lparr>cd_control := Some ?es\<rparr>"
  have start: "exec (WriteSignal env name payload) w = exec (write_attempts 50 env name payload) ?w"
    using assms(1,2) by (simp add: WriteSignal_def mkdirControl_def exec_syscall entries_def)
  have u: "scanSeq name (scanSeq name 0 ?es) (entries (cd_consumed w)) = used w name" by (simp add: used_def)
  have nxt: "exec (nextSeq env name k) ?w = exec (k (Some (used w name + 1))) (called (called ?w))" for k
    using assms(1) w u by (simp add: nextSeq_def exec_scanDir) (simp add: entries_def)
  have fifty: "(50 :: nat) = Suc 49" by simp
  show ?thesis
    unfolding start fifty write_attempts.simps(2) nxt
    using assms(1) free put
    by (simp add: exec_syscall openExcl_def writeInode_def exec_Act calm_def after_send_def Let_def)
      (simp add: called_def)
qed

lemma exec_WriteSignal:
  assumes "calm env" and "good_name name" and "dir_ok w" and "used w name < 2 ^ 63 - 1"
  shows "exec (WriteSignal env name payload) w = (BWrote (used w name + 1), after_send name payload w)"
  using assms next_name_free [OF assms(2-4)] by (intro exec_WriteSignal_free) (simp_all add: good_name_def)

lemma next_name_parses:
  "good_name name \<Longrightarrow> used w name < 2 ^ 63 - 1 \<Longrightarrow>
     parseSignalFileName (signalFileName name (used w name + 1)) = Some (name, used w name + 1)"
  using used_bounds(1) [of w name] by (intro parse_signalFileName) auto

lemma entries_Some [simp]: "entries (Some es) = es"
  by (simp add: entries_def)

lemma send_dir_ok:
  assumes "good_name name" and "dir_ok w" and "used w name < 2 ^ 63 - 1"
  shows "dir_ok (after_send name payload w)"
proof -
  have "signalFileName name (used w name + 1) \<notin> fst ` set (entries (cd_control w))"
    using next_name_free [OF assms] by (simp add: map_of_eq_None_iff)
  with assms(2) next_name_parses [OF assms(1,3)] show ?thesis
    by (auto simp: dir_ok_def listing_ok_def after_send_def list_all_iff split: dirent.splits)
qed

lemma send_content:
  assumes "dir_ok w" and "map_of (entries (cd_control w)) f \<noteq> None" and "good_name name" and "used w name < 2 ^ 63 - 1"
  shows "content (after_send name payload w) f = content w f"
proof -
  have "f \<noteq> signalFileName name (used w name + 1)" using next_name_free [OF assms(3,1,4)] assms(2) by auto
  moreover have "i < length (cd_inodes w)" if "map_of (entries (cd_control w)) f = Some (RegFile i)" for i
    using map_of_SomeD [OF that] assms(1) by (auto simp: dir_ok_def list_all_iff)
  ultimately show ?thesis
    by (auto simp: content_def after_send_def nth_append split: option.splits dirent.splits)
qed

lemma candidates_listed: "(s, f) \<in> set (candidates name es) \<Longrightarrow> map_of es f \<noteq> None"
  unfolding map_of_eq_None_iff candidates_iff by (metis fst_conv imageI)

lemma send_pending:
  assumes "good_name name" and "dir_ok w" and "used w name < 2 ^ 63 - 1"
  shows "pending (after_send name payload w) = (pending w)(name := pending w name @ [(used w name + 1, payload)])"
proof
  fix m
  let ?es = "entries (cd_control w)" and ?f = "signalFileName name (used w name + 1)"
  have keep: "map (\<lambda>(s, f). (s, content (after_send name payload w) f)) (sort_key fst (candidates m ?es)) = pending w m"
    unfolding pending_def using candidates_listed send_content [OF assms(2) _ assms(1,3)] by (intro map_cong) auto
  have new: "content (after_send name payload w) ?f = payload" by (simp add: content_def after_send_def)
  have es: "entries (cd_control (after_send name payload w)) = (?f, RegFile (length (cd_inodes w))) # ?es"
    by (simp add: after_send_def)
  have "insort_key fst (used w name + 1, ?f) (sort_key fst (candidates name ?es))
      = sort_key fst (candidates name ?es) @ [(used w name + 1, ?f)]"
    using used_bounds(2) [of _ _ name w] by (intro insort_last) force
  then show "pending (after_send name payload w) m
      = ((pending w)(name := pending w name @ [(used w name + 1, payload)])) m"
    using next_name_parses [OF assms(1,3)] keep new unfolding pending_def es by auto
qed

lemma used_union: "used w m = Max (insert 0 (fst ` set (candidates m (entries (cd_control w))) \<union> fst ` set (candidates m (entries (cd_consumed w)))))"
proof -
  have "Max (insert (Max (insert a A)) B) = Max (insert a (A \<union> B))" if "finite A" "finite B" for a :: int and A B
    using that by (cases "B = {}"; cases "A = {}") (simp_all add: Max_Un max.assoc max.commute max.left_commute)
  then show ?thesis unfolding used_def scanSeq_Max by simp
qed

lemma send_used:
  assumes "good_name name" and "used w name < 2 ^ 63 - 1"
  shows "used (after_send name payload w) = (used w)(name := used w name + 1)"
proof
  fix m
  let ?A = "fst ` set (candidates m (entries (cd_control w))) \<union> fst ` set (candidates m (entries (cd_consumed w)))"
  have "Max (insert (used w name + 1) (insert 0 ?A)) = used w name + 1" if "m = name"
    using used_union [of w m] that by (subst Max_insert) auto
  then show "used (after_send name payload w) m = ((used w)(name := used w name + 1)) m"
    using next_name_parses [OF assms] by (auto simp: used_union after_send_def insert_commute)
qed

text \<open>A receive: the claimed file has moved to \<open>consumed\<close>.\<close>

definition taken :: "string \<Rightarrow> control_dir \<Rightarrow> control_dir" where
  "taken f w = w\<lparr>cd_control := Some (pm_del f (entries (cd_control w))),
     cd_consumed := Some (case map_of (entries (cd_control w)) f of
        None \<Rightarrow> entries (cd_consumed w) | Some e \<Rightarrow> pm_put f e (entries (cd_consumed w)))\<rparr>"

definition claimable :: "control_dir \<Rightarrow> string \<Rightarrow> bool" where
  "claimable w f \<longleftrightarrow> (\<exists>i. map_of (entries (cd_control w)) f = Some (RegFile i))
     \<and> map_of (entries (cd_consumed w)) f \<noteq> Some SubDir"

lemma claimable_candidate:
  assumes "dir_ok w" and "(s, f) \<in> set (candidates name (entries (cd_control w)))"
  shows "claimable w f"
proof -
  from assms(2) obtain i where i: "(f, RegFile i) \<in> set (entries (cd_control w))" "parseSignalFileName f = Some (name, s)"
    by (auto simp: candidates_iff)
  have "map_of (entries (cd_control w)) f = Some (RegFile i)"
    using assms(1) listing_okD(3) [OF _ i] by (simp add: dir_ok_def)
  moreover have "map_of (entries (cd_consumed w)) f \<noteq> Some SubDir"
    using assms(1) listing_okD(1) [OF _ _ i(2)] map_of_SomeD by (fastforce simp: dir_ok_def)
  ultimately show ?thesis by (simp add: claimable_def)
qed

lemma exec_readFile:
  assumes "calm env" and "claimable w f"
  shows "exec (readFile env f k) w = exec (k (Inr (content w f))) (called w)"
  using assms
  by (auto simp: readFile_def exec_syscall claimable_def content_def entries_def split: option.splits)

lemma exec_claim:
  assumes "calm env" and "claimable w f"
  shows "exec (claim env f claimed failed p) w = exec p ((taken f w)\<lparr>cd_calls := Suc (Suc (cd_calls w))\<rparr>)"
proof -
  from assms(2) obtain es i where "cd_control w = Some es" "map_of es f = Some (RegFile i)"
    by (auto simp: claimable_def entries_def split: option.splits)
  with assms show ?thesis
    by (cases w)
      (auto simp: claim_def mkdirConsumed_def renameFile_def exec_syscall taken_def claimable_def called_def entries_def
        split: option.split)
qed

lemma called_again [simp]: "called (w\<lparr>cd_calls := c\<rparr>) = w\<lparr>cd_calls := Suc c\<rparr>"
  by (simp add: called_def)

lemma calls_irrelevant [simp]:
  "claimable (w\<lparr>cd_calls := c\<rparr>) f = claimable w f" "content (w\<lparr>cd_calls := c\<rparr>) f = content w f"
  "(taken f (w\<lparr>cd_calls := c\<rparr>))\<lparr>cd_calls := c'\<rparr> = (taken f w)\<lparr>cd_calls := c'\<rparr>"
  by (simp_all add: claimable_def content_def taken_def split: option.split dirent.split)

lemma exec_consume_matching:
  assumes "calm env" and "\<And>s f. (s, f) \<in> set cs \<Longrightarrow> claimable w f"
  shows "\<exists>c. exec (consume_matching env name mf cs k) (w\<lparr>cd_calls := c0\<rparr>) =
     (case find (\<lambda>(s, f). mf (content w f)) cs of
        None \<Rightarrow> exec (k (Inr None)) (w\<lparr>cd_calls := c\<rparr>)
      | Some (s, f) \<Rightarrow> exec (k (Inr (Some \<lparr>dl_Name = name, dl_Seq = s, dl_Payload = content w f\<rparr>)))
          ((taken f w)\<lparr>cd_calls := c\<rparr>))"
  using assms(2)
proof (induction cs arbitrary: c0)
  case Nil
  show ?case by (intro exI [of _ c0]) simp
next
  case (Cons x cs)
  obtain s f where x: "x = (s, f)" by fastforce
  have cl: "claimable (w\<lparr>cd_calls := c0\<rparr>) f" using Cons.prems [of s f] x by simp
  show ?case
  proof (cases "mf (content w f)")
    case True
    then show ?thesis
      using exec_claim [OF assms(1), of "w\<lparr>cd_calls := Suc c0\<rparr>" f] cl x
      by (intro exI [of _ "Suc (Suc (Suc c0))"]) (simp add: exec_readFile [OF assms(1) cl])
  next
    case False
    have "claimable w f'" if "(s', f') \<in> set cs" for s' f' using that Cons.prems by (meson list.set_intros(2))
    with Cons.IH [of "Suc c0"] False x show ?thesis by (simp add: exec_readFile [OF assms(1) cl])
  qed
qed

subsection \<open>First in, first out\<close>

text \<open>Taking the first element with a payload that matches.\<close>

fun takeFirst :: "(string \<Rightarrow> bool) \<Rightarrow> (int \<times> string) list \<Rightarrow> (int \<times> string) option \<times> (int \<times> string) list" where
  "takeFirst mf [] = (None, [])"
| "takeFirst mf ((s, p) # q) =
     (if mf p then (Some (s, p), q) else (case takeFirst mf q of (r, q') \<Rightarrow> (r, (s, p) # q')))"

lemma takeFirst_find:
  assumes "distinct (map fst cs)"
  shows "takeFirst mf (map (\<lambda>(s, f). (s, g f)) cs) =
     (case find (\<lambda>(s, f). mf (g f)) cs of
        None \<Rightarrow> (None, map (\<lambda>(s, f). (s, g f)) cs)
      | Some (s, f) \<Rightarrow> (Some (s, g f), map (\<lambda>(s, f). (s, g f)) (filter (\<lambda>(s', f'). s' \<noteq> s) cs)))"
  using assms
proof (induction cs)
  case (Cons x cs)
  obtain s f where x: "x = (s, f)" by fastforce
  have "filter (\<lambda>(s', f'). s' \<noteq> s) cs = cs" using Cons.prems x by (force intro!: filter_True)
  moreover have "s' \<noteq> s" if "find (\<lambda>(s, f). mf (g f)) cs = Some (s', f')" for s' f'
    using Cons.prems x that by (force simp: find_Some_iff in_set_conv_nth)
  ultimately show ?case using Cons x by (auto split: option.splits)
qed simp

lemma candidates_del:
  "candidates name (pm_del f es) = filter (\<lambda>(_, f'). f' \<noteq> f) (candidates name es)"
  by (induction name es rule: candidates.induct) (auto simp: pm_del_def split: dirent.splits option.splits)

lemma taken_simps [simp]:
  "entries (cd_control (taken f w)) = pm_del f (entries (cd_control w))"
  "cd_inodes (taken f w) = cd_inodes w"
  by (simp_all add: taken_def)

lemma taken_dir_ok:
  assumes "dir_ok w"
  shows "dir_ok ((taken f w)\<lparr>cd_calls := c\<rparr>)"
proof -
  have del: "listing_ok (pm_del f es)" if "listing_ok es" for es
    using that by (auto simp: listing_ok_def pm_del_def list_all_iff distinct_map_filter)
  have put: "listing_ok (pm_put f e cs)" if "listing_ok cs" "listing_ok es" "(f, e) \<in> set es" for cs es e
    using that del [of cs] by (auto simp: listing_ok_def pm_put_def pm_del_def list_all_iff)
  have "listing_ok (entries (cd_consumed (taken f w)))"
    using assms put by (auto simp: taken_def dir_ok_def split: option.split dest: map_of_SomeD)
  with assms del show ?thesis by (auto simp: dir_ok_def pm_del_def list_all_iff)
qed

lemma taken_used:
  assumes "claimable w f"
  shows "used (taken f w) = used w"
proof
  fix m
  from assms obtain i where i: "map_of (entries (cd_control w)) f = Some (RegFile i)"
    by (auto simp: claimable_def)
  have "(s, g) \<in> set (candidates m (entries (cd_control (taken f w)))) \<union> set (candidates m (entries (cd_consumed (taken f w))))
      \<longleftrightarrow> (s, g) \<in> set (candidates m (entries (cd_control w))) \<union> set (candidates m (entries (cd_consumed w)))" for s g
    using i map_of_SomeD [OF i]
    by (cases "g = f") (auto simp: candidates_iff taken_def pm_del_def pm_put_def simp del: candidates.simps)
  then have "set (candidates m (entries (cd_control (taken f w)))) \<union> set (candidates m (entries (cd_consumed (taken f w))))
      = set (candidates m (entries (cd_control w))) \<union> set (candidates m (entries (cd_consumed w)))"
    by (intro set_eqI) (metis surj_pair)
  then show "used (taken f w) m = used w m" unfolding used_union image_Un [symmetric] by simp
qed

lemma taken_content: "g \<noteq> f \<Longrightarrow> content (taken f w) g = content w g"
  by (simp add: content_def map_of_pm_del split: option.split dirent.split)

lemma candidates_same_name:
  assumes "listing_ok es" and "(s, f) \<in> set (candidates name es)" and "(s', f') \<in> set (candidates m es)"
  shows "f' = f \<longleftrightarrow> m = name \<and> s' = s"
proof -
  from assms(2,3) have "parseSignalFileName f = Some (name, s)" "parseSignalFileName f' = Some (m, s')"
    by (auto simp: candidates_iff)
  moreover have "f = signalFileName name s" "f' = signalFileName m s'"
    using assms(2,3) listing_okD(2) [OF assms(1)] by (metis candidates_iff)+
  ultimately show ?thesis by (metis option.inject prod.inject)
qed

lemma taken_pending:
  assumes "dir_ok w" and "(s, f) \<in> set (candidates name (entries (cd_control w)))"
  shows "pending (taken f w) = (pending w)(name := filter (\<lambda>(s', _). s' \<noteq> s) (pending w name))"
proof
  fix m
  let ?cs = "\<lambda>m. candidates m (entries (cd_control w))"
  have ok: "listing_ok (entries (cd_control w))" using assms(1) by (simp add: dir_ok_def)
  have "filter (\<lambda>(_, f'). f' \<noteq> f) (?cs m) = filter (\<lambda>(s', _). \<not> (m = name \<and> s' = s)) (?cs m)"
    using candidates_same_name [OF ok assms(2)] by (intro filter_cong) auto
  then have "pending (taken f w) m = map (\<lambda>(s', f'). (s', content (taken f w) f'))
      (filter (\<lambda>(s', _). \<not> (m = name \<and> s' = s)) (sort_key fst (?cs m)))"
    by (simp add: pending_def candidates_del filter_sort)
  also have "\<dots> = map (\<lambda>(s', f'). (s', content w f')) (filter (\<lambda>(s', _). \<not> (m = name \<and> s' = s)) (sort_key fst (?cs m)))"
    using candidates_same_name [OF ok assms(2)] taken_content by (intro map_cong) fastforce+
  also have "\<dots> = ((pending w)(name := filter (\<lambda>(s', _). s' \<noteq> s) (pending w name))) m"
    by (auto simp: pending_def filter_map o_def split_def)
  finally show "pending (taken f w) m = ((pending w)(name := filter (\<lambda>(s', _). s' \<noteq> s) (pending w name))) m" .
qed

text \<open>What a consumer does to the queue, whatever follows it.\<close>

definition consumes :: "((broker_err + Delivery option \<Rightarrow> B) \<Rightarrow> B) \<Rightarrow> string \<Rightarrow> (string \<Rightarrow> bool) \<Rightarrow> bool" where
  "consumes attempt name mf \<longleftrightarrow> (\<forall>k w. dir_ok w \<longrightarrow> (\<exists>w'.
     exec (attempt k) w = exec (k (Inr (map_option (\<lambda>(s, p). \<lparr>dl_Name = name, dl_Seq = s, dl_Payload = p\<rparr>)
         (fst (takeFirst mf (pending w name)))))) w'
     \<and> dir_ok w' \<and> pending w' = (pending w)(name := snd (takeFirst mf (pending w name))) \<and> used w' = used w))"

lemma calls_kept [simp]:
  "dir_ok (w\<lparr>cd_calls := c\<rparr>) = dir_ok w" "pending (w\<lparr>cd_calls := c\<rparr>) = pending w" "used (w\<lparr>cd_calls := c\<rparr>) = used w"
  by (simp_all add: dir_ok_def fun_eq_iff pending_def used_def cong: dirent.case_cong)

lemma consumes_matching:
  assumes "calm env"
  shows "consumes (tryConsumeMatching env name mf) name mf"
  unfolding consumes_def
proof (intro allI impI)
  fix k and w assume w: "dir_ok w"
  let ?cs = "sort_key fst (candidates name (entries (cd_control w)))"
  have ok: "listing_ok (entries (cd_control w))" using w by (simp add: dir_ok_def)
  have start: "exec (tryConsumeMatching env name mf k) w
      = exec (consume_matching env name mf ?cs k) (w\<lparr>cd_calls := Suc (cd_calls w)\<rparr>)"
    unfolding tryConsumeMatching_def exec_sortedCandidates [OF assms ok] by (simp add: called_def)
  have "claimable w f" if "(s, f) \<in> set ?cs" for s f using claimable_candidate [OF w] that by auto
  then obtain c where
    c: "exec (tryConsumeMatching env name mf k) w = (case find (\<lambda>(s, f). mf (content w f)) ?cs of
        None \<Rightarrow> exec (k (Inr None)) (w\<lparr>cd_calls := c\<rparr>)
      | Some (s, f) \<Rightarrow> exec (k (Inr (Some \<lparr>dl_Name = name, dl_Seq = s, dl_Payload = content w f\<rparr>)))
          ((taken f w)\<lparr>cd_calls := c\<rparr>))"
    unfolding start using exec_consume_matching [OF assms, of ?cs w name mf k "Suc (cd_calls w)"] by blast
  have d: "distinct (map fst ?cs)" using candidates_distinct [OF ok] by (simp add: distinct_map)
  note first = takeFirst_find [OF d, of mf "content w", folded pending_def]
  show "\<exists>w'. exec (tryConsumeMatching env name mf k) w
      = exec (k (Inr (map_option (\<lambda>(s, p). \<lparr>dl_Name = name, dl_Seq = s, dl_Payload = p\<rparr>)
          (fst (takeFirst mf (pending w name)))))) w'
      \<and> dir_ok w' \<and> pending w' = (pending w)(name := snd (takeFirst mf (pending w name))) \<and> used w' = used w"
  proof (cases "find (\<lambda>(s, f). mf (content w f)) ?cs")
    case None
    with c first w show ?thesis by (intro exI [of _ "w\<lparr>cd_calls := c\<rparr>"]) simp
  next
    case (Some x)
    obtain s f where x: "x = (s, f)" by fastforce
    then have m: "(s, f) \<in> set (candidates name (entries (cd_control w)))" using Some by (metis find_Some_iff nth_mem set_sort)
    have "map (\<lambda>(s', f'). (s', content w f')) (filter (\<lambda>(s', f'). s' \<noteq> s) ?cs) = filter (\<lambda>(s', _). s' \<noteq> s) (pending w name)"
      by (simp add: pending_def filter_map o_def split_def)
    with c first Some x taken_dir_ok [OF w] taken_pending [OF w m] taken_used [OF claimable_candidate [OF w m]]
    show ?thesis by (intro exI [of _ "(taken f w)\<lparr>cd_calls := c\<rparr>"]) simp
  qed
qed

text \<open>Without interference, taking the earliest is matching everything.\<close>

lemma exec_tryConsume:
  assumes "calm env" and "dir_ok w"
  shows "exec (tryConsume env name k) w = exec (tryConsumeMatching env name (\<lambda>_. True) k) w"
proof -
  have ok: "listing_ok (entries (cd_control w))" using assms(2) by (simp add: dir_ok_def)
  show ?thesis
  proof (cases "sort_key fst (candidates name (entries (cd_control w)))")
    case (Cons x cs)
    obtain s f where x: "x = (s, f)" by fastforce
    have "(s, f) \<in> set (candidates name (entries (cd_control w)))" using Cons x by (metis list.set_intros(1) set_sort)
    from claimable_candidate [OF assms(2) this] have cl: "claimable (w\<lparr>cd_calls := Suc (cd_calls w)\<rparr>) f" by simp
    have "claimable (w\<lparr>cd_calls := Suc (Suc (cd_calls w))\<rparr>) f" using cl by simp
    from exec_claim [OF assms(1) this] show ?thesis
      unfolding tryConsume_def tryConsumeMatching_def exec_sortedCandidates [OF assms(1) ok] Cons x
      by (simp add: called_def exec_readFile [OF assms(1) cl])
  qed (simp_all add: tryConsume_def tryConsumeMatching_def exec_sortedCandidates [OF assms(1) ok])
qed

lemma consumes_tryConsume: "calm env \<Longrightarrow> consumes (tryConsume env name) name (\<lambda>_. True)"
  using consumes_matching [of env name "\<lambda>_. True"] exec_tryConsume unfolding consumes_def by simp

lemma takeFirst_None: "fst (takeFirst mf q) = None \<Longrightarrow> snd (takeFirst mf q) = q"
  by (induction mf q rule: takeFirst.induct) (auto split: if_splits prod.splits)

lemma takeFirst_mset: "fst (takeFirst mf q) = Some x \<Longrightarrow> mset q = add_mset x (mset (snd (takeFirst mf q)))"
  by (induction mf q rule: takeFirst.induct) (auto split: if_splits prod.splits)

definition got :: "broker_result \<Rightarrow> (int \<times> string) option" where
  "got r = (case r of BGot d \<Rightarrow> Some (dl_Seq d, dl_Payload d) | _ \<Rightarrow> None)"

lemma exec_poll:
  assumes "consumes attempt name mf" and "dir_ok w"
  shows "\<exists>r w'. exec (poll attempt n) w = (r, w') \<and> got r = fst (takeFirst mf (pending w name))
    \<and> dir_ok w' \<and> pending w' = (pending w)(name := snd (takeFirst mf (pending w name))) \<and> used w' = used w"
  using assms(2)
proof (induction n arbitrary: w rule: less_induct)
  case (less n)
  let ?k = "\<lambda>r. case r of Inl e \<Rightarrow> Ret (BErr e) | Inr (Some d) \<Rightarrow> Ret (BGot d)
    | Inr None \<Rightarrow> (case n of 0 \<Rightarrow> Ret (BErr CtxErr) | Suc m \<Rightarrow> poll attempt m)"
  obtain w1 where w1: "exec (attempt ?k) w
        = exec (?k (Inr (map_option (\<lambda>(s, p). \<lparr>dl_Name = name, dl_Seq = s, dl_Payload = p\<rparr>) (fst (takeFirst mf (pending w name)))))) w1"
      "dir_ok w1" "pending w1 = (pending w)(name := snd (takeFirst mf (pending w name)))" "used w1 = used w"
    using assms(1) less.prems unfolding consumes_def by blast
  have p: "exec (poll attempt n) w = exec (attempt ?k) w" by (subst poll.simps) (rule refl)
  show ?case
  proof (cases "fst (takeFirst mf (pending w name))")
    case None
    note same = takeFirst_None [OF this]
    have e: "exec (poll attempt n) w = exec (case n of 0 \<Rightarrow> Ret (BErr CtxErr) | Suc m \<Rightarrow> poll attempt m) w1"
      using p w1(1) None by simp
    show ?thesis
    proof (cases n)
      case 0
      with None e w1(2-4) show ?thesis by (simp add: got_def fun_upd_def)
    next
      case (Suc m)
      with None same e w1(2-4) less.IH [of m w1] show ?thesis by simp
    qed
  next
    case (Some x)
    with w1 p show ?thesis by (auto simp: got_def split: prod.split)
  qed
qed

text \<open>One send and one receive, as functions of the directory.\<close>

definition send :: "broker_env \<Rightarrow> string \<Rightarrow> string \<Rightarrow> control_dir \<Rightarrow> control_dir" where
  "send env name payload w = snd (exec (WriteSignal env name payload) w)"

definition recv :: "broker_env \<Rightarrow> string \<Rightarrow> (string \<Rightarrow> bool) option \<Rightarrow> nat \<Rightarrow> control_dir \<Rightarrow> (int \<times> string) option \<times> control_dir" where
  "recv env name match ticks w = map_prod got id (exec (ReceiveMatching env name match ticks) w)"

definition everything :: "(string \<Rightarrow> bool) option \<Rightarrow> string \<Rightarrow> bool" where
  "everything match = (case match of None \<Rightarrow> \<lambda>_. True | Some m \<Rightarrow> m)"

datatype queue_op = QSend string string | QRecv string "(string \<Rightarrow> bool) option" nat

fun queue_run :: "(string \<Rightarrow> string \<Rightarrow> 'w \<Rightarrow> 'w) \<Rightarrow> (string \<Rightarrow> (string \<Rightarrow> bool) option \<Rightarrow> nat \<Rightarrow> 'w \<Rightarrow> (int \<times> string) option \<times> 'w) \<Rightarrow>
    queue_op list \<Rightarrow> 'w \<Rightarrow> (string \<times> int \<times> string) list \<times> 'w" where
  "queue_run sendq recvq [] w = ([], w)"
| "queue_run sendq recvq (QSend n p # ops) w = queue_run sendq recvq ops (sendq n p w)"
| "queue_run sendq recvq (QRecv n m t # ops) w =
     (case recvq n m t w of (r, w1) \<Rightarrow>
      case queue_run sendq recvq ops w1 of (rs, w2) \<Rightarrow> ((case r of None \<Rightarrow> rs | Some x \<Rightarrow> (n, x) # rs), w2))"

text \<open>What was sent under a name, with the numbers it gets, and what was received under it.\<close>

fun sent :: "string \<Rightarrow> int \<Rightarrow> queue_op list \<Rightarrow> (int \<times> string) list" where
  "sent n h [] = []"
| "sent n h (QSend m p # ops) = (if m = n then (h + 1, p) # sent n (h + 1) ops else sent n h ops)"
| "sent n h (QRecv _ _ _ # ops) = sent n h ops"

definition received :: "string \<Rightarrow> (string \<times> int \<times> string) list \<Rightarrow> (int \<times> string) list" where
  "received n rs = map snd (filter (\<lambda>(m, _). m = n) rs)"

fun op_name :: "queue_op \<Rightarrow> string" where
  "op_name (QSend n _) = n"
| "op_name (QRecv n _ _) = n"

fun unconditional :: "string \<Rightarrow> queue_op \<Rightarrow> bool" where
  "unconditional n (QRecv m match _) = (m = n \<longrightarrow> match = None)"
| "unconditional n (QSend _ _) = True"

locale signal_queue =
  fixes inv :: "'w \<Rightarrow> bool" and pend :: "'w \<Rightarrow> string \<Rightarrow> (int \<times> string) list" and high :: "'w \<Rightarrow> string \<Rightarrow> int"
    and sendq :: "string \<Rightarrow> string \<Rightarrow> 'w \<Rightarrow> 'w"
    and recvq :: "string \<Rightarrow> (string \<Rightarrow> bool) option \<Rightarrow> nat \<Rightarrow> 'w \<Rightarrow> (int \<times> string) option \<times> 'w"
    and good :: "string \<Rightarrow> bool" and cap :: int
  assumes send_law: "inv w \<Longrightarrow> good n \<Longrightarrow> high w n < cap \<Longrightarrow>
      inv (sendq n p w) \<and> pend (sendq n p w) = (pend w)(n := pend w n @ [(high w n + 1, p)])
      \<and> high (sendq n p w) = (high w)(n := high w n + 1)"
    and recv_law: "inv w \<Longrightarrow> good n \<Longrightarrow> \<exists>w'.
      recvq n m t w = (fst (takeFirst (everything m) (pend w n)), w') \<and> inv w'
      \<and> pend w' = (pend w)(n := snd (takeFirst (everything m) (pend w n))) \<and> high w' = high w"
begin

text \<open>Every signal is delivered at most once, and none is lost or made up.\<close>

lemma exactly_once:
  assumes "inv w" and "list_all (good \<circ> op_name) ops" and "\<And>m. high w m + int (length ops) \<le> cap"
    and "queue_run sendq recvq ops w = (rs, w')"
  shows "mset (received n rs) + mset (pend w' n) = mset (pend w n) + mset (sent n (high w n) ops)"
  using assms
proof (induction ops arbitrary: w rs)
  case (Cons q ops)
  show ?case
  proof (cases q)
    case (QSend m p)
    have "high w m < cap" using Cons.prems(3) [of m] by simp
    with Cons.prems QSend send_law [of w m p] have i: "inv (sendq m p w)" and
      s: "pend (sendq m p w) = (pend w)(m := pend w m @ [(high w m + 1, p)])" "high (sendq m p w) = (high w)(m := high w m + 1)"
      by auto
    have "high (sendq m p w) k + int (length ops) \<le> cap" for k using Cons.prems(3) [of k] s by auto
    from Cons.IH [OF i _ this, of rs] Cons.prems(2,4) QSend s show ?thesis by (auto split: if_splits)
  next
    case (QRecv m f t)
    let ?x = "takeFirst (everything f) (pend w m)"
    obtain w1 where w1: "recvq m f t w = (fst ?x, w1)" "inv w1" "pend w1 = (pend w)(m := snd ?x)" "high w1 = high w"
      using recv_law Cons.prems QRecv by fastforce
    obtain rs1 where r: "queue_run sendq recvq ops w1 = (rs1, w')" "rs = (case fst ?x of None \<Rightarrow> rs1 | Some x \<Rightarrow> (m, x) # rs1)"
      using Cons.prems(4) w1(1) QRecv by (auto split: prod.splits)
    have "high w1 k + int (length ops) \<le> cap" for k using Cons.prems(3) [of k] w1(4) by simp
    from Cons.IH [OF w1(2) _ this r(1)] Cons.prems(2) w1
    have IH: "mset (received n rs1) + mset (pend w' n) = mset (pend w1 n) + mset (sent n (high w n) ops)" by simp
    have "mset (received n rs) + mset (pend w1 n) = mset (received n rs1) + mset (pend w n)"
      using r(2) w1(3) takeFirst_None [of "everything f" "pend w m"] takeFirst_mset [of "everything f" "pend w m"]
      by (auto simp: received_def split: option.splits)
    with IH have "(mset (received n rs) + mset (pend w1 n)) + (mset (received n rs1) + mset (pend w' n))
        = (mset (received n rs1) + mset (pend w n)) + (mset (pend w1 n) + mset (sent n (high w n) ops))" by simp
    then have "(mset (received n rs) + mset (pend w' n)) + (mset (received n rs1) + mset (pend w1 n))
        = (mset (pend w n) + mset (sent n (high w n) ops)) + (mset (received n rs1) + mset (pend w1 n))"
      by (simp only: ac_simps)
    with QRecv show ?thesis by simp
  qed
qed (simp add: received_def)

text \<open>Unconditional receives deliver in the order of sending.\<close>

lemma fifo:
  assumes "inv w" and "list_all (good \<circ> op_name) ops" and "\<And>m. high w m + int (length ops) \<le> cap"
    and "queue_run sendq recvq ops w = (rs, w')" and "list_all (unconditional n) ops"
  shows "received n rs @ pend w' n = pend w n @ sent n (high w n) ops"
  using assms
proof (induction ops arbitrary: w rs)
  case (Cons q ops)
  show ?case
  proof (cases q)
    case (QSend m p)
    have "high w m < cap" using Cons.prems(3) [of m] by simp
    with Cons.prems QSend send_law [of w m p] have i: "inv (sendq m p w)" and
      s: "pend (sendq m p w) = (pend w)(m := pend w m @ [(high w m + 1, p)])" "high (sendq m p w) = (high w)(m := high w m + 1)"
      by auto
    have "high (sendq m p w) k + int (length ops) \<le> cap" for k using Cons.prems(3) [of k] s by auto
    from Cons.IH [OF i _ this, of rs] Cons.prems(2,4,5) QSend s show ?thesis by (auto split: if_splits)
  next
    case (QRecv m f t)
    let ?x = "takeFirst (everything f) (pend w m)"
    obtain w1 where w1: "recvq m f t w = (fst ?x, w1)" "inv w1" "pend w1 = (pend w)(m := snd ?x)" "high w1 = high w"
      using recv_law Cons.prems QRecv by fastforce
    obtain rs1 where r: "queue_run sendq recvq ops w1 = (rs1, w')" "rs = (case fst ?x of None \<Rightarrow> rs1 | Some x \<Rightarrow> (m, x) # rs1)"
      using Cons.prems(4) w1(1) QRecv by (auto split: prod.splits)
    have "high w1 k + int (length ops) \<le> cap" for k using Cons.prems(3) [of k] w1(4) by simp
    from Cons.IH [OF w1(2) _ this r(1)] Cons.prems(2,5) w1
    have IH: "received n rs1 @ pend w' n = pend w1 n @ sent n (high w n) ops" by simp
    have "received n rs @ pend w' n = (if m = n then (case fst ?x of None \<Rightarrow> [] | Some x \<Rightarrow> [x]) else []) @ received n rs1 @ pend w' n"
      using r(2) by (auto simp: received_def split: option.splits)
    moreover have "f = None" if "m = n" using Cons.prems(5) QRecv that by simp
    ultimately show ?thesis using IH w1(3) QRecv
      by (cases "pend w n") (auto simp: everything_def)
  qed
qed (simp add: received_def)

end

subsection \<open>The directory implements the queue\<close>

lemma send_law_holds:
  assumes "calm env" and "dir_ok w" and "good_name n" and "used w n < 2 ^ 63 - 1"
  shows "dir_ok (send env n p w) \<and> pending (send env n p w) = (pending w)(n := pending w n @ [(used w n + 1, p)])
    \<and> used (send env n p w) = (used w)(n := used w n + 1)"
  unfolding send_def exec_WriteSignal [OF assms(1,3,2,4)]
  using send_dir_ok [OF assms(3,2,4)] send_pending [OF assms(3,2,4)] send_used [OF assms(3,4)] by simp

lemma recv_law_holds:
  assumes "calm env" and "dir_ok w" and "good_name n"
  shows "\<exists>w'. recv env n m t w = (fst (takeFirst (everything m) (pending w n)), w') \<and> dir_ok w'
    \<and> pending w' = (pending w)(n := snd (takeFirst (everything m) (pending w n))) \<and> used w' = used w"
proof -
  have v: "validateSignalName n" using assms(3) by (simp add: good_name_def)
  show ?thesis
  proof (cases m)
    case None
    with exec_poll [OF consumes_tryConsume [OF assms(1)] assms(2), of n t] v show ?thesis
      by (auto simp: recv_def ReceiveMatching_def Receive_def everything_def)
  next
    case (Some mf)
    with exec_poll [OF consumes_matching [OF assms(1)] assms(2), of n mf t] v show ?thesis
      by (auto simp: recv_def ReceiveMatching_def everything_def)
  qed
qed

interpretation sq: signal_queue "\<lambda>w. calm env \<and> dir_ok w" pending used "send env" "recv env" good_name "2 ^ 63 - 1" for env
  by unfold_locales (use send_law_holds recv_law_holds in auto)

text \<open>
  C16: Signals are queues. When no system call fails and one operation runs at a time, whatever the
  sequence of sends and receives on names that do not end in a dash: the signals received under a
  name together with those still pending are those pending before and those sent, each exactly
  once and with consecutive sequence numbers; and if the receives of that name carry no
  predicate, they come in the order of sending.
\<close>
theorem signals_are_fifo_queues:
  assumes "calm env" and "dir_ok w" and "list_all (good_name \<circ> op_name) ops"
    and "\<And>m. used w m + int (length ops) \<le> 2 ^ 63 - 1"
    and "queue_run (send env) (recv env) ops w = (rs, w')"
  shows "mset (received n rs) + mset (pending w' n) = mset (pending w n) + mset (sent n (used w n) ops)
    \<and> (list_all (unconditional n) ops \<longrightarrow> received n rs @ pending w' n = pending w n @ sent n (used w n) ops)"
  using sq.exactly_once [OF _ assms(3-5)] sq.fifo [OF _ assms(3-5)] assms(1,2) by blast

definition empty_dir :: control_dir where
  "empty_dir = \<lparr>cd_control = None, cd_consumed = None, cd_inodes = [], cd_calls = 0\<rparr>"

definition no_faults :: broker_env where
  "no_faults = \<lparr>be_fault = (\<lambda>_. False), be_partial = (\<lambda>_. 0)\<rparr>"

lemma empty_dir_facts [simp]:
  "calm no_faults" "dir_ok empty_dir" "used empty_dir m = 0" "pending empty_dir m = []"
  by (simp_all add: calm_def no_faults_def empty_dir_def dir_ok_def entries_def listing_ok_def used_def pending_def)

theorem signals_are_fifo_queues_witness:
  "\<exists>rs w'. queue_run (send no_faults) (recv no_faults)
       [QSend ''go'' ''1'', QSend ''go'' ''2'', QRecv ''go'' None 0] empty_dir = (rs, w')
     \<and> received ''go'' rs @ pending w' ''go'' = [(1, ''1''), (2, ''2'')]"
proof -
  let ?ops = "[QSend ''go'' ''1'', QSend ''go'' ''2'', QRecv ''go'' None 0]"
  obtain rs w' where r: "queue_run (send no_faults) (recv no_faults) ?ops empty_dir = (rs, w')" by fastforce
  have "list_all (good_name \<circ> op_name) ?ops"
    by (simp add: good_name_def validateSignalName_def isLetterUnd_def Let_def)
  from signals_are_fifo_queues [OF _ _ this _ r, of "''go''"] r show ?thesis by auto
qed

subsection \<open>Names ending in a dash\<close>

lemma parse_not_dash: "parseSignalFileName fileName = Some (name, s) \<Longrightarrow> last name \<noteq> CHR ''-''"
  by (auto simp: parseSignalFileName_def Let_def split: if_splits option.splits)

lemma dash_candidates: "last name = CHR ''-'' \<Longrightarrow> candidates name es = []"
  by (induction name es rule: candidates.induct) (auto split: dirent.splits option.splits dest: parse_not_dash)

lemma exec_tryConsume_nothing:
  "calm env \<Longrightarrow> last name = CHR ''-'' \<Longrightarrow> exec (tryConsume env name k) w = exec (k (Inr None)) (called w)"
  by (simp add: tryConsume_def sortedCandidates_def readDir_def exec_syscall dash_candidates split: option.split)

lemma exec_poll_nothing:
  assumes "calm env" and "last name = CHR ''-''"
  shows "fst (exec (poll (tryConsume env name) n) w) = BErr CtxErr"
  using assms by (induction n arbitrary: w; subst poll.simps) (simp_all add: exec_tryConsume_nothing)

text \<open>
  A signal whose name ends in a dash is accepted by the name rule and written, but no receive
  of that name, however long it waits, ever delivers it.
\<close>
lemma dash_name_is_never_delivered:
  assumes "calm env" and "validateSignalName name" and "last name = CHR ''-''"
  shows "fst (exec (WriteSignal env name payload) empty_dir) = BWrote 1
    \<and> fst (exec (Receive env name ticks) w) = BErr CtxErr"
proof
  show "fst (exec (WriteSignal env name payload) empty_dir) = BWrote 1"
    using assms(1,2) by (subst exec_WriteSignal_free) (simp_all add: empty_dir_def used_def entries_def)
  show "fst (exec (Receive env name ticks) w) = BErr CtxErr"
    using assms exec_poll_nothing by (simp add: Receive_def)
qed

lemma dash_name_is_never_delivered_witness:
  "fst (exec (WriteSignal no_faults ''a-'' ''{}'') empty_dir) = BWrote 1
    \<and> fst (exec (Receive no_faults ''a-'' 1000) (snd (exec (WriteSignal no_faults ''a-'' ''{}'') empty_dir))) = BErr CtxErr"
  by (rule dash_name_is_never_delivered) (simp_all add: validateSignalName_def isLetterUnd_def Let_def)

subsection \<open>A receiver between the creation of the file and its write\<close>

lemma advance_syscall:
  "calm env \<Longrightarrow> advance (Suc n) (syscall env failed act) w = (case act (called w) of (p, w') \<Rightarrow> advance n p w')"
  by (simp add: syscall_def calm_def)

lemma advance_scanDir:
  assumes "calm env" and "entries (dir (called w)) = []"
  shows "advance (Suc n) (scanDir env dir name m k) w = advance n (k (Some m)) (called w)"
  using assms by (cases "dir (called w)") (simp_all add: scanDir_def readDir_def advance_syscall entries_def sort_by_def)

text \<open>The writer up to its empty file, and what is left of it.\<close>

definition write_rest :: B where
  "write_rest = writeInode no_faults 0 ''{}'' (\<lambda>ok.
     if \<not> ok then removeFile no_faults (signalFileName ''go'' 1) (Ret (BErr WriteErr))
     else syscall no_faults (Ret (BErr CloseErr)) (\<lambda>w. (Ret (BWrote 1), w)))"

lemma advance_write:
  "advance 4 (WriteSignal no_faults ''go'' ''{}'') empty_dir = (write_rest, (after_send ''go'' [] empty_dir)\<lparr>cd_calls := 4\<rparr>)"
proof -
  have four: "(4 :: nat) = Suc (Suc (Suc (Suc 0)))" and fifty: "(50 :: nat) = Suc 49" by simp_all
  have v: "validateSignalName ''go''" by (simp add: validateSignalName_def isLetterUnd_def Let_def)
  have wrap1: "wrap64 (0 + 1) = 1" "wrap64 1 = 1" by (simp_all add: wrap64_def)
  show ?thesis
    unfolding WriteSignal_def fifty write_attempts.simps(2) four using v
    by (simp add: mkdirControl_def advance_syscall nextSeq_def advance_scanDir entries_def wrap1 openExcl_def
        empty_dir_def Let_def pm_put_def write_rest_def)
      (simp add: after_send_def called_def used_def entries_def wrap1 cong: if_cong)
qed

lemma go_is_good: "good_name ''go''"
  by (simp add: good_name_def validateSignalName_def isLetterUnd_def Let_def)

text \<open>
  C25: A receiver may deliver a signal before its payload is written: the file is created under its
  final name and filled afterwards, and in the schedule where a receive runs between the two, it
  delivers an empty payload while the sender reports success for \<^verbatim>\<open>{}\<close>.
\<close>
theorem receiver_can_see_unwritten_payload:
  "\<exists>d w'. steps (\<lambda>_ _. False)
       (Par [WriteSignal no_faults ''go'' ''{}'', Receive no_faults ''go'' 0] k, empty_dir)
       (Par [Ret (BWrote 1), Ret (BGot d)] k, w')
     \<and> dl_Seq d = 1 \<and> dl_Payload d = []"
proof -
  let ?R = "Receive no_faults ''go'' 0" and ?w1 = "(after_send ''go'' [] empty_dir)\<lparr>cd_calls := 4\<rparr>"
  have p: "pending ?w1 ''go'' = [(1, [])]" and ok: "dir_ok ?w1"
    using send_pending [OF go_is_good, of empty_dir "[]"] send_dir_ok [OF go_is_good, of empty_dir "[]"] by simp_all
  obtain r w2 where r: "exec ?R ?w1 = (r, w2)" "got r = Some (1, [])"
    using exec_poll [OF consumes_tryConsume ok, of no_faults "''go''" 0] p go_is_good
    by (auto simp: Receive_def good_name_def)
  then obtain d where d: "r = BGot d" "dl_Seq d = 1" "dl_Payload d = []"
    by (auto simp: got_def split: broker_result.splits)
  have "\<not> be_fault no_faults n" for n by (simp add: no_faults_def)
  then obtain w3 where w3: "exec write_rest w2 = (BWrote 1, w3)"
    by (simp add: write_rest_def writeInode_def exec_Act exec_syscall)
  have "steps (\<lambda>_ _. False) (Par ([] @ WriteSignal no_faults ''go'' ''{}'' # [?R]) k, empty_dir) (Par ([] @ write_rest # [?R]) k, ?w1)"
    using advance_steps [of "\<lambda>_ _. False" "WriteSignal no_faults ''go'' ''{}''" empty_dir 4]
    by (intro fork_steps) (simp add: advance_write)
  moreover have "steps (\<lambda>_ _. False) (Par ([write_rest] @ ?R # []) k, ?w1) (Par ([write_rest] @ Ret r # []) k, w2)"
    using exec_steps [of "\<lambda>_ _. False" ?R ?w1] r(1) by (intro fork_steps) simp
  moreover have "steps (\<lambda>_ _. False) (Par ([] @ write_rest # [Ret r]) k, w2) (Par ([] @ Ret (BWrote 1) # [Ret r]) k, w3)"
    using exec_steps [of "\<lambda>_ _. False" write_rest w2] w3 by (intro fork_steps) simp
  ultimately have "steps (\<lambda>_ _. False) (Par [WriteSignal no_faults ''go'' ''{}'', ?R] k, empty_dir)
      (Par [Ret (BWrote 1), Ret (BGot d)] k, w3)"
    using d(1) by (simp add: rtranclp_trans)
  with d(2,3) show ?thesis by blast
qed

end
