(* ===== verification/Run_Lifecycle.thy ===== *)
theory Run_Lifecycle
  imports Engine_Step
begin

text \<open>
  The life of a run as the command line sees it: the end of \<open>awf run\<close> and \<open>awf resume\<close>
  (src/cli/execute.go), the status \<open>awf ls\<close> lists (src/obs/runstatus.go, src/cli/ls.go) and the
  admission of \<open>awf resume\<close> (src/cli/resume_admission.go), all read from the journal; and the run
  lock (src/runlock/runlock.go) that tells a running run from a crashed one.
\<close>

subsection \<open>The end of a run\<close>

definition ExitOK :: int where "ExitOK = 0"
definition ExitUsage :: int where "ExitUsage = 2"
definition ExitRunFailed :: int where "ExitRunFailed = 1"
definition ExitInfra :: int where "ExitInfra = 3"

text \<open>
  \<open>finishRunResultWithState\<close>: the exit code, whether teardown is skipped, and the journal. The
  arguments say whether the append and the sync succeed and whether an engine error is a failure to
  persist state (both exits are \<open>ExitInfra\<close>).
\<close>

definition valid_pair :: "result \<Rightarrow> bool" where
  "valid_pair r \<longleftrightarrow> (case r of (oc, err) \<Rightarrow>
     (oc = OutcomeOK \<and> err = None)
     \<or> ((oc = OutcomeRetryableFailure \<or> oc = OutcomePermanentFailure \<or> oc = OutcomeRejected) \<and> err \<noteq> None)
     \<or> (oc = NoOutcome \<and> err \<noteq> None))"

definition exit_code :: "outcome \<Rightarrow> int" where
  "exit_code oc = (case oc of
     OutcomeOK \<Rightarrow> ExitOK
   | OutcomeRetryableFailure \<Rightarrow> ExitRunFailed
   | OutcomePermanentFailure \<Rightarrow> ExitRunFailed
   | OutcomeRejected \<Rightarrow> ExitRunFailed
   | _ \<Rightarrow> ExitInfra)"

definition finishRunResult :: "bool \<Rightarrow> bool \<Rightarrow> bool \<Rightarrow> result \<Rightarrow> jevent list \<Rightarrow> int \<times> bool \<times> jevent list" where
  "finishRunResult append_ok sync_ok state_failure r jl =
     (case r of (oc, err) \<Rightarrow>
        if oc = NoOutcome \<and> err = Some ErrPaused then (ExitOK, True, jl)
        else if oc = NoOutcome \<and> err = Some ErrCancelled then (ExitOK, False, jl)
        else if oc = NoOutcome \<and> err \<noteq> None \<and> state_failure then (ExitInfra, False, jl)
        else if \<not> valid_pair r then (ExitInfra, False, jl)
        else if oc = NoOutcome then (exit_code oc, False, jl)
        else if \<not> append_ok then (ExitInfra, False, jl)
        else let jl = jl @ [\<lparr>jPath = [], jData = RunFinished (outcome_string oc)\<rparr>]
             in if \<not> sync_ok then (ExitInfra, False, jl) else (exit_code oc, False, jl))"

subsection \<open>The listed status\<close>

datatype run_status = StRunning | StPaused | StFinished | StFailed | StResumable | StCancelled | StCrashed | StIncomplete

text \<open>The verdict of a \<open>run.finished\<close> event; one that does not decode counts as failed.\<close>

definition finished_status :: "string option \<Rightarrow> run_status" where
  "finished_status oc = (case oc of
     None \<Rightarrow> StFailed
   | Some s \<Rightarrow> if s = outcome_string OutcomeOK then StFinished
               else if s = outcome_string OutcomeRetryableFailure then StResumable
               else StFailed)"

fun scan_status :: "bool \<Rightarrow> jevent list \<Rightarrow> run_status + bool" where
  "scan_status paused [] = Inr paused"
| "scan_status paused (e # es) =
     (if event_type (jData e) = ''run.cancelled'' then Inl StCancelled
      else if event_type (jData e) = ''run.finished''
      then Inl (finished_status (case jData e of RunFinished s \<Rightarrow> Some s | _ \<Rightarrow> None))
      else if event_type (jData e) = ''run.paused'' then scan_status True es
      else if event_type (jData e) = ''run.resumed'' then scan_status False es
      else scan_status paused es)"

definition DeriveStatus :: "jevent list \<Rightarrow> run_status" where
  "DeriveStatus events =
     (case scan_status False events of
        Inl st \<Rightarrow> st
      | Inr paused \<Rightarrow>
          if events \<noteq> [] \<and> event_type (jData (last events)) = ''node.failed''
          then (case jData (last events) of
                  NodeFailed oc _ \<Rightarrow> if oc = outcome_string OutcomeRetryableFailure then StResumable else StFailed
                | _ \<Rightarrow> StFailed)
          else if paused then StPaused
          else StIncomplete)"

text \<open>The exclusive lock of a running run, and the shared probe for it.\<close>

record run_lock =
  rl_exists :: bool
  rl_holder :: "nat option"

definition Acquire :: "nat \<Rightarrow> run_lock \<Rightarrow> bool \<times> run_lock" where
  "Acquire pid l = (case rl_holder l of
     Some _ \<Rightarrow> (False, l\<lparr>rl_exists := True\<rparr>)
   | None \<Rightarrow> (True, l\<lparr>rl_exists := True, rl_holder := Some pid\<rparr>))"

definition Release :: "nat \<Rightarrow> run_lock \<Rightarrow> run_lock" where
  "Release pid l = (if rl_holder l = Some pid then l\<lparr>rl_holder := None\<rparr> else l)"

definition Held :: "run_lock \<Rightarrow> bool" where
  "Held l \<longleftrightarrow> rl_exists l \<and> rl_holder l \<noteq> None"

definition listed_status :: "run_lock \<Rightarrow> jevent list \<Rightarrow> run_status" where
  "listed_status l events =
     (let st = DeriveStatus events
      in if st = StIncomplete then (if Held l then StRunning else StCrashed) else st)"

subsection \<open>Admission of a resume\<close>

datatype admission = Refused string | Admitted string

fun scan_finished :: "jevent list \<Rightarrow> string option \<Rightarrow> bool \<Rightarrow> (string option \<times> bool) option" where
  "scan_finished [] finished cancelled = Some (finished, cancelled)"
| "scan_finished (e # es) finished cancelled =
     (if event_type (jData e) = ''run.finished''
      then (case jData e of RunFinished s \<Rightarrow> scan_finished es (Some s) cancelled | _ \<Rightarrow> None)
      else if event_type (jData e) = ''run.cancelled'' then scan_finished es finished True
      else scan_finished es finished cancelled)"

definition resumeAdmission :: "jevent list \<Rightarrow> admission" where
  "resumeAdmission events =
     (case scan_finished events None False of
        None \<Rightarrow> Refused ''corrupt run.finished''
      | Some (Some oc, _) \<Rightarrow>
          if oc = outcome_string OutcomeOK then Refused ''already finished (ok)'' else Admitted oc
      | Some (None, cancelled) \<Rightarrow> Admitted (if cancelled then ''cancelled'' else []))"

subsection \<open>Facts\<close>

definition terminal :: "jevent \<Rightarrow> bool" where
  "terminal e \<longleftrightarrow> event_type (jData e) = ''run.finished'' \<or> event_type (jData e) = ''run.cancelled''"

definition pause_step :: "bool \<Rightarrow> jevent \<Rightarrow> bool" where
  "pause_step p e = (if event_type (jData e) = ''run.paused'' then True
     else if event_type (jData e) = ''run.resumed'' then False else p)"

lemma scan_status_append:
  "list_all (Not \<circ> terminal) es \<Longrightarrow> scan_status p (es @ rest) = scan_status (foldl pause_step p es) rest"
  by (induction es arbitrary: p) (auto simp: terminal_def pause_step_def)

lemma scan_finished_append:
  "list_all (Not \<circ> terminal) es \<Longrightarrow> scan_finished (es @ rest) f c = scan_finished rest f c"
  by (induction es) (auto simp: terminal_def)

text \<open>
  The listed status of a run is its first verdict. Whatever follows the first
  \<^verbatim>\<open>run.finished\<close> or \<^verbatim>\<open>run.cancelled\<close> of a journal, \<open>DeriveStatus\<close> returns the status of
  that first event, while a resume is admitted or refused on the last one: a run that failed
  retryably and was resumed to success is refused as finished and still listed as resumable.
\<close>
lemma listed_status_is_the_first_verdict:
  assumes "list_all (Not \<circ> terminal) early" and "list_all (Not \<circ> terminal) middle"
  shows "listed_status l (early @ \<lparr>jPath = [], jData = RunFinished oc\<rparr> # later) = finished_status (Some oc)
    \<and> listed_status l (early @ \<lparr>jPath = [], jData = RunCancelled reason\<rparr> # later) = StCancelled
    \<and> resumeAdmission (early @ \<lparr>jPath = [], jData = RunFinished oc\<rparr> # middle @ [\<lparr>jPath = [], jData = RunFinished oc'\<rparr>])
        = resumeAdmission (early @ [\<lparr>jPath = [], jData = RunFinished oc'\<rparr>])
    \<and> listed_status l (early @ \<lparr>jPath = [], jData = RunFinished (outcome_string OutcomeRetryableFailure)\<rparr>
        # middle @ [\<lparr>jPath = [], jData = RunFinished (outcome_string OutcomeOK)\<rparr>]) = StResumable"
  using assms
  by (auto simp: listed_status_def DeriveStatus_def scan_status_append resumeAdmission_def scan_finished_append finished_status_def
      outcome_string_def Let_def)

lemma listed_status_is_the_first_verdict_witness:
  "listed_status \<lparr>rl_exists = True, rl_holder = None\<rparr>
     ([\<lparr>jPath = ''a'', jData = NodeStarted ''code''\<rparr>]
      @ \<lparr>jPath = [], jData = RunFinished (outcome_string OutcomeRetryableFailure)\<rparr>
      # [\<lparr>jPath = [], jData = RunResumed 2\<rparr>] @ [\<lparr>jPath = [], jData = RunFinished (outcome_string OutcomeOK)\<rparr>]) = StResumable"
  using listed_status_is_the_first_verdict
    [of "[\<lparr>jPath = ''a'', jData = NodeStarted ''code''\<rparr>]" "[\<lparr>jPath = [], jData = RunResumed 2\<rparr>]"
      "\<lparr>rl_exists = True, rl_holder = None\<rparr>"]
  by (simp add: terminal_def finished_status_def outcome_string_def)

text \<open>
  The end of a run that was not started early is what is listed and what a resume sees: with a
  journal that holds no verdict yet, and when the append and the sync succeed, the exit code is 0
  exactly for an outcome ok or a pause or cancellation, the status is finished, resumable or failed
  as the outcome is ok, retryable or another failure, and a resume is refused exactly when the
  outcome is ok.
\<close>
lemma finished_run_is_listed_and_admitted:
  assumes "list_all (Not \<circ> terminal) jl" and "valid_pair r" and "fst r \<noteq> NoOutcome"
    and "finishRunResult True True sf r jl = (code, skip, jl')"
  shows "(code = ExitOK \<longleftrightarrow> fst r = OutcomeOK) \<and> \<not> skip
    \<and> listed_status l jl' = (case fst r of OutcomeOK \<Rightarrow> StFinished | OutcomeRetryableFailure \<Rightarrow> StResumable | _ \<Rightarrow> StFailed)
    \<and> ((\<exists>m. resumeAdmission jl' = Refused m) \<longleftrightarrow> fst r = OutcomeOK)"
proof -
  obtain oc err where r: "r = (oc, err)" by fastforce
  have l: "jl' = jl @ [\<lparr>jPath = [], jData = RunFinished (outcome_string oc)\<rparr>]" "code = exit_code oc" "\<not> skip"
    using assms(2-4) r by (auto simp: finishRunResult_def Let_def)
  show ?thesis
    using assms(1-3) r l
    by (cases oc) (simp_all add: valid_pair_def exit_code_def ExitOK_def ExitRunFailed_def ExitInfra_def listed_status_def
        DeriveStatus_def scan_status_append finished_status_def outcome_string_def resumeAdmission_def scan_finished_append)
qed

lemma finished_run_is_listed_and_admitted_witness:
  "\<exists>jl'. finishRunResult True True False (OutcomeRetryableFailure, Some ErrCtx) [] = (ExitRunFailed, False, jl')
    \<and> listed_status \<lparr>rl_exists = True, rl_holder = None\<rparr> jl' = StResumable"
proof -
  obtain code skip jl' where f: "finishRunResult True True False (OutcomeRetryableFailure, Some ErrCtx) [] = (code, skip, jl')"
    by (metis prod_cases3)
  from finished_run_is_listed_and_admitted [OF _ _ _ this, of "\<lparr>rl_exists = True, rl_holder = None\<rparr>"]
  have "\<not> skip" "listed_status \<lparr>rl_exists = True, rl_holder = None\<rparr> jl' = StResumable" by (simp_all add: valid_pair_def)
  moreover have "code = ExitRunFailed" using f by (simp add: finishRunResult_def valid_pair_def exit_code_def Let_def)
  ultimately show ?thesis using f by auto
qed

end
